(* ===== verification/Prelude.thy ===== *)
theory Prelude
  imports Main "HOL-Library.Word" "HOL-Library.Monad_Syntax" "HOL-Library.Sublist"
begin

text \<open>
  What every component of the development shares: the machine types of the C code, C
  buffers and C strings (lists of characters, with the terminating NUL written out), and the
  collections of rewrite rules the component theories feed.

  Conventions. A C object in memory is a list, its length is the size of the object; an
  access outside it is undefined behaviour and is the value \<open>None\<close> of the option monad.
  A C string is such a buffer that holds a NUL character; its value, \<open>cstr\<close>, is what
  precedes the first NUL. Integers of the C code are \<open>int\<close> with the conversions written
  out (\<open>s32\<close>, \<open>u32\<close>, \<open>u64\<close>) in the hosted programs, and machine words in the
  kernel.
\<close>

unbundle bit_operations_syntax

type_synonym u8w = "8 word"
type_synonym u16w = "16 word"
type_synonym u32w = "32 word"

named_theorems buf_simps
named_theorems cstr_simps

section \<open>Conversions between C integer types\<close>

definition s32 :: "int \<Rightarrow> int" where
  "s32 x = signed_take_bit 31 x"

definition u32 :: "int \<Rightarrow> int" where
  "u32 x = x mod 2 ^ 32"

definition u64 :: "int \<Rightarrow> int" where
  "u64 x = x mod 2 ^ 64"

lemma s32_id: "- (2 ^ 31) \<le> x \<Longrightarrow> x < 2 ^ 31 \<Longrightarrow> s32 x = x"
  by (simp add: s32_def signed_take_bit_int_eq_self)

lemma u64_id: "0 \<le> x \<Longrightarrow> x < 2 ^ 64 \<Longrightarrow> u64 x = x"
  by (simp add: u64_def)

lemma u32_id: "0 \<le> x \<Longrightarrow> x < 2 ^ 32 \<Longrightarrow> u32 x = x"
  by (simp add: u32_def)

lemma u64_nonneg [simp]: "0 \<le> u64 x"
  by (simp add: u64_def)

lemma u64_le: "0 \<le> x \<Longrightarrow> u64 x \<le> x"
  by (simp add: u64_def zmod_le_nonneg_dividend)

lemma u64_neg:
  assumes "- (2 ^ 64) \<le> x" and "x < 0"
  shows "u64 x = x + 2 ^ 64"
proof -
  have "u64 x = (x + 2 ^ 64) mod 2 ^ 64" unfolding u64_def by (rule mod_add_self2 [symmetric])
  also have "\<dots> = x + 2 ^ 64" using assms by (intro mod_pos_pos_trivial) linarith+
  finally show ?thesis .
qed

section \<open>Buffers\<close>

definition peek :: "'a list \<Rightarrow> nat \<Rightarrow> 'a option" where
  "peek buf i = (if i < length buf then Some (buf ! i) else None)"

definition poke :: "'a list \<Rightarrow> nat \<Rightarrow> 'a \<Rightarrow> 'a list option" where
  "poke buf i x = (if i < length buf then Some (buf[i := x]) else None)"

text \<open>Copy a block into a buffer at an offset, as \<open>memcpy (buf + i, xs, length xs)\<close>.\<close>

definition blit :: "'a list \<Rightarrow> nat \<Rightarrow> 'a list \<Rightarrow> 'a list option" where
  "blit buf i xs =
     (if i + length xs \<le> length buf
      then Some (take i buf @ xs @ drop (i + length xs) buf) else None)"

text \<open>Read a block of a buffer, the source side of \<open>memcpy\<close>.\<close>

definition slice :: "'a list \<Rightarrow> nat \<Rightarrow> nat \<Rightarrow> 'a list option" where
  "slice buf i n = (if i + n \<le> length buf then Some (take n (drop i buf)) else None)"

lemma peek_Some [buf_simps]: "i < length buf \<Longrightarrow> peek buf i = Some (buf ! i)"
  by (simp add: peek_def)

lemma poke_Some [buf_simps]: "i < length buf \<Longrightarrow> poke buf i x = Some (buf[i := x])"
  by (simp add: poke_def)

lemma peek_eq_Some_iff: "peek buf i = Some x \<longleftrightarrow> i < length buf \<and> buf ! i = x"
  by (auto simp: peek_def)

lemma poke_eq_Some_iff: "poke buf i x = Some b \<longleftrightarrow> i < length buf \<and> b = buf[i := x]"
  by (auto simp: poke_def)

lemma blit_eq_Some_iff:
  "blit buf i xs = Some b \<longleftrightarrow>
     i + length xs \<le> length buf \<and> b = take i buf @ xs @ drop (i + length xs) buf"
  by (auto simp: blit_def)

lemma blit_Some [buf_simps]:
  "i + length xs \<le> length buf \<Longrightarrow>
     blit buf i xs = Some (take i buf @ xs @ drop (i + length xs) buf)"
  by (simp add: blit_def)

lemma blit_length: "blit buf i xs = Some b \<Longrightarrow> length b = length buf"
  by (auto simp: blit_eq_Some_iff)

lemma slice_Some [buf_simps]:
  "i + n \<le> length buf \<Longrightarrow> slice buf i n = Some (take n (drop i buf))"
  by (simp add: slice_def)

lemma slice_length: "slice buf i n = Some xs \<Longrightarrow> length xs = n"
  by (auto simp: slice_def split: if_splits)

lemma slice_blit_same:
  assumes "blit buf i xs = Some b"
  shows "slice b i (length xs) = Some xs"
  using assms by (auto simp: blit_eq_Some_iff slice_def)

lemma slice_blit_before:
  assumes "blit buf i xs = Some b" and "j + n \<le> i"
  shows "slice b j n = slice buf j n"
proof -
  have "take n (drop j (take i buf)) = take n (drop j buf)"
    using assms(2) by (simp add: drop_take min_absorb1)
  with assms show ?thesis by (auto simp: blit_eq_Some_iff slice_def)
qed

section \<open>C strings\<close>

definition NUL :: char where
  "NUL = CHR 0x00"

definition NL :: char where
  "NL = CHR 0x0A"

lemma NL_neq_NUL [simp]: "NL \<noteq> NUL" "NUL \<noteq> NL"
  by (simp_all add: NL_def NUL_def)

definition cstr :: "string \<Rightarrow> string" where
  "cstr buf = takeWhile (\<lambda>c. c \<noteq> NUL) buf"

definition terminated :: "string \<Rightarrow> bool" where
  "terminated buf \<longleftrightarrow> NUL \<in> set buf"

text \<open>A string value: what a C string can hold, that is no NUL.\<close>

definition nul_free :: "string \<Rightarrow> bool" where
  "nul_free s \<longleftrightarrow> NUL \<notin> set s"

definition strlen_c :: "string \<Rightarrow> nat option" where
  "strlen_c buf = (if terminated buf then Some (length (cstr buf)) else None)"

text \<open>\<open>strcpy (buf + i, s)\<close> for a string value: the terminating NUL is copied too.\<close>

definition strcpy_c :: "string \<Rightarrow> nat \<Rightarrow> string \<Rightarrow> string option" where
  "strcpy_c buf i s = blit buf i (s @ [NUL])"

fun strchr_c :: "string \<Rightarrow> char \<Rightarrow> nat option" where
  "strchr_c [] c = None"
| "strchr_c (x # xs) c = (if x = c then Some 0 else map_option Suc (strchr_c xs c))"

text \<open>The last occurrence; \<open>strrchr\<close> returns a pointer, the model its index.\<close>

fun strrchr_c :: "string \<Rightarrow> char \<Rightarrow> nat option" where
  "strrchr_c [] c = None"
| "strrchr_c (x # xs) c =
     (case strrchr_c xs c of Some i \<Rightarrow> Some (Suc i)
      | None \<Rightarrow> if x = c then Some 0 else None)"

lemma nul_free_simps [cstr_simps]:
  "nul_free []"
  "nul_free (x # xs) \<longleftrightarrow> x \<noteq> NUL \<and> nul_free xs"
  "nul_free (xs @ ys) \<longleftrightarrow> nul_free xs \<and> nul_free ys"
  by (auto simp: nul_free_def)

lemma nul_free_cstr [simp]: "nul_free (cstr buf)"
  by (auto simp: nul_free_def cstr_def dest: set_takeWhileD)

lemma nul_free_take: "nul_free s \<Longrightarrow> nul_free (take n s)"
  by (auto simp: nul_free_def dest: in_set_takeD)

lemma nul_free_drop: "nul_free s \<Longrightarrow> nul_free (drop n s)"
  by (auto simp: nul_free_def dest: in_set_dropD)

lemma cstr_append_NUL [cstr_simps]: "nul_free s \<Longrightarrow> cstr (s @ NUL # rest) = s"
  by (auto simp: nul_free_def cstr_def takeWhile_append takeWhile_eq_all_conv)

lemma cstr_nul_free [cstr_simps]: "nul_free s \<Longrightarrow> cstr s = s"
  by (auto simp: nul_free_def cstr_def takeWhile_eq_all_conv)

lemma cstr_append [cstr_simps]: "nul_free s \<Longrightarrow> cstr (s @ t) = s @ cstr t"
  by (auto simp: nul_free_def cstr_def takeWhile_append)

lemma cstr_NUL [cstr_simps]: "cstr (NUL # s) = []"
  by (simp add: cstr_def)

lemma cstr_Cons [cstr_simps]: "x \<noteq> NUL \<Longrightarrow> cstr (x # s) = x # cstr s"
  by (simp add: cstr_def)

lemma terminated_simps [cstr_simps]:
  "terminated (x # s) \<longleftrightarrow> x = NUL \<or> terminated s" "\<not> terminated []"
  by (auto simp: terminated_def)

lemma terminated_append_NUL [cstr_simps]: "terminated (s @ NUL # rest)"
  by (simp add: terminated_def)

lemma terminated_decomp:
  assumes "terminated buf"
  obtains rest where "buf = cstr buf @ NUL # rest"
proof -
  from assms have "NUL \<in> set buf" by (simp add: terminated_def)
  then obtain ys zs where buf: "buf = ys @ NUL # zs" and "NUL \<notin> set ys"
    by (meson split_list_first)
  then have "cstr buf = ys" by (simp add: cstr_append_NUL nul_free_def)
  with buf have "buf = cstr buf @ NUL # zs" by simp
  then show thesis by (rule that)
qed

lemma cstr_length_le: "length (cstr buf) \<le> length buf"
  by (simp add: cstr_def length_takeWhile_le)

lemma terminated_length: "terminated buf \<Longrightarrow> length (cstr buf) < length buf"
proof (rule ccontr)
  assume t: "terminated buf" and "\<not> length (cstr buf) < length buf"
  then have "length (cstr buf) = length buf" using cstr_length_le [of buf] by simp
  then have "cstr buf = buf" by (metis cstr_def takeWhile_eq_take take_all order_refl)
  with t nul_free_cstr [of buf] show False by (simp add: terminated_def nul_free_def)
qed

lemma strlen_c_Some [cstr_simps]: "terminated buf \<Longrightarrow> strlen_c buf = Some (length (cstr buf))"
  by (simp add: strlen_c_def)

lemma strlen_c_eq_Some_iff: "strlen_c buf = Some n \<longleftrightarrow> terminated buf \<and> n = length (cstr buf)"
  by (auto simp: strlen_c_def)

lemma nth_cstr: "i < length (cstr buf) \<Longrightarrow> cstr buf ! i = buf ! i"
  by (simp add: cstr_def takeWhile_nth)

lemma nth_length_cstr: "terminated buf \<Longrightarrow> buf ! length (cstr buf) = NUL"
  by (erule terminated_decomp) (metis nth_append_length)

lemma strcpy_c_eq_Some_iff:
  "strcpy_c buf i s = Some b \<longleftrightarrow>
     i + length s < length buf \<and> b = take i buf @ s @ NUL # drop (Suc (i + length s)) buf"
  by (auto simp: strcpy_c_def blit_eq_Some_iff)

lemma strchr_c_None: "strchr_c s c = None \<longleftrightarrow> c \<notin> set s"
  by (induction s) auto

lemma strchr_c_Some:
  "strchr_c s c = Some i \<Longrightarrow> i < length s \<and> s ! i = c \<and> c \<notin> set (take i s)"
  by (induction s arbitrary: i) (auto split: if_splits)

lemma strrchr_c_None: "strrchr_c s c = None \<longleftrightarrow> c \<notin> set s"
  by (induction s) (auto split: option.splits)

lemma strrchr_c_Some:
  "strrchr_c s c = Some i \<Longrightarrow> i < length s \<and> s ! i = c \<and> c \<notin> set (drop (Suc i) s)"
proof (induction s arbitrary: i)
  case (Cons x xs)
  then show ?case
    by (auto split: option.splits if_splits simp: strrchr_c_None)
qed simp

lemma strrchr_c_append:
  "c \<notin> set t \<Longrightarrow> strrchr_c (s @ c # t) c = Some (length s)"
proof (induction s)
  case Nil
  then show ?case by (simp add: strrchr_c_None [THEN iffD2])
next
  case (Cons a s)
  then show ?case by simp
qed

section \<open>Counting loops\<close>

text \<open>
  The search loops of the program, \<open>while (i < n && !p (i)) i++\<close>, all have this shape.
\<close>

function first_from :: "(nat \<Rightarrow> bool) \<Rightarrow> nat \<Rightarrow> nat \<Rightarrow> nat" where
  "first_from p i n = (if i < n \<and> \<not> p i then first_from p (Suc i) n else i)"
  by pat_completeness auto
termination
  by (relation "measure (\<lambda>(p, i, n). n - i)") auto

declare first_from.simps [simp del]

lemma first_from_props:
  "i \<le> n \<Longrightarrow> i \<le> first_from p i n \<and> first_from p i n \<le> n
     \<and> (first_from p i n < n \<longrightarrow> p (first_from p i n))
     \<and> (\<forall>j. i \<le> j \<and> j < first_from p i n \<longrightarrow> \<not> p j)"
proof (induction p i n rule: first_from.induct)
  case (1 p i n)
  show ?case
  proof (cases "i < n \<and> \<not> p i")
    case True
    with 1 have IH: "Suc i \<le> first_from p (Suc i) n \<and> first_from p (Suc i) n \<le> n
      \<and> (first_from p (Suc i) n < n \<longrightarrow> p (first_from p (Suc i) n))
      \<and> (\<forall>j. Suc i \<le> j \<and> j < first_from p (Suc i) n \<longrightarrow> \<not> p j)"
      by simp
    have eq: "first_from p i n = first_from p (Suc i) n"
      using True by (subst first_from.simps) simp
    have "\<not> p j" if "i \<le> j" "j < first_from p i n" for j
      using that True IH eq by (cases "j = i") auto
    then show ?thesis using IH eq by simp
  next
    case False
    then show ?thesis using 1(2) by (subst (1 2 3 4 5) first_from.simps) auto
  qed
qed

lemma first_from_le: "i \<le> n \<Longrightarrow> first_from p i n \<le> n"
  using first_from_props by blast

lemma first_from_sat: "first_from p 0 n < n \<Longrightarrow> p (first_from p 0 n)"
  using first_from_props [of 0 n p] by blast

lemma first_from_least: "j < first_from p 0 n \<Longrightarrow> \<not> p j"
  using first_from_props [of 0 n p] by blast

lemma first_from_none: "first_from p 0 n = n \<longleftrightarrow> (\<forall>j<n. \<not> p j)"
  using first_from_props [of 0 n p] by (metis le0 nat_less_le)

lemma first_from_eqI:
  assumes "k < n" and "p k" and "\<forall>j<k. \<not> p j"
  shows "first_from p 0 n = k"
proof (rule ccontr)
  assume "first_from p 0 n \<noteq> k"
  then consider "first_from p 0 n < k" | "k < first_from p 0 n" by linarith
  then show False
  proof cases
    case 1
    with assms first_from_sat [of p n] show False by simp
  next
    case 2
    with assms first_from_least show False by blast
  qed
qed

lemma first_from_cong:
  assumes "\<And>j. j < n \<Longrightarrow> p j = q j"
  shows "first_from p 0 n = first_from q 0 n"
proof (cases "first_from q 0 n < n")
  case True
  with assms first_from_sat [OF True] first_from_least [of _ q n] show ?thesis
    by (intro first_from_eqI) auto
next
  case False
  then have "first_from q 0 n = n" using first_from_le [of 0 n q] by simp
  moreover from this have "first_from p 0 n = n"
    using assms by (simp add: first_from_none)
  ultimately show ?thesis by simp
qed

text \<open>Two positions of a window of \<open>n\<close> share a slot of a ring only if they are the same.\<close>

lemma window_inj:
  fixes i j n p :: nat
  assumes "i mod n = j mod n" and "p \<le> i" "p \<le> j" "i < p + n" "j < p + n"
  shows "i = j"
proof (rule ccontr)
  assume "i \<noteq> j"
  moreover have "False" if "a < b" "a mod n = b mod n" "p \<le> a" "b < p + n" for a b
  proof -
    have "n dvd b - a" using that(1,2) by (metis less_imp_le mod_eq_dvd_iff_nat)
    moreover have "0 < b - a" "b - a < n" using that by auto
    ultimately show False by (auto dest: dvd_imp_le)
  qed
  ultimately show False using assms by (metis linorder_less_linear)
qed

end
