(* ===== verification/Fs_Inodes.thy ===== *)
theory Fs_Inodes
  imports Prelude
begin

text \<open>
  The inode layer of the FUSE file system, \<open>file_system/fs.c\<close> and \<open>fs.h\<close>: the
  superblock (a fixed table of inodes with a bitmap), path lookup, inode creation and removal,
  and the directory contents, which are text: one entry per line.

  The global \<open>superblock\<close> and \<open>errno\<close> are the record \<open>fs\<close>, passed and returned.
  The inode table is a function on indices; the code only uses indices below
  \<open>INODES_AMOUNT\<close>. A \<open>char*\<close> content is a heap block: its characters, or \<open>None\<close> for
  a null or freed pointer. What the C library and the operating system decide (the clock, the
  ids, whether an allocation succeeds, what fresh memory holds) is the parameter \<open>os\<close>.
  Functions that can leave a buffer return an option, \<open>None\<close> being undefined behaviour.
\<close>

section \<open>Data\<close>

definition INITIAL_CONTENT_LENGTH :: nat where "INITIAL_CONTENT_LENGTH = 1024"
definition INODES_AMOUNT :: nat where "INODES_AMOUNT = 1024"
definition MAX_PATH :: nat where "MAX_PATH = 256"
definition FS_ERROR :: int where "FS_ERROR = -1"

definition ENOENT :: int where "ENOENT = 2"
definition ENOMEM :: int where "ENOMEM = 12"
definition ENOTDIR :: int where "ENOTDIR = 20"
definition EISDIR :: int where "EISDIR = 21"
definition ENOSPC :: int where "ENOSPC = 28"
definition ENAMETOOLONG :: int where "ENAMETOOLONG = 36"
definition ENOTEMPTY :: int where "ENOTEMPTY = 39"

named_theorems fs_consts

lemmas [fs_consts] = INITIAL_CONTENT_LENGTH_def INODES_AMOUNT_def MAX_PATH_def FS_ERROR_def
  ENOENT_def ENOMEM_def ENOTDIR_def EISDIR_def ENOSPC_def ENAMETOOLONG_def ENOTEMPTY_def

datatype inode_type = INODE_FILE | INODE_DIR

record inode =
  i_path :: string
  i_content :: "string option"
  i_size :: int
  i_type :: inode_type
  i_last_access :: int
  i_last_modification :: int
  i_creation_time :: int
  i_group :: int
  i_owner :: int
  i_permissions :: int

record fs =
  inodes :: "nat \<Rightarrow> inode"
  inode_bitmap :: "nat \<Rightarrow> int"
  inode_amount :: int
  errno :: int

text \<open>
  The operating system as the code sees it: \<open>time (NULL)\<close> on its successive calls,
  \<open>getgid\<close>, \<open>getuid\<close>, whether a block of a given size can be allocated, and the content of
  memory nobody initialised. A negative \<open>int\<close> size converts to one above \<open>PTRDIFF_MAX\<close>,
  which the allocator always refuses.
\<close>

record os =
  clock :: "nat \<Rightarrow> int"
  os_gid :: int
  os_uid :: int
  can_alloc :: "int \<Rightarrow> bool"
  junk :: "nat \<Rightarrow> char"

definition uninit :: "os \<Rightarrow> nat \<Rightarrow> string" where
  "uninit w n = map (junk w) [0..<n]"

definition calloc :: "os \<Rightarrow> int \<Rightarrow> string option" where
  "calloc w n = (if 0 \<le> n \<and> can_alloc w n then Some (replicate (nat n) NUL) else None)"

definition realloc :: "os \<Rightarrow> string \<Rightarrow> int \<Rightarrow> string option" where
  "realloc w buf n =
     (if 0 \<le> n \<and> can_alloc w n
      then Some (take (nat n) buf @ map (junk w) [length buf..<nat n]) else None)"

lemma length_uninit [simp]: "length (uninit w n) = n"
  by (simp add: uninit_def)

lemma realloc_ok: "0 \<le> n \<Longrightarrow> can_alloc w n \<Longrightarrow> \<exists>b. realloc w buf n = Some b"
  by (simp add: realloc_def)

lemma realloc_length: "realloc w buf n = Some b \<Longrightarrow> length b = nat n"
  by (auto simp: realloc_def min_def split: if_splits)

lemma realloc_take: "realloc w buf n = Some b \<Longrightarrow> take (min (length buf) (nat n)) b = take (nat n) buf"
  by (auto simp: realloc_def min_def split: if_splits)

section \<open>Lookup\<close>

text \<open>\<open>search_inode\<close>: the first used inode with this path, or \<open>ERROR\<close>.\<close>

definition search_inode :: "fs \<Rightarrow> string \<Rightarrow> int" where
  "search_inode s p =
     (let i = first_from (\<lambda>i. \<not> (inode_bitmap s i = 0 \<or> cstr (i_path (inodes s i)) \<noteq> p))
                0 INODES_AMOUNT
      in if i = INODES_AMOUNT then FS_ERROR else int i)"

definition search_free_inode :: "fs \<Rightarrow> int" where
  "search_free_inode s =
     (let i = first_from (\<lambda>i. \<not> inode_bitmap s i \<noteq> 0) 0 INODES_AMOUNT
      in if i = INODES_AMOUNT then -1 else int i)"

section \<open>Directory contents\<close>

text \<open>
  \<open>get_next_entry\<close>: the inner loop copies up to the next newline or NUL. Returns the new
  offset and the buffer. At the end of the content neither changes.
\<close>

function entry_scan :: "string \<Rightarrow> nat \<Rightarrow> nat \<Rightarrow> string \<Rightarrow> (nat \<times> nat \<times> string) option" where
  "entry_scan content aux i buff =
     (if aux < length content
      then (let c = content ! aux in
            if c \<noteq> NL \<and> c \<noteq> NUL
            then (case poke buff i c of
                    None \<Rightarrow> None
                  | Some buff' \<Rightarrow> entry_scan content (Suc aux) (Suc i) buff')
            else Some (aux, i, buff))
      else None)"
  by pat_completeness auto
termination
  by (relation "measure (\<lambda>(content, aux, i, buff). length content - aux)") auto

declare entry_scan.simps [simp del]

definition get_next_entry :: "string \<Rightarrow> nat \<Rightarrow> string \<Rightarrow> (nat \<times> string) option" where
  "get_next_entry content offset buff = do {
     (aux, i, buff) \<leftarrow> entry_scan content offset 0 buff;
     c \<leftarrow> peek content aux;
     if c = NUL \<and> i = 0 then Some (offset, buff)
     else do {
       buff \<leftarrow> poke buff i NUL;
       Some (offset + Suc i, buff)
     }
   }"

text \<open>
  \<open>add_dentry_to_content\<close> writes the newline into the caller's \<open>dentry\<close> buffer and appends
  the line to the content, growing it when the bookkeeping says it is full. Returns the
  content, its size, the caller's buffer and \<open>errno\<close>.
\<close>

definition add_dentry_to_content ::
  "os \<Rightarrow> int \<Rightarrow> string \<Rightarrow> int \<Rightarrow> string \<Rightarrow> (string \<times> int \<times> string \<times> int) option" where
  "add_dentry_to_content w err content content_size dentry = do {
     dentry_size \<leftarrow> strlen_c dentry;
     dentry \<leftarrow> poke dentry dentry_size NL;
     let dentry_size = Suc dentry_size;
     dentry \<leftarrow> poke dentry dentry_size NUL;
     content_length \<leftarrow> strlen_c content;
     if int (content_length + dentry_size) > content_size
     then (let new_size = content_size + int dentry_size + int INITIAL_CONTENT_LENGTH in
           case realloc w content new_size of
             None \<Rightarrow> Some (content, content_size, dentry, ENOMEM)
           | Some new_content \<Rightarrow> do {
               new_content \<leftarrow> strcpy_c new_content content_length (cstr dentry);
               Some (new_content, new_size, dentry, err)
             })
     else do {
       content \<leftarrow> strcpy_c content content_length (cstr dentry);
       Some (content, content_size, dentry, err)
     }
   }"

section \<open>Inodes\<close>

definition create_inode :: "os \<Rightarrow> fs \<Rightarrow> string \<Rightarrow> int \<Rightarrow> inode_type \<Rightarrow> (int \<times> fs) option" where
  "create_inode w s p mode type =
     (if length p \<ge> MAX_PATH then Some (- ENAMETOOLONG, s)
      else if search_free_inode s = -1 then Some (- ENOSPC, s)
      else do {
        let free_index = nat (search_free_inode s);
        let ino = inodes s free_index;
        path \<leftarrow> strcpy_c (i_path ino) 0 p;
        let ino = ino\<lparr>i_path := path, i_content := calloc w (int INITIAL_CONTENT_LENGTH)\<rparr>;
        case i_content ino of
          None \<Rightarrow> Some (- ENOMEM, s\<lparr>inodes := (inodes s)(free_index := ino)\<rparr>)
        | Some block \<Rightarrow> do {
            block \<leftarrow> poke block 0 NUL;
            let ino = ino\<lparr>i_content := Some block, i_size := 0, i_type := type,
                          i_last_access := clock w 0, i_last_modification := clock w 1,
                          i_creation_time := clock w 2, i_group := os_gid w,
                          i_owner := os_uid w, i_permissions := mode\<rparr>;
            Some (int free_index,
                  s\<lparr>inodes := (inodes s)(free_index := ino),
                    inode_bitmap := (inode_bitmap s)(free_index := 1),
                    inode_amount := inode_amount s + 1\<rparr>)
          }
      })"

text \<open>
  \<open>get_parent\<close> returns the index of the parent's inode, or no index and the error code. A
  path without a slash whose length is not 1 makes the code subtract from a null pointer.
\<close>

definition get_parent :: "fs \<Rightarrow> string \<Rightarrow> (nat option \<times> int) option" where
  "get_parent s p =
     (let last_slash = strrchr_c p (CHR ''/'') in
      if length p = 1 then Some (None, - ENOENT)
      else do {
        k \<leftarrow> last_slash;
        let parent_length = (if k = 0 then 1 else k);
        if parent_length < MAX_PATH
        then (let parent_index = search_inode s (take parent_length p) in
              if parent_index = FS_ERROR then Some (None, - ENOENT)
              else Some (Some (nat parent_index), 0))
        else None
      })"

text \<open>
  The copying loop of \<open>remove_inode\<close>: every entry but \<open>dir_entry\<close> goes to the new
  content. The loop is a \<open>partial_function\<close>: that it returns is a theorem.
\<close>

partial_function (option) copy_other_entries ::
  "os \<Rightarrow> string \<Rightarrow> nat \<Rightarrow> string \<Rightarrow> nat \<Rightarrow> string \<Rightarrow> int \<Rightarrow> int \<Rightarrow> (string \<times> int \<times> int) option"
where
  "copy_other_entries w content content_length dir_entry offset new_content new_size err =
     (if offset < content_length
      then do {
        (offset, buff) \<leftarrow> get_next_entry content offset (uninit w (MAX_PATH + 1));
        (new_content, new_size, err) \<leftarrow>
          (if cstr buff \<noteq> dir_entry
           then do {
             (new_content, new_size, _, err) \<leftarrow>
               add_dentry_to_content w err new_content new_size buff;
             Some (new_content, new_size, err)
           }
           else Some (new_content, new_size, err));
        copy_other_entries w content content_length dir_entry offset new_content new_size err
      }
      else Some (new_content, new_size, err))"

definition remove_inode :: "os \<Rightarrow> fs \<Rightarrow> string \<Rightarrow> nat \<Rightarrow> fs option" where
  "remove_inode w s p inode_index = do {
     let s = s\<lparr>inode_bitmap := (inode_bitmap s)(inode_index := 0)\<rparr>;
     (parent, error) \<leftarrow> get_parent s p;
     case parent of
       None \<Rightarrow> Some s
     | Some k \<Rightarrow>
         if error \<noteq> 0 then Some s
         else (case strrchr_c p (CHR ''/'') of
           None \<Rightarrow> Some s
         | Some slash \<Rightarrow> do {
             let dir_entry = drop (Suc slash) p;
             case calloc w (i_size (inodes s k)) of
               None \<Rightarrow> Some s
             | Some new_content \<Rightarrow> do {
                 content \<leftarrow> i_content (inodes s k);
                 content_length \<leftarrow> strlen_c content;
                 (new_content, new_size, err) \<leftarrow>
                   copy_other_entries w content content_length dir_entry 0
                     new_content (i_size (inodes s k)) (errno s);
                 let tbl = (inodes s)(k := (inodes s k)\<lparr>i_content := None\<rparr>);
                 let tbl = tbl(inode_index := (tbl inode_index)\<lparr>i_content := None\<rparr>);
                 let tbl = tbl(k := (tbl k)\<lparr>i_content := Some new_content, i_size := new_size\<rparr>);
                 Some (s\<lparr>inodes := tbl, inode_amount := inode_amount s - 1, errno := err\<rparr>)
               }
           })
   }"

text \<open>
  \<open>add_dentry_to_parent_dir\<close>: \<open>dir_entry\<close> points into the path the caller passed, so the
  newline is written into that buffer, which is returned. A missing parent is reported as
  \<open>-ERROR\<close>, that is \<open>1\<close>.
\<close>

definition add_dentry_to_parent_dir :: "os \<Rightarrow> fs \<Rightarrow> string \<Rightarrow> (int \<times> fs \<times> string) option" where
  "add_dentry_to_parent_dir w s pathbuf = do {
     (parent, error) \<leftarrow> get_parent s (cstr pathbuf);
     case parent of
       None \<Rightarrow> Some (- FS_ERROR, s, pathbuf)
     | Some k \<Rightarrow>
         if error \<noteq> 0 then Some (- FS_ERROR, s, pathbuf)
         else if i_type (inodes s k) \<noteq> INODE_DIR
         then Some (- ENOTDIR, s\<lparr>errno := ENOTDIR\<rparr>, pathbuf)
         else do {
           slash \<leftarrow> strrchr_c (cstr pathbuf) (CHR ''/'');
           content \<leftarrow> i_content (inodes s k);
           (content, size, dentry, err) \<leftarrow>
             add_dentry_to_content w (errno s) content (i_size (inodes s k))
               (drop (Suc slash) pathbuf);
           let ino = (inodes s k)\<lparr>i_content := Some content, i_size := size\<rparr>;
           Some (0, s\<lparr>inodes := (inodes s)(k := ino), errno := err\<rparr>,
                 take (Suc slash) pathbuf @ dentry)
         }
   }"

section \<open>Lookup, characterised\<close>

definition used :: "fs \<Rightarrow> nat \<Rightarrow> bool" where
  "used s i \<longleftrightarrow> i < INODES_AMOUNT \<and> inode_bitmap s i \<noteq> 0"

definition path_of :: "fs \<Rightarrow> nat \<Rightarrow> string" where
  "path_of s i = cstr (i_path (inodes s i))"

lemma search_inode_cases:
  obtains (found) i where "search_inode s p = int i" "used s i" "path_of s i = p"
      "\<forall>j<i. \<not> (used s j \<and> path_of s j = p)"
  | (missing) "search_inode s p = FS_ERROR" "\<forall>i. \<not> (used s i \<and> path_of s i = p)"
proof -
  let ?P = "\<lambda>i. \<not> (inode_bitmap s i = 0 \<or> cstr (i_path (inodes s i)) \<noteq> p)"
  let ?k = "first_from ?P 0 INODES_AMOUNT"
  show thesis
  proof (cases "?k = INODES_AMOUNT")
    case True
    then have none: "\<forall>i<INODES_AMOUNT. \<not> ?P i" by (simp add: first_from_none)
    have "\<forall>i. \<not> (used s i \<and> path_of s i = p)"
      using none by (auto simp: used_def path_of_def)
    with True missing show thesis by (simp add: search_inode_def Let_def)
  next
    case False
    then have lt: "?k < INODES_AMOUNT" using first_from_le [of 0 INODES_AMOUNT ?P] by simp
    then have sat: "?P ?k" by (rule first_from_sat)
    have least: "\<not> (used s j \<and> path_of s j = p)" if "j < ?k" for j
      using first_from_least [OF that] by (auto simp: used_def path_of_def)
    show thesis
    proof (rule found)
      show "search_inode s p = int ?k" using False by (simp add: search_inode_def Let_def)
      show "used s ?k" using lt sat by (simp add: used_def)
      show "path_of s ?k = p" using sat by (simp add: path_of_def)
      show "\<forall>j<?k. \<not> (used s j \<and> path_of s j = p)" using least by blast
    qed
  qed
qed

lemma search_inode_bounds: "search_inode s p = FS_ERROR \<or> 0 \<le> search_inode s p \<and> search_inode s p < int INODES_AMOUNT"
  by (cases rule: search_inode_cases [of s p]) (auto simp: used_def)

lemma search_inode_error: "search_inode s p = FS_ERROR \<longleftrightarrow> (\<forall>i. \<not> (used s i \<and> path_of s i = p))"
  by (cases rule: search_inode_cases [of s p]) (auto simp: FS_ERROR_def)

lemma search_inode_found:
  assumes "search_inode s p \<noteq> FS_ERROR"
  shows "used s (nat (search_inode s p))" "path_of s (nat (search_inode s p)) = p"
    "0 \<le> search_inode s p"
  using assms by (cases rule: search_inode_cases [of s p]; simp)+

definition unique_paths :: "fs \<Rightarrow> bool" where
  "unique_paths s \<longleftrightarrow> (\<forall>i j. used s i \<and> used s j \<and> path_of s i = path_of s j \<longrightarrow> i = j)"

lemma search_inode_eqI:
  assumes "unique_paths s" and "used s i" and "path_of s i = p"
  shows "search_inode s p = int i"
proof (cases rule: search_inode_cases [of s p])
  case (found k)
  with assms show ?thesis unfolding unique_paths_def by metis
next
  case missing
  with assms show ?thesis by blast
qed

lemma search_inode_cong:
  "(\<And>i. i < INODES_AMOUNT \<Longrightarrow> inode_bitmap s' i = inode_bitmap s i) \<Longrightarrow>
   (\<And>i. i < INODES_AMOUNT \<Longrightarrow> i_path (inodes s' i) = i_path (inodes s i)) \<Longrightarrow>
   search_inode s' p = search_inode s p"
proof -
  assume "\<And>i. i < INODES_AMOUNT \<Longrightarrow> inode_bitmap s' i = inode_bitmap s i"
    and "\<And>i. i < INODES_AMOUNT \<Longrightarrow> i_path (inodes s' i) = i_path (inodes s i)"
  then have "first_from (\<lambda>i. \<not> (inode_bitmap s' i = 0 \<or> cstr (i_path (inodes s' i)) \<noteq> p)) 0 INODES_AMOUNT
      = first_from (\<lambda>i. \<not> (inode_bitmap s i = 0 \<or> cstr (i_path (inodes s i)) \<noteq> p)) 0 INODES_AMOUNT"
    by (intro first_from_cong) simp
  then show ?thesis by (simp only: search_inode_def)
qed

lemma search_free_inode_cases:
  obtains (free) i where "search_free_inode s = int i" "i < INODES_AMOUNT" "inode_bitmap s i = 0"
      "\<forall>j<i. used s j"
  | (full) "search_free_inode s = -1" "\<forall>i<INODES_AMOUNT. used s i"
proof -
  let ?P = "\<lambda>i. \<not> inode_bitmap s i \<noteq> 0"
  let ?k = "first_from ?P 0 INODES_AMOUNT"
  show thesis
  proof (cases "?k = INODES_AMOUNT")
    case True
    then have "\<forall>i<INODES_AMOUNT. used s i" by (auto simp: first_from_none used_def)
    with True full show thesis by (simp add: search_free_inode_def Let_def)
  next
    case False
    then have lt: "?k < INODES_AMOUNT" using first_from_le [of 0 INODES_AMOUNT ?P] by simp
    have "\<forall>j<?k. used s j"
      using lt first_from_least [of _ ?P INODES_AMOUNT] by (auto simp: used_def)
    with False lt first_from_sat [OF lt] free [of ?k] show thesis
      by (simp add: search_free_inode_def Let_def)
  qed
qed

section \<open>Directory contents as lists of names\<close>

definition unlines :: "string list \<Rightarrow> string" where
  "unlines es = concat (map (\<lambda>e. e @ [NL]) es)"

definition wf_entry :: "string \<Rightarrow> bool" where
  "wf_entry e \<longleftrightarrow> e \<noteq> [] \<and> NL \<notin> set e \<and> nul_free e"

text \<open>
  The block of a directory holds the lines of its entries; its recorded size is the block's,
  except in a directory nothing was ever added to.
\<close>

definition dir_block :: "string \<Rightarrow> int \<Rightarrow> string list \<Rightarrow> bool" where
  "dir_block block sz es \<longleftrightarrow>
     (\<exists>rest. block = unlines es @ NUL # rest) \<and> (\<forall>e\<in>set es. wf_entry e)
     \<and> (sz = int (length block) \<or> sz = 0 \<and> es = [])"

lemma unlines_simps [simp]:
  "unlines [] = []" "unlines (e # es) = e @ NL # unlines es" "unlines (es @ fs) = unlines es @ unlines fs"
  by (simp_all add: unlines_def)

lemma nul_free_unlines: "\<forall>e\<in>set es. wf_entry e \<Longrightarrow> nul_free (unlines es)"
  by (induction es) (auto simp: cstr_simps wf_entry_def)

lemma unlines_inj:
  "\<forall>e\<in>set es. wf_entry e \<Longrightarrow> \<forall>e\<in>set fs. wf_entry e \<Longrightarrow> unlines es = unlines fs \<Longrightarrow> es = fs"
proof (induction es arbitrary: fs)
  case Nil
  then show ?case by (cases fs) auto
next
  case (Cons e es)
  then obtain f gs where fs: "fs = f # gs" by (cases fs) auto
  have "takeWhile (\<lambda>c. c \<noteq> NL) (e @ NL # unlines es) = e"
    using Cons.prems(1) by (auto simp: wf_entry_def takeWhile_append takeWhile_eq_all_conv)
  moreover have "takeWhile (\<lambda>c. c \<noteq> NL) (f @ NL # unlines gs) = f"
    using Cons.prems(2) fs by (auto simp: wf_entry_def takeWhile_append takeWhile_eq_all_conv)
  ultimately have "e = f" using Cons.prems(3) fs by simp
  moreover from this have "unlines es = unlines gs" using Cons.prems(3) fs by simp
  then have "es = gs" using Cons.prems fs by (intro Cons.IH) simp_all
  ultimately show ?case using fs by simp
qed

lemma dir_block_cstr: "dir_block block sz es \<Longrightarrow> cstr block = unlines es"
  by (auto simp: dir_block_def cstr_simps nul_free_unlines)

lemma dir_block_terminated: "dir_block block sz es \<Longrightarrow> terminated block"
  by (auto simp: dir_block_def cstr_simps)

lemma dir_block_unique: "dir_block block sz es \<Longrightarrow> dir_block block size' fs \<Longrightarrow> es = fs"
  by (metis dir_block_cstr dir_block_def unlines_inj)

lemma dir_block_length: "dir_block block sz es \<Longrightarrow> length (unlines es) < length block"
  by (metis dir_block_cstr dir_block_terminated terminated_length)

lemma dir_block_empty: "n > 0 \<Longrightarrow> dir_block (replicate n NUL) (int n) []"
  by (cases n) (auto simp: dir_block_def)

text \<open>One call of \<open>get_next_entry\<close> at the start of a line reads that line.\<close>

lemma entry_scan_line:
  assumes "NL \<notin> set e" and "nul_free e" and "length e < length buff - i"
  shows "entry_scan (pre @ e @ NL # post) (length pre) i buff =
     Some (length pre + length e, i + length e, take i buff @ e @ drop (i + length e) buff)"
  using assms
proof (induction e arbitrary: pre i buff)
  case Nil
  then show ?case by (subst entry_scan.simps) (simp add: Let_def nth_append)
next
  case (Cons c e)
  from Cons.prems have c: "c \<noteq> NL" "c \<noteq> NUL" and i: "i < length buff"
    by (auto simp: cstr_simps)
  have "entry_scan (pre @ (c # e) @ NL # post) (length pre) i buff =
      entry_scan ((pre @ [c]) @ e @ NL # post) (length (pre @ [c])) (Suc i) (buff[i := c])"
    using c i by (subst entry_scan.simps) (simp add: Let_def nth_append poke_Some)
  also have "\<dots> = Some (length (pre @ [c]) + length e, Suc i + length e,
      take (Suc i) (buff[i := c]) @ e @ drop (Suc i + length e) (buff[i := c]))"
    using Cons.prems by (intro Cons.IH) (auto simp: cstr_simps)
  also have "take (Suc i) (buff[i := c]) = take i buff @ [c]"
    using i by (simp add: take_Suc_conv_app_nth)
  finally show ?case by simp
qed

lemma get_next_entry_line:
  assumes "wf_entry e" and "length e < length buff"
  shows "get_next_entry (pre @ e @ NL # post) (length pre) buff =
     Some (length pre + Suc (length e), e @ NUL # drop (Suc (length e)) buff)"
proof -
  have scan: "entry_scan (pre @ e @ NL # post) (length pre) 0 buff =
      Some (length pre + length e, length e, e @ drop (length e) buff)"
    using assms entry_scan_line [of e buff 0 pre post] by (simp add: wf_entry_def)
  have "(e @ drop (length e) buff)[length e := NUL] = e @ NUL # drop (Suc (length e)) buff"
    using assms(2) by (simp add: list_update_append Cons_nth_drop_Suc [symmetric])
  then show ?thesis
    using assms by (auto simp: get_next_entry_def scan peek_Some poke_Some nth_append
      wf_entry_def)
qed

text \<open>Appending a line, with room to spare or by growing the block.\<close>

lemma dentry_newline:
  assumes "nul_free e" and "dentry = e @ NUL # x # rest"
  shows "strlen_c dentry = Some (length e)"
    "poke dentry (length e) NL = Some (e @ NL # x # rest)"
    "poke (e @ NL # x # rest) (Suc (length e)) NUL = Some (e @ NL # NUL # rest)"
  using assms by (auto simp: cstr_simps poke_def list_update_append)

definition dentry_overflows :: "int \<Rightarrow> string list \<Rightarrow> string \<Rightarrow> bool" where
  "dentry_overflows sz es e \<longleftrightarrow> sz = int (length (unlines es) + Suc (length e))"

lemma strcpy_c_end:
  assumes "i + length s < length block"
  shows "strcpy_c block i s = Some (take i block @ s @ NUL # drop (Suc (i + length s)) block)"
  using assms by (simp add: strcpy_c_eq_Some_iff)

lemma dir_block_snoc:
  assumes "dir_block block sz es" and "wf_entry e" and "length block' > 0"
    and "block' = unlines es @ (e @ [NL]) @ NUL # rest" and "sz' = int (length block')"
  shows "dir_block block' sz' (es @ [e])"
  using assms by (auto simp: dir_block_def)

lemma dir_block_strlen: "dir_block block sz es \<Longrightarrow> strlen_c block = Some (length (unlines es))"
  by (simp add: strlen_c_eq_Some_iff dir_block_cstr dir_block_terminated)

lemma cstr_line: "wf_entry e \<Longrightarrow> cstr (e @ NL # NUL # rest) = e @ [NL]"
  by (simp add: wf_entry_def cstr_simps)

lemma add_dentry_in_place:
  assumes blk: "dir_block block sz es" and e: "wf_entry e"
    and dentry: "dentry = e @ NUL # x # rest"
    and room: "int (length (unlines es) + Suc (length e)) < sz"
  obtains block' where
    "add_dentry_to_content w err block sz dentry = Some (block', sz, e @ NL # NUL # rest, err)"
    "dir_block block' sz (es @ [e])" "length block' = length block" "sz = int (length block)"
proof -
  let ?n = "length (unlines es)"
  have nf: "nul_free e" using e by (simp add: wf_entry_def)
  obtain tail where b: "block = unlines es @ NUL # tail"
    using blk by (auto simp: dir_block_def)
  have szl: "sz = int (length block)" using blk room by (auto simp: dir_block_def)
  then have fits: "?n + length (e @ [NL]) < length block" using room by simp
  let ?b = "unlines es @ (e @ [NL]) @ NUL # drop (Suc (?n + length (e @ [NL]))) block"
  have tk: "take ?n block = unlines es" using b by simp
  have add: "add_dentry_to_content w err block sz dentry = Some (?b, sz, e @ NL # NUL # rest, err)"
    using room fits dir_block_strlen [OF blk]
    by (simp add: add_dentry_to_content_def dentry_newline [OF nf dentry] cstr_line [OF e] strcpy_c_end tk)
  have len: "length ?b = length block" using fits by simp
  have szb: "sz = int (length ?b)" using szl len by (simp only:)
  have "dir_block ?b sz (es @ [e])"
    by (rule dir_block_snoc [OF blk e _ refl szb]) simp
  with add len szl show thesis by (intro that [of ?b])
qed

lemma add_dentry_grow:
  assumes blk: "dir_block block sz es" and e: "wf_entry e"
    and dentry: "dentry = e @ NUL # x # rest"
    and full: "int (length (unlines es) + Suc (length e)) > sz" and mem: "\<forall>n. can_alloc w n"
  obtains block' sz' where
    "add_dentry_to_content w err block sz dentry = Some (block', sz', e @ NL # NUL # rest, err)"
    "dir_block block' sz' (es @ [e])" "sz' = int (length block')"
proof -
  let ?n = "length (unlines es)"
  let ?sz = "sz + int (Suc (length e)) + int INITIAL_CONTENT_LENGTH"
  have nf: "nul_free e" using e by (simp add: wf_entry_def)
  obtain tail where b: "block = unlines es @ NUL # tail"
    using blk by (auto simp: dir_block_def)
  have sz0: "sz \<ge> 0" using blk by (auto simp: dir_block_def)
  obtain b2 where r: "realloc w block ?sz = Some b2"
    using realloc_ok [of ?sz w block] sz0 mem by auto
  note l2 = realloc_length [OF r]
  have "sz = 0 \<and> es = [] \<or> ?n < nat sz"
    using blk dir_block_length [OF blk] by (auto simp: dir_block_def)
  then have fits: "?n + length (e @ [NL]) < length b2"
    using l2 sz0 by (auto simp: INITIAL_CONTENT_LENGTH_def)
  have le: "?n \<le> length block" "?n \<le> nat ?sz" using b fits l2 by simp_all
  have "take ?n b2 = take ?n (take (min (length block) (nat ?sz)) b2)" using le by (simp add: min_absorb1)
  also have "\<dots> = take ?n (take (nat ?sz) block)" by (simp only: realloc_take [OF r])
  also have "\<dots> = take ?n block" using le by (simp add: min_absorb1)
  finally have tk: "take ?n b2 = unlines es" using b by simp
  let ?b = "unlines es @ (e @ [NL]) @ NUL # drop (Suc (?n + length (e @ [NL]))) b2"
  have cpy: "strcpy_c b2 ?n (e @ [NL]) = Some ?b" using fits by (simp add: strcpy_c_end tk)
  have "add_dentry_to_content w err block sz dentry = Some (?b, ?sz, e @ NL # NUL # rest, err)"
    using full cpy unfolding add_dentry_to_content_def
    by (simp only: dentry_newline [OF nf dentry] dir_block_strlen [OF blk] Let_def r if_True
        Option.bind.bind_lunit prod.case option.case cstr_line [OF e])
  moreover have len: "length ?b = nat ?sz" using fits l2 by simp
  then have szl: "?sz = int (length ?b)" using sz0 by simp
  moreover have "dir_block ?b ?sz (es @ [e])"
    by (rule dir_block_snoc [OF blk e _ refl szl]) simp
  ultimately show thesis by (intro that [of ?b ?sz])
qed

lemma add_dentry_to_content_ok:
  assumes "dir_block block sz es" and "wf_entry e" and "dentry = e @ NUL # x # rest"
    and "\<not> dentry_overflows sz es e" and "\<forall>n. can_alloc w n"
  obtains block' sz' where
    "add_dentry_to_content w err block sz dentry = Some (block', sz', e @ NL # NUL # rest, err)"
    "dir_block block' sz' (es @ [e])" "sz' = int (length block')"
proof (cases "int (length (unlines es) + Suc (length e)) < sz")
  case True
  from assms(1,2,3) True show thesis
  proof (rule add_dentry_in_place [where w = w and err = err])
    fix b assume "add_dentry_to_content w err block sz dentry = Some (b, sz, e @ NL # NUL # rest, err)"
      and "dir_block b sz (es @ [e])" and "length b = length block" and "sz = int (length block)"
    then show thesis by (intro that [of b sz]) simp_all
  qed
next
  case False
  then have "int (length (unlines es) + Suc (length e)) > sz"
    using assms(4) by (simp add: dentry_overflows_def)
  from assms(1,2,3) this assms(5) show thesis
    by (rule add_dentry_grow [where w = w and err = err]) (rule that)
qed

text \<open>
  The boundary case of the size test: when the line fits exactly, the terminating NUL of
  \<open>strcpy\<close> falls one byte past the block.
\<close>

lemma add_dentry_to_content_overflow:
  assumes blk: "dir_block block sz es" and e: "wf_entry e"
    and dentry: "dentry = e @ NUL # x # rest" and exact: "dentry_overflows sz es e"
  shows "add_dentry_to_content w err block sz dentry = None"
proof -
  have nf: "nul_free e" and cs: "cstr (e @ NL # NUL # rest) = e @ [NL]"
    using e by (auto simp: wf_entry_def cstr_simps)
  have len: "strlen_c block = Some (length (unlines es))"
    using blk by (simp add: strlen_c_eq_Some_iff dir_block_cstr dir_block_terminated)
  have szz: "sz = int (length block)" using blk exact by (auto simp: dir_block_def dentry_overflows_def)
  then show ?thesis
    using exact by (simp add: add_dentry_to_content_def dentry_newline [OF nf dentry] len cs
      dentry_overflows_def strcpy_c_def blit_def)
qed

section \<open>Removing an entry\<close>

text \<open>
  The copying loop from the middle of a listing: what is still to be read is \<open>es\<close>, what is
  already in the new block is \<open>acc\<close>. It returns, and the new block holds the entries other
  than the removed one, in order.
\<close>

lemma copy_other_entries_ok:
  assumes "dir_block new nsz acc" and "nsz = int (length new)"
    and "\<forall>e\<in>set es. wf_entry e \<and> length e < MAX_PATH"
    and "length (unlines acc) + length (unlines es) < length new"
    and "content = pre @ unlines es @ NUL # post"
    and "clen = length pre + length (unlines es)"
  shows "\<exists>new'. copy_other_entries w content clen d (length pre) new nsz err
      = Some (new', nsz, err) \<and> length new' = length new
      \<and> dir_block new' nsz (acc @ filter (\<lambda>e. e \<noteq> d) es)"
  using assms
proof (induction es arbitrary: acc new pre)
  case Nil
  then show ?case by (simp add: copy_other_entries.simps)
next
  case (Cons e es)
  let ?junk = "drop (Suc (length e)) (uninit w (Suc MAX_PATH))"
  let ?buff = "e @ NUL # ?junk"
  let ?pre = "pre @ e @ [NL]"
  have e: "wf_entry e" "length e < MAX_PATH" using Cons.prems(3) by simp_all
  have content: "content = pre @ e @ NL # (unlines es @ NUL # post)"
    "content = ?pre @ unlines es @ NUL # post" using Cons.prems(5) by simp_all
  have nxt: "get_next_entry content (length pre) (uninit w (Suc MAX_PATH))
      = Some (length ?pre, ?buff)"
    unfolding content(1) using e by (subst get_next_entry_line) simp_all
  have name: "cstr ?buff = e" using e(1) by (simp add: wf_entry_def cstr_simps)
  have lt: "length pre < clen" using Cons.prems(6) by simp
  have clen: "clen = length ?pre + length (unlines es)" using Cons.prems(6) by simp
  note unfold = copy_other_entries.simps [of w content clen d "length pre"]
  show ?case
  proof (cases "e = d")
    case True
    have "\<exists>new'. copy_other_entries w content clen d (length ?pre) new nsz err
        = Some (new', nsz, err) \<and> length new' = length new
        \<and> dir_block new' nsz (acc @ filter (\<lambda>e. e \<noteq> d) es)"
      using Cons.prems content(2) clen by (intro Cons.IH) simp_all
    with True show ?thesis by (simp add: unfold nxt [unfolded True] name [unfolded True] lt)
  next
    case False
    obtain x rest where j: "?junk = x # rest"
      using e(2) by (cases ?junk) auto
    have room: "int (length (unlines acc) + Suc (length e)) < nsz"
      using Cons.prems(2,4) by simp
    obtain new1 where add: "add_dentry_to_content w err new nsz ?buff = Some (new1, nsz, e @ NL # NUL # rest, err)"
      and blk: "dir_block new1 nsz (acc @ [e])" and len1: "length new1 = length new"
      using add_dentry_in_place [OF Cons.prems(1) e(1) _ room] j by metis
    have "\<exists>new'. copy_other_entries w content clen d (length ?pre) new1 nsz err
        = Some (new', nsz, err) \<and> length new' = length new1
        \<and> dir_block new' nsz ((acc @ [e]) @ filter (\<lambda>e. e \<noteq> d) es)"
      using Cons.prems content(2) clen blk len1 by (intro Cons.IH) simp_all
    with False len1 show ?thesis by (simp add: unfold nxt name lt add)
  qed
qed

section \<open>The names a directory lists\<close>

fun lines_acc :: "string \<Rightarrow> string \<Rightarrow> string list" where
  "lines_acc acc [] = []"
| "lines_acc acc (c # cs) =
     (if c = NL then rev acc # lines_acc [] cs else lines_acc (c # acc) cs)"

definition block_names :: "string \<Rightarrow> string list" where
  "block_names block = lines_acc [] (cstr block)"

definition dir_names :: "fs \<Rightarrow> nat \<Rightarrow> string list" where
  "dir_names s k = (case i_content (inodes s k) of None \<Rightarrow> [] | Some b \<Rightarrow> block_names b)"

lemma lines_acc_line: "NL \<notin> set e \<Longrightarrow> lines_acc acc (e @ NL # cs) = (rev acc @ e) # lines_acc [] cs"
  by (induction e arbitrary: acc) auto

lemma lines_acc_unlines: "\<forall>e\<in>set es. wf_entry e \<Longrightarrow> lines_acc [] (unlines es) = es"
  by (induction es) (auto simp: lines_acc_line wf_entry_def)

lemma dir_block_names: "dir_block block sz es \<Longrightarrow> block_names block = es"
  unfolding block_names_def dir_block_cstr by (auto simp: dir_block_def lines_acc_unlines)

section \<open>Well-formed file systems\<close>

definition inode_ok :: "inode \<Rightarrow> bool" where
  "inode_ok ino \<longleftrightarrow>
     terminated (i_path ino)
     \<and> (case i_content ino of
          None \<Rightarrow> False
        | Some block \<Rightarrow>
            (case i_type ino of
               INODE_FILE \<Rightarrow> 0 \<le> i_size ino \<and> i_size ino \<le> int (length block)
             | INODE_DIR \<Rightarrow> dir_block block (i_size ino) (block_names block)))"

definition fs_wf :: "fs \<Rightarrow> bool" where
  "fs_wf s \<longleftrightarrow>
     (\<forall>i<INODES_AMOUNT. length (i_path (inodes s i)) = MAX_PATH)
     \<and> (\<forall>i. used s i \<longrightarrow> inode_ok (inodes s i))
     \<and> inode_amount s = int (card {i. used s i})"

lemma finite_used [simp]: "finite {i. used s i}"
  by (rule finite_subset [of _ "{..<INODES_AMOUNT}"]) (auto simp: used_def)

lemma fs_wf_dir:
  assumes "fs_wf s" and "used s k" and "i_type (inodes s k) = INODE_DIR"
  obtains block where "i_content (inodes s k) = Some block"
    "dir_block block (i_size (inodes s k)) (dir_names s k)"
  using assms by (auto simp: fs_wf_def inode_ok_def dir_names_def split: option.splits)

section \<open>Creating an inode\<close>

definition new_inode :: "os \<Rightarrow> fs \<Rightarrow> nat \<Rightarrow> string \<Rightarrow> int \<Rightarrow> inode_type \<Rightarrow> inode" where
  "new_inode w s k p mode type =
     (inodes s k)\<lparr>i_path := p @ NUL # drop (Suc (length p)) (i_path (inodes s k)),
       i_content := Some (replicate INITIAL_CONTENT_LENGTH NUL), i_size := 0, i_type := type,
       i_last_access := clock w 0, i_last_modification := clock w 1,
       i_creation_time := clock w 2, i_group := os_gid w, i_owner := os_uid w,
       i_permissions := mode\<rparr>"

lemma create_inode_ok:
  assumes wf: "fs_wf s" and len: "length p < MAX_PATH"
    and free: "search_free_inode s = int k" and mem: "\<forall>n. can_alloc w n"
  shows "create_inode w s p mode type = Some (int k,
      s\<lparr>inodes := (inodes s)(k := new_inode w s k p mode type),
        inode_bitmap := (inode_bitmap s)(k := 1), inode_amount := inode_amount s + 1\<rparr>)"
proof -
  have k: "k < INODES_AMOUNT"
    using free by (cases rule: search_free_inode_cases [of s]) auto
  have l: "length (i_path (inodes s k)) = MAX_PATH" using wf k by (simp add: fs_wf_def)
  have "strcpy_c (i_path (inodes s k)) 0 p
      = Some (p @ NUL # drop (Suc (length p)) (i_path (inodes s k)))"
    using len l by (simp add: strcpy_c_eq_Some_iff)
  moreover have "(replicate INITIAL_CONTENT_LENGTH NUL)[0 := NUL] = replicate INITIAL_CONTENT_LENGTH NUL"
    by (rule list_update_same_conv [THEN iffD2]) (simp_all add: INITIAL_CONTENT_LENGTH_def)
  moreover have "0 < INITIAL_CONTENT_LENGTH" by (simp add: INITIAL_CONTENT_LENGTH_def)
  ultimately show ?thesis
    using len free mem
    by (simp add: create_inode_def calloc_def poke_def new_inode_def Let_def)
qed

text \<open>The three refusals leave the superblock as it was, but for the path of the free slot.\<close>

lemma create_inode_errors:
  "length p \<ge> MAX_PATH \<Longrightarrow> create_inode w s p mode type = Some (- ENAMETOOLONG, s)"
  "length p < MAX_PATH \<Longrightarrow> search_free_inode s = -1 \<Longrightarrow>
     create_inode w s p mode type = Some (- ENOSPC, s)"
  by (simp_all add: create_inode_def)

lemma new_inode_props:
  assumes "fs_wf s" and "k < INODES_AMOUNT" and "length p < MAX_PATH" and "nul_free p"
  shows "length (i_path (new_inode w s k p mode type)) = MAX_PATH"
    "cstr (i_path (new_inode w s k p mode type)) = p"
    "inode_ok (new_inode w s k p mode type)"
    "i_type (new_inode w s k p mode type) = type"
    "i_size (new_inode w s k p mode type) = 0"
proof -
  have l: "length (i_path (inodes s k)) = MAX_PATH" using assms by (simp add: fs_wf_def)
  show "length (i_path (new_inode w s k p mode type)) = MAX_PATH"
    using l assms(3) by (simp add: new_inode_def)
  show "cstr (i_path (new_inode w s k p mode type)) = p"
    using assms(4) by (simp add: new_inode_def cstr_append_NUL)
  have d: "dir_block (replicate INITIAL_CONTENT_LENGTH NUL) 0 []"
    by (auto simp: dir_block_def INITIAL_CONTENT_LENGTH_def numeral_eq_Suc)
  have "block_names (replicate INITIAL_CONTENT_LENGTH NUL) = []"
    using d by (rule dir_block_names)
  then show "inode_ok (new_inode w s k p mode type)"
    using d by (auto simp: inode_ok_def new_inode_def terminated_append_NUL split: inode_type.splits)
qed (simp_all add: new_inode_def)

lemma used_update:
  "used (s\<lparr>inodes := tbl, inode_bitmap := (inode_bitmap s)(k := b), inode_amount := a, errno := e\<rparr>) i
     \<longleftrightarrow> (if i = k then b \<noteq> 0 \<and> k < INODES_AMOUNT else used s i)"
  by (auto simp: used_def)

lemma fs_wf_add_inode:
  assumes "fs_wf s" and "k < INODES_AMOUNT" and "inode_bitmap s k = 0"
    and "inode_ok ino" and "length (i_path ino) = MAX_PATH"
  shows "fs_wf (s\<lparr>inodes := (inodes s)(k := ino), inode_bitmap := (inode_bitmap s)(k := 1),
      inode_amount := inode_amount s + 1\<rparr>)"
proof -
  let ?s = "s\<lparr>inodes := (inodes s)(k := ino), inode_bitmap := (inode_bitmap s)(k := 1),
      inode_amount := inode_amount s + 1\<rparr>"
  have used: "{i. used ?s i} = insert k {i. used s i}"
    using assms(2) by (auto simp: used_def)
  have "k \<notin> {i. used s i}" using assms(3) by (simp add: used_def)
  then have "card {i. used ?s i} = Suc (card {i. used s i})"
    unfolding used by (simp add: card_insert_disjoint)
  with assms show ?thesis
    by (auto simp: fs_wf_def used_def)
qed

section \<open>The parent directory\<close>

definition parent_path :: "string \<Rightarrow> string" where
  "parent_path p = (case strrchr_c p (CHR ''/'') of
     None \<Rightarrow> p | Some k \<Rightarrow> take (if k = 0 then 1 else k) p)"

definition base_name :: "string \<Rightarrow> string" where
  "base_name p = (case strrchr_c p (CHR ''/'') of None \<Rightarrow> p | Some k \<Rightarrow> drop (Suc k) p)"

text \<open>The paths FUSE hands to the file system, the root aside.\<close>

definition child_path :: "string \<Rightarrow> bool" where
  "child_path p \<longleftrightarrow> nul_free p \<and> NL \<notin> set p \<and> length p < MAX_PATH
     \<and> CHR ''/'' \<in> set p \<and> base_name p \<noteq> []"

lemma child_path_slash:
  assumes "child_path p"
  obtains k where "strrchr_c p (CHR ''/'') = Some k" "Suc k < length p"
proof -
  have "strrchr_c p (CHR ''/'') \<noteq> None"
    using assms by (simp add: strrchr_c_None child_path_def)
  then obtain k where k: "strrchr_c p (CHR ''/'') = Some k" by auto
  moreover have "base_name p \<noteq> []" using assms by (simp add: child_path_def)
  ultimately show thesis using that by (auto simp: base_name_def)
qed

lemma child_path_base: "child_path p \<Longrightarrow> wf_entry (base_name p)" "child_path p \<Longrightarrow> length (base_name p) < MAX_PATH"
  by (auto simp: child_path_def wf_entry_def base_name_def nul_free_drop
      dest: in_set_dropD split: option.splits)

lemma parent_path_neq: "child_path p \<Longrightarrow> parent_path p \<noteq> p"
proof (erule child_path_slash)
  fix k assume "strrchr_c p (CHR ''/'') = Some k" and "Suc k < length p"
  then have "length (parent_path p) < length p"
    by (auto simp: parent_path_def)
  then show ?thesis by auto
qed

lemma get_parent_child:
  assumes "child_path p"
  shows "get_parent s p =
     (if search_inode s (parent_path p) = FS_ERROR then Some (None, - ENOENT)
      else Some (Some (nat (search_inode s (parent_path p))), 0))"
proof -
  obtain k where k: "strrchr_c p (CHR ''/'') = Some k" "Suc k < length p"
    using assms by (rule child_path_slash)
  moreover have "k < MAX_PATH" "1 < MAX_PATH"
    using k assms by (simp_all add: child_path_def MAX_PATH_def)
  ultimately show ?thesis by (simp add: get_parent_def parent_path_def Let_def)
qed

text \<open>The parent of a new path is what it was: the new inode has another path.\<close>

lemma search_after_add:
  assumes "search_free_inode s = int k" and "cstr (i_path ino) \<noteq> q"
  shows "search_inode (s\<lparr>inodes := (inodes s)(k := ino), inode_bitmap := (inode_bitmap s)(k := 1),
      inode_amount := a\<rparr>) q = search_inode s q"
proof -
  have free: "inode_bitmap s k = 0" using assms(1)
    by (cases rule: search_free_inode_cases [of s]) auto
  let ?s = "s\<lparr>inodes := (inodes s)(k := ino), inode_bitmap := (inode_bitmap s)(k := 1),
      inode_amount := a\<rparr>"
  have "first_from (\<lambda>i. \<not> (inode_bitmap ?s i = 0 \<or> cstr (i_path (inodes ?s i)) \<noteq> q)) 0 INODES_AMOUNT
      = first_from (\<lambda>i. \<not> (inode_bitmap s i = 0 \<or> cstr (i_path (inodes s i)) \<noteq> q)) 0 INODES_AMOUNT"
    using assms(2) free by (intro first_from_cong) auto
  then show ?thesis by (simp only: search_inode_def)
qed

section \<open>Entering a name in its parent\<close>

definition replace_content :: "fs \<Rightarrow> nat \<Rightarrow> string \<Rightarrow> int \<Rightarrow> fs" where
  "replace_content s k block sz =
     s\<lparr>inodes := (inodes s)(k := (inodes s k)\<lparr>i_content := Some block, i_size := sz\<rparr>)\<rparr>"

lemma replace_content_used [simp]: "used (replace_content s k block sz) i = used s i"
  by (simp add: used_def replace_content_def)

lemma replace_content_path [simp]: "path_of (replace_content s k block sz) i = path_of s i"
  by (simp add: path_of_def replace_content_def)

lemma replace_content_names:
  "dir_names (replace_content s k block sz) i = (if i = k then block_names block else dir_names s i)"
  by (simp add: dir_names_def replace_content_def)

lemma replace_content_search [simp]: "search_inode (replace_content s k block sz) p = search_inode s p"
  by (rule search_inode_cong) (simp_all add: replace_content_def)

lemma fs_wf_replace_content:
  assumes "fs_wf s" and "used s k" and "i_type (inodes s k) = INODE_DIR" and "dir_block block sz es"
  shows "fs_wf (replace_content s k block sz)"
  using assms dir_block_names [OF assms(4)]
  by (auto simp: fs_wf_def inode_ok_def replace_content_def used_def split: option.splits inode_type.splits)

lemma errno_same: "s\<lparr>inodes := t, errno := errno s\<rparr> = s\<lparr>inodes := t\<rparr>"
  by (cases s) simp

lemma add_dentry_to_parent_dir_ok:
  assumes wf: "fs_wf s" and p: "child_path p" and parent: "search_inode s (parent_path p) = int k"
    and dir: "i_type (inodes s k) = INODE_DIR" and mem: "\<forall>n. can_alloc w n"
    and room: "\<not> dentry_overflows (i_size (inodes s k)) (dir_names s k) (base_name p)"
  obtains block sz where
    "add_dentry_to_parent_dir w s (p @ NUL # x # rest)
       = Some (0, replace_content s k block sz, p @ NL # NUL # rest)"
    "dir_block block sz (dir_names s k @ [base_name p])"
proof -
  have used: "used s k"
    using search_inode_found(1) [of s "parent_path p"] parent by (simp add: FS_ERROR_def)
  obtain content where c: "i_content (inodes s k) = Some content"
    and blk: "dir_block content (i_size (inodes s k)) (dir_names s k)"
    using wf used dir by (rule fs_wf_dir)
  obtain i where i: "strrchr_c p (CHR ''/'') = Some i" "Suc i < length p"
    using p by (rule child_path_slash)
  have base: "drop (Suc i) p = base_name p" using i by (simp add: base_name_def)
  have cs: "cstr (p @ NUL # x # rest) = p" using p by (simp add: child_path_def cstr_append_NUL)
  have par: "get_parent s p = Some (Some k, 0)"
    using get_parent_child [OF p, of s] parent by (simp add: FS_ERROR_def)
  have dentry: "drop (Suc i) (p @ NUL # x # rest) = base_name p @ NUL # x # rest"
    using i base by simp
  obtain block sz where add: "add_dentry_to_content w (errno s) content (i_size (inodes s k))
        (base_name p @ NUL # x # rest) = Some (block, sz, base_name p @ NL # NUL # rest, errno s)"
      and blk': "dir_block block sz (dir_names s k @ [base_name p])"
    using add_dentry_to_content_ok [OF blk child_path_base(1) [OF p] refl room mem] by metis
  have path: "take (Suc i) (p @ NUL # x # rest) @ base_name p @ NL # NUL # rest = p @ NL # NUL # rest"
    using i base append_take_drop_id [of "Suc i" p] by (simp flip: append_assoc)
  have "add_dentry_to_parent_dir w s (p @ NUL # x # rest)
      = Some (0, replace_content s k block sz, p @ NL # NUL # rest)"
    using path by (simp add: add_dentry_to_parent_dir_def cs par dir i(1) c dentry add
      replace_content_def Let_def errno_same del: take_append drop_append)
  with blk' show thesis by (intro that)
qed

text \<open>Without a parent the result is \<open>1\<close>, which no caller takes for an error.\<close>

lemma add_dentry_to_parent_dir_orphan:
  assumes "child_path p" and "search_inode s (parent_path p) = FS_ERROR"
  shows "add_dentry_to_parent_dir w s (p @ NUL # rest) = Some (1, s, p @ NUL # rest)"
  using assms by (simp add: add_dentry_to_parent_dir_def get_parent_child cstr_append_NUL
      child_path_def FS_ERROR_def)

section \<open>Removing an inode\<close>

text \<open>
  What \<open>remove_inode\<close> leaves when the parent is found: the slot is free, its block is gone,
  the parent lists the other names and the count is one less.
\<close>

definition release_slot :: "fs \<Rightarrow> nat \<Rightarrow> fs" where
  "release_slot s i = s\<lparr>inodes := (inodes s)(i := (inodes s i)\<lparr>i_content := None\<rparr>),
     inode_bitmap := (inode_bitmap s)(i := 0), inode_amount := inode_amount s - 1\<rparr>"

lemma remove_inode_ok:
  assumes wf: "fs_wf s" and p: "child_path p" and parent: "search_inode s (parent_path p) = int k"
    and dir: "i_type (inodes s k) = INODE_DIR" and mem: "\<forall>n. can_alloc w n"
    and used: "used s i" "path_of s i = p" and here: "base_name p \<in> set (dir_names s k)"
    and names: "\<forall>e\<in>set (dir_names s k). length e < MAX_PATH"
  obtains block where
    "remove_inode w s p i = Some (replace_content (release_slot s i) k block (i_size (inodes s k)))"
    "dir_block block (i_size (inodes s k)) (filter (\<lambda>e. e \<noteq> base_name p) (dir_names s k))"
proof -
  have par: "used s k" "path_of s k = parent_path p"
    using search_inode_found [of s "parent_path p"] parent by (simp_all add: FS_ERROR_def)
  have ik: "i \<noteq> k" using par(2) used(2) parent_path_neq [OF p] by auto
  obtain content where c: "i_content (inodes s k) = Some content"
    and blk: "dir_block content (i_size (inodes s k)) (dir_names s k)"
    using wf par(1) dir by (rule fs_wf_dir)
  let ?s = "s\<lparr>inode_bitmap := (inode_bitmap s)(i := 0)\<rparr>"
  let ?es = "dir_names s k"
  have "search_inode ?s (parent_path p) = search_inode s (parent_path p)"
  proof -
    have "first_from (\<lambda>j. \<not> (inode_bitmap ?s j = 0 \<or> cstr (i_path (inodes ?s j)) \<noteq> parent_path p)) 0 INODES_AMOUNT
      = first_from (\<lambda>j. \<not> (inode_bitmap s j = 0 \<or> cstr (i_path (inodes s j)) \<noteq> parent_path p)) 0 INODES_AMOUNT"
      using used parent_path_neq [OF p] by (intro first_from_cong) (auto simp: path_of_def used_def)
    then show ?thesis by (simp only: search_inode_def)
  qed
  then have gp: "get_parent ?s p = Some (Some k, 0)"
    using get_parent_child [OF p, of ?s] parent by (simp add: FS_ERROR_def)
  obtain j where j: "strrchr_c p (CHR ''/'') = Some j" "Suc j < length p"
    using p by (rule child_path_slash)
  have base: "drop (Suc j) p = base_name p" using j by (simp add: base_name_def)
  have sz: "i_size (inodes s k) = int (length content)"
    using blk here by (auto simp: dir_block_def)
  have pos: "length content > 0" using dir_block_length [OF blk] by linarith
  obtain rest where content: "content = unlines ?es @ NUL # rest"
    using blk by (auto simp: dir_block_def)
  let ?new = "replicate (length content) NUL"
  have "\<exists>new'. copy_other_entries w content (length (unlines ?es)) (base_name p) (length ([]::string))
      ?new (int (length content)) (errno s) = Some (new', int (length content), errno s)
      \<and> length new' = length ?new
      \<and> dir_block new' (int (length content)) ([] @ filter (\<lambda>e. e \<noteq> base_name p) ?es)"
    using content names blk dir_block_empty [OF pos] dir_block_length [OF blk]
    by (intro copy_other_entries_ok [where post = rest]) (auto simp: dir_block_def)
  then obtain block where copy: "copy_other_entries w content (length (unlines ?es)) (base_name p) 0
      ?new (int (length content)) (errno s) = Some (block, int (length content), errno s)"
    and blk': "dir_block block (int (length content)) (filter (\<lambda>e. e \<noteq> base_name p) ?es)"
    by auto
  have "remove_inode w s p i = Some (replace_content (release_slot s i) k block (i_size (inodes s k)))"
    using ik mem by (simp add: remove_inode_def gp j(1) base calloc_def c sz copy Let_def
        dir_block_strlen [OF blk] replace_content_def release_slot_def fun_upd_twist)
  with blk' sz show thesis by (intro that) simp_all
qed

lemma release_slot_used: "used (release_slot s i) j \<longleftrightarrow> used s j \<and> j \<noteq> i"
  by (auto simp: used_def release_slot_def)

lemma fs_wf_release_slot:
  assumes "fs_wf s" and "used s i"
  shows "fs_wf (release_slot s i)"
proof -
  have "{j. used (release_slot s i) j} = {j. used s j} - {i}" by (auto simp: release_slot_used)
  then have "card {j. used (release_slot s i) j} = card {j. used s j} - 1"
    using assms(2) by simp
  moreover have "card {j. used s j} > 0" using assms(2) by (auto simp: card_gt_0_iff)
  ultimately show ?thesis
    using assms by (auto simp: fs_wf_def release_slot_used) (auto simp: release_slot_def)
qed

end
