(* ===== verification/Fs_Handlers.thy ===== *)
theory Fs_Handlers
  imports Fs_Inodes
begin

text \<open>
  The FUSE handlers of \<open>file_system/fisopfs.c\<close>, one definition per handler, with its guards
  and early returns in the order of the code. A handler returns its status, what it gives to
  FUSE (a \<open>stat\<close>, the names it fills, the bytes it copies, the path buffer it wrote to) and
  the new state; \<open>None\<close> is undefined behaviour. Debug output is left out.

  Offsets and sizes have C's widths: \<open>off_t\<close> is a signed, \<open>size_t\<close> an unsigned 64-bit
  integer, \<open>int size\<close> of the inode a signed 32-bit one, and the conversions between them
  are written out.
\<close>

section \<open>Attributes and listings\<close>

definition S_IFDIR :: int where "S_IFDIR = 0x4000"
definition S_IFREG :: int where "S_IFREG = 0x8000"

record stat =
  st_nlink :: int
  st_uid :: int
  st_gid :: int
  st_size :: int
  st_atime :: int
  st_mtime :: int
  st_ctime :: int
  st_mode :: int

definition fisopfs_getattr :: "os \<Rightarrow> fs \<Rightarrow> string \<Rightarrow> stat \<Rightarrow> (int \<times> stat \<times> fs) option" where
  "fisopfs_getattr w s p st = do {
     path_copy \<leftarrow> strcpy_c (uninit w MAX_PATH) 0 p;
     path_copy \<leftarrow> (case strchr_c (cstr path_copy) NL of
                     Some pos \<Rightarrow> poke path_copy pos NUL
                   | None \<Rightarrow> Some path_copy);
     let inode_index = search_inode s (cstr path_copy);
     if inode_index = FS_ERROR then Some (- ENOENT, st, s\<lparr>errno := ENOENT\<rparr>)
     else (let ino = inodes s (nat inode_index);
               st = st\<lparr>st_nlink := 2, st_uid := i_owner ino, st_gid := i_group ino,
                       st_size := i_size ino, st_atime := i_last_access ino,
                       st_mtime := i_last_modification ino, st_ctime := i_creation_time ino,
                       st_mode := S_IFDIR OR 0x1ED\<rparr>;
               st = (if i_type ino = INODE_FILE
                     then st\<lparr>st_mode := S_IFREG OR 0x1A4, st_nlink := 1\<rparr> else st)
           in Some (0, st, s))
   }"

text \<open>The loop of \<open>fisopfs_readdir\<close>: the names given to \<open>filler\<close>, in order.\<close>

partial_function (option) fill_entries ::
  "os \<Rightarrow> string \<Rightarrow> nat \<Rightarrow> nat \<Rightarrow> string list \<Rightarrow> string list option"
where
  "fill_entries w content content_length offset filled =
     (if offset < content_length
      then do {
        (offset, buff) \<leftarrow> get_next_entry content offset (uninit w 1024);
        fill_entries w content content_length offset (filled @ [cstr buff])
      }
      else Some filled)"

definition fisopfs_readdir :: "os \<Rightarrow> fs \<Rightarrow> string \<Rightarrow> nat \<Rightarrow> (int \<times> string list \<times> fs) option" where
  "fisopfs_readdir w s p offset =
     (let filled = [''.'', ''..''];
          inode_index = search_inode s p in
      if inode_index = FS_ERROR then Some (- ENOENT, filled, s\<lparr>errno := ENOENT\<rparr>)
      else if i_type (inodes s (nat inode_index)) \<noteq> INODE_DIR
      then Some (- ENOTDIR, filled, s\<lparr>errno := ENOTDIR\<rparr>)
      else do {
        content \<leftarrow> i_content (inodes s (nat inode_index));
        content_length \<leftarrow> strlen_c content;
        filled \<leftarrow> fill_entries w content content_length offset filled;
        Some (0, filled, s)
      })"

section \<open>Reading and writing\<close>

definition fisopfs_read ::
  "os \<Rightarrow> fs \<Rightarrow> string \<Rightarrow> int \<Rightarrow> int \<Rightarrow> (int \<times> string \<times> fs) option" where
  "fisopfs_read w s p count offset =
     (let inode_index = search_inode s p in
      if inode_index = FS_ERROR then Some (- ENOENT, [], s\<lparr>errno := ENOENT\<rparr>)
      else if i_type (inodes s (nat inode_index)) \<noteq> INODE_FILE
      then Some (- EISDIR, [], s\<lparr>errno := EISDIR\<rparr>)
      else (let k = nat inode_index; file = inodes s k;
                n = (if u64 (offset + count) > u64 (i_size file)
                     then u64 (i_size file - offset) else count);
                n = (if n > 0 then n else 0)
            in do {
              content \<leftarrow> i_content file;
              bytes \<leftarrow> (if 0 \<le> offset \<and> n \<le> count then slice content (nat offset) (nat n)
                        else None);
              Some (s32 n, bytes,
                    s\<lparr>inodes := (inodes s)(k := file\<lparr>i_last_access := clock w 0\<rparr>)\<rparr>)
            }))"

definition fisopfs_write ::
  "os \<Rightarrow> fs \<Rightarrow> string \<Rightarrow> string \<Rightarrow> int \<Rightarrow> (int \<times> fs) option" where
  "fisopfs_write w s p buffer offset =
     (let inode_index = search_inode s p; count = int (length buffer) in
      if inode_index = FS_ERROR then Some (- ENOENT, s\<lparr>errno := ENOENT\<rparr>)
      else if i_type (inodes s (nat inode_index)) \<noteq> INODE_FILE
      then Some (- EISDIR, s\<lparr>errno := EISDIR\<rparr>)
      else (let k = nat inode_index; file = inodes s k in do {
        content \<leftarrow> i_content file;
        if u64 (offset + count) > u64 (i_size file)
        then (case realloc w content (u64 (offset + count)) of
            None \<Rightarrow> Some (- ENOMEM, s\<lparr>errno := ENOMEM\<rparr>)
          | Some content \<Rightarrow> do {
              content \<leftarrow> (if offset > i_size file
                          then blit content (nat (i_size file))
                                 (replicate (nat (offset - i_size file)) NUL)
                          else Some content);
              content \<leftarrow> (if 0 \<le> offset then blit content (nat offset) buffer else None);
              let file = file\<lparr>i_content := Some content, i_size := s32 (u64 (offset + count)),
                              i_last_modification := clock w 0\<rparr>;
              Some (s32 count, s\<lparr>inodes := (inodes s)(k := file)\<rparr>)
            })
        else do {
          content \<leftarrow> (if 0 \<le> offset then blit content (nat offset) buffer else None);
          let file = file\<lparr>i_content := Some content, i_size := s32 (u64 (offset + count)),
                          i_last_modification := clock w 0\<rparr>;
          Some (s32 count, s\<lparr>inodes := (inodes s)(k := file)\<rparr>)
        }
      }))"

definition fisopfs_truncate :: "os \<Rightarrow> fs \<Rightarrow> string \<Rightarrow> int \<Rightarrow> (int \<times> fs) option" where
  "fisopfs_truncate w s p length' =
     (let inode_index = search_inode s p in
      if inode_index = -1 then Some (- ENOENT, s\<lparr>errno := ENOENT\<rparr>)
      else if i_type (inodes s (nat inode_index)) \<noteq> INODE_FILE
      then Some (- EISDIR, s\<lparr>errno := EISDIR\<rparr>)
      else (let k = nat inode_index; ino = inodes s k in
        if length' = 0
        then (let ino = ino\<lparr>i_content := calloc w (int INITIAL_CONTENT_LENGTH),
                            i_size := int INITIAL_CONTENT_LENGTH,
                            i_last_modification := clock w 0\<rparr>
              in Some (0, s\<lparr>inodes := (inodes s)(k := ino)\<rparr>))
        else (case realloc w (case i_content ino of Some c \<Rightarrow> c | None \<Rightarrow> []) (u64 length') of
            None \<Rightarrow> Some (- ENOMEM, s\<lparr>inodes := (inodes s)(k := ino\<lparr>i_content := None\<rparr>),
                                      errno := ENOMEM\<rparr>)
          | Some content \<Rightarrow> do {
              content \<leftarrow> (if i_size ino > length'
                          then (if 0 \<le> length' then poke content (nat length') NUL else None)
                          else Some content);
              let ino = ino\<lparr>i_content := Some content, i_size := s32 length',
                            i_last_modification := clock w 0\<rparr>;
              Some (0, s\<lparr>inodes := (inodes s)(k := ino)\<rparr>)
            })))"

definition fisopfs_utimens :: "fs \<Rightarrow> string \<Rightarrow> int \<Rightarrow> int \<Rightarrow> int \<times> fs" where
  "fisopfs_utimens s p atime mtime =
     (let inode_index = search_inode s p in
      if inode_index = FS_ERROR then (- ENOENT, s\<lparr>errno := ENOENT\<rparr>)
      else (let k = nat inode_index in
        (0, s\<lparr>inodes := (inodes s)(k := (inodes s k)\<lparr>i_last_access := atime,
                                                  i_last_modification := mtime\<rparr>)\<rparr>)))"

section \<open>Creating and removing\<close>

text \<open>
  \<open>fisopfs_mkdir\<close> and \<open>fisopfs_create\<close> differ in the type only. Both hand their path
  buffer to \<open>add_dentry_to_parent_dir\<close>, which writes to it.
\<close>

definition fisopfs_mkdir :: "os \<Rightarrow> fs \<Rightarrow> string \<Rightarrow> int \<Rightarrow> (int \<times> fs \<times> string) option" where
  "fisopfs_mkdir w s pathbuf mode = do {
     (inode_index, s) \<leftarrow> create_inode w s (cstr pathbuf) mode INODE_DIR;
     if inode_index < 0 then Some (inode_index, s\<lparr>errno := inode_index\<rparr>, pathbuf)
     else do {
       (result, s, pathbuf) \<leftarrow> add_dentry_to_parent_dir w s pathbuf;
       if result < 0 then Some (result, s\<lparr>errno := result\<rparr>, pathbuf)
       else Some (0, s, pathbuf)
     }
   }"

definition fisopfs_create :: "os \<Rightarrow> fs \<Rightarrow> string \<Rightarrow> int \<Rightarrow> (int \<times> fs \<times> string) option" where
  "fisopfs_create w s pathbuf mode = do {
     (inode_index, s) \<leftarrow> create_inode w s (cstr pathbuf) mode INODE_FILE;
     if inode_index < 0 then Some (inode_index, s\<lparr>errno := inode_index\<rparr>, pathbuf)
     else do {
       (result, s, pathbuf) \<leftarrow> add_dentry_to_parent_dir w s pathbuf;
       if result < 0 then Some (result, s\<lparr>errno := result\<rparr>, pathbuf)
       else Some (0, s, pathbuf)
     }
   }"

definition fisopfs_unlink :: "os \<Rightarrow> fs \<Rightarrow> string \<Rightarrow> (int \<times> fs) option" where
  "fisopfs_unlink w s p =
     (let inode_index = search_inode s p in
      if inode_index = FS_ERROR then Some (- ENOENT, s\<lparr>errno := ENOENT\<rparr>)
      else if i_type (inodes s (nat inode_index)) \<noteq> INODE_FILE
      then Some (- EISDIR, s\<lparr>errno := EISDIR\<rparr>)
      else do {
        s \<leftarrow> remove_inode w s p (nat inode_index);
        Some (0, s)
      })"

definition fisopfs_rmdir :: "os \<Rightarrow> fs \<Rightarrow> string \<Rightarrow> (int \<times> fs) option" where
  "fisopfs_rmdir w s p =
     (let inode_index = search_inode s p in
      if inode_index = FS_ERROR then Some (- ENOENT, s\<lparr>errno := ENOENT\<rparr>)
      else if i_type (inodes s (nat inode_index)) \<noteq> INODE_DIR
      then Some (- ENOTDIR, s\<lparr>errno := ENOTDIR\<rparr>)
      else do {
        content \<leftarrow> i_content (inodes s (nat inode_index));
        content_length \<leftarrow> strlen_c content;
        if content_length > 0 then Some (- ENOTEMPTY, s\<lparr>errno := ENOTEMPTY\<rparr>)
        else do {
          s \<leftarrow> remove_inode w s p (nat inode_index);
          Some (0, s)
        }
      })"

section \<open>Command line\<close>

text \<open>
  \<open>main\<close> takes \<open>--filedisk NAME\<close> out of the arguments and remembers the name; the rest goes
  to \<open>fuse_main\<close>. \<open>argv\<close> is the list of the arguments, the program's name first; the
  option is looked for at the indices 1 to \<open>argc - 2\<close>.
\<close>

definition DEFAULT_FILE_DISK :: string where "DEFAULT_FILE_DISK = ''persistence_file.fisopfs''"

fun pop_filedisk :: "string list \<Rightarrow> string \<Rightarrow> string \<times> string list" where
  "pop_filedisk (a # b # rest) filedisk =
     (if a = ''--filedisk'' then (b, rest)
      else (let (fd, args) = pop_filedisk (b # rest) filedisk in (fd, a # args)))"
| "pop_filedisk args filedisk = (filedisk, args)"

definition fisopfs_main_args :: "string list \<Rightarrow> string \<times> string list" where
  "fisopfs_main_args argv =
     (case argv of
        [] \<Rightarrow> (DEFAULT_FILE_DISK, [])
      | prog # args \<Rightarrow> (let (fd, args) = pop_filedisk args DEFAULT_FILE_DISK in (fd, prog # args)))"

section \<open>The bytes of a file\<close>

definition file_bytes :: "fs \<Rightarrow> nat \<Rightarrow> string" where
  "file_bytes s k = (case i_content (inodes s k) of
     None \<Rightarrow> [] | Some c \<Rightarrow> take (nat (i_size (inodes s k))) c)"

text \<open>A path that names a regular file, at an index, with its block.\<close>

definition is_file :: "fs \<Rightarrow> string \<Rightarrow> nat \<Rightarrow> bool" where
  "is_file s p k \<longleftrightarrow> search_inode s p = int k \<and> i_type (inodes s k) = INODE_FILE"

definition is_dir :: "fs \<Rightarrow> string \<Rightarrow> nat \<Rightarrow> bool" where
  "is_dir s p k \<longleftrightarrow> search_inode s p = int k \<and> i_type (inodes s k) = INODE_DIR"

lemma int_neq_FS_ERROR [simp]: "int k \<noteq> FS_ERROR" "FS_ERROR \<noteq> int k" "int k \<noteq> -1"
  by (simp_all add: FS_ERROR_def)

lemma search_used: "search_inode s p = int k \<Longrightarrow> used s k" "search_inode s p = int k \<Longrightarrow> path_of s k = p"
  using search_inode_found [of s p] by simp_all

lemma is_file_block:
  assumes "fs_wf s" and "is_file s p k"
  obtains block where "i_content (inodes s k) = Some block"
    "0 \<le> i_size (inodes s k)" "i_size (inodes s k) \<le> int (length block)"
    "file_bytes s k = take (nat (i_size (inodes s k))) block"
  using assms search_used(1) [of s p k]
  by (auto simp: is_file_def fs_wf_def inode_ok_def file_bytes_def split: option.splits)

lemma is_file_size:
  assumes "fs_wf s" and "is_file s p k"
  shows "int (length (file_bytes s k)) = i_size (inodes s k)"
  using assms by (elim is_file_block) auto

text \<open>What a write leaves: everything up to the offset, zero-filled if needed, then the data.\<close>

lemma fisopfs_write_ok:
  assumes wf: "fs_wf s" and fl: "is_file s p k" and off: "0 \<le> offset"
    and small: "offset + int (length data) < 2 ^ 31" and mem: "\<forall>n. can_alloc w n"
  obtains block where
    "fisopfs_write w s p data offset = Some (int (length data),
       s\<lparr>inodes := (inodes s)(k := (inodes s k)\<lparr>i_content := Some block,
          i_size := offset + int (length data), i_last_modification := clock w 0\<rparr>)\<rparr>)"
    "take (nat offset + length data) block
       = take (nat offset) (file_bytes s k @ replicate (nat offset) NUL) @ data"
    "nat offset + length data \<le> length block"
proof -
  let ?sz = "i_size (inodes s k)"
  let ?n = "nat offset + length data"
  obtain c where c: "i_content (inodes s k) = Some c" and sz: "0 \<le> ?sz" "?sz \<le> int (length c)"
    and bytes: "file_bytes s k = take (nat ?sz) c"
    using wf fl by (rule is_file_block)
  have conv: "u64 (offset + int (length data)) = offset + int (length data)"
    "s32 (offset + int (length data)) = offset + int (length data)"
    "s32 (int (length data)) = int (length data)"
    using off small by (simp_all add: u64_id s32_id)
  have n: "offset + int (length data) = int ?n" using off by simp
  have k: "search_inode s p = int k" "i_type (inodes s k) = INODE_FILE"
    using fl by (simp_all add: is_file_def)
  show thesis
  proof (cases "offset + int (length data) > u64 ?sz")
    case False
    then have sz2: "?sz \<ge> int ?n" using n u64_le [OF sz(1)] by linarith
    then have "int ?n \<le> int (length c)" using sz by linarith
    then have fits: "?n \<le> length c" by (simp only: of_nat_le_iff)
    let ?b = "take (nat offset) c @ data @ drop ?n c"
    have tk: "take (nat offset) (file_bytes s k @ replicate (nat offset) NUL) = take (nat offset) c"
    proof -
      have "nat offset \<le> nat ?sz" "nat offset \<le> length c" using sz2 fits by linarith+
      then show ?thesis by (simp add: bytes min_absorb1)
    qed
    have "fisopfs_write w s p data offset = Some (int (length data),
       s\<lparr>inodes := (inodes s)(k := (inodes s k)\<lparr>i_content := Some ?b,
          i_size := offset + int (length data), i_last_modification := clock w 0\<rparr>)\<rparr>)"
      using k c False off fits conv(1-3) by (simp add: fisopfs_write_def Let_def blit_def)
    then show thesis
    proof (rule that)
      have "min (length c) (nat offset) = nat offset" using fits by simp
      then have "take ?n ?b = take (nat offset) c @ data" by simp
      then show "take ?n ?b = take (nat offset) (file_bytes s k @ replicate (nat offset) NUL) @ data"
        by (simp only: tk)
      show "?n \<le> length ?b" using fits by simp
    qed
  next
    case True
    obtain c2 where r: "realloc w c (offset + int (length data)) = Some c2"
      using realloc_ok [of "offset + int (length data)" w c] off mem by auto
    have nn: "nat (offset + int (length data)) = ?n" using off by (simp add: nat_add_distrib)
    have l2: "length c2 = ?n" using realloc_length [OF r] by (simp only: nn)
    have pre: "take (min (length c) ?n) c2 = take ?n c" using realloc_take [OF r] by (simp only: nn)
    define c3 where "c3 = (if offset > ?sz
        then take (nat ?sz) c2 @ replicate (nat (offset - ?sz)) NUL @ drop (nat offset) c2 else c2)"
    have l3: "length c3 = ?n" using l2 sz by (auto simp: c3_def)
    have fill: "(if offset > ?sz then blit c2 (nat ?sz) (replicate (nat (offset - ?sz)) NUL)
        else Some c2) = Some c3"
    proof -
      have "nat ?sz + nat (offset - ?sz) = nat offset" if "offset > ?sz"
        using sz that by (simp flip: nat_add_distrib)
      then show ?thesis using l2 by (simp add: c3_def blit_def)
    qed
    let ?b = "take (nat offset) c3 @ data"
    have copy: "blit c3 (nat offset) data = Some ?b" using l3 by (simp add: blit_def)
    have tk: "take (nat offset) (file_bytes s k @ replicate (nat offset) NUL) = take (nat offset) c3"
    proof (cases "offset > ?sz")
      case True
      then have "nat ?sz \<le> length c" "nat ?sz \<le> ?n" using sz by linarith+
      then have "take (nat ?sz) c2 = take (nat ?sz) c"
        using arg_cong [OF pre, of "take (nat ?sz)"] by (simp add: min_absorb1 min_def split: if_splits)
      moreover have "nat ?sz \<le> length c" "nat ?sz \<le> nat offset" "nat (offset - ?sz) = nat offset - nat ?sz"
        using True sz by (linarith, linarith, simp add: nat_diff_distrib)
      ultimately show ?thesis using True l2
        by (simp add: c3_def bytes min_absorb1 min_absorb2)
    next
      case False
      then have "nat offset \<le> length c" "nat offset \<le> ?n" using sz by linarith+
      then have "take (nat offset) c2 = take (nat offset) c"
        using arg_cong [OF pre, of "take (nat offset)"] by (simp add: min_absorb1 min_def split: if_splits)
      moreover have "nat offset \<le> nat ?sz" "nat offset \<le> length c" using False sz by linarith+
      ultimately show ?thesis using False by (simp add: c3_def bytes min_absorb1)
    qed
    have "fisopfs_write w s p data offset = Some (int (length data),
       s\<lparr>inodes := (inodes s)(k := (inodes s k)\<lparr>i_content := Some ?b,
          i_size := offset + int (length data), i_last_modification := clock w 0\<rparr>)\<rparr>)"
      using k c True off conv r fill copy
      by (simp add: fisopfs_write_def Let_def)
    then show thesis
    proof (rule that)
      have "take ?n ?b = take (nat offset) c3 @ data" using l3 by simp
      then show "take ?n ?b = take (nat offset) (file_bytes s k @ replicate (nat offset) NUL) @ data"
        by (simp only: tk)
      show "?n \<le> length ?b" using l3 by simp
    qed
  qed
qed

lemma fisopfs_read_ok:
  assumes wf: "fs_wf s" and fl: "is_file s p k" and off: "0 \<le> offset" "offset \<le> i_size (inodes s k)"
    and count: "0 \<le> count" "offset + count < 2 ^ 31" and szb: "i_size (inodes s k) < 2 ^ 31"
  shows "fisopfs_read w s p count offset =
     (let bytes = take (nat count) (drop (nat offset) (file_bytes s k)) in
      Some (int (length bytes), bytes,
        s\<lparr>inodes := (inodes s)(k := (inodes s k)\<lparr>i_last_access := clock w 0\<rparr>)\<rparr>))"
proof -
  let ?sz = "i_size (inodes s k)"
  obtain c where c: "i_content (inodes s k) = Some c" and sz: "0 \<le> ?sz" "?sz \<le> int (length c)"
    and bytes: "file_bytes s k = take (nat ?sz) c"
    using wf fl by (rule is_file_block)
  let ?n = "if offset + count > ?sz then ?sz - offset else count"
  have conv: "u64 (offset + count) = offset + count" "u64 ?sz = ?sz" "u64 (?sz - offset) = ?sz - offset"
    using off count sz szb by (simp_all add: u64_id)
  have k: "search_inode s p = int k" "i_type (inodes s k) = INODE_FILE"
    using fl by (simp_all add: is_file_def)
  have n: "0 \<le> ?n" "?n \<le> count" "nat offset + nat ?n \<le> length c" "s32 ?n = ?n"
    using off count sz szb by (auto simp: s32_id)
  have eq: "take (nat count) (drop (nat offset) (take (nat ?sz) c)) = take (nat ?n) (drop (nat offset) c)"
    using off count sz by (auto simp: drop_take min_def nat_diff_distrib)
  have "fisopfs_read w s p count offset = Some (?n, take (nat ?n) (drop (nat offset) c),
      s\<lparr>inodes := (inodes s)(k := (inodes s k)\<lparr>i_last_access := clock w 0\<rparr>)\<rparr>)"
    using k c conv n off by (auto simp: fisopfs_read_def Let_def slice_def)
  moreover have "int (length (take (nat ?n) (drop (nat offset) c))) = ?n" using n off by simp
  ultimately show ?thesis by (simp only: bytes eq Let_def)
qed

lemma fisopfs_read_past_end:
  assumes wf: "fs_wf s" and fl: "is_file s p k" and off: "i_size (inodes s k) < offset"
    and count: "0 \<le> count" "offset + count < 2 ^ 63"
  shows "fisopfs_read w s p count offset = None"
proof -
  let ?sz = "i_size (inodes s k)"
  obtain c where c: "i_content (inodes s k) = Some c" and sz: "0 \<le> ?sz" "?sz \<le> int (length c)"
    using wf fl by (rule is_file_block)
  have k: "search_inode s p = int k" "i_type (inodes s k) = INODE_FILE"
    using fl by (simp_all add: is_file_def)
  have big: "u64 (?sz - offset) = ?sz - offset + 2 ^ 64"
    using off sz count by (intro u64_neg) simp_all
  have "u64 (offset + count) = offset + count" "u64 ?sz = ?sz" using off sz count by (simp_all add: u64_id)
  with big k c off count sz show ?thesis by (simp add: fisopfs_read_def Let_def)
qed

lemma fisopfs_truncate_shrink:
  assumes fl: "is_file s p k" and len: "0 < n" "n < i_size (inodes s k)" "n < 2 ^ 31"
    and mem: "\<forall>n. can_alloc w n"
  shows "fisopfs_truncate w s p n = None"
proof -
  have k: "search_inode s p = int k" "i_type (inodes s k) = INODE_FILE"
    using fl by (simp_all add: is_file_def)
  have "u64 n = n" using len by (simp add: u64_id)
  then have "length (take (nat n) c @ map (junk w) [length c..<nat n]) = nat n" for c
    by (simp add: min_def)
  with k len mem \<open>u64 n = n\<close> show ?thesis
    by (simp add: fisopfs_truncate_def Let_def realloc_def poke_def min_def)
qed

lemma fill_entries_ok:
  assumes "\<forall>e\<in>set es. wf_entry e \<and> length e < 1024" and "content = pre @ unlines es @ NUL # post"
    and "clen = length pre + length (unlines es)"
  shows "fill_entries w content clen (length pre) acc = Some (acc @ es)"
  using assms
proof (induction es arbitrary: acc pre)
  case Nil
  then show ?case by (simp add: fill_entries.simps)
next
  case (Cons e es)
  let ?pre = "pre @ e @ [NL]"
  have e: "wf_entry e" "length e < 1024" using Cons.prems(1) by simp_all
  have content: "content = pre @ e @ NL # (unlines es @ NUL # post)"
    "content = ?pre @ unlines es @ NUL # post" using Cons.prems(2) by simp_all
  have nxt: "get_next_entry content (length pre) (uninit w 1024)
      = Some (length ?pre, e @ NUL # drop (Suc (length e)) (uninit w 1024))"
    unfolding content(1) using e by (subst get_next_entry_line) simp_all
  have name: "cstr (e @ NUL # r) = e" for r using e(1) by (simp add: wf_entry_def cstr_simps)
  have "fill_entries w content clen (length ?pre) (acc @ [e]) = Some ((acc @ [e]) @ es)"
    using Cons.prems content(2) by (intro Cons.IH) simp_all
  then show ?case
    using Cons.prems(3) by (subst fill_entries.simps) (simp add: nxt name)
qed

end
