(* ===== verification/Fs_Tree.thy ===== *)
theory Fs_Tree
  imports Fs_Handlers
begin

text \<open>
  The file system as a tree, on top of the handlers: the directory contents as a store of
  names (a locale, interpreted on the line format of \<open>fs.c\<close>), what a successful
  \<open>mkdir\<close>/\<open>create\<close> and \<open>unlink\<close>/\<open>rmdir\<close> do to the inode table, and the invariant
  of every state FUSE requests can reach: the listings and the inode table agree.
\<close>

section \<open>Stores of names\<close>

locale name_store =
  fixes valid :: "'d \<Rightarrow> bool" and names :: "'d \<Rightarrow> string list"
    and can_add :: "'d \<Rightarrow> string \<Rightarrow> bool"
    and add :: "'d \<Rightarrow> string \<Rightarrow> 'd option" and del :: "'d \<Rightarrow> string \<Rightarrow> 'd option"
  assumes add_ok: "valid d \<Longrightarrow> can_add d e \<Longrightarrow> \<exists>d'. add d e = Some d' \<and> valid d' \<and> names d' = names d @ [e]"
    and del_ok: "valid d \<Longrightarrow> e \<in> set (names d) \<Longrightarrow>
      \<exists>d'. del d e = Some d' \<and> valid d' \<and> names d' = filter (\<lambda>x. x \<noteq> e) (names d)"
begin

lemma add_del:
  assumes "valid d" and "can_add d e" and "e \<notin> set (names d)"
  shows "\<exists>d'. Option.bind (add d e) (\<lambda>d1. del d1 e) = Some d' \<and> valid d' \<and> names d' = names d"
proof -
  obtain d1 where d1: "add d e = Some d1" "valid d1" "names d1 = names d @ [e]"
    using add_ok assms by blast
  then obtain d2 where "del d1 e = Some d2" "valid d2" "names d2 = filter (\<lambda>x. x \<noteq> e) (names d1)"
    using del_ok [of d1 e] by auto
  moreover have "filter (\<lambda>x. x \<noteq> e) (names d) = names d"
    using assms(3) by (auto simp: filter_id_conv)
  ultimately show ?thesis using d1 by simp
qed

lemma add_distinct:
  assumes "valid d" and "can_add d e" and "e \<notin> set (names d)" and "distinct (names d)"
  obtains d' where "add d e = Some d'" "valid d'" "distinct (names d')" "set (names d') = insert e (set (names d))"
  using add_ok [OF assms(1,2)] assms(3,4) by (metis Un_insert_right distinct.simps(2) distinct_rev
      list.simps(15) rev.simps(2) rev_rev_ident set_append set_rev sup_bot.right_neutral)

end

text \<open>A directory is its block with the recorded size.\<close>

definition dir_valid :: "string \<times> int \<Rightarrow> bool" where
  "dir_valid d \<longleftrightarrow> dir_block (fst d) (snd d) (block_names (fst d))
     \<and> (\<forall>e\<in>set (block_names (fst d)). length e < MAX_PATH)"

definition dir_can_add :: "string \<times> int \<Rightarrow> string \<Rightarrow> bool" where
  "dir_can_add d e \<longleftrightarrow> wf_entry e \<and> length e < MAX_PATH
     \<and> \<not> dentry_overflows (snd d) (block_names (fst d)) e"

definition dir_add :: "os \<Rightarrow> string \<times> int \<Rightarrow> string \<Rightarrow> (string \<times> int) option" where
  "dir_add w d e = do {
     (block, sz, _, _) \<leftarrow> add_dentry_to_content w 0 (fst d) (snd d) (e @ [NUL, NUL]);
     Some (block, sz)
   }"

text \<open>The rewriting of the parent's content in \<open>remove_inode\<close>.\<close>

definition dir_del :: "os \<Rightarrow> string \<times> int \<Rightarrow> string \<Rightarrow> (string \<times> int) option" where
  "dir_del w d e = do {
     new_content \<leftarrow> calloc w (snd d);
     content_length \<leftarrow> strlen_c (fst d);
     (new_content, new_size, _) \<leftarrow> copy_other_entries w (fst d) content_length e 0 new_content (snd d) 0;
     Some (new_content, new_size)
   }"

definition roomy :: os where
  "roomy = \<lparr>clock = (\<lambda>n. 1000 + int n), os_gid = 100, os_uid = 1000, can_alloc = (\<lambda>_. True),
     junk = (\<lambda>_. CHR ''x'')\<rparr>"

lemma roomy_mem: "\<forall>n. can_alloc roomy n"
  by (simp add: roomy_def)

lemma dir_add_ok:
  assumes mem: "\<forall>n. can_alloc w n" and "dir_valid d" and "dir_can_add d e"
  shows "\<exists>d'. dir_add w d e = Some d' \<and> dir_valid d' \<and> block_names (fst d') = block_names (fst d) @ [e]"
proof -
  have blk: "dir_block (fst d) (snd d) (block_names (fst d))" using assms(2) by (simp add: dir_valid_def)
  have e: "wf_entry e" "\<not> dentry_overflows (snd d) (block_names (fst d)) e" "length e < MAX_PATH"
    using assms(3) by (simp_all add: dir_can_add_def)
  obtain b sz where r: "add_dentry_to_content w 0 (fst d) (snd d) (e @ NUL # NUL # []) = Some (b, sz, e @ NL # NUL # [], 0)"
    "dir_block b sz (block_names (fst d) @ [e])"
    using add_dentry_to_content_ok [OF blk e(1) refl e(2) mem] by metis
  have "dir_valid (b, sz)" "block_names b = block_names (fst d) @ [e]"
    using r(2) dir_block_names [OF r(2)] assms(2) e(3) by (auto simp: dir_valid_def)
  then show ?thesis using r(1) by (simp add: dir_add_def)
qed

lemma dir_del_ok:
  assumes mem: "\<forall>n. can_alloc w n" and v: "dir_valid d" and here: "e \<in> set (block_names (fst d))"
  shows "\<exists>d'. dir_del w d e = Some d' \<and> dir_valid d' \<and> block_names (fst d') = filter (\<lambda>x. x \<noteq> e) (block_names (fst d))"
proof -
  let ?es = "block_names (fst d)"
  have blk: "dir_block (fst d) (snd d) ?es" using v by (simp add: dir_valid_def)
  have sz: "snd d = int (length (fst d))" using blk here by (auto simp: dir_block_def)
  have lt: "length (unlines ?es) < length (fst d)" using blk by (rule dir_block_length)
  obtain rest where c: "fst d = unlines ?es @ NUL # rest" using blk by (auto simp: dir_block_def)
  have pos: "length (fst d) > 0" using lt by linarith
  have bounds: "\<forall>e\<in>set ?es. wf_entry e \<and> length e < MAX_PATH"
    using blk v by (simp add: dir_valid_def dir_block_def)
  have "\<exists>new'. copy_other_entries w (fst d) (length (unlines ?es)) e (length ([]::string))
      (replicate (length (fst d)) NUL) (int (length (fst d))) 0 = Some (new', int (length (fst d)), 0)
      \<and> length new' = length (replicate (length (fst d)) NUL)
      \<and> dir_block new' (int (length (fst d))) ([] @ filter (\<lambda>x. x \<noteq> e) ?es)"
    using c lt dir_block_empty [OF pos] bounds
    by (intro copy_other_entries_ok [where post = rest]) auto
  then obtain b where b: "copy_other_entries w (fst d) (length (unlines ?es)) e 0
      (replicate (length (fst d)) NUL) (int (length (fst d))) 0 = Some (b, int (length (fst d)), 0)"
    and blk': "dir_block b (int (length (fst d))) (filter (\<lambda>x. x \<noteq> e) ?es)" by auto
  have "dir_del w d e = Some (b, int (length (fst d)))"
    using mem b by (simp add: dir_del_def calloc_def sz dir_block_strlen [OF blk])
  moreover have "dir_valid (b, int (length (fst d)))" "block_names b = filter (\<lambda>x. x \<noteq> e) ?es"
    using blk' dir_block_names [OF blk'] v by (auto simp: dir_valid_def)
  ultimately show ?thesis by simp
qed

interpretation dentries: name_store dir_valid "\<lambda>d. block_names (fst d)" dir_can_add "dir_add roomy" "dir_del roomy"
  by unfold_locales (erule (1) dir_add_ok [OF roomy_mem], erule (1) dir_del_ok [OF roomy_mem])

section \<open>Making a node\<close>

text \<open>What \<open>fisopfs_mkdir\<close> and \<open>fisopfs_create\<close> have in common.\<close>

definition make_node :: "os \<Rightarrow> fs \<Rightarrow> string \<Rightarrow> int \<Rightarrow> inode_type \<Rightarrow> (int \<times> fs \<times> string) option" where
  "make_node w s pathbuf mode type = do {
     (inode_index, s) \<leftarrow> create_inode w s (cstr pathbuf) mode type;
     if inode_index < 0 then Some (inode_index, s\<lparr>errno := inode_index\<rparr>, pathbuf)
     else do {
       (result, s, pathbuf) \<leftarrow> add_dentry_to_parent_dir w s pathbuf;
       if result < 0 then Some (result, s\<lparr>errno := result\<rparr>, pathbuf)
       else Some (0, s, pathbuf)
     }
   }"

lemma mkdir_make_node: "fisopfs_mkdir w s pathbuf mode = make_node w s pathbuf mode INODE_DIR"
  and create_make_node: "fisopfs_create w s pathbuf mode = make_node w s pathbuf mode INODE_FILE"
  by (simp_all add: fisopfs_mkdir_def fisopfs_create_def make_node_def)

text \<open>The state after a node at path \<open>p\<close> was made in slot \<open>i\<close>, below the directory \<open>k\<close>.\<close>

definition node_added :: "fs \<Rightarrow> fs \<Rightarrow> string \<Rightarrow> inode_type \<Rightarrow> nat \<Rightarrow> nat \<Rightarrow> bool" where
  "node_added s s' p type i k \<longleftrightarrow>
     fs_wf s' \<and> \<not> used s i \<and> i < INODES_AMOUNT \<and> i \<noteq> k
     \<and> (\<forall>j. used s' j \<longleftrightarrow> used s j \<or> j = i)
     \<and> (\<forall>j. path_of s' j = (if j = i then p else path_of s j))
     \<and> (\<forall>j. i_type (inodes s' j) = (if j = i then type else i_type (inodes s j)))
     \<and> (\<forall>j. dir_names s' j = (if j = i then [] else if j = k then dir_names s k @ [base_name p]
              else dir_names s j))
     \<and> (\<forall>j. j \<noteq> i \<and> j \<noteq> k \<longrightarrow> inodes s' j = inodes s j)
     \<and> inode_amount s' = inode_amount s + 1"

lemma empty_block_names: "block_names (replicate INITIAL_CONTENT_LENGTH NUL) = []"
  by (rule dir_block_names [OF dir_block_empty]) (simp add: INITIAL_CONTENT_LENGTH_def)

lemma make_node_ok:
  assumes wf: "fs_wf s" and p: "child_path p" and parent: "is_dir s (parent_path p) k"
    and free: "search_free_inode s = int i" and mem: "\<forall>n. can_alloc w n"
    and room: "\<not> dentry_overflows (i_size (inodes s k)) (dir_names s k) (base_name p)"
  obtains s' where "make_node w s (p @ NUL # x # rest) mode type = Some (0, s', p @ NL # NUL # rest)"
    "node_added s s' p type i k"
proof -
  have i: "i < INODES_AMOUNT" "inode_bitmap s i = 0"
    using free by (cases rule: search_free_inode_cases [of s]; simp)+
  have k: "used s k" "path_of s k = parent_path p" "i_type (inodes s k) = INODE_DIR"
    using parent search_used [of s "parent_path p" k] by (simp_all add: is_dir_def)
  then have ik: "k \<noteq> i" "i \<noteq> k" using i by (auto simp: used_def)
  have pl: "length p < MAX_PATH" "nul_free p" using p by (simp_all add: child_path_def)
  let ?ino = "new_inode w s i p mode type"
  let ?s1 = "s\<lparr>inodes := (inodes s)(i := ?ino), inode_bitmap := (inode_bitmap s)(i := 1),
      inode_amount := inode_amount s + 1\<rparr>"
  note ino = new_inode_props [OF wf i(1) pl, of w mode type]
  have cr: "create_inode w s p mode type = Some (int i, ?s1)"
    using create_inode_ok [OF wf pl(1) free mem] .
  have wf1: "fs_wf ?s1" using fs_wf_add_inode [OF wf i(1,2) ino(3,1)] .
  have "cstr (i_path ?ino) \<noteq> parent_path p" using ino(2) parent_path_neq [OF p] by simp
  then have par1: "search_inode ?s1 (parent_path p) = int k"
    using search_after_add [OF free] parent by (simp add: is_dir_def)
  have same: "inodes ?s1 k = inodes s k" "dir_names ?s1 k = dir_names s k"
    using ik by (simp_all add: dir_names_def)
  obtain block sz where add: "add_dentry_to_parent_dir w ?s1 (p @ NUL # x # rest)
      = Some (0, replace_content ?s1 k block sz, p @ NL # NUL # rest)"
    and blk: "dir_block block sz (dir_names s k @ [base_name p])"
    using add_dentry_to_parent_dir_ok [OF wf1 p par1 _ mem, of x rest] k(3) room same by metis
  let ?s2 = "replace_content ?s1 k block sz"
  have "make_node w s (p @ NUL # x # rest) mode type = Some (0, ?s2, p @ NL # NUL # rest)"
    using pl by (simp add: make_node_def cstr_append_NUL cr add)
  moreover have "node_added s ?s2 p type i k"
  proof -
    have "fs_wf ?s2" using k wf1 blk ik
      by (intro fs_wf_replace_content [OF _ _ _ blk]) (auto simp: used_def)
    moreover have "dir_names ?s1 i = []" by (simp add: dir_names_def new_inode_def empty_block_names)
    ultimately show ?thesis using i ik k ino dir_block_names [OF blk]
      by (auto simp: node_added_def used_def replace_content_names)
        (auto simp: replace_content_def path_of_def dir_names_def split: if_splits)
  qed
  ultimately show thesis by (rule that)
qed

lemma make_node_full:
  assumes "child_path p" and "search_free_inode s = -1"
  shows "make_node w s (p @ NUL # rest) mode type = Some (- ENOSPC, s\<lparr>errno := - ENOSPC\<rparr>, p @ NUL # rest)"
  using assms by (simp add: make_node_def cstr_append_NUL child_path_def create_inode_errors ENOSPC_def)

lemma make_node_overflow:
  assumes wf: "fs_wf s" and p: "child_path p" and parent: "is_dir s (parent_path p) k"
    and free: "search_free_inode s = int i" and mem: "\<forall>n. can_alloc w n"
    and exact: "dentry_overflows (i_size (inodes s k)) (dir_names s k) (base_name p)"
  shows "make_node w s (p @ NUL # x # rest) mode type = None"
proof -
  have k: "used s k" "path_of s k = parent_path p" "i_type (inodes s k) = INODE_DIR"
    using parent search_used [of s "parent_path p" k] by (simp_all add: is_dir_def)
  obtain content where c: "i_content (inodes s k) = Some content"
    and blk: "dir_block content (i_size (inodes s k)) (dir_names s k)"
    using wf k(1,3) by (rule fs_wf_dir)
  have i: "i < INODES_AMOUNT" "inode_bitmap s i = 0"
    using free by (cases rule: search_free_inode_cases [of s]; simp)+
  then have ik: "k \<noteq> i" using k by (auto simp: used_def)
  have pl: "length p < MAX_PATH" "nul_free p" using p by (simp_all add: child_path_def)
  let ?s1 = "s\<lparr>inodes := (inodes s)(i := new_inode w s i p mode type),
      inode_bitmap := (inode_bitmap s)(i := 1), inode_amount := inode_amount s + 1\<rparr>"
  have "search_inode ?s1 (parent_path p) = int k"
    using search_after_add [OF free] parent new_inode_props(2) [OF wf i(1) pl] parent_path_neq [OF p]
    by (simp add: is_dir_def)
  then have par: "get_parent ?s1 p = Some (Some k, 0)" using get_parent_child [OF p, of ?s1] by simp
  obtain j where j: "strrchr_c p (CHR ''/'') = Some j" "Suc j < length p" "drop (Suc j) p = base_name p"
    using p by (rule child_path_slash) (simp add: base_name_def)
  have "add_dentry_to_content w e content (i_size (inodes s k)) (base_name p @ NUL # x # rest) = None" for e
    using blk child_path_base(1) [OF p] refl exact by (rule add_dentry_to_content_overflow)
  then show ?thesis
    using pl ik c j k(3) by (simp add: make_node_def cstr_append_NUL create_inode_ok [OF wf pl(1) free mem]
      add_dentry_to_parent_dir_def par Let_def)
qed

section \<open>Removing a node\<close>

definition node_removed :: "fs \<Rightarrow> fs \<Rightarrow> string \<Rightarrow> nat \<Rightarrow> nat \<Rightarrow> bool" where
  "node_removed s s' p i k \<longleftrightarrow>
     fs_wf s' \<and> used s i \<and> i \<noteq> k
     \<and> (\<forall>j. used s' j \<longleftrightarrow> used s j \<and> j \<noteq> i)
     \<and> (\<forall>j. path_of s' j = path_of s j) \<and> (\<forall>j. i_type (inodes s' j) = i_type (inodes s j))
     \<and> (\<forall>j. dir_names s' j = (if j = i then [] else if j = k then filter (\<lambda>e. e \<noteq> base_name p) (dir_names s k)
              else dir_names s j))
     \<and> (\<forall>j. j \<noteq> i \<and> j \<noteq> k \<longrightarrow> inodes s' j = inodes s j)
     \<and> inode_amount s' = inode_amount s - 1"

lemma remove_node_ok:
  assumes wf: "fs_wf s" and p: "child_path p" and parent: "is_dir s (parent_path p) k"
    and mem: "\<forall>n. can_alloc w n" and u: "used s i" "path_of s i = p"
    and here: "base_name p \<in> set (dir_names s k)"
    and names: "\<forall>e\<in>set (dir_names s k). length e < MAX_PATH"
  obtains s' where "remove_inode w s p i = Some s'" "node_removed s s' p i k"
proof -
  have k: "search_inode s (parent_path p) = int k" "used s k" "path_of s k = parent_path p"
    "i_type (inodes s k) = INODE_DIR"
    using parent search_used [of s "parent_path p" k] by (simp_all add: is_dir_def)
  have ik: "i \<noteq> k" using k(3) u(2) parent_path_neq [OF p] by auto
  obtain block where r: "remove_inode w s p i = Some (replace_content (release_slot s i) k block (i_size (inodes s k)))"
    and blk: "dir_block block (i_size (inodes s k)) (filter (\<lambda>e. e \<noteq> base_name p) (dir_names s k))"
    using remove_inode_ok [OF wf p k(1,4) mem u here names] by metis
  let ?s' = "replace_content (release_slot s i) k block (i_size (inodes s k))"
  have "fs_wf ?s'"
    using k ik fs_wf_release_slot [OF wf u(1)]
    by (intro fs_wf_replace_content [OF _ _ _ blk]) (simp_all add: release_slot_used, simp add: release_slot_def)
  then have "node_removed s ?s' p i k"
    using ik u dir_block_names [OF blk]
    by (auto simp: node_removed_def release_slot_used replace_content_names)
      (auto simp: replace_content_def path_of_def dir_names_def release_slot_def)
  with r show thesis by (rule that)
qed

section \<open>The tree\<close>

text \<open>
  The paths FUSE passes are normalised: one slash between the components. Then a path is
  determined by its parent and its last component.
\<close>

definition join_path :: "string \<Rightarrow> string \<Rightarrow> string" where
  "join_path d e = (if d = ''/'' then CHR ''/'' # e else d @ CHR ''/'' # e)"

definition clean_path :: "string \<Rightarrow> bool" where
  "clean_path p \<longleftrightarrow> child_path p \<and> p = join_path (parent_path p) (base_name p)"

lemma clean_path_inj: "clean_path p \<Longrightarrow> clean_path q \<Longrightarrow> parent_path p = parent_path q \<Longrightarrow>
    base_name p = base_name q \<Longrightarrow> p = q"
  by (metis clean_path_def)

lemma root_not_clean: "clean_path p \<Longrightarrow> p \<noteq> ''/''"
  by (auto simp: clean_path_def child_path_def base_name_def)

definition below :: "fs \<Rightarrow> nat \<Rightarrow> nat \<Rightarrow> bool" where
  "below s k j \<longleftrightarrow> used s j \<and> clean_path (path_of s j) \<and> parent_path (path_of s j) = path_of s k"

definition tree_inv :: "fs \<Rightarrow> bool" where
  "tree_inv s \<longleftrightarrow> fs_wf s \<and> unique_paths s
     \<and> (\<forall>j. used s j \<longrightarrow> path_of s j = ''/'' \<or> clean_path (path_of s j))
     \<and> (\<exists>k. is_dir s ''/'' k)
     \<and> (\<forall>j. used s j \<and> path_of s j \<noteq> ''/'' \<longrightarrow> (\<exists>k. is_dir s (parent_path (path_of s j)) k))
     \<and> (\<forall>k. used s k \<and> i_type (inodes s k) = INODE_DIR \<longrightarrow>
          distinct (dir_names s k) \<and> set (dir_names s k) = base_name ` path_of s ` {j. below s k j})"

text \<open>Requests that touch file data and times only.\<close>

definition same_tree :: "fs \<Rightarrow> fs \<Rightarrow> bool" where
  "same_tree s s' \<longleftrightarrow> fs_wf s' \<and> (\<forall>j. used s' j = used s j \<and> path_of s' j = path_of s j
     \<and> i_type (inodes s' j) = i_type (inodes s j)
     \<and> (i_type (inodes s j) = INODE_DIR \<longrightarrow> dir_names s' j = dir_names s j))"

lemma is_dir_iff:
  "unique_paths s \<Longrightarrow> is_dir s d k \<longleftrightarrow> used s k \<and> path_of s k = d \<and> i_type (inodes s k) = INODE_DIR"
  using search_inode_eqI [of s k d] search_used [of s d k] by (auto simp: is_dir_def)

lemma tree_inv_same: "tree_inv s \<Longrightarrow> same_tree s s' \<Longrightarrow> tree_inv s'"
proof -
  assume inv: "tree_inv s" and same: "same_tree s s'"
  have u: "unique_paths s" "unique_paths s'" using inv same
    by (auto simp: tree_inv_def same_tree_def unique_paths_def)
  have "is_dir s' d k \<longleftrightarrow> is_dir s d k" for d k
    using same by (simp add: is_dir_iff u same_tree_def)
  moreover have "below s' k j \<longleftrightarrow> below s k j" for k j using same by (simp add: below_def same_tree_def)
  moreover have "path_of s' = path_of s" using same by (auto simp: same_tree_def)
  ultimately show ?thesis using inv same u by (auto simp: tree_inv_def same_tree_def)
qed

lemma tree_inv_dir:
  assumes "tree_inv s" and "is_dir s d k"
  shows "distinct (dir_names s k)" "set (dir_names s k) = base_name ` path_of s ` {j. below s k j}"
    "\<forall>e\<in>set (dir_names s k). wf_entry e \<and> length e < MAX_PATH"
proof -
  have k: "used s k" "i_type (inodes s k) = INODE_DIR"
    using assms(2) search_used(1) by (auto simp: is_dir_def)
  then show "distinct (dir_names s k)" and eq: "set (dir_names s k) = base_name ` path_of s ` {j. below s k j}"
    using assms(1) by (simp_all add: tree_inv_def)
  show "\<forall>e\<in>set (dir_names s k). wf_entry e \<and> length e < MAX_PATH"
    unfolding eq using child_path_base by (auto simp: below_def clean_path_def)
qed

lemma tree_inv_added:
  assumes inv: "tree_inv s" and p: "clean_path p" and fresh: "search_inode s p = FS_ERROR"
    and parent: "is_dir s (parent_path p) k" and add: "node_added s s' p type i k"
  shows "tree_inv s'"
proof -
  have u: "unique_paths s" using inv by (simp add: tree_inv_def)
  have new: "\<not> (used s j \<and> path_of s j = p)" for j using fresh by (simp add: search_inode_error)
  note a = add [unfolded node_added_def]
  have k: "used s k" "path_of s k = parent_path p" "i_type (inodes s k) = INODE_DIR"
    using parent by (simp_all add: is_dir_iff u)
  have pp: "parent_path p \<noteq> p" using p by (auto simp: clean_path_def dest: parent_path_neq)
  have u': "unique_paths s'" unfolding unique_paths_def
  proof (intro allI impI)
    fix x y assume xy: "used s' x \<and> used s' y \<and> path_of s' x = path_of s' y"
    show "x = y" using xy a new u unfolding unique_paths_def by (cases "x = i"; cases "y = i") auto
  qed
  have bel: "below s' x j \<longleftrightarrow> (if j = i then path_of s' x = parent_path p else below s x j)" if "x \<noteq> i" for x j
    using a p that by (auto simp: below_def)
  have isd: "is_dir s' d x \<longleftrightarrow> (if x = i then d = p \<and> type = INODE_DIR else is_dir s d x)" for d x
    using a by (auto simp: is_dir_iff u u')
  have nobody: "\<not> below s' i j" for j
  proof
    assume b: "below s' i j"
    then have j: "used s' j" "clean_path (path_of s' j)" "parent_path (path_of s' j) = p"
      using a by (auto simp: below_def)
    with pp a have "j \<noteq> i" by auto
    with j a have "used s j" "path_of s j \<noteq> ''/''" "parent_path (path_of s j) = p"
      using root_not_clean by auto
    then obtain x where "is_dir s p x" using inv by (metis tree_inv_def)
    with new show False by (auto simp: is_dir_iff u)
  qed
  have names: "distinct (dir_names s' x) \<and> set (dir_names s' x) = base_name ` path_of s' ` {j. below s' x j}"
    if x: "used s' x" "i_type (inodes s' x) = INODE_DIR" for x
  proof (cases "x = i")
    case True
    then show ?thesis using a nobody by simp
  next
    case False
    then have sx: "used s x" "i_type (inodes s x) = INODE_DIR" using x a by auto
    then have old: "distinct (dir_names s x)" "set (dir_names s x) = base_name ` path_of s ` {j. below s x j}"
      using inv by (simp_all add: tree_inv_def)
    have pi: "path_of s' i = p" using a by simp
    have img: "base_name ` path_of s' ` {j. below s x j} = base_name ` path_of s ` {j. below s x j}"
      unfolding image_image using a by (intro image_cong) (auto simp: below_def)
    show ?thesis
    proof (cases "x = k")
      case True
      have "{j. below s' k j} = insert i {j. below s k j}"
        using bel [of k] False True k a by (auto simp: below_def)
      then have "base_name ` path_of s' ` {j. below s' k j} = insert (base_name p) (set (dir_names s k))"
        using img old(2) True pi by simp
      moreover have "base_name p \<notin> set (dir_names s k)"
      proof
        assume "base_name p \<in> set (dir_names s k)"
        then obtain j where "below s k j" "base_name (path_of s j) = base_name p" using old(2) True by auto
        then have "path_of s j = p" using clean_path_inj [OF _ p] k(2) by (auto simp: below_def)
        with new \<open>below s k j\<close> show False by (auto simp: below_def)
      qed
      ultimately show ?thesis using a old(1) True by auto
    next
      case False
      have "path_of s' x \<noteq> parent_path p"
        using False sx k u a \<open>x \<noteq> i\<close> by (auto simp: unique_paths_def)
      then have "{j. below s' x j} = {j. below s x j}" using bel \<open>x \<noteq> i\<close> a
        by (auto simp: below_def split: if_splits)
      then show ?thesis using a old False \<open>x \<noteq> i\<close> img by metis
    qed
  qed
  have par: "\<exists>x. is_dir s' (parent_path (path_of s' j)) x" if "used s' j" "path_of s' j \<noteq> ''/''" for j
  proof (cases "j = i")
    case True
    then have "path_of s' j = p" using a by simp
    moreover have "is_dir s' (parent_path p) k" using parent a by (simp add: isd)
    ultimately show ?thesis by auto
  next
    case False
    then have "used s j" "path_of s j \<noteq> ''/''" and eq: "path_of s' j = path_of s j" using that a by auto
    then obtain x where x: "is_dir s (parent_path (path_of s j)) x" using inv by (metis tree_inv_def)
    moreover from this have "x \<noteq> i" using a by (auto simp: is_dir_iff u)
    ultimately show ?thesis using eq by (auto simp: isd intro!: exI [of _ x])
  qed
  obtain r where r: "is_dir s ''/'' r" using inv by (auto simp: tree_inv_def)
  then have "r \<noteq> i" using a by (auto simp: is_dir_iff u)
  with r have root: "is_dir s' ''/'' r" by (simp add: isd)
  have paths: "path_of s' j = ''/'' \<or> clean_path (path_of s' j)" if "used s' j" for j
  proof (cases "j = i")
    case False
    then have "used s j" "path_of s' j = path_of s j" using that a by auto
    then show ?thesis using inv by (auto simp: tree_inv_def)
  qed (use a p in simp)
  have "fs_wf s'" using a by simp
  with u' paths root par names show ?thesis unfolding tree_inv_def by blast
qed

lemma tree_inv_removed:
  assumes inv: "tree_inv s" and p: "clean_path p" and parent: "is_dir s (parent_path p) k"
    and rem: "node_removed s s' p i k" and path: "path_of s i = p"
    and leaf: "i_type (inodes s i) = INODE_DIR \<longrightarrow> dir_names s i = []"
  shows "tree_inv s'"
proof -
  have u: "unique_paths s" using inv by (simp add: tree_inv_def)
  note a = rem [unfolded node_removed_def]
  have ui: "used s i" "i \<noteq> k" using a by auto
  have k: "used s k" "path_of s k = parent_path p" "i_type (inodes s k) = INODE_DIR"
    using parent by (simp_all add: is_dir_iff u)
  have u': "unique_paths s'" using a u by (auto simp: unique_paths_def)
  have pth: "path_of s' = path_of s" using a by auto
  have isd: "is_dir s' d x \<longleftrightarrow> is_dir s d x \<and> x \<noteq> i" for d x
    using a by (auto simp: is_dir_iff u u')
  have bel: "below s' x j \<longleftrightarrow> below s x j \<and> j \<noteq> i" for x j
    using a by (auto simp: below_def)
  have nobody: "\<not> is_dir s (parent_path (path_of s j)) i" if "used s j" "path_of s j \<noteq> ''/''" for j
  proof
    assume d: "is_dir s (parent_path (path_of s j)) i"
    have "clean_path (path_of s j)" using that inv by (auto simp: tree_inv_def)
    with d that have "below s i j" by (auto simp: below_def is_dir_iff u)
    moreover have "dir_names s i = []" using leaf d by (auto simp: is_dir_iff u)
    moreover have "set (dir_names s i) = base_name ` path_of s ` {j. below s i j}"
      using tree_inv_dir(2) [OF inv d] .
    ultimately show False by auto
  qed
  have names: "distinct (dir_names s' x) \<and> set (dir_names s' x) = base_name ` path_of s' ` {j. below s' x j}"
    if x: "used s' x" "i_type (inodes s' x) = INODE_DIR" for x
  proof -
    have sx: "used s x" "x \<noteq> i" "i_type (inodes s x) = INODE_DIR" using x a by auto
    then have old: "distinct (dir_names s x)" "set (dir_names s x) = base_name ` path_of s ` {j. below s x j}"
      using inv by (simp_all add: tree_inv_def)
    have bel': "{j. below s' x j} = {j. below s x j} - {i}" using bel by auto
    show ?thesis
    proof (cases "x = k")
      case True
      have "base_name (path_of s j) \<noteq> base_name p" if "below s k j" "j \<noteq> i" for j
      proof
        assume "base_name (path_of s j) = base_name p"
        then have "path_of s j = p" using clean_path_inj [OF _ p] that(1) k(2) by (auto simp: below_def)
        with that path ui(1) u show False by (auto simp: unique_paths_def below_def)
      qed
      moreover have names': "dir_names s' k = filter (\<lambda>e. e \<noteq> base_name p) (dir_names s k)" using a by auto
      ultimately have "set (dir_names s' k) = base_name ` path_of s ` ({j. below s k j} - {i})"
        using old(2) True path by auto
      then show ?thesis using names' old(1) True bel' pth by simp
    next
      case False
      have "\<not> below s x i" using False sx(1) k path u by (auto simp: below_def unique_paths_def)
      then have "{j. below s x j} - {i} = {j. below s x j}" by auto
      moreover have "dir_names s' x = dir_names s x" using a False sx(2) by auto
      ultimately show ?thesis using old by (simp add: bel' pth)
    qed
  qed
  have par: "\<exists>x. is_dir s' (parent_path (path_of s' j)) x" if "used s' j" "path_of s' j \<noteq> ''/''" for j
  proof -
    have j: "used s j" "path_of s j \<noteq> ''/''" using that a by auto
    then obtain x where "is_dir s (parent_path (path_of s j)) x" using inv by (metis tree_inv_def)
    with nobody [OF j] show ?thesis by (auto simp: isd pth)
  qed
  obtain r where r: "is_dir s ''/'' r" using inv by (auto simp: tree_inv_def)
  moreover have "r \<noteq> i" using r path root_not_clean [OF p] by (auto simp: is_dir_iff u)
  ultimately have root: "is_dir s' ''/'' r" by (simp add: isd)
  have paths: "path_of s' j = ''/'' \<or> clean_path (path_of s' j)" if "used s' j" for j
    using that a inv by (auto simp: tree_inv_def)
  have "fs_wf s'" using a by simp
  with u' paths root par names show ?thesis unfolding tree_inv_def by blast
qed

section \<open>Requests\<close>

text \<open>
  One request of the kernel, answered by a handler. The kernel resolves the path first, so it
  asks for a new node only where there is none and below a directory (the documented VFS
  behaviour). Writes and truncations stay below 2 GB, what an \<open>int\<close> size can hold.
\<close>

inductive fuse_step :: "os \<Rightarrow> fs \<Rightarrow> fs \<Rightarrow> bool" for w :: os where
  mkdir: "fisopfs_mkdir w s (p @ NUL # x # rest) mode = Some (r, s', pb) \<Longrightarrow> clean_path p \<Longrightarrow>
    search_inode s p = FS_ERROR \<Longrightarrow> is_dir s (parent_path p) k \<Longrightarrow> fuse_step w s s'"
| create: "fisopfs_create w s (p @ NUL # x # rest) mode = Some (r, s', pb) \<Longrightarrow> clean_path p \<Longrightarrow>
    search_inode s p = FS_ERROR \<Longrightarrow> is_dir s (parent_path p) k \<Longrightarrow> fuse_step w s s'"
| unlink: "fisopfs_unlink w s p = Some (r, s') \<Longrightarrow> clean_path p \<Longrightarrow> fuse_step w s s'"
| rmdir: "fisopfs_rmdir w s p = Some (r, s') \<Longrightarrow> clean_path p \<Longrightarrow> fuse_step w s s'"
| write_data: "fisopfs_write w s p data offset = Some (r, s') \<Longrightarrow> 0 \<le> offset \<Longrightarrow>
    offset + int (length data) < 2 ^ 31 \<Longrightarrow> fuse_step w s s'"
| truncate: "fisopfs_truncate w s p n = Some (r, s') \<Longrightarrow> 0 \<le> n \<Longrightarrow> n < 2 ^ 31 \<Longrightarrow> fuse_step w s s'"
| read_data: "fisopfs_read w s p count offset = Some (r, bytes, s') \<Longrightarrow> fuse_step w s s'"
| utimens: "fisopfs_utimens s p atime mtime = (r, s') \<Longrightarrow> fuse_step w s s'"
| getattr: "fisopfs_getattr w s p st = Some (r, st', s') \<Longrightarrow> fuse_step w s s'"
| readdir: "fisopfs_readdir w s p n = Some (r, names, s') \<Longrightarrow> fuse_step w s s'"

inductive fs_reachable :: "os \<Rightarrow> fs \<Rightarrow> fs \<Rightarrow> bool" for w :: os and s0 :: fs where
  init: "fs_reachable w s0 s0"
| step: "fs_reachable w s0 s \<Longrightarrow> fuse_step w s s' \<Longrightarrow> fs_reachable w s0 s'"

inductive_cases fuse_stepE: "fuse_step w s s'"

lemma same_tree_errno: "fs_wf s \<Longrightarrow> same_tree s (s\<lparr>errno := e\<rparr>)"
  by (auto simp: same_tree_def fs_wf_def used_def path_of_def dir_names_def)

lemma same_tree_refl: "fs_wf s \<Longrightarrow> same_tree s s"
  by (simp add: same_tree_def)

lemma is_file_nat:
  "search_inode s p \<noteq> FS_ERROR \<Longrightarrow> i_type (inodes s (nat (search_inode s p))) = INODE_FILE \<Longrightarrow>
     is_file s p (nat (search_inode s p))"
  and is_dir_nat:
  "search_inode s p \<noteq> FS_ERROR \<Longrightarrow> i_type (inodes s (nat (search_inode s p))) = INODE_DIR \<Longrightarrow>
     is_dir s p (nat (search_inode s p))"
  using search_inode_found(3) [of s p] by (simp_all add: is_file_def is_dir_def)

lemma not_file: "t \<noteq> INODE_FILE \<longleftrightarrow> t = INODE_DIR"
  by (cases t) simp_all

text \<open>An inode keeps its path and type; a directory keeps its content too.\<close>

lemma same_tree_update:
  assumes wf: "fs_wf s" and u: "used s k" and ino: "i_path ino = i_path (inodes s k)" "i_type ino = i_type (inodes s k)"
    and dir: "i_type ino = INODE_DIR \<Longrightarrow> i_content ino = i_content (inodes s k) \<and> i_size ino = i_size (inodes s k)"
    and fl: "i_type ino = INODE_FILE \<Longrightarrow> \<exists>b. i_content ino = Some b \<and> 0 \<le> i_size ino \<and> i_size ino \<le> int (length b)"
  shows "same_tree s (s\<lparr>inodes := (inodes s)(k := ino)\<rparr>)"
proof -
  have ok: "inode_ok (inodes s k)" "length (i_path ino) = MAX_PATH"
    using wf u ino by (simp_all add: fs_wf_def used_def)
  then have ok2: "inode_ok ino"
  proof (cases "i_type ino")
    case INODE_FILE
    then show ?thesis using fl ok ino by (auto simp: inode_ok_def)
  next
    case INODE_DIR
    then have "i_type (inodes s k) = INODE_DIR" using ino by simp
    then show ?thesis using INODE_DIR dir ok ino by (simp add: inode_ok_def split: option.splits)
  qed
  have "used (s\<lparr>inodes := (inodes s)(k := ino)\<rparr>) = used s" by (auto simp: used_def)
  then have "fs_wf (s\<lparr>inodes := (inodes s)(k := ino)\<rparr>)" using wf ok ok2 by (auto simp: fs_wf_def)
  then show ?thesis using ino dir by (auto simp: same_tree_def used_def path_of_def dir_names_def)
qed

lemma fisopfs_write_same_tree:
  assumes wf: "fs_wf s" and mem: "\<forall>n. can_alloc w n" and off: "0 \<le> offset" "offset + int (length data) < 2 ^ 31"
    and w: "fisopfs_write w s p data offset = Some (r, s')"
  shows "same_tree s s'"
proof (cases "\<exists>k. is_file s p k")
  case True
  then obtain k where k: "is_file s p k" ..
  obtain block where "fisopfs_write w s p data offset = Some (int (length data),
       s\<lparr>inodes := (inodes s)(k := (inodes s k)\<lparr>i_content := Some block,
          i_size := offset + int (length data), i_last_modification := clock w 0\<rparr>)\<rparr>)"
    "nat offset + length data \<le> length block"
    using fisopfs_write_ok [OF wf k off mem] by metis
  moreover have "used s k" "i_type (inodes s k) = INODE_FILE" using k search_used(1) by (auto simp: is_file_def)
  ultimately show ?thesis using w off by (auto intro!: same_tree_update [OF wf])
next
  case False
  then have "s' = s\<lparr>errno := ENOENT\<rparr> \<or> s' = s\<lparr>errno := EISDIR\<rparr>"
    using w
    by (auto simp: fisopfs_write_def Let_def dest: is_file_nat split: if_splits)
  then show ?thesis using same_tree_errno [OF wf] by auto
qed

lemma fisopfs_truncate_same_tree:
  assumes wf: "fs_wf s" and mem: "\<forall>n. can_alloc w n" and n: "0 \<le> n" "n < 2 ^ 31"
    and t: "fisopfs_truncate w s p n = Some (r, s')"
  shows "same_tree s s'"
proof (cases "\<exists>k. is_file s p k")
  case True
  then obtain k where k: "is_file s p k" ..
  then have se: "search_inode s p = int k" "i_type (inodes s k) = INODE_FILE" by (simp_all add: is_file_def)
  have u: "used s k" using se search_used(1) by auto
  have nn: "u64 n = n" "s32 n = n" using n by (simp_all add: u64_id s32_id)
  show ?thesis
  proof (cases "n = 0")
    case True
    then show ?thesis using t se mem u
      by (auto simp: fisopfs_truncate_def Let_def calloc_def intro!: same_tree_update [OF wf])
  next
    case False
    obtain c where r: "realloc w (case i_content (inodes s k) of Some c \<Rightarrow> c | None \<Rightarrow> []) n = Some c"
      using realloc_ok n mem by blast
    have "length c = nat n" using realloc_length [OF r] .
    then show ?thesis using t se False n nn r u
      by (auto simp: fisopfs_truncate_def Let_def poke_def split: if_splits intro!: same_tree_update [OF wf])
  qed
next
  case False
  then have "s' = s\<lparr>errno := ENOENT\<rparr> \<or> s' = s\<lparr>errno := EISDIR\<rparr>"
    using t
    by (auto simp: fisopfs_truncate_def Let_def dest: is_file_nat [unfolded FS_ERROR_def] split: if_splits)
  then show ?thesis using same_tree_errno [OF wf] by auto
qed

lemma fisopfs_read_same_tree:
  assumes wf: "fs_wf s" and r: "fisopfs_read w s p count offset = Some (r, bytes, s')"
  shows "same_tree s s'"
proof (cases "search_inode s p = FS_ERROR \<or> i_type (inodes s (nat (search_inode s p))) \<noteq> INODE_FILE")
  case True
  then show ?thesis using r same_tree_errno [OF wf] by (auto simp: fisopfs_read_def Let_def split: if_splits)
next
  case False
  let ?k = "nat (search_inode s p)"
  have u: "used s ?k" using search_inode_found(1) False by blast
  have "s' = s\<lparr>inodes := (inodes s)(?k := (inodes s ?k)\<lparr>i_last_access := clock w 0\<rparr>)\<rparr>"
    using r False by (auto simp: fisopfs_read_def Let_def split: if_splits bind_splits)
  moreover have "is_file s p ?k" using False search_inode_found(3) [of s p] by (simp add: is_file_def)
  moreover from this obtain b where "i_content (inodes s ?k) = Some b" "0 \<le> i_size (inodes s ?k)"
    "i_size (inodes s ?k) \<le> int (length b)"
    using is_file_block [OF wf] by metis
  ultimately show ?thesis using u by (auto intro!: same_tree_update [OF wf])
qed

lemma fisopfs_utimens_same_tree:
  assumes wf: "fs_wf s" and r: "fisopfs_utimens s p at mt = (r, s')"
  shows "same_tree s s'"
proof (cases "search_inode s p = FS_ERROR")
  case True
  then show ?thesis using r same_tree_errno [OF wf] by (auto simp: fisopfs_utimens_def Let_def)
next
  case False
  let ?k = "nat (search_inode s p)"
  have u: "used s ?k" using search_inode_found(1) [OF False] .
  then have "inode_ok (inodes s ?k)" using wf by (simp add: fs_wf_def)
  moreover have "s' = s\<lparr>inodes := (inodes s)(?k := (inodes s ?k)\<lparr>i_last_access := at, i_last_modification := mt\<rparr>)\<rparr>"
    using r False by (auto simp: fisopfs_utimens_def Let_def)
  ultimately show ?thesis using u
    by (auto simp: inode_ok_def split: option.splits intro!: same_tree_update [OF wf])
qed

lemma make_node_tree:
  assumes inv: "tree_inv s" and mem: "\<forall>n. can_alloc w n" and p: "clean_path p"
    and fresh: "search_inode s p = FS_ERROR" and parent: "is_dir s (parent_path p) k"
    and m: "make_node w s (p @ NUL # x # rest) mode type = Some (r, s', pb)"
  shows "tree_inv s'"
proof (cases rule: search_free_inode_cases [of s])
  case (free i)
  have wf: "fs_wf s" and cp: "child_path p" using inv p by (simp_all add: tree_inv_def clean_path_def)
  have "\<not> dentry_overflows (i_size (inodes s k)) (dir_names s k) (base_name p)"
    using make_node_overflow [OF wf cp parent free(1) mem] m by auto
  then obtain s2 where "make_node w s (p @ NUL # x # rest) mode type = Some (0, s2, p @ NL # NUL # rest)"
    "node_added s s2 p type i k"
    using make_node_ok [OF wf cp parent free(1) mem] by metis
  with m show ?thesis using tree_inv_added [OF inv p fresh parent] by simp
next
  case full
  then have "s' = s\<lparr>errno := - ENOSPC\<rparr>" using make_node_full [of p s w "x # rest" mode type] p m
    by (simp add: clean_path_def)
  moreover have "fs_wf s" using inv by (simp add: tree_inv_def)
  ultimately show ?thesis using tree_inv_same [OF inv same_tree_errno] by simp
qed

text \<open>Removing a file or an empty directory; the guard is the code's, the rest follows from the tree.\<close>

lemma remove_node_tree:
  assumes inv: "tree_inv s" and mem: "\<forall>n. can_alloc w n" and p: "clean_path p"
    and found: "search_inode s p = int i" and leaf: "i_type (inodes s i) = INODE_DIR \<longrightarrow> dir_names s i = []"
  obtains s' k where "remove_inode w s p i = Some s'" "is_dir s (parent_path p) k" "node_removed s s' p i k" "tree_inv s'"
proof -
  have u: "used s i" "path_of s i = p" using search_used found by auto
  then obtain k where k: "is_dir s (parent_path p) k"
    using inv root_not_clean [OF p] by (auto simp: tree_inv_def)
  have kk: "used s k" "path_of s k = parent_path p" using k search_used by (auto simp: is_dir_def)
  have "below s k i" using u kk p by (simp add: below_def)
  then have "base_name p \<in> set (dir_names s k)" using tree_inv_dir(2) [OF inv k] u by auto
  moreover have "\<forall>e\<in>set (dir_names s k). length e < MAX_PATH" using tree_inv_dir(3) [OF inv k] by auto
  moreover have "fs_wf s" "child_path p" using inv p by (simp_all add: tree_inv_def clean_path_def)
  ultimately obtain s' where "remove_inode w s p i = Some s'" "node_removed s s' p i k"
    using remove_node_ok [OF _ _ k mem u] by metis
  then show thesis using that k tree_inv_removed [OF inv p k _ u(2) leaf] by auto
qed

lemma unlink_tree:
  assumes inv: "tree_inv s" and mem: "\<forall>n. can_alloc w n" and p: "clean_path p"
    and r: "fisopfs_unlink w s p = Some (r, s')"
  shows "tree_inv s'"
proof (cases "\<exists>i. is_file s p i")
  case True
  then obtain i where i: "search_inode s p = int i" "i_type (inodes s i) = INODE_FILE" by (auto simp: is_file_def)
  obtain s2 where "remove_inode w s p i = Some s2" "tree_inv s2"
    using remove_node_tree [OF inv mem p i(1)] i(2) by auto
  then show ?thesis using r i by (simp add: fisopfs_unlink_def)
next
  case False
  then have "s' = s\<lparr>errno := ENOENT\<rparr> \<or> s' = s\<lparr>errno := EISDIR\<rparr>"
    using r
    by (auto simp: fisopfs_unlink_def Let_def dest: is_file_nat split: if_splits)
  then show ?thesis using inv same_tree_errno tree_inv_same by (metis tree_inv_def)
qed

lemma rmdir_tree:
  assumes inv: "tree_inv s" and mem: "\<forall>n. can_alloc w n" and p: "clean_path p"
    and r: "fisopfs_rmdir w s p = Some (r, s')"
  shows "tree_inv s'"
proof (cases "\<exists>i. is_dir s p i")
  case True
  then obtain i where i: "search_inode s p = int i" "i_type (inodes s i) = INODE_DIR" by (auto simp: is_dir_def)
  have wf: "fs_wf s" using inv by (simp add: tree_inv_def)
  obtain block where b: "i_content (inodes s i) = Some block" "dir_block block (i_size (inodes s i)) (dir_names s i)"
    using fs_wf_dir [OF wf search_used(1) [OF i(1)] i(2)] .
  show ?thesis
  proof (cases "length (unlines (dir_names s i)) > 0")
    case True
    then have "s' = s\<lparr>errno := ENOTEMPTY\<rparr>" using r i b dir_block_strlen [OF b(2)]
      by (simp add: fisopfs_rmdir_def)
    then show ?thesis using inv same_tree_errno [OF wf] tree_inv_same by metis
  next
    case False
    then have "dir_names s i = []" by (cases "dir_names s i") auto
    moreover from this obtain s2 where "remove_inode w s p i = Some s2" "tree_inv s2"
      using remove_node_tree [OF inv mem p i(1)] by auto
    ultimately show ?thesis using r i b(1) dir_block_strlen [OF b(2)] by (simp add: fisopfs_rmdir_def)
  qed
next
  case False
  then have "s' = s\<lparr>errno := ENOENT\<rparr> \<or> s' = s\<lparr>errno := ENOTDIR\<rparr>"
    using r
    by (auto simp: fisopfs_rmdir_def Let_def dest: is_dir_nat split: if_splits)
  then show ?thesis using inv same_tree_errno tree_inv_same by (metis tree_inv_def)
qed

lemma fuse_step_tree:
  assumes "fuse_step w s s'" and inv: "tree_inv s" and mem: "\<forall>n. can_alloc w n"
  shows "tree_inv s'"
proof -
  have wf: "fs_wf s" using inv by (simp add: tree_inv_def)
  from assms(1) show ?thesis
  proof cases
    case (mkdir p x rest mode r pb k)
    then show ?thesis using make_node_tree [OF inv mem] by (simp add: mkdir_make_node)
  next
    case (create p x rest mode r pb k)
    then show ?thesis using make_node_tree [OF inv mem] by (simp add: create_make_node)
  next
    case (unlink p r)
    then show ?thesis using unlink_tree [OF inv mem] by simp
  next
    case (rmdir p r)
    then show ?thesis using rmdir_tree [OF inv mem] by simp
  next
    case (write_data p data offset r)
    then show ?thesis using fisopfs_write_same_tree [OF wf mem] tree_inv_same [OF inv] by blast
  next
    case (truncate p n r)
    then show ?thesis using fisopfs_truncate_same_tree [OF wf mem] tree_inv_same [OF inv] by blast
  next
    case (read_data p count offset r bytes)
    then show ?thesis using fisopfs_read_same_tree [OF wf] tree_inv_same [OF inv] by blast
  next
    case (utimens p atime mtime r)
    then show ?thesis using fisopfs_utimens_same_tree [OF wf] tree_inv_same [OF inv] by blast
  next
    case (getattr p st r st')
    then have "s' = s \<or> s' = s\<lparr>errno := ENOENT\<rparr>"
      by (auto simp: fisopfs_getattr_def Let_def split: bind_splits option.splits if_splits)
    then show ?thesis using tree_inv_same [OF inv] same_tree_errno [OF wf] inv by auto
  next
    case (readdir p n r names)
    then have "s' = s \<or> s' = s\<lparr>errno := ENOENT\<rparr> \<or> s' = s\<lparr>errno := ENOTDIR\<rparr>"
      by (auto simp: fisopfs_readdir_def Let_def split: bind_splits if_splits)
    then show ?thesis using tree_inv_same [OF inv] same_tree_errno [OF wf] inv by auto
  qed
qed

lemma fs_reachable_tree:
  assumes "fs_reachable w s0 s" and "tree_inv s0" and "\<forall>n. can_alloc w n"
  shows "tree_inv s"
  using assms by induction (auto intro: fuse_step_tree)

lemma readdir_names:
  assumes inv: "tree_inv s" and d: "is_dir s d k"
  shows "fisopfs_readdir w s d 0 = Some (0, [''.'', ''..''] @ dir_names s k, s)"
proof -
  have wf: "fs_wf s" and u: "unique_paths s" using inv by (simp_all add: tree_inv_def)
  have k: "search_inode s d = int k" "i_type (inodes s k) = INODE_DIR" using d by (simp_all add: is_dir_def)
  obtain block where b: "i_content (inodes s k) = Some block" "dir_block block (i_size (inodes s k)) (dir_names s k)"
    using fs_wf_dir [OF wf search_used(1) [OF k(1)] k(2)] .
  obtain rest where block: "block = unlines (dir_names s k) @ NUL # rest" using b(2) by (auto simp: dir_block_def)
  have "\<forall>e\<in>set (dir_names s k). wf_entry e \<and> length e < 1024"
    using tree_inv_dir(3) [OF inv d] by (auto simp: MAX_PATH_def)
  then have "fill_entries w block (length (unlines (dir_names s k))) (length ([]::string)) [''.'', ''..'']
      = Some ([''.'', ''..''] @ dir_names s k)"
    using block by (intro fill_entries_ok [where post = rest]) simp_all
  then show ?thesis using k b(1) dir_block_strlen [OF b(2)] by (simp add: fisopfs_readdir_def)
qed

end
