(* ===== verification/Fs_Disk.thy ===== *)
theory Fs_Disk
  imports Fs_Handlers
begin

text \<open>
  Persistence of the file system: \<open>serialize\<close> and \<open>deserialize\<close> of
  \<open>file_system/fs.c\<close>, and \<open>fisopfs_init\<close>, \<open>fisopfs_destroy\<close> of \<open>fisopfs.c\<close>.

  An \<open>inode_t\<close> is written as it lies in memory, so the model has its bytes: the LP64
  little-endian layout, 312 bytes. What the bytes of the content pointer and of the padding
  are, and which calls of \<open>read\<close> and \<open>write\<close> fail or are short, is the parameter \<open>io\<close>.
\<close>

section \<open>Bytes of integers\<close>

fun le_bytes :: "nat \<Rightarrow> int \<Rightarrow> string" where
  "le_bytes 0 x = []"
| "le_bytes (Suc n) x = char_of (nat (x mod 256)) # le_bytes n (x div 256)"

fun le_uint :: "string \<Rightarrow> int" where
  "le_uint [] = 0"
| "le_uint (b # bs) = int (of_char b) + 256 * le_uint bs"

definition s64 :: "int \<Rightarrow> int" where
  "s64 x = signed_take_bit 63 x"

lemma s64_id: "- (2 ^ 63) \<le> x \<Longrightarrow> x < 2 ^ 63 \<Longrightarrow> s64 x = x"
  by (simp add: s64_def signed_take_bit_int_eq_self)

lemma length_le_bytes [simp]: "length (le_bytes n x) = n"
  by (induction n arbitrary: x) simp_all

lemma le_uint_bytes: "le_uint (le_bytes n x) = x mod 256 ^ n"
proof (induction n arbitrary: x)
  case (Suc n)
  have "int (of_char (char_of (nat (x mod 256)) :: char)) = x mod 256"
    by (simp add: of_char_of nat_mod_distrib [symmetric] flip: nat_mod_distrib)
  moreover have "x mod (256 * 256 ^ n) = 256 * (x div 256 mod 256 ^ n) + x mod 256"
    by (rule zmod_zmult2_eq) simp
  ultimately show ?case using Suc.IH [of "x div 256"] by simp
qed simp

lemma le_uint_bytes4: "le_uint (le_bytes 4 x) = x mod 2 ^ 32"
  by (simp add: le_uint_bytes)

lemma le_uint_bytes8: "le_uint (le_bytes 8 x) = x mod 2 ^ 64"
  by (simp add: le_uint_bytes)

lemma s32_mod: "s32 (x mod 2 ^ 32) = s32 x"
  by (simp only: s32_def signed_take_bit_take_bit flip: take_bit_eq_mod) simp

lemma s64_mod: "s64 (x mod 2 ^ 64) = s64 x"
  by (simp only: s64_def signed_take_bit_take_bit flip: take_bit_eq_mod) simp

section \<open>The image of an inode\<close>

record io =
  content_addr :: "nat \<Rightarrow> int"
  padding :: "nat \<Rightarrow> int"
  io_fails :: "nat \<Rightarrow> bool"
  io_limit :: "nat \<Rightarrow> nat"

definition SIZEOF_INODE :: nat where "SIZEOF_INODE = 312"

definition type_code :: "inode_type \<Rightarrow> int" where
  "type_code t = (case t of INODE_FILE \<Rightarrow> 0 | INODE_DIR \<Rightarrow> 1)"

definition type_of_code :: "int \<Rightarrow> inode_type option" where
  "type_of_code c = (if c = 0 then Some INODE_FILE else if c = 1 then Some INODE_DIR else None)"

definition encode_inode :: "io \<Rightarrow> nat \<Rightarrow> inode \<Rightarrow> string" where
  "encode_inode m k ino =
     i_path ino @ le_bytes 8 (content_addr m k) @ le_bytes 4 (i_size ino)
     @ le_bytes 4 (type_code (i_type ino)) @ le_bytes 8 (i_last_access ino)
     @ le_bytes 8 (i_last_modification ino) @ le_bytes 8 (i_creation_time ino)
     @ le_bytes 4 (i_group ino) @ le_bytes 4 (i_owner ino) @ le_bytes 4 (i_permissions ino)
     @ le_bytes 4 (padding m k)"

definition field :: "string \<Rightarrow> nat \<Rightarrow> nat \<Rightarrow> int" where
  "field img pos n = le_uint (take n (drop pos img))"

text \<open>The pointer read from the file is of no use and is not kept.\<close>

definition decode_inode :: "string \<Rightarrow> inode option" where
  "decode_inode img = do {
     type \<leftarrow> type_of_code (field img 268 4);
     Some \<lparr>i_path = take MAX_PATH img, i_content = None, i_size = s32 (field img 264 4),
       i_type = type, i_last_access = s64 (field img 272 8),
       i_last_modification = s64 (field img 280 8), i_creation_time = s64 (field img 288 8),
       i_group = field img 296 4, i_owner = field img 300 4, i_permissions = field img 304 4\<rparr>
   }"

definition overlay :: "string \<Rightarrow> string \<Rightarrow> string" where
  "overlay xs old = xs @ drop (length xs) old"

text \<open>Values that fit the C types of the fields.\<close>

definition inode_fits :: "inode \<Rightarrow> bool" where
  "inode_fits ino \<longleftrightarrow> - (2 ^ 31) \<le> i_size ino \<and> i_size ino < 2 ^ 31
     \<and> (\<forall>t\<in>{i_last_access ino, i_last_modification ino, i_creation_time ino}.
          - (2 ^ 63) \<le> t \<and> t < 2 ^ 63)
     \<and> (\<forall>t\<in>{i_group ino, i_owner ino, i_permissions ino}. 0 \<le> t \<and> t < 2 ^ 32)"

lemma length_encode_inode: "length (i_path ino) = MAX_PATH \<Longrightarrow> length (encode_inode m k ino) = SIZEOF_INODE"
  by (simp add: encode_inode_def SIZEOF_INODE_def MAX_PATH_def)

lemma field_append:
  "field (xs @ ys) pos n = (if pos + n \<le> length xs then field xs pos n
     else if length xs \<le> pos then field ys (pos - length xs) n
     else le_uint (take n (drop pos (xs @ ys))))"
  by (auto simp: field_def)

lemma field_le_bytes: "field (le_bytes n x @ ys) 0 n = x mod 256 ^ n" "field (le_bytes n x) 0 n = x mod 256 ^ n"
  by (simp_all add: field_def le_uint_bytes)

lemma type_of_code_code: "type_of_code (type_code t mod 2 ^ 32) = Some t"
  by (cases t) (simp_all add: type_code_def type_of_code_def)

lemma decode_encode_inode:
  assumes "length (i_path ino) = MAX_PATH" and "inode_fits ino"
  shows "decode_inode (encode_inode m k ino) = Some (ino\<lparr>i_content := None\<rparr>)"
proof -
  let ?img = "encode_inode m k ino"
  note fields = encode_inode_def field_append field_le_bytes MAX_PATH_def assms(1)
  have raw: "field ?img 268 4 = type_code (i_type ino) mod 2 ^ 32"
    "field ?img 264 4 = i_size ino mod 2 ^ 32"
    "field ?img 272 8 = i_last_access ino mod 2 ^ 64"
    "field ?img 280 8 = i_last_modification ino mod 2 ^ 64"
    "field ?img 288 8 = i_creation_time ino mod 2 ^ 64"
    "field ?img 296 4 = i_group ino mod 2 ^ 32"
    "field ?img 300 4 = i_owner ino mod 2 ^ 32"
    "field ?img 304 4 = i_permissions ino mod 2 ^ 32"
    by (simp_all add: fields)
  have vals: "type_of_code (field ?img 268 4) = Some (i_type ino)"
    "s32 (field ?img 264 4) = i_size ino" "s64 (field ?img 272 8) = i_last_access ino"
    "s64 (field ?img 280 8) = i_last_modification ino" "s64 (field ?img 288 8) = i_creation_time ino"
    "field ?img 296 4 = i_group ino" "field ?img 300 4 = i_owner ino"
    "field ?img 304 4 = i_permissions ino"
    unfolding raw s32_mod s64_mod type_of_code_code
    using assms(2) by (simp_all add: inode_fits_def s32_id s64_id)
  have "take MAX_PATH ?img = i_path ino" using assms(1) by (simp add: encode_inode_def)
  then show ?thesis by (simp add: decode_inode_def vals)
qed

section \<open>Files of the host\<close>

text \<open>An open file: the bytes still to read, or the bytes written, and the calls made so far.\<close>

record fd =
  fd_bytes :: string
  fd_calls :: nat

definition read_fd :: "io \<Rightarrow> fd \<Rightarrow> nat \<Rightarrow> int \<times> string \<times> fd" where
  "read_fd m d n =
     (let d' = d\<lparr>fd_calls := Suc (fd_calls d)\<rparr> in
      if io_fails m (fd_calls d) then (-1, [], d')
      else (let got = take (min n (io_limit m (fd_calls d))) (fd_bytes d)
            in (int (length got), got, d'\<lparr>fd_bytes := drop (length got) (fd_bytes d)\<rparr>)))"

definition write_fd :: "io \<Rightarrow> fd \<Rightarrow> string \<Rightarrow> int \<times> fd" where
  "write_fd m d bytes =
     (let d' = d\<lparr>fd_calls := Suc (fd_calls d)\<rparr> in
      if io_fails m (fd_calls d) then (-1, d')
      else (let put = take (io_limit m (fd_calls d)) bytes
            in (int (length put), d'\<lparr>fd_bytes := fd_bytes d @ put\<rparr>)))"

section \<open>Loading\<close>

function load_inodes ::
  "os \<Rightarrow> io \<Rightarrow> int \<Rightarrow> nat \<Rightarrow> fs \<Rightarrow> fd \<Rightarrow> (nat \<times> bool \<times> fs \<times> fd) option"
where
  "load_inodes w m inodes_amount i s d =
     (if int i < inodes_amount
      then if i \<ge> INODES_AMOUNT then None
        else (let (read_inode, bytes, d) = read_fd m d SIZEOF_INODE in
          if read_inode \<le> 0 then Some (i, read_inode \<noteq> 0, s, d)
          else (case decode_inode (overlay bytes (encode_inode m i (inodes s i))) of
              None \<Rightarrow> None
            | Some ino \<Rightarrow>
                (case calloc w (i_size ino) of
                   None \<Rightarrow> Some (i, True, s\<lparr>inodes := (inodes s)(i := ino)\<rparr>, d)
                 | Some block \<Rightarrow>
                     (let (read_content, bytes, d) = read_fd m d (nat (i_size ino));
                          s = s\<lparr>inodes := (inodes s)(i := ino\<lparr>i_content := Some (overlay bytes block)\<rparr>)\<rparr>
                      in if read_content < 0 then Some (i, True, s, d)
                         else load_inodes w m inodes_amount (Suc i)
                           (s\<lparr>inode_bitmap := (inode_bitmap s)(i := 1)\<rparr>) d))))
      else Some (i, False, s, d))"
  by pat_completeness auto
termination
  by (relation "measure (\<lambda>(w, m, n, i, s, d). nat n - i)") auto

declare load_inodes.simps [simp del]

definition free_contents :: "fs \<Rightarrow> nat set \<Rightarrow> fs" where
  "free_contents s I = s\<lparr>inodes := (\<lambda>j. if j \<in> I then (inodes s j)\<lparr>i_content := None\<rparr> else inodes s j)\<rparr>"

definition deserialize :: "os \<Rightarrow> io \<Rightarrow> fs \<Rightarrow> fd \<Rightarrow> (fs \<times> fd) option" where
  "deserialize w m s d =
     (let (amount, bytes, d) = read_fd m d 4 in
      if amount < 0 then Some (s, d)
      else (let inodes_amount = s32 (le_uint (overlay bytes (le_bytes 4 0)));
                s = s\<lparr>inode_amount := inodes_amount\<rparr>
            in do {
              (i, error, s, d) \<leftarrow> load_inodes w m inodes_amount 0 s d;
              if error then Some ((free_contents s {..<i})\<lparr>inode_amount := 0\<rparr>, d)
              else Some (s, d)
            }))"

section \<open>Saving\<close>

text \<open>The loop of \<open>serialize\<close>, over the slots still to visit; it says whether a write failed.\<close>

fun save_inodes :: "io \<Rightarrow> fs \<Rightarrow> nat list \<Rightarrow> fd \<Rightarrow> (bool \<times> fd) option" where
  "save_inodes m s [] d = Some (False, d)"
| "save_inodes m s (i # is) d =
     (if i \<ge> INODES_AMOUNT then None
      else if inode_bitmap s i \<noteq> 1 then save_inodes m s is d
      else do {
        let (write_inode, d) = write_fd m d (encode_inode m i (inodes s i));
        content \<leftarrow> i_content (inodes s i);
        bytes \<leftarrow> (if 0 \<le> i_size (inodes s i) then slice content 0 (nat (i_size (inodes s i)))
                  else None);
        let (write_content, d) = write_fd m d bytes;
        if write_inode < 0 \<or> write_content < 0 then Some (True, d)
        else save_inodes m s is d
      })"

definition serialize :: "io \<Rightarrow> fs \<Rightarrow> fd \<Rightarrow> (fs \<times> fd) option" where
  "serialize m s d =
     (let (amount, d) = write_fd m d (le_bytes 4 (inode_amount s)) in
      if amount < 0 then Some (s, d)
      else do {
        (error, d) \<leftarrow> save_inodes m s [0..<nat (inode_amount s)] d;
        if error then Some (s, d)
        else Some (free_contents s {i. i < nat (inode_amount s) \<and> inode_bitmap s i = 1}, d)
      })"

section \<open>Mounting and unmounting\<close>

text \<open>
  \<open>fisopfs_init\<close> and \<open>fisopfs_destroy\<close>; the files of the host are a map from names to
  contents, and opening a file fails when there is none. Both use \<open>DEFAULT_FILE_DISK\<close>.
\<close>

type_synonym host = "string \<rightharpoonup> string"

definition fisopfs_init :: "os \<Rightarrow> io \<Rightarrow> host \<Rightarrow> fs \<Rightarrow> (host \<times> fs) option" where
  "fisopfs_init w m host s =
     (case host DEFAULT_FILE_DISK of
        None \<Rightarrow> do {
          (_, s) \<leftarrow> create_inode w s ''/'' (S_IFDIR OR 0x1ED) INODE_DIR;
          Some (host(DEFAULT_FILE_DISK \<mapsto> []), s)
        }
      | Some bytes \<Rightarrow> do {
          (s, _) \<leftarrow> deserialize w m s \<lparr>fd_bytes = bytes, fd_calls = 0\<rparr>;
          Some (host, s)
        })"

definition fisopfs_destroy :: "io \<Rightarrow> host \<Rightarrow> fs \<Rightarrow> (host \<times> fs) option" where
  "fisopfs_destroy m host s =
     (case host DEFAULT_FILE_DISK of
        None \<Rightarrow> Some (host, s)
      | Some _ \<Rightarrow> do {
          (s, d) \<leftarrow> serialize m s \<lparr>fd_bytes = [], fd_calls = 0\<rparr>;
          Some (host(DEFAULT_FILE_DISK \<mapsto> fd_bytes d), s)
        })"

text \<open>The superblock of a program that has just started: all bytes are zero.\<close>

definition blank_inode :: inode where
  "blank_inode = \<lparr>i_path = replicate MAX_PATH NUL, i_content = None, i_size = 0,
     i_type = INODE_FILE, i_last_access = 0, i_last_modification = 0, i_creation_time = 0,
     i_group = 0, i_owner = 0, i_permissions = 0\<rparr>"

definition blank_fs :: fs where
  "blank_fs = \<lparr>inodes = (\<lambda>_. blank_inode), inode_bitmap = (\<lambda>_. 0), inode_amount = 0, errno = 0\<rparr>"

section \<open>Saving and loading\<close>

definition io_ok :: "io \<Rightarrow> bool" where
  "io_ok m \<longleftrightarrow> (\<forall>n. \<not> io_fails m n \<and> io_limit m n \<ge> 2 ^ 31)"

definition inode_record :: "io \<Rightarrow> fs \<Rightarrow> nat \<Rightarrow> string" where
  "inode_record m s i = encode_inode m i (inodes s i)
     @ (case i_content (inodes s i) of None \<Rightarrow> [] | Some c \<Rightarrow> take (nat (i_size (inodes s i))) c)"

text \<open>An inode as the disk keeps it: its block is cut to the recorded size.\<close>

definition on_disk :: "inode \<Rightarrow> inode" where
  "on_disk ino = ino\<lparr>i_content := map_option (take (nat (i_size ino))) (i_content ino)\<rparr>"

definition saveable :: "fs \<Rightarrow> nat \<Rightarrow> bool" where
  "saveable s i \<longleftrightarrow> i < INODES_AMOUNT \<and> inode_bitmap s i = 1 \<and> inode_fits (inodes s i)
     \<and> length (i_path (inodes s i)) = MAX_PATH \<and> 0 \<le> i_size (inodes s i)
     \<and> (\<exists>c. i_content (inodes s i) = Some c \<and> i_size (inodes s i) \<le> int (length c))"

lemma write_fd_ok:
  "io_ok m \<Longrightarrow> length bytes < 2 ^ 31 \<Longrightarrow> write_fd m d bytes =
     (int (length bytes), \<lparr>fd_bytes = fd_bytes d @ bytes, fd_calls = Suc (fd_calls d)\<rparr>)"
proof -
  assume a: "io_ok m" "length bytes < 2 ^ 31"
  then have "io_limit m (fd_calls d) \<ge> 2 ^ 31" by (simp add: io_ok_def)
  then have "take (io_limit m (fd_calls d)) bytes = bytes" using a(2) by (intro take_all) linarith
  with a(1) show ?thesis by (cases d) (simp add: write_fd_def io_ok_def Let_def)
qed

lemma read_fd_ok:
  "io_ok m \<Longrightarrow> length bytes < 2 ^ 31 \<Longrightarrow> read_fd m \<lparr>fd_bytes = bytes @ rest, fd_calls = c\<rparr> (length bytes) =
     (int (length bytes), bytes, \<lparr>fd_bytes = rest, fd_calls = Suc c\<rparr>)"
proof -
  assume a: "io_ok m" "length bytes < 2 ^ 31"
  then have "io_limit m c \<ge> 2 ^ 31" by (simp add: io_ok_def)
  then have "min (length bytes) (io_limit m c) = length bytes" using a(2) by linarith
  with a(1) show ?thesis by (simp add: read_fd_def io_ok_def Let_def)
qed

lemma saveable_record:
  assumes "saveable s i"
  obtains c where "i_content (inodes s i) = Some c"
    "inode_record m s i = encode_inode m i (inodes s i) @ take (nat (i_size (inodes s i))) c"
    "length (take (nat (i_size (inodes s i))) c) = nat (i_size (inodes s i))"
    "slice c 0 (nat (i_size (inodes s i))) = Some (take (nat (i_size (inodes s i))) c)"
    "nat (i_size (inodes s i)) < 2 ^ 31"
proof -
  obtain c where c: "i_content (inodes s i) = Some c" "i_size (inodes s i) \<le> int (length c)"
    and sz: "0 \<le> i_size (inodes s i)" "i_size (inodes s i) < 2 ^ 31"
    using assms by (auto simp: saveable_def inode_fits_def)
  then show thesis by (intro that [of c]) (auto simp: inode_record_def slice_def)
qed

lemma save_inodes_ok:
  assumes io: "io_ok m" and "\<forall>i\<in>set is. saveable s i"
  shows "\<exists>c. save_inodes m s is d
    = Some (False, \<lparr>fd_bytes = fd_bytes d @ concat (map (inode_record m s) is), fd_calls = c\<rparr>)"
  using assms(2)
proof (induction "is" arbitrary: d)
  case Nil
  then show ?case by (cases d) simp
next
  case (Cons i "is")
  have sv: "saveable s i" using Cons.prems by simp
  then obtain c where c: "i_content (inodes s i) = Some c"
    "inode_record m s i = encode_inode m i (inodes s i) @ take (nat (i_size (inodes s i))) c"
    "length (take (nat (i_size (inodes s i))) c) = nat (i_size (inodes s i))"
    "slice c 0 (nat (i_size (inodes s i))) = Some (take (nat (i_size (inodes s i))) c)"
    "nat (i_size (inodes s i)) < 2 ^ 31"
    by (rule saveable_record)
  have img: "length (encode_inode m i (inodes s i)) < 2 ^ 31"
    using sv by (simp add: length_encode_inode saveable_def SIZEOF_INODE_def)
  let ?d1 = "\<lparr>fd_bytes = fd_bytes d @ encode_inode m i (inodes s i), fd_calls = Suc (fd_calls d)\<rparr>"
  let ?d2 = "\<lparr>fd_bytes = fd_bytes d @ inode_record m s i, fd_calls = Suc (Suc (fd_calls d))\<rparr>"
  have w1: "write_fd m d (encode_inode m i (inodes s i))
      = (int (length (encode_inode m i (inodes s i))), ?d1)"
    using io img by (simp add: write_fd_ok)
  have w2: "write_fd m ?d1 (take (nat (i_size (inodes s i))) c) = (int (nat (i_size (inodes s i))), ?d2)"
    using io c by (subst write_fd_ok) simp_all
  have "save_inodes m s (i # is) d = save_inodes m s is ?d2"
    using sv c by (simp add: w1 w2 saveable_def)
  moreover obtain k where "save_inodes m s is ?d2 =
      Some (False, \<lparr>fd_bytes = fd_bytes ?d2 @ concat (map (inode_record m s) is), fd_calls = k\<rparr>)"
    using Cons.IH Cons.prems by (meson list.set_intros(2))
  ultimately show ?case by simp
qed

lemma overlay_all: "length xs = length old \<Longrightarrow> overlay xs old = xs"
  by (simp add: overlay_def)

text \<open>One record read back into slot \<open>i\<close> of any superblock.\<close>

lemma load_inodes_step:
  assumes io: "io_ok m" and mem: "\<forall>n. can_alloc w n" and sv: "saveable s i" and i: "int i < n"
    and path: "length (i_path (inodes s0 i)) = MAX_PATH"
  shows "load_inodes w m n i s0 \<lparr>fd_bytes = inode_record m s i @ rest, fd_calls = c\<rparr>
    = load_inodes w m n (Suc i)
        (s0\<lparr>inodes := (inodes s0)(i := on_disk (inodes s i)), inode_bitmap := (inode_bitmap s0)(i := 1)\<rparr>)
        \<lparr>fd_bytes = rest, fd_calls = Suc (Suc c)\<rparr>"
proof -
  let ?ino = "inodes s i"
  let ?img = "encode_inode m i ?ino" and ?n = "nat (i_size ?ino)"
  obtain b where b: "i_content ?ino = Some b" "inode_record m s i = ?img @ take ?n b"
    "length (take ?n b) = ?n" "?n < 2 ^ 31"
    using sv by (rule saveable_record)
  have p: "length (i_path ?ino) = MAX_PATH" "inode_fits ?ino" "i < INODES_AMOUNT" "0 \<le> i_size ?ino"
    using sv by (simp_all add: saveable_def)
  have len: "length ?img = SIZEOF_INODE" "length ?img < 2 ^ 31"
    using p by (simp_all add: length_encode_inode SIZEOF_INODE_def)
  have r1: "read_fd m \<lparr>fd_bytes = inode_record m s i @ rest, fd_calls = c\<rparr> SIZEOF_INODE
      = (312, ?img, \<lparr>fd_bytes = take ?n b @ rest, fd_calls = Suc c\<rparr>)"
    using read_fd_ok [OF io len(2), of "take ?n b @ rest" c] len(1) b(2)
    by (simp add: SIZEOF_INODE_def)
  have r2: "read_fd m \<lparr>fd_bytes = take ?n b @ rest, fd_calls = Suc c\<rparr> ?n
      = (int ?n, take ?n b, \<lparr>fd_bytes = rest, fd_calls = Suc (Suc c)\<rparr>)"
    using read_fd_ok [OF io, of "take ?n b" rest "Suc c"] b(3,4) by simp
  have img: "overlay ?img (encode_inode m i (inodes s0 i)) = ?img"
    using len(1) path by (simp add: overlay_all length_encode_inode)
  have dec: "decode_inode ?img = Some (?ino\<lparr>i_content := None\<rparr>)"
    using p by (rule_tac decode_encode_inode) simp_all
  have blk: "overlay (take ?n b) (replicate ?n NUL) = take ?n b"
    using b(3) by (simp add: overlay_all)
  show ?thesis
    using i p mem by (subst load_inodes.simps)
      (simp add: r1 r2 img dec blk calloc_def Let_def on_disk_def b(1))
qed

lemma load_inodes_ok:
  assumes io: "io_ok m" and mem: "\<forall>n. can_alloc w n" and sv: "\<forall>j. i \<le> j \<and> j < n \<longrightarrow> saveable s j"
    and path: "\<forall>j. length (i_path (inodes s0 j)) = MAX_PATH" and le: "i \<le> n"
  shows "\<exists>s1 k. load_inodes w m (int n) i s0
      \<lparr>fd_bytes = concat (map (inode_record m s) [i..<n]) @ rest, fd_calls = c\<rparr>
    = Some (n, False, s1, \<lparr>fd_bytes = rest, fd_calls = k\<rparr>)
    \<and> inode_amount s1 = inode_amount s0 \<and> errno s1 = errno s0
    \<and> inodes s1 = (\<lambda>j. if i \<le> j \<and> j < n then on_disk (inodes s j) else inodes s0 j)
    \<and> inode_bitmap s1 = (\<lambda>j. if i \<le> j \<and> j < n then 1 else inode_bitmap s0 j)"
  using le sv path
proof (induction "n - i" arbitrary: i s0 c)
  case 0
  then show ?case by (subst load_inodes.simps) (auto simp: fun_eq_iff)
next
  case (Suc k)
  let ?s1 = "s0\<lparr>inodes := (inodes s0)(i := on_disk (inodes s i)), inode_bitmap := (inode_bitmap s0)(i := 1)\<rparr>"
  have lt: "i < n" using Suc.hyps(2) by simp
  then have svi: "saveable s i" and rng: "[i..<n] = i # [Suc i..<n]"
    using Suc.prems by (simp_all add: upt_conv_Cons)
  have "load_inodes w m (int n) i s0
      \<lparr>fd_bytes = concat (map (inode_record m s) [i..<n]) @ rest, fd_calls = c\<rparr>
    = load_inodes w m (int n) (Suc i) ?s1
        \<lparr>fd_bytes = concat (map (inode_record m s) [Suc i..<n]) @ rest, fd_calls = Suc (Suc c)\<rparr>"
    using load_inodes_step [OF io mem svi, of "int n"] lt Suc.prems(3) by (simp add: rng)
  moreover have "length (i_path (inodes ?s1 j)) = MAX_PATH" for j
    using Suc.prems(3) svi by (simp add: on_disk_def saveable_def)
  ultimately show ?case
    using Suc.hyps(1) [of "Suc i" ?s1 "Suc (Suc c)"] Suc.hyps(2) Suc.prems(2) lt
    by (fastforce simp: fun_eq_iff)
qed

lemma serialize_ok:
  assumes "io_ok m" and "\<forall>i<n. saveable s i" and "inode_amount s = int n"
  shows "\<exists>k. serialize m s \<lparr>fd_bytes = [], fd_calls = 0\<rparr> =
    Some (free_contents s {..<n},
      \<lparr>fd_bytes = le_bytes 4 (int n) @ concat (map (inode_record m s) [0..<n]), fd_calls = k\<rparr>)"
proof -
  have bits: "inode_bitmap s i = 1" if "i < n" for i using assms(2) that by (simp add: saveable_def)
  have set: "{i. i < n \<and> inode_bitmap s i = 1} = {..<n}" using bits by auto
  have w: "write_fd m \<lparr>fd_bytes = [], fd_calls = 0\<rparr> (le_bytes 4 (int n))
      = (4, \<lparr>fd_bytes = le_bytes 4 (int n), fd_calls = Suc 0\<rparr>)"
    using assms(1) by (subst write_fd_ok) simp_all
  obtain k where "save_inodes m s [0..<n] \<lparr>fd_bytes = le_bytes 4 (int n), fd_calls = Suc 0\<rparr>
      = Some (False, \<lparr>fd_bytes = le_bytes 4 (int n) @ concat (map (inode_record m s) [0..<n]), fd_calls = k\<rparr>)"
    using save_inodes_ok [OF assms(1), of "[0..<n]" s "\<lparr>fd_bytes = le_bytes 4 (int n), fd_calls = Suc 0\<rparr>"]
      assms(2) by auto
  then show ?thesis by (simp add: serialize_def assms(3) w set)
qed

lemma deserialize_ok:
  assumes io: "io_ok m" and mem: "\<forall>n. can_alloc w n" and sv: "\<forall>j<n. saveable s j" and n: "n < 2 ^ 31"
    and path: "\<forall>j. length (i_path (inodes s0 j)) = MAX_PATH"
  shows "\<exists>s1 d. deserialize w m s0
      \<lparr>fd_bytes = le_bytes 4 (int n) @ concat (map (inode_record m s) [0..<n]), fd_calls = 0\<rparr> = Some (s1, d)
    \<and> inode_amount s1 = int n \<and> errno s1 = errno s0
    \<and> inodes s1 = (\<lambda>j. if j < n then on_disk (inodes s j) else inodes s0 j)
    \<and> inode_bitmap s1 = (\<lambda>j. if j < n then 1 else inode_bitmap s0 j)"
proof -
  let ?recs = "concat (map (inode_record m s) [0..<n])"
  have r: "read_fd m \<lparr>fd_bytes = le_bytes 4 (int n) @ ?recs, fd_calls = 0\<rparr> 4
      = (4, le_bytes 4 (int n), \<lparr>fd_bytes = ?recs, fd_calls = Suc 0\<rparr>)"
    using read_fd_ok [OF io, of "le_bytes 4 (int n)" ?recs 0] by simp
  have a: "s32 (le_uint (overlay (le_bytes 4 (int n)) (le_bytes 4 0))) = int n"
    using n by (simp only: overlay_all length_le_bytes le_uint_bytes4 s32_mod) (simp add: s32_id)
  let ?s0 = "s0\<lparr>inode_amount := int n\<rparr>"
  obtain s1 k where "load_inodes w m (int n) 0 ?s0 \<lparr>fd_bytes = ?recs, fd_calls = Suc 0\<rparr>
      = Some (n, False, s1, \<lparr>fd_bytes = [], fd_calls = k\<rparr>)"
    and "inode_amount s1 = int n" "errno s1 = errno s0"
    "inodes s1 = (\<lambda>j. if j < n then on_disk (inodes s j) else inodes s0 j)"
    "inode_bitmap s1 = (\<lambda>j. if j < n then 1 else inode_bitmap s0 j)"
    using load_inodes_ok [OF io mem, of 0 n s ?s0 "[]" "Suc 0"] sv path by (auto simp: fun_eq_iff)
  then show ?thesis by (simp add: deserialize_def r a)
qed

text \<open>A used slot is saveable when its values fit the C types.\<close>

lemma used_saveable:
  assumes "fs_wf s" and "used s i" and "inode_bitmap s i = 1" and "inode_fits (inodes s i)"
  shows "saveable s i"
proof -
  have "inode_ok (inodes s i)" "length (i_path (inodes s i)) = MAX_PATH" "i < INODES_AMOUNT"
    using assms(1,2) by (simp_all add: fs_wf_def used_def)
  then show ?thesis using assms(3,4)
    by (auto simp: saveable_def inode_ok_def dir_block_def split: option.splits inode_type.splits)
qed

text \<open>What a save writes does not depend on the slots from \<open>inode_amount\<close> on.\<close>

lemma save_inodes_prefix:
  assumes "\<forall>i\<in>set is. i \<noteq> k"
  shows "save_inodes m (s\<lparr>inodes := (inodes s)(k := ino)\<rparr>) is d = save_inodes m s is d"
  using assms
proof (induction "is" arbitrary: d)
  case (Cons i "is")
  then show ?case by (simp split: prod.splits) (auto split: bind_splits prod.splits)
qed simp

lemma used_beyond_count:
  assumes wf: "fs_wf s" and hole: "j < nat (inode_amount s)" "\<not> used s j"
  obtains k where "used s k" "nat (inode_amount s) \<le> k"
proof -
  have n: "nat (inode_amount s) = card {i. used s i}" using wf by (simp add: fs_wf_def)
  have "\<not> {i. used s i} \<subseteq> {..<card {i. used s i}} - {j}"
  proof
    assume "{i. used s i} \<subseteq> {..<card {i. used s i}} - {j}"
    then have "card {i. used s i} \<le> card ({..<card {i. used s i}} - {j})"
      by (intro card_mono) simp_all
    also have "\<dots> < card {i. used s i}" using hole(1) n by simp
    finally show False by simp
  qed
  then obtain k where "used s k" "\<not> (k < card {i. used s i} \<and> k \<noteq> j)" by auto
  with hole(2) n show thesis by (intro that [of k]) auto
qed

end
