(* ===== verification/Fs_Props.thy ===== *)
theory Fs_Props
  imports Fs_Tree Fs_Disk
begin

text \<open>
  The properties of the FUSE file system (\<open>file_system/\<close>): what its handlers promise, on the
  states requests can reach from a fresh mount, and what persistence keeps. First the state of a
  fresh mount and a small file system the witnesses run on.
\<close>

section \<open>A fresh mount\<close>

definition root_fs :: "os \<Rightarrow> fs" where
  "root_fs w = blank_fs\<lparr>inodes := (inodes blank_fs)(0 := new_inode w blank_fs 0 ''/'' (S_IFDIR OR 0x1ED) INODE_DIR),
     inode_bitmap := (inode_bitmap blank_fs)(0 := 1), inode_amount := inode_amount blank_fs + 1\<rparr>"

lemma INODES_AMOUNT_pos [simp]: "0 < INODES_AMOUNT"
  by (simp add: INODES_AMOUNT_def)

lemma blank_fs_wf: "fs_wf blank_fs"
  by (simp add: fs_wf_def blank_fs_def blank_inode_def used_def)

lemma blank_fs_free: "search_free_inode blank_fs = int 0"
  using first_from_eqI [of 0 INODES_AMOUNT "\<lambda>i. \<not> inode_bitmap blank_fs i \<noteq> 0"]
  by (simp add: search_free_inode_def blank_fs_def Let_def INODES_AMOUNT_def)

lemma root_path: "length ''/'' < MAX_PATH" "nul_free ''/''"
  by (simp_all add: MAX_PATH_def cstr_simps NUL_def)

lemma fresh_mount:
  assumes "host DEFAULT_FILE_DISK = None" and "\<forall>n. can_alloc w n"
  shows "fisopfs_init w m host blank_fs = Some (host(DEFAULT_FILE_DISK \<mapsto> []), root_fs w)"
  using create_inode_ok [OF blank_fs_wf root_path(1) blank_fs_free assms(2)] assms(1)
  by (simp add: fisopfs_init_def root_fs_def)

lemma root_fs_wf: "fs_wf (root_fs w)"
proof -
  note p = new_inode_props [OF blank_fs_wf INODES_AMOUNT_pos root_path, of w "S_IFDIR OR 0x1ED" INODE_DIR]
  show ?thesis unfolding root_fs_def using p
    by (intro fs_wf_add_inode [OF blank_fs_wf]) (simp_all add: blank_fs_def)
qed

lemma root_fs_used: "used (root_fs w) j \<longleftrightarrow> j = 0"
  by (auto simp: root_fs_def used_def blank_fs_def)

lemma root_fs_root: "path_of (root_fs w) 0 = ''/''" "i_type (inodes (root_fs w) 0) = INODE_DIR"
    "dir_names (root_fs w) 0 = []" "i_size (inodes (root_fs w) 0) = 0"
  using new_inode_props [OF blank_fs_wf INODES_AMOUNT_pos root_path, of w "S_IFDIR OR 0x1ED" INODE_DIR]
  by (simp_all add: root_fs_def path_of_def dir_names_def new_inode_def empty_block_names)

lemma root_fs_tree: "tree_inv (root_fs w)"
proof -
  have u: "unique_paths (root_fs w)" by (simp add: unique_paths_def root_fs_used)
  have "below (root_fs w) 0 = (\<lambda>_. False)"
    by (auto simp: below_def root_fs_used root_fs_root fun_eq_iff dest: root_not_clean)
  then show ?thesis
    by (simp add: tree_inv_def root_fs_wf u is_dir_iff root_fs_used root_fs_root)
qed

lemma root_fs_is_dir: "is_dir (root_fs w) ''/'' 0"
  by (simp add: is_dir_iff unique_paths_def root_fs_used root_fs_root)

lemma root_fs_free: "search_free_inode (root_fs w) = int 1"
  using first_from_eqI [of 1 INODES_AMOUNT "\<lambda>i. \<not> inode_bitmap (root_fs w) i \<noteq> 0"]
  by (simp add: search_free_inode_def root_fs_def blank_fs_def Let_def INODES_AMOUNT_def)

text \<open>The first file of a fresh mount.\<close>

lemma slash_f: "child_path ''/f''" "clean_path ''/f''" "parent_path ''/f'' = ''/''" "base_name ''/f'' = ''f''"
  by (simp_all add: child_path_def clean_path_def join_path_def parent_path_def base_name_def cstr_simps
      NUL_def NL_def MAX_PATH_def)

lemma root_fs_make:
  assumes "\<forall>n. can_alloc w n"
  obtains s where "make_node w (root_fs w) (''/f'' @ NUL # CHR ''x'' # []) mode type = Some (0, s, ''/f'' @ NL # NUL # [])"
    "node_added (root_fs w) s ''/f'' type 1 0" "search_inode s ''/f'' = int 1" "tree_inv s"
proof -
  have par: "is_dir (root_fs w) (parent_path ''/f'') 0" using root_fs_is_dir by (simp add: slash_f)
  have room: "\<not> dentry_overflows (i_size (inodes (root_fs w) 0)) (dir_names (root_fs w) 0) (base_name ''/f'')"
    by (simp add: dentry_overflows_def root_fs_root)
  obtain s where s: "make_node w (root_fs w) (''/f'' @ NUL # CHR ''x'' # []) mode type = Some (0, s, ''/f'' @ NL # NUL # [])"
    "node_added (root_fs w) s ''/f'' type 1 0"
    using make_node_ok [OF root_fs_wf slash_f(1) par root_fs_free assms room] by metis
  have fresh: "search_inode (root_fs w) ''/f'' = FS_ERROR"
    by (auto simp: search_inode_error root_fs_used root_fs_root)
  have inv: "tree_inv s" using tree_inv_added [OF root_fs_tree slash_f(2) fresh par s(2)] .
  then have "unique_paths s" by (simp add: tree_inv_def)
  then have "search_inode s ''/f'' = int 1"
    using s(2) by (intro search_inode_eqI) (simp_all add: node_added_def)
  with s inv show thesis by (intro that)
qed

text \<open>A file system with a root and the file \<open>/f\<close> that holds \<open>hello\<close>.\<close>

definition demo_root :: inode where
  "demo_root = blank_inode\<lparr>i_path := ''/'' @ replicate 255 NUL,
     i_content := Some (''f'' @ NL # NUL # replicate 1023 NUL), i_size := 1026, i_type := INODE_DIR\<rparr>"

definition demo_file :: inode where
  "demo_file = blank_inode\<lparr>i_path := ''/f'' @ replicate 254 NUL,
     i_content := Some ''hello'', i_size := 5, i_type := INODE_FILE\<rparr>"

definition demo_fs :: fs where
  "demo_fs = blank_fs\<lparr>inodes := (\<lambda>_. blank_inode)(0 := demo_root, 1 := demo_file),
     inode_bitmap := (\<lambda>_. 0)(0 := 1, 1 := 1), inode_amount := 2\<rparr>"

lemma cstr_padded: "nul_free p \<Longrightarrow> 0 < n \<Longrightarrow> cstr (p @ replicate n NUL) = p"
  by (cases n) (simp_all add: cstr_append_NUL)

lemma demo_paths: "path_of demo_fs 0 = ''/''" "path_of demo_fs 1 = ''/f''"
proof -
  have "nul_free ''/''" "nul_free ''/f''" by (simp_all add: cstr_simps NUL_def)
  then have "cstr (''/'' @ replicate 255 NUL) = ''/''" "cstr (''/f'' @ replicate 254 NUL) = ''/f''"
    by (simp_all only: cstr_padded)
  then show "path_of demo_fs 0 = ''/''" "path_of demo_fs 1 = ''/f''"
    by (simp_all add: path_of_def demo_fs_def demo_root_def demo_file_def)
qed

lemma demo_used: "used demo_fs j \<longleftrightarrow> j = 0 \<or> j = 1"
  by (auto simp: demo_fs_def used_def INODES_AMOUNT_def)

lemma demo_block: "dir_block (''f'' @ NL # NUL # replicate 1023 NUL) 1026 [''f'']"
  by (simp add: dir_block_def wf_entry_def cstr_simps) (simp add: NL_def NUL_def)

lemma demo_names: "block_names (''f'' @ NL # NUL # replicate 1023 NUL) = [''f'']"
  "dir_names demo_fs 0 = [''f'']"
proof -
  show n: "block_names (''f'' @ NL # NUL # replicate 1023 NUL) = [''f'']"
    using demo_block by (rule dir_block_names)
  then show "dir_names demo_fs 0 = [''f'']" by (simp add: dir_names_def demo_fs_def demo_root_def)
qed

lemma demo_inodes_ok: "inode_ok demo_root" "inode_ok demo_file"
proof -
  have "terminated (''/'' @ replicate 255 NUL)" by (simp add: terminated_def)
  then show "inode_ok demo_root" using demo_block demo_names(1) by (simp add: inode_ok_def demo_root_def)
  have "terminated (''/f'' @ replicate 254 NUL)" by (simp add: terminated_def)
  then show "inode_ok demo_file" by (simp add: inode_ok_def demo_file_def)
qed

lemma demo_inodes: "inodes demo_fs 0 = demo_root" "inodes demo_fs 1 = demo_file"
  "inode_bitmap demo_fs 0 = 1" "inode_bitmap demo_fs 1 = 1" "inode_amount demo_fs = 2"
  by (simp_all add: demo_fs_def)

lemma demo_wf: "fs_wf demo_fs"
proof -
  have "{i. used demo_fs i} = {0, 1}" by (auto simp: demo_used)
  then have "inode_amount demo_fs = int (card {i. used demo_fs i})" by (simp add: demo_inodes)
  moreover have "length (i_path (inodes demo_fs i)) = MAX_PATH" for i
    by (simp add: demo_fs_def demo_root_def demo_file_def blank_inode_def MAX_PATH_def)
  moreover have "inode_ok (inodes demo_fs i)" if "used demo_fs i" for i
    using that demo_inodes_ok demo_inodes by (auto simp: demo_used)
  ultimately show ?thesis by (simp add: fs_wf_def)
qed

lemma demo_search: "search_inode demo_fs ''/f'' = int 1" "search_inode demo_fs ''/'' = int 0"
  by (rule search_inode_eqI; auto simp: unique_paths_def demo_used demo_paths simp del: One_nat_def)+

lemma demo_is_file: "is_file demo_fs ''/f'' 1" "i_size (inodes demo_fs 1) = 5"
  "i_content (inodes demo_fs 1) = Some ''hello''" "file_bytes demo_fs 1 = ''hello''"
  using demo_search by (simp_all add: is_file_def file_bytes_def demo_fs_def demo_file_def)

lemmas demo_facts = demo_is_file demo_is_file [unfolded One_nat_def]

section \<open>The tree and the listings\<close>

text \<open>C1: in every state that requests reach from a fresh mount, listing a directory gives each
  name once, and exactly the last components of the paths of the inodes whose parent it is.\<close>

theorem listing_matches_inodes:
  assumes "fisopfs_init w m host blank_fs = Some (host', s0)" and "host DEFAULT_FILE_DISK = None"
    and "fs_reachable w s0 s" and "\<forall>n. can_alloc w n" and "is_dir s d k"
  shows "\<exists>names. fisopfs_readdir w s d 0 = Some (0, [''.'', ''..''] @ names, s) \<and> distinct names
    \<and> set names = {base_name (path_of s j) | j. used s j \<and> path_of s j \<noteq> ''/'' \<and> parent_path (path_of s j) = d}"
proof -
  have "s0 = root_fs w" using assms(1,2,4) fresh_mount by simp
  then have inv: "tree_inv s" using fs_reachable_tree [OF assms(3) _ assms(4)] root_fs_tree by simp
  have "path_of s k = d" using assms(5) search_used(2) by (auto simp: is_dir_def)
  then have "below s k j \<longleftrightarrow> used s j \<and> path_of s j \<noteq> ''/'' \<and> parent_path (path_of s j) = d" for j
    using inv root_not_clean by (auto simp: below_def tree_inv_def)
  then have "set (dir_names s k) = {base_name (path_of s j) | j. used s j \<and> path_of s j \<noteq> ''/'' \<and> parent_path (path_of s j) = d}"
    using tree_inv_dir(2) [OF inv assms(5)] by (auto simp: image_image)
  then show ?thesis
    using readdir_names [OF inv assms(5)] tree_inv_dir(1) [OF inv assms(5)] by blast
qed

theorem listing_matches_inodes_witness:
  "\<exists>s names. fs_reachable roomy (root_fs roomy) s \<and> search_inode s ''/f'' = int 1
     \<and> fisopfs_readdir roomy s ''/'' 0 = Some (0, [''.'', ''..''] @ names, s) \<and> ''f'' \<in> set names"
proof -
  obtain s where s: "make_node roomy (root_fs roomy) (''/f'' @ NUL # CHR ''x'' # []) 0 INODE_FILE
      = Some (0, s, ''/f'' @ NL # NUL # [])"
    "node_added (root_fs roomy) s ''/f'' INODE_FILE 1 0" "search_inode s ''/f'' = int 1" "tree_inv s"
    using root_fs_make [OF roomy_mem] by metis
  have par: "is_dir (root_fs roomy) (parent_path ''/f'') 0" unfolding slash_f(3) by (rule root_fs_is_dir)
  have "search_inode (root_fs roomy) ''/f'' = FS_ERROR"
    by (auto simp: search_inode_error root_fs_used root_fs_root)
  then have "fuse_step roomy (root_fs roomy) s"
    using fuse_step.create [of roomy "root_fs roomy" "''/f''" "CHR ''x''" "[]" 0 0 s _ 0] s(1) par slash_f(2)
    by (simp only: create_make_node)
  then have r: "fs_reachable roomy (root_fs roomy) s" by (rule fs_reachable.step [OF fs_reachable.init])
  have dir: "is_dir s ''/'' 0"
    using s(2,4) root_fs_root by (simp add: is_dir_iff tree_inv_def node_added_def root_fs_used)
  have init: "fisopfs_init roomy undefined Map.empty blank_fs = Some ([DEFAULT_FILE_DISK \<mapsto> []], root_fs roomy)"
    by (rule fresh_mount) (simp_all add: roomy_def)
  obtain names where n: "fisopfs_readdir roomy s ''/'' 0 = Some (0, [''.'', ''..''] @ names, s)"
    "set names = {base_name (path_of s j) | j. used s j \<and> path_of s j \<noteq> ''/'' \<and> parent_path (path_of s j) = ''/''}"
    using listing_matches_inodes [OF init refl r roomy_mem dir] by blast
  have "path_of s 1 = ''/f''" "used s 1" using search_used [OF s(3)] by auto
  then have "''f'' \<in> set names" unfolding n(2) using slash_f(3,4)
    by (intro CollectI exI [of _ "1 :: nat"]) simp
  then show ?thesis using r s(3) n(1) by blast
qed

section \<open>Reading and writing\<close>

lemma write_keeps_file:
  assumes wf: "fs_wf s" and fl: "is_file s p k" and off: "0 \<le> offset" "offset + int (length data) < 2 ^ 31"
    and mem: "\<forall>n. can_alloc w n"
  obtains s1 where "fisopfs_write w s p data offset = Some (int (length data), s1)" "fs_wf s1" "is_file s1 p k"
    "i_size (inodes s1 k) = offset + int (length data)"
    "file_bytes s1 k = take (nat offset) (file_bytes s k @ replicate (nat offset) NUL) @ data"
    "\<forall>j. j \<noteq> k \<longrightarrow> inodes s1 j = inodes s j"
proof -
  obtain block where b: "fisopfs_write w s p data offset = Some (int (length data),
       s\<lparr>inodes := (inodes s)(k := (inodes s k)\<lparr>i_content := Some block,
          i_size := offset + int (length data), i_last_modification := clock w 0\<rparr>)\<rparr>)"
    "take (nat offset + length data) block
       = take (nat offset) (file_bytes s k @ replicate (nat offset) NUL) @ data"
    using fisopfs_write_ok [OF wf fl off mem] by metis
  let ?s1 = "s\<lparr>inodes := (inodes s)(k := (inodes s k)\<lparr>i_content := Some block,
          i_size := offset + int (length data), i_last_modification := clock w 0\<rparr>)\<rparr>"
  have "fs_wf ?s1" using fisopfs_write_same_tree [OF wf mem off b(1)] by (simp add: same_tree_def)
  moreover have "search_inode ?s1 p = search_inode s p" by (rule search_inode_cong) simp_all
  then have "is_file ?s1 p k" using fl by (simp add: is_file_def)
  moreover have "nat (offset + int (length data)) = nat offset + length data"
    using off(1) by (simp add: nat_add_distrib)
  ultimately show thesis using b by (intro that [of ?s1]) (simp_all add: file_bytes_def)
qed

text \<open>C2: what was written at an offset of a file is what the next read at that offset returns.\<close>

theorem write_then_read:
  assumes "fs_wf s" and "is_file s p k" and "0 \<le> offset" and "offset + int (length data) < 2 ^ 31"
    and "\<forall>n. can_alloc w n"
  shows "\<exists>s1 s2. fisopfs_write w s p data offset = Some (int (length data), s1)
    \<and> fisopfs_read w s1 p (int (length data)) offset = Some (int (length data), data, s2)"
proof -
  obtain s1 where s1: "fisopfs_write w s p data offset = Some (int (length data), s1)" "fs_wf s1" "is_file s1 p k"
    "i_size (inodes s1 k) = offset + int (length data)"
    "file_bytes s1 k = take (nat offset) (file_bytes s k @ replicate (nat offset) NUL) @ data"
    using write_keeps_file [OF assms] by metis
  have "length (take (nat offset) (file_bytes s k @ replicate (nat offset) NUL)) = nat offset" by simp
  then have "drop (nat offset) (file_bytes s1 k) = data" unfolding s1(5)
    by (simp only: drop_append drop_all order_refl) simp
  then show ?thesis using s1 assms fisopfs_read_ok [OF s1(2,3), of offset "int (length data)" w] by simp
qed

theorem write_then_read_witness:
  "\<exists>s1 s2. fisopfs_write roomy demo_fs ''/f'' ''XY'' 7 = Some (2, s1)
    \<and> fisopfs_read roomy s1 ''/f'' 2 7 = Some (2, ''XY'', s2)"
  using write_then_read [OF demo_wf demo_is_file(1), of 7 "''XY''" roomy] by (simp add: roomy_def)

text \<open>after a write the file ends where the written data ends: what the file held beyond it is
  cut off, a gap before it reads as zeros, and no other inode changes.\<close>

theorem write_cuts_the_tail:
  assumes "fs_wf s" and "is_file s p k" and "0 \<le> offset" and "offset + int (length data) < 2 ^ 31"
    and "\<forall>n. can_alloc w n"
  shows "\<exists>s1. fisopfs_write w s p data offset = Some (int (length data), s1) \<and> fs_wf s1
    \<and> file_bytes s1 k = take (nat offset) (file_bytes s k @ replicate (nat offset) NUL) @ data
    \<and> (\<forall>j. j \<noteq> k \<longrightarrow> inodes s1 j = inodes s j)"
  using write_keeps_file [OF assms] by metis

theorem write_cuts_the_tail_witness:
  "\<exists>s1. fisopfs_write roomy demo_fs ''/f'' ''XY'' 1 = Some (2, s1) \<and> file_bytes s1 1 = ''hXY''"
  using write_cuts_the_tail [OF demo_wf demo_is_file(1), of 1 "''XY''" roomy]
  by (auto simp: roomy_mem demo_facts)

text \<open>a read from within a file returns its bytes from the offset on, at most as many as were
  asked for and no more than there are; a read from beyond its end copies from outside the block
  (\<open>None\<close>), as \<open>size > 0\<close> is tested on an unsigned value.\<close>

theorem read_returns_bytes:
  assumes "fs_wf s" and "is_file s p k" and "0 \<le> offset" and "0 \<le> count" and "offset + count < 2 ^ 31"
    and "i_size (inodes s k) < 2 ^ 31"
  shows "fisopfs_read w s p count offset =
    (if offset \<le> int (length (file_bytes s k))
     then (let bytes = take (nat count) (drop (nat offset) (file_bytes s k)) in
       Some (int (length bytes), bytes,
         s\<lparr>inodes := (inodes s)(k := (inodes s k)\<lparr>i_last_access := clock w 0\<rparr>)\<rparr>))
     else None)"
  using fisopfs_read_ok [OF assms(1-3)] fisopfs_read_past_end [OF assms(1,2)] is_file_size [OF assms(1,2)] assms
  by simp

theorem read_returns_bytes_witness:
  "(\<exists>s1. fisopfs_read roomy demo_fs ''/f'' 10 2 = Some (3, ''llo'', s1))
    \<and> fisopfs_read roomy demo_fs ''/f'' 1 6 = None"
  using read_returns_bytes [OF demo_wf demo_is_file(1), of 2 10 roomy]
    read_returns_bytes [OF demo_wf demo_is_file(1), of 6 1 roomy]
  by (simp add: demo_facts Let_def)

text \<open>truncating a file to a smaller positive length writes one byte past the block it has just
  shrunk (\<open>None\<close>); to a larger one keeps its bytes; and to zero leaves a file of 1024 zero bytes.\<close>

theorem truncate_cases:
  assumes wf: "fs_wf s" and fl: "is_file s p k" and n: "0 \<le> n" "n < 2 ^ 31" and mem: "\<forall>n. can_alloc w n"
  shows "if n = 0 then \<exists>s1. fisopfs_truncate w s p n = Some (0, s1) \<and> file_bytes s1 k = replicate 1024 NUL
    else if n < int (length (file_bytes s k)) then fisopfs_truncate w s p n = None
    else \<exists>s1. fisopfs_truncate w s p n = Some (0, s1) \<and> int (length (file_bytes s1 k)) = n
      \<and> take (length (file_bytes s k)) (file_bytes s1 k) = file_bytes s k"
proof -
  have k: "search_inode s p = int k" "i_type (inodes s k) = INODE_FILE" using fl by (simp_all add: is_file_def)
  note size = is_file_size [OF wf fl]
  obtain c where c: "i_content (inodes s k) = Some c" "0 \<le> i_size (inodes s k)"
    "i_size (inodes s k) \<le> int (length c)" "file_bytes s k = take (nat (i_size (inodes s k))) c"
    using is_file_block [OF wf fl] .
  consider "n = 0" | "0 < n" "n < i_size (inodes s k)" | "0 < n" "i_size (inodes s k) \<le> n" using n by linarith
  then show ?thesis
  proof cases
    case 1
    then show ?thesis using k mem
      by (simp add: fisopfs_truncate_def calloc_def Let_def file_bytes_def INITIAL_CONTENT_LENGTH_def)
  next
    case 2
    then show ?thesis using fisopfs_truncate_shrink [OF fl _ _ n(2) mem] size by simp
  next
    case 3
    obtain b where b: "realloc w c n = Some b" using realloc_ok [OF n(1)] mem by blast
    have len: "length b = nat n" using realloc_length [OF b] .
    have "nat (i_size (inodes s k)) \<le> nat n" "nat (i_size (inodes s k)) \<le> length c" using 3 c by linarith+
    then have "take (nat (i_size (inodes s k))) b = file_bytes s k"
      using arg_cong [OF realloc_take [OF b], of "take (nat (i_size (inodes s k)))"] c(4)
      by (simp add: min_def split: if_splits)
    moreover have "length (file_bytes s k) = nat (i_size (inodes s k))" using size by linarith
    ultimately show ?thesis using 3 k c b n len
      by (simp add: fisopfs_truncate_def Let_def u64_id s32_id file_bytes_def)
  qed
qed

theorem truncate_cases_witness:
  "fisopfs_truncate roomy demo_fs ''/f'' 3 = None
    \<and> (\<exists>s1. fisopfs_truncate roomy demo_fs ''/f'' 0 = Some (0, s1) \<and> file_bytes s1 1 = replicate 1024 NUL)"
  using truncate_cases [OF demo_wf demo_is_file(1), of 3 roomy] truncate_cases [OF demo_wf demo_is_file(1), of 0 roomy]
  by (simp add: roomy_mem demo_facts)

section \<open>Creating and removing\<close>

lemma search_added:
  assumes "unique_paths s" and "search_inode s p = FS_ERROR" and "node_added s s' p type i k"
  shows "search_inode s' p = int i" "unique_paths s'"
proof -
  have new: "\<not> (used s j \<and> path_of s j = p)" for j using assms(2) by (simp add: search_inode_error)
  note a = assms(3) [unfolded node_added_def]
  show u: "unique_paths s'" unfolding unique_paths_def
  proof (intro allI impI)
    fix x y assume xy: "used s' x \<and> used s' y \<and> path_of s' x = path_of s' y"
    show "x = y" using xy a new assms(1) unfolding unique_paths_def by (cases "x = i"; cases "y = i") auto
  qed
  show "search_inode s' p = int i" using a by (intro search_inode_eqI [OF u]) simp_all
qed



text \<open>a file whose parent does not exist is reported as made (status 0): the inode is in the table,
  but no directory lists it, as \<open>add_dentry_to_parent_dir\<close> returns \<open>-ERROR\<close>, that is 1.\<close>

theorem create_without_parent:
  assumes "fs_wf s" and "child_path p" and "search_inode s (parent_path p) = FS_ERROR"
    and "search_free_inode s = int i" and "\<forall>n. can_alloc w n"
  shows "\<exists>s'. fisopfs_create w s (p @ NUL # rest) mode = Some (0, s', p @ NUL # rest)
    \<and> used s' i \<and> path_of s' i = p \<and> (\<forall>j. j \<noteq> i \<longrightarrow> inodes s' j = inodes s j)"
proof -
  have i: "i < INODES_AMOUNT" using assms(4) by (cases rule: search_free_inode_cases [of s]; simp)
  have pl: "length p < MAX_PATH" "nul_free p" using assms(2) by (simp_all add: child_path_def)
  let ?ino = "new_inode w s i p mode INODE_FILE"
  let ?s1 = "s\<lparr>inodes := (inodes s)(i := ?ino), inode_bitmap := (inode_bitmap s)(i := 1),
      inode_amount := inode_amount s + 1\<rparr>"
  note ino = new_inode_props [OF assms(1) i pl, of w mode INODE_FILE]
  have "search_inode ?s1 (parent_path p) = FS_ERROR"
    using search_after_add [OF assms(4)] ino(2) parent_path_neq [OF assms(2)] assms(3) by simp
  then have "add_dentry_to_parent_dir w ?s1 (p @ NUL # rest) = Some (1, ?s1, p @ NUL # rest)"
    by (rule add_dentry_to_parent_dir_orphan [OF assms(2)])
  then have "fisopfs_create w s (p @ NUL # rest) mode = Some (0, ?s1, p @ NUL # rest)"
    using pl by (simp add: fisopfs_create_def cstr_append_NUL create_inode_ok [OF assms(1) pl(1) assms(4,5)])
  then show ?thesis using i ino(2) by (auto simp: used_def path_of_def)
qed

lemma slash_d: "child_path ''/d/x''" "parent_path ''/d/x'' = ''/d''"
  by (simp_all add: child_path_def parent_path_def base_name_def cstr_simps NUL_def NL_def MAX_PATH_def)

theorem create_without_parent_witness:
  "\<exists>s'. fisopfs_create roomy (root_fs roomy) (''/d/x'' @ NUL # []) 0 = Some (0, s', ''/d/x'' @ NUL # [])
    \<and> path_of s' 1 = ''/d/x'' \<and> inodes s' 0 = inodes (root_fs roomy) 0"
proof -
  have "search_inode (root_fs roomy) (parent_path ''/d/x'') = FS_ERROR"
    unfolding slash_d(2) by (auto simp: search_inode_error root_fs_used root_fs_root)
  then show ?thesis
    using create_without_parent [OF root_fs_wf slash_d(1) _ root_fs_free roomy_mem] by (metis zero_neq_one)
qed

text \<open>C4: creating a file in a reachable state and unlinking it again gives back the listing of the
  parent, frees the path and restores the count of inodes.\<close>

theorem create_then_unlink:
  assumes inv: "tree_inv s" and p: "clean_path p" and fresh: "search_inode s p = FS_ERROR"
    and parent: "is_dir s (parent_path p) k" and free: "search_free_inode s = int i" and mem: "\<forall>n. can_alloc w n"
    and room: "\<not> dentry_overflows (i_size (inodes s k)) (dir_names s k) (base_name p)"
  shows "\<exists>s1 s2. fisopfs_create w s (p @ NUL # x # rest) mode = Some (0, s1, p @ NL # NUL # rest)
    \<and> fisopfs_unlink w s1 p = Some (0, s2) \<and> tree_inv s2 \<and> search_inode s2 p = FS_ERROR
    \<and> dir_names s2 k = dir_names s k \<and> inode_amount s2 = inode_amount s"
proof -
  have wf: "fs_wf s" and cp: "child_path p" and u: "unique_paths s"
    using inv p by (simp_all add: tree_inv_def clean_path_def)
  obtain s1 where s1: "make_node w s (p @ NUL # x # rest) mode INODE_FILE = Some (0, s1, p @ NL # NUL # rest)"
    "node_added s s1 p INODE_FILE i k"
    using make_node_ok [OF wf cp parent free mem room] by metis
  have inv1: "tree_inv s1" using tree_inv_added [OF inv p fresh parent s1(2)] .
  note found = search_added(1) [OF u fresh s1(2)]
  have isfile: "i_type (inodes s1 i) = INODE_FILE" using s1(2) by (simp add: node_added_def)
  obtain s2 k' where s2: "remove_inode w s1 p i = Some s2" "is_dir s1 (parent_path p) k'"
    "node_removed s1 s2 p i k'" "tree_inv s2"
    using remove_node_tree [OF inv1 mem p found] isfile by (metis inode_type.distinct(1))
  have a: "i \<noteq> k" "used s1 k" "path_of s1 k = path_of s k" "dir_names s1 k = dir_names s k @ [base_name p]"
    "inode_amount s1 = inode_amount s + 1" "path_of s1 i = p" "used s1 i"
    using s1(2) parent by (auto simp: node_added_def is_dir_iff u)
  have u1: "unique_paths s1" using inv1 by (simp add: tree_inv_def)
  have kk: "k' = k" using s2(2) a parent u1 u by (auto simp: is_dir_iff unique_paths_def)
  have "base_name p \<notin> set (dir_names s k)"
  proof
    assume "base_name p \<in> set (dir_names s k)"
    then have "\<not> distinct (dir_names s1 k)" using a(4) by simp
    moreover have "is_dir s1 (parent_path p) k" using s2(2) kk by simp
    ultimately show False using tree_inv_dir(1) [OF inv1] by blast
  qed
  then have "filter (\<lambda>e. e \<noteq> base_name p) (dir_names s1 k) = dir_names s k" using a(4) by (auto simp: filter_id_conv)
  then have "dir_names s2 k = dir_names s k" "inode_amount s2 = inode_amount s"
    using s2(3) kk a by (auto simp: node_removed_def)
  moreover have "search_inode s2 p = FS_ERROR"
    using s2(3) a u1 by (auto simp: search_inode_error node_removed_def unique_paths_def)
  moreover have "fisopfs_unlink w s1 p = Some (0, s2)" using found isfile s2(1) by (simp add: fisopfs_unlink_def)
  ultimately show ?thesis using s1(1) s2(4) by (auto simp: create_make_node)
qed

theorem create_then_unlink_witness:
  "\<exists>s1 s2. fisopfs_create roomy (root_fs roomy) (''/f'' @ NUL # CHR ''x'' # []) 0 = Some (0, s1, ''/f'' @ NL # NUL # [])
    \<and> fisopfs_unlink roomy s1 ''/f'' = Some (0, s2) \<and> dir_names s2 0 = []"
proof -
  have "is_dir (root_fs roomy) (parent_path ''/f'') 0" unfolding slash_f(3) by (rule root_fs_is_dir)
  moreover have "search_inode (root_fs roomy) ''/f'' = FS_ERROR"
    by (auto simp: search_inode_error root_fs_used root_fs_root)
  moreover have "\<not> dentry_overflows (i_size (inodes (root_fs roomy) 0)) (dir_names (root_fs roomy) 0) (base_name ''/f'')"
    by (simp add: dentry_overflows_def root_fs_root)
  ultimately show ?thesis
    using create_then_unlink [OF root_fs_tree slash_f(2) _ _ root_fs_free roomy_mem] root_fs_root(3)
    by (metis (no_types, lifting))
qed

text \<open>C5: \<open>rmdir\<close> of a directory that some inode has for parent is refused with \<open>ENOTEMPTY\<close>;
  of one that is no inode's parent it succeeds and the path is free again.\<close>

theorem rmdir_only_empty:
  assumes inv: "tree_inv s" and p: "clean_path p" and dir: "is_dir s p i" and mem: "\<forall>n. can_alloc w n"
  shows "if \<exists>j. used s j \<and> path_of s j \<noteq> ''/'' \<and> parent_path (path_of s j) = p
    then fisopfs_rmdir w s p = Some (- ENOTEMPTY, s\<lparr>errno := ENOTEMPTY\<rparr>)
    else \<exists>s'. fisopfs_rmdir w s p = Some (0, s') \<and> tree_inv s' \<and> search_inode s' p = FS_ERROR"
proof -
  have wf: "fs_wf s" and u: "unique_paths s" using inv by (simp_all add: tree_inv_def)
  have i: "search_inode s p = int i" "i_type (inodes s i) = INODE_DIR" using dir by (simp_all add: is_dir_def)
  have pi: "path_of s i = p" "used s i" using search_used [OF i(1)] by simp_all
  obtain block where b: "i_content (inodes s i) = Some block" "dir_block block (i_size (inodes s i)) (dir_names s i)"
    using fs_wf_dir [OF wf search_used(1) [OF i(1)] i(2)] .
  have "below s i j \<longleftrightarrow> used s j \<and> path_of s j \<noteq> ''/'' \<and> parent_path (path_of s j) = p" for j
    using inv root_not_clean pi by (auto simp: below_def tree_inv_def)
  then have some: "(\<exists>j. used s j \<and> path_of s j \<noteq> ''/'' \<and> parent_path (path_of s j) = p) \<longleftrightarrow> dir_names s i \<noteq> []"
    using tree_inv_dir(2) [OF inv dir] by (metis empty_iff empty_set image_is_empty mem_Collect_eq set_empty ex_in_conv)
  show ?thesis
  proof (cases "dir_names s i")
    case (Cons e es)
    then show ?thesis using some i b dir_block_strlen [OF b(2)] by (simp add: fisopfs_rmdir_def)
  next
    case Nil
    then obtain s' k where s': "remove_inode w s p i = Some s'" "node_removed s s' p i k" "tree_inv s'"
      using remove_node_tree [OF inv mem p i(1)] by metis
    have "search_inode s' p = FS_ERROR"
      using s'(2) u pi by (auto simp: search_inode_error node_removed_def unique_paths_def)
    moreover have "\<not> (\<exists>j. used s j \<and> path_of s j \<noteq> ''/'' \<and> parent_path (path_of s j) = p)"
      unfolding some using Nil by simp
    ultimately show ?thesis using Nil i b dir_block_strlen [OF b(2)] s'
      by (simp only: if_False) (simp add: fisopfs_rmdir_def)
  qed
qed

theorem rmdir_only_empty_witness:
  "\<exists>s s'. search_inode s ''/f'' = int 1 \<and> fisopfs_rmdir roomy s ''/f'' = Some (0, s') \<and> search_inode s' ''/f'' = FS_ERROR"
proof -
  obtain s where s: "node_added (root_fs roomy) s ''/f'' INODE_DIR 1 0" "search_inode s ''/f'' = int 1" "tree_inv s"
    using root_fs_make [OF roomy_mem] by metis
  then have "is_dir s ''/f'' 1" by (simp add: is_dir_def node_added_def)
  moreover have "\<not> (\<exists>j. used s j \<and> path_of s j \<noteq> ''/'' \<and> parent_path (path_of s j) = ''/f'')"
    using s(1) by (auto simp: node_added_def root_fs_used root_fs_root slash_f(3))
  ultimately show ?thesis
    using rmdir_only_empty [OF s(3) slash_f(2) _ roomy_mem] s(2) by (metis (no_types, lifting))
qed

text \<open>\<open>getattr\<close> looks only at what precedes a newline in its path, so it still answers for the
  path buffers that \<open>mkdir\<close> and \<open>create\<close> left a newline in.\<close>

theorem getattr_ignores_newline:
  assumes "nul_free p" and "nul_free q" and "NL \<notin> set p" and "length p + length q + 2 \<le> MAX_PATH"
  shows "fisopfs_getattr w s (p @ NL # q) st = fisopfs_getattr w s p st"
proof -
  have cp: "\<exists>tail. strcpy_c (uninit w MAX_PATH) 0 r = Some (r @ NUL # tail)" if "length r < MAX_PATH" for r
    using that by (simp add: strcpy_c_eq_Some_iff)
  obtain t1 where t1: "strcpy_c (uninit w MAX_PATH) 0 (p @ NL # q) = Some ((p @ NL # q) @ NUL # t1)"
    using cp [of "p @ NL # q"] assms(4) by auto
  obtain t2 where t2: "strcpy_c (uninit w MAX_PATH) 0 p = Some (p @ NUL # t2)"
    using cp [of p] assms(4) by auto
  have nf: "nul_free (p @ NL # q)" using assms(1,2) by (simp add: cstr_simps)
  have "strchr_c (p @ NL # q) NL = Some (length p)"
    using assms(3) by (induction p) auto
  moreover have "strchr_c p NL = None" using assms(3) by (simp add: strchr_c_None)
  moreover have "poke ((p @ NL # q) @ NUL # t1) (length p) NUL = Some (p @ NUL # q @ NUL # t1)"
    by (simp add: poke_def list_update_append)
  moreover have "cstr ((p @ NL # q) @ NUL # t1) = p @ NL # q" using nf by (rule cstr_append_NUL)
  ultimately show ?thesis
    using t1 t2 assms(1) by (simp add: fisopfs_getattr_def cstr_append_NUL)
qed

theorem getattr_ignores_newline_witness:
  "\<exists>st. fisopfs_getattr roomy demo_fs (''/f'' @ NL # []) undefined = Some (0, st, demo_fs) \<and> st_size st = 5"
proof -
  have "fisopfs_getattr roomy demo_fs (''/f'' @ NL # []) undefined = fisopfs_getattr roomy demo_fs ''/f'' undefined"
    by (rule getattr_ignores_newline) (simp_all add: cstr_simps NUL_def NL_def MAX_PATH_def)
  moreover obtain t where "strcpy_c (uninit roomy MAX_PATH) 0 ''/f'' = Some (''/f'' @ NUL # t)"
    by (simp add: strcpy_c_eq_Some_iff MAX_PATH_def)
  moreover have "cstr (''/f'' @ NUL # t) = ''/f''" for t by (rule cstr_append_NUL) (simp add: cstr_simps NUL_def)
  moreover have "strchr_c ''/f'' NL = None" by (simp add: NL_def)
  moreover have "int 1 \<noteq> FS_ERROR" by (rule int_neq_FS_ERROR)
  ultimately have "fisopfs_getattr roomy demo_fs (''/f'' @ NL # []) undefined = Some (0,
      undefined\<lparr>st_nlink := 1, st_uid := i_owner (inodes demo_fs 1), st_gid := i_group (inodes demo_fs 1),
        st_size := 5, st_atime := i_last_access (inodes demo_fs 1), st_mtime := i_last_modification (inodes demo_fs 1),
        st_ctime := i_creation_time (inodes demo_fs 1), st_mode := S_IFREG OR 0x1A4\<rparr>, demo_fs)"
    using demo_is_file(1) unfolding fisopfs_getattr_def is_file_def
    by (simp add: demo_search demo_facts Let_def del: append.simps strchr_c.simps of_nat_1 of_nat_Suc)
  then show ?thesis by simp
qed

text \<open>when the new line exactly fills the parent's block, \<open>mkdir\<close> writes the terminating NUL one
  byte past it: the growth test of \<open>add_dentry_to_content\<close> leaves no room for it.\<close>

theorem mkdir_overflows_full_block:
  assumes "fs_wf s" and "child_path p" and "is_dir s (parent_path p) k" and "search_free_inode s = int i"
    and "\<forall>n. can_alloc w n"
    and "i_size (inodes s k) = int (length (unlines (dir_names s k)) + length (base_name p) + 1)"
  shows "fisopfs_mkdir w s (p @ NUL # x # rest) mode = None"
  using make_node_overflow [OF assms(1-5)] assms(6)
  by (simp add: mkdir_make_node dentry_overflows_def)

text \<open>A root directory whose block of 1026 bytes is full but for six.\<close>

definition full_names :: "string list" where
  "full_names = map (replicate 254) ''abcd''"

definition full_fs :: fs where
  "full_fs = blank_fs\<lparr>inodes := (\<lambda>_. blank_inode)(0 := demo_root\<lparr>i_content := Some (unlines full_names @ replicate 6 NUL)\<rparr>),
     inode_bitmap := (\<lambda>_. 0)(0 := 1), inode_amount := 1\<rparr>"

lemma length_full_names: "length (unlines full_names) = 1020"
  by (simp add: full_names_def)

lemma full_block: "dir_block (unlines full_names @ replicate 6 NUL) 1026 full_names"
proof -
  have "wf_entry e" if "e \<in> set full_names" for e
    using that by (auto simp: full_names_def wf_entry_def nul_free_def NL_def NUL_def)
  moreover have "replicate 6 NUL = NUL # replicate 5 NUL" by (simp add: numeral_eq_Suc)
  ultimately show ?thesis by (auto simp: dir_block_def length_full_names)
qed

lemma full_fs_used: "used full_fs j \<longleftrightarrow> j = 0"
  by (auto simp: full_fs_def used_def blank_fs_def)

lemma full_fs_root: "inodes full_fs 0 = demo_root\<lparr>i_content := Some (unlines full_names @ replicate 6 NUL)\<rparr>"
  "path_of full_fs 0 = ''/''" "dir_names full_fs 0 = full_names"
proof -
  show i: "inodes full_fs 0 = demo_root\<lparr>i_content := Some (unlines full_names @ replicate 6 NUL)\<rparr>"
    by (simp add: full_fs_def)
  show "dir_names full_fs 0 = full_names" using dir_block_names [OF full_block] i by (simp add: dir_names_def)
  show "path_of full_fs 0 = ''/''" using demo_paths(1) i by (simp add: path_of_def demo_inodes)
qed

lemma full_fs_wf: "fs_wf full_fs"
proof -
  have "inode_ok (inodes full_fs 0)"
    using full_block dir_block_names [OF full_block] demo_inodes_ok(1) full_fs_root(1)
    by (simp add: inode_ok_def) (simp add: demo_root_def)
  moreover have "length (i_path (inodes full_fs i)) = MAX_PATH" for i
    by (simp add: full_fs_def demo_root_def blank_inode_def MAX_PATH_def)
  ultimately show ?thesis by (auto simp: fs_wf_def full_fs_used) (simp add: full_fs_def)
qed

theorem mkdir_overflows_full_block_witness:
  "fisopfs_mkdir roomy full_fs (''/hello'' @ NUL # CHR ''x'' # []) 0 = None"
proof -
  have p: "child_path ''/hello''" "parent_path ''/hello'' = ''/''" "base_name ''/hello'' = ''hello''"
    by (simp_all add: child_path_def parent_path_def base_name_def cstr_simps NUL_def NL_def MAX_PATH_def)
  have "is_dir full_fs ''/'' 0"
    by (simp add: is_dir_iff unique_paths_def full_fs_used full_fs_root demo_root_def)
  then have "is_dir full_fs (parent_path ''/hello'') 0" unfolding p(2) .
  moreover have "search_free_inode full_fs = int 1"
    using first_from_eqI [of 1 INODES_AMOUNT "\<lambda>i. \<not> inode_bitmap full_fs i \<noteq> 0"]
    by (simp add: search_free_inode_def full_fs_def Let_def INODES_AMOUNT_def)
  moreover have "i_size (inodes full_fs 0)
      = int (length (unlines (dir_names full_fs 0)) + length (base_name ''/hello'') + 1)"
    unfolding p(3) full_fs_root(3) length_full_names full_fs_root(1) by (simp add: demo_root_def)
  ultimately show ?thesis by (rule mkdir_overflows_full_block [OF full_fs_wf p(1) _ _ roomy_mem])
qed


lemma demo_dir_valid: "dir_valid (''f'' @ NL # NUL # replicate 1023 NUL, 1026)"
  using demo_block demo_names(1) by (simp add: dir_valid_def MAX_PATH_def)


section \<open>Persistence\<close>


definition plain_io :: io where
  "plain_io = \<lparr>content_addr = (\<lambda>_. 0), padding = (\<lambda>_. 0), io_fails = (\<lambda>_. False), io_limit = (\<lambda>_. 2 ^ 31)\<rparr>"

lemma plain_io_ok: "io_ok plain_io"
  by (simp add: io_ok_def plain_io_def)


text \<open>when a slot below the inode count is free, some file is lost: a used inode whose record no
  save ever writes, as the loop of \<open>serialize\<close> stops at the count instead of at the table's end.\<close>

theorem save_loses_inodes:
  assumes "fs_wf s" and "j < nat (inode_amount s)" and "\<not> used s j"
  shows "\<exists>k. used s k \<and> (\<forall>m d ino. map_option snd (serialize m (s\<lparr>inodes := (inodes s)(k := ino)\<rparr>) d)
    = map_option snd (serialize m s d))"
proof -
  obtain k where k: "used s k" "nat (inode_amount s) \<le> k" using used_beyond_count [OF assms] .
  have "save_inodes m (s\<lparr>inodes := (inodes s)(k := ino)\<rparr>) [0..<nat (inode_amount s)] d
      = save_inodes m s [0..<nat (inode_amount s)] d" for m d ino
    using k(2) by (intro save_inodes_prefix) auto
  then have "map_option snd (serialize m (s\<lparr>inodes := (inodes s)(k := ino)\<rparr>) d) = map_option snd (serialize m s d)" for m d ino
    by (auto simp: serialize_def split: prod.splits bind_splits)
  with k(1) show ?thesis by blast
qed

text \<open>The demo file system without its root, as after an unlink of an earlier file.\<close>

definition holed_fs :: fs where
  "holed_fs = demo_fs\<lparr>inode_bitmap := (\<lambda>_. 0)(1 := 1), inode_amount := 1\<rparr>"

theorem save_loses_inodes_witness:
  "\<exists>k. used holed_fs k \<and> (\<forall>m d ino. map_option snd (serialize m (holed_fs\<lparr>inodes := (inodes holed_fs)(k := ino)\<rparr>) d)
    = map_option snd (serialize m holed_fs d))"
proof -
  have u: "used holed_fs j \<longleftrightarrow> j = 1" for j by (auto simp: holed_fs_def used_def INODES_AMOUNT_def)
  have wf: "fs_wf holed_fs"
    using demo_wf u by (auto simp: fs_wf_def) (auto simp: holed_fs_def demo_used)
  show ?thesis using save_loses_inodes [OF wf, of 0] u by (simp add: holed_fs_def)
qed

text \<open>after a save and a load, listing or removing a directory that never had an entry leaves its
  block: the block that was loaded for the recorded size 0 has no byte for the terminator.\<close>

theorem reloaded_empty_directory:
  assumes "is_dir s1 p k" and "inodes s1 k = on_disk (inodes s k)" and "i_size (inodes s k) = 0"
  shows "fisopfs_readdir w s1 p 0 = None \<and> fisopfs_rmdir w s1 p = None"
proof -
  have k: "search_inode s1 p = int k" "i_type (inodes s1 k) = INODE_DIR" using assms(1) by (simp_all add: is_dir_def)
  have "i_content (inodes s1 k) = None \<or> i_content (inodes s1 k) = Some []"
    using assms(2,3) by (cases "i_content (inodes s k)") (simp_all add: on_disk_def)
  then show ?thesis using k
    by (auto simp: fisopfs_readdir_def fisopfs_rmdir_def strlen_c_def terminated_def)
qed

theorem reloaded_empty_directory_witness:
  "\<exists>s1. inodes s1 0 = on_disk (inodes (root_fs roomy) 0) \<and> fisopfs_readdir roomy s1 ''/'' 0 = None"
proof -
  let ?s1 = "(root_fs roomy)\<lparr>inodes := (inodes (root_fs roomy))(0 := on_disk (inodes (root_fs roomy) 0))\<rparr>"
  have "search_inode ?s1 ''/'' = search_inode (root_fs roomy) ''/''"
    by (rule search_inode_cong) (simp_all add: on_disk_def)
  then have "is_dir ?s1 ''/'' 0" using root_fs_is_dir [of roomy] by (simp add: is_dir_def on_disk_def)
  then show ?thesis
    using reloaded_empty_directory [of ?s1 "''/''" 0 "root_fs roomy" roomy] root_fs_root(4)
    by (intro exI [of _ ?s1]) simp
qed

end
