(* ===== verification/Kern_Mem.thy ===== *)
theory Kern_Mem
  imports Prelude
begin

text \<open>
  The physical page allocator and the page tables of the kernel, \<open>scheduler/kern/pmap.c\<close>,
  with the constants and macros of \<open>inc/mmu.h\<close>, \<open>inc/memlayout.h\<close>, \<open>inc/types.h\<close>
  and \<open>kern/pmap.h\<close>.

  Physical memory is a function on frames and word indices: frame \<open>f\<close> holds the words
  \<open>frames m f 0\<close> to \<open>frames m f 1023\<close>. A \<open>struct PageInfo *\<close> is the index of its page,
  a page directory is the number of its frame, and a pointer to a page-table entry is a frame
  with an index. The state is a record the kernel state extends. \<open>None\<close> is a panic.
\<close>

section \<open>Constants and macros\<close>

definition PGSIZE :: u32w where "PGSIZE = 4096"
definition PTSIZE :: u32w where "PTSIZE = 4096 * 1024"
definition NPDENTRIES :: nat where "NPDENTRIES = 1024"
definition NPTENTRIES :: nat where "NPTENTRIES = 1024"

definition PTE_P :: u32w where "PTE_P = 0x001"
definition PTE_W :: u32w where "PTE_W = 0x002"
definition PTE_U :: u32w where "PTE_U = 0x004"
definition PTE_PWT :: u32w where "PTE_PWT = 0x008"
definition PTE_PCD :: u32w where "PTE_PCD = 0x010"
definition PTE_PS :: u32w where "PTE_PS = 0x080"
definition PTE_AVAIL :: u32w where "PTE_AVAIL = 0xE00"
definition PTE_SYSCALL :: u32w where "PTE_SYSCALL = PTE_AVAIL OR PTE_P OR PTE_W OR PTE_U"

definition KERNBASE :: u32w where "KERNBASE = 0xF0000000"
definition IOPHYSMEM :: u32w where "IOPHYSMEM = 0x0A0000"
definition EXTPHYSMEM :: u32w where "EXTPHYSMEM = 0x100000"
definition KSTACKTOP :: u32w where "KSTACKTOP = KERNBASE"
definition KSTKSIZE :: u32w where "KSTKSIZE = 8 * PGSIZE"
definition KSTKGAP :: u32w where "KSTKGAP = 8 * PGSIZE"
definition MMIOLIM :: u32w where "MMIOLIM = KSTACKTOP - PTSIZE"
definition MMIOBASE :: u32w where "MMIOBASE = MMIOLIM - PTSIZE"
definition ULIM :: u32w where "ULIM = MMIOBASE"
definition UVPT :: u32w where "UVPT = ULIM - PTSIZE"
definition UPAGES :: u32w where "UPAGES = UVPT - PTSIZE"
definition UENVS :: u32w where "UENVS = UPAGES - PTSIZE"
definition UTOP :: u32w where "UTOP = UENVS"
definition UXSTACKTOP :: u32w where "UXSTACKTOP = UTOP"
definition USTACKTOP :: u32w where "USTACKTOP = UTOP - 2 * PGSIZE"
definition UTEXT :: u32w where "UTEXT = 2 * PTSIZE"
definition UTEMP :: u32w where "UTEMP = PTSIZE"
definition PFTEMP :: u32w where "PFTEMP = UTEMP + PTSIZE - PGSIZE"
definition MPENTRY_PADDR :: u32w where "MPENTRY_PADDR = 0x7000"

definition E_UNSPECIFIED :: int where "E_UNSPECIFIED = 1"
definition E_BAD_ENV :: int where "E_BAD_ENV = 2"
definition E_INVAL :: int where "E_INVAL = 3"
definition E_NO_MEM :: int where "E_NO_MEM = 4"
definition E_NO_FREE_ENV :: int where "E_NO_FREE_ENV = 5"
definition E_FAULT :: int where "E_FAULT = 6"
definition E_IPC_NOT_RECV :: int where "E_IPC_NOT_RECV = 7"
definition E_EOF :: int where "E_EOF = 8"

named_theorems layout
named_theorems pte_bits
named_theorems kerrs

lemmas [layout] = PGSIZE_def PTSIZE_def KERNBASE_def IOPHYSMEM_def EXTPHYSMEM_def KSTACKTOP_def
  KSTKSIZE_def KSTKGAP_def MMIOLIM_def MMIOBASE_def ULIM_def UVPT_def UPAGES_def UENVS_def UTOP_def
  UXSTACKTOP_def USTACKTOP_def UTEXT_def UTEMP_def PFTEMP_def MPENTRY_PADDR_def NPDENTRIES_def
  NPTENTRIES_def

lemmas [pte_bits] = PTE_P_def PTE_W_def PTE_U_def PTE_PWT_def PTE_PCD_def PTE_PS_def PTE_AVAIL_def
  PTE_SYSCALL_def

lemmas [kerrs] = E_UNSPECIFIED_def E_BAD_ENV_def E_INVAL_def E_NO_MEM_def E_NO_FREE_ENV_def
  E_FAULT_def E_IPC_NOT_RECV_def E_EOF_def

definition PGNUM :: "u32w \<Rightarrow> nat" where "PGNUM la = unat (drop_bit 12 la)"
definition PDX :: "u32w \<Rightarrow> nat" where "PDX la = unat (drop_bit 22 la AND 0x3FF)"
definition PTX :: "u32w \<Rightarrow> nat" where "PTX la = unat (drop_bit 12 la AND 0x3FF)"
definition PGOFF :: "u32w \<Rightarrow> u32w" where "PGOFF la = la AND 0xFFF"
definition PGADDR :: "u32w \<Rightarrow> u32w \<Rightarrow> u32w \<Rightarrow> u32w" where
  "PGADDR d t off = push_bit 22 d OR push_bit 12 t OR off"
definition PTE_ADDR :: "u32w \<Rightarrow> u32w" where "PTE_ADDR pte = pte AND NOT 0xFFF"

definition ROUNDDOWN :: "u32w \<Rightarrow> u32w \<Rightarrow> u32w" where "ROUNDDOWN a n = a - a mod n"
definition ROUNDUP :: "u32w \<Rightarrow> u32w \<Rightarrow> u32w" where "ROUNDUP a n = ROUNDDOWN (a + n - 1) n"

section \<open>State\<close>

record mem =
  npages :: nat
  npages_basemem :: nat
  pp_ref :: "nat \<Rightarrow> u16w"
  pp_link :: "nat \<Rightarrow> nat option"
  page_free_list :: "nat option"
  frames :: "nat \<Rightarrow> nat \<Rightarrow> u32w"
  kern_pgdir :: nat
  curenv_pgdir :: "nat option"
  invalidated :: "u32w list"
  user_mem_check_addr :: u32w
  mmio_base :: u32w
  nextfree :: u32w

definition ALLOC_ZERO :: int where "ALLOC_ZERO = 1"

definition PADDR :: "u32w \<Rightarrow> u32w option" where
  "PADDR kva = (if kva < KERNBASE then None else Some (kva - KERNBASE))"

definition KADDR :: "'a mem_scheme \<Rightarrow> u32w \<Rightarrow> u32w option" where
  "KADDR m pa = (if PGNUM pa \<ge> npages m then None else Some (pa + KERNBASE))"

definition page2pa :: "nat \<Rightarrow> u32w" where
  "page2pa pp = push_bit 12 (word_of_nat pp)"

definition pa2page :: "'a mem_scheme \<Rightarrow> u32w \<Rightarrow> nat option" where
  "pa2page m pa = (if PGNUM pa \<ge> npages m then None else Some (PGNUM pa))"

section \<open>The page allocator\<close>

definition set_word :: "'a mem_scheme \<Rightarrow> nat \<Rightarrow> nat \<Rightarrow> u32w \<Rightarrow> 'a mem_scheme" where
  "set_word m f i w = m\<lparr>frames := (frames m)(f := (frames m f)(i := w))\<rparr>"

definition page_alloc :: "int \<Rightarrow> 'a mem_scheme \<Rightarrow> (nat option \<times> 'a mem_scheme) option" where
  "page_alloc alloc_flags m =
     (case page_free_list m of
        None \<Rightarrow> Some (None, m)
      | Some free_page \<Rightarrow> do {
          let m = m\<lparr>page_free_list := pp_link m free_page, pp_link := (pp_link m)(free_page := None)\<rparr>;
          m \<leftarrow> (if odd alloc_flags
                then (if PGNUM (page2pa free_page) \<ge> npages m then None
                      else Some (m\<lparr>frames := (frames m)(PGNUM (page2pa free_page) := (\<lambda>_. 0))\<rparr>))
                else Some m);
          Some (Some free_page, m)
        })"

definition page_free :: "nat \<Rightarrow> 'a mem_scheme \<Rightarrow> 'a mem_scheme option" where
  "page_free pp m =
     (if pp_ref m pp \<noteq> 0 then None
      else if pp_link m pp \<noteq> None then None
      else Some (m\<lparr>pp_link := (pp_link m)(pp := page_free_list m), page_free_list := Some pp\<rparr>))"

definition page_decref :: "nat \<Rightarrow> 'a mem_scheme \<Rightarrow> 'a mem_scheme option" where
  "page_decref pp m =
     (let m = m\<lparr>pp_ref := (pp_ref m)(pp := pp_ref m pp - 1)\<rparr> in
      if pp_ref m pp = 0 then page_free pp m else Some m)"

text \<open>
  \<open>boot_alloc\<close>: the static \<open>nextfree\<close> is zero before the first call; \<open>end\<close> is the address
  the linker puts after the kernel.
\<close>

definition boot_alloc :: "u32w \<Rightarrow> u32w \<Rightarrow> 'a mem_scheme \<Rightarrow> (u32w \<times> 'a mem_scheme) option" where
  "boot_alloc end_sym n m = do {
     let m = (if nextfree m = 0 then m\<lparr>nextfree := ROUNDUP end_sym PGSIZE\<rparr> else m);
     last \<leftarrow> PADDR (nextfree m + n);
     if last \<ge> PGSIZE * word_of_nat (npages m) then None
     else do {
       let result = nextfree m;
       kva \<leftarrow> KADDR m last;
       Some (result, m\<lparr>nextfree := ROUNDUP kva PGSIZE\<rparr>)
     }
   }"

text \<open>The pages \<open>page_init\<close> keeps out of the free list, and its loop.\<close>

definition page_reserved :: "nat \<Rightarrow> nat \<Rightarrow> bool" where
  "page_reserved first_free i \<longleftrightarrow>
     i = 0 \<or> PGNUM MPENTRY_PADDR = i
     \<or> i \<ge> PGNUM IOPHYSMEM \<and> i < PGNUM EXTPHYSMEM
     \<or> i \<ge> PGNUM EXTPHYSMEM \<and> i < first_free"

fun page_init_loop :: "nat \<Rightarrow> nat list \<Rightarrow> 'a mem_scheme \<Rightarrow> 'a mem_scheme" where
  "page_init_loop first_free [] m = m"
| "page_init_loop first_free (i # is) m =
     (let m = m\<lparr>pp_link := (pp_link m)(i := None)\<rparr> in
      if page_reserved first_free i then page_init_loop first_free is m
      else page_init_loop first_free is
        (m\<lparr>pp_link := (pp_link m)(i := page_free_list m), pp_ref := (pp_ref m)(i := 0),
           page_free_list := Some i\<rparr>))"

definition page_init :: "u32w \<Rightarrow> 'a mem_scheme \<Rightarrow> 'a mem_scheme option" where
  "page_init end_sym m = do {
     (kva, m) \<leftarrow> boot_alloc end_sym 0 m;
     pa \<leftarrow> PADDR kva;
     Some (page_init_loop (PGNUM pa) [0..<npages m] m)
   }"

section \<open>Page tables\<close>

definition pgdir_walk :: "nat \<Rightarrow> u32w \<Rightarrow> bool \<Rightarrow> 'a mem_scheme \<Rightarrow> ((nat \<times> nat) option \<times> 'a mem_scheme) option" where
  "pgdir_walk pgdir va create m = do {
     let pdx = PDX va;
     m \<leftarrow> (if frames m pgdir pdx = 0 \<and> create
           then do {
             (page, m) \<leftarrow> page_alloc ALLOC_ZERO m;
             Some (case page of
                     None \<Rightarrow> m
                   | Some page \<Rightarrow>
                       set_word (m\<lparr>pp_ref := (pp_ref m)(page := pp_ref m page + 1)\<rparr>)
                         pgdir pdx (page2pa page OR PTE_P OR PTE_W OR PTE_U))
           }
           else Some m);
     if frames m pgdir pdx \<noteq> 0
     then do {
       pt \<leftarrow> KADDR m (PTE_ADDR (frames m pgdir pdx));
       pa \<leftarrow> PADDR pt;
       Some (Some (PGNUM pa, PTX va), m)
     }
     else Some (None, m)
   }"

definition pte_at :: "'a mem_scheme \<Rightarrow> nat \<times> nat \<Rightarrow> u32w" where
  "pte_at m p = frames m (fst p) (snd p)"

text \<open>
  \<open>page_lookup\<close>: the page and the entry's address. The test is \<open>*pte && PTE_P\<close>, a logical
  conjunction: any nonzero entry counts as present.
\<close>

definition page_lookup :: "nat \<Rightarrow> u32w \<Rightarrow> 'a mem_scheme \<Rightarrow> (nat \<times> (nat \<times> nat)) option option" where
  "page_lookup pgdir va m = do {
     (pte, _) \<leftarrow> pgdir_walk pgdir va False m;
     case pte of
       None \<Rightarrow> Some None
     | Some p \<Rightarrow>
         if pte_at m p = 0 then Some None
         else do {
           pp \<leftarrow> pa2page m (PTE_ADDR (pte_at m p));
           Some (Some (pp, p))
         }
   }"

definition tlb_invalidate :: "nat \<Rightarrow> u32w \<Rightarrow> 'a mem_scheme \<Rightarrow> 'a mem_scheme" where
  "tlb_invalidate pgdir va m =
     (if curenv_pgdir m = None \<or> curenv_pgdir m = Some pgdir
      then m\<lparr>invalidated := va # invalidated m\<rparr> else m)"

definition page_remove :: "nat \<Rightarrow> u32w \<Rightarrow> 'a mem_scheme \<Rightarrow> 'a mem_scheme option" where
  "page_remove pgdir va m = do {
     (pte, _) \<leftarrow> pgdir_walk pgdir va False m;
     page_rmv \<leftarrow> page_lookup pgdir va m;
     case pte of
       None \<Rightarrow> Some m
     | Some p \<Rightarrow>
         if pte_at m p = 0 then Some m
         else (case page_rmv of
             None \<Rightarrow> None
           | Some (pp, _) \<Rightarrow> do {
               m \<leftarrow> page_decref pp m;
               Some (tlb_invalidate pgdir va (set_word m (fst p) (snd p) 0))
             })
   }"

definition page_insert :: "nat \<Rightarrow> nat \<Rightarrow> u32w \<Rightarrow> u32w \<Rightarrow> 'a mem_scheme \<Rightarrow> (int \<times> 'a mem_scheme) option" where
  "page_insert pgdir pp va perm m = do {
     (page_table, m) \<leftarrow> pgdir_walk pgdir va True m;
     case page_table of
       None \<Rightarrow> Some (- E_NO_MEM, m)
     | Some p \<Rightarrow> do {
         m \<leftarrow> page_remove pgdir va (m\<lparr>pp_ref := (pp_ref m)(pp := pp_ref m pp + 1)\<rparr>);
         let new_pte = page2pa pp OR perm OR PTE_P;
         Some (0, set_word m (fst p) (snd p) new_pte)
       }
   }"

text \<open>
  \<open>boot_map_region\<close> without large pages (\<open>TP1_PSE\<close> is not defined): one entry per page. The
  loop runs over the offsets, a \<open>size_t\<close>. A null entry pointer is written through: a fault. The sizes
  are multiples of \<open>PGSIZE\<close>, so that the offset does not wrap before it reaches the size.
\<close>

function boot_map_loop :: "nat \<Rightarrow> u32w \<Rightarrow> nat \<Rightarrow> nat \<Rightarrow> u32w \<Rightarrow> u32w \<Rightarrow> 'a mem_scheme \<Rightarrow> 'a mem_scheme option" where
  "boot_map_loop pgdir va i sz pa perm m =
     (if i < sz
      then do {
        (pte, m) \<leftarrow> pgdir_walk pgdir (va + word_of_nat i) True m;
        m \<leftarrow> page_remove pgdir (va + word_of_nat i) m;
        p \<leftarrow> pte;
        boot_map_loop pgdir va (i + 4096) sz pa perm
          (set_word m (fst p) (snd p) ((pa + word_of_nat i) OR perm OR PTE_P))
      }
      else Some m)"
  by pat_completeness auto
termination
  by (relation "measure (\<lambda>(pgdir, va, i, sz, pa, perm, m). sz - i)") auto

declare boot_map_loop.simps [simp del]

definition boot_map_region :: "nat \<Rightarrow> u32w \<Rightarrow> u32w \<Rightarrow> u32w \<Rightarrow> u32w \<Rightarrow> 'a mem_scheme \<Rightarrow> 'a mem_scheme option" where
  "boot_map_region pgdir va sz pa perm m = boot_map_loop pgdir va 0 (unat sz) pa perm m"

definition mmio_map_region :: "u32w \<Rightarrow> u32w \<Rightarrow> 'a mem_scheme \<Rightarrow> (u32w \<times> 'a mem_scheme) option" where
  "mmio_map_region pa sz m =
     (let pa = ROUNDDOWN pa PGSIZE; sz = ROUNDUP sz PGSIZE;
          perm = PTE_W OR PTE_P OR PTE_PCD OR PTE_PWT; base = mmio_base m in
      if base + sz \<ge> MMIOLIM then None
      else do {
        m \<leftarrow> boot_map_region (kern_pgdir m) base sz pa perm m;
        Some (base, m\<lparr>mmio_base := base + sz\<rparr>)
      })"

text \<open>What the hardware computes, as \<open>check_va2pa\<close> does it.\<close>

definition check_va2pa :: "nat \<Rightarrow> u32w \<Rightarrow> 'a mem_scheme \<Rightarrow> u32w option" where
  "check_va2pa pgdir va m =
     (let pde = frames m pgdir (PDX va) in
      if pde AND PTE_P = 0 then Some (NOT 0)
      else if pde AND PTE_PS \<noteq> 0
      then Some (PGADDR (word_of_nat (PDX pde)) (word_of_nat (PTX va)) (PGOFF va))
      else do {
        pt \<leftarrow> KADDR m (PTE_ADDR pde);
        pa \<leftarrow> PADDR pt;
        let pte = frames m (PGNUM pa) (PTX va);
        Some (if pte AND PTE_P = 0 then NOT 0 else PTE_ADDR pte)
      })"

section \<open>Checking user pointers\<close>

lemma UTOP_value: "UTOP = 0xEEC00000"
  by (simp add: layout)

lemma unat_UTOP: "unat UTOP = 0xEEC00000"
  by (simp add: UTOP_value)

lemma unat_next_page:
  assumes "a < UTOP"
  shows "unat (a + PGSIZE) = unat a + 4096"
proof -
  have "unat a < 0xEEC00000" using assms by (simp add: word_less_nat_alt unat_UTOP)
  then have "unat a + unat PGSIZE < 2 ^ LENGTH(32)" by (simp add: PGSIZE_def)
  then have "unat (a + PGSIZE) = unat a + unat PGSIZE" by (rule unat_add_lem [THEN iffD1])
  then show ?thesis by (simp add: PGSIZE_def)
qed

lemma next_page: "a < hi \<Longrightarrow> hi \<le> UTOP \<Longrightarrow> a < a + PGSIZE"
  using unat_next_page [of a] by (simp add: word_less_nat_alt word_le_nat_alt)

lemma next_page_measure: "a < hi \<Longrightarrow> hi \<le> UTOP \<Longrightarrow> unat hi - unat (a + PGSIZE) < unat hi - unat a"
  using next_page [of a hi] by (simp add: word_less_nat_alt)

function user_mem_loop :: "nat \<Rightarrow> u32w \<Rightarrow> u32w \<Rightarrow> u32w \<Rightarrow> u32w \<Rightarrow> 'a mem_scheme \<Rightarrow> (int \<times> 'a mem_scheme) option" where
  "user_mem_loop pgdir va_act va_lo va_hi perm m =
     (if va_act < va_hi \<and> va_hi \<le> UTOP
      then do {
        (pte, _) \<leftarrow> pgdir_walk pgdir va_act False m;
        if (case pte of None \<Rightarrow> True
            | Some p \<Rightarrow> pte_at m p AND (perm OR PTE_P) \<noteq> perm OR PTE_P)
        then Some (- E_FAULT, m\<lparr>user_mem_check_addr := (if va_act > va_lo then va_act else va_lo)\<rparr>)
        else user_mem_loop pgdir (va_act + PGSIZE) va_lo va_hi perm m
      }
      else Some (0, m))"
  by pat_completeness auto
termination
proof (relation "measure (\<lambda>(pgdir, va_act, va_lo, va_hi, perm, m). unat va_hi - unat va_act)", simp, clarify)
  fix pgdir :: nat and a lo hi perm :: u32w and m :: "'a mem_scheme" and x x' y
  assume "a < hi" "hi \<le> UTOP"
  then have "a + PGSIZE > a" and "a < hi" using next_page by auto
  then show "((pgdir, a + PGSIZE, lo, hi, perm, m), pgdir, a, lo, hi, perm, m)
      \<in> measure (\<lambda>(pgdir, va_act, va_lo, va_hi, perm, m). unat va_hi - unat va_act)"
    by (simp add: word_less_nat_alt)
qed

declare user_mem_loop.simps [simp del]

text \<open>The test \<open>va_hi \<le> UTOP\<close> of the loop is the guard the code makes before it.\<close>

definition user_mem_check :: "nat \<Rightarrow> u32w \<Rightarrow> u32w \<Rightarrow> u32w \<Rightarrow> 'a mem_scheme \<Rightarrow> (int \<times> 'a mem_scheme) option" where
  "user_mem_check pgdir va len perm m =
     (let va_lo = va; va_hi = ROUNDUP (va + len) PGSIZE in
      if va_hi > UTOP then Some (- E_FAULT, m\<lparr>user_mem_check_addr := va_lo\<rparr>)
      else user_mem_loop pgdir (ROUNDDOWN va_lo PGSIZE) va_lo va_hi perm m)"

end
