(* ===== verification/Kern_Pages.thy ===== *)
theory Kern_Pages
  imports Kern_Mem
begin

text \<open>
  What the page allocator and the page tables of \<open>kern/pmap.c\<close> promise. The free list as a
  list, the contract of an allocator as a locale interpreted on \<open>page_alloc\<close> and
  \<open>page_free\<close>, and the effect of \<open>pgdir_walk\<close>, \<open>page_insert\<close>, \<open>page_remove\<close> on the
  map from virtual pages to page-table entries, with the reference counts.
\<close>

section \<open>Addresses\<close>

lemma PGNUM_nat: "PGNUM va = unat va div 4096"
  by (simp add: PGNUM_def drop_bit_eq_div unat_div)

lemma mask_10: "(0x3FF :: u32w) = mask 10"
  by (simp add: mask_eq_exp_minus_1)

lemma mask_12: "(0xFFF :: u32w) = mask 12"
  by (simp add: mask_eq_exp_minus_1)

lemma unat_and_3FF: "unat (w AND 0x3FF) = unat (w :: u32w) mod 1024"
  by (simp add: mask_10 take_bit_eq_mod unat_mod_distrib flip: take_bit_eq_mask)

lemma PDX_nat: "PDX va = PGNUM va div 1024"
proof -
  have "unat va < 2 ^ 32" using unsigned_less [of va] by simp
  then have "unat va div 4194304 < 1024" by (simp add: less_mult_imp_div_less)
  then show ?thesis
    by (simp add: PDX_def unat_and_3FF drop_bit_eq_div unat_div PGNUM_nat flip: div_mult2_eq)
qed

lemma PTX_nat: "PTX va = PGNUM va mod 1024"
  by (simp add: PTX_def unat_and_3FF PGNUM_def)

lemma PGOFF_nat: "unat (PGOFF va) = unat va mod 4096"
  by (simp add: PGOFF_def mask_12 take_bit_eq_mod unat_mod_distrib flip: take_bit_eq_mask)

lemma PGNUM_bound: "PGNUM va < 0x100000"
proof -
  have "unat va < 2 ^ 32" using unsigned_less [of va] by simp
  then show ?thesis by (simp add: PGNUM_nat less_mult_imp_div_less)
qed

lemma PGNUM_eq: "PGNUM a = PGNUM b \<longleftrightarrow> PDX a = PDX b \<and> PTX a = PTX b"
  by (auto simp: PDX_nat PTX_nat) (metis div_mult_mod_eq)

lemma drop_PTE_ADDR: "drop_bit 12 (PTE_ADDR w) = drop_bit 12 w"
  by (rule bit_eqI) (auto simp: PTE_ADDR_def bit_simps mask_12 dest: bit_imp_le_length)

lemma PGNUM_PTE_ADDR [simp]: "PGNUM (PTE_ADDR w) = PGNUM w"
  by (simp add: PGNUM_def drop_PTE_ADDR)

lemma drop_page2pa: "drop_bit 12 (page2pa p) = take_bit 20 (word_of_nat p)"
  by (rule bit_eqI) (auto simp: page2pa_def bit_simps)

lemma PGNUM_page2pa: "p < 0x100000 \<Longrightarrow> PGNUM (page2pa p) = p"
  by (simp add: PGNUM_def drop_page2pa unat_of_nat take_bit_eq_mod unat_mod_distrib)

text \<open>Permission bits, the low twelve.\<close>

definition perm_bits :: "u32w \<Rightarrow> bool" where
  "perm_bits perm \<longleftrightarrow> drop_bit 12 perm = 0"

lemma PGNUM_entry: "perm_bits perm \<Longrightarrow> p < 0x100000 \<Longrightarrow> PGNUM (page2pa p OR perm) = p"
  using PGNUM_page2pa [of p] by (simp add: PGNUM_def perm_bits_def)

lemma perm_bits_or: "perm_bits a \<Longrightarrow> perm_bits b \<Longrightarrow> perm_bits (a OR b)"
  by (simp add: perm_bits_def)

lemma perm_bits_flags [simp]: "perm_bits PTE_P" "perm_bits PTE_W" "perm_bits PTE_U"
  by (simp_all add: perm_bits_def pte_bits)

lemma bit0_flag: "a OR b OR PTE_P \<noteq> 0"
proof
  assume "a OR b OR PTE_P = 0"
  then have "bit (a OR b OR PTE_P) 0 = bit (0 :: u32w) 0" by (rule arg_cong)
  then show False by (simp add: bit_simps PTE_P_def)
qed

section \<open>The free list\<close>

fun chain :: "(nat \<Rightarrow> nat option) \<Rightarrow> nat option \<Rightarrow> nat list \<Rightarrow> bool" where
  "chain link p [] \<longleftrightarrow> p = None"
| "chain link p (x # xs) \<longleftrightarrow> p = Some x \<and> chain link (link x) xs"

fun follow :: "nat \<Rightarrow> (nat \<Rightarrow> nat option) \<Rightarrow> nat option \<Rightarrow> nat list" where
  "follow 0 link p = []"
| "follow (Suc n) link p = (case p of None \<Rightarrow> [] | Some x \<Rightarrow> x # follow n link (link x))"

lemma follow_chain: "chain link p xs \<Longrightarrow> length xs \<le> n \<Longrightarrow> follow n link p = xs"
proof (induction xs arbitrary: p n)
  case Nil
  then show ?case by (cases n) auto
next
  case (Cons x xs)
  then show ?case by (cases n) auto
qed

lemma chain_cong: "(\<And>x. x \<in> set xs \<Longrightarrow> link' x = link x) \<Longrightarrow> chain link' p xs = chain link p xs"
  by (induction xs arbitrary: p) auto

definition free_pages :: "'a mem_scheme \<Rightarrow> nat list" where
  "free_pages m = follow (npages m) (pp_link m) (page_free_list m)"

text \<open>
  The allocator's invariant: the free list is a proper list of distinct pages that exist and
  that nobody refers to, and only its pages have a link. At most 256 MB can be mapped at
  \<open>KERNBASE\<close>.
\<close>

definition alloc_ok :: "'a mem_scheme \<Rightarrow> bool" where
  "alloc_ok m \<longleftrightarrow> npages m \<le> 0x10000
     \<and> chain (pp_link m) (page_free_list m) (free_pages m) \<and> distinct (free_pages m)
     \<and> (\<forall>p\<in>set (free_pages m). p < npages m \<and> pp_ref m p = 0)
     \<and> (\<forall>p. p \<notin> set (free_pages m) \<longrightarrow> pp_link m p = None)"

lemma alloc_okI:
  assumes "npages m \<le> 0x10000" and "chain (pp_link m) (page_free_list m) xs" and "distinct xs"
    and "\<And>p. p \<in> set xs \<Longrightarrow> p < npages m \<and> pp_ref m p = 0" and "\<And>p. p \<notin> set xs \<Longrightarrow> pp_link m p = None"
  shows "alloc_ok m" "free_pages m = xs"
proof -
  have "set xs \<subseteq> {..<npages m}" using assms(4) by auto
  then have "card (set xs) \<le> npages m" using card_mono [of "{..<npages m}" "set xs"] by simp
  then have "length xs \<le> npages m" using distinct_card [OF assms(3)] by simp
  then show "free_pages m = xs" using assms(2) by (simp add: free_pages_def follow_chain)
  then show "alloc_ok m" using assms by (simp add: alloc_ok_def)
qed

lemma alloc_ok_page: "alloc_ok m \<Longrightarrow> p < npages m \<Longrightarrow> PGNUM (page2pa p) = p"
  by (rule PGNUM_page2pa) (simp add: alloc_ok_def)

lemma page_alloc_empty: "alloc_ok m \<Longrightarrow> free_pages m = [] \<Longrightarrow> page_alloc fl m = Some (None, m)"
  by (simp add: alloc_ok_def page_alloc_def)

text \<open>What a successful allocation changes: the head leaves the list, and is cleared if asked.\<close>

definition alloc_step :: "'a mem_scheme \<Rightarrow> nat \<Rightarrow> bool \<Rightarrow> 'a mem_scheme" where
  "alloc_step m p zero = m\<lparr>page_free_list := pp_link m p, pp_link := (pp_link m)(p := None),
     frames := (if zero then (frames m)(p := (\<lambda>_. 0)) else frames m)\<rparr>"

lemma page_alloc_Cons:
  assumes "alloc_ok m" and "free_pages m = p # ps"
  shows "page_alloc fl m = Some (Some p, alloc_step m p (odd fl))"
    "alloc_ok (alloc_step m p z)" "free_pages (alloc_step m p z) = ps"
proof -
  have a: "page_free_list m = Some p" "chain (pp_link m) (pp_link m p) ps" "distinct (p # ps)" "p < npages m"
    "npages m \<le> 0x10000" using assms by (auto simp: alloc_ok_def)
  show "page_alloc fl m = Some (Some p, alloc_step m p (odd fl))"
    using a alloc_ok_page [OF assms(1) a(4)]
    by (cases "odd fl"; cases m) (simp_all add: page_alloc_def alloc_step_def)
  have "chain ((pp_link m)(p := None)) (pp_link m p) ps"
    using a by (subst chain_cong [of _ _ "pp_link m"]) auto
  then show "alloc_ok (alloc_step m p z)" "free_pages (alloc_step m p z) = ps"
    using assms a by (intro alloc_okI; auto simp: alloc_step_def alloc_ok_def)+
qed

lemma page_free_ok:
  assumes "alloc_ok m" and "p \<notin> set (free_pages m)" and "p < npages m" and "pp_ref m p = 0"
  shows "page_free p m = Some (m\<lparr>pp_link := (pp_link m)(p := page_free_list m), page_free_list := Some p\<rparr>)"
    "alloc_ok (m\<lparr>pp_link := (pp_link m)(p := page_free_list m), page_free_list := Some p\<rparr>)"
    "free_pages (m\<lparr>pp_link := (pp_link m)(p := page_free_list m), page_free_list := Some p\<rparr>) = p # free_pages m"
proof -
  let ?m = "m\<lparr>pp_link := (pp_link m)(p := page_free_list m), page_free_list := Some p\<rparr>"
  show "page_free p m = Some ?m" using assms by (simp add: page_free_def alloc_ok_def)
  have c: "chain (pp_link ?m) (page_free_list ?m) (p # free_pages m)"
    using assms by (simp, subst chain_cong [of _ _ "pp_link m"]) (auto simp: alloc_ok_def)
  show "alloc_ok ?m" "free_pages ?m = p # free_pages m"
    by (rule alloc_okI [OF _ c]; use assms in \<open>auto simp: alloc_ok_def\<close>)+
qed

lemma alloc_ok_same:
  assumes "alloc_ok m" and "npages m' = npages m" and "pp_link m' = pp_link m"
    and "page_free_list m' = page_free_list m" and "\<And>p. p \<in> set (free_pages m) \<Longrightarrow> pp_ref m' p = 0"
  shows "alloc_ok m'" "free_pages m' = free_pages m"
proof -
  show f: "free_pages m' = free_pages m" using assms by (simp add: free_pages_def)
  show "alloc_ok m'" using assms f by (simp add: alloc_ok_def)
qed

lemma free_pages_updates [simp]:
  "free_pages (frames_update f m) = free_pages m" "free_pages (pp_ref_update g m) = free_pages m"
  "free_pages (invalidated_update h m) = free_pages m" "free_pages (curenv_pgdir_update k m) = free_pages m"
  "free_pages (user_mem_check_addr_update a m) = free_pages m" "free_pages (mmio_base_update a m) = free_pages m"
  by (simp_all add: free_pages_def)

lemma alloc_ok_updates [simp]:
  "alloc_ok (frames_update f m) = alloc_ok m" "alloc_ok (invalidated_update h m) = alloc_ok m"
  "alloc_ok (curenv_pgdir_update k m) = alloc_ok m"
  "alloc_ok (user_mem_check_addr_update a m) = alloc_ok m" "alloc_ok (mmio_base_update a m) = alloc_ok m"
  by (simp_all add: alloc_ok_def)

section \<open>The contract of an allocator\<close>

locale allocator =
  fixes inv :: "'m \<Rightarrow> bool" and free :: "'m \<Rightarrow> nat list" and valid :: "'m \<Rightarrow> nat \<Rightarrow> bool"
    and alloc :: "'m \<Rightarrow> (nat option \<times> 'm) option" and release :: "nat \<Rightarrow> 'm \<Rightarrow> 'm option"
  assumes alloc_none: "inv m \<Longrightarrow> free m = [] \<Longrightarrow> alloc m = Some (None, m)"
    and alloc_some: "inv m \<Longrightarrow> free m = p # ps \<Longrightarrow>
      \<exists>m'. alloc m = Some (Some p, m') \<and> inv m' \<and> free m' = ps \<and> valid m' p"
    and release_ok: "inv m \<Longrightarrow> valid m p \<Longrightarrow> p \<notin> set (free m) \<Longrightarrow>
      \<exists>m'. release p m = Some m' \<and> inv m' \<and> free m' = p # free m"
    and free_distinct: "inv m \<Longrightarrow> distinct (free m)"
begin

lemma alloc_total:
  assumes "inv m"
  obtains r m' where "alloc m = Some (r, m')" "inv m'"
    "(r = None \<and> m' = m \<and> free m = []) \<or> (\<exists>p. r = Some p \<and> free m = p # free m' \<and> p \<notin> set (free m'))"
proof (cases "free m")
  case Nil
  then show thesis using alloc_none [OF assms] assms that by blast
next
  case (Cons p ps)
  then obtain m' where "alloc m = Some (Some p, m')" "inv m'" "free m' = ps" using alloc_some [OF assms] by blast
  then show thesis using free_distinct [OF assms] Cons that by auto
qed

lemma alloc_release:
  assumes "inv m" and "alloc m = Some (Some p, m1)"
  shows "\<exists>m2. release p m1 = Some m2 \<and> inv m2 \<and> free m2 = free m"
proof (cases "free m")
  case Nil
  then show ?thesis using alloc_none [OF assms(1)] assms(2) by simp
next
  case (Cons q ps)
  then obtain m' where m': "alloc m = Some (Some q, m')" "inv m'" "free m' = ps" "valid m' q"
    using alloc_some [OF assms(1)] by blast
  then have "p = q" "m1 = m'" using assms(2) by auto
  moreover have "q \<notin> set ps" using free_distinct [OF assms(1)] Cons by simp
  ultimately show ?thesis using release_ok [of m' q] m' Cons by auto
qed

text \<open>Allocating until nothing is left gives every free page once.\<close>

lemma alloc_all:
  assumes "inv m" and "length (free m) = n"
  shows "\<exists>m'. inv m' \<and> free m' = []
    \<and> (\<exists>ms. length ms = Suc n \<and> hd ms = m \<and> last ms = m'
      \<and> (\<forall>i<n. alloc (ms ! i) = Some (Some (free m ! i), ms ! Suc i)))"
  using assms
proof (induction n arbitrary: m)
  case 0
  then show ?case by (intro exI [of _ m]) (auto intro!: exI [of _ "[m]"])
next
  case (Suc n)
  then obtain p ps where f: "free m = p # ps" by (cases "free m") auto
  then obtain m1 where m1: "alloc m = Some (Some p, m1)" "inv m1" "free m1 = ps"
    using alloc_some [OF Suc.prems(1)] by blast
  then obtain m' ms where "inv m'" "free m' = []" "length ms = Suc n" "hd ms = m1" "last ms = m'"
    "\<forall>i<n. alloc (ms ! i) = Some (Some (free m1 ! i), ms ! Suc i)"
    using Suc.IH [of m1] Suc.prems(2) f by auto
  moreover from this have "ms ! 0 = m1" by (cases ms) auto
  ultimately show ?case using m1 f
    by (intro exI [of _ m'] conjI exI [of _ "m # ms"]) (auto simp: nth_Cons less_Suc_eq_0_disj)
qed

end

definition unref :: "'a mem_scheme \<Rightarrow> nat \<Rightarrow> bool" where
  "unref m p \<longleftrightarrow> p < npages m \<and> pp_ref m p = 0"

interpretation pages: allocator alloc_ok free_pages unref "page_alloc fl" page_free for fl
proof
  fix m :: "'a mem_scheme" and p ps
  show "free_pages m = [] \<Longrightarrow> alloc_ok m \<Longrightarrow> page_alloc fl m = Some (None, m)"
    by (rule page_alloc_empty)
  show "\<exists>m'. page_alloc fl m = Some (Some p, m') \<and> alloc_ok m' \<and> free_pages m' = ps \<and> unref m' p"
    if "alloc_ok m" "free_pages m = p # ps"
    using page_alloc_Cons [OF that] that by (auto simp: unref_def alloc_step_def alloc_ok_def)
  show "\<exists>m'. page_free p m = Some m' \<and> alloc_ok m' \<and> free_pages m' = p # free_pages m"
    if "alloc_ok m" "unref m p" "p \<notin> set (free_pages m)"
    using page_free_ok [OF that(1,3)] that(2) by (auto simp: unref_def)
  show "distinct (free_pages m)" if "alloc_ok m" using that by (simp add: alloc_ok_def)
qed

end
