(* ===== verification/Kern_Vm.thy ===== *)
theory Kern_Vm
  imports Kern_Pages
begin

text \<open>
  The page tables as a map from virtual page numbers to entries, and what \<open>pgdir_walk\<close>,
  \<open>page_lookup\<close>, \<open>page_remove\<close> and \<open>page_insert\<close> of \<open>kern/pmap.c\<close> do to it, below
  \<open>UTOP\<close>, on well-formed address spaces.
\<close>

section \<open>Address spaces\<close>

text \<open>The number of user pages: virtual pages below \<open>UTOP\<close>; their directory entries are the first 955.\<close>

definition UPAGENUM :: nat where "UPAGENUM = 955 * 1024"

lemma user_page: "va < UTOP \<longleftrightarrow> PGNUM va < UPAGENUM"
proof -
  have "va < UTOP \<longleftrightarrow> unat va < 0xEEC00000" by (simp add: word_less_nat_alt unat_UTOP)
  also have "\<dots> \<longleftrightarrow> unat va div 4096 < UPAGENUM" unfolding UPAGENUM_def by (simp add: div_less_iff_less_mult)
  finally show ?thesis by (simp add: PGNUM_nat)
qed

lemma user_dir: "v < UPAGENUM \<Longrightarrow> v div 1024 < 955"
  by (simp add: UPAGENUM_def less_mult_imp_div_less)

definition table :: "'a mem_scheme \<Rightarrow> nat \<Rightarrow> nat \<Rightarrow> nat option" where
  "table m pgdir d = (if frames m pgdir d = 0 then None else Some (PGNUM (frames m pgdir d)))"

definition entry :: "'a mem_scheme \<Rightarrow> nat \<Rightarrow> nat \<Rightarrow> u32w" where
  "entry m pgdir v = (case table m pgdir (v div 1024) of None \<Rightarrow> 0 | Some t \<Rightarrow> frames m t (v mod 1024))"

text \<open>The page a user page number is mapped to.\<close>

definition mapped :: "'a mem_scheme \<Rightarrow> nat \<Rightarrow> nat \<Rightarrow> nat option" where
  "mapped m pgdir v = (if entry m pgdir v = 0 then None else Some (PGNUM (entry m pgdir v)))"

definition map_count :: "'a mem_scheme \<Rightarrow> nat \<Rightarrow> nat \<Rightarrow> nat" where
  "map_count m pgdir p = card {v. v < UPAGENUM \<and> mapped m pgdir v = Some p}"

definition tables_inj :: "'a mem_scheme \<Rightarrow> nat \<Rightarrow> bool" where
  "tables_inj m pgdir \<longleftrightarrow> (\<forall>d<955. \<forall>e<955. \<forall>t. table m pgdir d = Some t \<and> table m pgdir e = Some t \<longrightarrow> d = e)"

text \<open>
  A well-formed address space: the directory, its page tables and the pages they map are
  different frames in use; no table serves two directory entries; and a page is counted at least as
  often as it is mapped here.
\<close>

definition space_ok :: "'a mem_scheme \<Rightarrow> nat \<Rightarrow> bool" where
  "space_ok m pgdir \<longleftrightarrow> alloc_ok m \<and> pgdir < npages m \<and> pgdir \<notin> set (free_pages m)
     \<and> (\<forall>d<955. \<forall>t. table m pgdir d = Some t \<longrightarrow>
          t < npages m \<and> t \<noteq> pgdir \<and> t \<notin> set (free_pages m) \<and> pp_ref m t \<noteq> 0)
     \<and> tables_inj m pgdir
     \<and> (\<forall>v<UPAGENUM. \<forall>p. mapped m pgdir v = Some p \<longrightarrow>
          p < npages m \<and> p \<noteq> pgdir \<and> p \<notin> set (free_pages m) \<and> (\<forall>d<955. table m pgdir d \<noteq> Some p))
     \<and> (\<forall>p. map_count m pgdir p \<le> unat (pp_ref m p))"

lemma finite_maps [simp]: "finite {v. v < UPAGENUM \<and> P v}"
  by simp

lemma space_okD:
  assumes "space_ok m pgdir"
  shows "alloc_ok m" "pgdir < npages m" "pgdir \<notin> set (free_pages m)" "npages m \<le> 0x10000"
    "\<And>d t. d < 955 \<Longrightarrow> table m pgdir d = Some t \<Longrightarrow> t < npages m \<and> t \<noteq> pgdir \<and> t \<notin> set (free_pages m) \<and> pp_ref m t \<noteq> 0"
    "\<And>v p. v < UPAGENUM \<Longrightarrow> mapped m pgdir v = Some p \<Longrightarrow>
       p < npages m \<and> p \<noteq> pgdir \<and> p \<notin> set (free_pages m) \<and> (\<forall>d<955. table m pgdir d \<noteq> Some p)"
  using assms unfolding space_ok_def alloc_ok_def by blast+

lemma mapped_ref:
  assumes "space_ok m pgdir" and "v < UPAGENUM" and "mapped m pgdir v = Some p"
  shows "pp_ref m p \<noteq> 0" "0 < map_count m pgdir p"
proof -
  show "0 < map_count m pgdir p" using assms(2,3) by (auto simp: map_count_def card_gt_0_iff)
  moreover have "map_count m pgdir p \<le> unat (pp_ref m p)" using assms(1) by (simp add: space_ok_def)
  ultimately show "pp_ref m p \<noteq> 0" by (auto simp: unat_eq_0)
qed

section \<open>Walking\<close>

lemma kaddr_frame:
  assumes "npages m \<le> 0x10000" and "PGNUM pa < npages m"
  shows "Option.bind (KADDR m (PTE_ADDR pa)) PADDR = Some (PTE_ADDR pa)"
proof -
  let ?a = "PTE_ADDR pa"
  have "PGNUM ?a < 0x10000" using assms by simp
  then have "unat ?a < 0x10000000" by (simp add: PGNUM_nat div_less_iff_less_mult)
  then have "unat ?a + unat KERNBASE < 2 ^ LENGTH(32)" by (simp add: KERNBASE_def)
  then have "unat (?a + KERNBASE) = unat ?a + unat KERNBASE" by (rule unat_add_lem [THEN iffD1])
  then have "KERNBASE \<le> ?a + KERNBASE" by (simp add: word_le_nat_alt)
  then show ?thesis using assms(2) by (simp add: KADDR_def PADDR_def)
qed

lemma walk_found:
  assumes "space_ok m pgdir" and "va < UTOP" and "table m pgdir (PDX va) = Some t"
  shows "pgdir_walk pgdir va create m = Some (Some (t, PTX va), m)"
proof -
  have d: "PDX va < 955" using assms(2) by (simp add: user_page PDX_nat user_dir)
  have nz: "frames m pgdir (PDX va) \<noteq> 0" "t = PGNUM (frames m pgdir (PDX va))"
    using assms(3) by (auto simp: table_def split: if_splits)
  moreover have "t < npages m" using space_okD(5) [OF assms(1) d assms(3)] by simp
  ultimately have "Option.bind (KADDR m (PTE_ADDR (frames m pgdir (PDX va)))) PADDR
      = Some (PTE_ADDR (frames m pgdir (PDX va)))"
    using kaddr_frame [of m "frames m pgdir (PDX va)"] space_okD(4) [OF assms(1)] by simp
  then show ?thesis using nz by (auto simp: pgdir_walk_def bind_eq_Some_conv)
qed

lemma walk_missing:
  assumes "table m pgdir (PDX va) = None"
  shows "pgdir_walk pgdir va False m = Some (None, m)"
  using assms by (simp add: pgdir_walk_def table_def split: if_splits)

lemma walk_user:
  assumes "space_ok m pgdir" and "va < UTOP"
  shows "pgdir_walk pgdir va False m = Some (map_option (\<lambda>t. (t, PTX va)) (table m pgdir (PDX va)), m)"
  using walk_found [OF assms] walk_missing by (cases "table m pgdir (PDX va)") simp_all

lemma entry_pte:
  "entry m pgdir (PGNUM va) = (case table m pgdir (PDX va) of None \<Rightarrow> 0 | Some t \<Rightarrow> pte_at m (t, PTX va))"
  by (simp add: entry_def pte_at_def PDX_nat PTX_nat split: option.splits)

text \<open>\<open>page_lookup\<close> finds what the address space maps.\<close>

lemma page_lookup_user:
  assumes "space_ok m pgdir" and "va < UTOP"
  shows "page_lookup pgdir va m = Some (case mapped m pgdir (PGNUM va) of None \<Rightarrow> None
    | Some p \<Rightarrow> Some (p, (the (table m pgdir (PDX va)), PTX va)))"
proof (cases "table m pgdir (PDX va)")
  case None
  then show ?thesis using walk_user [OF assms] by (simp add: page_lookup_def mapped_def entry_pte)
next
  case (Some t)
  have v: "PGNUM va < UPAGENUM" using assms(2) by (simp add: user_page)
  show ?thesis
  proof (cases "mapped m pgdir (PGNUM va)")
    case None
    then show ?thesis using Some walk_user [OF assms]
      by (simp add: page_lookup_def mapped_def entry_pte split: if_splits)
  next
    case m: (Some p)
    have "p < npages m" using space_okD(6) [OF assms(1) v m] by simp
    then show ?thesis using Some m walk_user [OF assms]
      by (auto simp: page_lookup_def mapped_def entry_pte pa2page_def split: if_splits)
  qed
qed

section \<open>Changing one entry\<close>

text \<open>The entry of a user page with a table is one word; the others do not see a write to it.\<close>

lemma entry_set_word:
  assumes "space_ok m pgdir" and "va < UTOP" and "table m pgdir (PDX va) = Some t" and "v < UPAGENUM"
    and same: "frames m' = (frames m)(t := (frames m t)(PTX va := w))"
  shows "entry m' pgdir v = (if v = PGNUM va then w else entry m pgdir v)" "table m' pgdir d = table m pgdir d"
proof -
  have d: "PDX va < 955" using assms(2) by (simp add: user_page PDX_nat user_dir)
  have t: "t \<noteq> pgdir" using space_okD(5) [OF assms(1) d assms(3)] by simp
  show tab: "table m' pgdir d = table m pgdir d" for d using t by (simp add: table_def same)
  show "entry m' pgdir v = (if v = PGNUM va then w else entry m pgdir v)"
  proof (cases "table m pgdir (v div 1024)")
    case None
    then have "v \<noteq> PGNUM va" using assms(3) by (auto simp: PDX_nat)
    then show ?thesis using None tab by (simp add: entry_def)
  next
    case (Some u)
    show ?thesis
    proof (cases "v div 1024 = PDX va")
      case True
      then have "u = t" using Some assms(3) by simp
      moreover have "v = PGNUM va \<longleftrightarrow> v mod 1024 = PTX va"
        using True by (metis PDX_nat PTX_nat div_mult_mod_eq)
      ultimately show ?thesis using Some tab by (simp add: entry_def same)
    next
      case False
      then have "u \<noteq> t" using assms(1,3) Some d user_dir [OF assms(4)] unfolding space_ok_def tables_inj_def
        by metis
      moreover have "v \<noteq> PGNUM va" using False by (auto simp: PDX_nat)
      ultimately show ?thesis using Some tab by (simp add: entry_def same)
    qed
  qed
qed

lemma map_count_update:
  assumes "\<And>u. u < UPAGENUM \<Longrightarrow> mapped m' pgdir u = (if u = v then q else mapped m pgdir u)" and "v < UPAGENUM"
  shows "map_count m' pgdir p + (if mapped m pgdir v = Some p then 1 else 0)
    = map_count m pgdir p + (if q = Some p then 1 else 0)"
proof -
  let ?A = "{u. u < UPAGENUM \<and> u \<noteq> v \<and> mapped m pgdir u = Some p}"
  have fin: "finite ?A" by simp
  have "{u. u < UPAGENUM \<and> mapped m pgdir u = Some p} = (if mapped m pgdir v = Some p then insert v ?A else ?A)"
    using assms(2) by auto
  moreover have "{u. u < UPAGENUM \<and> mapped m' pgdir u = Some p} = (if q = Some p then insert v ?A else ?A)"
    using assms by (auto split: if_splits)
  ultimately show ?thesis using fin by (auto simp: map_count_def)
qed

lemma unat_minus_1: "w \<noteq> 0 \<Longrightarrow> unat (w - 1) = unat (w :: u16w) - 1"
  by (simp add: unat_minus_one)

lemma unat_plus_1: "unat (w :: u16w) < 0xFFFF \<Longrightarrow> unat (w + 1) = unat w + 1"
proof -
  assume "unat w < 0xFFFF"
  then have "unat w + unat (1 :: u16w) < 2 ^ LENGTH(16)" by simp
  then show ?thesis by (subst unat_add_lem [THEN iffD1]) simp_all
qed

section \<open>Removing a mapping\<close>

text \<open>What \<open>page_remove\<close> leaves when the page \<open>p\<close> was mapped at \<open>va\<close> through table \<open>t\<close>.\<close>

definition unmapped :: "'a mem_scheme \<Rightarrow> nat \<Rightarrow> u32w \<Rightarrow> nat \<Rightarrow> nat \<Rightarrow> 'a mem_scheme \<Rightarrow> bool" where
  "unmapped m pgdir va t p m' \<longleftrightarrow>
     npages m' = npages m \<and> frames m' = (frames m)(t := (frames m t)(PTX va := 0))
     \<and> pp_ref m' = (pp_ref m)(p := pp_ref m p - 1)
     \<and> free_pages m' = (if pp_ref m p = 1 then p # free_pages m else free_pages m) \<and> alloc_ok m'"

lemma page_decref_ok:
  assumes "alloc_ok m" and "p < npages m" and "p \<notin> set (free_pages m)" and "pp_ref m p \<noteq> 0"
  obtains m' where "page_decref p m = Some m'" "npages m' = npages m" "frames m' = frames m"
    "pp_ref m' = (pp_ref m)(p := pp_ref m p - 1)" "kern_pgdir m' = kern_pgdir m"
    "curenv_pgdir m' = curenv_pgdir m"
    "free_pages m' = (if pp_ref m p = 1 then p # free_pages m else free_pages m)" "alloc_ok m'"
proof -
  let ?m = "m\<lparr>pp_ref := (pp_ref m)(p := pp_ref m p - 1)\<rparr>"
  have ok: "alloc_ok ?m" "free_pages ?m = free_pages m"
    using assms by (auto intro!: alloc_ok_same(1) [OF assms(1)] simp: alloc_ok_def)
  show thesis
  proof (cases "pp_ref m p = 1")
    case True
    have "pp_ref ?m p = 0" using True by simp
    note f = page_free_ok [OF ok(1), of p, unfolded ok(2), OF assms(3) _ this]
    show thesis using f assms(2) True by (intro that) (simp_all add: page_decref_def)
  next
    case False
    then have "pp_ref ?m p \<noteq> 0" by simp
    with False ok show thesis by (intro that [of ?m]) (simp_all add: page_decref_def)
  qed
qed

lemma page_remove_mapped:
  assumes sp: "space_ok m pgdir" and va: "va < UTOP" and mp: "mapped m pgdir (PGNUM va) = Some p"
    and t: "table m pgdir (PDX va) = Some t"
  obtains m' where "page_remove pgdir va m = Some m'" "unmapped m pgdir va t p m'"
proof -
  have v: "PGNUM va < UPAGENUM" using va by (simp add: user_page)
  have nz: "pte_at m (t, PTX va) \<noteq> 0" using mp t by (auto simp: mapped_def entry_pte split: if_splits)
  obtain m1 where m1: "page_decref p m = Some m1" "npages m1 = npages m" "frames m1 = frames m"
    "pp_ref m1 = (pp_ref m)(p := pp_ref m p - 1)"
    "free_pages m1 = (if pp_ref m p = 1 then p # free_pages m else free_pages m)" "alloc_ok m1"
    using page_decref_ok [OF space_okD(1) [OF sp]] space_okD(6) [OF sp v mp] mapped_ref(1) [OF sp v mp] by metis
  let ?m2 = "tlb_invalidate pgdir va (set_word m1 t (PTX va) 0)"
  have "page_remove pgdir va m = Some ?m2"
    using walk_user [OF sp va] page_lookup_user [OF sp va] t mp nz m1 by (simp add: page_remove_def)
  moreover have "unmapped m pgdir va t p ?m2" using m1
    by (simp add: unmapped_def tlb_invalidate_def set_word_def)
  ultimately show thesis by (rule that)
qed

lemma page_remove_absent:
  assumes "space_ok m pgdir" and "va < UTOP" and "mapped m pgdir (PGNUM va) = None"
  shows "page_remove pgdir va m = Some m"
  using walk_user [OF assms(1,2)] page_lookup_user [OF assms(1,2)] assms(3)
  by (cases "table m pgdir (PDX va)") (auto simp: page_remove_def mapped_def entry_pte split: if_splits)

lemma mapped_entry: "mapped m pgdir v = (if entry m pgdir v = 0 then None else Some (PGNUM (entry m pgdir v)))"
  by (simp add: mapped_def)

text \<open>A change of one user entry keeps the address space well formed if the new page may be mapped.\<close>

lemma space_ok_change:
  assumes sp: "space_ok m pgdir" and v: "v < UPAGENUM" and np: "npages m' = npages m"
    and tab: "\<And>d. table m' pgdir d = table m pgdir d"
    and ent: "\<And>u. u < UPAGENUM \<Longrightarrow> mapped m' pgdir u = (if u = v then q else mapped m pgdir u)"
    and al: "alloc_ok m'" and dir: "pgdir \<notin> set (free_pages m')"
    and tabs: "\<And>d t. d < 955 \<Longrightarrow> table m pgdir d = Some t \<Longrightarrow> t \<notin> set (free_pages m') \<and> pp_ref m' t \<noteq> 0"
    and new: "\<And>p. q = Some p \<Longrightarrow> p < npages m \<and> p \<noteq> pgdir \<and> p \<notin> set (free_pages m') \<and> (\<forall>d<955. table m pgdir d \<noteq> Some p)"
    and others: "\<And>u p. u < UPAGENUM \<Longrightarrow> u \<noteq> v \<Longrightarrow> mapped m pgdir u = Some p \<Longrightarrow> p \<notin> set (free_pages m')"
    and counts: "\<And>p. map_count m' pgdir p \<le> unat (pp_ref m' p)"
  shows "space_ok m' pgdir"
proof -
  have "p < npages m' \<and> p \<noteq> pgdir \<and> p \<notin> set (free_pages m') \<and> (\<forall>d<955. table m' pgdir d \<noteq> Some p)"
    if "u < UPAGENUM" "mapped m' pgdir u = Some p" for u p
    using that new others space_okD(6) [OF sp that(1)] by (cases "u = v") (auto simp: ent np tab)
  moreover have "tables_inj m' pgdir" using sp unfolding space_ok_def tables_inj_def tab by blast
  moreover have "pgdir < npages m'" using space_okD(2) [OF sp] np by simp
  moreover have "t < npages m' \<and> t \<noteq> pgdir" if "d < 955" "table m' pgdir d = Some t" for d t
    using space_okD(5) [OF sp that(1)] that(2) by (simp add: tab np)
  ultimately show ?thesis using al dir tabs counts unfolding space_ok_def by (simp add: tab)
qed

lemma unmapped_space:
  assumes sp: "space_ok m pgdir" and va: "va < UTOP" and mp: "mapped m pgdir (PGNUM va) = Some p"
    and t: "table m pgdir (PDX va) = Some t" and un: "unmapped m pgdir va t p m'"
  shows "space_ok m' pgdir" "\<And>v. v < UPAGENUM \<Longrightarrow> entry m' pgdir v = (if v = PGNUM va then 0 else entry m pgdir v)"
    "\<And>d. table m' pgdir d = table m pgdir d" "map_count m' pgdir p + 1 = map_count m pgdir p"
    "\<And>q. q \<noteq> p \<Longrightarrow> map_count m' pgdir q = map_count m pgdir q"
proof -
  have v: "PGNUM va < UPAGENUM" using va by (simp add: user_page)
  note u = un [unfolded unmapped_def]
  have fr: "frames m' = (frames m)(t := (frames m t)(PTX va := 0))" using u by simp
  show ent: "entry m' pgdir v = (if v = PGNUM va then 0 else entry m pgdir v)" if "v < UPAGENUM" for v
    using entry_set_word(1) [OF sp va t that fr] .
  show tab: "table m' pgdir d = table m pgdir d" for d using entry_set_word(2) [OF sp va t v fr] .
  have map: "mapped m' pgdir v = (if v = PGNUM va then None else mapped m pgdir v)" if "v < UPAGENUM" for v
    using that by (simp add: mapped_entry ent)
  note cnt = map_count_update [of m' pgdir "PGNUM va" None m, OF map v]
  show c1: "map_count m' pgdir p + 1 = map_count m pgdir p" using cnt [of p] mp by simp
  show c2: "map_count m' pgdir q = map_count m pgdir q" if "q \<noteq> p" for q using cnt [of q] mp that by simp
  have ref: "pp_ref m p \<noteq> 0" "map_count m pgdir p \<le> unat (pp_ref m p)"
    using mapped_ref(1) [OF sp v mp] sp by (simp_all add: space_ok_def)
  have pg: "p < npages m" "p \<noteq> pgdir" "p \<notin> set (free_pages m)" "\<forall>d<955. table m pgdir d \<noteq> Some p"
    using space_okD(6) [OF sp v mp] by auto
  have sole: "w = PGNUM va" if "pp_ref m p = 1" "w < UPAGENUM" "mapped m pgdir w = Some p" for w
  proof (rule ccontr)
    assume "w \<noteq> PGNUM va"
    then have "mapped m' pgdir w = Some p" using map that by simp
    then have "0 < map_count m' pgdir p" using that(2) by (auto simp: map_count_def card_gt_0_iff)
    then show False using c1 ref(2) that(1) by simp
  qed
  show "space_ok m' pgdir"
  proof (rule space_ok_change [OF sp v _ tab map])
    show "npages m' = npages m" "alloc_ok m'" using u by auto
    show "pgdir \<notin> set (free_pages m')" using u pg space_okD(3) [OF sp] by auto
    show "x \<notin> set (free_pages m') \<and> pp_ref m' x \<noteq> 0" if "d < 955" "table m pgdir d = Some x" for d x
      using that u pg space_okD(5) [OF sp that] by auto
    show "x \<notin> set (free_pages m')" if "w < UPAGENUM" "w \<noteq> PGNUM va" "mapped m pgdir w = Some x" for w x
      using that u sole space_okD(6) [OF sp that(1,3)] by auto
    show "map_count m' pgdir x \<le> unat (pp_ref m' x)" for x
    proof (cases "x = p")
      case True
      then show ?thesis using u c1 ref unat_minus_1 [OF ref(1)] by simp
    next
      case False
      then show ?thesis using u c2 sp by (simp add: space_ok_def)
    qed
  qed simp_all
qed

section \<open>Adding a page table\<close>

definition table_step :: "'a mem_scheme \<Rightarrow> nat \<Rightarrow> u32w \<Rightarrow> nat \<Rightarrow> 'a mem_scheme" where
  "table_step m pgdir va t =
     (let m1 = alloc_step m t True in
      set_word (m1\<lparr>pp_ref := (pp_ref m1)(t := pp_ref m1 t + 1)\<rparr>) pgdir (PDX va)
        (page2pa t OR PTE_P OR PTE_W OR PTE_U))"

lemma table_entry: "t < 0x100000 \<Longrightarrow> PGNUM (page2pa t OR PTE_P OR PTE_W OR PTE_U) = t"
    "page2pa t OR PTE_P OR PTE_W OR PTE_U \<noteq> 0"
proof -
  have "perm_bits (PTE_P OR PTE_W OR PTE_U)" by (simp add: perm_bits_def pte_bits)
  then show "t < 0x100000 \<Longrightarrow> PGNUM (page2pa t OR PTE_P OR PTE_W OR PTE_U) = t"
    using PGNUM_entry by blast
  show "page2pa t OR PTE_P OR PTE_W OR PTE_U \<noteq> 0"
    using bit0_flag [of "page2pa t" "PTE_W OR PTE_U"] by (simp add: ac_simps)
qed

lemma walk_creates:
  assumes sp: "space_ok m pgdir" and va: "va < UTOP" and none: "table m pgdir (PDX va) = None"
    and fl: "free_pages m = t # ts"
  shows "pgdir_walk pgdir va True m = Some (Some (t, PTX va), table_step m pgdir va t)"
    "space_ok (table_step m pgdir va t) pgdir" "\<And>v. v < UPAGENUM \<Longrightarrow> entry (table_step m pgdir va t) pgdir v = entry m pgdir v"
    "table (table_step m pgdir va t) pgdir d = (if d = PDX va then Some t else table m pgdir d)"
    "pp_ref (table_step m pgdir va t) = (pp_ref m)(t := 1)" "free_pages (table_step m pgdir va t) = ts"
    "npages (table_step m pgdir va t) = npages m"
proof -
  let ?m = "table_step m pgdir va t"
  have al: "alloc_ok m" "npages m \<le> 0x10000" using space_okD [OF sp] by auto
  have t: "t < npages m" "pp_ref m t = 0" "t \<notin> set ts" "pgdir \<noteq> t" "t < 0x100000"
    using al fl space_okD(3) [OF sp] by (auto simp: alloc_ok_def)
  have d: "PDX va < 955" using va by (simp add: user_page PDX_nat user_dir)
  have z: "frames m pgdir (PDX va) = 0" using none by (simp add: table_def split: if_splits)
  show np: "npages ?m = npages m" by (simp add: table_step_def alloc_step_def set_word_def Let_def)
  show fl': "free_pages ?m = ts" using page_alloc_Cons(3) [OF al(1) fl]
    by (simp add: table_step_def set_word_def Let_def)
  show ref: "pp_ref ?m = (pp_ref m)(t := 1)"
    using t by (simp add: table_step_def alloc_step_def set_word_def Let_def)
  show tab: "table ?m pgdir d = (if d = PDX va then Some t else table m pgdir d)" for d
    using t table_entry [of t]
    by (simp add: table_step_def alloc_step_def set_word_def Let_def table_def)
  have fr: "frames ?m u = (if u = pgdir then (frames m pgdir)(PDX va := page2pa t OR PTE_P OR PTE_W OR PTE_U)
      else if u = t then (\<lambda>_. 0) else frames m u)" for u
    using t by (simp add: table_step_def alloc_step_def set_word_def Let_def)
  have notin: "table m pgdir e \<noteq> Some t" if "e < 955" for e
    using space_okD(5) [OF sp that] fl by auto
  show ent: "entry ?m pgdir v = entry m pgdir v" if "v < UPAGENUM" for v
  proof (cases "v div 1024 = PDX va")
    case True
    then show ?thesis using none t by (simp add: entry_def tab fr)
  next
    case False
    have "u \<noteq> pgdir \<and> u \<noteq> t" if "table m pgdir (v div 1024) = Some u" for u
      using space_okD(5) [OF sp user_dir [OF \<open>v < UPAGENUM\<close>] that] fl by auto
    then show ?thesis using False by (auto simp: entry_def tab fr split: option.splits)
  qed
  have alm: "alloc_ok ?m"
  proof -
    have s: "alloc_ok (alloc_step m t True)" "free_pages (alloc_step m t True) = ts"
      using page_alloc_Cons(2,3) [OF al(1) fl] by auto
    then show ?thesis using t by (intro alloc_ok_same [OF s(1)])
      (auto simp: table_step_def set_word_def Let_def alloc_ok_def alloc_step_def)
  qed
  have map: "mapped ?m pgdir v = mapped m pgdir v" if "v < UPAGENUM" for v using ent [OF that] by (simp add: mapped_entry)
  then have cnt: "map_count ?m pgdir p = map_count m pgdir p" for p
    by (simp add: map_count_def cong: conj_cong)
  have m0: "map_count m pgdir p \<le> unat (pp_ref m p)" for p using sp by (simp add: space_ok_def)
  show "space_ok ?m pgdir"
    unfolding space_ok_def
  proof (intro conjI allI impI)
    show "alloc_ok ?m" by (rule alm)
    show "pgdir < npages ?m" "pgdir \<notin> set (free_pages ?m)"
      using space_okD [OF sp] fl by (auto simp: np fl')
    fix d x assume "d < 955" "table ?m pgdir d = Some x"
    then show "x < npages ?m" "x \<noteq> pgdir" "x \<notin> set (free_pages ?m)" "pp_ref ?m x \<noteq> 0"
      using t space_okD(5) [OF sp, of d x] fl by (auto simp: tab np fl' ref split: if_splits)
  next
    show "tables_inj ?m pgdir"
      using sp notin unfolding space_ok_def tables_inj_def by (auto simp: tab split: if_splits)
  next
    fix v p assume v: "v < UPAGENUM" and p: "mapped ?m pgdir v = Some p"
    have q: "p < npages m" "p \<noteq> pgdir" "p \<notin> set (free_pages m)" "\<forall>d<955. table m pgdir d \<noteq> Some p"
      using space_okD(6) [OF sp v] p map [OF v] by auto
    then show "p < npages ?m" "p \<noteq> pgdir" "p \<notin> set (free_pages ?m)" using fl by (auto simp: np fl')
    fix d assume "d < (955 :: nat)"
    then show "table ?m pgdir d \<noteq> Some p" using q fl by (auto simp: tab)
  next
    fix p
    have "map_count m pgdir t = 0" using m0 [of t] t by simp
    then show "map_count ?m pgdir p \<le> unat (pp_ref ?m p)" using m0 [of p] by (simp add: cnt ref)
  qed
  show "pgdir_walk pgdir va True m = Some (Some (t, PTX va), ?m)"
  proof -
    have alloc: "page_alloc ALLOC_ZERO m = Some (Some t, alloc_step m t True)"
      using page_alloc_Cons(1) [OF al(1) fl, of ALLOC_ZERO] by (simp add: ALLOC_ZERO_def)
    have "frames ?m pgdir (PDX va) \<noteq> 0" "PGNUM (frames ?m pgdir (PDX va)) = t"
      using table_entry t by (simp_all add: fr)
    moreover from this have "Option.bind (KADDR ?m (PTE_ADDR (frames ?m pgdir (PDX va)))) PADDR
        = Some (PTE_ADDR (frames ?m pgdir (PDX va)))"
      using kaddr_frame [of ?m] al t np by simp
    ultimately show ?thesis using z alloc
      by (auto simp: pgdir_walk_def table_step_def Let_def bind_eq_Some_conv)
  qed
qed

lemma walk_no_memory:
  assumes "space_ok m pgdir" and "table m pgdir (PDX va) = None" and "free_pages m = []"
  shows "pgdir_walk pgdir va True m = Some (None, m)"
proof -
  have "frames m pgdir (PDX va) = 0" using assms(2) by (simp add: table_def split: if_splits)
  then show ?thesis using page_alloc_empty [OF space_okD(1) [OF assms(1)] assms(3)]
    by (simp add: pgdir_walk_def)
qed

section \<open>Inserting a page\<close>

text \<open>A page that may be mapped: in use, not part of the page tables, its count not at its limit.\<close>

definition mappable :: "'a mem_scheme \<Rightarrow> nat \<Rightarrow> nat \<Rightarrow> bool" where
  "mappable m pgdir pp \<longleftrightarrow> pp < npages m \<and> pp \<noteq> pgdir \<and> pp \<notin> set (free_pages m)
     \<and> (\<forall>d<955. table m pgdir d \<noteq> Some pp) \<and> unat (pp_ref m pp) < 0xFFFF"

text \<open>Counting a page once more keeps the space.\<close>

lemma counted_same [simp]:
  "table (m\<lparr>pp_ref := r\<rparr>) = table m" "entry (m\<lparr>pp_ref := r\<rparr>) = entry m" "mapped (m\<lparr>pp_ref := r\<rparr>) = mapped m"
  "map_count (m\<lparr>pp_ref := r\<rparr>) = map_count m"
  by (auto simp: table_def entry_def mapped_def map_count_def fun_eq_iff)

lemma counted_space:
  assumes "space_ok m pgdir" and "mappable m pgdir pp"
  shows "space_ok (m\<lparr>pp_ref := (pp_ref m)(pp := pp_ref m pp + 1)\<rparr>) pgdir"
    "map_count m pgdir x + (if x = pp then 1 else 0) \<le> unat (((pp_ref m)(pp := pp_ref m pp + 1)) x)"
    "pp_ref m pp + 1 \<noteq> 0"
proof -
  let ?r = "(pp_ref m)(pp := pp_ref m pp + 1)"
  have p: "pp \<notin> set (free_pages m)" "unat (pp_ref m pp) < 0xFFFF" using assms(2) by (auto simp: mappable_def)
  have inc: "unat (pp_ref m pp + 1) = unat (pp_ref m pp) + 1" using unat_plus_1 [OF p(2)] .
  show nz: "pp_ref m pp + 1 \<noteq> 0" using inc by (metis Suc_eq_plus1 nat.distinct(1) unat_0)
  show c1: "map_count m pgdir x + (if x = pp then 1 else 0) \<le> unat (?r x)" for x
  proof -
    have "map_count m pgdir x \<le> unat (pp_ref m x)" using assms(1) by (simp add: space_ok_def)
    then show ?thesis using inc by (cases "x = pp") auto
  qed
  have "\<forall>x\<in>set (free_pages m). pp_ref m x = 0" using space_okD(1) [OF assms(1)] by (simp add: alloc_ok_def)
  then have "alloc_ok (m\<lparr>pp_ref := ?r\<rparr>)" using p by (intro alloc_ok_same(1) [OF space_okD(1) [OF assms(1)]]) auto
  moreover have "map_count m pgdir x \<le> unat (?r x)" for x using c1 [of x] by (auto split: if_splits)
  ultimately show "space_ok (m\<lparr>pp_ref := ?r\<rparr>) pgdir"
    using assms(1) nz unfolding space_ok_def tables_inj_def counted_same by (auto split: if_splits)
qed

text \<open>Insertion when the page table is there.\<close>

lemma insert_with_table:
  assumes sp: "space_ok m pgdir" and va: "va < UTOP" and t: "table m pgdir (PDX va) = Some t"
    and pp: "mappable m pgdir pp" and perm: "perm_bits perm"
  obtains m' where "page_remove pgdir va (m\<lparr>pp_ref := (pp_ref m)(pp := pp_ref m pp + 1)\<rparr>) = Some m'"
    "space_ok (set_word m' t (PTX va) (page2pa pp OR perm OR PTE_P)) pgdir"
    "\<And>v. v < UPAGENUM \<Longrightarrow> entry (set_word m' t (PTX va) (page2pa pp OR perm OR PTE_P)) pgdir v
       = (if v = PGNUM va then page2pa pp OR perm OR PTE_P else entry m pgdir v)"
    "pp_ref m' = (let r = (pp_ref m)(pp := pp_ref m pp + 1) in
       case mapped m pgdir (PGNUM va) of None \<Rightarrow> r | Some q \<Rightarrow> r(q := r q - 1))"
    "npages m' = npages m" "set (free_pages m') \<subseteq> set (free_pages m) \<union> {q. mapped m pgdir (PGNUM va) = Some q \<and> q \<noteq> pp}"
proof -
  let ?r = "(pp_ref m)(pp := pp_ref m pp + 1)"
  let ?m1 = "m\<lparr>pp_ref := ?r\<rparr>" and ?w = "page2pa pp OR perm OR PTE_P"
  have v: "PGNUM va < UPAGENUM" using va by (simp add: user_page)
  have p: "pp < npages m" "pp \<noteq> pgdir" "pp \<notin> set (free_pages m)" "\<forall>d<955. table m pgdir d \<noteq> Some pp"
    "unat (pp_ref m pp) < 0xFFFF" using pp by (auto simp: mappable_def)
  have pg: "PGNUM ?w = pp" "?w \<noteq> 0"
    using PGNUM_entry [of "perm OR PTE_P" pp] perm p(1) space_okD(4) [OF sp] bit0_flag
    by (auto simp: perm_bits_or)
  have fp1: "free_pages ?m1 = free_pages m" "table ?m1 = table m" "entry ?m1 = entry m" "mapped ?m1 = mapped m"
    "map_count ?m1 = map_count m" by simp_all
  note sp1 = counted_space(1) [OF sp pp] and c1 = counted_space(2) [OF sp pp] and nz = counted_space(3) [OF sp pp]
  show thesis
  proof (cases "mapped m pgdir (PGNUM va)")
    case None
    have rm: "page_remove pgdir va ?m1 = Some ?m1"
      using page_remove_absent [OF sp1 va] None fp1 by simp
    let ?m2 = "set_word ?m1 t (PTX va) ?w"
    have fr: "frames ?m2 = (frames ?m1)(t := (frames ?m1 t)(PTX va := ?w))" by (simp add: set_word_def)
    have t1: "table ?m1 pgdir (PDX va) = Some t" using t fp1 by simp
    have ent: "entry ?m2 pgdir u = (if u = PGNUM va then ?w else entry m pgdir u)" if "u < UPAGENUM" for u
      using entry_set_word(1) [OF sp1 va t1 that fr] fp1 by simp
    have tab: "table ?m2 pgdir d = table ?m1 pgdir d" for d using entry_set_word(2) [OF sp1 va t1 v fr] .
    have map: "mapped ?m2 pgdir u = (if u = PGNUM va then Some pp else mapped ?m1 pgdir u)" if "u < UPAGENUM" for u
      using that pg by (simp add: mapped_entry ent fp1)
    have cnt: "map_count ?m2 pgdir x \<le> unat (pp_ref ?m2 x)" for x
      using map_count_update [of ?m2 pgdir "PGNUM va" "Some pp" ?m1 x, OF map v] c1 [of x] None
      by (auto simp: fp1 set_word_def split: if_splits)
    have "space_ok ?m2 pgdir"
      using p space_okD(5,6) [OF sp1] sp1 by (intro space_ok_change [OF sp1 v _ tab map] cnt)
        (auto simp: set_word_def fp1 dest: space_okD)
    with rm ent None show thesis by (intro that [of ?m1]) auto
  next
    case (Some q)
    have mp1: "mapped ?m1 pgdir (PGNUM va) = Some q" and t1: "table ?m1 pgdir (PDX va) = Some t"
      using Some t fp1 by simp_all
    obtain m2 where m2: "page_remove pgdir va ?m1 = Some m2" "unmapped ?m1 pgdir va t q m2"
      using page_remove_mapped [OF sp1 va mp1 t1] .
    note un = unmapped_space [OF sp1 va mp1 t1 m2(2)]
    note u = m2(2) [unfolded unmapped_def]
    have t2: "table m2 pgdir (PDX va) = Some t" using un(3) t1 by simp
    have none2: "mapped m2 pgdir (PGNUM va) = None" using un(2) [OF v] by (simp add: mapped_entry)
    have q0: "pp_ref m q \<noteq> 0" using mapped_ref(1) [OF sp v Some] .
    have free2: "pp \<notin> set (free_pages m2)" "set (free_pages m2) \<subseteq> set (free_pages m) \<union> {x. x = q \<and> q \<noteq> pp}"
      using u p q0 fp1 by (auto split: if_splits)
    let ?m3 = "set_word m2 t (PTX va) ?w"
    have fr: "frames ?m3 = (frames m2)(t := (frames m2 t)(PTX va := ?w))" by (simp add: set_word_def)
    have ent: "entry ?m3 pgdir x = (if x = PGNUM va then ?w else entry m pgdir x)" if "x < UPAGENUM" for x
      using entry_set_word(1) [OF un(1) va t2 that fr] un(2) [OF that] fp1 by simp
    have tab: "table ?m3 pgdir d = table m2 pgdir d" for d using entry_set_word(2) [OF un(1) va t2 v fr] .
    have map: "mapped ?m3 pgdir x = (if x = PGNUM va then Some pp else mapped m2 pgdir x)" if "x < UPAGENUM" for x
      using that pg un(2) [OF that] by (simp add: mapped_entry ent fp1)
    have r2: "pp_ref m2 = ?r(q := ?r q - 1)" using u by simp
    have cnt2: "map_count m2 pgdir x + (if x = pp then 1 else 0) \<le> unat (pp_ref m2 x)" for x
    proof (cases "x = q")
      case True
      have "?r q \<noteq> 0" using q0 nz by simp
      then have "unat (pp_ref m2 q) = unat (?r q) - 1" using r2 unat_minus_1 by simp
      then show ?thesis using un(4) c1 [of q] True fp1 by auto
    next
      case False
      then show ?thesis using un(5) [OF False] c1 [of x] r2 fp1 by auto
    qed
    have cnt: "map_count ?m3 pgdir x \<le> unat (pp_ref ?m3 x)" for x
      using map_count_update [of ?m3 pgdir "PGNUM va" "Some pp" m2 x, OF map v] cnt2 [of x] none2
      by (auto simp: set_word_def split: if_splits)
    have "space_ok ?m3 pgdir"
      using p free2 space_okD [OF un(1)] u by (intro space_ok_change [OF un(1) v _ tab map] cnt)
        (auto simp: set_word_def un(3) fp1)
    with m2(1) ent r2 free2 Some u show thesis by (intro that [of m2]) auto
  qed
qed

text \<open>Inserting where nothing is mapped, whatever the permissions: one word and one count.\<close>

lemma page_insert_unmapped:
  assumes sp: "space_ok m pgdir" and va: "va < UTOP" and t: "table m pgdir (PDX va) = Some t"
    and pp: "mappable m pgdir pp" and none: "mapped m pgdir (PGNUM va) = None"
  shows "page_insert pgdir pp va perm m = Some (0,
    set_word (m\<lparr>pp_ref := (pp_ref m)(pp := pp_ref m pp + 1)\<rparr>) t (PTX va) (page2pa pp OR perm OR PTE_P))"
  using walk_found [OF sp va t] page_remove_absent [OF counted_space(1) [OF sp pp] va] none
  by (simp add: page_insert_def)

lemma mappable_table_step:
  assumes "space_ok m pgdir" and "va < UTOP" and "table m pgdir (PDX va) = None" and "free_pages m = t # ts"
    and "mappable m pgdir pp"
  shows "mappable (table_step m pgdir va t) pgdir pp"
  using assms walk_creates(4-7) [OF assms(1-4)] by (auto simp: mappable_def)

text \<open>The result of \<open>page_insert\<close>: no memory for the table, or the page is mapped and counted.\<close>

definition inserted :: "'a mem_scheme \<Rightarrow> nat \<Rightarrow> nat \<Rightarrow> u32w \<Rightarrow> u32w \<Rightarrow> 'a mem_scheme \<Rightarrow> bool" where
  "inserted m pgdir pp va perm m' \<longleftrightarrow> space_ok m' pgdir \<and> npages m' = npages m
     \<and> (\<forall>v<UPAGENUM. entry m' pgdir v = (if v = PGNUM va then page2pa pp OR perm OR PTE_P else entry m pgdir v))
     \<and> pp_ref m' pp = (if mapped m pgdir (PGNUM va) = Some pp then pp_ref m pp else pp_ref m pp + 1)
     \<and> (\<forall>q. q \<noteq> pp \<and> mapped m pgdir (PGNUM va) = Some q \<longrightarrow> pp_ref m' q = pp_ref m q - 1)
     \<and> (\<forall>q. q \<noteq> pp \<and> mapped m pgdir (PGNUM va) \<noteq> Some q \<and> q \<notin> set (free_pages m) \<longrightarrow> pp_ref m' q = pp_ref m q)
     \<and> set (free_pages m') \<subseteq> set (free_pages m) \<union> {q. mapped m pgdir (PGNUM va) = Some q \<and> q \<noteq> pp}"

lemma page_insert_user:
  assumes sp: "space_ok m pgdir" and va: "va < UTOP" and pp: "mappable m pgdir pp" and perm: "perm_bits perm"
  shows "if table m pgdir (PDX va) = None \<and> free_pages m = []
    then page_insert pgdir pp va perm m = Some (- E_NO_MEM, m)
    else \<exists>m'. page_insert pgdir pp va perm m = Some (0, m') \<and> inserted m pgdir pp va perm m'"
proof (cases "table m pgdir (PDX va)")
  case (Some t)
  obtain m' where m': "page_remove pgdir va (m\<lparr>pp_ref := (pp_ref m)(pp := pp_ref m pp + 1)\<rparr>) = Some m'"
    "space_ok (set_word m' t (PTX va) (page2pa pp OR perm OR PTE_P)) pgdir"
    "\<And>v. v < UPAGENUM \<Longrightarrow> entry (set_word m' t (PTX va) (page2pa pp OR perm OR PTE_P)) pgdir v
       = (if v = PGNUM va then page2pa pp OR perm OR PTE_P else entry m pgdir v)"
    "pp_ref m' = (let r = (pp_ref m)(pp := pp_ref m pp + 1) in
       case mapped m pgdir (PGNUM va) of None \<Rightarrow> r | Some q \<Rightarrow> r(q := r q - 1))" "npages m' = npages m"
    "set (free_pages m') \<subseteq> set (free_pages m) \<union> {q. mapped m pgdir (PGNUM va) = Some q \<and> q \<noteq> pp}"
    by (rule insert_with_table [OF sp va Some pp perm]) blast
  have "page_insert pgdir pp va perm m = Some (0, set_word m' t (PTX va) (page2pa pp OR perm OR PTE_P))"
    using walk_found [OF sp va Some] m'(1) by (simp add: page_insert_def Let_def)
  moreover have "inserted m pgdir pp va perm (set_word m' t (PTX va) (page2pa pp OR perm OR PTE_P))"
    using m'(2-6) by (auto simp: inserted_def Let_def set_word_def split: option.splits)
  ultimately show ?thesis using Some by auto
next
  case None
  show ?thesis
  proof (cases "free_pages m")
    case Nil
    then show ?thesis using walk_no_memory [OF sp None] None by (simp add: page_insert_def)
  next
    case (Cons t ts)
    let ?m = "table_step m pgdir va t"
    note w = walk_creates [OF sp va None Cons]
    note mp = mappable_table_step [OF sp va None Cons pp]
    have t: "table ?m pgdir (PDX va) = Some t" using w(4) by simp
    have v: "PGNUM va < UPAGENUM" using va by (simp add: user_page)
    have none: "mapped m pgdir (PGNUM va) = None" using None by (simp add: mapped_def entry_pte)
    then have none1: "mapped ?m pgdir (PGNUM va) = None" using w(3) [OF v] by (simp add: mapped_entry split: if_splits)
    have ppt: "pp \<noteq> t" using pp Cons by (auto simp: mappable_def)
    obtain m' where m': "page_remove pgdir va (?m\<lparr>pp_ref := (pp_ref ?m)(pp := pp_ref ?m pp + 1)\<rparr>) = Some m'"
      "space_ok (set_word m' t (PTX va) (page2pa pp OR perm OR PTE_P)) pgdir"
      "\<And>v. v < UPAGENUM \<Longrightarrow> entry (set_word m' t (PTX va) (page2pa pp OR perm OR PTE_P)) pgdir v
         = (if v = PGNUM va then page2pa pp OR perm OR PTE_P else entry ?m pgdir v)"
      "pp_ref m' = (let r = (pp_ref ?m)(pp := pp_ref ?m pp + 1) in
         case mapped ?m pgdir (PGNUM va) of None \<Rightarrow> r | Some q \<Rightarrow> r(q := r q - 1))" "npages m' = npages ?m"
      "set (free_pages m') \<subseteq> set (free_pages ?m) \<union> {q. mapped ?m pgdir (PGNUM va) = Some q \<and> q \<noteq> pp}"
      by (rule insert_with_table [OF w(2) va t mp perm]) blast
    have "page_insert pgdir pp va perm m = Some (0, set_word m' t (PTX va) (page2pa pp OR perm OR PTE_P))"
      using w(1) m'(1) by (simp add: page_insert_def Let_def)
    moreover have "inserted m pgdir pp va perm (set_word m' t (PTX va) (page2pa pp OR perm OR PTE_P))"
      using m'(2-6) w(3,5-7) none none1 ppt Cons
      by (auto simp: inserted_def Let_def set_word_def)
    ultimately show ?thesis using Cons by auto
  qed
qed

lemma inserted_lookup:
  assumes "inserted m pgdir pp va perm m'" and "va < UTOP" and "pp < npages m" and "perm_bits perm"
  shows "\<exists>p. page_lookup pgdir va m' = Some (Some (pp, p)) \<and> pte_at m' p = page2pa pp OR perm OR PTE_P"
proof -
  let ?w = "page2pa pp OR perm OR PTE_P"
  have v: "PGNUM va < UPAGENUM" using assms(2) by (simp add: user_page)
  have sp: "space_ok m' pgdir" and e: "entry m' pgdir (PGNUM va) = ?w" and np: "npages m' = npages m"
    using assms(1) v by (auto simp: inserted_def)
  have w: "?w \<noteq> 0" "PGNUM ?w = pp"
    using bit0_flag PGNUM_entry [of "perm OR PTE_P" pp] assms(3,4) space_okD(4) [OF sp] np
    by (auto simp: perm_bits_or)
  then have "mapped m' pgdir (PGNUM va) = Some pp" using e by (simp add: mapped_def)
  moreover obtain t where "table m' pgdir (PDX va) = Some t" "pte_at m' (t, PTX va) = ?w"
    using e w(1) by (auto simp: entry_pte split: option.splits)
  ultimately show ?thesis using page_lookup_user [OF sp assms(2)] by auto
qed

section \<open>Checking user pointers\<close>

lemma PGNUM_next: "va < UTOP \<Longrightarrow> PGNUM (va + PGSIZE) = Suc (PGNUM va)"
  by (simp add: PGNUM_nat unat_next_page)

definition allows :: "'a mem_scheme \<Rightarrow> nat \<Rightarrow> u32w \<Rightarrow> nat \<Rightarrow> bool" where
  "allows m pgdir perm v \<longleftrightarrow> entry m pgdir v AND (perm OR PTE_P) = perm OR PTE_P"

lemma user_mem_loop_ok:
  assumes sp: "space_ok m pgdir" and hi: "va_hi \<le> UTOP" and al: "unat va_hi mod 4096 = 0" "unat va_act mod 4096 = 0"
  shows "if \<forall>v. PGNUM va_act \<le> v \<and> v < PGNUM va_hi \<longrightarrow> allows m pgdir perm v
    then user_mem_loop pgdir va_act va_lo va_hi perm m = Some (0, m)
    else \<exists>a. user_mem_loop pgdir va_act va_lo va_hi perm m = Some (- E_FAULT, m\<lparr>user_mem_check_addr := max a va_lo\<rparr>)
      \<and> PGNUM va_act \<le> PGNUM a \<and> PGNUM a < PGNUM va_hi \<and> \<not> allows m pgdir perm (PGNUM a)
      \<and> (\<forall>v. PGNUM va_act \<le> v \<and> v < PGNUM a \<longrightarrow> allows m pgdir perm v)"
  using sp hi al
proof (induction pgdir va_act va_lo va_hi perm m rule: user_mem_loop.induct)
  case (1 pgdir va_act va_lo va_hi perm m)
  have page_lt: "va_act < va_hi \<longleftrightarrow> PGNUM va_act < PGNUM va_hi"
  proof -
    have "va_act < va_hi \<longleftrightarrow> unat va_act div 4096 * 4096 < unat va_hi div 4096 * 4096"
      using 1(4,5) by (simp add: word_less_nat_alt minus_mod_eq_div_mult [symmetric])
    then show ?thesis by (simp add: PGNUM_nat)
  qed
  show ?case
  proof (cases "va_act < va_hi")
    case False
    then have "user_mem_loop pgdir va_act va_lo va_hi perm m = Some (0, m)"
      by (subst user_mem_loop.simps) simp
    then show ?thesis using False page_lt by auto
  next
    case True
    then have user: "va_act < UTOP" using 1(3) by simp
    have nz: "perm OR PTE_P \<noteq> 0" using bit0_flag [of 0 perm] by simp
    have bad: "(case map_option (\<lambda>t. (t, PTX va_act)) (table m pgdir (PDX va_act)) of None \<Rightarrow> True
        | Some p \<Rightarrow> pte_at m p AND (perm OR PTE_P) \<noteq> perm OR PTE_P) \<longleftrightarrow> \<not> allows m pgdir perm (PGNUM va_act)"
      using nz by (auto simp: allows_def entry_pte split: option.splits)
    have step: "user_mem_loop pgdir va_act va_lo va_hi perm m =
        (if \<not> allows m pgdir perm (PGNUM va_act)
         then Some (- E_FAULT, m\<lparr>user_mem_check_addr := (if va_act > va_lo then va_act else va_lo)\<rparr>)
         else user_mem_loop pgdir (va_act + PGSIZE) va_lo va_hi perm m)"
      using True 1(3) by (subst user_mem_loop.simps) (simp only: walk_user [OF 1(2) user] bind.bind_lunit prod.case bad if_True simp_thms)
    note nxt = PGNUM_next [OF user]
    have al2: "unat (va_act + PGSIZE) mod 4096 = 0" using 1(5) by (simp add: unat_next_page [OF user])
    show ?thesis
    proof (cases "allows m pgdir perm (PGNUM va_act)")
      case False
      have "max va_act va_lo = (if va_act > va_lo then va_act else va_lo)" by (auto simp: max_def)
      then show ?thesis using False step True page_lt by (auto intro!: exI [of _ va_act])
    next
      case ok: True
      have all: "(\<forall>v. PGNUM va_act \<le> v \<and> v < h \<longrightarrow> allows m pgdir perm v)
          \<longleftrightarrow> (\<forall>v. Suc (PGNUM va_act) \<le> v \<and> v < h \<longrightarrow> allows m pgdir perm v)" for h
        using ok by (metis Suc_leI le_neq_implies_less Suc_leD)
      have IH: "if \<forall>v. Suc (PGNUM va_act) \<le> v \<and> v < PGNUM va_hi \<longrightarrow> allows m pgdir perm v
        then user_mem_loop pgdir (va_act + PGSIZE) va_lo va_hi perm m = Some (0, m)
        else \<exists>a. user_mem_loop pgdir (va_act + PGSIZE) va_lo va_hi perm m
            = Some (- E_FAULT, m\<lparr>user_mem_check_addr := max a va_lo\<rparr>)
          \<and> Suc (PGNUM va_act) \<le> PGNUM a \<and> PGNUM a < PGNUM va_hi \<and> \<not> allows m pgdir perm (PGNUM a)
          \<and> (\<forall>v. Suc (PGNUM va_act) \<le> v \<and> v < PGNUM a \<longrightarrow> allows m pgdir perm v)"
        using "1.IH" [unfolded nxt] True 1(2-4) al2 walk_user [OF 1(2) user] bad ok by auto
      show ?thesis using IH unfolding all step using ok by (auto split: if_splits)
    qed
  qed
qed

lemma ROUNDDOWN_nat: "unat (ROUNDDOWN a PGSIZE) = unat a div 4096 * 4096"
proof -
  have "unat (a mod PGSIZE) = unat a mod 4096" by (simp add: unat_mod_distrib PGSIZE_def)
  moreover have "a mod PGSIZE \<le> a" using \<open>unat (a mod PGSIZE) = unat a mod 4096\<close>
    by (simp add: word_le_nat_alt)
  ultimately have "unat (a - a mod PGSIZE) = unat a - unat a mod 4096" by (simp add: unat_sub)
  then show ?thesis unfolding ROUNDDOWN_def by (simp only: minus_mod_eq_div_mult)
qed

lemma PGNUM_ROUNDDOWN [simp]: "PGNUM (ROUNDDOWN a PGSIZE) = PGNUM a"
  by (simp add: PGNUM_nat ROUNDDOWN_nat)

lemma ROUNDUP_nat:
  assumes "unat a + 4095 < 2 ^ 32"
  shows "unat (ROUNDUP a PGSIZE) = (unat a + 4095) div 4096 * 4096"
proof -
  have "unat a + unat (4095 :: u32w) < 2 ^ LENGTH(32)" using assms by simp
  then have "unat (a + 4095) = unat a + unat (4095 :: u32w)" by (rule unat_add_lem [THEN iffD1])
  moreover have "a + PGSIZE - 1 = a + 4095" by (simp add: PGSIZE_def)
  ultimately show ?thesis by (simp only: ROUNDUP_def ROUNDDOWN_nat) simp
qed

text \<open>The pages a range of \<open>len\<close> bytes from \<open>va\<close> touches, when it does not wrap around.\<close>

lemma user_mem_check_range:
  assumes sp: "space_ok m pgdir" and nowrap: "unat va + unat len + 4095 < 2 ^ 32"
  shows "(\<exists>m'. user_mem_check pgdir va len perm m = Some (0, m')) \<longleftrightarrow>
    (unat va + unat len + 4095) div 4096 * 4096 \<le> unat UTOP
    \<and> (\<forall>v. unat va div 4096 \<le> v \<and> v * 4096 < unat va + unat len \<longrightarrow> allows m pgdir perm v)"
proof -
  have "unat va + unat len < 2 ^ LENGTH(32)" using nowrap by simp
  then have sum: "unat (va + len) = unat va + unat len" by (rule unat_add_lem [THEN iffD1])
  let ?hi = "ROUNDUP (va + len) PGSIZE"
  have hi: "unat ?hi = (unat va + unat len + 4095) div 4096 * 4096"
    using ROUNDUP_nat [of "va + len"] nowrap sum by simp
  have in_range: "v < PGNUM ?hi \<longleftrightarrow> v * 4096 < unat va + unat len" for v
    by (simp add: PGNUM_nat hi) linarith
  show ?thesis
  proof (cases "?hi > UTOP")
    case True
    then show ?thesis by (simp add: user_mem_check_def E_FAULT_def hi [symmetric] word_less_nat_alt)
  next
    case False
    then have le: "?hi \<le> UTOP" by simp
    note loop = user_mem_loop_ok [OF sp le, of "ROUNDDOWN va PGSIZE" perm va]
    have "(\<exists>m'. user_mem_loop pgdir (ROUNDDOWN va PGSIZE) va ?hi perm m = Some (0, m')) \<longleftrightarrow>
        (\<forall>v. PGNUM va \<le> v \<and> v < PGNUM ?hi \<longrightarrow> allows m pgdir perm v)"
      using loop by (auto simp: hi ROUNDDOWN_nat E_FAULT_def split: if_splits)
    then show ?thesis using False le
      by (simp add: user_mem_check_def in_range hi [symmetric] word_le_nat_alt) (simp add: PGNUM_nat)
  qed
qed

end
