(* ===== verification/Kern_Props.thy ===== *)
theory Kern_Props
  imports Kern_Vm
begin

text \<open>
  What the memory of the kernel promises: the free list that \<open>page_init\<close> builds, the round
  trips of the allocator and of a mapping, the effect of \<open>page_insert\<close> on the whole address
  space, and what \<open>user_mem_check\<close> accepts.
\<close>

section \<open>The free list\<close>

definition free_from :: "nat \<Rightarrow> nat list \<Rightarrow> nat list" where
  "free_from k is = rev (filter (\<lambda>i. \<not> page_reserved k i) is)"

text \<open>The loop keeps a proper list of the pages it has put there; it ignores old links of pages ahead.\<close>

lemma page_init_loop_ok:
  assumes "chain (pp_link m) (page_free_list m) xs" and "distinct (is @ xs)"
    and "\<forall>p\<in>set xs. pp_ref m p = 0" and "\<forall>p. p \<notin> set xs \<and> p \<notin> set is \<longrightarrow> pp_link m p = None"
  shows "let m' = page_init_loop k is m; ys = free_from k is @ xs in
    chain (pp_link m') (page_free_list m') ys \<and> npages m' = npages m \<and> (\<forall>p\<in>set ys. pp_ref m' p = 0)
    \<and> (\<forall>p. p \<notin> set ys \<longrightarrow> pp_link m' p = None) \<and> frames m' = frames m"
  using assms
proof (induction k "is" m arbitrary: xs rule: page_init_loop.induct)
  case (1 k m)
  then show ?case by (simp add: free_from_def)
next
  case (2 k i "is" m)
  let ?m = "m\<lparr>pp_link := (pp_link m)(i := None)\<rparr>"
  have i: "i \<notin> set xs" "i \<notin> set is" using 2(4) by auto
  have ch: "chain ((pp_link m)(i := l)) (page_free_list m) xs" for l
    using 2(3) i(1) by (subst chain_cong [of _ _ "pp_link m"]) auto
  have ch0: "chain ((pp_link m)(i := None)) (page_free_list m) xs" by (rule ch)
  show ?case
  proof (cases "page_reserved k i")
    case True
    have "distinct (is @ xs)" "\<forall>p. p \<notin> set xs \<and> p \<notin> set is \<longrightarrow> pp_link ?m p = None" using 2(4,6) by auto
    then show ?thesis using "2.IH"(1) [OF refl True, of xs] ch0 2(5) True by (simp add: Let_def free_from_def fun_upd_def)
  next
    case False
    let ?n = "?m\<lparr>pp_link := (pp_link ?m)(i := page_free_list ?m), pp_ref := (pp_ref ?m)(i := 0), page_free_list := Some i\<rparr>"
    have "chain (pp_link ?n) (page_free_list ?n) (i # xs)" using ch by (simp only: mem.simps chain.simps fun_upd_upd) simp
    moreover have "distinct (is @ i # xs)" using 2(4) by auto
    moreover have "\<forall>p\<in>set (i # xs). pp_ref ?n p = 0" using 2(5) by simp
    moreover have "\<forall>p. p \<notin> set (i # xs) \<and> p \<notin> set is \<longrightarrow> pp_link ?n p = None" using 2(6) by simp
    ultimately have IH: "let m' = page_init_loop k is ?n; ys = free_from k is @ i # xs in
        chain (pp_link m') (page_free_list m') ys \<and> npages m' = npages ?n \<and> (\<forall>p\<in>set ys. pp_ref m' p = 0)
        \<and> (\<forall>p. p \<notin> set ys \<longrightarrow> pp_link m' p = None) \<and> frames m' = frames ?n"
      by (rule "2.IH"(2) [OF refl False])
    have "page_init_loop k (i # is) m = page_init_loop k is ?n" "free_from k (i # is) @ xs = free_from k is @ i # xs"
      using False by (simp_all add: Let_def free_from_def)
    with IH show ?thesis by (simp add: Let_def)
  qed
qed

section \<open>An example memory\<close>

text \<open>Sixteen frames: 3 and 4 are free, 2 is an empty page directory, 5 is in use and unmapped.\<close>

definition small_mem :: mem where
  "small_mem = \<lparr>npages = 16, npages_basemem = 16, pp_ref = (\<lambda>_. 0), pp_link = (\<lambda>_. None)(3 := Some 4),
     page_free_list = Some 3, frames = (\<lambda>_ _. 0), kern_pgdir = 1, curenv_pgdir = None, invalidated = [],
     user_mem_check_addr = 0, mmio_base = MMIOBASE, nextfree = 0\<rparr>"

lemma small_ok: "alloc_ok small_mem" "free_pages small_mem = [3, 4]"
proof -
  have "chain (pp_link small_mem) (page_free_list small_mem) [3, 4]" by (simp add: small_mem_def)
  then show "alloc_ok small_mem" "free_pages small_mem = [3, 4]"
    by (rule alloc_okI [rotated]; auto simp: small_mem_def)+
qed

lemma small_space: "space_ok small_mem 2"
proof -
  have "table small_mem 2 d = None" for d by (simp add: table_def small_mem_def)
  then have "entry small_mem 2 v = 0" for v by (simp add: entry_def)
  then have "mapped small_mem 2 v = None" for v by (simp add: mapped_entry)
  then show ?thesis using small_ok \<open>\<And>d. table small_mem 2 d = None\<close>
    by (simp add: space_ok_def tables_inj_def map_count_def) (simp add: small_mem_def)
qed

lemma small_mappable: "mappable small_mem 2 5"
  by (simp add: mappable_def small_ok table_def) (simp add: small_mem_def)

section \<open>Properties\<close>



text \<open>Allocating a page takes the head of the free list (cleared if asked for, never one
  still on the list), fails without a change only when the list is empty, and freeing the page that
  was just allocated gives back the same free list.\<close>

theorem page_alloc_free:
  assumes "alloc_ok m"
  shows "if free_pages m = [] then page_alloc fl m = Some (None, m)
    else \<exists>p m1 m2. page_alloc fl m = Some (Some p, m1) \<and> alloc_ok m1 \<and> free_pages m = p # free_pages m1
      \<and> p \<notin> set (free_pages m1) \<and> pp_ref m1 p = 0 \<and> (odd fl \<longrightarrow> frames m1 p = (\<lambda>_. 0))
      \<and> (\<forall>q. q \<noteq> p \<longrightarrow> frames m1 q = frames m q)
      \<and> page_free p m1 = Some m2 \<and> alloc_ok m2 \<and> free_pages m2 = free_pages m"
proof (cases "free_pages m")
  case Nil
  then show ?thesis using page_alloc_empty [OF assms] by simp
next
  case (Cons p ps)
  note a = page_alloc_Cons [OF assms Cons]
  obtain m2 where m2: "page_free p (alloc_step m p (odd fl)) = Some m2" "alloc_ok m2" "free_pages m2 = free_pages m"
    using pages.alloc_release [OF assms a(1)] by blast
  have "pp_ref m p = 0" "p \<notin> set ps" using assms Cons by (auto simp: alloc_ok_def)
  then show ?thesis using a m2 Cons
    by (simp, intro exI [of _ m2] conjI) (auto simp: alloc_step_def)
qed

theorem page_alloc_free_witness:
  "\<exists>p m1 m2. page_alloc 1 small_mem = Some (Some p, m1) \<and> page_free p m1 = Some m2 \<and> free_pages m2 = [3, 4]"
  using page_alloc_free [OF small_ok(1), of 1] small_ok(2) by auto

text \<open>C9: \<open>page_insert\<close> of a page in use at a user address either maps it, with exactly the permissions
  asked for and the present bit, counts it once more (not at all if it was mapped there already),
  uncounts the page that was mapped there and leaves every other mapping and count alone; or, only when a
  page table is missing and no page is free, returns \<open>-E_NO_MEM\<close> and changes nothing. The lookup
  then finds the page.\<close>

theorem page_insert_maps:
  assumes "space_ok m pgdir" and "va < UTOP" and "mappable m pgdir pp" and "perm_bits perm"
  shows "if table m pgdir (PDX va) = None \<and> free_pages m = []
    then page_insert pgdir pp va perm m = Some (- E_NO_MEM, m)
    else \<exists>m' p. page_insert pgdir pp va perm m = Some (0, m') \<and> inserted m pgdir pp va perm m'
      \<and> page_lookup pgdir va m' = Some (Some (pp, p)) \<and> pte_at m' p = page2pa pp OR perm OR PTE_P"
  using page_insert_user [OF assms] inserted_lookup [OF _ assms(2) _ assms(4), of m pgdir pp] assms(3)
  by (auto simp: mappable_def)

theorem page_insert_maps_witness:
  "\<exists>m' p. page_insert 2 5 0x400000 (PTE_W OR PTE_U) small_mem = Some (0, m')
    \<and> page_lookup 2 0x400000 m' = Some (Some (5, p)) \<and> pte_at m' p = page2pa 5 OR (PTE_W OR PTE_U) OR PTE_P"
  using page_insert_maps [OF small_space _ small_mappable, of "0x400000" "PTE_W OR PTE_U"] small_ok(2)
  by (auto simp: UTOP_value perm_bits_or)

text \<open>C10: Mapping a page where nothing is mapped and removing the mapping gives back every
  mapping and the page's count; the page is free afterwards exactly when nothing else refers to it.\<close>

theorem insert_then_remove:
  assumes "space_ok m pgdir" and "va < UTOP" and "mappable m pgdir pp" and "perm_bits perm"
    and "mapped m pgdir (PGNUM va) = None" and "table m pgdir (PDX va) \<noteq> None \<or> free_pages m \<noteq> []"
  shows "\<exists>m1 m2. page_insert pgdir pp va perm m = Some (0, m1) \<and> page_remove pgdir va m1 = Some m2
    \<and> space_ok m2 pgdir \<and> (\<forall>v<UPAGENUM. mapped m2 pgdir v = mapped m pgdir v)
    \<and> pp_ref m2 pp = pp_ref m pp \<and> (pp \<in> set (free_pages m2) \<longleftrightarrow> pp_ref m pp = 0)"
proof -
  obtain m1 where m1: "page_insert pgdir pp va perm m = Some (0, m1)" "inserted m pgdir pp va perm m1"
    using page_insert_user [OF assms(1-4)] assms(6) by auto
  let ?w = "page2pa pp OR perm OR PTE_P"
  have v: "PGNUM va < UPAGENUM" using assms(2) by (simp add: user_page)
  note i = m1(2) [unfolded inserted_def]
  have w: "?w \<noteq> 0" "PGNUM ?w = pp"
    using bit0_flag PGNUM_entry [of "perm OR PTE_P" pp] assms(3,4) space_okD(4) [OF assms(1)]
    by (auto simp: perm_bits_or mappable_def)
  have e1: "entry m1 pgdir u = (if u = PGNUM va then ?w else entry m pgdir u)" if "u < UPAGENUM" for u
    using i that by blast
  have mp: "mapped m1 pgdir (PGNUM va) = Some pp" using e1 [OF v] w by (simp add: mapped_def)
  obtain t where t: "table m1 pgdir (PDX va) = Some t" using e1 [OF v] w(1) by (auto simp: entry_pte split: option.splits)
  have sp1: "space_ok m1 pgdir" using i by blast
  obtain m2 where m2: "page_remove pgdir va m1 = Some m2" "unmapped m1 pgdir va t pp m2"
    by (rule page_remove_mapped [OF sp1 assms(2) mp t])
  note u = unmapped_space [OF sp1 assms(2) mp t m2(2)]
  have "mapped m2 pgdir x = mapped m pgdir x" if "x < UPAGENUM" for x
    using assms(5) u(2) [OF that] e1 [OF that] by (simp add: mapped_def split: if_splits)
  moreover have ref: "pp_ref m1 pp = pp_ref m pp + 1" using i assms(5) by simp
  moreover have "pp_ref m2 pp = pp_ref m pp" using m2(2) ref by (simp add: unmapped_def)
  moreover have "pp \<in> set (free_pages m2) \<longleftrightarrow> pp_ref m pp = 0"
    using m2(2) ref space_okD(6) [OF sp1 v mp] by (auto simp: unmapped_def)
  ultimately show ?thesis using m1(1) m2(1) u(1) by blast
qed

theorem insert_then_remove_witness:
  "\<exists>m1 m2. page_insert 2 5 0x400000 PTE_U small_mem = Some (0, m1) \<and> page_remove 2 0x400000 m1 = Some m2
    \<and> 5 \<in> set (free_pages m2)"
proof -
  have "mapped small_mem 2 (PGNUM 0x400000) = None" by (simp add: mapped_def entry_def table_def small_mem_def)
  moreover have "pp_ref small_mem 5 = 0" by (simp add: small_mem_def)
  ultimately show ?thesis
    using insert_then_remove [OF small_space _ small_mappable, of "0x400000" PTE_U] small_ok(2)
    by (auto simp: UTOP_value)
qed



text \<open>When the end of the range wraps around zero, \<open>user_mem_check\<close> looks at no page and accepts: a
  range that covers the whole kernel passes, whatever is mapped and whatever is asked for.\<close>

theorem user_mem_check_wraps:
  assumes "ROUNDUP (va + len) PGSIZE \<le> ROUNDDOWN va PGSIZE" and "ROUNDUP (va + len) PGSIZE \<le> UTOP"
  shows "user_mem_check pgdir va len perm m = Some (0, m)"
proof -
  have "\<not> ROUNDDOWN va PGSIZE < ROUNDUP (va + len) PGSIZE" "\<not> ROUNDUP (va + len) PGSIZE > UTOP" using assms by auto
  then show ?thesis by (simp add: user_mem_check_def Let_def user_mem_loop.simps)
qed

theorem user_mem_check_wraps_witness:
  "user_mem_check 2 0xF0000000 0x10000000 (PTE_W OR PTE_U) small_mem = Some (0, small_mem)"
  by (rule user_mem_check_wraps) (simp_all add: ROUNDUP_def ROUNDDOWN_def PGSIZE_def UTOP_value)

end
