(* ===== verification/Console.thy ===== *)
theory Console
  imports Prelude
begin

text \<open>
  The console of the kernel, \<open>kern/console.c\<close>: serial line, parallel port, text display and keyboard,
  and the ring buffer where input waits. The devices are their observable sides: the bytes the
  keyboard controller and the serial line have pending, and the bytes written to the two ports.
\<close>

section \<open>State\<close>

definition CONSBUFSIZE :: nat where "CONSBUFSIZE = 512"
definition CRT_ROWS :: nat where "CRT_ROWS = 25"
definition CRT_COLS :: nat where "CRT_COLS = 80"
definition CRT_SIZE :: nat where "CRT_SIZE = CRT_ROWS * CRT_COLS"

text \<open>
  A pending byte of the keyboard controller carries the \<open>KBS_TERR\<close> bit of the status: an error,
  or data of the mouse. \<open>kbd_shift\<close> is the static \<open>shift\<close> of \<open>kbd_proc_data\<close>.
\<close>

record console =
  crt_buf :: "nat \<Rightarrow> u16w"
  crt_pos :: nat
  serial_exists :: bool
  kbd_shift :: u32w
  cons_buf :: "nat \<Rightarrow> u8w"
  cons_rpos :: nat
  cons_wpos :: nat
  kbd_pending :: "(bool \<times> u8w) list"
  ser_pending :: "u8w list"
  serial_out :: "u8w list"
  lpt_out :: "u8w list"
  rebooted :: bool

section \<open>Output\<close>

definition serial_putc :: "u32w \<Rightarrow> console \<Rightarrow> console" where
  "serial_putc c s = s\<lparr>serial_out := serial_out s @ [ucast c]\<rparr>"

definition lpt_putc :: "u32w \<Rightarrow> console \<Rightarrow> console" where
  "lpt_putc c s = s\<lparr>lpt_out := lpt_out s @ [ucast c]\<rparr>"

text \<open>Scrolling: the rows move up and the last one becomes blank.\<close>

definition crt_scroll :: "console \<Rightarrow> console" where
  "crt_scroll s =
     (if crt_pos s \<ge> CRT_SIZE
      then s\<lparr>crt_buf := (\<lambda>i. if i < CRT_SIZE - CRT_COLS then crt_buf s (i + CRT_COLS)
               else if i < CRT_SIZE then 0x0720 else crt_buf s i),
             crt_pos := crt_pos s - CRT_COLS\<rparr>
      else s)"

definition crt_put :: "u32w \<Rightarrow> console \<Rightarrow> console" where
  "crt_put c s =
     (let ch = c AND 0xFF in
      if ch = 8 then (if crt_pos s > 0
          then s\<lparr>crt_pos := crt_pos s - 1, crt_buf := (crt_buf s)(crt_pos s - 1 := ucast ((c AND NOT 0xFF) OR 32))\<rparr>
          else s)
      else if ch = 10 then (let p = crt_pos s + CRT_COLS in s\<lparr>crt_pos := p - p mod CRT_COLS\<rparr>)
      else if ch = 13 then s\<lparr>crt_pos := crt_pos s - crt_pos s mod CRT_COLS\<rparr>
      else s\<lparr>crt_buf := (crt_buf s)(crt_pos s := ucast c), crt_pos := Suc (crt_pos s)\<rparr>)"

text \<open>\<open>cga_putc\<close> and \<open>cons_putc\<close>: a tab prints five spaces on all devices. A character without
  attributes is black on white.\<close>

definition attributed :: "u32w \<Rightarrow> u32w" where
  "attributed c = (if c AND NOT 0xFF = 0 then c OR 0x0700 else c)"

definition put_space :: "console \<Rightarrow> console" where
  "put_space s = crt_scroll (crt_put (attributed 32) (lpt_putc 32 (serial_putc 32 s)))"

definition cga_putc :: "u32w \<Rightarrow> console \<Rightarrow> console" where
  "cga_putc c s =
     (let c = attributed c in
      if c AND 0xFF = 9
      then crt_scroll (put_space (put_space (put_space (put_space (put_space s)))))
      else crt_scroll (crt_put c s))"

definition cons_putc :: "u32w \<Rightarrow> console \<Rightarrow> console" where
  "cons_putc c s = cga_putc c (lpt_putc c (serial_putc c s))"

definition cputchar :: "u32w \<Rightarrow> console \<Rightarrow> console" where
  "cputchar c s = cons_putc c s"

section \<open>The input buffer\<close>

definition cons_push :: "u8w \<Rightarrow> console \<Rightarrow> console" where
  "cons_push c s =
     (let w = Suc (cons_wpos s) in
      s\<lparr>cons_buf := (cons_buf s)(cons_wpos s := c), cons_wpos := (if w = CONSBUFSIZE then 0 else w)\<rparr>)"

text \<open>\<open>cons_intr\<close>: the driver is called until it has no data (\<open>-1\<close>); 0 is ignored. Each call
  that does not return \<open>-1\<close> takes a pending byte, so the fuel is the number of bytes.\<close>

fun cons_intr :: "nat \<Rightarrow> (console \<Rightarrow> int \<times> console) \<Rightarrow> console \<Rightarrow> console" where
  "cons_intr 0 p s = s"
| "cons_intr (Suc n) p s =
     (let (c, s) = p s in
      if c = -1 then s
      else if c = 0 then cons_intr n p s
      else cons_intr n p (cons_push (word_of_int c) s))"

definition serial_proc_data :: "console \<Rightarrow> int \<times> console" where
  "serial_proc_data s = (case ser_pending s of [] \<Rightarrow> (-1, s) | b # bs \<Rightarrow> (uint b, s\<lparr>ser_pending := bs\<rparr>))"

definition serial_intr :: "console \<Rightarrow> console" where
  "serial_intr s = (if serial_exists s then cons_intr (Suc (length (ser_pending s))) serial_proc_data s else s)"

section \<open>The keyboard\<close>

definition KEY_HOME :: u8w where "KEY_HOME = 0xE0"
definition KEY_END :: u8w where "KEY_END = 0xE1"
definition KEY_UP :: u8w where "KEY_UP = 0xE2"
definition KEY_DN :: u8w where "KEY_DN = 0xE3"
definition KEY_LF :: u8w where "KEY_LF = 0xE4"
definition KEY_RT :: u8w where "KEY_RT = 0xE5"
definition KEY_PGUP :: u8w where "KEY_PGUP = 0xE6"
definition KEY_PGDN :: u8w where "KEY_PGDN = 0xE7"
definition KEY_INS :: u8w where "KEY_INS = 0xE8"
definition KEY_DEL :: u8w where "KEY_DEL = 0xE9"

definition SHIFT :: u32w where "SHIFT = 1"
definition CTL :: u32w where "CTL = 2"
definition ALT :: u32w where "ALT = 4"
definition CAPSLOCK :: u32w where "CAPSLOCK = 8"
definition NUMLOCK :: u32w where "NUMLOCK = 16"
definition SCROLLLOCK :: u32w where "SCROLLLOCK = 32"
definition E0ESC :: u32w where "E0ESC = 64"

definition shiftcode :: "nat \<Rightarrow> u32w" where
  "shiftcode d = (if d = 0x1D then CTL else if d = 0x2A then SHIFT else if d = 0x36 then SHIFT
     else if d = 0x38 then ALT else if d = 0x9D then CTL else if d = 0xB8 then ALT else 0)"

definition togglecode :: "nat \<Rightarrow> u32w" where
  "togglecode d = (if d = 0x3A then CAPSLOCK else if d = 0x45 then NUMLOCK else if d = 0x46 then SCROLLLOCK else 0)"

text \<open>A table of 256 codes: the first ones in order, then the keys of the second block. \<open>kb\<close> gives the
  codes of characters.\<close>

definition kb :: "string \<Rightarrow> u8w list" where
  "kb cs = map of_char cs"

definition keytable :: "u8w list \<Rightarrow> (nat \<times> u8w) list \<Rightarrow> nat \<Rightarrow> u8w" where
  "keytable first_keys others d = (case map_of others d of Some c \<Rightarrow> c
     | None \<Rightarrow> if d < length first_keys then first_keys ! d else 0)"

definition far_keys :: "(nat \<times> u8w) list" where
  "far_keys = [(0xC8, KEY_UP), (0xC9, KEY_PGUP), (0xCB, KEY_LF), (0xCD, KEY_RT), (0xCF, KEY_END),
     (0xD0, KEY_DN), (0xD1, KEY_PGDN), (0xD2, KEY_INS), (0xD3, KEY_DEL)]"

definition normal_keys :: "u8w list" where
  "normal_keys =
     ([0, 0x1B] @ kb ''1234567890-='' @ [8, 9] @ kb ''qwertyuiop[]'' @ [10, 0] @ kb ''asdfghjkl;'' @ [39] @
      kb ''`'' @ [0] @ [92] @ kb ''zxcvbnm,./'' @ [0] @ kb ''*'' @ [0] @ kb '' '' @ replicate 13 0 @
      kb ''789-456+1230.'' @ [0, 0, 0, 0])"

definition normalmap :: "nat \<Rightarrow> u8w" where
  "normalmap = keytable normal_keys ([(0xC7, KEY_HOME), (0x9C, 10), (0xB5, 47)] @ far_keys)"

definition shift_keys :: "u8w list" where
  "shift_keys =
     ([0, 0x1B] @ kb ''!@#$%^&*()_+'' @ [8, 9] @ kb ''QWERTYUIOP{}'' @ [10, 0] @ kb ''ASDFGHJKL:'' @ [34] @
      kb ''~'' @ [0] @ kb ''|'' @ kb ''ZXCVBNM<>?'' @ [0] @ kb ''*'' @ [0] @ kb '' '' @ replicate 13 0 @
      kb ''789-456+1230.'' @ [0, 0, 0, 0])"

definition shiftmap :: "nat \<Rightarrow> u8w" where
  "shiftmap = keytable shift_keys ([(0xC7, KEY_HOME), (0x9C, 10), (0xB5, 47)] @ far_keys)"

text \<open>\<open>C(x)\<close> is \<open>x - '@'\<close>.\<close>

definition ctl :: "string \<Rightarrow> u8w list" where
  "ctl cs = map (\<lambda>c. of_char c - 64) cs"

definition ctlmap :: "nat \<Rightarrow> u8w" where
  "ctlmap = keytable
     (replicate 16 0 @ ctl ''QWERTYUIOP'' @ [0, 0, 13, 0] @ ctl ''ASDFGHJKL'' @ [0, 0, 0, 0] @ [92 - 64] @
      ctl ''ZXCVBNM'' @ [0, 0] @ [47 - 64] @ [0, 0])
     ([(0x97, KEY_HOME), (0xB5, 47 - 64)] @ far_keys)"

definition charcode :: "u32w \<Rightarrow> nat \<Rightarrow> u8w" where
  "charcode s = (if s = 0 then normalmap else if s = 1 then shiftmap else ctlmap)"

text \<open>The letter case of caps lock, on the \<open>int c\<close> of the code.\<close>

definition caps :: "int \<Rightarrow> int" where
  "caps c = (if 97 \<le> c \<and> c \<le> 122 then c - 32 else if 65 \<le> c \<and> c \<le> 90 then c + 32 else c)"

definition kbd_proc_data :: "console \<Rightarrow> int \<times> console" where
  "kbd_proc_data s =
     (case kbd_pending s of
        [] \<Rightarrow> (-1, s)
      | (terr, data) # rest \<Rightarrow>
          if terr then (-1, s)
          else let s = s\<lparr>kbd_pending := rest\<rparr>; shift = kbd_shift s in
            if data = 0xE0 then (0, s\<lparr>kbd_shift := shift OR E0ESC\<rparr>)
            else if data AND 0x80 \<noteq> 0
            then (let data = (if shift AND E0ESC \<noteq> 0 then data else data AND 0x7F)
                  in (0, s\<lparr>kbd_shift := shift AND NOT (shiftcode (unat data) OR E0ESC)\<rparr>))
            else
              let esc = shift AND E0ESC \<noteq> 0;
                  data = (if esc then data OR 0x80 else data);
                  shift = (if esc then shift AND NOT E0ESC else shift);
                  shift = shift OR shiftcode (unat data);
                  shift = shift XOR togglecode (unat data);
                  c = uint (charcode (shift AND (CTL OR SHIFT)) (unat data));
                  c = (if shift AND CAPSLOCK \<noteq> 0 then caps c else c);
                  s = s\<lparr>kbd_shift := shift\<rparr>;
                  s = (if (NOT shift) AND (CTL OR ALT) = 0 \<and> c = uint KEY_DEL
                       then s\<lparr>rebooted := True\<rparr> else s)
              in (c, s))"

definition kbd_intr :: "console \<Rightarrow> console" where
  "kbd_intr s = cons_intr (Suc (length (kbd_pending s))) kbd_proc_data s"

definition cons_getc :: "console \<Rightarrow> int \<times> console" where
  "cons_getc s =
     (let s = kbd_intr (serial_intr s) in
      if cons_rpos s \<noteq> cons_wpos s
      then (let c = cons_buf s (cons_rpos s); r = Suc (cons_rpos s)
            in (uint c, s\<lparr>cons_rpos := (if r = CONSBUFSIZE then 0 else r)\<rparr>))
      else (0, s))"

text \<open>\<open>cons_init\<close>, for a colour display with the cursor at \<open>pos\<close>; the serial line answers or not.\<close>

definition cons_init :: "nat \<Rightarrow> bool \<Rightarrow> console \<Rightarrow> console" where
  "cons_init pos ser s = (kbd_intr (s\<lparr>crt_pos := pos\<rparr>))\<lparr>serial_exists := ser, ser_pending := tl (ser_pending s)\<rparr>"

section \<open>The ring as a list\<close>

definition ring_ok :: "console \<Rightarrow> bool" where
  "ring_ok s \<longleftrightarrow> cons_rpos s < CONSBUFSIZE \<and> cons_wpos s < CONSBUFSIZE"

definition ring_len :: "console \<Rightarrow> nat" where
  "ring_len s = (cons_wpos s + CONSBUFSIZE - cons_rpos s) mod CONSBUFSIZE"

definition input_waiting :: "console \<Rightarrow> u8w list" where
  "input_waiting s = map (\<lambda>i. cons_buf s ((cons_rpos s + i) mod CONSBUFSIZE)) [0..<ring_len s]"

lemma input_waiting_cong:
  "cons_buf s' = cons_buf s \<Longrightarrow> cons_rpos s' = cons_rpos s \<Longrightarrow> cons_wpos s' = cons_wpos s \<Longrightarrow>
   input_waiting s' = input_waiting s"
  by (simp add: input_waiting_def ring_len_def)

lemma length_waiting [simp]: "length (input_waiting s) = ring_len s"
  by (simp add: input_waiting_def)

text \<open>A full ring has one free slot; filling it makes the ring look empty.\<close>

lemma cons_push_waiting:
  assumes "ring_ok s"
  shows "ring_ok (cons_push c s)"
    "input_waiting (cons_push c s) = (if ring_len s < 511 then input_waiting s @ [c] else [])"
proof -
  let ?r = "cons_rpos s" and ?w = "cons_wpos s" and ?n = "ring_len s"
  have rw: "?r < 512" "?w < 512" using assms by (simp_all add: ring_ok_def CONSBUFSIZE_def)
  show "ring_ok (cons_push c s)" using rw by (simp add: ring_ok_def cons_push_def CONSBUFSIZE_def)
  have n: "?n = (if ?r \<le> ?w then ?w - ?r else ?w + 512 - ?r)"
    using rw by (auto simp: ring_len_def CONSBUFSIZE_def mod_if)
  have len: "ring_len (cons_push c s) = (if ?n < 511 then Suc ?n else 0)"
  proof -
    have "ring_len (cons_push c s) = ((if Suc ?w = 512 then 0 else Suc ?w) + 512 - ?r) mod 512"
      by (simp add: ring_len_def cons_push_def CONSBUFSIZE_def Let_def)
    also have "\<dots> = (if ?n < 511 then Suc ?n else 0)"
    proof (cases "?r \<le> ?w")
      case le: True
      show ?thesis
      proof (cases "?w = 511")
        case True
        then show ?thesis using le rw unfolding n by (cases "?r = 0") (simp_all add: Suc_diff_le)
      next
        case False
        have "Suc ?w + 512 - ?r = (Suc ?w - ?r) + 512" "Suc ?w - ?r < 512" using le rw False by simp_all
        then have "(Suc ?w + 512 - ?r) mod 512 = Suc ?w - ?r" by (metis mod_add_self2 mod_less)
        then show ?thesis using le rw False unfolding n by (simp add: Suc_diff_le)
      qed
    next
      case False
      then have "Suc ?w + 512 - ?r = Suc (?w + 512 - ?r)" using rw by simp
      moreover have "?w + 512 - ?r < 512" using False rw by simp
      moreover from this have "Suc (?w + 512 - ?r) mod 512 = (if ?w + 512 - ?r < 511 then Suc (?w + 512 - ?r) else 0)"
        by (cases "?w + 512 - ?r = 511") auto
      ultimately show ?thesis using False rw unfolding n by simp
    qed
    finally show ?thesis .
  qed
  have last: "(?r + ?n) mod 512 = ?w" using rw n by (auto simp: mod_if)
  have other: "(?r + i) mod 512 \<noteq> ?w" if "i < ?n" for i
  proof
    assume "(?r + i) mod 512 = ?w"
    moreover have "?n < 512" using rw n by (simp split: if_splits)
    ultimately have "?r + i = ?r + ?n" using window_inj [of "?r + i" 512 "?r + ?n" ?r] last that by simp
    then show False using that by simp
  qed
  have buf: "cons_buf (cons_push c s) = (cons_buf s)(?w := c)" "cons_rpos (cons_push c s) = ?r"
    by (simp_all add: cons_push_def)
  show "input_waiting (cons_push c s) = (if ?n < 511 then input_waiting s @ [c] else [])"
  proof (cases "?n < 511")
    case True
    then have "input_waiting (cons_push c s)
        = map (\<lambda>i. ((cons_buf s)(?w := c)) ((?r + i) mod 512)) [0..<?n] @ [c]"
      using len last by (simp add: input_waiting_def buf CONSBUFSIZE_def)
    also have "map (\<lambda>i. ((cons_buf s)(?w := c)) ((?r + i) mod 512)) [0..<?n] = input_waiting s"
      using other by (simp add: input_waiting_def CONSBUFSIZE_def)
    finally show ?thesis using True by simp
  qed (simp add: input_waiting_def len)
qed

lemma cons_push_devices [simp]:
  "kbd_pending (cons_push c s) = kbd_pending s" "ser_pending (cons_push c s) = ser_pending s"
  "kbd_shift (cons_push c s) = kbd_shift s" "serial_exists (cons_push c s) = serial_exists s"
  by (simp_all add: cons_push_def Let_def)

lemma ring_ok_ser [simp]: "ring_ok (s\<lparr>ser_pending := b\<rparr>) = ring_ok s" "ring_len (s\<lparr>ser_pending := b\<rparr>) = ring_len s"
  "input_waiting (s\<lparr>ser_pending := b\<rparr>) = input_waiting s"
  by (simp_all add: ring_ok_def ring_len_def input_waiting_def)

lemma ring_ok_kbd [simp]: "ring_ok (s\<lparr>kbd_pending := p\<rparr>) = ring_ok s" "input_waiting (s\<lparr>kbd_pending := p\<rparr>) = input_waiting s"
  "ring_ok (s\<lparr>kbd_shift := x\<rparr>) = ring_ok s" "input_waiting (s\<lparr>kbd_shift := x\<rparr>) = input_waiting s"
  "ring_ok (s\<lparr>rebooted := y\<rparr>) = ring_ok s" "input_waiting (s\<lparr>rebooted := y\<rparr>) = input_waiting s"
  by (simp_all add: ring_ok_def ring_len_def input_waiting_def)

lemma uint_byte_not_m1: "uint (b :: u8w) \<noteq> -1"
  using uint_ge_0 [of b] by linarith

lemma serial_intr_waiting:
  assumes "ring_ok s" and "ring_len s + length (ser_pending s) \<le> 511"
  shows "let s' = cons_intr (Suc (length (ser_pending s))) serial_proc_data s in
    ring_ok s' \<and> ser_pending s' = [] \<and> kbd_pending s' = kbd_pending s \<and> kbd_shift s' = kbd_shift s
    \<and> input_waiting s' = input_waiting s @ filter (\<lambda>b. b \<noteq> 0) (ser_pending s)"
  using assms
proof (induction "ser_pending s" arbitrary: s)
  case Nil
  then show ?case by (simp add: serial_proc_data_def)
next
  case (Cons b bs)
  let ?s = "s\<lparr>ser_pending := bs\<rparr>"
  have b: "ser_pending s = b # bs" using Cons.hyps(2) by simp
  have p: "serial_proc_data s = (uint b, ?s)" by (simp add: serial_proc_data_def b)
  show ?case
  proof (cases "b = 0")
    case True
    have "cons_intr (Suc (length (ser_pending s))) serial_proc_data s = cons_intr (Suc (length (ser_pending ?s))) serial_proc_data ?s"
      using p b True by simp
    then show ?thesis using Cons.hyps(1) [of ?s] Cons.prems b True by (simp del: cons_intr.simps)
  next
    case False
    let ?t = "cons_push b ?s"
    have nz: "uint b \<noteq> 0" using False by (simp add: unsigned_eq_0_iff)
    have room: "ring_len ?s < 511" using Cons.prems b by simp
    have w: "ring_ok ?t" "input_waiting ?t = input_waiting s @ [b]"
      using cons_push_waiting [of ?s b] Cons.prems(1) room by simp_all
    have "ring_len ?t = Suc (ring_len s)" using arg_cong [OF w(2), of length] by simp
    then have le: "ring_len ?t + length (ser_pending ?t) \<le> 511" using Cons.prems(2) b by simp
    have "cons_intr (Suc (length (ser_pending s))) serial_proc_data s = cons_intr (Suc (length (ser_pending ?t))) serial_proc_data ?t"
      using p b nz uint_byte_not_m1 by simp
    then show ?thesis using Cons.hyps(1) [OF _ w(1) le] b w(2) False by (simp del: cons_intr.simps)
  qed
qed

text \<open>Reading when no device has anything new.\<close>

lemma cons_getc_idle:
  assumes "ring_ok s" and "ser_pending s = []" and "kbd_pending s = []"
  shows "cons_getc s = (case input_waiting s of [] \<Rightarrow> (0, s)
      | c # cs \<Rightarrow> (uint c, s\<lparr>cons_rpos := (if Suc (cons_rpos s) = CONSBUFSIZE then 0 else Suc (cons_rpos s))\<rparr>))"
    "ring_ok (snd (cons_getc s))" "input_waiting (snd (cons_getc s)) = tl (input_waiting s)"
    "ser_pending (snd (cons_getc s)) = []" "kbd_pending (snd (cons_getc s)) = []"
proof -
  have idle: "kbd_intr (serial_intr s) = s"
    using assms(2,3) by (simp add: kbd_intr_def serial_intr_def serial_proc_data_def kbd_proc_data_def)
  let ?r = "cons_rpos s" and ?w = "cons_wpos s"
  have rw: "?r < 512" "?w < 512" using assms(1) by (simp_all add: ring_ok_def CONSBUFSIZE_def)
  have n: "ring_len s = (if ?r \<le> ?w then ?w - ?r else ?w + 512 - ?r)"
    using rw by (auto simp: ring_len_def CONSBUFSIZE_def mod_if)
  have "cons_getc s = (case input_waiting s of [] \<Rightarrow> (0, s)
      | c # cs \<Rightarrow> (uint c, s\<lparr>cons_rpos := (if Suc ?r = CONSBUFSIZE then 0 else Suc ?r)\<rparr>))
    \<and> ring_ok (snd (cons_getc s)) \<and> input_waiting (snd (cons_getc s)) = tl (input_waiting s)
    \<and> ser_pending (snd (cons_getc s)) = [] \<and> kbd_pending (snd (cons_getc s)) = []"
  proof (cases "?r = ?w")
    case True
    then have "input_waiting s = []" using n by (simp add: input_waiting_def)
    then show ?thesis using True assms by (simp add: cons_getc_def idle)
  next
    case False
    then have "ring_len s \<noteq> 0" using n rw by (auto split: if_splits)
    then obtain m where m: "ring_len s = Suc m" using not0_implies_Suc by blast
    let ?t = "s\<lparr>cons_rpos := (if Suc ?r = CONSBUFSIZE then 0 else Suc ?r)\<rparr>"
    have g: "cons_getc s = (uint (cons_buf s ?r), ?t)" using False by (simp add: cons_getc_def idle Let_def)
    have lt: "ring_len ?t = m" using n m rw by (auto simp: ring_len_def CONSBUFSIZE_def mod_if split: if_splits)
    have "(cons_rpos ?t + i) mod 512 = (?r + Suc i) mod 512" for i using rw
      by (auto simp: CONSBUFSIZE_def mod_if)
    then have t: "input_waiting ?t = map (\<lambda>i. cons_buf s ((?r + Suc i) mod 512)) [0..<m]"
      using lt by (simp add: input_waiting_def CONSBUFSIZE_def)
    have "input_waiting s = cons_buf s ?r # input_waiting ?t"
      unfolding t using rw m by (simp add: input_waiting_def CONSBUFSIZE_def upt_conv_Cons map_Suc_upt [symmetric] comp_def del: upt_Suc)
    moreover have "ring_ok ?t" using rw by (simp add: ring_ok_def CONSBUFSIZE_def)
    ultimately show ?thesis using g assms by simp
  qed
  then show "cons_getc s = (case input_waiting s of [] \<Rightarrow> (0, s)
      | c # cs \<Rightarrow> (uint c, s\<lparr>cons_rpos := (if Suc (cons_rpos s) = CONSBUFSIZE then 0 else Suc (cons_rpos s))\<rparr>))"
    "ring_ok (snd (cons_getc s))" "input_waiting (snd (cons_getc s)) = tl (input_waiting s)"
    "ser_pending (snd (cons_getc s)) = []" "kbd_pending (snd (cons_getc s)) = []" by blast+
qed

fun read_chars :: "nat \<Rightarrow> console \<Rightarrow> int list \<times> console" where
  "read_chars 0 s = ([], s)"
| "read_chars (Suc n) s = (let (c, s) = cons_getc s; (cs, s) = read_chars n s in (c # cs, s))"

lemma read_chars_all:
  assumes "ring_ok s" and "ser_pending s = []" and "kbd_pending s = []" and "n = ring_len s"
  shows "fst (read_chars n s) = map uint (input_waiting s)"
  using assms
proof (induction n arbitrary: s)
  case 0
  then show ?case by (simp add: input_waiting_def)
next
  case (Suc n)
  note g = cons_getc_idle [OF Suc.prems(1-3)]
  obtain c cs where c: "input_waiting s = c # cs" using Suc.prems(4) length_waiting [of s] by (cases "input_waiting s") auto
  let ?t = "snd (cons_getc s)"
  have "ring_len ?t = n" using g(3) Suc.prems(4) length_waiting [of ?t] length_waiting [of s] by simp
  then have "fst (read_chars n ?t) = map uint (input_waiting ?t)" using Suc.IH g by metis
  moreover have "fst (cons_getc s) = uint c" using g(1) c by simp
  ultimately show ?case using g(3) c by (simp add: case_prod_beta Let_def)
qed

section \<open>The screen\<close>

definition screen_ok :: "console \<Rightarrow> console \<Rightarrow> bool" where
  "screen_ok s s' \<longleftrightarrow> crt_pos s' < CRT_SIZE \<and> (\<forall>i\<ge>CRT_SIZE. crt_buf s' i = crt_buf s i)"

lemmas crt_sizes = CRT_SIZE_def CRT_ROWS_def CRT_COLS_def

lemma crt_step:
  assumes "crt_pos s < CRT_SIZE"
  shows "screen_ok s (crt_scroll (crt_put c s))"
proof -
  have nl: "crt_pos s + 80 - (crt_pos s + 80) mod 80 < 2080"
  proof -
    have "crt_pos s div 80 < 25" using assms by (simp add: crt_sizes less_mult_imp_div_less)
    then show ?thesis by (simp add: minus_mod_eq_div_mult)
  qed
  show ?thesis using assms nl
    by (auto simp: screen_ok_def crt_scroll_def crt_put_def crt_sizes Let_def)
qed

lemma screen_ok_trans: "screen_ok s t \<Longrightarrow> screen_ok t u \<Longrightarrow> screen_ok s u"
  by (simp add: screen_ok_def)

lemma screen_ports [simp]: "crt_pos (lpt_putc c (serial_putc d s)) = crt_pos s"
  "crt_buf (lpt_putc c (serial_putc d s)) = crt_buf s"
  by (simp_all add: lpt_putc_def serial_putc_def)

lemma put_space_screen: "crt_pos s < CRT_SIZE \<Longrightarrow> screen_ok s (put_space s)"
  using crt_step [of "lpt_putc 32 (serial_putc 32 s)" "attributed 32"] by (simp add: put_space_def screen_ok_def)

lemma scroll_screen: "screen_ok s t \<Longrightarrow> screen_ok s (crt_scroll t)"
  by (simp add: screen_ok_def crt_scroll_def)

lemma cga_putc_screen:
  assumes "crt_pos s < CRT_SIZE"
  shows "screen_ok s (cga_putc c s)"
proof -
  have "screen_ok s (put_space (put_space (put_space (put_space (put_space s)))))"
    using assms put_space_screen screen_ok_trans by (metis screen_ok_def)
  then show ?thesis using crt_step [OF assms] scroll_screen by (simp add: cga_putc_def Let_def)
qed

section \<open>Properties\<close>

text \<open>The console of a machine whose devices are idle.\<close>

definition idle_console :: console where
  "idle_console = \<lparr>crt_buf = (\<lambda>_. 0x0720), crt_pos = 0, serial_exists = True, kbd_shift = 0, cons_buf = (\<lambda>_. 0),
     cons_rpos = 0, cons_wpos = 0, kbd_pending = [], ser_pending = [], serial_out = [], lpt_out = [], rebooted = False\<rparr>"



text \<open>One character more than the ring holds loses all of them: with 511 characters waiting, the next
  one makes the buffer look empty.\<close>

theorem console_overflow_loses_all:
  assumes "ring_ok s" and "length (input_waiting s) = 511"
  shows "input_waiting (cons_push c s) = []"
  using cons_push_waiting(2) [OF assms(1)] assms(2) by simp

theorem console_overflow_loses_all_witness:
  "input_waiting (cons_push 65 (idle_console\<lparr>cons_wpos := 511\<rparr>)) = []"
  by (rule console_overflow_loses_all) (simp_all add: idle_console_def ring_ok_def ring_len_def CONSBUFSIZE_def)

text \<open>Whatever is printed, the cursor stays on the screen and nothing outside the display memory is
  written; every character goes once to the serial line and to the parallel port (a tab followed by five
  spaces).\<close>

theorem cons_putc_in_bounds:
  assumes "crt_pos s < CRT_SIZE"
  shows "crt_pos (cons_putc c s) < CRT_SIZE \<and> (\<forall>i\<ge>CRT_SIZE. crt_buf (cons_putc c s) i = crt_buf s i)
    \<and> serial_out (cons_putc c s) = serial_out s @ ucast c # (if c AND 0xFF = 9 then replicate 5 32 else [])
    \<and> lpt_out (cons_putc c s) = lpt_out s @ ucast c # (if c AND 0xFF = 9 then replicate 5 32 else [])"
proof -
  have "screen_ok s (cons_putc c s)"
    using cga_putc_screen [of "lpt_putc c (serial_putc c s)" c] assms by (simp add: cons_putc_def screen_ok_def)
  moreover have low: "attributed c AND 0xFF = c AND 0xFF"
  proof -
    have "(c OR 0x0700) AND 0xFF = c AND 0xFF" by (simp only: bit.conj_disj_distrib2) simp
    then show ?thesis by (simp add: attributed_def)
  qed
  moreover have scroll: "serial_out (crt_scroll t) = serial_out t" "lpt_out (crt_scroll t) = lpt_out t" for t
    by (simp_all add: crt_scroll_def)
  moreover have put: "serial_out (crt_put d t) = serial_out t" "lpt_out (crt_put d t) = lpt_out t" for d t
    by (simp_all add: crt_put_def Let_def)
  moreover have sp: "serial_out (put_space t) = serial_out t @ [32]" "lpt_out (put_space t) = lpt_out t @ [32]" for t
    by (simp_all add: put_space_def scroll put serial_putc_def lpt_putc_def)
  ultimately show ?thesis
    by (simp add: screen_ok_def cons_putc_def cga_putc_def Let_def) (simp add: lpt_putc_def serial_putc_def eval_nat_numeral)
qed

theorem cons_putc_in_bounds_witness:
  "crt_pos (cons_putc 9 (idle_console\<lparr>crt_pos := 1999\<rparr>)) < CRT_SIZE"
  using cons_putc_in_bounds [of "idle_console\<lparr>crt_pos := 1999\<rparr>" 9] by (simp add: idle_console_def crt_sizes)

text \<open>The scan codes of the letters, in alphabetical order.\<close>

definition letter_scan :: "u8w list" where
  "letter_scan = [0x1E, 0x30, 0x2E, 0x20, 0x12, 0x21, 0x22, 0x23, 0x17, 0x24, 0x25, 0x26, 0x32, 0x31, 0x18, 0x19, 0x10,
     0x13, 0x1F, 0x14, 0x16, 0x2F, 0x11, 0x2D, 0x15, 0x2C]"

lemma letter_scan_values:
  "\<forall>i\<in>set [0..<26]. letter_scan ! i < 0x80 \<and> shiftcode (unat (letter_scan ! i)) = 0
    \<and> togglecode (unat (letter_scan ! i)) = 0"
  by code_simp

lemma normal_keys_values: "map uint normal_keys =
    [0, 27, 49, 50, 51, 52, 53, 54, 55, 56, 57, 48, 45, 61, 8, 9, 113, 119, 101, 114, 116, 121,
     117, 105, 111, 112, 91, 93, 10, 0, 97, 115, 100, 102, 103, 104, 106, 107, 108, 59, 39, 96, 0,
     92, 122, 120, 99, 118, 98, 110, 109, 44, 46, 47, 0, 42, 0, 32, 0, 0, 0, 0, 0, 0, 0, 0, 0, 0,
     0, 0, 0, 55, 56, 57, 45, 52, 53, 54, 43, 49, 50, 51, 48, 46, 0, 0, 0, 0]" by code_simp

lemma shift_keys_values: "map uint shift_keys =
    [0, 27, 33, 64, 35, 36, 37, 94, 38, 42, 40, 41, 95, 43, 8, 9, 81, 87, 69, 82, 84, 89, 85, 73,
     79, 80, 123, 125, 10, 0, 65, 83, 68, 70, 71, 72, 74, 75, 76, 58, 34, 126, 0, 124, 90, 88, 67,
     86, 66, 78, 77, 60, 62, 63, 0, 42, 0, 32, 0, 0, 0, 0, 0, 0, 0, 0, 0, 0, 0, 0, 0, 55, 56, 57,
     45, 52, 53, 54, 43, 49, 50, 51, 48, 46, 0, 0, 0, 0]" by code_simp

lemma letter_places:
  "\<forall>i\<in>set [0..<26]. map uint normal_keys ! unat (letter_scan ! i) = 97 + int i
    \<and> map uint shift_keys ! unat (letter_scan ! i) = 65 + int i \<and> unat (letter_scan ! i) < 88"
  unfolding normal_keys_values shift_keys_values by code_simp

lemma length_keys: "length normal_keys = 88" "length shift_keys = 88"
  using arg_cong [OF normal_keys_values, of length] arg_cong [OF shift_keys_values, of length] by simp_all

lemma keytable_first: "n < length ks \<Longrightarrow> n < 0x9C \<Longrightarrow> keytable ks ([(0xC7, KEY_HOME), (0x9C, 10), (0xB5, 47)] @ far_keys) n = ks ! n"
  by (simp add: keytable_def far_keys_def)

lemma letter_tables:
  assumes "i < 26"
  shows "uint (normalmap (unat (letter_scan ! i))) = 97 + int i" "uint (shiftmap (unat (letter_scan ! i))) = 65 + int i"
    "letter_scan ! i < 0x80" "shiftcode (unat (letter_scan ! i)) = 0" "togglecode (unat (letter_scan ! i)) = 0"
proof -
  have p: "map uint normal_keys ! unat (letter_scan ! i) = 97 + int i" "unat (letter_scan ! i) < 88"
    "map uint shift_keys ! unat (letter_scan ! i) = 65 + int i"
    using letter_places assms by simp_all
  then show "uint (normalmap (unat (letter_scan ! i))) = 97 + int i" "uint (shiftmap (unat (letter_scan ! i))) = 65 + int i"
    by (simp_all add: normalmap_def shiftmap_def keytable_first [simplified] length_keys)
  show "letter_scan ! i < 0x80" "shiftcode (unat (letter_scan ! i)) = 0" "togglecode (unat (letter_scan ! i)) = 0"
    using letter_scan_values assms by simp_all
qed

text \<open>Each letter key gives its letter, upper case exactly when one of shift and caps lock is on,
  and leaves the modifiers alone.\<close>

theorem letter_keys:
  assumes "i < 26" and "kbd_pending s = (False, letter_scan ! i) # rest"
    and "kbd_shift s AND (E0ESC OR CTL) = 0"
  shows "kbd_proc_data s = (int i + (if (kbd_shift s AND SHIFT \<noteq> 0) = (kbd_shift s AND CAPSLOCK \<noteq> 0) then 97 else 65),
    s\<lparr>kbd_pending := rest\<rparr>)"
proof -
  let ?d = "letter_scan ! i" and ?k = "kbd_shift s"
  have t: "uint (normalmap (unat ?d)) = 97 + int i" "uint (shiftmap (unat ?d)) = 65 + int i" "?d < 0x80"
    "shiftcode (unat ?d) = 0" "togglecode (unat ?d) = 0"
    using letter_tables [OF assms(1)] by simp_all
  have esc: "?k AND E0ESC = 0" and ctl: "?k AND CTL = 0"
    using assms(3) by (simp_all add: bit.conj_disj_distrib or_eq_0_iff)
  have sel: "?k AND (CTL OR SHIFT) = ?k AND SHIFT" using ctl by (simp add: bit.conj_disj_distrib)
  have one: "?k AND SHIFT = 0 \<or> ?k AND SHIFT = 1" by (simp add: SHIFT_def and_one_eq mod_2_eq_odd)
  have d: "?d \<noteq> 0xE0" "?d AND 0x80 = 0"
  proof -
    show "?d \<noteq> 0xE0" using t(3) by auto
    have "\<forall>j\<in>set [0..<26]. letter_scan ! j AND 0x80 = 0" by code_simp
    then show "?d AND 0x80 = 0" using assms(1) by simp
  qed
  have ch: "uint (charcode (?k AND SHIFT) (unat ?d)) = int i + (if ?k AND SHIFT \<noteq> 0 then 65 else 97)"
    using one t(1,2) by (auto simp: charcode_def)
  have caps_i: "caps (int i + 65) = int i + 97" "caps (int i + 97) = int i + 65"
    using assms(1) by (simp_all add: caps_def)
  have del: "int i + 97 \<noteq> uint KEY_DEL" "int i + 65 \<noteq> uint KEY_DEL" using assms(1) by (simp_all add: KEY_DEL_def)
  show ?thesis using assms(2) d esc sel ch t(4,5) caps_i del
    by (cases "?k AND SHIFT = 0"; cases "?k AND CAPSLOCK = 0") (simp_all add: kbd_proc_data_def Let_def)
qed

theorem letter_keys_witness:
  "fst (kbd_proc_data (idle_console\<lparr>kbd_pending := [(False, letter_scan ! 7)], kbd_shift := SHIFT OR NUMLOCK\<rparr>)) = 72"
  using letter_keys [of 7 "idle_console\<lparr>kbd_pending := [(False, letter_scan ! 7)], kbd_shift := SHIFT OR NUMLOCK\<rparr>" "[]"]
  by (simp add: E0ESC_def CTL_def SHIFT_def NUMLOCK_def CAPSLOCK_def)

end
