(* ===== verification/Kern_State.thy ===== *)
theory Kern_State
  imports Kern_Vm Console
begin

text \<open>
  The state of the kernel: the environments of \<open>inc/env.h\<close>, the trap frames of
  \<open>inc/trap.h\<close>, the queues of \<open>kern/sched.h\<close> and the globals that use them, on top of
  the memory state. A \<open>struct Env *\<close> is an index of the table \<open>envs\<close>; \<open>curenv\<close> is the
  index this CPU runs, if any. Functions that do not return yield a \<open>fate\<close>: what the CPU
  does next.
\<close>

definition NENV :: nat where "NENV = 1024"

definition ENVX :: "u32w \<Rightarrow> nat" where
  "ENVX envid = unat (envid AND 0x3FF)"

datatype env_status = ENV_FREE | ENV_DYING | ENV_RUNNABLE | ENV_RUNNING | ENV_NOT_RUNNABLE

record PushRegs =
  reg_edi :: u32w
  reg_esi :: u32w
  reg_ebp :: u32w
  reg_oesp :: u32w
  reg_ebx :: u32w
  reg_edx :: u32w
  reg_ecx :: u32w
  reg_eax :: u32w

record Trapframe =
  tf_regs :: PushRegs
  tf_es :: u16w
  tf_ds :: u16w
  tf_trapno :: u32w
  tf_err :: u32w
  tf_eip :: u32w
  tf_cs :: u16w
  tf_eflags :: u32w
  tf_esp :: u32w
  tf_ss :: u16w

definition zero_regs :: PushRegs where
  "zero_regs = \<lparr>reg_edi = 0, reg_esi = 0, reg_ebp = 0, reg_oesp = 0, reg_ebx = 0, reg_edx = 0,
     reg_ecx = 0, reg_eax = 0\<rparr>"

definition zero_tf :: Trapframe where
  "zero_tf = \<lparr>tf_regs = zero_regs, tf_es = 0, tf_ds = 0, tf_trapno = 0, tf_err = 0, tf_eip = 0,
     tf_cs = 0, tf_eflags = 0, tf_esp = 0, tf_ss = 0\<rparr>"

record Env =
  env_tf :: Trapframe
  env_link :: "nat option"
  env_id :: u32w
  env_parent_id :: u32w
  env_status :: env_status
  env_runs :: u32w
  env_cpunum :: nat
  env_pgdir :: "nat option"
  env_pgfault_upcall :: u32w
  env_ipc_recving :: bool
  env_ipc_dstva :: u32w
  env_ipc_value :: u32w
  env_ipc_from :: u32w
  env_ipc_perm :: u32w
  cola_actual :: int
  ejecuciones :: int

text \<open>
  A queue: a ring of \<open>NENV\<close> ids between two counters that only grow; the slot of a counter
  is its remainder.
\<close>

record MLFQ_cola =
  cola_envs :: "nat \<Rightarrow> u32w"
  ultimo :: nat
  primero :: nat

record MLFQ_scheduler =
  cola_a :: MLFQ_cola
  cola_b :: MLFQ_cola
  cola_c :: MLFQ_cola
  cola_d :: MLFQ_cola
  ejecuciones_totales :: int

datatype cpu_status = CPU_UNUSED | CPU_STARTED | CPU_HALTED

record kern = mem +
  envs :: "nat \<Rightarrow> Env"
  env_free_list :: "nat option"
  curenv :: "nat option"
  mlfq_scheduler :: MLFQ_scheduler
  runs_del_sched :: int
  cr3 :: nat
  cpunum :: nat
  lock_holder :: "nat option"
  cpu_status :: cpu_status
  cons :: console

text \<open>An environment of the zeroed table (\<open>ENV_FREE\<close> is 0).\<close>

definition zero_env :: Env where
  "zero_env = \<lparr>env_tf = zero_tf, env_link = None, env_id = 0, env_parent_id = 0, env_status = ENV_FREE,
     env_runs = 0, env_cpunum = 0, env_pgdir = None, env_pgfault_upcall = 0, env_ipc_recving = False,
     env_ipc_dstva = 0, env_ipc_value = 0, env_ipc_from = 0, env_ipc_perm = 0, cola_actual = 0,
     ejecuciones = 0\<rparr>"

datatype fate = Runs nat | Halted | In_monitor

definition set_env :: "nat \<Rightarrow> Env \<Rightarrow> 'a kern_scheme \<Rightarrow> 'a kern_scheme" where
  "set_env i e k = k\<lparr>envs := (envs k)(i := e)\<rparr>"

text \<open>\<open>unlock_kernel\<close>: releasing a lock this CPU does not hold is a panic.\<close>

definition unlock_kernel :: "'a kern_scheme \<Rightarrow> 'a kern_scheme option" where
  "unlock_kernel k = (if lock_holder k = Some (cpunum k) then Some (k\<lparr>lock_holder := None\<rparr>) else None)"

text \<open>\<open>env_load_pgdir\<close>: \<open>PADDR\<close> of a null page directory is a panic.\<close>

definition env_load_pgdir :: "nat \<Rightarrow> 'a kern_scheme \<Rightarrow> 'a kern_scheme option" where
  "env_load_pgdir e k = do {
     d \<leftarrow> env_pgdir (envs k e);
     Some (k\<lparr>cr3 := d\<rparr>)
   }"

text \<open>The environment that was running may run again later.\<close>

definition preempt :: "'a kern_scheme \<Rightarrow> 'a kern_scheme" where
  "preempt k = (case curenv k of
     Some c \<Rightarrow> if env_status (envs k c) = ENV_RUNNING
               then set_env c ((envs k c)\<lparr>env_status := ENV_RUNNABLE\<rparr>) k else k
   | None \<Rightarrow> k)"

definition env_run :: "nat \<Rightarrow> 'a kern_scheme \<Rightarrow> (fate \<times> 'a kern_scheme) option" where
  "env_run env k = do {
     let k = preempt k;
     let k = k\<lparr>curenv := Some env, curenv_pgdir := env_pgdir (envs k env)\<rparr>;
     let k = set_env env ((envs k env)\<lparr>env_status := ENV_RUNNING, env_runs := env_runs (envs k env) + 1\<rparr>) k;
     k \<leftarrow> env_load_pgdir env k;
     k \<leftarrow> unlock_kernel k;
     let k = set_env env ((envs k env)\<lparr>env_cpunum := cpunum k\<rparr>) k;
     Some (Runs env, k)
   }"

lemma ENVX_less [simp]: "ENVX i < NENV"
  by (simp add: ENVX_def NENV_def unat_and_3FF)

lemma set_env_simps [simp]:
  "envs (set_env i e k) = (envs k)(i := e)" "mlfq_scheduler (set_env i e k) = mlfq_scheduler k"
  "curenv (set_env i e k) = curenv k" "runs_del_sched (set_env i e k) = runs_del_sched k"
  "lock_holder (set_env i e k) = lock_holder k" "cpunum (set_env i e k) = cpunum k"
  "env_free_list (set_env i e k) = env_free_list k" "cr3 (set_env i e k) = cr3 k"
  "cpu_status (set_env i e k) = cpu_status k" "cons (set_env i e k) = cons k"
  "npages (set_env i e k) = npages k" "pp_ref (set_env i e k) = pp_ref k" "pp_link (set_env i e k) = pp_link k"
  "page_free_list (set_env i e k) = page_free_list k" "frames (set_env i e k) = frames k"
  "kern_pgdir (set_env i e k) = kern_pgdir k"
  by (simp_all add: set_env_def)

lemma set_env_twice [simp]:
  "set_env i a (set_env i b k) = set_env i a k"
  "set_env i a ((set_env i b k)\<lparr>env_free_list := l\<rparr>) = (set_env i a k)\<lparr>env_free_list := l\<rparr>"
  by (simp_all add: set_env_def)

text \<open>
  What \<open>env_run\<close> does to an environment with an address space, with the lock held. The
  scheduling data of the environments are not its business.
\<close>

lemma preempt_simps [simp]:
  "mlfq_scheduler (preempt k) = mlfq_scheduler k" "lock_holder (preempt k) = lock_holder k"
  "cpunum (preempt k) = cpunum k" "runs_del_sched (preempt k) = runs_del_sched k"
  "curenv (preempt k) = curenv k"
  "env_pgdir (envs (preempt k) i) = env_pgdir (envs k i)" "env_id (envs (preempt k) i) = env_id (envs k i)"
  "cola_actual (envs (preempt k) i) = cola_actual (envs k i)" "ejecuciones (envs (preempt k) i) = ejecuciones (envs k i)"
  by (simp_all add: preempt_def split: option.split)

lemma preempt_env:
  "curenv k \<noteq> Some i \<Longrightarrow> envs (preempt k) i = envs k i"
  "curenv k = Some i \<Longrightarrow> env_status (envs k i) = ENV_RUNNING \<Longrightarrow> env_status (envs (preempt k) i) = ENV_RUNNABLE"
  by (auto simp: preempt_def split: option.split)

lemma preempt_status:
  "env_status (envs (preempt k) i) = env_status (envs k i)
    \<or> curenv k = Some i \<and> env_status (envs k i) = ENV_RUNNING \<and> env_status (envs (preempt k) i) = ENV_RUNNABLE"
  by (auto simp: preempt_def split: option.split)

lemma env_run_ok:
  assumes "env_pgdir (envs k e) = Some d" and "lock_holder k = Some (cpunum k)"
  obtains k' where "env_run e k = Some (Runs e, k')" "curenv k' = Some e" "env_status (envs k' e) = ENV_RUNNING"
    "mlfq_scheduler k' = mlfq_scheduler k" "runs_del_sched k' = runs_del_sched k" "cr3 k' = d" "lock_holder k' = None"
    "\<And>i. env_id (envs k' i) = env_id (envs k i)" "\<And>i. cola_actual (envs k' i) = cola_actual (envs k i)"
    "\<And>i. ejecuciones (envs k' i) = ejecuciones (envs k i)"
    "\<And>i. i \<noteq> e \<Longrightarrow> curenv k \<noteq> Some i \<Longrightarrow> envs k' i = envs k i"
    "\<And>i. i \<noteq> e \<Longrightarrow> curenv k = Some i \<Longrightarrow> env_status (envs k i) = ENV_RUNNING \<Longrightarrow> env_status (envs k' i) = ENV_RUNNABLE"
    "\<And>i. env_pgdir (envs k' i) = env_pgdir (envs k i)" "cpunum k' = cpunum k"
    "\<And>i. i \<noteq> e \<Longrightarrow> env_status (envs k' i) = env_status (envs k i)
       \<or> curenv k = Some i \<and> env_status (envs k i) = ENV_RUNNING \<and> env_status (envs k' i) = ENV_RUNNABLE"
proof -
  obtain k' where r: "env_run e k = Some (Runs e, k')"
    using assms by (simp add: env_run_def Let_def env_load_pgdir_def unlock_kernel_def)
  have k': "envs k' i = (if i = e then (envs (preempt k) e)\<lparr>env_status := ENV_RUNNING,
      env_runs := env_runs (envs (preempt k) e) + 1, env_cpunum := cpunum k\<rparr> else envs (preempt k) i)" for i
    using assms r by (auto simp: env_run_def Let_def env_load_pgdir_def unlock_kernel_def)
  have rest: "curenv k' = Some e" "mlfq_scheduler k' = mlfq_scheduler k" "runs_del_sched k' = runs_del_sched k"
    "cr3 k' = d" "lock_holder k' = None" "cpunum k' = cpunum k"
    using assms r by (auto simp: env_run_def Let_def env_load_pgdir_def unlock_kernel_def)
  show thesis
  proof (rule that [OF r])
    show "env_status (envs k' i) = env_status (envs k i)
       \<or> curenv k = Some i \<and> env_status (envs k i) = ENV_RUNNING \<and> env_status (envs k' i) = ENV_RUNNABLE"
      if "i \<noteq> e" for i using preempt_status [of k i] that by (simp add: k')
  qed (use rest preempt_env [of k] in \<open>simp_all add: k'\<close>)
qed

end
