(* ===== verification/Sched.thy ===== *)
theory Sched
  imports Kern_State "HOL-Library.Multiset"
begin

text \<open>
  The scheduler, \<open>kern/sched.c\<close>: the four queues of the multi-level feedback policy, round
  robin, and \<open>sched_yield\<close>, which picks what this CPU runs next. A pointer to a queue is its
  letter. The two policies are chosen when the kernel is compiled: a parameter.
\<close>

section \<open>The queues\<close>

datatype cola_id = A | B | C | D

definition cola :: "MLFQ_scheduler \<Rightarrow> cola_id \<Rightarrow> MLFQ_cola" where
  "cola s q = (case q of A \<Rightarrow> cola_a s | B \<Rightarrow> cola_b s | C \<Rightarrow> cola_c s | D \<Rightarrow> cola_d s)"

definition set_cola :: "cola_id \<Rightarrow> MLFQ_cola \<Rightarrow> MLFQ_scheduler \<Rightarrow> MLFQ_scheduler" where
  "set_cola q c s = (case q of A \<Rightarrow> s\<lparr>cola_a := c\<rparr> | B \<Rightarrow> s\<lparr>cola_b := c\<rparr>
     | C \<Rightarrow> s\<lparr>cola_c := c\<rparr> | D \<Rightarrow> s\<lparr>cola_d := c\<rparr>)"

definition MAX_EJECUCIONES_MLFQ :: int where "MAX_EJECUCIONES_MLFQ = 50"
definition COLAS_MAXIMAS :: int where "COLAS_MAXIMAS = 4"

definition empty_cola :: MLFQ_cola where
  "empty_cola = \<lparr>cola_envs = (\<lambda>_. 0), ultimo = 0, primero = 0\<rparr>"

definition mlfq_init :: MLFQ_scheduler where
  "mlfq_init = \<lparr>cola_a = empty_cola, cola_b = empty_cola, cola_c = empty_cola, cola_d = empty_cola,
     ejecuciones_totales = 0\<rparr>"

text \<open>The globals of the kernel as the loader leaves them, with \<open>n\<close> pages of memory.\<close>

definition zero_kern :: "nat \<Rightarrow> kern" where
  "zero_kern n = \<lparr>npages = n, npages_basemem = 0, pp_ref = (\<lambda>_. 0), pp_link = (\<lambda>_. None), page_free_list = None,
     frames = (\<lambda>_ _. 0), kern_pgdir = 0, curenv_pgdir = None, invalidated = [], user_mem_check_addr = 0,
     mmio_base = MMIOBASE, nextfree = 0, envs = (\<lambda>_. zero_env), env_free_list = None, curenv = None,
     mlfq_scheduler = mlfq_init, runs_del_sched = 0, cr3 = 0, cpunum = 0, lock_holder = None,
     cpu_status = CPU_UNUSED, cons = idle_console\<rparr>"

definition obtener_cola :: "int \<Rightarrow> cola_id option" where
  "obtener_cola n = (if n < 0 then None else if n = 0 then Some A else if n = 1 then Some B
     else if n = 2 then Some C else Some D)"

definition cola_push :: "u32w \<Rightarrow> MLFQ_cola \<Rightarrow> MLFQ_cola" where
  "cola_push eid c = c\<lparr>cola_envs := (cola_envs c)(ultimo c mod NENV := eid), ultimo := Suc (ultimo c)\<rparr>"

definition sched_agregar_env :: "u32w \<Rightarrow> int \<Rightarrow> 'a kern_scheme \<Rightarrow> 'a kern_scheme option" where
  "sched_agregar_env eid valor_cola k = do {
     q \<leftarrow> obtener_cola valor_cola;
     let i = ENVX eid;
     let k = set_env i ((envs k i)\<lparr>cola_actual := valor_cola\<rparr>) k;
     let s = mlfq_scheduler k;
     Some (k\<lparr>mlfq_scheduler := set_cola q (cola_push eid (cola s q)) s\<rparr>)
   }"

definition sched_borrar_env :: "nat \<Rightarrow> MLFQ_cola \<Rightarrow> MLFQ_cola" where
  "sched_borrar_env posicion c =
     (if posicion = primero c then c\<lparr>primero := Suc (primero c)\<rparr>
      else (let p = cola_envs c (primero c mod NENV);
                objetivo = cola_envs c posicion;
                es = (cola_envs c)(primero c mod NENV := objetivo);
                es = es(posicion := p)
            in c\<lparr>cola_envs := es, primero := Suc (primero c)\<rparr>))"

text \<open>The positions of a queue from \<open>primero\<close> to \<open>ultimo\<close>, and the first that satisfies a test.\<close>

definition find_pos :: "(u32w \<Rightarrow> bool) \<Rightarrow> MLFQ_cola \<Rightarrow> nat option" where
  "find_pos p c = (let i = first_from (\<lambda>i. p (cola_envs c (i mod NENV))) (primero c) (ultimo c)
                   in if i < ultimo c then Some i else None)"

definition sched_eliminar_env :: "u32w \<Rightarrow> 'a kern_scheme \<Rightarrow> 'a kern_scheme option" where
  "sched_eliminar_env eid k = do {
     q \<leftarrow> obtener_cola (cola_actual (envs k (ENVX eid)));
     let s = mlfq_scheduler k;
     let c = cola s q;
     Some (case find_pos (\<lambda>e. e = eid) c of
             None \<Rightarrow> k
           | Some i \<Rightarrow> k\<lparr>mlfq_scheduler := set_cola q (sched_borrar_env (i mod NENV) c) s\<rparr>)
   }"

definition vaciar_cola :: "MLFQ_cola \<Rightarrow> MLFQ_cola" where
  "vaciar_cola c = c\<lparr>primero := 0, ultimo := 0\<rparr>"

definition vaciar_colas :: "'a kern_scheme \<Rightarrow> 'a kern_scheme" where
  "vaciar_colas k = (let s = mlfq_scheduler k in
     k\<lparr>mlfq_scheduler := s\<lparr>cola_b := vaciar_cola (cola_b s), cola_c := vaciar_cola (cola_c s),
                          cola_d := vaciar_cola (cola_d s)\<rparr>\<rparr>)"

text \<open>\<open>promover_cola\<close>: the bound of the loop is read again on each turn.\<close>

fun promover_desde :: "nat \<Rightarrow> cola_id \<Rightarrow> nat \<Rightarrow> 'a kern_scheme \<Rightarrow> 'a kern_scheme option" where
  "promover_desde 0 q i k = Some k"
| "promover_desde (Suc n) q i k =
     (let c = cola (mlfq_scheduler k) q in
      if i < ultimo c
      then do {
        k \<leftarrow> sched_agregar_env (cola_envs c (i mod NENV)) 0 k;
        promover_desde n q (Suc i) k
      }
      else Some k)"

definition promover_cola :: "cola_id \<Rightarrow> 'a kern_scheme \<Rightarrow> 'a kern_scheme option" where
  "promover_cola q k =
     (let c = cola (mlfq_scheduler k) q in promover_desde (ultimo c - primero c) q (primero c) k)"

definition promover_colas :: "'a kern_scheme \<Rightarrow> 'a kern_scheme option" where
  "promover_colas k = do {
     k \<leftarrow> promover_cola B k;
     k \<leftarrow> promover_cola C k;
     k \<leftarrow> promover_cola D k;
     Some (vaciar_colas k)
   }"

section \<open>Choosing what to run\<close>

text \<open>\<open>sched_halt\<close>: the monitor if nothing can ever run, or wait for an interrupt.\<close>

definition sched_halt :: "'a kern_scheme \<Rightarrow> (fate \<times> 'a kern_scheme) option" where
  "sched_halt k =
     (let i = first_from (\<lambda>i. env_status (envs k i) \<in> {ENV_RUNNABLE, ENV_RUNNING, ENV_DYING}) 0 NENV in
      if i = NENV then Some (In_monitor, k)
      else do {
        let k = k\<lparr>curenv := None, curenv_pgdir := None, cr3 := kern_pgdir k\<rparr>;
        let k = k\<lparr>cpu_status := CPU_HALTED\<rparr>;
        k \<leftarrow> unlock_kernel k;
        Some (Halted, k)
      })"

definition count_run :: "nat \<Rightarrow> 'a kern_scheme \<Rightarrow> 'a kern_scheme" where
  "count_run i k = set_env i ((envs k i)\<lparr>ejecuciones := ejecuciones (envs k i) + 1\<rparr>) k"

definition round_robin :: "'a kern_scheme \<Rightarrow> (fate option \<times> 'a kern_scheme) option" where
  "round_robin k =
     (let index_inicial = (case curenv k of Some c \<Rightarrow> ENVX (env_id (envs k c)) + 1 | None \<Rightarrow> 0);
          i = first_from (\<lambda>i. env_status (envs k ((index_inicial + i) mod NENV)) = ENV_RUNNABLE) 0 NENV in
      if i < NENV
      then do {
        (f, k) \<leftarrow> env_run ((index_inicial + i) mod NENV) (count_run ((index_inicial + i) mod NENV) k);
        Some (Some f, k)
      }
      else (case curenv k of
          Some c \<Rightarrow> if env_status (envs k c) = ENV_RUNNING
            then do {
              (f, k) \<leftarrow> env_run c (count_run c k);
              Some (Some f, k)
            }
            else Some (None, k)
        | None \<Rightarrow> Some (None, k)))"

definition ejecutable :: "'a kern_scheme \<Rightarrow> u32w \<Rightarrow> bool" where
  "ejecutable k eid \<longleftrightarrow> env_status (envs k (ENVX eid)) = ENV_RUNNABLE"

definition tiene_entornos_ejecutables :: "'a kern_scheme \<Rightarrow> MLFQ_cola \<Rightarrow> int \<Rightarrow> int" where
  "tiene_entornos_ejecutables k c posicion_cola =
     (case find_pos (ejecutable k) c of Some _ \<Rightarrow> posicion_cola | None \<Rightarrow> -1)"

fun mejor_desde :: "int list \<Rightarrow> 'a kern_scheme \<Rightarrow> (int \<times> cola_id) option" where
  "mejor_desde [] k = None"
| "mejor_desde (i # is) k =
     (case obtener_cola i of
        None \<Rightarrow> None
      | Some q \<Rightarrow> if tiene_entornos_ejecutables k (cola (mlfq_scheduler k) q) i \<noteq> -1 then Some (i, q)
                  else mejor_desde is k)"

definition obtener_cola_mejor_prioridad :: "'a kern_scheme \<Rightarrow> (int \<times> cola_id) option" where
  "obtener_cola_mejor_prioridad k = mejor_desde [0, 1, 2, 3] k"

definition add_total :: "'a kern_scheme \<Rightarrow> 'a kern_scheme" where
  "add_total k = (let s = mlfq_scheduler k in
     k\<lparr>mlfq_scheduler := s\<lparr>ejecuciones_totales := ejecuciones_totales s + 1\<rparr>\<rparr>)"

definition prioridad_MLFQ :: "'a kern_scheme \<Rightarrow> (fate option \<times> 'a kern_scheme) option" where
  "prioridad_MLFQ k =
     (case obtener_cola_mejor_prioridad k of
        None \<Rightarrow> do {
          (f, k) \<leftarrow> (case curenv k of
              Some c \<Rightarrow> if env_status (envs k c) = ENV_RUNNING
                then env_run c (count_run c (add_total k))
                else sched_halt k
            | None \<Rightarrow> sched_halt k);
          Some (Some f, k)
        }
      | Some (numero_cola, q) \<Rightarrow>
          (let c = cola (mlfq_scheduler k) q in
           case find_pos (ejecutable k) c of
             None \<Rightarrow> Some (None, k)
           | Some i \<Rightarrow> do {
               let siguiente_env_id = cola_envs c (i mod NENV);
               let k = k\<lparr>mlfq_scheduler := set_cola q (sched_borrar_env (i mod NENV) c) (mlfq_scheduler k)\<rparr>;
               let nuevo_numero_cola = (if numero_cola \<ge> COLAS_MAXIMAS - 1 then COLAS_MAXIMAS - 1
                                        else numero_cola + 1);
               k \<leftarrow> sched_agregar_env siguiente_env_id nuevo_numero_cola k;
               (f, k) \<leftarrow> env_run (ENVX siguiente_env_id) (count_run (ENVX siguiente_env_id) (add_total k));
               Some (Some f, k)
             }))"

datatype policy = SCHED_ROUND_ROBIN | SCHED_PRIORITIES

text \<open>The periodic promotion of \<open>sched_yield\<close>.\<close>

definition promocion_periodica :: "'a kern_scheme \<Rightarrow> 'a kern_scheme option" where
  "promocion_periodica k =
     (if ejecuciones_totales (mlfq_scheduler k) \<ge> MAX_EJECUCIONES_MLFQ
      then do {
        k \<leftarrow> promover_colas k;
        let s = mlfq_scheduler k;
        Some (k\<lparr>mlfq_scheduler := s\<lparr>ejecuciones_totales := 0\<rparr>\<rparr>)
      }
      else Some k)"

text \<open>\<open>sched_yield\<close>: the policy, and \<open>sched_halt\<close> if it picked nothing.\<close>

definition sched_yield :: "policy \<Rightarrow> 'a kern_scheme \<Rightarrow> (fate \<times> 'a kern_scheme) option" where
  "sched_yield pol k = do {
     let k = k\<lparr>runs_del_sched := runs_del_sched k + 1\<rparr>;
     (f, k) \<leftarrow> (case pol of
         SCHED_ROUND_ROBIN \<Rightarrow> round_robin k
       | SCHED_PRIORITIES \<Rightarrow> do {
           k \<leftarrow> promocion_periodica k;
           prioridad_MLFQ k
         });
     case f of Some f \<Rightarrow> Some (f, k) | None \<Rightarrow> sched_halt k
   }"

section \<open>A queue as a list\<close>

definition contents :: "MLFQ_cola \<Rightarrow> u32w list" where
  "contents c = map (\<lambda>i. cola_envs c (i mod NENV)) [primero c..<ultimo c]"

definition cola_ok :: "MLFQ_cola \<Rightarrow> bool" where
  "cola_ok c \<longleftrightarrow> primero c \<le> ultimo c \<and> ultimo c - primero c \<le> NENV"

lemma length_contents [simp]: "length (contents c) = ultimo c - primero c"
  by (simp add: contents_def)

lemma nth_contents: "i < ultimo c - primero c \<Longrightarrow> contents c ! i = cola_envs c ((primero c + i) mod NENV)"
  by (simp add: contents_def)

lemma NENV_pos [simp]: "0 < NENV" by (simp add: NENV_def)

text \<open>Two positions of a window of \<open>NENV\<close> share a slot only if they are the same.\<close>

lemma slot_inj:
  "i mod NENV = j mod NENV \<Longrightarrow> p \<le> i \<Longrightarrow> p \<le> j \<Longrightarrow> i < p + NENV \<Longrightarrow> j < p + NENV \<Longrightarrow> i = j"
  by (rule window_inj)

lemma contents_push:
  assumes "cola_ok c" and "ultimo c - primero c < NENV"
  shows "contents (cola_push e c) = contents c @ [e]" "cola_ok (cola_push e c)"
proof -
  have le: "primero c \<le> ultimo c" using assms(1) by (simp add: cola_ok_def)
  have lt: "ultimo c < primero c + NENV" using assms(2) le by linarith
  have ne: "i mod NENV \<noteq> ultimo c mod NENV" if "primero c \<le> i" "i < ultimo c" for i
    using slot_inj [of i "ultimo c" "primero c"] that lt le by auto
  have "map (\<lambda>i. ((cola_envs c)(ultimo c mod NENV := e)) (i mod NENV)) [primero c..<ultimo c] = contents c"
    using ne by (simp add: contents_def)
  then show "contents (cola_push e c) = contents c @ [e]" using le
    by (simp add: contents_def cola_push_def)
  show "cola_ok (cola_push e c)" using assms by (auto simp: cola_ok_def cola_push_def)
qed

text \<open>Removing at position \<open>i\<close>: the first entry takes its place, then the window shrinks.\<close>

lemma contents_borrar:
  assumes ok: "cola_ok c" and i: "primero c \<le> i" "i < ultimo c"
  shows "contents (sched_borrar_env (i mod NENV) c) = tl ((contents c)[i - primero c := hd (contents c)])"
    "cola_ok (sched_borrar_env (i mod NENV) c)"
proof -
  let ?p = "primero c" and ?es = "cola_envs c"
  let ?f = "(?es(?p mod NENV := ?es (i mod NENV)))(i mod NENV := ?es (?p mod NENV))"
  have rng: "ultimo c \<le> ?p + NENV" using ok by (auto simp: cola_ok_def)
  have split: "[?p..<ultimo c] = ?p # [Suc ?p..<ultimo c]" using i by (simp add: upt_conv_Cons)
  have shape: "contents (sched_borrar_env (i mod NENV) c)
      = map (\<lambda>j. if j = i then ?es (?p mod NENV) else ?es (j mod NENV)) [Suc ?p..<ultimo c]"
  proof -
    have val: "?f (j mod NENV) = (if j = i then ?es (?p mod NENV) else ?es (j mod NENV))"
      if "Suc ?p \<le> j" "j < ultimo c" for j
    proof -
      have "j mod NENV \<noteq> ?p mod NENV" using slot_inj [of j ?p ?p] that rng by auto
      moreover have "j mod NENV = i mod NENV \<longleftrightarrow> j = i" using slot_inj [of j i ?p] that rng i by auto
      ultimately show ?thesis by auto
    qed
    show ?thesis
    proof (cases "i mod NENV = ?p")
      case True
      have "?p < NENV" using True by (metis NENV_pos mod_less_divisor)
      then have "i = ?p" using True slot_inj [of i ?p ?p] i rng by simp
      then show ?thesis using True by (simp add: sched_borrar_env_def contents_def cong: map_cong)
    next
      case False
      then have "contents (sched_borrar_env (i mod NENV) c) = map (\<lambda>j. ?f (j mod NENV)) [Suc ?p..<ultimo c]"
        by (simp add: sched_borrar_env_def contents_def Let_def)
      also have "\<dots> = map (\<lambda>j. if j = i then ?es (?p mod NENV) else ?es (j mod NENV)) [Suc ?p..<ultimo c]"
        using val by simp
      finally show ?thesis .
    qed
  qed
  have upd: "(contents c)[i - ?p := hd (contents c)]
      = map (\<lambda>j. if j = i then ?es (?p mod NENV) else ?es (j mod NENV)) [?p..<ultimo c]"
  proof (rule nth_equalityI)
    fix n assume "n < length ((contents c)[i - ?p := hd (contents c)])"
    then have n: "n < ultimo c - ?p" by simp
    have h: "hd (contents c) = ?es (?p mod NENV)" using split by (simp add: contents_def)
    show "(contents c)[i - ?p := hd (contents c)] ! n
        = map (\<lambda>j. if j = i then ?es (?p mod NENV) else ?es (j mod NENV)) [?p..<ultimo c] ! n"
      using n i h by (auto simp: nth_list_update nth_contents)
  qed simp
  show "contents (sched_borrar_env (i mod NENV) c) = tl ((contents c)[i - ?p := hd (contents c)])"
    unfolding upd shape split by simp
  show "cola_ok (sched_borrar_env (i mod NENV) c)"
    using ok i by (auto simp: cola_ok_def sched_borrar_env_def Let_def)
qed

lemma mset_tl_update:
  assumes "i < length xs"
  shows "mset (tl (xs[i := hd xs])) = mset xs - {#xs ! i#}"
proof (cases xs)
  case (Cons x ys)
  show ?thesis
  proof (cases i)
    case 0
    then show ?thesis using Cons by simp
  next
    case (Suc j)
    then show ?thesis using Cons assms by (simp add: mset_update)
  qed
qed (use assms in simp)

lemma find_pos_Some:
  assumes "find_pos p c = Some i" and "primero c \<le> ultimo c"
  shows "primero c \<le> i" "i < ultimo c" "p (cola_envs c (i mod NENV))" "\<And>j. primero c \<le> j \<Longrightarrow> j < i \<Longrightarrow> \<not> p (cola_envs c (j mod NENV))"
  using assms first_from_props [OF assms(2), of "\<lambda>i. p (cola_envs c (i mod NENV))"]
  by (auto simp: find_pos_def Let_def split: if_splits)

lemma find_pos_contents:
  assumes "primero c \<le> ultimo c"
  shows "find_pos p c = None \<longleftrightarrow> (\<forall>e\<in>set (contents c). \<not> p e)"
    "find_pos p c = Some i \<Longrightarrow> contents c ! (i - primero c) = cola_envs c (i mod NENV)
      \<and> find p (contents c) = Some (cola_envs c (i mod NENV))"
proof -
  let ?q = "\<lambda>i. p (cola_envs c (i mod NENV))"
  note pr = first_from_props [OF assms, of ?q]
  show "find_pos p c = None \<longleftrightarrow> (\<forall>e\<in>set (contents c). \<not> p e)"
    using pr by (auto simp: find_pos_def contents_def Let_def)
  assume s: "find_pos p c = Some i"
  note f = find_pos_Some [OF s assms]
  have n: "i - primero c < ultimo c - primero c" "primero c + (i - primero c) = i" using f(1,2) by auto
  then have eq: "contents c ! (i - primero c) = cola_envs c (i mod NENV)" by (simp add: nth_contents)
  have "\<not> p (contents c ! j)" if "j < i - primero c" for j
    using f(4) [of "primero c + j"] that n by (simp add: nth_contents)
  then have "find p (contents c) = Some (cola_envs c (i mod NENV))"
    using n f(3) eq unfolding find_Some_iff by (intro exI [of _ "i - primero c"]) auto
  with eq show "contents c ! (i - primero c) = cola_envs c (i mod NENV)
      \<and> find p (contents c) = Some (cola_envs c (i mod NENV))" by simp
qed

section \<open>The contract of a scheduling queue\<close>

locale sched_queue =
  fixes ok :: "'q \<Rightarrow> bool" and items :: "'q \<Rightarrow> 'e list" and room :: "'q \<Rightarrow> bool"
    and push :: "'e \<Rightarrow> 'q \<Rightarrow> 'q" and take_first :: "('e \<Rightarrow> bool) \<Rightarrow> 'q \<Rightarrow> ('e \<times> 'q) option"
  assumes push_items: "ok q \<Longrightarrow> room q \<Longrightarrow> ok (push e q) \<and> items (push e q) = items q @ [e]"
    and take_none: "ok q \<Longrightarrow> take_first p q = None \<longleftrightarrow> (\<forall>e\<in>set (items q). \<not> p e)"
    and take_some: "ok q \<Longrightarrow> take_first p q = Some (e, q') \<Longrightarrow>
      ok q' \<and> room q' \<and> find p (items q) = Some e \<and> mset (items q') = mset (items q) - {#e#}"
begin

text \<open>Moving the first entry that satisfies a test to another queue keeps all entries.\<close>

lemma move_conserves:
  assumes "ok q" and "ok r" and "room r" and "take_first p q = Some (e, q')"
  shows "ok q' \<and> ok (push e r) \<and> p e \<and> mset (items q') + mset (items (push e r)) = mset (items q) + mset (items r)"
proof -
  note t = take_some [OF assms(1,4)] and u = push_items [OF assms(2,3), of e]
  have e: "p e" "e \<in> set (items q)" using t by (auto simp: find_Some_iff)
  then have "mset (items q') + {#e#} = mset (items q)" using t by simp
  then show ?thesis using t u e by (simp add: ac_simps)
qed

text \<open>Taking the first entry and putting it back at the end keeps the entries and finds room.\<close>

lemma rotate_conserves:
  assumes "ok q" and "take_first p q = Some (e, q')"
  shows "ok (push e q') \<and> mset (items (push e q')) = mset (items q)"
proof -
  note t = take_some [OF assms]
  have "e \<in> set (items q)" using t by (auto simp: find_Some_iff)
  then show ?thesis using t push_items [of q' e] by simp
qed

end

definition cola_room :: "MLFQ_cola \<Rightarrow> bool" where
  "cola_room c \<longleftrightarrow> ultimo c - primero c < NENV"

text \<open>How \<open>prioridad_MLFQ\<close> and \<open>sched_eliminar_env\<close> use a queue: find a position, delete it.\<close>

definition cola_take :: "(u32w \<Rightarrow> bool) \<Rightarrow> MLFQ_cola \<Rightarrow> (u32w \<times> MLFQ_cola) option" where
  "cola_take p c = map_option (\<lambda>i. (cola_envs c (i mod NENV), sched_borrar_env (i mod NENV) c)) (find_pos p c)"

interpretation colas: sched_queue cola_ok contents cola_room cola_push cola_take
proof
  fix q :: MLFQ_cola and e p q'
  show "cola_ok (cola_push e q) \<and> contents (cola_push e q) = contents q @ [e]" if "cola_ok q" "cola_room q"
    using contents_push [OF that(1)] that(2) by (simp add: cola_room_def)
  show "cola_take p q = None \<longleftrightarrow> (\<forall>e\<in>set (contents q). \<not> p e)" if "cola_ok q"
    using find_pos_contents(1) [of q p] that by (auto simp: cola_take_def cola_ok_def)
  assume ok: "cola_ok q" and t: "cola_take p q = Some (e, q')"
  then obtain i where i: "find_pos p q = Some i" "e = cola_envs q (i mod NENV)" "q' = sched_borrar_env (i mod NENV) q"
    by (auto simp: cola_take_def)
  have le: "primero q \<le> ultimo q" using ok by (simp add: cola_ok_def)
  note f = find_pos_Some [OF i(1) le] and g = find_pos_contents(2) [OF le i(1)]
  note b = contents_borrar [OF ok f(1,2)]
  have ne: "i - primero q < length (contents q)" using f by simp
  have "mset (contents q') = mset (contents q) - {#e#}"
    using mset_tl_update [OF ne] g i b by simp
  moreover have "cola_room q'" using ok f i
    by (auto simp: cola_room_def cola_ok_def sched_borrar_env_def Let_def)
  ultimately show "cola_ok q' \<and> cola_room q' \<and> find p (contents q) = Some e \<and> mset (contents q') = mset (contents q) - {#e#}"
    using b g i by simp
qed

text \<open>Which list a taken queue is: the first entry took the place of the one that left.\<close>

lemma take_shape:
  assumes "cola_ok q" and "cola_take p q = Some (e, q')"
  obtains i where "i < length (contents q)" "contents q ! i = e" "p e" "\<And>j. j < i \<Longrightarrow> \<not> p (contents q ! j)"
    "contents q' = tl ((contents q)[i := hd (contents q)])"
proof -
  obtain i where i: "find_pos p q = Some i" "e = cola_envs q (i mod NENV)" "q' = sched_borrar_env (i mod NENV) q"
    using assms(2) by (auto simp: cola_take_def)
  have le: "primero q \<le> ultimo q" using assms(1) by (simp add: cola_ok_def)
  note f = find_pos_Some [OF i(1) le]
  show thesis
  proof (rule that [of "i - primero q"])
    show "\<not> p (contents q ! j)" if "j < i - primero q" for j
      using f(2) f(4) [of "primero q + j"] that by (simp add: nth_contents)
  qed (use f i contents_borrar [OF assms(1) f(1,2)] find_pos_contents(2) [OF le i(1)] in auto)
qed

section \<open>All queues together\<close>

definition items :: "'a kern_scheme \<Rightarrow> cola_id \<Rightarrow> u32w list" where
  "items k q = contents (cola (mlfq_scheduler k) q)"

definition total :: "'a kern_scheme \<Rightarrow> u32w multiset" where
  "total k = mset (items k A) + mset (items k B) + mset (items k C) + mset (items k D)"

definition queues_ok :: "'a kern_scheme \<Rightarrow> bool" where
  "queues_ok k \<longleftrightarrow> (\<forall>q. cola_ok (cola (mlfq_scheduler k) q)) \<and> size (total k) \<le> NENV"

lemma cola_set_cola [simp]: "cola (set_cola q c s) r = (if r = q then c else cola s r)"
  by (cases q; cases r) (simp_all add: cola_def set_cola_def)

lemma cola_totales [simp]: "cola (s\<lparr>ejecuciones_totales := n\<rparr>) q = cola s q"
  by (cases q) (simp_all add: cola_def)

lemma ejecuciones_set_cola [simp]: "ejecuciones_totales (set_cola q c s) = ejecuciones_totales s"
  by (cases q) (simp_all add: set_cola_def)

lemma items_same [simp]:
  "items (set_env i e k) q = items k q" "items (count_run i k) q = items k q" "items (add_total k) q = items k q"
  "items (k\<lparr>runs_del_sched := n\<rparr>) q = items k q" "items (preempt k) q = items k q"
  by (simp_all add: items_def count_run_def add_total_def Let_def)

lemma size_total: "size (total k) = length (items k A) + length (items k B) + length (items k C) + length (items k D)"
  by (simp add: total_def items_def)

lemma total_cong: "(\<And>q. items k' q = items k q) \<Longrightarrow> total k' = total k"
  by (simp add: total_def)

lemma queues_ok_cong: "(\<And>q. cola (mlfq_scheduler k') q = cola (mlfq_scheduler k) q) \<Longrightarrow> queues_ok k' = queues_ok k"
  by (simp add: queues_ok_def total_def items_def)

lemma agregar_ok:
  assumes "obtener_cola v = Some q"
  shows "sched_agregar_env e v k = Some (set_env (ENVX e) ((envs k (ENVX e))\<lparr>cola_actual := v\<rparr>) k
      \<lparr>mlfq_scheduler := set_cola q (cola_push e (cola (mlfq_scheduler k) q)) (mlfq_scheduler k)\<rparr>)"
  using assms by (simp add: sched_agregar_env_def Let_def)

text \<open>The entries of a queue other than the first join it.\<close>

lemma promover_desde_ok:
  assumes "q \<noteq> A" and "i + n \<le> ultimo (cola (mlfq_scheduler k) q)" and "cola_ok (cola (mlfq_scheduler k) A)"
    and "length (items k A) + n \<le> NENV"
  shows "\<exists>k'. promover_desde n q i k = Some k' \<and> cola_ok (cola (mlfq_scheduler k') A)
    \<and> items k' A = items k A @ map (\<lambda>j. cola_envs (cola (mlfq_scheduler k) q) (j mod NENV)) [i..<i + n]
    \<and> (\<forall>r. r \<noteq> A \<longrightarrow> cola (mlfq_scheduler k') r = cola (mlfq_scheduler k) r)
    \<and> ejecuciones_totales (mlfq_scheduler k') = ejecuciones_totales (mlfq_scheduler k)
    \<and> (\<forall>x. env_status (envs k' x) = env_status (envs k x) \<and> env_pgdir (envs k' x) = env_pgdir (envs k x) \<and> ejecuciones (envs k' x) = ejecuciones (envs k x))
    \<and> curenv k' = curenv k \<and> lock_holder k' = lock_holder k \<and> cpunum k' = cpunum k"
  using assms(2-4)
proof (induction n arbitrary: i k)
  case 0
  then show ?case by simp
next
  case (Suc n)
  let ?c = "cola (mlfq_scheduler k) q" and ?a = "cola (mlfq_scheduler k) A"
  let ?e = "cola_envs ?c (i mod NENV)"
  let ?k1 = "set_env (ENVX ?e) ((envs k (ENVX ?e))\<lparr>cola_actual := 0\<rparr>) k
      \<lparr>mlfq_scheduler := set_cola A (cola_push ?e ?a) (mlfq_scheduler k)\<rparr>"
  have ag: "sched_agregar_env ?e 0 k = Some ?k1" by (rule agregar_ok) (simp add: obtener_cola_def)
  have "ultimo ?a - primero ?a < NENV" using Suc.prems(3) by (simp add: items_def)
  note push = contents_push [OF Suc.prems(2) this, of ?e]
  have it: "items ?k1 A = items k A @ [?e]" using push by (simp add: items_def)
  have cq: "cola (mlfq_scheduler ?k1) r = cola (mlfq_scheduler k) r" if "r \<noteq> A" for r using that by simp
  obtain k' where k': "promover_desde n q (Suc i) ?k1 = Some k'" "cola_ok (cola (mlfq_scheduler k') A)"
    "items k' A = items ?k1 A @ map (\<lambda>j. cola_envs (cola (mlfq_scheduler ?k1) q) (j mod NENV)) [Suc i..<Suc i + n]"
    "\<forall>r. r \<noteq> A \<longrightarrow> cola (mlfq_scheduler k') r = cola (mlfq_scheduler ?k1) r"
    "ejecuciones_totales (mlfq_scheduler k') = ejecuciones_totales (mlfq_scheduler ?k1)"
    "\<forall>x. env_status (envs k' x) = env_status (envs ?k1 x) \<and> env_pgdir (envs k' x) = env_pgdir (envs ?k1 x) \<and> ejecuciones (envs k' x) = ejecuciones (envs ?k1 x)"
    "curenv k' = curenv ?k1 \<and> lock_holder k' = lock_holder ?k1 \<and> cpunum k' = cpunum ?k1"
    using Suc.IH [of "Suc i" ?k1] Suc.prems push(2) it assms(1) by auto
  have "promover_desde (Suc n) q i k = Some k'" using Suc.prems(1) ag k'(1) by (simp add: Let_def)
  moreover have "[i..<i + Suc n] = i # [Suc i..<Suc i + n]" by (simp add: upt_conv_Cons)
  ultimately show ?case using k' it cq assms(1) by (intro exI [of _ k']) simp
qed

lemma promover_cola_ok:
  assumes "q \<noteq> A" and "cola_ok (cola (mlfq_scheduler k) q)" and "cola_ok (cola (mlfq_scheduler k) A)"
    and "length (items k A) + length (items k q) \<le> NENV"
  shows "\<exists>k'. promover_cola q k = Some k' \<and> cola_ok (cola (mlfq_scheduler k') A)
    \<and> items k' A = items k A @ items k q
    \<and> (\<forall>r. r \<noteq> A \<longrightarrow> cola (mlfq_scheduler k') r = cola (mlfq_scheduler k) r)
    \<and> ejecuciones_totales (mlfq_scheduler k') = ejecuciones_totales (mlfq_scheduler k)
    \<and> (\<forall>x. env_status (envs k' x) = env_status (envs k x) \<and> env_pgdir (envs k' x) = env_pgdir (envs k x) \<and> ejecuciones (envs k' x) = ejecuciones (envs k x))
    \<and> curenv k' = curenv k \<and> lock_holder k' = lock_holder k \<and> cpunum k' = cpunum k"
proof -
  let ?c = "cola (mlfq_scheduler k) q"
  have le: "primero ?c \<le> ultimo ?c" using assms(2) by (simp add: cola_ok_def)
  then have "items k q = map (\<lambda>j. cola_envs ?c (j mod NENV)) [primero ?c..<primero ?c + (ultimo ?c - primero ?c)]"
    by (simp add: items_def contents_def)
  then show ?thesis
    using promover_desde_ok [OF assms(1) _ assms(3), of "primero ?c" "ultimo ?c - primero ?c"] le assms(4)
    by (simp add: promover_cola_def Let_def items_def)
qed

lemma cola_simps: "cola s A = cola_a s" "cola s B = cola_b s" "cola s C = cola_c s" "cola s D = cola_d s"
  by (simp_all add: cola_def)

lemma empty_vaciar: "contents (vaciar_cola c) = []" "cola_ok (vaciar_cola c)"
  by (simp_all add: contents_def vaciar_cola_def cola_ok_def)

lemma promover_colas_ok:
  assumes "queues_ok k"
  shows "\<exists>k'. promover_colas k = Some k' \<and> queues_ok k'
    \<and> items k' A = items k A @ items k B @ items k C @ items k D \<and> (\<forall>q. q \<noteq> A \<longrightarrow> items k' q = [])
    \<and> (\<forall>x. env_status (envs k' x) = env_status (envs k x) \<and> env_pgdir (envs k' x) = env_pgdir (envs k x) \<and> ejecuciones (envs k' x) = ejecuciones (envs k x))
    \<and> curenv k' = curenv k \<and> lock_holder k' = lock_holder k \<and> cpunum k' = cpunum k"
proof -
  have ok: "cola_ok (cola (mlfq_scheduler k) q)" for q using assms by (simp add: queues_ok_def)
  have len: "length (items k A) + length (items k B) + length (items k C) + length (items k D) \<le> NENV"
    using assms by (simp add: queues_ok_def size_total)
  note keep = conj_assoc
  obtain k1 where k1: "promover_cola B k = Some k1" "cola_ok (cola (mlfq_scheduler k1) A)"
    "items k1 A = items k A @ items k B" "\<And>r. r \<noteq> A \<Longrightarrow> cola (mlfq_scheduler k1) r = cola (mlfq_scheduler k) r"
    "\<And>x. env_status (envs k1 x) = env_status (envs k x)" "\<And>x. env_pgdir (envs k1 x) = env_pgdir (envs k x)"
    "\<And>x. ejecuciones (envs k1 x) = ejecuciones (envs k x)"
    "curenv k1 = curenv k" "lock_holder k1 = lock_holder k" "cpunum k1 = cpunum k"
    using promover_cola_ok [of B k] ok len by fastforce
  have i1: "items k1 C = items k C" "items k1 D = items k D" using k1(4) by (simp_all add: items_def)
  obtain k2 where k2: "promover_cola C k1 = Some k2" "cola_ok (cola (mlfq_scheduler k2) A)"
    "items k2 A = items k1 A @ items k1 C" "\<And>r. r \<noteq> A \<Longrightarrow> cola (mlfq_scheduler k2) r = cola (mlfq_scheduler k1) r"
    "\<And>x. env_status (envs k2 x) = env_status (envs k1 x)" "\<And>x. env_pgdir (envs k2 x) = env_pgdir (envs k1 x)"
    "\<And>x. ejecuciones (envs k2 x) = ejecuciones (envs k1 x)"
    "curenv k2 = curenv k1" "lock_holder k2 = lock_holder k1" "cpunum k2 = cpunum k1"
    using promover_cola_ok [of C k1] ok [of C] k1(2,3) k1(4) [of C] len i1 by auto
  have i2: "items k2 D = items k D" using k1(4) k2(4) by (simp add: items_def)
  obtain k3 where k3: "promover_cola D k2 = Some k3" "cola_ok (cola (mlfq_scheduler k3) A)"
    "items k3 A = items k2 A @ items k2 D"
    "\<And>x. env_status (envs k3 x) = env_status (envs k2 x)" "\<And>x. env_pgdir (envs k3 x) = env_pgdir (envs k2 x)"
    "\<And>x. ejecuciones (envs k3 x) = ejecuciones (envs k2 x)"
    "curenv k3 = curenv k2" "lock_holder k3 = lock_holder k2" "cpunum k3 = cpunum k2"
    using promover_cola_ok [of D k2] ok [of D] k1(3) k1(4) [of D] k2(2,3) k2(4) [of D] len i1 i2 by auto
  let ?k = "vaciar_colas k3"
  have run: "promover_colas k = Some ?k" using k1(1) k2(1) k3(1) by (simp add: promover_colas_def)
  have A: "items ?k A = items k A @ items k B @ items k C @ items k D"
    using k1(3) k2(3) k3(3) i1 i2 by (simp add: items_def vaciar_colas_def Let_def cola_simps)
  have others: "items ?k q = []" if "q \<noteq> A" for q
    using that by (cases q) (simp_all add: items_def vaciar_colas_def Let_def empty_vaciar cola_simps)
  have oks: "cola_ok (cola (mlfq_scheduler ?k) q)" for q
    using k3(2) by (cases q) (simp_all add: vaciar_colas_def Let_def empty_vaciar cola_simps)
  have "size (total ?k) \<le> NENV" using len A others by (simp add: size_total)
  with oks have "queues_ok ?k" by (simp add: queues_ok_def)
  then show ?thesis using run A others k1 k2 k3
    by (intro exI [of _ ?k]) (simp add: vaciar_colas_def Let_def)
qed

section \<open>The choice of the priority policy\<close>

lemma tiene_iff:
  assumes "cola_ok c" and "0 \<le> n"
  shows "tiene_entornos_ejecutables k c n \<noteq> -1 \<longleftrightarrow> (\<exists>e\<in>set (contents c). ejecutable k e)"
  using find_pos_contents(1) [of c "ejecutable k"] assms
  by (auto simp: tiene_entornos_ejecutables_def cola_ok_def split: option.split)

definition runnable_in :: "'a kern_scheme \<Rightarrow> cola_id \<Rightarrow> bool" where
  "runnable_in k q \<longleftrightarrow> (\<exists>e\<in>set (items k q). ejecutable k e)"

lemma mejor_prioridad:
  assumes "queues_ok k"
  shows "obtener_cola_mejor_prioridad k =
    (if runnable_in k A then Some (0, A) else if runnable_in k B then Some (1, B)
     else if runnable_in k C then Some (2, C) else if runnable_in k D then Some (3, D) else None)"
proof -
  have "cola_ok (cola (mlfq_scheduler k) q)" for q using assms by (simp add: queues_ok_def)
  from this [of A] this [of B] this [of C] this [of D] show ?thesis
    by (simp add: obtener_cola_mejor_prioridad_def obtener_cola_def tiene_iff runnable_in_def items_def)
qed

text \<open>The next level down; the last level is its own successor.\<close>

definition demote :: "cola_id \<Rightarrow> cola_id" where
  "demote q = (case q of A \<Rightarrow> B | B \<Rightarrow> C | C \<Rightarrow> D | D \<Rightarrow> D)"

definition level :: "cola_id \<Rightarrow> int" where
  "level q = (case q of A \<Rightarrow> 0 | B \<Rightarrow> 1 | C \<Rightarrow> 2 | D \<Rightarrow> 3)"

lemma obtener_level: "obtener_cola (level q) = Some q"
  by (cases q) (simp_all add: obtener_cola_def level_def)

lemma nuevo_numero: "(if level q \<ge> COLAS_MAXIMAS - 1 then COLAS_MAXIMAS - 1 else level q + 1) = level (demote q)"
  by (cases q) (simp_all add: level_def demote_def COLAS_MAXIMAS_def)

lemma mejor_level:
  assumes "queues_ok k" and "obtener_cola_mejor_prioridad k = Some (n, q)"
  shows "n = level q" "runnable_in k q" "\<And>r. level r < level q \<Longrightarrow> \<not> runnable_in k r"
proof -
  show "n = level q" "runnable_in k q"
    using assms(2) unfolding mejor_prioridad [OF assms(1)] by (auto simp: level_def split: if_splits)
  show "\<not> runnable_in k r" if "level r < level q" for r
    using assms(2) that unfolding mejor_prioridad [OF assms(1)]
    by (cases r) (auto simp: level_def split: if_splits)
qed

text \<open>The state after the chosen entry was moved, before it runs.\<close>

definition moved :: "'a kern_scheme \<Rightarrow> cola_id \<Rightarrow> u32w \<Rightarrow> MLFQ_cola \<Rightarrow> 'a kern_scheme" where
  "moved k q e c = (let k1 = k\<lparr>mlfq_scheduler := set_cola q c (mlfq_scheduler k)\<rparr>;
     r = demote q in
     set_env (ENVX e) ((envs k (ENVX e))\<lparr>cola_actual := level r\<rparr>) k1
       \<lparr>mlfq_scheduler := set_cola r (cola_push e (cola (mlfq_scheduler k1) r)) (mlfq_scheduler k1)\<rparr>)"

lemma prioridad_pick:
  assumes ok: "queues_ok k" and best: "obtener_cola_mejor_prioridad k = Some (n, q)"
  obtains e c where "cola_take (ejecutable k) (cola (mlfq_scheduler k) q) = Some (e, c)"
    "prioridad_MLFQ k = Option.bind (env_run (ENVX e) (count_run (ENVX e) (add_total (moved k q e c))))
       (\<lambda>(f, k). Some (Some f, k))"
proof -
  have co: "cola_ok (cola (mlfq_scheduler k) q)" using ok by (simp add: queues_ok_def)
  have n: "n = level q" "runnable_in k q" using mejor_level [OF ok best] by simp_all
  then have "find_pos (ejecutable k) (cola (mlfq_scheduler k) q) \<noteq> None"
    using find_pos_contents(1) [of "cola (mlfq_scheduler k) q" "ejecutable k"] co
    by (auto simp: runnable_in_def items_def cola_ok_def)
  then obtain i where i: "find_pos (ejecutable k) (cola (mlfq_scheduler k) q) = Some i" by auto
  let ?c = "cola (mlfq_scheduler k) q"
  let ?e = "cola_envs ?c (i mod NENV)" and ?d = "sched_borrar_env (i mod NENV) ?c"
  have "sched_agregar_env ?e (level (demote q)) (k\<lparr>mlfq_scheduler := set_cola q ?d (mlfq_scheduler k)\<rparr>)
      = Some (moved k q ?e ?d)"
    by (subst agregar_ok [OF obtener_level]) (simp add: moved_def Let_def)
  then have "prioridad_MLFQ k = Option.bind (env_run (ENVX ?e) (count_run (ENVX ?e) (add_total (moved k q ?e ?d))))
       (\<lambda>(f, k). Some (Some f, k))"
    using best i by (simp add: prioridad_MLFQ_def n(1) nuevo_numero Let_def)
  moreover have "cola_take (ejecutable k) ?c = Some (?e, ?d)" using i by (simp add: cola_take_def)
  ultimately show thesis by (intro that)
qed

text \<open>Moving keeps the entries and the queues' shape.\<close>

lemma total_split: "total k = mset (items k q) + (total k - mset (items k q))"
  by (cases q) (simp_all add: total_def ac_simps)

lemma total_two: "q \<noteq> r \<Longrightarrow> \<exists>M. \<forall>k'. (\<forall>x. x \<noteq> q \<and> x \<noteq> r \<longrightarrow> items k' x = items k x) \<longrightarrow>
    total k' = mset (items k' q) + mset (items k' r) + M"
  by (cases q; cases r) (auto simp: total_def ac_simps intro!: exI [of _ "mset (items k A)"]
      exI [of _ "mset (items k A) + mset (items k B)"])

lemma moved_ok:
  assumes ok: "queues_ok k" and t: "cola_take (ejecutable k) (cola (mlfq_scheduler k) q) = Some (e, c)"
  shows "queues_ok (moved k q e c)" "total (moved k q e c) = total k" "ejecutable k e"
    "find (ejecutable k) (items k q) = Some e"
    "q \<noteq> D \<Longrightarrow> items (moved k q e c) (demote q) = items k (demote q) @ [e]"
    "q \<noteq> D \<Longrightarrow> mset (items (moved k q e c) q) = mset (items k q) - {#e#}"
    "\<And>x. x \<noteq> q \<Longrightarrow> x \<noteq> demote q \<Longrightarrow> items (moved k q e c) x = items k x"
proof -
  have co: "cola_ok (cola (mlfq_scheduler k) x)" for x using ok by (simp add: queues_ok_def)
  note ts = colas.take_some [OF co t]
  show f: "find (ejecutable k) (items k q) = Some e" using ts by (simp add: items_def)
  then show "ejecutable k e" by (auto simp: find_Some_iff)
  have em: "e \<in> set (items k q)" using f by (auto simp: find_Some_iff)
  show oth: "items (moved k q e c) x = items k x" if "x \<noteq> q" "x \<noteq> demote q" for x
    using that by (simp add: items_def moved_def Let_def)
  have "queues_ok (moved k q e c) \<and> total (moved k q e c) = total k
    \<and> (q \<noteq> D \<longrightarrow> items (moved k q e c) (demote q) = items k (demote q) @ [e]
        \<and> mset (items (moved k q e c) q) = mset (items k q) - {#e#})"
  proof (cases "q = D")
    case True
    have d: "demote q = q" using True by (simp add: demote_def)
    have "cola_ok (cola_push e c)" "mset (contents (cola_push e c)) = mset (items k q)"
      using colas.rotate_conserves [OF co t] by (simp_all add: items_def)
    then have "mset (items (moved k q e c) q) = mset (items k q)" "cola_ok (cola (mlfq_scheduler (moved k q e c)) x)" for x
      using co d by (simp_all add: items_def moved_def Let_def)
    moreover from this have "total (moved k q e c) = total k" using oth True d
      by (simp add: total_def)
    ultimately show ?thesis using ok True by (simp add: queues_ok_def)
  next
    case False
    let ?r = "demote q"
    have ne: "?r \<noteq> q" using False by (cases q) (simp_all add: demote_def)
    obtain M where M: "\<And>k' :: 'a kern_scheme. (\<forall>x. x \<noteq> q \<and> x \<noteq> ?r \<longrightarrow> items k' x = items k x) \<Longrightarrow>
        total k' = mset (items k' q) + mset (items k' ?r) + M"
      using total_two [of q ?r k] ne by metis
    have "size (total k) \<le> NENV" using ok by (simp add: queues_ok_def)
    then have "length (items k q) + length (items k ?r) \<le> NENV" using M [of k] by simp
    moreover have "0 < length (items k q)" using em by auto
    ultimately have room: "cola_room (cola (mlfq_scheduler k) ?r)"
      by (simp add: cola_room_def items_def)
    note mv = colas.move_conserves [OF co co room t] and ps = colas.push_items [OF co room, of e]
    have i: "items (moved k q e c) q = contents c" "items (moved k q e c) ?r = items k ?r @ [e]"
      using ne ps by (simp_all add: items_def moved_def Let_def)
    have tot: "total (moved k q e c) = total k"
      using M [of k] M [of "moved k q e c"] oth i mv ps by (simp add: items_def)
    have "cola_ok (cola (mlfq_scheduler (moved k q e c)) x)" for x
      using ts ps co ne by (simp add: moved_def Let_def)
    then show ?thesis using tot ok i ts by (simp add: queues_ok_def items_def)
  qed
  then show "queues_ok (moved k q e c)" "total (moved k q e c) = total k"
    "q \<noteq> D \<Longrightarrow> items (moved k q e c) (demote q) = items k (demote q) @ [e]"
    "q \<noteq> D \<Longrightarrow> mset (items (moved k q e c) q) = mset (items k q) - {#e#}" by auto
qed

end
