(* ===== verification/Sched_Props.thy ===== *)
theory Sched_Props
  imports Sched
begin

text \<open>
  What \<open>sched_yield\<close> promises under the two policies: what it runs next, that the queues
  keep every entry, how long an environment waits, and when it gives up. The kernel lock is
  held when it is called, and a queued environment has an address space.
\<close>

section \<open>One call under the priority policy\<close>

definition ready :: "'a kern_scheme \<Rightarrow> bool" where
  "ready k \<longleftrightarrow> queues_ok k \<and> lock_holder k = Some (cpunum k)
    \<and> (\<forall>e \<in># total k. env_pgdir (envs k (ENVX e)) \<noteq> None)"

definition best :: "'a kern_scheme \<Rightarrow> cola_id \<Rightarrow> bool" where
  "best k q \<longleftrightarrow> runnable_in k q \<and> (\<forall>r. level r < level q \<longrightarrow> \<not> runnable_in k r)"

text \<open>The queues after the promotion, if it is due.\<close>

definition boosted_items :: "'a kern_scheme \<Rightarrow> cola_id \<Rightarrow> u32w list" where
  "boosted_items k q = (if ejecuciones_totales (mlfq_scheduler k) \<ge> MAX_EJECUCIONES_MLFQ
     then (if q = A then items k A @ items k B @ items k C @ items k D else []) else items k q)"

definition same_envs :: "'a kern_scheme \<Rightarrow> 'a kern_scheme \<Rightarrow> bool" where
  "same_envs k k' \<longleftrightarrow> (\<forall>x. env_status (envs k' x) = env_status (envs k x) \<and> env_pgdir (envs k' x) = env_pgdir (envs k x)
      \<and> ejecuciones (envs k' x) = ejecuciones (envs k x))
    \<and> curenv k' = curenv k \<and> lock_holder k' = lock_holder k \<and> cpunum k' = cpunum k"

lemma boost_ok:
  assumes "queues_ok k"
  obtains k0 where "promocion_periodica k = Some k0" "queues_ok k0" "\<And>q. items k0 q = boosted_items k q"
    "same_envs k k0" "total k0 = total k"
    "ejecuciones_totales (mlfq_scheduler k0) = (if ejecuciones_totales (mlfq_scheduler k) \<ge> MAX_EJECUCIONES_MLFQ
       then 0 else ejecuciones_totales (mlfq_scheduler k))"
proof (cases "ejecuciones_totales (mlfq_scheduler k) \<ge> MAX_EJECUCIONES_MLFQ")
  case True
  obtain k1 where k1: "promover_colas k = Some k1" "queues_ok k1"
    "items k1 A = items k A @ items k B @ items k C @ items k D" "\<forall>q. q \<noteq> A \<longrightarrow> items k1 q = []" "same_envs k k1"
    using promover_colas_ok [OF assms] by (auto simp: same_envs_def)
  let ?k = "k1\<lparr>mlfq_scheduler := (mlfq_scheduler k1)\<lparr>ejecuciones_totales := 0\<rparr>\<rparr>"
  have i: "items ?k q = boosted_items k q" for q using k1(3,4) True by (simp add: boosted_items_def items_def)
  have t: "total ?k = total k" using k1(3,4) True by (simp add: total_def i boosted_items_def)
  have q: "queues_ok ?k" using k1(2) by (subst queues_ok_cong [of _ k1]) simp_all
  show thesis
    using True k1 by (intro that [OF _ q i _ t]) (simp_all add: promocion_periodica_def Let_def same_envs_def)
next
  case False
  then show thesis using assms
    by (intro that [of k]) (simp_all add: promocion_periodica_def boosted_items_def same_envs_def)
qed

lemma level_nonneg [simp]: "0 \<le> level q" by (cases q) (simp_all add: level_def)

lemma runnable_best:
  assumes "e \<in># total k" and "ejecutable k e"
  shows "\<exists>q. best k q"
proof -
  have "\<exists>q0. runnable_in k q0" using assms by (auto simp: total_def runnable_in_def)
  then obtain q where q: "runnable_in k q" "\<forall>r. runnable_in k r \<longrightarrow> nat (level q) \<le> nat (level r)"
    using ex_has_least_nat [of "runnable_in k" _ "\<lambda>q. nat (level q)"] by blast
  have "\<not> runnable_in k r" if "level r < level q" for r
    using q(2) that level_nonneg [of r] by (metis nat_mono_iff not_le order_le_less_trans)
  with q(1) show ?thesis by (auto simp: best_def)
qed

lemma best_mejor:
  assumes "queues_ok k" and "best k q"
  shows "obtener_cola_mejor_prioridad k = Some (level q, q)"
proof -
  have "\<not> runnable_in k r" if "level r < level q" for r using assms(2) that by (simp add: best_def)
  from this [of A] this [of B] this [of C] show ?thesis
    using assms(2) unfolding mejor_prioridad [OF assms(1)] best_def by (cases q) (auto simp: level_def)
qed

lemma items_total: "e \<in> set (items k q) \<Longrightarrow> e \<in># total k"
  by (cases q) (simp_all add: total_def)

lemma items_ready:
  assumes "find p (items k q) = Some e"
  shows "e \<in># total k" "p e"
proof -
  have "e \<in> set (items k q)" "p e" using assms by (auto simp: find_Some_iff)
  then show "e \<in># total k" "p e" by (cases q; simp add: total_def)+
qed

text \<open>The call when some queued environment is runnable: everything it does.\<close>

definition runs_next :: "'a kern_scheme \<Rightarrow> cola_id \<Rightarrow> u32w \<Rightarrow> 'a kern_scheme \<Rightarrow> bool" where
  "runs_next k q e k' \<longleftrightarrow> curenv k' = Some (ENVX e) \<and> env_status (envs k' (ENVX e)) = ENV_RUNNING
    \<and> cola_actual (envs k' (ENVX e)) = level (demote q)
    \<and> ejecuciones (envs k' (ENVX e)) = ejecuciones (envs k (ENVX e)) + 1
    \<and> (\<forall>i. i \<noteq> ENVX e \<longrightarrow> env_status (envs k' i) = env_status (envs k i)
        \<or> curenv k = Some i \<and> env_status (envs k i) = ENV_RUNNING \<and> env_status (envs k' i) = ENV_RUNNABLE)
    \<and> lock_holder k' = None \<and> queues_ok k' \<and> total k' = total k
    \<and> (\<forall>i. env_pgdir (envs k' i) = env_pgdir (envs k i)) \<and> cpunum k' = cpunum k"

lemma runs_moved:
  assumes ok: "queues_ok k0" and same: "same_envs k k0" and lock: "lock_holder k = Some (cpunum k)"
    and tot: "total k0 = total k" and pg: "\<forall>e \<in># total k. env_pgdir (envs k (ENVX e)) \<noteq> None"
    and t: "cola_take (ejecutable k0) (cola (mlfq_scheduler k0) q) = Some (e, c)"
  obtains k' where
    "env_run (ENVX e) (count_run (ENVX e) (add_total (moved k0 q e c))) = Some (Runs (ENVX e), k')"
    "runs_next k q e k'" "mlfq_scheduler k' = mlfq_scheduler (add_total (moved k0 q e c))"
proof -
  let ?m = "count_run (ENVX e) (add_total (moved k0 q e c))"
  note m = moved_ok [OF ok t]
  have "e \<in># total k" using items_ready [OF m(4)] tot by simp
  then obtain d where "env_pgdir (envs k (ENVX e)) = Some d" using pg by auto
  then have d: "env_pgdir (envs ?m (ENVX e)) = Some d"
    using same by (simp add: count_run_def add_total_def moved_def Let_def same_envs_def)
  have l: "lock_holder ?m = Some (cpunum ?m)"
    using same lock by (simp add: count_run_def add_total_def moved_def Let_def same_envs_def)
  have st: "env_status (envs ?m i) = env_status (envs k i)" "curenv ?m = curenv k" "cpunum ?m = cpunum k"
    "env_pgdir (envs ?m i) = env_pgdir (envs k i)" for i
    using same by (simp_all add: count_run_def add_total_def moved_def Let_def same_envs_def)
  have own: "cola_actual (envs ?m (ENVX e)) = level (demote q)"
    "ejecuciones (envs ?m (ENVX e)) = ejecuciones (envs k (ENVX e)) + 1"
    using same by (simp_all add: same_envs_def count_run_def add_total_def moved_def Let_def)
  show thesis
  proof (rule env_run_ok [OF d l], goal_cases)
    case (1 k')
    have q: "queues_ok k' = queues_ok (moved k0 q e c)" "total k' = total (moved k0 q e c)"
      using 1(4) by (simp_all add: queues_ok_def total_def items_def count_run_def add_total_def Let_def)
    have "env_status (envs k' i) = env_status (envs k i)
        \<or> curenv k = Some i \<and> env_status (envs k i) = ENV_RUNNING \<and> env_status (envs k' i) = ENV_RUNNABLE"
      if "i \<noteq> ENVX e" for i using 1(15) [OF that] st by auto
    then have "runs_next k q e k'" unfolding runs_next_def
      using 1(2,3,7,9,10,13,14) q m(1,2) tot st own by auto
    then show thesis using 1 by (intro that [OF 1(1)]) (simp_all add: count_run_def)
  qed
qed

text \<open>The call, when something can run.\<close>

lemma yield_runs:
  assumes "ready k" and "e0 \<in># total k" and "ejecutable k e0"
  obtains q e k' where "sched_yield SCHED_PRIORITIES k = Some (Runs (ENVX e), k')" "runs_next k q e k'"
    "find (ejecutable k) (boosted_items k q) = Some e"
    "\<And>r x. level r < level q \<Longrightarrow> x \<in> set (boosted_items k r) \<Longrightarrow> \<not> ejecutable k x"
    "\<And>r. r \<noteq> q \<Longrightarrow> r \<noteq> demote q \<Longrightarrow> items k' r = boosted_items k r"
    "q \<noteq> D \<Longrightarrow> items k' (demote q) = boosted_items k (demote q) @ [e]"
    "\<And>i. q \<noteq> D \<Longrightarrow> i < length (boosted_items k q) \<Longrightarrow> boosted_items k q ! i = e \<Longrightarrow>
       (\<forall>j<i. \<not> ejecutable k (boosted_items k q ! j)) \<Longrightarrow>
       items k' q = tl ((boosted_items k q)[i := hd (boosted_items k q)])"
    "ejecuciones_totales (mlfq_scheduler k') = (if ejecuciones_totales (mlfq_scheduler k) \<ge> MAX_EJECUCIONES_MLFQ
       then 1 else ejecuciones_totales (mlfq_scheduler k) + 1)"
proof -
  let ?k = "k\<lparr>runs_del_sched := runs_del_sched k + 1\<rparr>"
  have rk: "queues_ok ?k" "total ?k = total k" "boosted_items ?k = boosted_items k" "ejecutable ?k = ejecutable k"
    using assms(1) by (simp_all add: ready_def queues_ok_def total_def boosted_items_def ejecutable_def fun_eq_iff)
  obtain k0 where k0: "promocion_periodica ?k = Some k0" "queues_ok k0" "\<And>q. items k0 q = boosted_items k q"
    "same_envs k k0" "total k0 = total k"
    "ejecuciones_totales (mlfq_scheduler k0) = (if ejecuciones_totales (mlfq_scheduler k) \<ge> MAX_EJECUCIONES_MLFQ
       then 0 else ejecuciones_totales (mlfq_scheduler k))"
    by (rule boost_ok [OF rk(1)]) (simp add: rk same_envs_def)
  have ex: "ejecutable k0 = ejecutable k" using k0(4) by (simp add: same_envs_def ejecutable_def fun_eq_iff)
  obtain q where q: "best k0 q" using runnable_best [of e0 k0] k0(5) ex assms(2,3) by auto
  obtain e c where t: "cola_take (ejecutable k0) (cola (mlfq_scheduler k0) q) = Some (e, c)"
    "prioridad_MLFQ k0 = Option.bind (env_run (ENVX e) (count_run (ENVX e) (add_total (moved k0 q e c))))
       (\<lambda>(f, k). Some (Some f, k))"
    by (rule prioridad_pick [OF k0(2) best_mejor [OF k0(2) q]])
  note m = moved_ok [OF k0(2) t(1)]
  have lock: "lock_holder k = Some (cpunum k)" and pg: "\<forall>e \<in># total k. env_pgdir (envs k (ENVX e)) \<noteq> None"
    using assms(1) by (simp_all add: ready_def)
  obtain k' where k': "env_run (ENVX e) (count_run (ENVX e) (add_total (moved k0 q e c))) = Some (Runs (ENVX e), k')"
    "runs_next k q e k'" "mlfq_scheduler k' = mlfq_scheduler (add_total (moved k0 q e c))"
    by (rule runs_moved [OF k0(2,4) lock k0(5) pg t(1)])
  have it: "items k' r = items (moved k0 q e c) r" for r
    using k'(3) by (simp add: items_def add_total_def Let_def)
  have y: "sched_yield SCHED_PRIORITIES k = Some (Runs (ENVX e), k')"
    using k0(1) t(2) k'(1) by (simp add: sched_yield_def Let_def)
  have sub: "items k' q = tl ((boosted_items k q)[i := hd (boosted_items k q)])"
    if "q \<noteq> D" "i < length (boosted_items k q)" "boosted_items k q ! i = e"
      "\<forall>j<i. \<not> ejecutable k (boosted_items k q ! j)" for i
  proof -
    have co: "cola_ok (cola (mlfq_scheduler k0) q)" using k0(2) by (simp add: queues_ok_def)
    obtain i' where i': "i' < length (items k0 q)" "items k0 q ! i' = e" "ejecutable k0 e"
      "\<And>j. j < i' \<Longrightarrow> \<not> ejecutable k0 (items k0 q ! j)" "contents c = tl ((items k0 q)[i' := hd (items k0 q)])"
      using take_shape [OF co t(1)] by (metis items_def)
    have "i' = i" using i' that k0(3) ex by (metis linorder_neqE_nat)
    moreover have "demote q \<noteq> q" using that(1) by (cases q) (simp_all add: demote_def)
    ultimately show ?thesis using i'(5) k0(3) unfolding it by (simp add: items_def moved_def Let_def)
  qed
  have low: "\<not> ejecutable k x" if "level r < level q" "x \<in> set (boosted_items k r)" for r x
    using q that k0(3) ex by (auto simp: best_def runnable_in_def)
  show thesis
    using m(4,5,7) k'(3) k0(6)
    by (intro that [OF y k'(2) _ low _ _ sub])
      (simp_all add: it k0(3) ex add_total_def moved_def Let_def)
qed

section \<open>How long an environment waits\<close>

text \<open>
  The timer interrupts this CPU: \<open>trap\<close> takes the kernel lock and \<open>trap_dispatch\<close> calls
  \<open>sched_yield\<close>. A run of \<open>n\<close> such interrupts, with what each one chose.
\<close>

definition tick :: "'a kern_scheme \<Rightarrow> (fate \<times> 'a kern_scheme) option" where
  "tick k = sched_yield SCHED_PRIORITIES (k\<lparr>lock_holder := Some (cpunum k)\<rparr>)"

fun ticks :: "nat \<Rightarrow> 'a kern_scheme \<Rightarrow> (fate list \<times> 'a kern_scheme) option" where
  "ticks 0 k = Some ([], k)"
| "ticks (Suc n) k = do {
     (f, k) \<leftarrow> tick k;
     (fs, k) \<leftarrow> ticks n k;
     Some (f # fs, k)
   }"

text \<open>
  How far \<open>e\<close> is from running: its place in the first queue, or the calls left until the
  promotion, plus a full queue.
\<close>

definition waits :: "'a kern_scheme \<Rightarrow> u32w \<Rightarrow> nat \<Rightarrow> bool" where
  "waits k e n \<longleftrightarrow> (n < length (items k A) \<and> items k A ! n = e)
     \<or> (e \<in># total k \<and> n = NENV + nat (MAX_EJECUCIONES_MLFQ - ejecuciones_totales (mlfq_scheduler k)))"

definition waiting :: "'a kern_scheme \<Rightarrow> u32w \<Rightarrow> bool" where
  "waiting k e \<longleftrightarrow> ready (k\<lparr>lock_holder := Some (cpunum k)\<rparr>) \<and> e \<in># total k \<and> ejecutable k e"

lemma lock_same [simp]:
  "items (k\<lparr>lock_holder := l\<rparr>) = items k" "total (k\<lparr>lock_holder := l\<rparr>) = total k"
  "ejecutable (k\<lparr>lock_holder := l\<rparr>) = ejecutable k" "queues_ok (k\<lparr>lock_holder := l\<rparr>) = queues_ok k"
  "boosted_items (k\<lparr>lock_holder := l\<rparr>) = boosted_items k"
  by (simp_all add: fun_eq_iff items_def total_def ejecutable_def queues_ok_def boosted_items_def)

text \<open>The place in a queue from which another entry leaves.\<close>

lemma place_moves:
  assumes "i < length L" and "n < length L" and "\<forall>j<i. \<not> P (L ! j)" and "P (L ! n)" and "i \<noteq> n"
  shows "n - 1 < length (tl (L[i := hd L]))" "tl (L[i := hd L]) ! (n - 1) = L ! n" "n - 1 < n"
proof -
  have "i < n" using assms(3-5) by (metis linorder_neqE_nat)
  then have "0 < n" "n \<noteq> i" by auto
  then show "n - 1 < length (tl (L[i := hd L]))" "tl (L[i := hd L]) ! (n - 1) = L ! n" "n - 1 < n"
    using assms(2) by (auto simp: nth_tl)
qed

lemma find_place:
  assumes "find p L = Some e"
  obtains i where "i < length L" "L ! i = e" "\<forall>j<i. \<not> p (L ! j)" "p e"
  using assms by (auto simp: find_Some_iff)

text \<open>One interrupt runs \<open>e\<close> or brings it closer.\<close>

lemma tick_progress:
  assumes w: "waiting k e" and n: "waits k e n"
  obtains i k' where "tick k = Some (Runs i, k')"
    "i = ENVX e \<or> waiting k' e \<and> (\<exists>m<n. waits k' e m)"
proof -
  let ?k = "k\<lparr>lock_holder := Some (cpunum k)\<rparr>"
  have r: "ready ?k" "e \<in># total ?k" "ejecutable ?k e" using w by (simp_all add: waiting_def)
  obtain q x k' where y: "sched_yield SCHED_PRIORITIES ?k = Some (Runs (ENVX x), k')" "runs_next ?k q x k'"
    "find (ejecutable ?k) (boosted_items ?k q) = Some x"
    "\<And>r y. level r < level q \<Longrightarrow> y \<in> set (boosted_items ?k r) \<Longrightarrow> \<not> ejecutable ?k y"
    "\<And>r. r \<noteq> q \<Longrightarrow> r \<noteq> demote q \<Longrightarrow> items k' r = boosted_items ?k r"
    "\<And>i. q \<noteq> D \<Longrightarrow> i < length (boosted_items ?k q) \<Longrightarrow> boosted_items ?k q ! i = x \<Longrightarrow>
       (\<forall>j<i. \<not> ejecutable ?k (boosted_items ?k q ! j)) \<Longrightarrow>
       items k' q = tl ((boosted_items ?k q)[i := hd (boosted_items ?k q)])"
    "ejecuciones_totales (mlfq_scheduler k') = (if ejecuciones_totales (mlfq_scheduler ?k) \<ge> MAX_EJECUCIONES_MLFQ
       then 1 else ejecuciones_totales (mlfq_scheduler ?k) + 1)"
    by (rule yield_runs [OF r]) blast
  have closer: "waiting k' e \<and> (\<exists>m<n. waits k' e m)" if ne: "ENVX x \<noteq> ENVX e"
  proof
    have "env_status (envs k' (ENVX e)) = env_status (envs k (ENVX e)) \<or> env_status (envs k' (ENVX e)) = ENV_RUNNABLE"
      using y(2) ne [symmetric] by (auto simp: runs_next_def)
    then have st: "ejecutable k' e" using r(3) by (auto simp: ejecutable_def)
    have "total k' = total k" "queues_ok k'" "\<And>i. env_pgdir (envs k' i) = env_pgdir (envs k i)" "cpunum k' = cpunum k"
      using y(2) by (simp_all add: runs_next_def)
    then show wk: "waiting k' e" using w st by (simp add: waiting_def ready_def)
    have inA: "\<exists>m<p. waits k' e m" if p: "p < length (boosted_items k A)" "boosted_items k A ! p = e" for p
    proof -
      have "e \<in> set (boosted_items k A)" using p by (auto simp: in_set_conv_nth)
      then have "\<not> level A < level q" using y(4) r(3) by auto
      then have q: "q = A" by (cases q) (simp_all add: level_def)
      obtain i where i: "i < length (boosted_items k A)" "boosted_items k A ! i = x"
        "\<forall>j<i. \<not> ejecutable k (boosted_items k A ! j)"
        using find_place [OF y(3)] q by auto
      have "i \<noteq> p" using i p ne by auto
      note m = place_moves [OF i(1) p(1) i(3) _ this]
      have "items k' A = tl ((boosted_items k A)[i := hd (boosted_items k A)])" using y(6) [of i] i q by simp
      then have "waits k' e (p - 1)" using m p r(3) by (simp add: waits_def)
      then show ?thesis using m(3) p r(3) by (intro exI [of _ "p - 1"]) simp
    qed
    let ?t = "ejecuciones_totales (mlfq_scheduler k)"
    show "\<exists>m<n. waits k' e m"
    proof (cases "n < length (items k A) \<and> items k A ! n = e")
      case True
      then show ?thesis by (intro inA) (auto simp: boosted_items_def nth_append)
    next
      case False
      then have nn: "n = NENV + nat (MAX_EJECUCIONES_MLFQ - ?t)" "e \<in># total k" using n by (auto simp: waits_def)
      show ?thesis
      proof (cases "?t \<ge> MAX_EJECUCIONES_MLFQ")
        case True
        then have b: "boosted_items k A = items k A @ items k B @ items k C @ items k D" by (simp add: boosted_items_def)
        then have "e \<in> set (boosted_items k A)" using nn(2) by (auto simp: total_def)
        then obtain p where p: "p < length (boosted_items k A)" "boosted_items k A ! p = e" by (auto simp: in_set_conv_nth)
        have "length (boosted_items k A) \<le> NENV" using r(1) b by (simp add: ready_def queues_ok_def size_total)
        then have "p \<le> n" using p nn by simp
        then show ?thesis using inA [OF p] by (meson order_less_le_trans)
      next
        case t: False
        have "waits k' e (NENV + nat (MAX_EJECUCIONES_MLFQ - (?t + 1)))"
          using y(7) t wk by (simp add: waits_def waiting_def)
        then show ?thesis using t nn by (intro exI [of _ "NENV + nat (MAX_EJECUCIONES_MLFQ - (?t + 1))"]) simp
      qed
    qed
  qed
  show thesis using y(1) closer by (intro that [of "ENVX x" k']) (auto simp: tick_def)
qed

lemma ticks_run:
  assumes "waiting k e" and "waits k e n"
  shows "\<exists>j fs k'. ticks j k = Some (fs, k') \<and> j \<le> Suc n \<and> Runs (ENVX e) \<in> set fs"
  using assms
proof (induction n arbitrary: k rule: less_induct)
  case (less n)
  obtain i k' where t: "tick k = Some (Runs i, k')" "i = ENVX e \<or> waiting k' e \<and> (\<exists>m<n. waits k' e m)"
    by (rule tick_progress [OF less.prems])
  show ?case
  proof (cases "i = ENVX e")
    case True
    have "ticks 1 k = Some ([Runs i], k')" using t(1) by simp
    then show ?thesis using True by (intro exI [of _ 1] exI [of _ "[Runs i]"] exI [of _ k']) simp
  next
    case False
    then obtain m where "m < n" "waiting k' e" "waits k' e m" using t(2) by auto
    then obtain j fs k'' where j: "ticks j k' = Some (fs, k'')" "j \<le> Suc m" "Runs (ENVX e) \<in> set fs"
      using less.IH by blast
    have "ticks (Suc j) k = Some (Runs i # fs, k'')" using t(1) j(1) by simp
    then show ?thesis using j \<open>m < n\<close> by (intro exI [of _ "Suc j"] exI [of _ "Runs i # fs"] exI [of _ k'']) simp
  qed
qed

section \<open>Example states\<close>

text \<open>
  Two environments in the queues: 0x1001 (slot 1) in the first, 0x1002 (slot 2) in the second;
  this CPU holds the lock. The statuses are parameters.
\<close>

definition two_env :: "env_status \<Rightarrow> env_status \<Rightarrow> nat \<Rightarrow> Env" where
  "two_env s1 s2 i = (if i = 1 then zero_env\<lparr>env_id := 0x1001, env_status := s1, env_pgdir := Some 7\<rparr>
     else if i = 2 then zero_env\<lparr>env_id := 0x1002, env_status := s2, env_pgdir := Some 8, cola_actual := 1\<rparr>
     else zero_env)"

definition two_kern :: "env_status \<Rightarrow> env_status \<Rightarrow> int \<Rightarrow> nat option \<Rightarrow> kern" where
  "two_kern s1 s2 n c = (zero_kern 16)\<lparr>envs := two_env s1 s2, curenv := c, lock_holder := Some 0,
     mlfq_scheduler := mlfq_init\<lparr>cola_a := cola_push 0x1001 empty_cola, cola_b := cola_push 0x1002 empty_cola,
       ejecuciones_totales := n\<rparr>\<rparr>"

lemma two_simps:
  "items (two_kern s1 s2 n c) q = (if q = A then [0x1001] else if q = B then [0x1002] else [])"
  "total (two_kern s1 s2 n c) = {#0x1001, 0x1002#}"
  "envs (two_kern s1 s2 n c) = two_env s1 s2" "curenv (two_kern s1 s2 n c) = c"
  "lock_holder (two_kern s1 s2 n c) = Some 0" "cpunum (two_kern s1 s2 n c) = 0"
  "ejecuciones_totales (mlfq_scheduler (two_kern s1 s2 n c)) = n"
proof -
  show "items (two_kern s1 s2 n c) q = (if q = A then [0x1001] else if q = B then [0x1002] else [])" for q
    by (cases q) (simp_all add: two_kern_def items_def cola_def contents_def cola_push_def empty_cola_def mlfq_init_def)
  then show "total (two_kern s1 s2 n c) = {#0x1001, 0x1002#}" by (simp add: total_def)
qed (simp_all add: two_kern_def zero_kern_def)

lemma ENVX_two: "ENVX 0x1001 = 1" "ENVX 0x1002 = 2"
  by (simp_all add: ENVX_def)

lemma two_ready: "ready (two_kern s1 s2 n c)"
proof -
  have "cola_ok (cola (mlfq_scheduler (two_kern s1 s2 n c)) q)" for q
    by (cases q) (simp_all add: two_kern_def cola_def cola_ok_def cola_push_def empty_cola_def mlfq_init_def NENV_def)
  then show ?thesis by (simp add: ready_def queues_ok_def two_simps ENVX_two two_env_def NENV_def)
qed

section \<open>Properties\<close>





text \<open>Nothing queued is runnable.\<close>

lemma no_best:
  assumes "ready k" and "\<forall>e \<in># total k. \<not> ejecutable k e"
  obtains k0 where "promocion_periodica (k\<lparr>runs_del_sched := runs_del_sched k + 1\<rparr>) = Some k0"
    "obtener_cola_mejor_prioridad k0 = None" "same_envs k k0" "total k0 = total k"
    "prioridad_MLFQ k0 = Option.bind (case curenv k0 of
        Some c \<Rightarrow> if env_status (envs k0 c) = ENV_RUNNING then env_run c (count_run c (add_total k0)) else sched_halt k0
      | None \<Rightarrow> sched_halt k0) (\<lambda>(f, k). Some (Some f, k))"
proof -
  let ?k = "k\<lparr>runs_del_sched := runs_del_sched k + 1\<rparr>"
  have rk: "queues_ok ?k" "total ?k = total k"
    using assms(1) by (simp_all add: ready_def queues_ok_def total_def)
  obtain k0 where k0: "promocion_periodica ?k = Some k0" "queues_ok k0" "same_envs ?k k0" "total k0 = total k"
    by (rule boost_ok [OF rk(1)]) (simp add: rk(2))
  have s: "same_envs k k0" using k0(3) by (simp add: same_envs_def)
  have "\<not> runnable_in k0 q" for q
    using assms(2) k0(4) s items_total [of _ k0 q] by (auto simp: runnable_in_def ejecutable_def same_envs_def)
  then have n: "obtener_cola_mejor_prioridad k0 = None" by (simp add: mejor_prioridad [OF k0(2)])
  show thesis by (rule that [OF k0(1) n s k0(4)]) (simp add: prioridad_MLFQ_def n)
qed

definition live :: "'a kern_scheme \<Rightarrow> nat \<Rightarrow> bool" where
  "live k i \<longleftrightarrow> env_status (envs k i) \<in> {ENV_RUNNABLE, ENV_RUNNING, ENV_DYING}"

text \<open>\<open>sched_halt\<close>, for a CPU that holds the lock.\<close>

lemma sched_halt_cases:
  assumes "lock_holder k = Some (cpunum k)"
  shows "sched_halt k = (if \<exists>i<NENV. live k i
    then Some (Halted, k\<lparr>curenv := None, curenv_pgdir := None, cr3 := kern_pgdir k, cpu_status := CPU_HALTED, lock_holder := None\<rparr>)
    else Some (In_monitor, k))"
proof -
  note f = first_from_props [of 0 NENV "live k"]
  have "first_from (live k) 0 NENV = NENV \<longleftrightarrow> \<not> (\<exists>i<NENV. live k i)"
    using f by (metis le0 le_neq_implies_less linorder_not_less order.refl)
  moreover have "(\<lambda>i. env_status (envs k i) \<in> {ENV_RUNNABLE, ENV_RUNNING, ENV_DYING}) = live k"
    by (simp add: live_def fun_eq_iff)
  ultimately show ?thesis using assms
    unfolding sched_halt_def by (simp only: Let_def) (auto simp: unlock_kernel_def)
qed

text \<open>Under the priority policy, when no queued environment is runnable, the environment
  this CPU was running continues if it is still \<open>ENV_RUNNING\<close>; otherwise the CPU drops into
  the monitor exactly when no environment is runnable, running or dying, and in every other case
  halts with no current environment, the kernel's address space and the lock released.\<close>

theorem priority_idle:
  assumes "ready k" and "\<forall>e \<in># total k. \<not> ejecutable k e"
    and "\<forall>c. curenv k = Some c \<longrightarrow> env_pgdir (envs k c) \<noteq> None"
  shows "\<exists>f k'. sched_yield SCHED_PRIORITIES k = Some (f, k')
    \<and> (case curenv k of
        Some c \<Rightarrow> env_status (envs k c) = ENV_RUNNING \<longrightarrow> f = Runs c \<and> curenv k' = Some c \<and> lock_holder k' = None
      | None \<Rightarrow> True)
    \<and> ((\<forall>c. curenv k = Some c \<longrightarrow> env_status (envs k c) \<noteq> ENV_RUNNING) \<longrightarrow>
        (if \<exists>i<NENV. live k i then f = Halted \<and> curenv k' = None \<and> cr3 k' = kern_pgdir k' \<and> cpu_status k' = CPU_HALTED \<and> lock_holder k' = None
         else f = In_monitor))"
proof -
  obtain k0 where k0: "promocion_periodica (k\<lparr>runs_del_sched := runs_del_sched k + 1\<rparr>) = Some k0"
    "same_envs k k0" "prioridad_MLFQ k0 = Option.bind (case curenv k0 of
        Some c \<Rightarrow> if env_status (envs k0 c) = ENV_RUNNING then env_run c (count_run c (add_total k0)) else sched_halt k0
      | None \<Rightarrow> sched_halt k0) (\<lambda>(f, k). Some (Some f, k))"
    by (rule no_best [OF assms(1,2)]) blast
  have y: "sched_yield SCHED_PRIORITIES k = Option.bind (prioridad_MLFQ k0)
      (\<lambda>(f, k). case f of Some f \<Rightarrow> Some (f, k) | None \<Rightarrow> sched_halt k)"
    using k0(1) by (simp add: sched_yield_def Let_def)
  have same: "curenv k0 = curenv k" "\<And>i. env_status (envs k0 i) = env_status (envs k i)"
    "\<And>i. env_pgdir (envs k0 i) = env_pgdir (envs k i)" "lock_holder k0 = Some (cpunum k0)"
    using k0(2) assms(1) by (simp_all add: same_envs_def ready_def)
  have h: "sched_halt k0 = (if \<exists>i<NENV. live k i
    then Some (Halted, k0\<lparr>curenv := None, curenv_pgdir := None, cr3 := kern_pgdir k0, cpu_status := CPU_HALTED, lock_holder := None\<rparr>)
    else Some (In_monitor, k0))"
    using sched_halt_cases [OF same(4)] same(2) by (simp add: live_def)
  show ?thesis
  proof (cases "\<exists>c. curenv k = Some c \<and> env_status (envs k c) = ENV_RUNNING")
    case True
    then obtain c d where c: "curenv k = Some c" "env_status (envs k c) = ENV_RUNNING" "env_pgdir (envs k c) = Some d"
      using assms(3) by auto
    let ?m = "count_run c (add_total k0)"
    have d: "env_pgdir (envs ?m c) = Some d" "lock_holder ?m = Some (cpunum ?m)"
      using c same by (simp_all add: count_run_def add_total_def Let_def)
    show ?thesis
      by (rule env_run_ok [OF d]) (use y k0(3) same c in auto)
  next
    case False
    then have "prioridad_MLFQ k0 = Option.bind (sched_halt k0) (\<lambda>(f, k). Some (Some f, k))"
      using k0(3) same by (auto split: option.split)
    then show ?thesis using y h False by (auto split: option.split)
  qed
qed

theorem priority_idle_witness:
  "\<exists>f k'. sched_yield SCHED_PRIORITIES (two_kern ENV_NOT_RUNNABLE ENV_RUNNING 0 (Some 2)) = Some (f, k') \<and> f = Runs 2"
  using priority_idle [OF two_ready [of ENV_NOT_RUNNABLE ENV_RUNNING 0 "Some 2"]]
  by (auto simp: two_simps ejecutable_def ENVX_two two_env_def)

text \<open>C15: Under round robin, \<open>sched_yield\<close> runs the first runnable environment after the current one
  in the circular order of the table (from the first slot when there is none), and charges it
  one run; every environment passed over is not runnable.\<close>

theorem round_robin_choice:
  assumes "lock_holder k = Some (cpunum k)" and "\<forall>i<NENV. env_status (envs k i) = ENV_RUNNABLE \<longrightarrow> env_pgdir (envs k i) \<noteq> None"
    and "j < NENV" and "env_status (envs k j) = ENV_RUNNABLE"
    and "start = (case curenv k of Some c \<Rightarrow> ENVX (env_id (envs k c)) + 1 | None \<Rightarrow> 0)"
  shows "\<exists>i<NENV. \<exists>k'. sched_yield SCHED_ROUND_ROBIN k = Some (Runs ((start + i) mod NENV), k')
    \<and> env_status (envs k ((start + i) mod NENV)) = ENV_RUNNABLE
    \<and> (\<forall>h<i. env_status (envs k ((start + h) mod NENV)) \<noteq> ENV_RUNNABLE)
    \<and> curenv k' = Some ((start + i) mod NENV) \<and> env_status (envs k' ((start + i) mod NENV)) = ENV_RUNNING
    \<and> ejecuciones (envs k' ((start + i) mod NENV)) = ejecuciones (envs k ((start + i) mod NENV)) + 1
    \<and> mlfq_scheduler k' = mlfq_scheduler k \<and> lock_holder k' = None"
proof -
  let ?p = "\<lambda>i. env_status (envs k ((start + i) mod NENV)) = ENV_RUNNABLE"
  let ?i = "first_from ?p 0 NENV"
  note f = first_from_props [of 0 NENV ?p]
  have "\<exists>h<NENV. (start + h) mod NENV = j"
  proof -
    have "(start + (NENV - start mod NENV + j) mod NENV) mod NENV = (start mod NENV + (NENV - start mod NENV + j)) mod NENV"
      by (simp add: mod_simps)
    also have "\<dots> = (NENV + j) mod NENV" by (metis NENV_pos add.assoc le_add_diff_inverse mod_le_divisor)
    also have "\<dots> = j" using assms(3) by simp
    finally show ?thesis by (intro exI [of _ "(NENV - start mod NENV + j) mod NENV"]) simp
  qed
  then obtain h where h: "h < NENV" "?p h" using assms(4) by auto
  then have i: "?i < NENV" "?p ?i" using f by (metis le0 le_neq_implies_less linorder_not_less)+
  let ?e = "(start + ?i) mod NENV"
  have "?e < NENV" by simp
  then obtain d where "env_pgdir (envs k ?e) = Some d" using assms(2) i(2) by blast
  then have m: "env_pgdir (envs (count_run ?e (k\<lparr>runs_del_sched := runs_del_sched k + 1\<rparr>)) ?e) = Some d"
    "lock_holder (count_run ?e (k\<lparr>runs_del_sched := runs_del_sched k + 1\<rparr>))
      = Some (cpunum (count_run ?e (k\<lparr>runs_del_sched := runs_del_sched k + 1\<rparr>)))"
    using assms(1) by (simp_all add: count_run_def)
  have skipped: "\<forall>h<?i. \<not> ?p h" using f by auto
  let ?k = "k\<lparr>runs_del_sched := runs_del_sched k + 1\<rparr>"
  have st: "(case curenv ?k of Some c \<Rightarrow> ENVX (env_id (envs ?k c)) + 1 | None \<Rightarrow> 0) = start" using assms(5) by (simp split: option.split)
  have "round_robin ?k = Option.bind (env_run ?e (count_run ?e ?k)) (\<lambda>(f, k). Some (Some f, k))"
    using i(1) unfolding round_robin_def Let_def st by simp
  then have y: "sched_yield SCHED_ROUND_ROBIN k = env_run ?e (count_run ?e ?k)"
    by (cases "env_run ?e (count_run ?e ?k)") (auto simp: sched_yield_def)
  show ?thesis
  proof (rule env_run_ok [OF m], goal_cases)
    case (1 k')
    have "sched_yield SCHED_ROUND_ROBIN k = Some (Runs ?e, k')" using y 1(1) by (rule trans)
    moreover have "ejecuciones (envs k' ?e) = ejecuciones (envs k ?e) + 1" "mlfq_scheduler k' = mlfq_scheduler k"
      using 1(4) 1(10) [of ?e] by (simp_all add: count_run_def)
    ultimately show ?thesis using i skipped 1(2,3,7) by blast
  qed
qed

theorem round_robin_choice_witness:
  "\<exists>i k'. sched_yield SCHED_ROUND_ROBIN (two_kern ENV_RUNNABLE ENV_RUNNABLE 0 None) = Some (Runs ((0 + i) mod NENV), k')"
proof -
  let ?k = "two_kern ENV_RUNNABLE ENV_RUNNABLE 0 None"
  have "lock_holder ?k = Some (cpunum ?k)" by (simp add: two_simps)
  moreover have "\<forall>i<NENV. env_status (envs ?k i) = ENV_RUNNABLE \<longrightarrow> env_pgdir (envs ?k i) \<noteq> None"
    by (simp add: two_simps two_env_def zero_env_def)
  moreover have "2 < NENV" by (simp add: NENV_def)
  moreover have "env_status (envs ?k 2) = ENV_RUNNABLE" by (simp add: two_simps two_env_def)
  moreover have "0 = (case curenv ?k of Some c \<Rightarrow> ENVX (env_id (envs ?k c)) + 1 | None \<Rightarrow> 0)" by (simp add: two_simps)
  ultimately show ?thesis using round_robin_choice [of ?k 2 0] by blast
qed

end
