(* ===== verification/Env.thy ===== *)
theory Env
  imports Sched
begin

text \<open>
  The environments, \<open>kern/env.c\<close>: looking an id up, the free list, the address space of a
  new environment, loading a program, and giving everything back. An \<open>envid_t\<close> is a 32-bit
  word read as a signed number.
\<close>

section \<open>Looking up and initializing\<close>

text \<open>\<open>envid2env\<close>: the error and the slot. Without a current environment the test of the parent
  reads through a null pointer.\<close>

definition envid2env :: "u32w \<Rightarrow> bool \<Rightarrow> 'a kern_scheme \<Rightarrow> (int \<times> nat option) option" where
  "envid2env envid checkperm k =
     (if envid = 0 then Some (0, curenv k)
      else let e = ENVX envid in
        if env_status (envs k e) = ENV_FREE \<or> env_id (envs k e) \<noteq> envid then Some (- E_BAD_ENV, None)
        else if checkperm \<and> Some e \<noteq> curenv k
        then (case curenv k of
            None \<Rightarrow> None
          | Some c \<Rightarrow>
              if env_parent_id (envs k e) \<noteq> env_id (envs k c) then Some (- E_BAD_ENV, None)
              else Some (0, Some e))
        else Some (0, Some e))"

definition env_init :: "'a kern_scheme \<Rightarrow> 'a kern_scheme" where
  "env_init k = k\<lparr>envs := (\<lambda>i. if i < NENV
       then (envs k i)\<lparr>env_id := 0, env_status := ENV_FREE,
              env_link := (if i = NENV - 1 then None else Some (i + 1))\<rparr>
       else envs k i),
     env_free_list := Some 0\<rparr>"

section \<open>A new environment\<close>

definition page2kva :: "'a mem_scheme \<Rightarrow> nat \<Rightarrow> u32w option" where
  "page2kva k pp = KADDR k (page2pa pp)"

definition env_setup_vm :: "nat \<Rightarrow> 'a kern_scheme \<Rightarrow> (int \<times> 'a kern_scheme) option" where
  "env_setup_vm e k = do {
     (p, k) \<leftarrow> page_alloc ALLOC_ZERO k;
     case p of
       None \<Rightarrow> Some (- E_NO_MEM, k)
     | Some p \<Rightarrow> do {
         kva \<leftarrow> page2kva k p;
         pa \<leftarrow> PADDR kva;
         let d = PGNUM pa;
         let k = set_env e ((envs k e)\<lparr>env_pgdir := Some d\<rparr>) k;
         let k = k\<lparr>frames := (frames k)(d := frames k (kern_pgdir k))\<rparr>;
         let k = k\<lparr>pp_ref := (pp_ref k)(p := pp_ref k p + 1)\<rparr>;
         Some (0, set_word k d (PDX UVPT) (pa OR PTE_P OR PTE_U))
       }
   }"

definition GD_KT :: u16w where "GD_KT = 0x08"
definition GD_KD :: u16w where "GD_KD = 0x10"
definition GD_UT :: u16w where "GD_UT = 0x18"
definition GD_UD :: u16w where "GD_UD = 0x20"
definition GD_TSS0 :: u16w where "GD_TSS0 = 0x28"
definition FL_IF :: u32w where "FL_IF = 0x200"
definition ENVGENSHIFT :: nat where "ENVGENSHIFT = 12"

text \<open>The id of the next environment in slot \<open>i\<close>, whose last id was \<open>old\<close>: never negative or zero.\<close>

definition next_env_id :: "u32w \<Rightarrow> nat \<Rightarrow> u32w" where
  "next_env_id old i =
     (let generation = (old + push_bit ENVGENSHIFT 1) AND NOT (word_of_nat NENV - 1);
          generation = (if sint generation \<le> 0 then push_bit ENVGENSHIFT 1 else generation)
      in generation OR word_of_nat i)"

definition user_tf :: Trapframe where
  "user_tf = zero_tf\<lparr>tf_ds := GD_UD OR 3, tf_es := GD_UD OR 3, tf_ss := GD_UD OR 3, tf_esp := USTACKTOP,
     tf_cs := GD_UT OR 3, tf_eflags := FL_IF\<rparr>"

definition env_alloc :: "u32w \<Rightarrow> 'a kern_scheme \<Rightarrow> (int \<times> nat option \<times> 'a kern_scheme) option" where
  "env_alloc parent_id k =
     (case env_free_list k of
        None \<Rightarrow> Some (- E_NO_FREE_ENV, None, k)
      | Some e \<Rightarrow> do {
          (r, k) \<leftarrow> env_setup_vm e k;
          if r < 0 then Some (r, None, k)
          else do {
            let eid = next_env_id (env_id (envs k e)) e;
            let k = set_env e ((envs k e)\<lparr>env_id := eid, env_parent_id := parent_id,
                      env_status := ENV_RUNNABLE, env_runs := 0, env_tf := user_tf,
                      env_pgfault_upcall := 0, env_ipc_recving := False\<rparr>) k;
            let k = k\<lparr>env_free_list := env_link (envs k e)\<rparr>;
            let k = set_env e ((envs k e)\<lparr>ejecuciones := 0\<rparr>) k;
            (_, padre) \<leftarrow> envid2env parent_id False k;
            k \<leftarrow> sched_agregar_env eid (case padre of Some p \<Rightarrow> cola_actual (envs k p) | None \<Rightarrow> 0) k;
            Some (0, Some e, k)
          }
        })"

section \<open>Loading a program\<close>

function region_loop :: "nat \<Rightarrow> u32w \<Rightarrow> u32w \<Rightarrow> 'a kern_scheme \<Rightarrow> 'a kern_scheme option" where
  "region_loop pgdir va_act va_hi k =
     (if va_act < va_hi \<and> va_hi \<le> UTOP
      then do {
        (p, k) \<leftarrow> page_alloc 0 k;
        p \<leftarrow> p;
        (r, k) \<leftarrow> page_insert pgdir p va_act (PTE_U OR PTE_W) k;
        if r \<noteq> 0 then None else region_loop pgdir (va_act + PGSIZE) va_hi k
      }
      else Some k)"
  by pat_completeness auto
termination
proof (relation "measure (\<lambda>(pgdir, va_act, va_hi, k). unat va_hi - unat va_act)", goal_cases)
  case 1
  show ?case by simp
next
  case 2
  then show ?case by (auto intro: next_page_measure)
qed

declare region_loop.simps [simp del]

text \<open>\<open>region_alloc\<close>: the range is rounded to pages; a range above \<open>UTOP\<close> is a panic.\<close>

definition region_alloc :: "nat \<Rightarrow> u32w \<Rightarrow> u32w \<Rightarrow> 'a kern_scheme \<Rightarrow> 'a kern_scheme option" where
  "region_alloc e va len k =
     (let va_lo = ROUNDDOWN va PGSIZE; va_hi = ROUNDUP (va + len) PGSIZE in
      if va_hi > UTOP then None
      else do {
        pgdir \<leftarrow> env_pgdir (envs k e);
        region_loop pgdir va_lo va_hi k
      })"

text \<open>
  The bytes of memory through the page tables of \<open>cr3\<close>: words are little-endian. A read needs
  present entries, a write present and writable ones; anything else is a fault of the kernel.
\<close>

definition hw_frame :: "u32w \<Rightarrow> nat \<Rightarrow> u32w \<Rightarrow> 'a mem_scheme \<Rightarrow> nat option" where
  "hw_frame need pgdir va m =
     (let pde = frames m pgdir (PDX va) in
      if pde AND need \<noteq> need then None
      else let pte = frames m (PGNUM pde) (PTX va) in
        if pte AND need \<noteq> need then None else Some (PGNUM pte))"

definition byte_of :: "u32w \<Rightarrow> nat \<Rightarrow> u8w" where
  "byte_of w i = ucast (drop_bit (8 * i) w)"

definition with_byte :: "u32w \<Rightarrow> nat \<Rightarrow> u8w \<Rightarrow> u32w" where
  "with_byte w i b = (w AND NOT (push_bit (8 * i) 0xFF)) OR push_bit (8 * i) (ucast b)"

definition get_byte :: "nat \<Rightarrow> u32w \<Rightarrow> 'a mem_scheme \<Rightarrow> u8w option" where
  "get_byte pgdir va m = do {
     f \<leftarrow> hw_frame PTE_P pgdir va m;
     let off = unat (PGOFF va);
     Some (byte_of (frames m f (off div 4)) (off mod 4))
   }"

definition put_byte :: "nat \<Rightarrow> u32w \<Rightarrow> u8w \<Rightarrow> 'a mem_scheme \<Rightarrow> 'a mem_scheme option" where
  "put_byte pgdir va b m = do {
     f \<leftarrow> hw_frame (PTE_P OR PTE_W) pgdir va m;
     let off = unat (PGOFF va);
     Some (set_word m f (off div 4) (with_byte (frames m f (off div 4)) (off mod 4) b))
   }"

fun put_bytes :: "nat \<Rightarrow> u32w \<Rightarrow> u8w list \<Rightarrow> 'a mem_scheme \<Rightarrow> 'a mem_scheme option" where
  "put_bytes pgdir va [] m = Some m"
| "put_bytes pgdir va (b # bs) m = do {
     m \<leftarrow> put_byte pgdir va b m;
     put_bytes pgdir (va + 1) bs m
   }"

text \<open>The fields of an ELF image that the loader reads; \<open>e_phnum\<close> has 16 bits.\<close>

definition ELF_MAGIC :: u32w where "ELF_MAGIC = 0x464C457F"
definition ELF_PROG_LOAD :: u32w where "ELF_PROG_LOAD = 1"

definition get_u32 :: "u8w list \<Rightarrow> nat \<Rightarrow> u32w option" where
  "get_u32 bs o' = (if o' + 4 \<le> length bs
     then Some (ucast (bs ! o') OR push_bit 8 (ucast (bs ! (o' + 1))) OR push_bit 16 (ucast (bs ! (o' + 2)))
       OR push_bit 24 (ucast (bs ! (o' + 3)))) else None)"

definition get_u16 :: "u8w list \<Rightarrow> nat \<Rightarrow> nat option" where
  "get_u16 bs o' = (if o' + 2 \<le> length bs then Some (unat (bs ! o') + 256 * unat (bs ! (o' + 1))) else None)"

record Elf =
  e_magic :: u32w
  e_entry :: u32w
  e_phoff :: u32w
  e_phnum :: nat

record Proghdr =
  p_type :: u32w
  p_offset :: u32w
  p_va :: u32w
  p_filesz :: u32w
  p_memsz :: u32w

definition read_elf :: "u8w list \<Rightarrow> Elf option" where
  "read_elf binary = do {
     magic \<leftarrow> get_u32 binary 0;
     entry \<leftarrow> get_u32 binary 24;
     phoff \<leftarrow> get_u32 binary 28;
     phnum \<leftarrow> get_u16 binary 44;
     Some \<lparr>e_magic = magic, e_entry = entry, e_phoff = phoff, e_phnum = phnum\<rparr>
   }"

definition read_proghdr :: "u8w list \<Rightarrow> nat \<Rightarrow> Proghdr option" where
  "read_proghdr binary o' = do {
     ty \<leftarrow> get_u32 binary o';
     offset \<leftarrow> get_u32 binary (o' + 4);
     va \<leftarrow> get_u32 binary (o' + 8);
     filesz \<leftarrow> get_u32 binary (o' + 16);
     memsz \<leftarrow> get_u32 binary (o' + 20);
     Some \<lparr>p_type = ty, p_offset = offset, p_va = va, p_filesz = filesz, p_memsz = memsz\<rparr>
   }"

text \<open>The bytes \<open>memcpy\<close> reads from the image; outside of it, the copy reads something else: a fault here.\<close>

definition image_bytes :: "u8w list \<Rightarrow> u32w \<Rightarrow> u32w \<Rightarrow> u8w list option" where
  "image_bytes binary offset n = (if unat offset + unat n \<le> length binary
     then Some (take (unat n) (drop (unat offset) binary)) else None)"

fun load_segments :: "nat \<Rightarrow> nat \<Rightarrow> u8w list \<Rightarrow> nat \<Rightarrow> nat \<Rightarrow> 'a kern_scheme \<Rightarrow> 'a kern_scheme option" where
  "load_segments e pgdir binary ph 0 k = Some k"
| "load_segments e pgdir binary ph (Suc n) k = do {
     h \<leftarrow> read_proghdr binary ph;
     k \<leftarrow> (if p_type h \<noteq> ELF_PROG_LOAD then Some k
           else do {
             k \<leftarrow> region_alloc e (p_va h) (p_memsz h) k;
             k \<leftarrow> put_bytes pgdir (p_va h) (replicate (unat (p_memsz h)) 0) k;
             bytes \<leftarrow> image_bytes binary (p_offset h) (p_filesz h);
             put_bytes pgdir (p_va h) bytes k
           });
     load_segments e pgdir binary (ph + 32) n k
   }"

definition load_icode :: "nat \<Rightarrow> u8w list \<Rightarrow> 'a kern_scheme \<Rightarrow> 'a kern_scheme option" where
  "load_icode e binary k = do {
     elf \<leftarrow> read_elf binary;
     if e_magic elf \<noteq> ELF_MAGIC then None
     else do {
       pgdir \<leftarrow> env_pgdir (envs k e);
       let k = k\<lparr>cr3 := pgdir\<rparr>;
       k \<leftarrow> load_segments e pgdir binary (unat (e_phoff elf)) (e_phnum elf) k;
       k \<leftarrow> region_alloc e (USTACKTOP - PGSIZE) PGSIZE k;
       let k = set_env e ((envs k e)\<lparr>env_tf := (env_tf (envs k e))\<lparr>tf_eip := e_entry elf\<rparr>\<rparr>) k;
       Some (k\<lparr>cr3 := kern_pgdir k\<rparr>)
     }
   }"

text \<open>\<open>env_create\<close>; there is one environment type only.\<close>

definition env_create :: "u8w list \<Rightarrow> 'a kern_scheme \<Rightarrow> 'a kern_scheme option" where
  "env_create binary k = do {
     (err, env, k) \<leftarrow> env_alloc 0 k;
     if err < 0 then None
     else do {
       env \<leftarrow> env;
       load_icode env binary k
     }
   }"

section \<open>Freeing\<close>

fun free_ptes :: "nat \<Rightarrow> nat \<Rightarrow> nat \<Rightarrow> nat list \<Rightarrow> 'a kern_scheme \<Rightarrow> 'a kern_scheme option" where
  "free_ptes pgdir pdeno pt [] k = Some k"
| "free_ptes pgdir pdeno pt (pteno # ptenos) k = do {
     k \<leftarrow> (if frames k pt pteno AND PTE_P \<noteq> 0
           then page_remove pgdir (PGADDR (word_of_nat pdeno) (word_of_nat pteno) 0) k
           else Some k);
     free_ptes pgdir pdeno pt ptenos k
   }"

fun free_pdes :: "nat \<Rightarrow> nat list \<Rightarrow> 'a kern_scheme \<Rightarrow> 'a kern_scheme option" where
  "free_pdes pgdir [] k = Some k"
| "free_pdes pgdir (pdeno # pdenos) k = do {
     k \<leftarrow> (if frames k pgdir pdeno AND PTE_P = 0 then Some k
           else do {
             let pa = PTE_ADDR (frames k pgdir pdeno);
             kva \<leftarrow> KADDR k pa;
             pt \<leftarrow> PADDR kva;
             k \<leftarrow> free_ptes pgdir pdeno (PGNUM pt) [0..<NPTENTRIES] k;
             let k = set_word k pgdir pdeno 0;
             pp \<leftarrow> pa2page k pa;
             page_decref pp k
           });
     free_pdes pgdir pdenos k
   }"

definition env_free :: "nat \<Rightarrow> 'a kern_scheme \<Rightarrow> 'a kern_scheme option" where
  "env_free e k = do {
     let k = (if curenv k = Some e then k\<lparr>cr3 := kern_pgdir k\<rparr> else k);
     pgdir \<leftarrow> env_pgdir (envs k e);
     k \<leftarrow> free_pdes pgdir [0..<PDX UTOP] k;
     let k = set_env e ((envs k e)\<lparr>env_pgdir := None\<rparr>) k;
     pp \<leftarrow> pa2page k (page2pa pgdir);
     k \<leftarrow> page_decref pp k;
     let k = set_env e ((envs k e)\<lparr>env_status := ENV_FREE, env_link := env_free_list k\<rparr>) k;
     Some (k\<lparr>env_free_list := Some e\<rparr>)
   }"

definition env_destroy :: "policy \<Rightarrow> nat \<Rightarrow> 'a kern_scheme \<Rightarrow> (fate option \<times> 'a kern_scheme) option" where
  "env_destroy pol e k =
     (if env_status (envs k e) = ENV_RUNNING \<and> curenv k \<noteq> Some e
      then Some (None, set_env e ((envs k e)\<lparr>env_status := ENV_DYING\<rparr>) k)
      else do {
        k \<leftarrow> env_free e k;
        if curenv k = Some e
        then do {
          (f, k) \<leftarrow> sched_yield pol (k\<lparr>curenv := None, curenv_pgdir := None\<rparr>);
          Some (Some f, k)
        }
        else Some (None, k)
      })"

end
