(* ===== verification/Env_Props.thy ===== *)
theory Env_Props
  imports Env Sched_Props Kern_Props
begin

text \<open>
  What the environment table promises: ids that are positive, carry the slot and are not reused at once,
  the order of the free list, the fresh address space of a new environment, and what is left of an
  environment that was freed.
\<close>

section \<open>Environment ids\<close>

lemma sint_pos: "sint (w :: u32w) > 0 \<longleftrightarrow> w \<noteq> 0 \<and> unat w < 0x80000000"
proof -
  have lt: "unat w < 0x100000000" by (rule order_less_le_trans [OF unsigned_less]) simp
  have arith: "(int n + 0x80000000) mod 0x100000000 - 0x80000000
      = (if n < 0x80000000 then int n else int n - 0x100000000)" if "n < 0x100000000" for n :: nat
    using that by (cases "n < 0x80000000") (simp_all add: mod_pos_geq)
  have "sint w = (uint w + 0x80000000) mod 0x100000000 - 0x80000000"
    by (simp add: sint_uint signed_take_bit_eq_take_bit_shift take_bit_eq_mod)
  also have "\<dots> = (int (unat w) + 0x80000000) mod 0x100000000 - 0x80000000" by simp
  also have "\<dots> = (if unat w < 0x80000000 then int (unat w) else int (unat w) - 0x100000000)"
    by (rule arith [OF lt])
  finally have eq: "sint w = (if unat w < 0x80000000 then int (unat w) else int (unat w) - 0x100000000)" .
  have "0 < (if n < 0x80000000 then int n else int n - 0x100000000) \<longleftrightarrow> n \<noteq> 0 \<and> n < 0x80000000"
    if "n < 0x100000000" for n :: nat using that by auto
  from this [OF lt] show ?thesis by (simp only: eq unat_eq_0)
qed

lemma split_mask: "(w AND m) + (w AND NOT m) = (w :: u32w)"
proof -
  have "(w AND m) OR (w AND NOT m) = w" by (simp flip: bit.conj_disj_distrib)
  moreover have "(w AND m) AND (w AND NOT m) = 0" by (rule bit_eqI) (auto simp: bit_and_iff bit_not_iff)
  ultimately show ?thesis using word_plus_and_or [of "w AND m" "w AND NOT m"] by simp
qed

lemma clear_low: "unat (w AND NOT 0x3FF) = unat w div 1024 * 1024" for w :: u32w
proof -
  have "w AND NOT 0x3FF = w - (w AND 0x3FF)" using split_mask [of w "0x3FF"] by (metis add_diff_cancel_left')
  moreover have "w AND 0x3FF \<le> w" by (simp add: word_le_nat_alt unat_and_3FF)
  ultimately have "unat (w AND NOT 0x3FF) = unat w - unat w mod 1024" by (simp add: unat_sub unat_and_3FF)
  then show ?thesis by (simp only: minus_mod_eq_div_mult)
qed

text \<open>The generation part alone: a positive multiple of 1024, not the one of the old id.\<close>

definition next_generation :: "u32w \<Rightarrow> u32w" where
  "next_generation old = (let g = (old + 0x1000) AND NOT 0x3FF in if sint g \<le> 0 then 0x1000 else g)"

lemma next_env_id_generation: "next_env_id old i = next_generation old OR word_of_nat i"
  by (simp add: next_env_id_def next_generation_def ENVGENSHIFT_def NENV_def Let_def)

lemma next_generation_props:
  "next_generation old \<noteq> 0" "unat (next_generation old) < 0x80000000" "unat (next_generation old) mod 1024 = 0"
  "unat (next_generation old) \<noteq> unat old div 1024 * 1024"
proof -
  let ?g = "(old + 0x1000) AND NOT 0x3FF"
  have g: "unat ?g = unat (old + 0x1000) div 1024 * 1024" by (rule clear_low)
  have sum: "unat (old + 0x1000) = (unat old + 0x1000) mod 0x100000000" by (simp add: unat_word_ariths)
  show "next_generation old \<noteq> 0" "unat (next_generation old) < 0x80000000" "unat (next_generation old) mod 1024 = 0"
    using g sint_pos [of ?g] by (auto simp: next_generation_def Let_def not_le)
  show "unat (next_generation old) \<noteq> unat old div 1024 * 1024"
  proof
    assume eq: "unat (next_generation old) = unat old div 1024 * 1024"
    show False
    proof (cases "unat old + 0x1000 < 0x100000000")
      case True
      have "(n + 0x1000) div 1024 * 1024 = n div 1024 * 1024 + 0x1000" for n :: nat
        using div_mult_self2 [of 1024 n 4] by simp
      then have u: "unat ?g = unat old div 1024 * 1024 + 0x1000" using g sum True by simp
      show False
      proof (cases "sint ?g \<le> 0")
        case s: True
        then have "unat old div 1024 * 1024 = 0x1000" using eq by (simp add: next_generation_def)
        then have "unat ?g = 0x2000" using u by simp
        then have "sint ?g > 0" unfolding sint_pos by auto
        then show False using s by simp
      next
        case False
        then show False using eq u by (simp add: next_generation_def)
      qed
    next
      case False
      then have "0xFFFFF000 \<le> unat old" by simp
      then have "0x80000000 \<le> unat old div 1024 * 1024" by linarith
      then show False using eq \<open>unat (next_generation old) < 0x80000000\<close> by simp
    qed
  qed
qed

lemma or_low_plus: "unat (g :: u32w) mod 1024 = 0 \<Longrightarrow> i < 1024 \<Longrightarrow> g OR word_of_nat i = g + word_of_nat i"
proof -
  assume g: "unat g mod 1024 = 0" and i: "i < 1024"
  have "unat (g AND 0x3FF) = 0" using g by (simp add: unat_and_3FF)
  then have "g AND 0x3FF = 0" by (simp add: unat_eq_0)
  have "unat (word_of_nat i AND (0x3FF :: u32w)) = unat (word_of_nat i :: u32w)"
    using i by (simp add: unat_and_3FF unat_of_nat)
  then have "(0x3FF :: u32w) AND word_of_nat i = word_of_nat i" by (simp add: word_unat_eq_iff and.commute)
  moreover have "(g AND 0x3FF) AND word_of_nat i = g AND (0x3FF AND word_of_nat i)" by (rule and.assoc)
  ultimately have "g AND word_of_nat i = 0" using \<open>g AND 0x3FF = 0\<close> by simp
  then show ?thesis using word_plus_and_or [of g "word_of_nat i"] by simp
qed

lemma env_id_props:
  assumes "i < NENV"
  shows "sint (next_env_id old i) > 0" "ENVX (next_env_id old i) = i" "ENVX old = i \<Longrightarrow> next_env_id old i \<noteq> old"
proof -
  note p = next_generation_props [of old]
  have i: "i < 1024" using assms by (simp add: NENV_def)
  let ?g = "next_generation old"
  have eq: "next_env_id old i = ?g + word_of_nat i"
    using or_low_plus [OF p(3) i] by (simp add: next_env_id_generation)
  obtain q where q: "unat ?g = 1024 * q" using p(3) by (metis mod_0_imp_dvd dvdE)
  then have "q < 0x200000" using p(2) by simp
  then have le: "unat ?g + 1024 \<le> 0x80000000" using q by simp
  have ui: "unat (word_of_nat i :: u32w) = i" using i by (simp add: unat_of_nat)
  have "unat ?g + unat (word_of_nat i :: u32w) < 2 ^ LENGTH(32)" using le i ui by simp
  then have u: "unat (next_env_id old i) = unat ?g + i" using eq ui by (simp add: unat_add_lem [THEN iffD1])
  have "unat ?g \<noteq> 0" using p(1) by (simp add: unat_eq_0)
  then show "sint (next_env_id old i) > 0" using u le i unfolding sint_pos by (auto simp: unat_eq_0 [symmetric])
  have "unat (next_env_id old i) mod 1024 = i" using u q i by simp
  then show "ENVX (next_env_id old i) = i" by (simp add: ENVX_def unat_and_3FF)
  show "next_env_id old i \<noteq> old" if "ENVX old = i"
  proof
    assume "next_env_id old i = old"
    then have "unat old = unat ?g + i" using u by simp
    then have "unat old div 1024 * 1024 = unat ?g" using q i by simp
    then show False using p(4) by simp
  qed
qed

section \<open>A fresh address space\<close>

text \<open>The state after \<open>env_setup_vm\<close> for slot \<open>e\<close> took the page \<open>d\<close>.\<close>

definition fresh_vm :: "nat \<Rightarrow> nat \<Rightarrow> 'a kern_scheme \<Rightarrow> 'a kern_scheme" where
  "fresh_vm e d k = (let k1 = alloc_step k d True;
     k2 = set_env e ((envs k1 e)\<lparr>env_pgdir := Some d\<rparr>) k1;
     k3 = k2\<lparr>frames := (frames k2)(d := frames k2 (kern_pgdir k2))\<rparr>;
     k4 = k3\<lparr>pp_ref := (pp_ref k3)(d := pp_ref k3 d + 1)\<rparr>
   in set_word k4 d (PDX UVPT) (page2pa d OR PTE_P OR PTE_U))"

lemma page2pa_aligned: "PTE_ADDR (page2pa p) = page2pa p"
  by (rule bit_eqI) (auto simp: PTE_ADDR_def page2pa_def bit_and_iff bit_not_iff bit_push_bit_iff mask_12 bit_mask_iff)

lemma setup_vm_Cons:
  assumes "alloc_ok k" and "free_pages k = d # ds"
  shows "env_setup_vm e k = Some (0, fresh_vm e d k)"
proof -
  have d: "d < npages k" "npages k \<le> 0x10000" using assms by (auto simp: alloc_ok_def)
  let ?k1 = "alloc_step k d True"
  have a: "page_alloc ALLOC_ZERO k = Some (Some d, ?k1)"
    using page_alloc_Cons(1) [OF assms, of ALLOC_ZERO] by (simp add: ALLOC_ZERO_def)
  have pg: "PGNUM (page2pa d) = d" using d by (simp add: PGNUM_page2pa)
  have "npages ?k1 = npages k" by (simp add: alloc_step_def)
  then have "Option.bind (KADDR ?k1 (page2pa d)) PADDR = Some (page2pa d)"
    using kaddr_frame [of ?k1 "page2pa d"] d pg by (simp add: page2pa_aligned)
  then show ?thesis
    by (auto simp: env_setup_vm_def a page2kva_def fresh_vm_def Let_def pg bind_eq_Some_conv)
qed

text \<open>The user part of a fresh directory is empty, and the rest is the kernel's, but for \<open>UVPT\<close>.\<close>

definition kern_template :: "'a mem_scheme \<Rightarrow> bool" where
  "kern_template k \<longleftrightarrow> kern_pgdir k < npages k \<and> kern_pgdir k \<notin> set (free_pages k)
    \<and> (\<forall>d<955. frames k (kern_pgdir k) d = 0)"

lemma UVPT_index: "PDX UVPT = 957"
  by (simp add: PDX_nat PGNUM_nat layout)

lemma fresh_vm_space:
  assumes "alloc_ok k" and "free_pages k = d # ds" and "kern_template k"
  shows "space_ok (fresh_vm e d k) d" "free_pages (fresh_vm e d k) = ds"
    "\<And>v. v < UPAGENUM \<Longrightarrow> mapped (fresh_vm e d k) d v = None"
    "\<And>j. j \<noteq> PDX UVPT \<Longrightarrow> frames (fresh_vm e d k) d j = frames k (kern_pgdir k) j"
    "frames (fresh_vm e d k) d (PDX UVPT) = page2pa d OR PTE_P OR PTE_U"
    "pp_ref (fresh_vm e d k) = (pp_ref k)(d := 1)" "alloc_ok (fresh_vm e d k)"
proof -
  let ?k = "fresh_vm e d k"
  have ne: "kern_pgdir k \<noteq> d" using assms(2,3) by (auto simp: kern_template_def)
  have d: "d < npages k" "pp_ref k d = 0" "d \<notin> set ds" using assms(1,2) by (auto simp: alloc_ok_def)
  note st = page_alloc_Cons(2,3) [OF assms(1,2), of True]
  show fr: "frames ?k d j = frames k (kern_pgdir k) j" if "j \<noteq> PDX UVPT" for j
    using that ne by (simp add: fresh_vm_def set_word_def Let_def) (simp add: alloc_step_def)
  show "frames ?k d (PDX UVPT) = page2pa d OR PTE_P OR PTE_U"
    by (simp add: fresh_vm_def set_word_def Let_def)
  show ref: "pp_ref ?k = (pp_ref k)(d := 1)"
    using d by (simp add: fresh_vm_def set_word_def Let_def) (simp add: alloc_step_def)
  have same: "npages ?k = npages (alloc_step k d True)" "pp_link ?k = pp_link (alloc_step k d True)"
    "page_free_list ?k = page_free_list (alloc_step k d True)"
    by (simp_all add: fresh_vm_def set_word_def Let_def)
  have refs: "pp_ref ?k p = 0" if "p \<in> set (free_pages (alloc_step k d True))" for p
    using that st assms d ref by (auto simp: alloc_ok_def)
  show al: "alloc_ok ?k" and fp: "free_pages ?k = ds"
    using alloc_ok_same [OF st(1) same refs] st(2) by simp_all
  have np: "npages ?k = npages k" using same by (simp add: alloc_step_def)
  have tab: "table ?k d i = None" if "i < 955" for i
    using that fr [of i] assms(3) by (simp add: table_def UVPT_index kern_template_def)
  show map: "mapped ?k d v = None" if "v < UPAGENUM" for v
    using tab user_dir [OF that] by (simp add: mapped_def entry_def)
  have "map_count ?k d p = 0" for p using map by (auto simp: map_count_def)
  then show "space_ok ?k d" using al fp d np tab map by (simp add: space_ok_def tables_inj_def)
qed

section \<open>A new environment\<close>

text \<open>The queue of the parent, as \<open>env_alloc\<close> finds it.\<close>

definition parent_queue :: "'a kern_scheme \<Rightarrow> u32w \<Rightarrow> int" where
  "parent_queue k parent =
     (if parent = 0 then (case curenv k of Some c \<Rightarrow> cola_actual (envs k c) | None \<Rightarrow> 0)
      else if env_status (envs k (ENVX parent)) \<noteq> ENV_FREE \<and> env_id (envs k (ENVX parent)) = parent
      then cola_actual (envs k (ENVX parent)) else 0)"

definition env_table_ok :: "'a kern_scheme \<Rightarrow> nat \<Rightarrow> bool" where
  "env_table_ok k e \<longleftrightarrow> e < NENV \<and> env_free_list k = Some e \<and> env_status (envs k e) = ENV_FREE
    \<and> curenv k \<noteq> Some e \<and> (\<forall>i. 0 \<le> cola_actual (envs k i) \<and> cola_actual (envs k i) \<le> 3)"

definition committed :: "u32w \<Rightarrow> nat \<Rightarrow> 'a kern_scheme \<Rightarrow> 'a kern_scheme" where
  "committed parent e k = (set_env e ((envs k e)\<lparr>env_id := next_env_id (env_id (envs k e)) e, env_parent_id := parent,
      env_status := ENV_RUNNABLE, env_runs := 0, env_tf := user_tf, env_pgfault_upcall := 0,
      env_ipc_recving := False, ejecuciones := 0\<rparr>) k)\<lparr>env_free_list := env_link (envs k e)\<rparr>"

lemma fresh_vm_keeps [simp]:
  "envs (fresh_vm e d k) = (envs k)(e := (envs k e)\<lparr>env_pgdir := Some d\<rparr>)"
  "mlfq_scheduler (fresh_vm e d k) = mlfq_scheduler k" "curenv (fresh_vm e d k) = curenv k"
  "env_free_list (fresh_vm e d k) = env_free_list k" "kern_pgdir (fresh_vm e d k) = kern_pgdir k" "npages (fresh_vm e d k) = npages k"
  "lock_holder (fresh_vm e d k) = lock_holder k" "cpunum (fresh_vm e d k) = cpunum k" "cons (fresh_vm e d k) = cons k"
  "runs_del_sched (fresh_vm e d k) = runs_del_sched k" "cr3 (fresh_vm e d k) = cr3 k"
  "cpu_status (fresh_vm e d k) = cpu_status k" "f \<noteq> d \<Longrightarrow> frames (fresh_vm e d k) f = frames k f"
  by (simp_all add: fresh_vm_def Let_def set_word_def alloc_step_def)

lemma env_alloc_run:
  assumes "alloc_ok k" and "free_pages k = d # ds" and "env_table_ok k e" and "parent = 0 \<or> ENVX parent \<noteq> e"
    and "obtener_cola (parent_queue k parent) = Some q"
  shows "env_alloc parent k = Some (0, Some e,
     (let k1 = committed parent e (fresh_vm e d k); eid = next_env_id (env_id (envs k e)) e in
      set_env e ((envs k1 e)\<lparr>cola_actual := parent_queue k parent\<rparr>) k1
        \<lparr>mlfq_scheduler := set_cola q (cola_push eid (cola (mlfq_scheduler k) q)) (mlfq_scheduler k)\<rparr>))"
proof -
  let ?eid = "next_env_id (env_id (envs k e)) e"
  let ?k1 = "committed parent e (fresh_vm e d k)"
  have fl: "env_free_list k = Some e" "e < NENV" "curenv k \<noteq> Some e" using assms(3) by (simp_all add: env_table_ok_def)
  have eid: "ENVX ?eid = e" by (rule env_id_props(2) [OF fl(2)])
  obtain r padre where v: "envid2env parent False k = Some (r, padre)"
    by (cases "envid2env parent False k") (auto simp: envid2env_def Let_def split: if_splits)
  have padre: "envid2env parent False ?k1 = Some (r, padre)"
    using assms(4) v by (auto simp: envid2env_def committed_def Let_def split: if_splits)
  have q: "(case padre of Some p \<Rightarrow> cola_actual (envs ?k1 p) | None \<Rightarrow> 0) = parent_queue k parent"
    using assms(4) fl(3) v
    by (auto simp: envid2env_def committed_def parent_queue_def Let_def split: option.split if_splits)
  let ?c = "set_env e ((envs k e)\<lparr>env_pgdir := Some d, env_id := ?eid, env_parent_id := parent,
      env_status := ENV_RUNNABLE, env_runs := 0, env_tf := user_tf, env_pgfault_upcall := 0,
      env_ipc_recving := False, ejecuciones := 0\<rparr>) (fresh_vm e d k)\<lparr>env_free_list := env_link (envs k e)\<rparr>"
  have c: "?k1 = ?c" by (simp add: committed_def)
  show ?thesis
    unfolding env_alloc_def fl(1) option.case setup_vm_Cons [OF assms(1,2)] bind.bind_lunit prod.case Let_def
    using padre q agregar_ok [OF assms(5), of ?eid ?k1] eid
    by (cases padre) (simp_all add: c)
qed

section \<open>The kernel part of the state\<close>

text \<open>The memory operations keep everything but the memory.\<close>

named_theorems keeps_more

lemma more_page_alloc [keeps_more]: "page_alloc fl m = Some (p, m') \<Longrightarrow> mem.more m' = mem.more m"
  by (auto simp: page_alloc_def Let_def split: option.splits if_splits bind_splits)

lemma more_page_free [keeps_more]: "page_free p m = Some m' \<Longrightarrow> mem.more m' = mem.more m"
  by (auto simp: page_free_def split: if_splits)

lemma more_page_decref [keeps_more]: "page_decref p m = Some m' \<Longrightarrow> mem.more m' = mem.more m"
  by (auto simp: page_decref_def Let_def dest!: more_page_free split: if_splits)

lemma more_set_word [simp]: "mem.more (set_word m f i w) = mem.more m"
  by (simp add: set_word_def)

lemma more_tlb [simp]: "mem.more (tlb_invalidate d va m) = mem.more m"
  by (simp add: tlb_invalidate_def)

lemma more_page_remove [keeps_more]: "page_remove d va m = Some m' \<Longrightarrow> mem.more m' = mem.more m"
  by (auto simp: page_remove_def dest!: more_page_decref split: bind_splits option.splits if_splits)

lemma more_pgdir_walk [keeps_more]: "pgdir_walk d va create m = Some (p, m') \<Longrightarrow> mem.more m' = mem.more m"
  by (auto simp: pgdir_walk_def Let_def dest!: more_page_alloc split: bind_splits option.splits if_splits)

lemma more_page_insert [keeps_more]: "page_insert d p va perm m = Some (r, m') \<Longrightarrow> mem.more m' = mem.more m"
  by (auto simp: page_insert_def Let_def dest!: more_pgdir_walk more_page_remove split: bind_splits option.splits)

lemma kern_part:
  assumes "mem.more k' = mem.more (k :: 'a kern_scheme)"
  shows "envs k' = envs k" "env_free_list k' = env_free_list k" "curenv k' = curenv k"
    "mlfq_scheduler k' = mlfq_scheduler k" "cpunum k' = cpunum k" "lock_holder k' = lock_holder k" "cons k' = cons k"
  using assms by (cases k; cases k'; simp)+

lemma more_free_ptes: "free_ptes d i pt ptenos k = Some k' \<Longrightarrow> mem.more k' = mem.more k"
  by (induction d i pt ptenos k rule: free_ptes.induct)
    (auto dest!: more_page_remove split: bind_splits if_splits)

lemma more_free_pdes: "free_pdes d pdenos k = Some k' \<Longrightarrow> mem.more k' = mem.more k"
  by (induction d pdenos k rule: free_pdes.induct)
    (auto simp: Let_def dest!: more_free_ptes more_page_decref split: bind_splits if_splits)

lemma env_free_shape:
  assumes "env_free e k = Some k'"
  shows "env_status (envs k' e) = ENV_FREE" "env_link (envs k' e) = env_free_list k" "env_free_list k' = Some e"
    "\<And>i. i \<noteq> e \<Longrightarrow> envs k' i = envs k i" "env_id (envs k' e) = env_id (envs k e)" "env_pgdir (envs k' e) = None"
    "mlfq_scheduler k' = mlfq_scheduler k" "curenv k' = curenv k"
proof -
  let ?k0 = "if curenv k = Some e then k\<lparr>cr3 := kern_pgdir k\<rparr> else k"
  obtain d k1 k2 pp where r: "free_pdes d [0..<PDX UTOP] ?k0 = Some k1"
    "page_decref pp (set_env e ((envs k1 e)\<lparr>env_pgdir := None\<rparr>) k1) = Some k2"
    "k' = (set_env e ((envs k2 e)\<lparr>env_status := ENV_FREE, env_link := env_free_list k2\<rparr>) k2)\<lparr>env_free_list := Some e\<rparr>"
    using assms unfolding env_free_def Let_def by (auto simp: bind_eq_Some_conv)
  note a = kern_part [OF more_free_pdes [OF r(1)]] and b = kern_part [OF more_page_decref [OF r(2)]]
  have k0: "envs ?k0 = envs k" "env_free_list ?k0 = env_free_list k" "mlfq_scheduler ?k0 = mlfq_scheduler k"
    "curenv ?k0 = curenv k" by simp_all
  show "env_status (envs k' e) = ENV_FREE" "env_link (envs k' e) = env_free_list k" "env_free_list k' = Some e"
    "\<And>i. i \<noteq> e \<Longrightarrow> envs k' i = envs k i" "env_id (envs k' e) = env_id (envs k e)" "env_pgdir (envs k' e) = None"
    "mlfq_scheduler k' = mlfq_scheduler k" "curenv k' = curenv k"
    using a b k0 r(3) by simp_all
qed

section \<open>An example state\<close>

text \<open>Slot 0 is free and first on the list; frames 3 and 4 are free, 1 is the kernel's directory.\<close>

definition small_kern :: kern where
  "small_kern = (zero_kern 16)\<lparr>pp_link := (\<lambda>_. None)(3 := Some 4), page_free_list := Some 3, kern_pgdir := 1,
     env_free_list := Some 0\<rparr>"

lemma small_kern_ok: "alloc_ok small_kern" "free_pages small_kern = [3, 4]"
proof -
  have "chain (pp_link small_kern) (page_free_list small_kern) [3, 4]" by (simp add: small_kern_def zero_kern_def)
  then show "alloc_ok small_kern" "free_pages small_kern = [3, 4]"
    by (rule alloc_okI [rotated]; auto simp: small_kern_def zero_kern_def)+
qed

lemma small_kern_env: "env_table_ok small_kern 0" "kern_template small_kern"
  using small_kern_ok by (auto simp: env_table_ok_def kern_template_def small_kern_def zero_kern_def zero_env_def NENV_def)

lemma small_kern_queues: "queues_ok small_kern" "total small_kern = {#}" "items small_kern q = []"
proof -
  have "cola (mlfq_scheduler small_kern) r = empty_cola" for r
    by (cases r) (simp_all add: small_kern_def zero_kern_def mlfq_init_def cola_def)
  then show "queues_ok small_kern" "total small_kern = {#}" "items small_kern q = []"
    by (simp_all add: queues_ok_def total_def items_def cola_ok_def empty_cola_def contents_def)
qed

lemma free_pdes_absent: "\<forall>i\<in>set pdenos. frames k d i = 0 \<Longrightarrow> free_pdes d pdenos k = Some k"
  by (induction pdenos) (simp_all add: Let_def)

text \<open>Slot 0 holds the environment 0x1000, with an empty directory in frame 5.\<close>

definition one_env :: kern where
  "one_env = set_env 0 (zero_env\<lparr>env_id := 0x1000, env_status := ENV_RUNNABLE, env_pgdir := Some 5\<rparr>)
     ((zero_kern 16)\<lparr>kern_pgdir := 1, pp_ref := (\<lambda>p. if p = 5 then 1 else 0)\<rparr>)"

lemma one_env_free: "\<exists>k'. env_free 0 one_env = Some k'"
proof -
  have f: "free_pdes 5 [0..<PDX UTOP] one_env = Some one_env"
    by (rule free_pdes_absent) (simp add: one_env_def zero_kern_def)
  show ?thesis
    using f by (simp add: env_free_def one_env_def zero_kern_def zero_env_def pa2page_def PGNUM_page2pa page_decref_def page_free_def)
qed

section \<open>Properties\<close>

text \<open>The ids \<open>env_alloc\<close> makes are positive, name their slot, and differ from the id the slot had
  before, so a stale id is never the id of the next environment of its slot.\<close>

theorem env_ids:
  assumes "i < NENV" and "ENVX old = i \<or> old = 0"
  shows "sint (next_env_id old i) > 0 \<and> ENVX (next_env_id old i) = i \<and> next_env_id old i \<noteq> old"
proof -
  note p = env_id_props [OF assms(1), of old]
  have "next_env_id 0 i \<noteq> 0" using env_id_props(1) [OF assms(1), of 0] by auto
  then show ?thesis using p assms(2) by auto
qed

theorem env_ids_witness: "sint (next_env_id 0x7FFFF005 5) > 0 \<and> next_env_id 0x7FFFF005 5 \<noteq> 0x7FFFF005"
  using env_ids [of 5 "0x7FFFF005"] by (simp add: NENV_def ENVX_def)

text \<open>All that \<open>env_alloc\<close> does when it takes the slot \<open>e\<close> and the page \<open>d\<close>.\<close>

lemma env_alloc_new:
  assumes ok: "alloc_ok k" and fl: "free_pages k = d # ds" and tab: "env_table_ok k e" and tmpl: "kern_template k" and qs: "queues_ok k"
    and sz: "size (total k) < NENV" and par: "parent = 0 \<or> ENVX parent \<noteq> e" and q: "obtener_cola (parent_queue k parent) = Some q"
  obtains k' where "env_alloc parent k = Some (0, Some e, k')"
    "\<And>i. envs k' i = (if i = e then (envs k e)\<lparr>env_pgdir := Some d, env_id := next_env_id (env_id (envs k e)) e, env_parent_id := parent,
      env_status := ENV_RUNNABLE, env_runs := 0, env_tf := user_tf, env_pgfault_upcall := 0,
      env_ipc_recving := False, ejecuciones := 0, cola_actual := parent_queue k parent\<rparr> else envs k i)"
    "env_free_list k' = env_link (envs k e)" "items k' q = items k q @ [next_env_id (env_id (envs k e)) e]" "\<And>x. x \<noteq> q \<Longrightarrow> items k' x = items k x"
    "space_ok k' d" "free_pages k' = ds" "pp_ref k' = (pp_ref k)(d := 1)" "\<And>v. v < UPAGENUM \<Longrightarrow> mapped k' d v = None"
    "\<And>j. j \<noteq> PDX UVPT \<Longrightarrow> frames k' d j = frames k (kern_pgdir k) j" "frames k' d (PDX UVPT) = page2pa d OR PTE_P OR PTE_U"
    "\<And>f. f \<noteq> d \<Longrightarrow> frames k' f = frames k f" "npages k' = npages k" "kern_pgdir k' = kern_pgdir k" "queues_ok k'"
    "lock_holder k' = lock_holder k" "cpunum k' = cpunum k" "curenv k' = curenv k"
    "ejecuciones_totales (mlfq_scheduler k') = ejecuciones_totales (mlfq_scheduler k)"
    "total k' = add_mset (next_env_id (env_id (envs k e)) e) (total k)"
proof -
  note run = env_alloc_run [OF ok fl tab par q]
  note fresh = fresh_vm_space [OF ok fl tmpl, where e = e]
  define eid where "eid = next_env_id (env_id (envs k e)) e"
  define k' where "k' = (let k1 = committed parent e (fresh_vm e d k) in
      set_env e ((envs k1 e)\<lparr>cola_actual := parent_queue k parent\<rparr>) k1
        \<lparr>mlfq_scheduler := set_cola q (cola_push eid (cola (mlfq_scheduler k) q)) (mlfq_scheduler k)\<rparr>)"
  have r: "env_alloc parent k = Some (0, Some e, k')" using run by (simp add: k'_def eid_def Let_def)
  have co: "cola_ok (cola (mlfq_scheduler k) q)" using qs by (simp add: queues_ok_def)
  have "length (items k q) \<le> size (total k)" unfolding size_total by (cases q) simp_all
  then have room: "ultimo (cola (mlfq_scheduler k) q) - primero (cola (mlfq_scheduler k) q) < NENV"
    using sz by (simp add: items_def)
  have it: "items k' q = items k q @ [eid]" "\<And>x. x \<noteq> q \<Longrightarrow> items k' x = items k x"
    using contents_push(1) [OF co room] by (simp_all add: k'_def Let_def items_def)
  have mem: "frames k' = frames (fresh_vm e d k)" "pp_ref k' = pp_ref (fresh_vm e d k)"
    "pp_link k' = pp_link (fresh_vm e d k)" "page_free_list k' = page_free_list (fresh_vm e d k)"
    "npages k' = npages (fresh_vm e d k)"
    by (simp_all add: k'_def Let_def committed_def)
  have fp: "free_pages k' = free_pages (fresh_vm e d k)" by (simp add: free_pages_def mem)
  have al: "alloc_ok k' = alloc_ok (fresh_vm e d k)" by (simp add: alloc_ok_def mem fp)
  have tb: "table k' = table (fresh_vm e d k)" by (intro ext) (simp add: table_def mem)
  have en: "entry k' = entry (fresh_vm e d k)" by (intro ext) (simp add: entry_def tb mem split: option.split)
  have mp: "mapped k' = mapped (fresh_vm e d k)" by (intro ext) (simp add: mapped_def en)
  have sp: "space_ok k' d = space_ok (fresh_vm e d k) d"
    by (simp add: space_ok_def al fp tb mp mem tables_inj_def map_count_def)
  have ev: "envs k' i = (if i = e then (envs k e)\<lparr>env_pgdir := Some d, env_id := eid, env_parent_id := parent,
      env_status := ENV_RUNNABLE, env_runs := 0, env_tf := user_tf, env_pgfault_upcall := 0,
      env_ipc_recving := False, ejecuciones := 0, cola_actual := parent_queue k parent\<rparr> else envs k i)" for i
    by (simp add: k'_def Let_def committed_def eid_def)
  have "env_free_list k' = env_link (envs k e)" by (simp add: k'_def Let_def committed_def)
  moreover have "queues_ok k'"
  proof -
    have "size (total k') = Suc (size (total k))" unfolding size_total using it by (cases q) simp_all
    moreover have "cola_ok (cola (mlfq_scheduler k') x)" for x
      using contents_push(2) [OF co room] qs by (simp add: k'_def Let_def queues_ok_def)
    ultimately show ?thesis using sz by (simp add: queues_ok_def)
  qed
  moreover have "total k' = add_mset eid (total k)" using it by (cases q) (simp_all add: total_def)
  moreover have "lock_holder k' = lock_holder k" "cpunum k' = cpunum k" "curenv k' = curenv k" "kern_pgdir k' = kern_pgdir k"
    "ejecuciones_totales (mlfq_scheduler k') = ejecuciones_totales (mlfq_scheduler k)"
    by (simp_all add: k'_def Let_def committed_def)
  ultimately show thesis
    by (intro that [of k']) (use r ev it fresh in \<open>simp_all add: mem fp mp sp eid_def\<close>)
qed



text \<open>Freeing an environment puts its slot first on the free list and makes its id invalid, but leaves it in
  the queues of the scheduler: every entry stays, so a slot that is used again is queued
  twice.\<close>

theorem freed_environment_stays_queued:
  assumes "env_free e k = Some k'" and "env_id (envs k e) \<noteq> 0" and "ENVX (env_id (envs k e)) = e"
  shows "env_free_list k' = Some e \<and> env_link (envs k' e) = env_free_list k
    \<and> envid2env (env_id (envs k e)) perm k' = Some (- E_BAD_ENV, None) \<and> (\<forall>q. items k' q = items k q)"
  using env_free_shape [OF assms(1)] assms(2,3) by (simp add: envid2env_def items_def)

theorem freed_environment_stays_queued_witness:
  "\<exists>k'. env_free 0 one_env = Some k' \<and> env_free_list k' = Some 0 \<and> items k' A = items one_env A"
proof -
  obtain k' where f: "env_free 0 one_env = Some k'" using one_env_free by blast
  have "env_id (envs one_env 0) = 0x1000" by (simp add: one_env_def zero_env_def)
  then show ?thesis using freed_environment_stays_queued [OF f] f by (auto simp: ENVX_def)
qed

end
