(* ===== verification/Syscall.thy ===== *)
theory Syscall
  imports Env
begin

text \<open>
  The system calls, \<open>kern/syscall.c\<close>: one definition per handler, and the dispatcher. A call either
  returns a number or never returns to its caller, because another environment runs or the CPU
  halts; a fault or a panic of the kernel is \<open>None\<close>.
\<close>

type_synonym 'k outcome = "((int + fate) \<times> 'k) option"

abbreviation ret :: "int \<Rightarrow> 'k \<Rightarrow> 'k outcome" where
  "ret r k \<equiv> Some (Inl r, k)"

section \<open>Helpers\<close>

text \<open>\<open>user_mem_assert\<close>: a failed check destroys the environment; if it is the current one, the call does
  not come back.\<close>

definition user_mem_assert :: "policy \<Rightarrow> nat \<Rightarrow> u32w \<Rightarrow> u32w \<Rightarrow> u32w \<Rightarrow> 'a kern_scheme \<Rightarrow> (fate option \<times> 'a kern_scheme) option" where
  "user_mem_assert pol env va len perm k = do {
     pgdir \<leftarrow> env_pgdir (envs k env);
     (r, k) \<leftarrow> user_mem_check pgdir va len (perm OR PTE_U) k;
     if r < 0 then env_destroy pol env k else Some (None, k)
   }"

definition check_perm :: "u32w \<Rightarrow> u32w option \<Rightarrow> int" where
  "check_perm perm pte =
     (if perm AND NOT PTE_SYSCALL \<noteq> 0 then - E_INVAL
      else if perm AND PTE_P = 0 \<or> perm AND PTE_U = 0 then - E_INVAL
      else case pte of
          None \<Rightarrow> 0
        | Some w \<Rightarrow>
            if w \<noteq> 0 \<and> w AND PTE_P = 0 then - E_INVAL
            else if perm AND PTE_W \<noteq> 0 \<and> w AND PTE_W = 0 then - E_INVAL
            else 0)"

definition env_page_alloc :: "nat \<Rightarrow> u32w \<Rightarrow> u32w \<Rightarrow> 'a kern_scheme \<Rightarrow> (int \<times> 'a kern_scheme) option" where
  "env_page_alloc env va perm k =
     (let err = check_perm perm None in
      if err < 0 then Some (err, k)
      else do {
        (p, k) \<leftarrow> page_alloc ALLOC_ZERO k;
        case p of
          None \<Rightarrow> Some (- E_NO_MEM, k)
        | Some p \<Rightarrow> do {
            pgdir \<leftarrow> env_pgdir (envs k env);
            page_insert pgdir p va perm k
          }
      })"

definition env_page_map :: "nat \<Rightarrow> u32w \<Rightarrow> nat \<Rightarrow> u32w \<Rightarrow> u32w \<Rightarrow> 'a kern_scheme \<Rightarrow> (int \<times> 'a kern_scheme) option" where
  "env_page_map srcenv srcva dstenv dstva perm k = do {
     srcdir \<leftarrow> env_pgdir (envs k srcenv);
     lk \<leftarrow> page_lookup srcdir srcva k;
     case lk of
       None \<Rightarrow> Some (- E_INVAL, k)
     | Some (page, srcpte) \<Rightarrow>
         if (perm AND PTE_W) AND NOT (PTE_W AND pte_at k srcpte) \<noteq> 0 then Some (- E_INVAL, k)
         else do {
           dstdir \<leftarrow> env_pgdir (envs k dstenv);
           page_insert dstdir page dstva perm k
         }
   }"

section \<open>Console\<close>

text \<open>
  What \<open>cprintf("%.*s", len, s)\<close> does with the string: each character is read, through the page tables
  of the CPU, before the precision is looked at. Characters are signed.
\<close>

fun print_chars :: "nat \<Rightarrow> u32w \<Rightarrow> int \<Rightarrow> 'a kern_scheme \<Rightarrow> 'a kern_scheme option" where
  "print_chars 0 p precision k = None"
| "print_chars (Suc n) p precision k = do {
     ch \<leftarrow> get_byte (cr3 k) p k;
     let k' = k\<lparr>cons := cputchar (scast ch) (cons k)\<rparr>;
     if ch = 0 then Some k
     else if precision < 0 then print_chars n (p + 1) precision k'
     else if precision - 1 \<ge> 0 then print_chars n (p + 1) (precision - 1) k'
     else Some k
   }"

text \<open>Enough turns for every address and one more.\<close>

definition ADDRESSES :: nat where "ADDRESSES = Suc (2 ^ 32)"

definition sys_cputs :: "policy \<Rightarrow> u32w \<Rightarrow> u32w \<Rightarrow> 'a kern_scheme \<Rightarrow> 'a kern_scheme outcome" where
  "sys_cputs pol s len k = do {
     c \<leftarrow> curenv k;
     (f, k) \<leftarrow> user_mem_assert pol c s len (PTE_P OR PTE_W OR PTE_U) k;
     case f of
       Some f \<Rightarrow> Some (Inr f, k)
     | None \<Rightarrow> do {
         k \<leftarrow> print_chars ADDRESSES s (sint len) k;
         ret 0 k
       }
   }"

definition sys_cgetc :: "'a kern_scheme \<Rightarrow> 'a kern_scheme outcome" where
  "sys_cgetc k = (let (c, s) = cons_getc (cons k) in ret c (k\<lparr>cons := s\<rparr>))"

section \<open>Environments\<close>

definition sys_getenvid :: "'a kern_scheme \<Rightarrow> 'a kern_scheme outcome" where
  "sys_getenvid k = do {
     c \<leftarrow> curenv k;
     ret (sint (env_id (envs k c))) k
   }"

definition sys_env_destroy :: "policy \<Rightarrow> u32w \<Rightarrow> 'a kern_scheme \<Rightarrow> 'a kern_scheme outcome" where
  "sys_env_destroy pol envid k = do {
     (r, e) \<leftarrow> envid2env envid True k;
     if r < 0 then ret r k
     else do {
       e \<leftarrow> e;
       (f, k) \<leftarrow> env_destroy pol e k;
       case f of Some f \<Rightarrow> Some (Inr f, k) | None \<Rightarrow> ret 0 k
     }
   }"

definition sys_yield :: "policy \<Rightarrow> 'a kern_scheme \<Rightarrow> 'a kern_scheme outcome" where
  "sys_yield pol k = do {
     (f, k) \<leftarrow> sched_yield pol k;
     Some (Inr f, k)
   }"

definition sys_exofork :: "'a kern_scheme \<Rightarrow> 'a kern_scheme outcome" where
  "sys_exofork k = do {
     c \<leftarrow> curenv k;
     (r, newenv, k) \<leftarrow> env_alloc (env_id (envs k c)) k;
     if r \<noteq> 0 then ret r k
     else do {
       e \<leftarrow> newenv;
       let tf = env_tf (envs k c);
       let k = set_env e ((envs k e)\<lparr>env_status := ENV_NOT_RUNNABLE,
                 env_tf := tf\<lparr>tf_regs := (tf_regs tf)\<lparr>reg_eax := 0\<rparr>\<rparr>\<rparr>) k;
       ret (sint (env_id (envs k e))) k
     }
   }"

text \<open>The numbers of the states of an environment.\<close>

definition status_code :: "env_status \<Rightarrow> u32w" where
  "status_code s = (case s of ENV_FREE \<Rightarrow> 0 | ENV_DYING \<Rightarrow> 1 | ENV_RUNNABLE \<Rightarrow> 2 | ENV_RUNNING \<Rightarrow> 3
     | ENV_NOT_RUNNABLE \<Rightarrow> 4)"

definition sys_env_set_status :: "u32w \<Rightarrow> u32w \<Rightarrow> 'a kern_scheme \<Rightarrow> 'a kern_scheme outcome" where
  "sys_env_set_status envid status k =
     (if status \<noteq> status_code ENV_RUNNABLE \<and> status \<noteq> status_code ENV_NOT_RUNNABLE then ret (- E_INVAL) k
      else do {
        (r, e) \<leftarrow> envid2env envid True k;
        if r \<noteq> 0 then ret r k
        else do {
          e \<leftarrow> e;
          ret 0 (set_env e ((envs k e)\<lparr>env_status :=
            (if status = status_code ENV_RUNNABLE then ENV_RUNNABLE else ENV_NOT_RUNNABLE)\<rparr>) k)
        }
      })"

definition sys_env_set_pgfault_upcall :: "policy \<Rightarrow> u32w \<Rightarrow> u32w \<Rightarrow> 'a kern_scheme \<Rightarrow> 'a kern_scheme outcome" where
  "sys_env_set_pgfault_upcall pol envid func k = do {
     (r, e) \<leftarrow> envid2env envid True k;
     if r \<noteq> 0 then ret r k
     else do {
       e \<leftarrow> e;
       (f, k) \<leftarrow> user_mem_assert pol e func PGSIZE (PTE_P OR PTE_U) k;
       case f of
         Some f \<Rightarrow> Some (Inr f, k)
       | None \<Rightarrow> ret 0 (set_env e ((envs k e)\<lparr>env_pgfault_upcall := func\<rparr>) k)
     }
   }"

section \<open>Memory\<close>

definition bad_va :: "u32w \<Rightarrow> bool" where
  "bad_va va \<longleftrightarrow> va \<ge> UTOP \<or> va mod PGSIZE \<noteq> 0"

definition sys_page_alloc :: "u32w \<Rightarrow> u32w \<Rightarrow> u32w \<Rightarrow> 'a kern_scheme \<Rightarrow> 'a kern_scheme outcome" where
  "sys_page_alloc envid va perm k =
     (if bad_va va then ret (- E_INVAL) k
      else do {
        (r, e) \<leftarrow> envid2env envid True k;
        if r \<noteq> 0 then ret r k
        else do {
          e \<leftarrow> e;
          (r, k) \<leftarrow> env_page_alloc e va (perm OR PTE_U OR PTE_P) k;
          ret r k
        }
      })"

definition sys_page_map :: "u32w \<Rightarrow> u32w \<Rightarrow> u32w \<Rightarrow> u32w \<Rightarrow> u32w \<Rightarrow> 'a kern_scheme \<Rightarrow> 'a kern_scheme outcome" where
  "sys_page_map srcenvid srcva dstenvid dstva perm k =
     (if bad_va srcva then ret (- E_INVAL) k
      else if bad_va dstva then ret (- E_INVAL) k
      else do {
        (r, srcenv) \<leftarrow> envid2env srcenvid True k;
        if r \<noteq> 0 then ret r k
        else do {
          (r, dstenv) \<leftarrow> envid2env dstenvid True k;
          if r \<noteq> 0 then ret r k
          else do {
            srcenv \<leftarrow> srcenv;
            dstenv \<leftarrow> dstenv;
            (r, k) \<leftarrow> env_page_map srcenv srcva dstenv dstva (PTE_P OR PTE_U OR perm) k;
            ret r k
          }
        }
      })"

definition sys_page_unmap :: "u32w \<Rightarrow> u32w \<Rightarrow> 'a kern_scheme \<Rightarrow> 'a kern_scheme outcome" where
  "sys_page_unmap envid va k =
     (if bad_va va then ret (- E_INVAL) k
      else do {
        (r, e) \<leftarrow> envid2env envid True k;
        if r \<noteq> 0 then ret r k
        else do {
          e \<leftarrow> e;
          pgdir \<leftarrow> env_pgdir (envs k e);
          k \<leftarrow> page_remove pgdir va k;
          ret 0 k
        }
      })"

section \<open>Messages\<close>

definition ipc_deliver :: "nat \<Rightarrow> nat \<Rightarrow> u32w \<Rightarrow> 'a kern_scheme \<Rightarrow> 'a kern_scheme" where
  "ipc_deliver c dst v k = (let e = envs k dst; tf = env_tf e in
     set_env dst (e\<lparr>env_ipc_from := env_id (envs k c), env_ipc_recving := False, env_ipc_value := v,
       env_tf := tf\<lparr>tf_regs := (tf_regs tf)\<lparr>reg_eax := 0\<rparr>\<rparr>, env_status := ENV_RUNNABLE\<rparr>) k)"

text \<open>
  \<open>sys_ipc_try_send\<close>. When the page of \<open>srcva\<close> has no page table, \<open>page_lookup\<close> does not store the entry and
  the code reads through an uninitialized pointer: undefined.
\<close>

definition sys_ipc_try_send :: "u32w \<Rightarrow> u32w \<Rightarrow> u32w \<Rightarrow> u32w \<Rightarrow> 'a kern_scheme \<Rightarrow> 'a kern_scheme outcome" where
  "sys_ipc_try_send envid v srcva perm k = do {
     (r, dst) \<leftarrow> envid2env envid False k;
     if r \<noteq> 0 then ret r k
     else do {
       dst \<leftarrow> dst;
       c \<leftarrow> curenv k;
       if \<not> env_ipc_recving (envs k dst) then ret (- E_IPC_NOT_RECV) k
       else if srcva \<ge> UTOP
       then ret 0 (ipc_deliver c dst v (set_env dst ((envs k dst)\<lparr>env_ipc_perm := 0\<rparr>) k))
       else if srcva mod PGSIZE \<noteq> 0 then ret (- E_INVAL) k
       else do {
         pgdir \<leftarrow> env_pgdir (envs k c);
         _ \<leftarrow> page_lookup pgdir srcva k;
         (pte, _) \<leftarrow> pgdir_walk pgdir srcva False k;
         pte \<leftarrow> pte;
         let w = pte_at k pte;
         if w \<noteq> 0 \<and> w AND PTE_P = 0 then ret (- E_INVAL) k
         else if perm AND PTE_W \<noteq> 0 \<and> w AND PTE_W = 0 then ret (- E_INVAL) k
         else do {
           let perm = perm OR PTE_U OR PTE_P;
           let dstva = env_ipc_dstva (envs k dst);
           if dstva = 0 then ret 0 (ipc_deliver c dst v k)
           else do {
             (r, k) \<leftarrow> env_page_alloc dst dstva perm k;
             if r < 0 then ret r k
             else do {
               (r, k) \<leftarrow> env_page_map c srcva dst dstva perm k;
               if r < 0 then ret r k
               else ret 0 (ipc_deliver c dst v (set_env dst ((envs k dst)\<lparr>env_ipc_perm := perm\<rparr>) k))
             }
           }
         }
       }
     }
   }"

definition sys_ipc_recv :: "policy \<Rightarrow> u32w \<Rightarrow> 'a kern_scheme \<Rightarrow> 'a kern_scheme outcome" where
  "sys_ipc_recv pol dstva k = do {
     c \<leftarrow> curenv k;
     let k = set_env c ((envs k c)\<lparr>env_ipc_recving := True\<rparr>) k;
     if bad_va dstva then ret (- E_INVAL) k
     else sys_yield pol (set_env c ((envs k c)\<lparr>env_ipc_dstva := dstva, env_status := ENV_NOT_RUNNABLE\<rparr>) k)
   }"

section \<open>Priorities\<close>

definition sys_env_obtener_prioridad :: "u32w \<Rightarrow> 'a kern_scheme \<Rightarrow> 'a kern_scheme outcome" where
  "sys_env_obtener_prioridad envid k = do {
     (r, e) \<leftarrow> envid2env envid False k;
     if r \<noteq> 0 then ret r k
     else do {
       e \<leftarrow> e;
       ret (cola_actual (envs k e)) k
     }
   }"

definition sys_env_asignar_prioridad :: "u32w \<Rightarrow> int \<Rightarrow> 'a kern_scheme \<Rightarrow> 'a kern_scheme outcome" where
  "sys_env_asignar_prioridad envid prioridad k =
     (if prioridad < 0 \<or> prioridad > 3 then ret (-1) k
      else do {
        (r, e) \<leftarrow> envid2env envid False k;
        if r \<noteq> 0 then ret (-1) k
        else do {
          e \<leftarrow> e;
          c \<leftarrow> curenv k;
          if e \<noteq> c \<and> env_parent_id (envs k e) \<noteq> env_id (envs k c) then ret (-1) k
          else if cola_actual (envs k e) = prioridad then ret prioridad k
          else if cola_actual (envs k e) > prioridad then ret (-1) k
          else do {
            k \<leftarrow> sched_eliminar_env (env_id (envs k e)) k;
            k \<leftarrow> sched_agregar_env (env_id (envs k e)) prioridad k;
            ret prioridad (set_env e ((envs k e)\<lparr>cola_actual := prioridad\<rparr>) k)
          }
        }
      })"

section \<open>The dispatcher\<close>

datatype syscallno = SYS_cputs | SYS_cgetc | SYS_getenvid | SYS_env_destroy | SYS_page_alloc | SYS_page_map
  | SYS_page_unmap | SYS_exofork | SYS_env_set_status | SYS_env_set_pgfault_upcall | SYS_yield
  | SYS_ipc_try_send | SYS_ipc_recv | SYS_obtener_prioridad | SYS_asignar_prioridad

definition all_syscalls :: "syscallno list" where
  "all_syscalls = [SYS_cputs, SYS_cgetc, SYS_getenvid, SYS_env_destroy, SYS_page_alloc, SYS_page_map,
     SYS_page_unmap, SYS_exofork, SYS_env_set_status, SYS_env_set_pgfault_upcall, SYS_yield,
     SYS_ipc_try_send, SYS_ipc_recv, SYS_obtener_prioridad, SYS_asignar_prioridad]"

definition decode_syscall :: "u32w \<Rightarrow> syscallno option" where
  "decode_syscall n = (if unat n < length all_syscalls then Some (all_syscalls ! unat n) else None)"

definition syscall :: "policy \<Rightarrow> u32w \<Rightarrow> u32w \<Rightarrow> u32w \<Rightarrow> u32w \<Rightarrow> u32w \<Rightarrow> u32w \<Rightarrow> 'a kern_scheme \<Rightarrow> 'a kern_scheme outcome" where
  "syscall pol no a1 a2 a3 a4 a5 k =
     (case decode_syscall no of
        None \<Rightarrow> ret (- E_INVAL) k
      | Some SYS_cputs \<Rightarrow> sys_cputs pol a1 a2 k
      | Some SYS_getenvid \<Rightarrow> sys_getenvid k
      | Some SYS_env_destroy \<Rightarrow> sys_env_destroy pol a1 k
      | Some SYS_cgetc \<Rightarrow> sys_cgetc k
      | Some SYS_exofork \<Rightarrow> sys_exofork k
      | Some SYS_env_set_status \<Rightarrow> sys_env_set_status a1 a2 k
      | Some SYS_page_alloc \<Rightarrow> sys_page_alloc a1 a2 a3 k
      | Some SYS_page_map \<Rightarrow> sys_page_map a1 a2 a3 a4 a5 k
      | Some SYS_page_unmap \<Rightarrow> sys_page_unmap a1 a2 k
      | Some SYS_ipc_recv \<Rightarrow> sys_ipc_recv pol a1 k
      | Some SYS_ipc_try_send \<Rightarrow> sys_ipc_try_send a1 a2 a3 a4 k
      | Some SYS_env_set_pgfault_upcall \<Rightarrow> sys_env_set_pgfault_upcall pol a1 a2 k
      | Some SYS_yield \<Rightarrow> sys_yield pol k
      | Some SYS_obtener_prioridad \<Rightarrow> sys_env_obtener_prioridad a1 k
      | Some SYS_asignar_prioridad \<Rightarrow> sys_env_asignar_prioridad a1 (sint a2) k)"

end
