(* ===== verification/Trap.thy ===== *)
theory Trap
  imports Syscall
begin

text \<open>
  Segments, gates and traps: the global descriptor table of \<open>kern/env.c\<close>, the interrupt table of
  \<open>trap_init\<close>, and what \<open>trap\<close> does with a trap frame, from taking the lock to choosing what runs
  next (\<open>kern/trap.c\<close>).
\<close>

section \<open>Segments\<close>

record Segdesc =
  sd_lim_15_0 :: u32w
  sd_base_15_0 :: u32w
  sd_base_23_16 :: u32w
  sd_type :: u32w
  sd_s :: u32w
  sd_dpl :: u32w
  sd_p :: u32w
  sd_lim_19_16 :: u32w
  sd_avl :: u32w
  sd_rsv1 :: u32w
  sd_db :: u32w
  sd_g :: u32w
  sd_base_31_24 :: u32w

definition SEG_NULL :: Segdesc where
  "SEG_NULL = \<lparr>sd_lim_15_0 = 0, sd_base_15_0 = 0, sd_base_23_16 = 0, sd_type = 0, sd_s = 0, sd_dpl = 0,
     sd_p = 0, sd_lim_19_16 = 0, sd_avl = 0, sd_rsv1 = 0, sd_db = 0, sd_g = 0, sd_base_31_24 = 0\<rparr>"

definition SEG :: "u32w \<Rightarrow> u32w \<Rightarrow> u32w \<Rightarrow> u32w \<Rightarrow> Segdesc" where
  "SEG ty base lim dpl = \<lparr>sd_lim_15_0 = drop_bit 12 lim AND 0xFFFF, sd_base_15_0 = base AND 0xFFFF,
     sd_base_23_16 = drop_bit 16 base AND 0xFF, sd_type = ty, sd_s = 1, sd_dpl = dpl, sd_p = 1,
     sd_lim_19_16 = drop_bit 28 lim, sd_avl = 0, sd_rsv1 = 0, sd_db = 1, sd_g = 1,
     sd_base_31_24 = drop_bit 24 base\<rparr>"

text \<open>A byte-granular segment; the bit fields keep the low bits of their values.\<close>

definition SEG16 :: "u32w \<Rightarrow> u32w \<Rightarrow> u32w \<Rightarrow> u32w \<Rightarrow> Segdesc" where
  "SEG16 ty base lim dpl = \<lparr>sd_lim_15_0 = lim AND 0xFFFF, sd_base_15_0 = base AND 0xFFFF,
     sd_base_23_16 = drop_bit 16 base AND 0xFF, sd_type = ty, sd_s = 1, sd_dpl = dpl, sd_p = 1,
     sd_lim_19_16 = drop_bit 16 lim AND 0xF, sd_avl = 0, sd_rsv1 = 0, sd_db = 1, sd_g = 0,
     sd_base_31_24 = drop_bit 24 base\<rparr>"

definition STA_X :: u32w where "STA_X = 0x8"
definition STA_W :: u32w where "STA_W = 0x2"
definition STA_R :: u32w where "STA_R = 0x2"
definition STS_T32A :: u32w where "STS_T32A = 0x9"
definition STS_IG32 :: u32w where "STS_IG32 = 0xE"
definition STS_TG32 :: u32w where "STS_TG32 = 0xF"
definition NCPU :: nat where "NCPU = 8"

definition gdt :: "Segdesc list" where
  "gdt = [SEG_NULL, SEG (STA_X OR STA_R) 0 0xFFFFFFFF 0, SEG STA_W 0 0xFFFFFFFF 0,
     SEG (STA_X OR STA_R) 0 0xFFFFFFFF 3, SEG STA_W 0 0xFFFFFFFF 3] @ replicate NCPU SEG_NULL"

text \<open>The base and the size of a segment, as the processor reads them.\<close>

definition seg_base :: "Segdesc \<Rightarrow> u32w" where
  "seg_base d = sd_base_15_0 d OR push_bit 16 (sd_base_23_16 d) OR push_bit 24 (sd_base_31_24 d)"

definition seg_limit :: "Segdesc \<Rightarrow> u32w" where
  "seg_limit d = (let l = sd_lim_15_0 d OR push_bit 16 (sd_lim_19_16 d) in
     if sd_g d = 1 then push_bit 12 l OR 0xFFF else l)"

section \<open>Per-CPU task state\<close>

text \<open>The task state of the processor, without its padding.\<close>

record Taskstate =
  ts_link :: u32w
  ts_esp0 :: u32w
  ts_ss0 :: u16w
  ts_esp1 :: u32w
  ts_ss1 :: u16w
  ts_esp2 :: u32w
  ts_ss2 :: u16w
  ts_cr3 :: u32w
  ts_eip :: u32w
  ts_eflags :: u32w
  ts_eax :: u32w
  ts_ecx :: u32w
  ts_edx :: u32w
  ts_ebx :: u32w
  ts_esp :: u32w
  ts_ebp :: u32w
  ts_esi :: u32w
  ts_edi :: u32w
  ts_es :: u16w
  ts_cs :: u16w
  ts_ss :: u16w
  ts_ds :: u16w
  ts_fs :: u16w
  ts_gs :: u16w
  ts_ldt :: u16w
  ts_t :: u16w
  ts_iomb :: u16w

definition TASKSTATE_SIZE :: u32w where "TASKSTATE_SIZE = 104"

definition cpu_esp0 :: "nat \<Rightarrow> u32w" where
  "cpu_esp0 thisid = KSTACKTOP - word_of_nat thisid * (KSTKGAP + KSTKSIZE)"

text \<open>\<open>trap_init_percpu\<close>, for the CPU \<open>thisid\<close> whose task state \<open>ts\<close> is at \<open>thists\<close>; the selector loaded last.\<close>

definition trap_init_percpu :: "nat \<Rightarrow> u32w \<Rightarrow> Taskstate \<Rightarrow> Segdesc list \<Rightarrow> Taskstate \<times> Segdesc list \<times> u16w" where
  "trap_init_percpu thisid thists ts g =
     (let ts = ts\<lparr>ts_esp0 := cpu_esp0 thisid, ts_ss0 := GD_KD, ts_iomb := ucast TASKSTATE_SIZE\<rparr>;
          i = unat (drop_bit 3 GD_TSS0) + thisid;
          g = g[i := SEG16 STS_T32A thists (TASKSTATE_SIZE - 1) 0];
          g = g[i := (g ! i)\<lparr>sd_s := 0\<rparr>]
      in (ts, g, GD_TSS0 + push_bit 3 (word_of_nat thisid)))"

section \<open>Gates\<close>

record Gatedesc =
  gd_off_15_0 :: u32w
  gd_sel :: u16w
  gd_args :: u32w
  gd_rsv1 :: u32w
  gd_type :: u32w
  gd_s :: u32w
  gd_dpl :: u32w
  gd_p :: u32w
  gd_off_31_16 :: u32w

definition null_gate :: Gatedesc where
  "null_gate = \<lparr>gd_off_15_0 = 0, gd_sel = 0, gd_args = 0, gd_rsv1 = 0, gd_type = 0, gd_s = 0,
     gd_dpl = 0, gd_p = 0, gd_off_31_16 = 0\<rparr>"

definition SETGATE :: "bool \<Rightarrow> u16w \<Rightarrow> u32w \<Rightarrow> u32w \<Rightarrow> Gatedesc" where
  "SETGATE istrap sel off dpl = \<lparr>gd_off_15_0 = off AND 0xFFFF, gd_sel = sel, gd_args = 0, gd_rsv1 = 0,
     gd_type = (if istrap then STS_TG32 else STS_IG32), gd_s = 0, gd_dpl = dpl, gd_p = 1,
     gd_off_31_16 = drop_bit 16 off\<rparr>"

definition gate_offset :: "Gatedesc \<Rightarrow> u32w" where
  "gate_offset g = gd_off_15_0 g OR push_bit 16 (gd_off_31_16 g)"

definition T_BRKPT :: nat where "T_BRKPT = 3"
definition T_PGFLT :: nat where "T_PGFLT = 14"
definition T_SYSCALL :: nat where "T_SYSCALL = 48"
definition IRQ_OFFSET :: nat where "IRQ_OFFSET = 32"
definition IRQ_TIMER :: nat where "IRQ_TIMER = 0"
definition IRQ_KBD :: nat where "IRQ_KBD = 1"
definition IRQ_SPURIOUS :: nat where "IRQ_SPURIOUS = 7"

text \<open>The gates in the order of \<open>trap_init\<close>: vector and privilege. \<open>entry\<close> gives the addresses of the
  assembler entry points, by vector.\<close>

definition trap_gates :: "(nat \<times> u32w) list" where
  "trap_gates = [(0, 0), (1, 0), (2, 0), (T_BRKPT, 3), (4, 0), (5, 0), (6, 0), (7, 0), (8, 0), (10, 0), (11, 0), (12, 0),
     (13, 0), (T_PGFLT, 0), (16, 0), (17, 0), (18, 0), (19, 0), (T_SYSCALL, 3), (IRQ_OFFSET + IRQ_TIMER, 0)]"

definition trap_init :: "(nat \<Rightarrow> u32w) \<Rightarrow> nat \<Rightarrow> Gatedesc" where
  "trap_init trap_entry = fold (\<lambda>(v, dpl) idt. idt(v := SETGATE False GD_KT (trap_entry v) dpl)) trap_gates (\<lambda>_. null_gate)"

definition trapname :: "nat \<Rightarrow> string" where
  "trapname trapno =
     (let excnames = [''Divide error'', ''Debug'', ''Non-Maskable Interrupt'', ''Breakpoint'', ''Overflow'',
        ''BOUND Range Exceeded'', ''Invalid Opcode'', ''Device Not Available'', ''Double Fault'',
        ''Coprocessor Segment Overrun'', ''Invalid TSS'', ''Segment Not Present'', ''Stack Fault'',
        ''General Protection'', ''Page Fault'', ''(unknown trap)'', ''x87 FPU Floating-Point Error'',
        ''Alignment Check'', ''Machine-Check'', ''SIMD Floating-Point Exception''] in
      if trapno < length excnames then excnames ! trapno
      else if trapno = T_SYSCALL then ''System call''
      else if trapno \<ge> IRQ_OFFSET \<and> trapno < IRQ_OFFSET + 16 then ''Hardware Interrupt''
      else ''(unknown trap)'')"

section \<open>Page faults of user programs\<close>

text \<open>The bytes of a \<open>struct UTrapframe\<close>, 13 words.\<close>

definition word_bytes :: "u32w \<Rightarrow> u8w list" where
  "word_bytes w = [byte_of w 0, byte_of w 1, byte_of w 2, byte_of w 3]"

definition utf_words :: "u32w \<Rightarrow> Trapframe \<Rightarrow> u32w list" where
  "utf_words fault_va tf = (let r = tf_regs tf in
     [fault_va, tf_err tf, reg_edi r, reg_esi r, reg_ebp r, reg_oesp r, reg_ebx r, reg_edx r, reg_ecx r, reg_eax r,
      tf_eip tf, tf_eflags tf, tf_esp tf])"

definition UTF_SIZE :: u32w where "UTF_SIZE = 52"

text \<open>
  \<open>page_fault_handler\<close> for the current environment \<open>c\<close>; \<open>fault_va\<close> is the register \<open>cr2\<close>. The frame is
  written through the page tables of the CPU before the code looks at the overflow of the exception
  stack.
\<close>

definition page_fault_handler :: "policy \<Rightarrow> u32w \<Rightarrow> Trapframe \<Rightarrow> 'a kern_scheme \<Rightarrow> (fate option \<times> 'a kern_scheme) option" where
  "page_fault_handler pol fault_va tf k =
     (if tf_cs tf AND 3 = 0 then None
      else do {
        c \<leftarrow> curenv k;
        if env_pgfault_upcall (envs k c) \<noteq> 0
        then do {
          let exstk = UXSTACKTOP - PGSIZE;
          let exstk_top = UXSTACKTOP - 1;
          (f, k) \<leftarrow> user_mem_assert pol c exstk PGSIZE (PTE_U OR PTE_W) k;
          case f of
            Some f \<Rightarrow> Some (Some f, k)
          | None \<Rightarrow> do {
              let esp = tf_esp tf;
              let outside = (esp < exstk \<or> esp > exstk_top);
              k \<leftarrow> (if outside then Some k else put_bytes (cr3 k) (esp - 4) (word_bytes 0) k);
              let tmp = (if outside then exstk_top - UTF_SIZE else esp - 4 - UTF_SIZE);
              k \<leftarrow> put_bytes (cr3 k) tmp (concat (map word_bytes (utf_words fault_va tf))) k;
              if tmp < exstk \<or> tmp > exstk_top then None
              else do {
                let e = envs k c;
                let k = set_env c (e\<lparr>env_tf := (env_tf e)\<lparr>tf_esp := tmp, tf_eip := env_pgfault_upcall e\<rparr>\<rparr>) k;
                (f, k) \<leftarrow> env_run c k;
                Some (Some f, k)
              }
            }
        }
        else env_destroy pol c k
      })"

section \<open>Traps\<close>

text \<open>
  \<open>mon\<close> is the kernel monitor, which reads commands from the console until one ends it. The frame \<open>tf\<close> is
  the one of the current environment \<open>c\<close> when the trap came from user mode (\<open>Some c\<close>), or the one on the
  stack.
\<close>

definition trap_dispatch :: "policy \<Rightarrow> ('a kern_scheme \<Rightarrow> 'a kern_scheme) \<Rightarrow> u32w \<Rightarrow> nat option \<Rightarrow> Trapframe \<Rightarrow> 'a kern_scheme
    \<Rightarrow> (fate option \<times> 'a kern_scheme) option" where
  "trap_dispatch pol mon fault_va own tf k =
     (let no = unat (tf_trapno tf); r = tf_regs tf in
      if no = T_BRKPT then Some (None, mon k)
      else if no = T_PGFLT then page_fault_handler pol fault_va tf k
      else if no = T_SYSCALL
      then do {
        (res, k) \<leftarrow> syscall pol (reg_eax r) (reg_edx r) (reg_ecx r) (reg_ebx r) (reg_edi r) (reg_esi r) k;
        case res of
          Inr f \<Rightarrow> Some (Some f, k)
        | Inl n \<Rightarrow> Some (None, case own of
              None \<Rightarrow> k
            | Some c \<Rightarrow> (let e = envs k c; t = env_tf e in
                set_env c (e\<lparr>env_tf := t\<lparr>tf_regs := (tf_regs t)\<lparr>reg_eax := word_of_int n\<rparr>\<rparr>\<rparr>) k))
      }
      else if no = IRQ_OFFSET + IRQ_SPURIOUS then Some (None, k)
      else if no = IRQ_OFFSET + IRQ_TIMER
      then do {
        (f, k) \<leftarrow> sched_yield pol k;
        Some (Some f, k)
      }
      else if tf_cs tf = GD_KT then None
      else do {
        c \<leftarrow> curenv k;
        env_destroy pol c k
      })"

text \<open>Taking the kernel lock when it is free; taking it twice is a panic, and a CPU that finds it taken by
  another one waits: it makes no step here.\<close>

definition lock_kernel :: "'a kern_scheme \<Rightarrow> 'a kern_scheme option" where
  "lock_kernel k = (if lock_holder k = None then Some (k\<lparr>lock_holder := Some (cpunum k)\<rparr>) else None)"

definition trap_end :: "policy \<Rightarrow> fate option \<Rightarrow> 'a kern_scheme \<Rightarrow> (fate \<times> 'a kern_scheme) option" where
  "trap_end pol f k =
     (case f of
        Some f \<Rightarrow> Some (f, k)
      | None \<Rightarrow> (case curenv k of
            Some c \<Rightarrow> if env_status (envs k c) = ENV_RUNNING then env_run c k else sched_yield pol k
          | None \<Rightarrow> sched_yield pol k))"

definition trap :: "policy \<Rightarrow> ('a kern_scheme \<Rightarrow> 'a kern_scheme) \<Rightarrow> u32w \<Rightarrow> Trapframe \<Rightarrow> 'a kern_scheme \<Rightarrow> (fate \<times> 'a kern_scheme) option" where
  "trap pol mon fault_va tf k = do {
     let halted = (cpu_status k = CPU_HALTED);
     let k = k\<lparr>cpu_status := CPU_STARTED\<rparr>;
     k \<leftarrow> (if halted then lock_kernel k else Some k);
     if tf_cs tf AND 3 = 3
     then do {
       k \<leftarrow> lock_kernel k;
       c \<leftarrow> curenv k;
       if env_status (envs k c) = ENV_DYING
       then do {
         k \<leftarrow> env_free c k;
         sched_yield pol (k\<lparr>curenv := None, curenv_pgdir := None\<rparr>)
       }
       else do {
         let k = set_env c ((envs k c)\<lparr>env_tf := tf\<rparr>) k;
         (f, k) \<leftarrow> trap_dispatch pol mon fault_va (Some c) tf k;
         trap_end pol f k
       }
     }
     else do {
       (f, k) \<leftarrow> trap_dispatch pol mon fault_va None tf k;
       trap_end pol f k
     }
   }"

end
