(* ===== verification/Fork.thy ===== *)
theory Fork
  imports Trap
begin

text \<open>
  The user library on top of the system calls: the stubs of \<open>lib/syscall.c\<close>, the page fault handler and
  the two forks of \<open>lib/fork.c\<close>, \<open>lib/pgfault.c\<close> and \<open>lib/ipc.c\<close>. A step of the user program acts on
  the state of the kernel; a panic of the program, or a call that does not come back, is \<open>None\<close>.
\<close>

section \<open>System call stubs\<close>

definition sysno :: "syscallno \<Rightarrow> u32w" where
  "sysno s = (case s of SYS_cputs \<Rightarrow> 0 | SYS_cgetc \<Rightarrow> 1 | SYS_getenvid \<Rightarrow> 2 | SYS_env_destroy \<Rightarrow> 3
     | SYS_page_alloc \<Rightarrow> 4 | SYS_page_map \<Rightarrow> 5 | SYS_page_unmap \<Rightarrow> 6 | SYS_exofork \<Rightarrow> 7 | SYS_env_set_status \<Rightarrow> 8
     | SYS_env_set_pgfault_upcall \<Rightarrow> 9 | SYS_yield \<Rightarrow> 10 | SYS_ipc_try_send \<Rightarrow> 11 | SYS_ipc_recv \<Rightarrow> 12
     | SYS_obtener_prioridad \<Rightarrow> 13 | SYS_asignar_prioridad \<Rightarrow> 14)"

lemma decode_sysno [simp]: "decode_syscall (sysno s) = Some s"
  by (cases s) (simp_all add: decode_syscall_def sysno_def all_syscalls_def)

text \<open>\<open>syscall\<close> of the library: with \<open>check\<close> a positive result is a panic.\<close>

definition user_syscall :: "policy \<Rightarrow> syscallno \<Rightarrow> bool \<Rightarrow> u32w \<Rightarrow> u32w \<Rightarrow> u32w \<Rightarrow> u32w \<Rightarrow> u32w \<Rightarrow> 'a kern_scheme
    \<Rightarrow> (int \<times> 'a kern_scheme) option" where
  "user_syscall pol s check a1 a2 a3 a4 a5 k =
     (case syscall pol (sysno s) a1 a2 a3 a4 a5 k of
        Some (Inl r, k) \<Rightarrow> if check \<and> r > 0 then None else Some (r, k)
      | _ \<Rightarrow> None)"

definition u_page_alloc :: "policy \<Rightarrow> u32w \<Rightarrow> u32w \<Rightarrow> u32w \<Rightarrow> 'a kern_scheme \<Rightarrow> (int \<times> 'a kern_scheme) option" where
  "u_page_alloc pol envid va perm = user_syscall pol SYS_page_alloc True envid va perm 0 0"

definition u_page_map :: "policy \<Rightarrow> u32w \<Rightarrow> u32w \<Rightarrow> u32w \<Rightarrow> u32w \<Rightarrow> u32w \<Rightarrow> 'a kern_scheme \<Rightarrow> (int \<times> 'a kern_scheme) option" where
  "u_page_map pol srcenv srcva dstenv dstva perm = user_syscall pol SYS_page_map True srcenv srcva dstenv dstva perm"

definition u_page_unmap :: "policy \<Rightarrow> u32w \<Rightarrow> u32w \<Rightarrow> 'a kern_scheme \<Rightarrow> (int \<times> 'a kern_scheme) option" where
  "u_page_unmap pol envid va = user_syscall pol SYS_page_unmap True envid va 0 0 0"

definition u_env_set_status :: "policy \<Rightarrow> u32w \<Rightarrow> u32w \<Rightarrow> 'a kern_scheme \<Rightarrow> (int \<times> 'a kern_scheme) option" where
  "u_env_set_status pol envid status = user_syscall pol SYS_env_set_status True envid status 0 0 0"

definition u_env_set_pgfault_upcall :: "policy \<Rightarrow> u32w \<Rightarrow> u32w \<Rightarrow> 'a kern_scheme \<Rightarrow> (int \<times> 'a kern_scheme) option" where
  "u_env_set_pgfault_upcall pol envid upcall = user_syscall pol SYS_env_set_pgfault_upcall True envid upcall 0 0 0"

definition u_exofork :: "policy \<Rightarrow> 'a kern_scheme \<Rightarrow> (int \<times> 'a kern_scheme) option" where
  "u_exofork pol = user_syscall pol SYS_exofork False 0 0 0 0 0"

definition u_ipc_try_send :: "policy \<Rightarrow> u32w \<Rightarrow> u32w \<Rightarrow> u32w \<Rightarrow> u32w \<Rightarrow> 'a kern_scheme \<Rightarrow> (int \<times> 'a kern_scheme) option" where
  "u_ipc_try_send pol envid v srcva perm = user_syscall pol SYS_ipc_try_send False envid v srcva perm 0"

definition u_asignar_prioridad :: "policy \<Rightarrow> u32w \<Rightarrow> int \<Rightarrow> 'a kern_scheme \<Rightarrow> (int \<times> 'a kern_scheme) option" where
  "u_asignar_prioridad pol envid prioridad = user_syscall pol SYS_asignar_prioridad False envid (word_of_int prioridad) 0 0 0"

section \<open>The page tables seen by the program\<close>

text \<open>\<open>uvpd[i]\<close> and \<open>uvpt[n]\<close>: reading the entry of a page without a user page table faults.\<close>

definition PTE_COW :: u32w where "PTE_COW = 0x800"
definition FEC_WR :: u32w where "FEC_WR = 2"

definition uvpd :: "'a kern_scheme \<Rightarrow> nat \<Rightarrow> u32w" where
  "uvpd k i = frames k (cr3 k) i"

definition uvpt :: "'a kern_scheme \<Rightarrow> nat \<Rightarrow> u32w option" where
  "uvpt k n = (let pde = uvpd k (n div 1024) in
     if pde AND (PTE_P OR PTE_U) = PTE_P OR PTE_U then Some (frames k (PGNUM pde) (n mod 1024)) else None)"

text \<open>Copying memory, byte by byte, as the program.\<close>

fun copy_bytes :: "nat \<Rightarrow> u32w \<Rightarrow> u32w \<Rightarrow> nat \<Rightarrow> 'a mem_scheme \<Rightarrow> 'a mem_scheme option" where
  "copy_bytes pgdir dst src 0 m = Some m"
| "copy_bytes pgdir dst src (Suc n) m = do {
     b \<leftarrow> get_byte pgdir src m;
     m \<leftarrow> put_byte pgdir dst b m;
     copy_bytes pgdir (dst + 1) (src + 1) n m
   }"

section \<open>Page faults\<close>

text \<open>\<open>pgfault\<close>: its test is a bitwise conjunction of the flag 2 with a truth value, and never holds.\<close>

definition pgfault :: "policy \<Rightarrow> u32w \<Rightarrow> u32w \<Rightarrow> 'a kern_scheme \<Rightarrow> 'a kern_scheme option" where
  "pgfault pol fault_va err k = do {
     fault_pte \<leftarrow> uvpt k (PGNUM fault_va);
     if (err AND FEC_WR) AND (if fault_pte AND PTE_COW = 0 then 1 else 0) \<noteq> 0 then None
     else do {
       let perm = PTE_P OR PTE_U OR PTE_W;
       (r, k) \<leftarrow> u_page_alloc pol 0 PFTEMP perm k;
       if r < 0 then None
       else do {
         let addr = ROUNDDOWN fault_va PGSIZE;
         k \<leftarrow> copy_bytes (cr3 k) PFTEMP addr 4096 k;
         (r, k) \<leftarrow> u_page_map pol 0 PFTEMP 0 addr perm k;
         if r < 0 then None
         else do {
           (r, k) \<leftarrow> u_page_unmap pol 0 PFTEMP k;
           if r < 0 then None else Some k
         }
       }
     }
   }"

text \<open>\<open>set_pgfault_handler\<close>: whether a handler is installed, and the entry point.\<close>

definition set_pgfault_handler :: "policy \<Rightarrow> bool \<Rightarrow> u32w \<Rightarrow> 'a kern_scheme \<Rightarrow> (bool \<times> 'a kern_scheme) option" where
  "set_pgfault_handler pol installed upcall k =
     (if installed then Some (True, k)
      else do {
        (r, k) \<leftarrow> u_page_alloc pol 0 (UXSTACKTOP - PGSIZE) (PTE_U OR PTE_P OR PTE_W) k;
        if r < 0 then Some (False, k)
        else do {
          (r, k) \<leftarrow> u_env_set_pgfault_upcall pol 0 upcall k;
          Some (r \<ge> 0, k)
        }
      })"

section \<open>Fork\<close>

text \<open>The address of a page number.\<close>

definition pn_addr :: "nat \<Rightarrow> u32w" where
  "pn_addr pn = push_bit 12 (word_of_nat pn)"

definition duppage :: "policy \<Rightarrow> u32w \<Rightarrow> nat \<Rightarrow> 'a kern_scheme \<Rightarrow> 'a kern_scheme option" where
  "duppage pol envid pn k = do {
     let addr = pn_addr pn;
     pte \<leftarrow> uvpt k pn;
     if pte AND PTE_P = 0 \<or> pte AND PTE_U = 0 then None
     else do {
       let perm = PTE_U OR PTE_P;
       let perm = (if pte AND (PTE_PCD OR PTE_PWT) \<noteq> 0 then perm OR PTE_PCD OR PTE_PWT else perm);
       if pte AND PTE_W \<noteq> 0 \<or> pte AND PTE_COW \<noteq> 0
       then do {
         (r, k) \<leftarrow> u_page_map pol 0 addr envid addr (perm OR PTE_COW) k;
         if r < 0 then None
         else do {
           (r, k) \<leftarrow> u_page_map pol 0 addr 0 addr (perm OR PTE_COW) k;
           if r < 0 then None else Some k
         }
       }
       else do {
         (r, k) \<leftarrow> u_page_map pol 0 addr envid addr perm k;
         if r < 0 then None else Some k
       }
     }
   }"

definition dup_or_share :: "policy \<Rightarrow> u32w \<Rightarrow> nat \<Rightarrow> u32w \<Rightarrow> 'a kern_scheme \<Rightarrow> 'a kern_scheme option" where
  "dup_or_share pol envid pnum perm k = do {
     let addr = pn_addr pnum;
     pte \<leftarrow> uvpt k pnum;
     if pte AND PTE_P = 0 then Some k
     else do {
       let io = pte AND (PTE_PCD OR PTE_PWT) \<noteq> 0;
       let perm = (perm AND (pte AND PTE_W)) AND PTE_SYSCALL;
       let perm = (if io then perm OR PTE_PCD OR PTE_PWT else perm);
       if pte AND PTE_W = 0 \<or> io
       then do {
         (r, k) \<leftarrow> u_page_map pol 0 addr envid addr perm k;
         if r < 0 then None else Some k
       }
       else do {
         (r, k) \<leftarrow> u_page_alloc pol envid addr perm k;
         if r < 0 then None
         else do {
           (r, k) \<leftarrow> u_page_map pol envid addr 0 UTEMP perm k;
           if r < 0 then None
           else do {
             k \<leftarrow> copy_bytes (cr3 k) UTEMP addr 4096 k;
             (r, k) \<leftarrow> u_page_unmap pol 0 UTEMP k;
             if r < 0 then None else Some k
           }
         }
       }
     }
   }"

text \<open>The loops over the pages below \<open>UTOP\<close>.\<close>

fun fork_v0_pages :: "policy \<Rightarrow> u32w \<Rightarrow> nat list \<Rightarrow> 'a kern_scheme \<Rightarrow> 'a kern_scheme option" where
  "fork_v0_pages pol envid [] k = Some k"
| "fork_v0_pages pol envid (pnum # pnums) k = do {
     let pde = uvpd k (pnum div 1024);
     k \<leftarrow> (if pde AND PTE_P = 0 \<or> pde AND PTE_U = 0 then Some k
           else dup_or_share pol envid pnum (PTE_P OR PTE_U OR PTE_W) k);
     fork_v0_pages pol envid pnums k
   }"

definition fork_v0 :: "policy \<Rightarrow> 'a kern_scheme \<Rightarrow> (int \<times> 'a kern_scheme) option" where
  "fork_v0 pol k = do {
     (envid, k) \<leftarrow> u_exofork pol k;
     if envid < 0 then None
     else if envid = 0 then Some (0, k)
     else do {
       k \<leftarrow> fork_v0_pages pol (word_of_int envid) [0..<PGNUM UTOP] k;
       (r, k) \<leftarrow> u_env_set_status pol (word_of_int envid) (status_code ENV_RUNNABLE) k;
       if r < 0 then None else Some (envid, k)
     }
   }"

fun fork_pages :: "policy \<Rightarrow> u32w \<Rightarrow> nat list \<Rightarrow> 'a kern_scheme \<Rightarrow> 'a kern_scheme option" where
  "fork_pages pol envid [] k = Some k"
| "fork_pages pol envid (pnum # pnums) k = do {
     k \<leftarrow> (if pnum = PGNUM UXSTACKTOP - 1 then Some k
           else let pde = uvpd k (pnum div 1024) in
             if pde AND PTE_P = 0 \<or> pde AND PTE_U = 0 then Some k
             else do {
               pte \<leftarrow> uvpt k pnum;
               if pte AND PTE_P = 0 \<or> pte AND PTE_U = 0 then Some k
               else duppage pol envid pnum k
             });
     fork_pages pol envid pnums k
   }"

text \<open>\<open>fork\<close>, in the parent: \<open>c\<close> is \<open>thisenv\<close>; the handler's entry point is \<open>upcall\<close>.\<close>

definition fork :: "policy \<Rightarrow> bool \<Rightarrow> u32w \<Rightarrow> nat \<Rightarrow> 'a kern_scheme \<Rightarrow> (int \<times> 'a kern_scheme) option" where
  "fork pol installed upcall c k = do {
     (_, k) \<leftarrow> set_pgfault_handler pol installed upcall k;
     (envid, k) \<leftarrow> u_exofork pol k;
     if envid < 0 then None
     else if envid = 0 then Some (0, k)
     else do {
       let child = word_of_int envid;
       k \<leftarrow> fork_pages pol child [0..<PGNUM UTOP] k;
       (r, k) \<leftarrow> u_page_alloc pol child (UXSTACKTOP - PGSIZE) (PTE_U OR PTE_P OR PTE_W) k;
       if r < 0 then None
       else do {
         (r, k) \<leftarrow> u_env_set_pgfault_upcall pol child (env_pgfault_upcall (envs k c)) k;
         if r < 0 then None
         else do {
           (r, k) \<leftarrow> u_env_set_status pol child (status_code ENV_RUNNABLE) k;
           if r < 0 then None else Some (envid, k)
         }
       }
     }
   }"

section \<open>Messages\<close>

text \<open>
  \<open>ipc_send\<close> tries until the receiver waits. Between two tries \<open>sys_yield\<close> lets the others run: what they
  do to the state is the parameter \<open>others\<close>; after \<open>n\<close> tries the result is not known.
\<close>

fun ipc_send :: "nat \<Rightarrow> policy \<Rightarrow> ('a kern_scheme \<Rightarrow> 'a kern_scheme) \<Rightarrow> u32w \<Rightarrow> u32w \<Rightarrow> u32w \<Rightarrow> u32w \<Rightarrow> 'a kern_scheme \<Rightarrow> 'a kern_scheme option" where
  "ipc_send 0 pol others to_env v pg perm k = None"
| "ipc_send (Suc n) pol others to_env v pg perm k = do {
     let va = (if pg = 0 then UTOP else pg);
     (r, k) \<leftarrow> u_ipc_try_send pol to_env v va perm k;
     if r = - E_IPC_NOT_RECV then ipc_send n pol others to_env v pg perm (others k)
     else if r < 0 then None else Some k
   }"

text \<open>What \<open>ipc_recv\<close> returns once \<open>sys_ipc_recv\<close> has returned \<open>err\<close>: the value, the sender and the
  permissions.\<close>

definition ipc_recv_result :: "int \<Rightarrow> Env \<Rightarrow> int \<times> u32w \<times> u32w" where
  "ipc_recv_result err thisenv =
     (if err = 0 then (sint (env_ipc_value thisenv), env_ipc_from thisenv, env_ipc_perm thisenv) else (err, 0, 0))"

text \<open>\<open>ipc_find_env\<close>, with the only type there is: the first slot.\<close>

definition ipc_find_env :: "'a kern_scheme \<Rightarrow> u32w" where
  "ipc_find_env k = env_id (envs k 0)"

end
