(* ===== verification/Kern_Spaces.thy ===== *)
theory Kern_Spaces
  imports Kern_Vm
begin

text \<open>
  Two address spaces in one memory: an operation on the one leaves the other alone when their page
  directories and page tables are different frames.
\<close>

section \<open>The frames of the page tables\<close>

definition paging :: "'a mem_scheme \<Rightarrow> nat \<Rightarrow> nat set" where
  "paging m d = insert d {t. \<exists>i<955. table m d i = Some t}"

definition separate :: "'a mem_scheme \<Rightarrow> nat \<Rightarrow> nat \<Rightarrow> bool" where
  "separate m d e \<longleftrightarrow> paging m d \<inter> paging m e = {}"

lemma separate_sym: "separate m d e \<longleftrightarrow> separate m e d"
  by (auto simp: separate_def)

lemma paging_used: "space_ok m d \<Longrightarrow> paging m d \<inter> set (free_pages m) = {}"
  using space_okD(3,5) by (fastforce simp: paging_def)

lemma table_paging: "va < UTOP \<Longrightarrow> table m d (PDX va) = Some t \<Longrightarrow> t \<in> paging m d"
  using user_dir by (fastforce simp: paging_def user_page PDX_nat)

lemma same_frames:
  assumes "\<And>f. f \<in> paging m e \<Longrightarrow> frames m' f = frames m f"
  shows "i < 955 \<Longrightarrow> table m' e i = table m e i" "v < UPAGENUM \<Longrightarrow> entry m' e v = entry m e v"
    "v < UPAGENUM \<Longrightarrow> mapped m' e v = mapped m e v" "paging m' e = paging m e" "map_count m' e p = map_count m e p"
proof -
  have e: "frames m' e = frames m e" using assms by (simp add: paging_def)
  show tab: "table m' e i = table m e i" for i by (simp add: table_def e)
  show ent: "entry m' e v = entry m e v" if "v < UPAGENUM" for v
  proof (cases "table m e (v div 1024)")
    case (Some t)
    then have "t \<in> paging m e" using user_dir [OF that] by (auto simp: paging_def)
    then show ?thesis using assms Some by (simp add: entry_def tab)
  qed (simp add: entry_def tab)
  show map: "mapped m' e v = mapped m e v" if "v < UPAGENUM" for v using ent [OF that] by (simp add: mapped_def)
  show "paging m' e = paging m e" by (simp add: paging_def tab)
  show "map_count m' e p = map_count m e p" by (simp add: map_count_def map cong: conj_cong)
qed

section \<open>What an insertion writes\<close>

lemma remove_frames:
  assumes "space_ok m d" and "va < UTOP" and "page_remove d va m = Some m'"
  shows "f \<notin> paging m d \<Longrightarrow> frames m' f = frames m f" "table m' d = table m d" "frames m' d = frames m d"
proof -
  have "(\<forall>f. f \<notin> paging m d \<longrightarrow> frames m' f = frames m f) \<and> table m' d = table m d \<and> frames m' d = frames m d"
  proof (cases "mapped m d (PGNUM va)")
    case None
    then show ?thesis using page_remove_absent [OF assms(1,2) None] assms(3) by simp
  next
    case (Some p)
    then obtain t where t: "table m d (PDX va) = Some t" by (auto simp: mapped_def entry_pte split: if_splits option.splits)
    obtain m2 where m2: "page_remove d va m = Some m2" "unmapped m d va t p m2"
      using page_remove_mapped [OF assms(1,2) Some t] .
    have "m2 = m'" using m2(1) assms(3) by simp
    moreover have "t \<noteq> d" using space_okD(5) [OF assms(1) _ t] user_dir assms(2) by (auto simp: user_page PDX_nat)
    ultimately show ?thesis using m2(2) table_paging [OF assms(2) t] unmapped_space(3) [OF assms(1,2) Some t m2(2)]
      by (auto simp: unmapped_def)
  qed
  then show "f \<notin> paging m d \<Longrightarrow> frames m' f = frames m f" "table m' d = table m d" "frames m' d = frames m d" by auto
qed

lemma insert_frames:
  assumes sp: "space_ok m d" and va: "va < UTOP" and pp: "mappable m d pp" and ins: "page_insert d pp va perm m = Some (0, m')"
  shows "f \<notin> paging m d \<Longrightarrow> f \<notin> set (free_pages m) \<Longrightarrow> frames m' f = frames m f"
    "\<And>i. i \<noteq> PDX va \<Longrightarrow> table m' d i = table m d i"
    "table m' d (PDX va) = (case table m d (PDX va) of None \<Rightarrow> Some (hd (free_pages m)) | Some t \<Rightarrow> Some t)"
    "table m d (PDX va) = None \<Longrightarrow> free_pages m \<noteq> []" "table m d (PDX va) = Some t \<Longrightarrow> frames m' d = frames m d"
proof -
  have step: "(\<forall>f. f \<notin> paging n d \<longrightarrow> frames n' f = frames n f) \<and> table n' d = table n d \<and> frames n' d = frames n d"
    if n: "space_ok n d" "mappable n d pp" "table n d (PDX va) = Some t"
      and r: "page_remove d va (n\<lparr>pp_ref := (pp_ref n)(pp := pp_ref n pp + 1)\<rparr>) = Some n2"
      and n': "n' = set_word n2 t (PTX va) w" for n n2 n' :: "'a mem_scheme" and t w
  proof -
    let ?c = "n\<lparr>pp_ref := (pp_ref n)(pp := pp_ref n pp + 1)\<rparr>"
    have c: "paging ?c d = paging n d" by (simp add: paging_def)
    note f = remove_frames [OF counted_space(1) [OF n(1,2)] va r]
    have t: "t \<in> paging n d" "t \<noteq> d" using table_paging [OF va n(3)] space_okD(5) [OF n(1) _ n(3)] va user_dir
      by (auto simp: user_page PDX_nat)
    have "table n' d = table n2 d" using n' t(2) by (simp add: table_def set_word_def fun_eq_iff)
    then show ?thesis using f t n' c by (auto simp: set_word_def)
  qed
  have all: "(\<forall>f. f \<notin> paging m d \<longrightarrow> f \<notin> set (free_pages m) \<longrightarrow> frames m' f = frames m f)
    \<and> (\<forall>i. table m' d i = (if i = PDX va \<and> table m d i = None then Some (hd (free_pages m)) else table m d i))
    \<and> (table m d (PDX va) = None \<longrightarrow> free_pages m \<noteq> []) \<and> (table m d (PDX va) \<noteq> None \<longrightarrow> frames m' d = frames m d)"
  proof (cases "table m d (PDX va)")
    case (Some t)
    then obtain n2 where "page_remove d va (m\<lparr>pp_ref := (pp_ref m)(pp := pp_ref m pp + 1)\<rparr>) = Some n2"
      "m' = set_word n2 t (PTX va) (page2pa pp OR perm OR PTE_P)"
      using ins walk_found [OF sp va Some] by (auto simp: page_insert_def bind_eq_Some_conv)
    from step [OF sp pp Some this] Some show ?thesis by auto
  next
    case None
    show ?thesis
    proof (cases "free_pages m")
      case Nil
      then show ?thesis using ins walk_no_memory [OF sp None] by (simp add: page_insert_def E_NO_MEM_def)
    next
      case (Cons t ts)
      let ?n = "table_step m d va t"
      note w = walk_creates [OF sp va None Cons]
      have t: "table ?n d (PDX va) = Some t" using w(4) by simp
      obtain n2 where r: "page_remove d va (?n\<lparr>pp_ref := (pp_ref ?n)(pp := pp_ref ?n pp + 1)\<rparr>) = Some n2"
        "m' = set_word n2 t (PTX va) (page2pa pp OR perm OR PTE_P)"
        using ins w(1) by (auto simp: page_insert_def bind_eq_Some_conv)
      note s = step [OF w(2) mappable_table_step [OF sp va None Cons pp] t r]
      have n: "frames ?n f = frames m f" if "f \<noteq> d" "f \<noteq> t" for f
        using that by (simp add: table_step_def alloc_step_def set_word_def Let_def)
      have "frames m' f = frames m f" if "f \<notin> paging m d" "f \<notin> set (free_pages m)" for f
      proof -
        have "f \<notin> paging ?n d" using that Cons by (auto simp: paging_def w(4) split: if_splits)
        then show ?thesis using s n that Cons by (auto simp: paging_def)
      qed
      then show ?thesis using s None Cons by (auto simp: w(4))
    qed
  qed
  then show "f \<notin> paging m d \<Longrightarrow> f \<notin> set (free_pages m) \<Longrightarrow> frames m' f = frames m f"
    "\<And>i. i \<noteq> PDX va \<Longrightarrow> table m' d i = table m d i"
    "table m' d (PDX va) = (case table m d (PDX va) of None \<Rightarrow> Some (hd (free_pages m)) | Some t \<Rightarrow> Some t)"
    "table m d (PDX va) = None \<Longrightarrow> free_pages m \<noteq> []" "table m d (PDX va) = Some t \<Longrightarrow> frames m' d = frames m d"
    by (auto split: option.split)
qed

text \<open>No page is freed when the page that was mapped is none or the same one.\<close>

lemma insert_free:
  assumes sp: "space_ok m d" and va: "va < UTOP" and pp: "mappable m d pp" and ins: "page_insert d pp va perm m = Some (0, m')"
    and keep: "mapped m d (PGNUM va) = None \<or> mapped m d (PGNUM va) = Some pp"
  shows "free_pages m' = (if table m d (PDX va) = None then tl (free_pages m) else free_pages m)"
proof -
  have step: "free_pages n2 = free_pages n"
    if n: "space_ok n d" "mappable n d pp" "table n d (PDX va) = Some t"
      "mapped n d (PGNUM va) = None \<or> mapped n d (PGNUM va) = Some pp"
      and r: "page_remove d va (n\<lparr>pp_ref := (pp_ref n)(pp := pp_ref n pp + 1)\<rparr>) = Some n2" for n n2 :: "'a mem_scheme" and t
  proof -
    let ?c = "n\<lparr>pp_ref := (pp_ref n)(pp := pp_ref n pp + 1)\<rparr>"
    note c = counted_space(1) [OF n(1,2)]
    show ?thesis
    proof (cases "mapped n d (PGNUM va)")
      case None
      then show ?thesis using page_remove_absent [OF c va] r by simp
    next
      case (Some q)
      then have q: "q = pp" using n(4) by simp
      have "mapped ?c d (PGNUM va) = Some pp" "table ?c d (PDX va) = Some t" using Some q n(3) by simp_all
      from page_remove_mapped [OF c va this] obtain n3 where n3: "page_remove d va ?c = Some n3" "unmapped ?c d va t pp n3" .
      have "pp_ref n pp \<noteq> 0" using mapped_ref(1) [OF n(1)] Some q va by (simp add: user_page)
      then show ?thesis using n3 r by (auto simp: unmapped_def)
    qed
  qed
  show ?thesis
  proof (cases "table m d (PDX va)")
    case (Some t)
    then obtain n2 where "page_remove d va (m\<lparr>pp_ref := (pp_ref m)(pp := pp_ref m pp + 1)\<rparr>) = Some n2"
      "m' = set_word n2 t (PTX va) (page2pa pp OR perm OR PTE_P)"
      using ins walk_found [OF sp va Some] by (auto simp: page_insert_def bind_eq_Some_conv)
    then show ?thesis using step [OF sp pp Some keep] Some by (simp add: set_word_def)
  next
    case None
    obtain t ts where fl: "free_pages m = t # ts" using insert_frames(4) [OF sp va pp ins None] by (cases "free_pages m") auto
    let ?n = "table_step m d va t"
    note w = walk_creates [OF sp va None fl]
    obtain n2 where r: "page_remove d va (?n\<lparr>pp_ref := (pp_ref ?n)(pp := pp_ref ?n pp + 1)\<rparr>) = Some n2"
      "m' = set_word n2 t (PTX va) (page2pa pp OR perm OR PTE_P)"
      using ins w(1) by (auto simp: page_insert_def bind_eq_Some_conv)
    have "entry m d (PGNUM va) = 0" by (simp add: entry_pte None)
    then have "mapped ?n d (PGNUM va) = None" using w(3) va by (simp add: user_page mapped_def)
    then have "free_pages n2 = free_pages ?n"
      using step [OF w(2) mappable_table_step [OF sp va None fl pp] _ _ r(1)] w(4) by simp
    then show ?thesis using r(2) None fl w(6) by (simp add: set_word_def)
  qed
qed

section \<open>The other space\<close>

text \<open>Inserting in the space \<open>d\<close>, where nothing or the same page was mapped, seen from the space \<open>e\<close>.\<close>

lemma insert_other:
  assumes sp: "space_ok m d" and se: "space_ok m e" and sep: "separate m d e" and va: "va < UTOP"
    and pp: "mappable m d pp" and ins: "page_insert d pp va perm m = Some (0, m')" and i: "inserted m d pp va perm m'"
    and keep: "mapped m d (PGNUM va) = None \<or> mapped m d (PGNUM va) = Some pp"
  shows "space_ok m' e" "separate m' d e" "\<And>v. v < UPAGENUM \<Longrightarrow> entry m' e v = entry m e v"
    "\<And>i. i < 955 \<Longrightarrow> table m' e i = table m e i" "set (free_pages m') \<subseteq> set (free_pages m)"
    "\<And>p. pp_ref m p \<noteq> 0 \<Longrightarrow> pp_ref m' p = (if p = pp \<and> mapped m d (PGNUM va) = None then pp_ref m p + 1 else pp_ref m p)"
proof -
  have same: "frames m' f = frames m f" if "f \<in> paging m e" for f
    using insert_frames(1) [OF sp va pp ins] that sep paging_used [OF se] by (auto simp: separate_def)
  note s = same_frames [where e = e and m = m and m' = m', OF same]
  show ent: "entry m' e v = entry m e v" if "v < UPAGENUM" for v using s(2) that by blast
  show tab: "table m' e i = table m e i" if "i < 955" for i using s(1) that by blast
  show fr: "set (free_pages m') \<subseteq> set (free_pages m)" using i keep by (auto simp: inserted_def)
  have zero: "p \<notin> set (free_pages m)" if "pp_ref m p \<noteq> 0" for p
    using that space_okD(1) [OF sp] by (auto simp: alloc_ok_def)
  show ref: "pp_ref m' p = (if p = pp \<and> mapped m d (PGNUM va) = None then pp_ref m p + 1 else pp_ref m p)"
    if "pp_ref m p \<noteq> 0" for p
    using i keep zero [OF that] unfolding inserted_def by (cases "p = pp") auto
  have inc: "unat (pp_ref m pp + 1) = unat (pp_ref m pp) + 1" using pp unat_plus_1 by (simp add: mappable_def)
  have nz: "unat (pp_ref m p) \<le> unat (pp_ref m' p) \<and> pp_ref m' p \<noteq> 0" if "pp_ref m p \<noteq> 0" for p
    using ref [OF that] inc that by (auto simp: unat_eq_0 [symmetric] simp del: unat_eq_0)
  have sub: "paging m' d \<subseteq> paging m d \<union> set (free_pages m)"
  proof -
    have "x \<in> paging m d \<union> set (free_pages m)" if i: "i < 955" "table m' d i = Some x" for i x
    proof (cases "table m d i")
      case (Some y)
      then have "table m' d i = Some y" using insert_frames(2,3) [OF sp va pp ins] by (cases "i = PDX va") auto
      then show ?thesis using i Some by (auto simp: paging_def)
    next
      case None
      then have "i = PDX va" using insert_frames(2) [OF sp va pp ins, of i] i by auto
      then show ?thesis using insert_frames(3,4) [OF sp va pp ins] i None by auto
    qed
    then show ?thesis by (auto simp: paging_def)
  qed
  then show "separate m' d e" using sep s(4) paging_used [OF se] by (auto simp: separate_def)
  have al: "alloc_ok m'" "npages m' = npages m" using i space_okD(1) by (auto simp: inserted_def)
  have cnt: "map_count m' e p \<le> unat (pp_ref m' p)" for p
  proof (cases "pp_ref m p = 0")
    case True
    then have "map_count m e p = 0" using se by (simp add: space_ok_def) (metis le_zero_eq unat_0)
    then show ?thesis by (simp add: s(5))
  next
    case False
    then show ?thesis using nz [OF False] se s(5) by (metis order_trans space_ok_def)
  qed
  note old = space_okD [OF se]
  have "t < npages m' \<and> t \<noteq> e \<and> t \<notin> set (free_pages m') \<and> pp_ref m' t \<noteq> 0" if "i < 955" "table m' e i = Some t" for i t
    using old(5) [OF that(1)] that fr nz by (auto simp: tab al)
  moreover have "p < npages m' \<and> p \<noteq> e \<and> p \<notin> set (free_pages m') \<and> (\<forall>i<955. table m' e i \<noteq> Some p)"
    if "v < UPAGENUM" "mapped m' e v = Some p" for v p
    using old(6) [OF that(1)] that fr s(3) by (auto simp: tab al)
  moreover have "tables_inj m' e" using se by (simp add: space_ok_def tables_inj_def tab)
  moreover have "e \<notin> set (free_pages m')" using old(3) fr by blast
  ultimately show "space_ok m' e" using al cnt old(2) unfolding space_ok_def by simp
qed

text \<open>An insertion that finds room, seen from both spaces.\<close>

lemma insert_both:
  assumes sp: "space_ok m d" and se: "space_ok m e" and sep: "separate m d e" and va: "va < UTOP"
    and pp: "mappable m d pp" and perm: "perm_bits perm" and room: "table m d (PDX va) \<noteq> None \<or> free_pages m \<noteq> []"
    and keep: "mapped m d (PGNUM va) = None \<or> mapped m d (PGNUM va) = Some pp"
  obtains m' where "page_insert d pp va perm m = Some (0, m')" "space_ok m' d" "space_ok m' e" "separate m' d e"
    "\<And>v. v < UPAGENUM \<Longrightarrow> entry m' d v = (if v = PGNUM va then page2pa pp OR perm OR PTE_P else entry m d v)"
    "\<And>v. v < UPAGENUM \<Longrightarrow> entry m' e v = entry m e v" "frames m' e = frames m e"
    "table m d (PDX va) \<noteq> None \<Longrightarrow> frames m' d = frames m d"
    "\<And>i. i < 955 \<Longrightarrow> table m' d i = (if i = PDX va \<and> table m d i = None then Some (hd (free_pages m)) else table m d i)"
    "free_pages m' = (if table m d (PDX va) = None then tl (free_pages m) else free_pages m)"
    "\<And>p. pp_ref m p \<noteq> 0 \<Longrightarrow> pp_ref m' p = (if p = pp \<and> mapped m d (PGNUM va) = None then pp_ref m p + 1 else pp_ref m p)"
proof -
  obtain m' where m': "page_insert d pp va perm m = Some (0, m')" "inserted m d pp va perm m'"
    using page_insert_user [OF sp va pp perm] room by (auto split: if_splits)
  note f = insert_frames [OF sp va pp m'(1)] and o = insert_other [OF sp se sep va pp m' keep]
  have e: "e \<in> paging m e" by (simp add: paging_def)
  then have fe: "frames m' e = frames m e"
    using f(1) sep paging_used [OF se] by (auto simp: separate_def)
  show thesis
  proof (rule that [OF m'(1) _ o(1,2) _ o(3) fe])
    show "space_ok m' d" "\<And>v. v < UPAGENUM \<Longrightarrow> entry m' d v = (if v = PGNUM va then page2pa pp OR perm OR PTE_P else entry m d v)"
      using m'(2) by (simp_all add: inserted_def)
    show "table m' d i = (if i = PDX va \<and> table m d i = None then Some (hd (free_pages m)) else table m d i)" for i
      using f(2,3) by (cases "i = PDX va") (auto split: option.split)
  qed (use f(5) insert_free [OF sp va pp m'(1) keep] o(6) in auto)
qed

section \<open>Taking a page\<close>

lemma alloc_space:
  assumes sp: "space_ok m d" and fl: "free_pages m = p # ps"
  shows "space_ok (alloc_step m p z) d" "i < 955 \<Longrightarrow> table (alloc_step m p z) d i = table m d i"
    "v < UPAGENUM \<Longrightarrow> mapped (alloc_step m p z) d v = mapped m d v" "free_pages (alloc_step m p z) = ps"
    "mappable (alloc_step m p z) d p"
proof -
  let ?m = "alloc_step m p z"
  have al: "alloc_ok m" using space_okD(1) [OF sp] .
  have p: "p < npages m" "pp_ref m p = 0" "p \<notin> set ps" using al fl by (auto simp: alloc_ok_def)
  note a = page_alloc_Cons(2,3) [OF al fl, of z]
  have same: "frames ?m f = frames m f" if "f \<in> paging m d" for f
    using that paging_used [OF sp] fl by (auto simp: alloc_step_def)
  note s = same_frames [where e = d and m = m and m' = ?m, OF same]
  show tab: "table ?m d i = table m d i" if "i < 955" for i using s(1) that by blast
  show map: "mapped ?m d v = mapped m d v" if "v < UPAGENUM" for v using s(3) that by blast
  show f: "free_pages ?m = ps" using a by simp
  have ref: "pp_ref ?m = pp_ref m" "npages ?m = npages m" by (simp_all add: alloc_step_def)
  have cnt: "map_count ?m d q = map_count m d q" for q using s(5) by blast
  note old = space_okD [OF sp]
  have ntab: "table m d i \<noteq> Some p" if "i < 955" for i using old(5) [OF that] fl by fastforce
  show "mappable ?m d p" using p old(3) fl f ntab by (auto simp: mappable_def ref tab)
  have "t < npages ?m \<and> t \<noteq> d \<and> t \<notin> set (free_pages ?m) \<and> pp_ref ?m t \<noteq> 0" if "i < 955" "table ?m d i = Some t" for i t
    using old(5) [OF that(1)] that fl f by (simp add: tab ref)
  moreover have "q < npages ?m \<and> q \<noteq> d \<and> q \<notin> set (free_pages ?m) \<and> (\<forall>i<955. table ?m d i \<noteq> Some q)"
    if "v < UPAGENUM" "mapped ?m d v = Some q" for v q
    using old(6) [OF that(1)] that fl f by (simp add: map tab ref)
  moreover have "tables_inj ?m d" using sp by (simp add: space_ok_def tables_inj_def tab)
  moreover have "d \<notin> set (free_pages ?m)" using old(3) fl f by simp
  ultimately show "space_ok ?m d" using a(1) sp old(2) unfolding space_ok_def by (simp add: cnt ref)
qed

end
