(* ===== verification/Syscall_Props.thy ===== *)
theory Syscall_Props
  imports Env_Props Fork Kern_Spaces
begin

text \<open>
  What the system calls promise: sharing pages between address spaces, allocating them, messages,
  priorities, and what a program may print.
\<close>

section \<open>Helpers\<close>

text \<open>A bit of the permissions alone.\<close>

lemma and_PTE_W: "w AND PTE_W = 0 \<longleftrightarrow> \<not> bit w 1"
  using and_exp_eq_0_iff_not_bit [of w 1] by (simp add: PTE_W_def)

lemma wants_more: "(perm AND PTE_W) AND NOT (PTE_W AND w) \<noteq> 0 \<longleftrightarrow> perm AND PTE_W \<noteq> 0 \<and> w AND PTE_W = 0"
proof -
  have "(perm AND PTE_W) AND NOT (PTE_W AND w) = (perm AND NOT w) AND PTE_W"
    by (rule bit_eqI) (auto simp: bit_simps)
  then show ?thesis by (auto simp: and_PTE_W bit_simps)
qed

lemma user_perm_W: "(PTE_P OR PTE_U OR perm) AND PTE_W = perm AND PTE_W"
  by (rule bit_eqI) (auto simp: bit_simps PTE_P_def PTE_U_def PTE_W_def)

lemma good_va: "\<not> bad_va va \<Longrightarrow> va < UTOP"
  by (simp add: bad_va_def not_le)

text \<open>How \<open>envid2env\<close> answers, and the calls that use it on the current environment.\<close>

lemma envid2env_cases:
  assumes "envid2env envid perm k = Some (r, e)"
  shows "r = 0 \<and> (envid = 0 \<and> e = curenv k
      \<or> envid \<noteq> 0 \<and> e = Some (ENVX envid) \<and> env_id (envs k (ENVX envid)) = envid \<and> env_status (envs k (ENVX envid)) \<noteq> ENV_FREE)
    \<or> r = - E_BAD_ENV \<and> e = None"
  using assms by (auto simp: envid2env_def Let_def split: if_splits option.splits)

text \<open>A lookup in a space that maps the page.\<close>

lemma page_map_unfold:
  assumes "envid2env sid True k = Some (0, Some e1)" and "envid2env did True k = Some (0, Some e2)"
    and "env_pgdir (envs k e1) = Some d1" and "env_pgdir (envs k e2) = Some d2" and "space_ok k d1"
    and "\<not> bad_va sva" and "\<not> bad_va dva"
  shows "sys_page_map sid sva did dva perm k = (case mapped k d1 (PGNUM sva) of
      None \<Rightarrow> ret (- E_INVAL) k
    | Some p \<Rightarrow> if perm AND PTE_W \<noteq> 0 \<and> entry k d1 (PGNUM sva) AND PTE_W = 0 then ret (- E_INVAL) k
        else do {
          (r, k') \<leftarrow> page_insert d2 p dva (PTE_P OR PTE_U OR perm) k;
          ret r k'
        })"
proof (cases "mapped k d1 (PGNUM sva)")
  case None
  then show ?thesis using assms page_lookup_user [OF assms(5) good_va [OF assms(6)]]
    by (simp add: sys_page_map_def env_page_map_def)
next
  case (Some p)
  then obtain t where t: "table k d1 (PDX sva) = Some t"
    by (auto simp: mapped_def entry_pte split: if_splits option.splits)
  have e: "pte_at k (t, PTX sva) = entry k d1 (PGNUM sva)" using t by (simp add: entry_pte)
  show ?thesis using assms Some t page_lookup_user [OF assms(5) good_va [OF assms(6)]] wants_more [of "PTE_P OR PTE_U OR perm"]
    by (auto simp: sys_page_map_def env_page_map_def user_perm_W e)
qed

section \<open>An example state\<close>

text \<open>
  Environment 0x1002 runs in slot 2 with the directory in frame 2, whose first table is frame 7; it maps page
  4 to frame 8 read-only and page 5 to frame 9. Its child 0x1003 in slot 3 has an empty directory in frame
  6. Frames 3 and 4 are free.
\<close>

definition share_kern :: kern where
  "share_kern = set_env 2 (zero_env\<lparr>env_id := 0x1002, env_status := ENV_RUNNING, env_pgdir := Some 2\<rparr>)
     (set_env 3 (zero_env\<lparr>env_id := 0x1003, env_parent_id := 0x1002, env_status := ENV_NOT_RUNNABLE, env_pgdir := Some 6\<rparr>)
       ((zero_kern 16)\<lparr>pp_link := (\<lambda>_. None)(3 := Some 4), page_free_list := Some 3, kern_pgdir := 1, curenv := Some 2,
          curenv_pgdir := Some 2, cr3 := 2, lock_holder := Some 0,
          pp_ref := (\<lambda>_. 0)(2 := 1, 6 := 1, 7 := 1, 8 := 1, 9 := 1),
          frames := (\<lambda>f. if f = 2 then (\<lambda>_. 0)(0 := 0x7007) else if f = 7 then (\<lambda>_. 0)(4 := 0x8005, 5 := 0x9007) else (\<lambda>_. 0))\<rparr>))"

lemma share_simps [simp]:
  "curenv share_kern = Some 2" "npages share_kern = 16" "env_pgdir (envs share_kern 2) = Some 2"
  "env_pgdir (envs share_kern 3) = Some 6" "pp_ref share_kern = (\<lambda>_. 0)(2 := 1, 6 := 1, 7 := 1, 8 := 1, 9 := 1)"
  "env_id (envs share_kern 2) = 0x1002" "env_id (envs share_kern 3) = 0x1003"
  "env_status (envs share_kern 2) = ENV_RUNNING" "env_parent_id (envs share_kern 3) = 0x1002"
  "env_status (envs share_kern 3) = ENV_NOT_RUNNABLE"
  by (simp_all add: share_kern_def zero_kern_def zero_env_def)

lemma share_alloc: "alloc_ok share_kern" "free_pages share_kern = [3, 4]"
proof -
  have "chain (pp_link share_kern) (page_free_list share_kern) [3, 4]" by (simp add: share_kern_def zero_kern_def)
  then show "alloc_ok share_kern" "free_pages share_kern = [3, 4]"
    by (rule alloc_okI [rotated]; auto simp: share_kern_def zero_kern_def)+
qed

lemma share_table: "table share_kern 2 d = (if d = 0 then Some 7 else None)" "table share_kern 6 d = None"
  by (simp_all add: table_def share_kern_def zero_kern_def PGNUM_nat)

lemma share_entry: "v < UPAGENUM \<Longrightarrow> entry share_kern 2 v = (if v = 4 then 0x8005 else if v = 5 then 0x9007 else 0)"
  "entry share_kern 6 v = 0"
proof -
  have "v div 1024 = 0 \<and> v mod 1024 = i \<longleftrightarrow> v = i" if "i < 1024" for i :: nat
    using that by (metis div_less mod_less mod_mult_div_eq mult_zero_right add.right_neutral)
  from this [of 4] this [of 5] show "v < UPAGENUM \<Longrightarrow> entry share_kern 2 v = (if v = 4 then 0x8005 else if v = 5 then 0x9007 else 0)"
    unfolding entry_def share_table by (auto simp: share_kern_def zero_kern_def)
qed (simp add: entry_def share_table)

lemma share_mapped: "v < UPAGENUM \<Longrightarrow> mapped share_kern 2 v = (if v = 4 then Some 8 else if v = 5 then Some 9 else None)"
  "mapped share_kern 6 v = None"
  by (simp_all add: mapped_entry share_entry PGNUM_nat)

lemma share_spaces: "space_ok share_kern 2" "space_ok share_kern 6"
proof -
  have sub: "{v. v < UPAGENUM \<and> mapped share_kern 2 v = Some p} \<subseteq> (if p = 8 then {4} else if p = 9 then {5} else {})" for p
    by (auto simp: share_mapped split: if_splits)
  have "map_count share_kern 2 p \<le> card (if p = 8 then {4} else if p = 9 then {5::nat} else {})" for p
    unfolding map_count_def by (rule card_mono [OF _ sub]) simp
  then have cnt: "map_count share_kern 2 p \<le> unat (pp_ref share_kern p)" for p
    by (rule order_trans) simp
  have "\<forall>v<UPAGENUM. \<forall>p. mapped share_kern 2 v = Some p \<longrightarrow> p < npages share_kern \<and> p \<noteq> 2
      \<and> p \<notin> set (free_pages share_kern) \<and> (\<forall>d<955. table share_kern 2 d \<noteq> Some p)"
    by (simp add: share_mapped share_alloc share_table)
  moreover have "\<forall>d<955. \<forall>t. table share_kern 2 d = Some t \<longrightarrow>
      t < npages share_kern \<and> t \<noteq> 2 \<and> t \<notin> set (free_pages share_kern) \<and> pp_ref share_kern t \<noteq> 0"
    by (simp add: share_alloc share_table)
  moreover have "tables_inj share_kern 2" by (simp add: tables_inj_def share_table)
  ultimately show "space_ok share_kern 2"
    unfolding space_ok_def using share_alloc cnt by simp
  show "space_ok share_kern 6"
    by (simp add: space_ok_def tables_inj_def share_alloc share_table share_mapped map_count_def)
qed

lemma share_envs: "envid2env 0 perm share_kern = Some (0, Some 2)" "envid2env 0x1003 perm share_kern = Some (0, Some 3)"
  by (simp_all add: envid2env_def ENVX_def Let_def)

lemma share_mappable: "mappable share_kern 6 9" "mappable share_kern 6 8"
  by (simp_all add: mappable_def share_alloc share_table)

section \<open>Sharing pages\<close>



text \<open>\<open>sys_page_map\<close> does not look at the other bits of the permissions it is given: where nothing is mapped and
  the page table is there, it stores them all in the entry, the bits of the address included. A program that
  maps a page it may read can so reach any frame whose number has all the bits of that page's number.\<close>

theorem page_map_forges:
  assumes "envid2env sid True k = Some (0, Some e1)" and "envid2env did True k = Some (0, Some e2)"
    and "env_pgdir (envs k e1) = Some d1" and "env_pgdir (envs k e2) = Some d2" and "space_ok k d1" and "space_ok k d2"
    and "\<not> bad_va sva" and "\<not> bad_va dva" and "mapped k d1 (PGNUM sva) = Some p" and "mappable k d2 p"
    and "mapped k d2 (PGNUM dva) = None" and "table k d2 (PDX dva) = Some t"
    and "perm AND PTE_W = 0" and "f < 0x100000" and "p OR f = f" and "perm = page2pa f OR low" and "perm_bits low"
  shows "\<exists>k'. sys_page_map sid sva did dva perm k = ret 0 k' \<and> mapped k' d2 (PGNUM dva) = Some f
    \<and> pp_ref k' = (pp_ref k)(p := pp_ref k p + 1)"
proof -
  let ?c = "k\<lparr>pp_ref := (pp_ref k)(p := pp_ref k p + 1)\<rparr>" and ?w = "page2pa p OR (PTE_P OR PTE_U OR perm) OR PTE_P"
  have u: "sys_page_map sid sva did dva perm k = ret 0 (set_word ?c t (PTX dva) ?w)"
    using page_map_unfold [OF assms(1-5,7,8), of perm] assms(9,13)
      page_insert_unmapped [OF assms(6) good_va [OF assms(8)] assms(12,10,11)] by simp
  have ds: "space_ok ?c d2" "table ?c d2 (PDX dva) = Some t" using counted_space(1) [OF assms(6,10)] assms(12) by auto
  have v: "PGNUM dva < UPAGENUM" using good_va [OF assms(8)] by (simp add: user_page)
  have e: "entry (set_word ?c t (PTX dva) ?w) d2 (PGNUM dva) = ?w"
    using entry_set_word(1) [OF ds(1) good_va [OF assms(8)] ds(2) v, of "set_word ?c t (PTX dva) ?w" ?w]
    by (simp add: set_word_def)
  have "page2pa p OR page2pa f = page2pa f"
  proof -
    have "page2pa p OR page2pa f = push_bit 12 (word_of_nat (p OR f) :: u32w)"
      by (simp add: page2pa_def push_bit_or of_nat_or_eq)
    then show ?thesis using assms(15) by (simp add: page2pa_def)
  qed
  then have "?w = page2pa f OR (PTE_P OR PTE_U OR low)" by (simp add: assms(16) ac_simps)
  moreover have "perm_bits (PTE_P OR PTE_U OR low)" using assms(17) by (simp add: perm_bits_or)
  ultimately have "PGNUM ?w = f" using PGNUM_entry assms(14) by metis
  moreover have "?w \<noteq> 0" by (rule bit0_flag)
  ultimately show ?thesis using u e by (simp add: mapped_def set_word_def)
qed

lemma share_self: "mappable share_kern 2 8" "table share_kern 2 (PDX 0x6000) = Some 7" "mapped share_kern 2 (PGNUM 0x6000) = None"
  by (simp_all add: mappable_def share_alloc share_table share_mapped PDX_nat PGNUM_nat UPAGENUM_def)

theorem page_map_forges_witness:
  "\<exists>k'. sys_page_map 0 0x4000 0 0x6000 (page2pa 9 OR PTE_U) share_kern = ret 0 k' \<and> mapped k' 2 (PGNUM 0x6000) = Some 9"
proof -
  have v: "\<not> bad_va 0x4000" "\<not> bad_va 0x6000" "mapped share_kern 2 (PGNUM 0x4000) = Some 8"
    by (simp_all add: bad_va_def UTOP_value PGSIZE_def share_mapped PGNUM_nat UPAGENUM_def)
  have "(page2pa 9 OR PTE_U) AND PTE_W = 0" by (simp add: page2pa_def PTE_U_def PTE_W_def)
  from page_map_forges [OF share_envs(1,1) share_simps(3,3) share_spaces(1,1) v share_self(1,3,2) this, of 9 PTE_U] show ?thesis
    by auto
qed

section \<open>Allocating pages\<close>

lemma inserted_mapped:
  "inserted m d pp va perm m' \<Longrightarrow> v < UPAGENUM \<Longrightarrow> v \<noteq> PGNUM va \<Longrightarrow> mapped m' d v = mapped m d v"
  by (simp add: inserted_def mapped_def)

lemma syscall_perm:
  "check_perm (perm OR PTE_U OR PTE_P) None = (if perm AND NOT PTE_SYSCALL = 0 then 0 else - E_INVAL)"
  "perm AND NOT PTE_SYSCALL = 0 \<Longrightarrow> perm_bits (perm OR PTE_U OR PTE_P)"
proof -
  have m: "(perm OR PTE_U OR PTE_P) AND NOT PTE_SYSCALL = perm AND NOT PTE_SYSCALL"
  proof -
    have "PTE_U AND NOT PTE_SYSCALL = 0" "PTE_P AND NOT PTE_SYSCALL = 0" by (simp_all add: pte_bits)
    then show ?thesis by (simp only: bit.conj_disj_distrib2 or.right_neutral)
  qed
  have "(perm OR PTE_U OR PTE_P) AND PTE_P \<noteq> 0" "(perm OR PTE_U OR PTE_P) AND PTE_U \<noteq> 0"
    by (simp_all add: bit.conj_disj_distrib2 or_eq_0_iff pte_bits)
  with m show "check_perm (perm OR PTE_U OR PTE_P) None = (if perm AND NOT PTE_SYSCALL = 0 then 0 else - E_INVAL)"
    by (simp add: check_perm_def)
  assume "perm AND NOT PTE_SYSCALL = 0"
  then have "perm = perm AND PTE_SYSCALL" using split_mask [of perm PTE_SYSCALL] by simp
  then have "drop_bit 12 perm = drop_bit 12 perm AND drop_bit 12 PTE_SYSCALL" by (metis drop_bit_and)
  moreover have "drop_bit 12 PTE_SYSCALL = 0" by (simp add: pte_bits)
  ultimately have "perm_bits perm" by (simp add: perm_bits_def)
  then show "perm_bits (perm OR PTE_U OR PTE_P)" by (simp add: perm_bits_or)
qed



section \<open>Messages\<close>


text \<open>The child of the example waits for a message.\<close>

definition recv_kern :: kern where
  "recv_kern = set_env 3 ((envs share_kern 3)\<lparr>env_ipc_recving := True\<rparr>) share_kern"

lemma recv_simps: "envid2env 0x1003 perm recv_kern = Some (0, Some 3)" "curenv recv_kern = Some 2"
  "env_ipc_recving (envs recv_kern 3)" "env_id (envs recv_kern 2) = 0x1002"
  by (simp_all add: recv_kern_def envid2env_def ENVX_def Let_def)


text \<open>A \<open>sys_ipc_recv\<close> that is refused because of its address leaves the caller marked as receiving although it
  goes on running: the next message is accepted, and sets the result register and the state of an environment
  that never waited.\<close>

theorem refused_recv_stays_open:
  assumes "curenv k = Some c" and "bad_va dstva" and "env_id (envs k c) = eid" and "eid \<noteq> 0" and "ENVX eid = c"
    and "env_status (envs k c) \<noteq> ENV_FREE" and "srcva \<ge> UTOP"
  shows "\<exists>k'. sys_ipc_recv pol dstva k = ret (- E_INVAL) k' \<and> env_status (envs k' c) = env_status (envs k c)
    \<and> (\<forall>s. \<exists>k''. sys_ipc_try_send eid v srcva perm (k'\<lparr>curenv := Some s\<rparr>) = ret 0 k''
        \<and> reg_eax (tf_regs (env_tf (envs k'' c))) = 0 \<and> env_status (envs k'' c) = ENV_RUNNABLE)"
proof -
  let ?k = "set_env c ((envs k c)\<lparr>env_ipc_recving := True\<rparr>) k"
  have r: "sys_ipc_recv pol dstva k = ret (- E_INVAL) ?k" using assms(1,2) by (simp add: sys_ipc_recv_def)
  have "\<exists>k''. sys_ipc_try_send eid v srcva perm (?k\<lparr>curenv := Some s\<rparr>) = ret 0 k''
      \<and> reg_eax (tf_regs (env_tf (envs k'' c))) = 0 \<and> env_status (envs k'' c) = ENV_RUNNABLE" for s
  proof -
    have "envid2env eid False (?k\<lparr>curenv := Some s\<rparr>) = Some (0, Some c)" using assms(3-6) by (simp add: envid2env_def)
    then show ?thesis using assms(7) by (simp add: sys_ipc_try_send_def ipc_deliver_def Let_def)
  qed
  then show ?thesis using r by (intro exI [of _ ?k]) simp
qed

theorem refused_recv_stays_open_witness:
  "\<exists>k'. sys_ipc_recv SCHED_PRIORITIES 0xF0000000 share_kern = ret (- E_INVAL) k' \<and> env_status (envs k' 2) = ENV_RUNNING"
proof -
  have "bad_va 0xF0000000" "ENVX 0x1002 = 2" by (simp_all add: bad_va_def UTOP_value ENVX_def)
  then show ?thesis
    using refused_recv_stays_open [OF share_simps(1) _ share_simps(6), of "0xF0000000" UTOP SCHED_PRIORITIES 0 0] by auto
qed

section \<open>Priorities\<close>

lemma eliminar_take:
  assumes "queues_ok k" and "obtener_cola (cola_actual (envs k (ENVX eid))) = Some q"
  shows "if eid \<in> set (items k q)
    then \<exists>c. cola_take (\<lambda>e. e = eid) (cola (mlfq_scheduler k) q) = Some (eid, c) \<and> cola_ok c
      \<and> sched_eliminar_env eid k = Some (k\<lparr>mlfq_scheduler := set_cola q c (mlfq_scheduler k)\<rparr>)
      \<and> mset (contents c) = mset (items k q) - {#eid#}
    else sched_eliminar_env eid k = Some k"
proof -
  let ?c = "cola (mlfq_scheduler k) q"
  have ok: "cola_ok ?c" using assms(1) by (simp add: queues_ok_def)
  show ?thesis
  proof (cases "cola_take (\<lambda>e. e = eid) ?c")
    case None
    then have "eid \<notin> set (items k q)" using colas.take_none [OF ok] by (auto simp: items_def)
    then show ?thesis using assms(2) None by (simp add: sched_eliminar_env_def cola_take_def Let_def)
  next
    case (Some r)
    then obtain e c where r: "cola_take (\<lambda>e. e = eid) ?c = Some (e, c)" by (cases r) auto
    note t = colas.take_some [OF ok r]
    have e: "e = eid" "eid \<in> set (items k q)" using t by (auto simp: find_Some_iff items_def)
    then show ?thesis using assms(2) r t
      by (auto simp: sched_eliminar_env_def cola_take_def Let_def items_def)
  qed
qed

lemma cola_level: "0 \<le> v \<Longrightarrow> v \<le> 3 \<Longrightarrow> obtener_cola v = Some q \<longleftrightarrow> v = level q"
  by (cases q) (auto simp: obtener_cola_def level_def split: if_splits)

lemma two_queues: "q \<noteq> r \<Longrightarrow> length (items k q) + length (items k r) \<le> size (total k)"
  unfolding size_total by (cases q; cases r) simp_all

text \<open>A program can only lower the priority of itself and of its children: asking for a queue that does not exist,
  for another environment or for a better queue is -1 and changes nothing; otherwise the environment
  leaves its queue and joins the end of the new one, and nothing else changes.\<close>

theorem priority_only_lowered:
  assumes "queues_ok k" and "curenv k = Some c" and "envid2env eid False k = Some (0, Some e)"
    and "ENVX (env_id (envs k e)) = e" and "cola_actual (envs k e) = level q" and "env_id (envs k e) \<in> set (items k q)"
  shows "if prio < 0 \<or> prio > 3 \<or> prio < level q \<or> e \<noteq> c \<and> env_parent_id (envs k e) \<noteq> env_id (envs k c)
    then sys_env_asignar_prioridad eid prio k = ret (-1) k
    else if prio = level q then sys_env_asignar_prioridad eid prio k = ret prio k
    else \<exists>k' r. sys_env_asignar_prioridad eid prio k = ret prio k' \<and> prio = level r
      \<and> envs k' e = (envs k e)\<lparr>cola_actual := prio\<rparr> \<and> (\<forall>i. i \<noteq> e \<longrightarrow> envs k' i = envs k i)
      \<and> mset (items k' q) = mset (items k q) - {#env_id (envs k e)#} \<and> items k' r = items k r @ [env_id (envs k e)]
      \<and> (\<forall>x. x \<noteq> q \<and> x \<noteq> r \<longrightarrow> items k' x = items k x)"
proof (cases "prio < 0 \<or> prio > 3 \<or> prio \<le> level q \<or> e \<noteq> c \<and> env_parent_id (envs k e) \<noteq> env_id (envs k c)")
  case True
  then show ?thesis using assms by (auto simp: sys_env_asignar_prioridad_def)
next
  case False
  then have rng: "0 \<le> prio" "prio \<le> 3" by auto
  then obtain r where r: "obtener_cola prio = Some r" by (cases "obtener_cola prio") (auto simp: obtener_cola_def split: if_splits)
  then have pr: "prio = level r" using rng by (simp add: cola_level)
  then have ne: "q \<noteq> r" using False by auto
  let ?i = "env_id (envs k e)"
  have q: "obtener_cola (cola_actual (envs k (ENVX ?i))) = Some q" by (simp add: obtener_level assms(4,5))
  obtain cq where cq: "sched_eliminar_env ?i k = Some (k\<lparr>mlfq_scheduler := set_cola q cq (mlfq_scheduler k)\<rparr>)"
    "mset (contents cq) = mset (items k q) - {#?i#}"
    using eliminar_take [OF assms(1) q] assms(6) by auto
  let ?k1 = "k\<lparr>mlfq_scheduler := set_cola q cq (mlfq_scheduler k)\<rparr>"
  have room: "ultimo (cola (mlfq_scheduler k) r) - primero (cola (mlfq_scheduler k) r) < NENV"
  proof -
    have "length (items k q) > 0" using assms(6) by (cases "items k q") auto
    moreover have "length (items k q) + length (items k r) \<le> NENV"
      using two_queues [OF ne, of k] assms(1) unfolding queues_ok_def by linarith
    ultimately have "length (items k r) < NENV" by linarith
    then show ?thesis by (simp add: items_def)
  qed
  have okr: "cola_ok (cola (mlfq_scheduler k) r)" using assms(1) by (simp add: queues_ok_def)
  note push = contents_push(1) [OF okr room]
  have run: "sys_env_asignar_prioridad eid prio k = ret prio (set_env e ((envs k e)\<lparr>cola_actual := prio\<rparr>)
      ((set_env e ((envs k e)\<lparr>cola_actual := prio\<rparr>) ?k1)\<lparr>mlfq_scheduler :=
        set_cola r (cola_push ?i (cola (mlfq_scheduler ?k1) r)) (mlfq_scheduler ?k1)\<rparr>))"
    using False assms(2-5) cq(1) agregar_ok [OF r, of ?i ?k1]
    by (auto simp: sys_env_asignar_prioridad_def)
  show ?thesis using False run pr ne push cq(2)
    by (auto simp: items_def intro!: exI [of _ r])
qed

text \<open>The running environment of the example, in the best queue.\<close>

definition queued_kern :: kern where
  "queued_kern = share_kern\<lparr>mlfq_scheduler := set_cola A (cola_push 0x1002 (cola mlfq_init A)) mlfq_init\<rparr>"

theorem priority_only_lowered_witness:
  "\<exists>k'. sys_env_asignar_prioridad 0 2 queued_kern = ret 2 k' \<and> items k' C = [0x1002] \<and> items k' A = []
    \<and> sys_env_asignar_prioridad 0 (-1) queued_kern = ret (-1) queued_kern"
proof -
  have e: "cola mlfq_init q = empty_cola" for q by (cases q) (simp_all add: mlfq_init_def cola_def)
  have it: "items queued_kern q = (if q = A then [0x1002] else [])" for q
    by (simp add: items_def queued_kern_def e) (simp add: empty_cola_def cola_push_def contents_def)
  have ok: "queues_ok queued_kern"
    by (simp add: queues_ok_def total_def it) (simp add: queued_kern_def e empty_cola_def cola_push_def cola_ok_def NENV_def)
  have s: "curenv queued_kern = Some 2" "envid2env 0 False queued_kern = Some (0, Some 2)"
    "env_id (envs queued_kern 2) = 0x1002" "cola_actual (envs queued_kern 2) = level A"
    by (simp_all add: queued_kern_def envid2env_def) (simp add: share_kern_def zero_env_def level_def)
  have x: "ENVX 0x1002 = 2" by (simp add: ENVX_def)
  note p = priority_only_lowered [OF ok s(1,2) _ s(4)]
  obtain k' r where k': "sys_env_asignar_prioridad 0 2 queued_kern = ret 2 k'" "2 = level r"
    "mset (items k' A) = mset (items queued_kern A) - {#0x1002#}" "items k' r = items queued_kern r @ [0x1002]"
    using p [of 2] x it s(3) by (auto simp: level_def)
  have "r = C" using k'(2) by (cases r) (simp_all add: level_def)
  then show ?thesis using k' p [of "-1"] x it s(3) by auto
qed

section \<open>Printing\<close>

lemma user_mem_loop_state: "user_mem_loop d a lo hi perm m = Some (0, m') \<Longrightarrow> m' = m"
proof (induction d a lo hi perm m rule: user_mem_loop.induct)
  case (1 d a lo hi perm m)
  show ?case
  proof (cases "a < hi \<and> hi \<le> UTOP")
    case True
    then obtain pte m2 where w: "pgdir_walk d a False m = Some (pte, m2)"
      using "1.prems" by (subst (asm) user_mem_loop.simps) (auto simp: bind_eq_Some_conv)
    have ok: "\<not> (case pte of None \<Rightarrow> True | Some p \<Rightarrow> pte_at m p AND (perm OR PTE_P) \<noteq> perm OR PTE_P)"
      using "1.prems" True w by (subst (asm) user_mem_loop.simps) (simp add: E_FAULT_def split: if_splits)
    have "user_mem_loop d (a + PGSIZE) lo hi perm m = Some (0, m')"
      using "1.prems" True w ok by (subst (asm) user_mem_loop.simps) (simp only: bind.bind_lunit prod.case if_True if_False simp_thms)
    then show ?thesis by (rule "1.IH" [OF True w refl ok])
  next
    case False
    then show ?thesis using "1.prems" by (subst (asm) user_mem_loop.simps) (simp only: if_False, simp)
  qed
qed

lemma user_mem_check_state: "user_mem_check d va len perm m = Some (0, m') \<Longrightarrow> m' = m"
  by (auto simp: user_mem_check_def Let_def E_FAULT_def dest!: user_mem_loop_state split: if_splits)

text \<open>Printing changes the console only, so memory can be read as before.\<close>

definition print_bytes :: "u8w list \<Rightarrow> 'a kern_scheme \<Rightarrow> 'a kern_scheme" where
  "print_bytes bs k = k\<lparr>cons := fold (\<lambda>b s. cputchar (scast b) s) bs (cons k)\<rparr>"

lemma get_byte_cons [simp]: "get_byte d va (k\<lparr>cons := c\<rparr>) = get_byte d va k"
  by (simp add: get_byte_def hw_frame_def Let_def)

lemma print_chars_run:
  assumes "\<forall>i<length bs. get_byte (cr3 k) (s + word_of_nat i) k = Some (bs ! i) \<and> bs ! i \<noteq> 0"
    and "length bs < n"
  shows "print_chars n s (int (length bs)) k = (case get_byte (cr3 k) (s + word_of_nat (length bs)) k of
      None \<Rightarrow> None | Some _ \<Rightarrow> Some (print_bytes bs k))"
  using assms
proof (induction bs arbitrary: n s k)
  case Nil
  then obtain n' where "n = Suc n'" by (cases n) auto
  then show ?case by (cases "get_byte (cr3 k) s k") (simp_all add: print_bytes_def Let_def)
next
  case (Cons b bs)
  obtain n' where n: "n = Suc n'" using Cons.prems(2) by (cases n) auto
  let ?k = "k\<lparr>cons := cputchar (scast b) (cons k)\<rparr>"
  have b: "get_byte (cr3 k) s k = Some b" "b \<noteq> 0" using Cons.prems(1) by force+
  have shift: "s + 1 + word_of_nat i = s + word_of_nat (Suc i)" for i by simp
  have "\<forall>i<length bs. get_byte (cr3 ?k) (s + 1 + word_of_nat i) ?k = Some (bs ! i) \<and> bs ! i \<noteq> 0"
    using Cons.prems(1) unfolding shift by (auto simp del: of_nat_Suc)
  from Cons.IH [OF this, of n'] show ?case using b n Cons.prems(2)
    by (simp add: Let_def ac_simps print_bytes_def split: option.split)
qed

text \<open>A program that may print a string of \<open>len\<close> characters, none of them zero, prints exactly them when the byte
  after the string can be read too; when it cannot, because the string ends where its memory ends, the kernel
  itself faults, although the check of the pointer passed.\<close>

theorem cputs_reads_past_end:
  assumes "curenv k = Some c" and "env_pgdir (envs k c) = Some d"
    and "user_mem_check d s len (PTE_P OR PTE_W OR PTE_U) k = Some (0, k1)" and "unat len < 2 ^ 31" and "length bs = unat len"
    and "\<forall>i<unat len. get_byte (cr3 k) (s + word_of_nat i) k = Some (bs ! i) \<and> bs ! i \<noteq> 0"
  shows "sys_cputs pol s len k = (case get_byte (cr3 k) (s + len) k of
      None \<Rightarrow> None | Some _ \<Rightarrow> ret 0 (print_bytes bs k))"
proof -
  have k1: "k1 = k" by (rule user_mem_check_state [OF assms(3)])
  have perm: "(PTE_P OR PTE_W OR PTE_U) OR PTE_U = PTE_P OR PTE_W OR PTE_U" by (simp add: or.assoc)
  have m: "user_mem_assert pol c s len (PTE_P OR PTE_W OR PTE_U) k = Some (None, k)"
    using assms(2,3) k1 by (simp add: user_mem_assert_def perm)
  have sint: "sint len = int (unat len)"
  proof -
    have "int (unat len) < int (2 ^ 31)" using assms(4) by (simp only: of_nat_less_iff)
    then have "uint len < 2 ^ 31" by simp
    then show ?thesis by (simp add: sint_uint signed_take_bit_eq_take_bit_shift take_bit_eq_mod)
  qed
  have "print_chars ADDRESSES s (int (length bs)) k = (case get_byte (cr3 k) (s + word_of_nat (length bs)) k of
      None \<Rightarrow> None | Some _ \<Rightarrow> Some (print_bytes bs k))"
  proof (rule print_chars_run)
    show "\<forall>i<length bs. get_byte (cr3 k) (s + word_of_nat i) k = Some (bs ! i) \<and> bs ! i \<noteq> 0" unfolding assms(5) by (rule assms(6))
    have "2 ^ 31 < ADDRESSES" by (simp add: ADDRESSES_def)
    then show "length bs < ADDRESSES" using assms(4) unfolding assms(5) by (rule order_less_trans [rotated])
  qed
  then show ?thesis using m sint assms(1,5) by (simp add: sys_cputs_def split: option.split)
qed

text \<open>The last page the program has is page 5, in frame 9, full of letters.\<close>

definition letters_kern :: kern where
  "letters_kern = share_kern\<lparr>frames := (frames share_kern)(9 := (\<lambda>_. 0x41414141))\<rparr>"

theorem cputs_reads_past_end_witness:
  "sys_cputs SCHED_PRIORITIES 0x5FFE 2 letters_kern = None"
proof -
  have lf: "frames letters_kern 2 = (\<lambda>_. 0)(0 := 0x7007)" "frames letters_kern 7 = (\<lambda>_. 0)(4 := 0x8005, 5 := 0x9007)"
    "frames letters_kern 9 = (\<lambda>_. 0x41414141)" "cr3 letters_kern = 2"
    by (simp_all add: letters_kern_def share_kern_def zero_kern_def)
  have idx: "PDX 0x5FFE = 0" "PTX 0x5FFE = 5" "PDX 0x5FFF = 0" "PTX 0x5FFF = 5" "PDX 0x6000 = 0" "PTX 0x6000 = 6"
    "PGNUM 0x7007 = 7" "PGNUM 0x9007 = 9" by (simp_all add: PDX_nat PTX_nat PGNUM_nat)
  have h: "hw_frame PTE_P 2 0x5FFE letters_kern = Some 9" "hw_frame PTE_P 2 0x5FFF letters_kern = Some 9"
    "hw_frame PTE_P 2 0x6000 letters_kern = None"
    by (simp_all add: hw_frame_def Let_def lf idx PTE_P_def)
  have b: "get_byte (cr3 letters_kern) 0x5FFE letters_kern = Some 0x41" "get_byte (cr3 letters_kern) 0x5FFF letters_kern = Some 0x41"
    "get_byte (cr3 letters_kern) 0x6000 letters_kern = None"
    by (simp_all add: get_byte_def h lf byte_of_def Let_def PGOFF_def)
  have bs: "\<forall>i<unat (2 :: u32w). get_byte (cr3 letters_kern) (0x5FFE + word_of_nat i) letters_kern = Some ([0x41, 0x41] ! i)
      \<and> [0x41, 0x41 :: u8w] ! i \<noteq> 0"
    using b by (auto simp: less_2_cases_iff)
  have c: "user_mem_check 2 0x5FFE 2 (PTE_P OR PTE_W OR PTE_U) letters_kern = Some (0, letters_kern)"
  proof -
    have w: "pgdir_walk 2 0x5000 False letters_kern = Some (Some (7, 5), letters_kern)"
      by (simp add: pgdir_walk_def lf Let_def PDX_nat PTX_nat PGNUM_nat KADDR_def PADDR_def PTE_ADDR_def layout)
         (simp add: letters_kern_def)
    have r: "ROUNDUP (0x5FFE + 2) PGSIZE = 0x6000" "ROUNDDOWN 0x5FFE PGSIZE = 0x5000"
      by (simp_all add: ROUNDUP_def ROUNDDOWN_def PGSIZE_def)
    have a: "pte_at letters_kern (7, 5) AND ((PTE_P OR PTE_W OR PTE_U) OR PTE_P) = (PTE_P OR PTE_W OR PTE_U) OR PTE_P"
      by (simp add: pte_at_def lf pte_bits)
    show ?thesis
      unfolding user_mem_check_def r Let_def
      by (subst user_mem_loop.simps, subst user_mem_loop.simps) (use w a in \<open>simp add: PGSIZE_def UTOP_value\<close>)
  qed
  show ?thesis
    using cputs_reads_past_end [OF _ _ c _ _ bs, of 2] b
    by (simp add: letters_kern_def)
qed

end
