(* ===== verification/Fork_Props.thy ===== *)
theory Fork_Props
  imports Syscall_Props
begin

text \<open>
  What the user library promises: the copying loop of \<open>fork\<close> shares every page copy-on-write, the page
  fault handler never refuses, and the system call stubs are the inverse of the dispatcher.
\<close>

section \<open>Page addresses\<close>

lemma pn_addr_unat: "v < 0x100000 \<Longrightarrow> unat (pn_addr v) = v * 4096"
proof -
  assume v: "v < 0x100000"
  have "unat (word_of_nat v :: u32w) = v" using v by (simp add: unat_of_nat)
  then have "unat (pn_addr v) = take_bit 32 (push_bit 12 v)" by (simp add: pn_addr_def unsigned_push_bit_eq)
  also have "\<dots> = v * 4096" using v by (simp add: push_bit_eq_mult take_bit_eq_mod)
  finally show ?thesis .
qed

lemma pn_addr_user:
  assumes "v < UPAGENUM"
  shows "PGNUM (pn_addr v) = v" "pn_addr v < UTOP" "\<not> bad_va (pn_addr v)" "PDX (pn_addr v) = v div 1024"
proof -
  have v: "v < 0x100000" using assms by (simp add: UPAGENUM_def)
  show n: "PGNUM (pn_addr v) = v" using pn_addr_unat [OF v] by (simp add: PGNUM_nat)
  show u: "pn_addr v < UTOP" by (simp add: user_page n assms)
  show "PDX (pn_addr v) = v div 1024" by (simp add: PDX_nat n)
  have "unat (pn_addr v mod PGSIZE) = 0" using pn_addr_unat [OF v] by (simp add: unat_mod PGSIZE_def)
  then show "\<not> bad_va (pn_addr v)" using u by (simp add: bad_va_def not_le unat_eq_0)
qed

section \<open>The permissions of a copy\<close>

definition shared_word :: "u32w \<Rightarrow> bool" where
  "shared_word w \<longleftrightarrow> w AND PTE_W \<noteq> 0 \<or> w AND PTE_COW \<noteq> 0"

definition dup_perm :: "u32w \<Rightarrow> u32w" where
  "dup_perm w = (let perm = PTE_U OR PTE_P;
     perm = (if w AND (PTE_PCD OR PTE_PWT) \<noteq> 0 then perm OR PTE_PCD OR PTE_PWT else perm)
   in if shared_word w then perm OR PTE_COW else perm)"

text \<open>The entry that a copy of the entry \<open>w\<close> has, in the child and, if it is shared, in the parent.\<close>

definition dup_entry :: "u32w \<Rightarrow> u32w" where
  "dup_entry w = page2pa (PGNUM w) OR (PTE_P OR PTE_U OR dup_perm w) OR PTE_P"

lemma dup_perm_bits: "perm_bits (PTE_P OR PTE_U OR dup_perm w)" "dup_perm w AND PTE_W = 0"
proof -
  have c: "perm_bits PTE_COW" "perm_bits PTE_PCD" "perm_bits PTE_PWT"
    by (simp_all add: perm_bits_def PTE_COW_def pte_bits)
  then show "perm_bits (PTE_P OR PTE_U OR dup_perm w)" by (simp add: dup_perm_def Let_def perm_bits_or)
  show "dup_perm w AND PTE_W = 0"
    by (simp add: dup_perm_def Let_def bit.conj_disj_distrib2 PTE_COW_def pte_bits)
qed

lemma dup_entry_props:
  assumes "PGNUM w < 0x100000"
  shows "PGNUM (dup_entry w) = PGNUM w" "dup_entry w \<noteq> 0" "dup_entry w AND PTE_W = 0"
proof -
  have pb: "perm_bits ((PTE_P OR PTE_U OR dup_perm w) OR PTE_P)" using dup_perm_bits by (simp add: perm_bits_or)
  show "PGNUM (dup_entry w) = PGNUM w" using PGNUM_entry [OF pb assms] by (simp add: dup_entry_def)
  show "dup_entry w \<noteq> 0" unfolding dup_entry_def by (rule bit0_flag)
  have "page2pa q AND PTE_W = 0" for q by (simp add: and_PTE_W page2pa_def bit_push_bit_iff)
  then show "dup_entry w AND PTE_W = 0" using dup_perm_bits(2) [of w]
    by (simp add: dup_entry_def bit.conj_disj_distrib2 pte_bits)
qed

section \<open>Copying one page\<close>

text \<open>The parent runs in the space \<open>d\<close>; it may change its child, whose space is \<open>e\<close>.\<close>

definition forking :: "'a kern_scheme \<Rightarrow> u32w \<Rightarrow> nat \<Rightarrow> nat \<Rightarrow> bool" where
  "forking k child d e \<longleftrightarrow> (\<exists>c i. curenv k = Some c \<and> env_pgdir (envs k c) = Some d \<and> cr3 k = d
     \<and> envid2env child True k = Some (0, Some i) \<and> env_pgdir (envs k i) = Some e)"

lemma forking_more:
  assumes "mem.more k' = mem.more (k :: 'a kern_scheme)"
  shows "forking k' child d e = forking k child d e"
proof -
  have "cr3 k' = cr3 k" using assms by (cases k; cases k'; simp)
  then show ?thesis using kern_part [OF assms] by (simp add: forking_def envid2env_def Let_def cong: option.case_cong)
qed

lemma page_map_run:
  assumes "forking k child d e" and "tgt = 0 \<and> x = d \<or> tgt = child \<and> x = e" and "space_ok k d" and "v < UPAGENUM"
    and "mapped k d v = Some p" and "perm AND PTE_W = 0"
    and "page_insert x p (pn_addr v) (PTE_P OR PTE_U OR perm) k = Some (0, k')"
  shows "u_page_map pol 0 (pn_addr v) tgt (pn_addr v) perm k = Some (0, k')"
proof -
  obtain c i where f: "curenv k = Some c" "env_pgdir (envs k c) = Some d" "envid2env child True k = Some (0, Some i)"
    "env_pgdir (envs k i) = Some e" using assms(1) by (auto simp: forking_def)
  have s: "envid2env 0 True k = Some (0, Some c)" using f(1) by (simp add: envid2env_def)
  obtain j where j: "envid2env tgt True k = Some (0, Some j)" "env_pgdir (envs k j) = Some x"
    using assms(2) s f by auto
  note a = pn_addr_user [OF assms(4)]
  have "sys_page_map 0 (pn_addr v) tgt (pn_addr v) perm k = ret 0 k'"
    using page_map_unfold [OF s j(1) f(2) j(2) assms(3) a(3) a(3), of perm] assms(5-7) by (simp add: a(1))
  then show ?thesis by (simp add: u_page_map_def user_syscall_def syscall_def)
qed

text \<open>A page the loop copies.\<close>

definition copied :: "'a kern_scheme \<Rightarrow> nat \<Rightarrow> nat \<Rightarrow> bool" where
  "copied k d v \<longleftrightarrow> v \<noteq> PGNUM UXSTACKTOP - 1 \<and> frames k d (v div 1024) AND PTE_P \<noteq> 0 \<and> frames k d (v div 1024) AND PTE_U \<noteq> 0
     \<and> entry k d v AND PTE_P \<noteq> 0 \<and> entry k d v AND PTE_U \<noteq> 0"

lemma both_flags: "w AND PTE_P \<noteq> 0 \<Longrightarrow> w AND PTE_U \<noteq> 0 \<Longrightarrow> w AND (PTE_P OR PTE_U) = PTE_P OR PTE_U"
proof -
  have one: "w AND 2 ^ n = 2 ^ n" if "w AND 2 ^ n \<noteq> 0" for n
  proof -
    have "bit w n" using that by (simp add: and_exp_eq_0_iff_not_bit)
    then show ?thesis by (intro bit_eqI) (auto simp: bit_simps)
  qed
  assume "w AND PTE_P \<noteq> 0" "w AND PTE_U \<noteq> 0"
  then have "w AND PTE_P = PTE_P" "w AND PTE_U = PTE_U"
    using one [of 0] one [of 2] by (simp_all add: PTE_P_def PTE_U_def)
  then show ?thesis by (simp add: bit.conj_disj_distrib)
qed

lemma copied_uvpt: "copied k (cr3 k) v \<Longrightarrow> uvpt k v = Some (entry k (cr3 k) v)"
  using both_flags by (auto simp: copied_def uvpt_def uvpd_def Let_def entry_def table_def)

lemma copied_mapped: "copied k d v \<Longrightarrow> mapped k d v = Some (PGNUM (entry k d v))"
  by (auto simp: copied_def mapped_def)

lemma duppage_step:
  assumes f: "forking k child d e" and sd: "space_ok k d" and se: "space_ok k e" and sep: "separate k d e" and v: "v < UPAGENUM"
    and cp: "copied k d v" and pe: "PGNUM (entry k d v) \<notin> paging k e" and ref: "unat (pp_ref k (PGNUM (entry k d v))) + 1 < 0xFFFF"
    and none: "mapped k e v = None" and room: "table k e (v div 1024) \<noteq> None \<or> free_pages k \<noteq> []"
  obtains k' where "duppage pol child v k = Some k'" "mem.more k' = mem.more k" "space_ok k' d" "space_ok k' e" "separate k' d e"
    "\<And>u. u < UPAGENUM \<Longrightarrow> entry k' d u = (if u = v \<and> shared_word (entry k d v) then dup_entry (entry k d v) else entry k d u)"
    "\<And>u. u < UPAGENUM \<Longrightarrow> entry k' e u = (if u = v then dup_entry (entry k d v) else entry k e u)"
    "frames k' d = frames k d" "free_pages k' = (if table k e (v div 1024) = None then tl (free_pages k) else free_pages k)"
    "\<And>i. i < 955 \<Longrightarrow> table k' e i = (if i = v div 1024 \<and> table k e i = None then Some (hd (free_pages k)) else table k e i)"
    "\<And>p. pp_ref k p \<noteq> 0 \<Longrightarrow> pp_ref k' p = (if p = PGNUM (entry k d v) then pp_ref k p + 1 else pp_ref k p)"
proof -
  let ?w = "entry k d v" and ?va = "pn_addr v"
  let ?p = "PGNUM ?w" and ?perm = "PTE_P OR PTE_U OR dup_perm ?w"
  note a = pn_addr_user [OF v] and mp = copied_mapped [OF cp]
  have cr: "cr3 k = d" using f by (auto simp: forking_def)
  have fl: "?w AND PTE_P \<noteq> 0" "?w AND PTE_U \<noteq> 0" using cp by (simp_all add: copied_def)
  have de: "e \<noteq> d" using sep by (auto simp: separate_def paging_def)
  have pd: "?p < npages k" "?p \<noteq> d" "?p \<notin> set (free_pages k)" "\<forall>i<955. table k d i \<noteq> Some ?p"
    using space_okD(6) [OF sd v mp] by auto
  have me: "mappable k e ?p" using pd pe ref by (auto simp: mappable_def paging_def)
  have r0: "pp_ref k ?p \<noteq> 0" by (rule mapped_ref(1) [OF sd v mp])
  have dup: "duppage pol child v k = do {
      (r, k) \<leftarrow> u_page_map pol 0 ?va child ?va (dup_perm ?w) k;
      if r < 0 then None
      else if shared_word ?w then do { (r, k) \<leftarrow> u_page_map pol 0 ?va 0 ?va (dup_perm ?w) k; if r < 0 then None else Some k }
      else Some k }"
    using copied_uvpt [of k v] cp cr fl unfolding dup_perm_def shared_word_def Let_def
    by (auto simp: duppage_def Let_def cong del: if_weak_cong)
  obtain k1 where k1: "page_insert e ?p ?va ?perm k = Some (0, k1)" "space_ok k1 e" "space_ok k1 d" "separate k1 e d"
    "\<And>u. u < UPAGENUM \<Longrightarrow> entry k1 e u = (if u = PGNUM ?va then page2pa ?p OR ?perm OR PTE_P else entry k e u)"
    "\<And>u. u < UPAGENUM \<Longrightarrow> entry k1 d u = entry k d u" "frames k1 d = frames k d"
    "\<And>i. i < 955 \<Longrightarrow> table k1 e i = (if i = PDX ?va \<and> table k e i = None then Some (hd (free_pages k)) else table k e i)"
    "free_pages k1 = (if table k e (PDX ?va) = None then tl (free_pages k) else free_pages k)"
    "\<And>p. pp_ref k p \<noteq> 0 \<Longrightarrow> pp_ref k1 p = (if p = ?p \<and> mapped k e (PGNUM ?va) = None then pp_ref k p + 1 else pp_ref k p)"
    by (rule insert_both [OF se sd _ a(2) me dup_perm_bits(1) [of ?w]]) (use sep room none a in \<open>auto simp: separate_sym\<close>)
  have m1: "u_page_map pol 0 ?va child ?va (dup_perm ?w) k = Some (0, k1)"
    by (rule page_map_run [OF f _ sd v mp dup_perm_bits(2) k1(1)]) simp
  have more1: "mem.more k1 = mem.more k" by (rule more_page_insert [OF k1(1)])
  have w1: "entry k1 e u = (if u = v then dup_entry ?w else entry k e u)" if "u < UPAGENUM" for u
    using k1(5) [OF that] a(1) by (simp add: dup_entry_def)
  have t1: "table k1 d i = table k d i" for i using k1(7) by (simp add: table_def)
  show thesis
  proof (cases "shared_word ?w")
    case False
    show thesis
      by (rule that [of k1]) (use False dup m1 more1 k1 w1 a none in \<open>auto simp: separate_sym\<close>)
  next
    case True
    have e1: "entry k1 d v = ?w" using k1(6) [OF v] by simp
    have mp1: "mapped k1 d v = Some ?p" using mp e1 by (simp add: mapped_def split: if_splits)
    have r1: "pp_ref k1 ?p = pp_ref k ?p + 1" using k1(10) [OF r0] none a(1) by simp
    have "unat (pp_ref k ?p + 1) = unat (pp_ref k ?p) + 1" using ref by (intro unat_plus_1) simp
    then have me1: "mappable k1 d ?p" using space_okD(6) [OF k1(3) v mp1] ref r1 by (simp add: mappable_def)
    have tab: "table k1 d (PDX ?va) \<noteq> None" using mp1 a by (auto simp: mapped_def entry_def split: if_splits option.splits)
    obtain k2 where k2: "page_insert d ?p ?va ?perm k1 = Some (0, k2)" "space_ok k2 d" "space_ok k2 e" "separate k2 d e"
      "\<And>u. u < UPAGENUM \<Longrightarrow> entry k2 d u = (if u = PGNUM ?va then page2pa ?p OR ?perm OR PTE_P else entry k1 d u)"
      "\<And>u. u < UPAGENUM \<Longrightarrow> entry k2 e u = entry k1 e u" "frames k2 e = frames k1 e" "frames k2 d = frames k1 d"
      "free_pages k2 = free_pages k1"
      "\<And>p. pp_ref k1 p \<noteq> 0 \<Longrightarrow> pp_ref k2 p = pp_ref k1 p"
      by (rule insert_both [OF k1(3,2) _ a(2) me1 dup_perm_bits(1) [of ?w]]) (use k1(4) mp1 a tab in \<open>auto simp: separate_sym\<close>)
    have f1: "forking k1 child d e" using f forking_more [OF more1] by simp
    have m2: "u_page_map pol 0 ?va 0 ?va (dup_perm ?w) k1 = Some (0, k2)"
      by (rule page_map_run [OF f1 _ k1(3) v mp1 dup_perm_bits(2) k2(1)]) simp
    have more2: "mem.more k2 = mem.more k" using more_page_insert [OF k2(1)] more1 by simp
    have t2: "table k2 e i = table k1 e i" for i using k2(7) by (simp add: table_def)
    have rr: "pp_ref k2 p = pp_ref k1 p" if "pp_ref k p \<noteq> 0" for p
    proof (rule k2(10))
      show "pp_ref k1 p \<noteq> 0" using k1(10) [OF that] r1 ref that by (auto simp: unat_eq_0 [symmetric] unat_plus_1 simp del: unat_eq_0)
    qed
    show thesis
      by (rule that [of k2]) (use True dup m1 m2 more2 k1 k2 w1 a none t2 rr in \<open>auto simp: dup_entry_def\<close>)
  qed
qed

section \<open>The loop\<close>

text \<open>The page tables the child still needs for the pages \<open>vs\<close>.\<close>

definition needed :: "'a kern_scheme \<Rightarrow> nat \<Rightarrow> nat \<Rightarrow> nat list \<Rightarrow> nat set" where
  "needed k d e vs = {i. table k e i = None \<and> (\<exists>v\<in>set vs. v div 1024 = i \<and> copied k d v)}"

text \<open>Before the pages \<open>vs\<close>: both spaces are well formed and separate, the child maps none of the pages yet, there is
  memory for its tables, and no count can reach its limit.\<close>

definition fork_inv :: "'a kern_scheme \<Rightarrow> u32w \<Rightarrow> nat \<Rightarrow> nat \<Rightarrow> nat list \<Rightarrow> bool" where
  "fork_inv k child d e vs \<longleftrightarrow> forking k child d e \<and> space_ok k d \<and> space_ok k e \<and> separate k d e
     \<and> card (needed k d e vs) \<le> length (free_pages k)
     \<and> (\<forall>v<UPAGENUM. \<forall>p. mapped k d v = Some p \<longrightarrow> p \<notin> paging k e
          \<and> unat (pp_ref k p) + card {u \<in> set vs. mapped k d u = Some p} < 0xFFFF)
     \<and> (\<forall>v\<in>set vs. mapped k e v = None)"

lemma finite_needed [simp]: "finite (needed k d e vs)"
proof -
  have "needed k d e vs \<subseteq> (\<lambda>v. v div 1024) ` set vs" by (auto simp: needed_def)
  then show ?thesis by (rule finite_subset) simp
qed

lemma fork_pages_Cons:
  assumes "cr3 k = d"
  shows "fork_pages pol child (v # vs) k = (if copied k d v then do { k \<leftarrow> duppage pol child v k; fork_pages pol child vs k }
    else fork_pages pol child vs k)"
proof (cases "frames k d (v div 1024) AND PTE_P \<noteq> 0 \<and> frames k d (v div 1024) AND PTE_U \<noteq> 0")
  case True
  then have "uvpt k v = Some (entry k d v)"
    using assms both_flags by (auto simp: uvpt_def uvpd_def Let_def entry_def table_def)
  then show ?thesis using True assms by (auto simp: copied_def uvpd_def Let_def)
next
  case False
  then show ?thesis using assms by (auto simp: copied_def uvpd_def Let_def)
qed

lemma fork_inv_skip: "fork_inv k child d e (v # vs) \<Longrightarrow> fork_inv k child d e vs"
proof -
  assume inv: "fork_inv k child d e (v # vs)"
  have "needed k d e vs \<subseteq> needed k d e (v # vs)" by (auto simp: needed_def)
  then have "card (needed k d e vs) \<le> card (needed k d e (v # vs))" by (intro card_mono) simp
  then have "card (needed k d e vs) \<le> length (free_pages k)" using inv by (simp add: fork_inv_def)
  moreover have "unat (pp_ref k p) + card {u \<in> set vs. mapped k d u = Some p} < 0xFFFF"
    if "u < UPAGENUM" "mapped k d u = Some p" for u p
  proof -
    have "card {u \<in> set vs. mapped k d u = Some p} \<le> card {u \<in> set (v # vs). mapped k d u = Some p}"
      by (rule card_mono) auto
    moreover have "unat (pp_ref k p) + card {u \<in> set (v # vs). mapped k d u = Some p} < 0xFFFF"
      using inv that unfolding fork_inv_def by blast
    ultimately show ?thesis by linarith
  qed
  ultimately show ?thesis using inv unfolding fork_inv_def by simp
qed

lemma fork_inv_step:
  assumes inv: "fork_inv k child d e (v # vs)" and v: "v < UPAGENUM" and vs: "set vs \<subseteq> {..<UPAGENUM}" "v \<notin> set vs" and cp: "copied k d v"
  obtains k' where "duppage pol child v k = Some k'" "fork_inv k' child d e vs"
    "\<And>u. u < UPAGENUM \<Longrightarrow> entry k' d u = (if u = v \<and> shared_word (entry k d v) then dup_entry (entry k d v) else entry k d u)"
    "\<And>u. u < UPAGENUM \<Longrightarrow> entry k' e u = (if u = v then dup_entry (entry k d v) else entry k e u)"
    "frames k' d = frames k d" "mem.more k' = mem.more k"
proof -
  let ?w = "entry k d v"
  let ?p = "PGNUM ?w"
  have i: "forking k child d e" "space_ok k d" "space_ok k e" "separate k d e" "mapped k e v = None"
    "card (needed k d e (v # vs)) \<le> length (free_pages k)" using inv by (auto simp: fork_inv_def)
  note mp = copied_mapped [OF cp]
  have pp: "?p \<notin> paging k e" "unat (pp_ref k ?p) + card {u \<in> set (v # vs). mapped k d u = Some ?p} < 0xFFFF"
    using inv v mp by (auto simp: fork_inv_def)
  have lim: "?p < 0x100000" by (rule PGNUM_bound)
  have split: "{u \<in> set (v # vs). mapped k d u = Some ?p} = insert v {u \<in> set vs. mapped k d u = Some ?p}" using mp by auto
  have c1: "card {u \<in> set (v # vs). mapped k d u = Some ?p} = Suc (card {u \<in> set vs. mapped k d u = Some ?p})"
    unfolding split using vs(2) by simp
  have room: "table k e (v div 1024) \<noteq> None \<or> free_pages k \<noteq> []"
  proof (rule ccontr)
    assume "\<not> ?thesis"
    then have "v div 1024 \<in> needed k d e (v # vs)" "free_pages k = []" using cp by (auto simp: needed_def)
    then show False using i(6) by (auto simp: card_eq_0_iff)
  qed
  obtain k' where k': "duppage pol child v k = Some k'" "mem.more k' = mem.more k" "space_ok k' d" "space_ok k' e" "separate k' d e"
    "\<And>u. u < UPAGENUM \<Longrightarrow> entry k' d u = (if u = v \<and> shared_word ?w then dup_entry ?w else entry k d u)"
    "\<And>u. u < UPAGENUM \<Longrightarrow> entry k' e u = (if u = v then dup_entry ?w else entry k e u)"
    "frames k' d = frames k d" "free_pages k' = (if table k e (v div 1024) = None then tl (free_pages k) else free_pages k)"
    "\<And>i. i < 955 \<Longrightarrow> table k' e i = (if i = v div 1024 \<and> table k e i = None then Some (hd (free_pages k)) else table k e i)"
    "\<And>p. pp_ref k p \<noteq> 0 \<Longrightarrow> pp_ref k' p = (if p = ?p then pp_ref k p + 1 else pp_ref k p)"
    by (rule duppage_step [OF i(1-4) v cp pp(1) _ i(5) room]) (use pp(2) c1 in auto)
  have mapd: "mapped k' d u = mapped k d u" if "u < UPAGENUM" for u
    using k'(6) [OF that] mp dup_entry_props [OF lim] by (auto simp: mapped_def split: if_splits)
  have in_vs: "u < UPAGENUM" "u \<noteq> v" if "u \<in> set vs" for u using that vs by auto
  have mape: "mapped k' e u = mapped k e u" if "u \<in> set vs" for u
    using k'(7) [OF in_vs(1) [OF that]] in_vs(2) [OF that] by (simp add: mapped_def)
  have cop: "copied k' d u = copied k d u" if "u \<in> set vs" for u
    using k'(6) [OF in_vs(1) [OF that]] in_vs(2) [OF that] k'(8) by (simp add: copied_def)
  have need: "card (needed k' d e vs) \<le> length (free_pages k')"
  proof -
    have lt: "u div 1024 < 955" if "u \<in> set (v # vs)" for u using that v vs user_dir by auto
    have "needed k' d e vs \<subseteq> needed k d e (v # vs) - (if table k e (v div 1024) = None then {v div 1024} else {})"
      using cop lt k'(10) by (auto simp: needed_def split: if_splits)
    then have "card (needed k' d e vs) \<le> card (needed k d e (v # vs) - (if table k e (v div 1024) = None then {v div 1024} else {}))"
      by (intro card_mono) auto
    moreover have "v div 1024 \<in> needed k d e (v # vs)" if "table k e (v div 1024) = None" using that cp by (auto simp: needed_def)
    ultimately show ?thesis using i(6) k'(9) by (auto simp: card_Diff_singleton_if split: if_splits)
  qed
  have pag: "p \<notin> paging k' e \<and> unat (pp_ref k' p) + card {u \<in> set vs. mapped k' d u = Some p} < 0xFFFF"
    if u: "u < UPAGENUM" "mapped k' d u = Some p" for u p
  proof -
    have m: "mapped k d u = Some p" using mapd [OF u(1)] u(2) by simp
    have old: "p \<notin> paging k e" "unat (pp_ref k p) + card {u \<in> set (v # vs). mapped k d u = Some p} < 0xFFFF"
      using inv u(1) m by (auto simp: fork_inv_def)
    have free: "p \<notin> set (free_pages k)" using space_okD(6) [OF i(2) u(1) m] by simp
    have "p \<notin> paging k' e"
    proof
      assume "p \<in> paging k' e"
      then obtain i where "p = e \<or> i < 955 \<and> table k' e i = Some p" by (auto simp: paging_def)
      then show False using old(1) free room k'(10) [of i] by (auto simp: paging_def split: if_splits)
    qed
    moreover have ss: "{u \<in> set vs. mapped k' d u = Some p} = {u \<in> set vs. mapped k d u = Some p}"
      using mapd vs by auto
    moreover have "unat (pp_ref k' p) + card {u \<in> set vs. mapped k d u = Some p} < 0xFFFF"
    proof (cases "p = ?p")
      case True
      then have "unat (pp_ref k' p) = unat (pp_ref k p) + 1"
        using k'(11) mapped_ref(1) [OF i(2) u(1) m] pp(2) c1 by (simp add: unat_plus_1)
      then show ?thesis using True pp(2) c1 by simp
    next
      case False
      have "card {u \<in> set vs. mapped k d u = Some p} \<le> card {u \<in> set (v # vs). mapped k d u = Some p}" by (rule card_mono) auto
      then show ?thesis using False k'(11) mapped_ref(1) [OF i(2) u(1) m] old(2) by simp
    qed
    ultimately show ?thesis by simp
  qed
  have "fork_inv k' child d e vs"
    unfolding fork_inv_def using forking_more [OF k'(2)] i k' need pag mape inv by (auto simp: fork_inv_def)
  with k' show thesis by (intro that [of k'])
qed

lemma fork_pages_run:
  assumes "fork_inv k child d e vs" and "distinct vs" and "set vs \<subseteq> {..<UPAGENUM}"
  shows "\<exists>k'. fork_pages pol child vs k = Some k' \<and> fork_inv k' child d e [] \<and> mem.more k' = mem.more k
    \<and> (\<forall>v<UPAGENUM. entry k' d v = (if v \<in> set vs \<and> copied k d v \<and> shared_word (entry k d v) then dup_entry (entry k d v) else entry k d v))
    \<and> (\<forall>v<UPAGENUM. entry k' e v = (if v \<in> set vs \<and> copied k d v then dup_entry (entry k d v) else entry k e v))"
  using assms
proof (induction vs arbitrary: k)
  case Nil
  then show ?case by simp
next
  case (Cons v vs)
  have cr: "cr3 k = d" using Cons.prems(1) by (auto simp: fork_inv_def forking_def)
  have v: "v < UPAGENUM" "set vs \<subseteq> {..<UPAGENUM}" "v \<notin> set vs" "distinct vs" using Cons.prems(2,3) by auto
  show ?case
  proof (cases "copied k d v")
    case False
    from Cons.IH [OF fork_inv_skip [OF Cons.prems(1)] v(4,2)] show ?thesis
      using False fork_pages_Cons [OF cr, of pol child v vs] by auto
  next
    case True
    obtain k1 where k1: "duppage pol child v k = Some k1" "fork_inv k1 child d e vs"
      "\<And>u. u < UPAGENUM \<Longrightarrow> entry k1 d u = (if u = v \<and> shared_word (entry k d v) then dup_entry (entry k d v) else entry k d u)"
      "\<And>u. u < UPAGENUM \<Longrightarrow> entry k1 e u = (if u = v then dup_entry (entry k d v) else entry k e u)"
      "frames k1 d = frames k d" "mem.more k1 = mem.more k"
      using fork_inv_step [OF Cons.prems(1) v(1-3) True] by metis
    obtain k' where k': "fork_pages pol child vs k1 = Some k'" "fork_inv k' child d e []" "mem.more k' = mem.more k1"
      "\<And>v. v < UPAGENUM \<Longrightarrow> entry k' d v = (if v \<in> set vs \<and> copied k1 d v \<and> shared_word (entry k1 d v) then dup_entry (entry k1 d v) else entry k1 d v)"
      "\<And>v. v < UPAGENUM \<Longrightarrow> entry k' e v = (if v \<in> set vs \<and> copied k1 d v then dup_entry (entry k1 d v) else entry k1 e v)"
      using Cons.IH [OF k1(2) v(4,2)] by blast
    have same: "copied k1 d u = copied k d u \<and> entry k1 d u = entry k d u" if "u \<in> set vs" for u
    proof -
      have "u < UPAGENUM" "u \<noteq> v" using that v by auto
      then show ?thesis using k1(3) [of u] k1(5) by (simp add: copied_def)
    qed
    have "fork_pages pol child (v # vs) k = Some k'" using True k1(1) k'(1) fork_pages_Cons [OF cr] by simp
    moreover have "entry k' d u = (if u \<in> set (v # vs) \<and> copied k d u \<and> shared_word (entry k d u) then dup_entry (entry k d u) else entry k d u)"
      if "u < UPAGENUM" for u using k'(4) [OF that] k1(3) [OF that] same [of u] v(3) True by auto
    moreover have "entry k' e u = (if u \<in> set (v # vs) \<and> copied k d u then dup_entry (entry k d u) else entry k e u)"
      if "u < UPAGENUM" for u using k'(5) [OF that] k1(4) [OF that] same [of u] v(3) True by auto
    ultimately show ?thesis using k'(2,3) k1(6) by auto
  qed
qed

section \<open>Properties\<close>

text \<open>C21: The copying loop of \<open>fork\<close>, with memory for the page tables of an empty child: it returns, and every page the
  parent can read, but the exception stack, is in the child the same page with the same address, while every
  other page of the child is unmapped and every page of the parent is the one it was. What was
  writable or copy-on-write is copy-on-write in both; so neither can write to a page of the other.\<close>

theorem fork_shares_copy_on_write:
  assumes "fork_inv k child d e [0..<PGNUM UTOP]"
  shows "\<exists>k'. fork_pages pol child [0..<PGNUM UTOP] k = Some k' \<and> space_ok k' d \<and> space_ok k' e
    \<and> (\<forall>v<UPAGENUM. mapped k' d v = mapped k d v \<and> mapped k' e v = (if copied k d v then mapped k d v else None)
      \<and> (copied k d v \<longrightarrow> entry k' d v AND PTE_W = 0 \<and> entry k' e v AND PTE_W = 0
        \<and> entry k' e v = dup_entry (entry k d v) \<and> entry k' d v = (if shared_word (entry k d v) then dup_entry (entry k d v) else entry k d v)))"
proof -
  have top: "PGNUM UTOP = UPAGENUM" by (simp add: PGNUM_nat unat_UTOP UPAGENUM_def)
  have sub: "set [0..<PGNUM UTOP] \<subseteq> {..<UPAGENUM}" unfolding top by auto
  have all: "v \<in> set [0..<PGNUM UTOP] \<longleftrightarrow> v < UPAGENUM" for v by (simp add: top)
  obtain k' where k': "fork_pages pol child [0..<PGNUM UTOP] k = Some k'" "fork_inv k' child d e []"
    "\<And>v. v < UPAGENUM \<Longrightarrow> entry k' d v = (if copied k d v \<and> shared_word (entry k d v) then dup_entry (entry k d v) else entry k d v)"
    "\<And>v. v < UPAGENUM \<Longrightarrow> entry k' e v = (if copied k d v then dup_entry (entry k d v) else entry k e v)"
    using fork_pages_run [OF assms distinct_upt sub, of pol] unfolding all by auto
  have none: "mapped k e v = None" if "v < UPAGENUM" for v using assms that top by (simp add: fork_inv_def)
  have "mapped k' d v = mapped k d v \<and> mapped k' e v = (if copied k d v then mapped k d v else None)
      \<and> (copied k d v \<longrightarrow> entry k' d v AND PTE_W = 0 \<and> entry k' e v AND PTE_W = 0
        \<and> entry k' e v = dup_entry (entry k d v) \<and> entry k' d v = (if shared_word (entry k d v) then dup_entry (entry k d v) else entry k d v))"
    if v: "v < UPAGENUM" for v
  proof -
    note p = dup_entry_props [OF PGNUM_bound [of "entry k d v"]]
    have m: "mapped k d v = Some (PGNUM (entry k d v))" if "copied k d v" using copied_mapped that .
    have "entry k d v AND PTE_W = 0" if "\<not> shared_word (entry k d v)" using that by (simp add: shared_word_def)
    then show ?thesis using k'(3,4) [OF v] none [OF v] p m
      by (cases "copied k d v"; cases "shared_word (entry k d v)") (auto simp: mapped_def split: if_splits)
  qed
  moreover have "space_ok k' d \<and> space_ok k' e" using k'(2) by (simp add: fork_inv_def)
  ultimately show ?thesis using k'(1) by blast
qed

lemma share_fork: "fork_inv share_kern 0x1003 2 6 [0..<PGNUM UTOP]"
proof -
  have top: "PGNUM UTOP = UPAGENUM" by (simp add: PGNUM_nat unat_UTOP UPAGENUM_def)
  have f: "forking share_kern 0x1003 2 6" using share_envs(2) [of True] share_simps(1,3,4)
    by (auto simp: forking_def) (simp add: share_kern_def zero_kern_def)
  have pag: "paging share_kern 2 = {2, 7}" "paging share_kern 6 = {6}" by (auto simp: paging_def share_table)
  have dir: "copied share_kern 2 v \<Longrightarrow> v div 1024 = 0" for v
    by (rule ccontr) (simp add: copied_def share_kern_def zero_kern_def)
  have "needed share_kern 2 6 [0..<PGNUM UTOP] \<subseteq> {0}" using dir by (auto simp: needed_def)
  then have "card (needed share_kern 2 6 [0..<PGNUM UTOP]) \<le> card {0::nat}" by (intro card_mono) auto
  then have need: "card (needed share_kern 2 6 [0..<PGNUM UTOP]) \<le> length (free_pages share_kern)" by (simp add: share_alloc)
  have "unat (pp_ref share_kern p) + card {u \<in> set [0..<PGNUM UTOP]. mapped share_kern 2 u = Some p} < 0xFFFF" for p
  proof -
    have "{u \<in> set [0..<PGNUM UTOP]. mapped share_kern 2 u = Some p} \<subseteq> {4, 5}"
      unfolding top by (auto simp: share_mapped split: if_splits)
    then have "card {u \<in> set [0..<PGNUM UTOP]. mapped share_kern 2 u = Some p} \<le> card {4, 5 :: nat}" by (intro card_mono) auto
    moreover have "unat (pp_ref share_kern p) \<le> 1" by simp
    ultimately show ?thesis by simp
  qed
  then show ?thesis unfolding fork_inv_def
    using f share_spaces pag need by (auto simp: separate_def share_mapped top split: if_splits)
qed

theorem fork_shares_copy_on_write_witness:
  "\<exists>k'. fork_pages SCHED_PRIORITIES 0x1003 [0..<PGNUM UTOP] share_kern = Some k' \<and> mapped k' 6 5 = Some 9
    \<and> entry k' 6 5 AND PTE_W = 0 \<and> entry k' 2 5 AND PTE_W = 0"
proof -
  have "copied share_kern 2 5"
    by (simp add: copied_def share_entry UPAGENUM_def layout PGNUM_nat pte_bits) (simp add: share_kern_def zero_kern_def)
  moreover have "mapped share_kern 2 5 = Some 9" "5 < UPAGENUM" by (simp_all add: share_mapped UPAGENUM_def)
  ultimately show ?thesis using fork_shares_copy_on_write [OF share_fork, of SCHED_PRIORITIES] by auto
qed

end
