(* ===== verification/Trap_Props.thy ===== *)
theory Trap_Props
  imports Syscall_Props
begin

text \<open>
  What a trap promises: the tables the processor reads are the ones meant, the kernel stacks of the CPUs are
  apart, and whatever a trap does, the kernel lock is left as it should be when the CPU leaves the
  kernel.
\<close>

section \<open>The kernel lock along a trap\<close>

definition holds :: "'a kern_scheme \<Rightarrow> bool" where
  "holds k \<longleftrightarrow> lock_holder k = Some (cpunum k)"

text \<open>After a step that goes on in the kernel (\<open>None\<close>), or that leaves it.\<close>

definition after :: "fate option \<Rightarrow> 'a kern_scheme \<Rightarrow> bool" where
  "after f k \<longleftrightarrow> (case f of
     None \<Rightarrow> holds k
   | Some (Runs e) \<Rightarrow> lock_holder k = None \<and> curenv k = Some e \<and> env_status (envs k e) = ENV_RUNNING
       \<and> env_pgdir (envs k e) = Some (cr3 k)
   | Some Halted \<Rightarrow> lock_holder k = None \<and> curenv k = None \<and> cr3 k = kern_pgdir k
   | Some In_monitor \<Rightarrow> holds k)"

lemma after_None [simp]: "after None k = holds k"
  by (simp add: after_def)

named_theorems locked

lemma holds_more: "mem.more k' = mem.more (k :: 'a kern_scheme) \<Longrightarrow> holds k' = holds k"
  using kern_part [of k' k] by (simp add: holds_def)

lemma holds_updates [simp]:
  "holds (set_env i e k) = holds k" "holds (k\<lparr>env_free_list := l\<rparr>) = holds k" "holds (k\<lparr>curenv := c\<rparr>) = holds k"
  "holds (k\<lparr>curenv_pgdir := d\<rparr>) = holds k" "holds (k\<lparr>cr3 := pd\<rparr>) = holds k" "holds (k\<lparr>cons := co\<rparr>) = holds k"
  "holds (k\<lparr>mlfq_scheduler := s\<rparr>) = holds k" "holds (k\<lparr>runs_del_sched := n\<rparr>) = holds k" "holds (k\<lparr>cpu_status := st\<rparr>) = holds k"
  "holds (k\<lparr>frames := fr\<rparr>) = holds k" "holds (k\<lparr>pp_ref := r\<rparr>) = holds k" "holds (set_word k f i w) = holds k"
  "holds (preempt k) = holds k" "holds (count_run i k) = holds k" "holds (add_total k) = holds k"
  by (simp_all add: holds_def set_word_def count_run_def add_total_def Let_def)

lemma page_alloc_holds [locked]: "page_alloc fl k = Some (p, k') \<Longrightarrow> holds k' = holds k"
  by (rule holds_more [OF more_page_alloc])

lemma page_insert_holds [locked]: "page_insert d p va perm k = Some (r, k') \<Longrightarrow> holds k' = holds k"
  by (rule holds_more [OF more_page_insert])

lemma page_remove_holds [locked]: "page_remove d va k = Some k' \<Longrightarrow> holds k' = holds k"
  by (rule holds_more [OF more_page_remove])

lemma page_decref_holds [locked]: "page_decref p k = Some k' \<Longrightarrow> holds k' = holds k"
  by (rule holds_more [OF more_page_decref])

lemma free_pdes_holds [locked]: "free_pdes d is k = Some k' \<Longrightarrow> holds k' = holds k"
  by (rule holds_more [OF more_free_pdes])

lemma more_user_mem_loop: "user_mem_loop d a lo hi perm m = Some (r, m') \<Longrightarrow> mem.more m' = mem.more m"
proof (induction d a lo hi perm m rule: user_mem_loop.induct)
  case (1 d a lo hi perm m)
  show ?case
  proof (cases "a < hi \<and> hi \<le> UTOP")
    case True
    then obtain pte m2 where w: "pgdir_walk d a False m = Some (pte, m2)"
      using "1.prems" by (subst (asm) user_mem_loop.simps) (auto simp: bind_eq_Some_conv)
    show ?thesis
    proof (cases "case pte of None \<Rightarrow> True | Some p \<Rightarrow> pte_at m p AND (perm OR PTE_P) \<noteq> perm OR PTE_P")
      case bad: True
      then show ?thesis using "1.prems" True w by (subst (asm) user_mem_loop.simps) auto
    next
      case ok: False
      have "user_mem_loop d (a + PGSIZE) lo hi perm m = Some (r, m')"
        using "1.prems" True w ok by (subst (asm) user_mem_loop.simps) (simp only: bind.bind_lunit prod.case if_True if_False simp_thms)
      then show ?thesis by (rule "1.IH" [OF True w refl ok])
    qed
  next
    case False
    then show ?thesis using "1.prems" by (subst (asm) user_mem_loop.simps) (simp only: if_False, simp)
  qed
qed

lemma user_mem_check_holds [locked]: "user_mem_check d va len perm k = Some (r, k') \<Longrightarrow> holds k' = holds k"
  by (rule holds_more) (auto simp: user_mem_check_def Let_def dest!: more_user_mem_loop split: if_splits)

lemma more_put_byte: "put_byte d va b m = Some m' \<Longrightarrow> mem.more m' = mem.more m"
  by (auto simp: put_byte_def Let_def split: bind_splits)

lemma more_put_bytes: "put_bytes d va bs m = Some m' \<Longrightarrow> mem.more m' = mem.more m"
  by (induction d va bs m rule: put_bytes.induct) (auto dest!: more_put_byte split: bind_splits)

lemma put_bytes_holds [locked]: "put_bytes d va bs k = Some k' \<Longrightarrow> holds k' = holds k"
  by (rule holds_more [OF more_put_bytes])

lemma print_chars_holds [locked]: "print_chars n p prec k = Some k' \<Longrightarrow> holds k' = holds k"
proof (induction n arbitrary: p prec k)
  case (Suc n)
  then obtain ch where ch: "get_byte (cr3 k) p k = Some ch" by (auto simp: bind_eq_Some_conv)
  let ?k = "k\<lparr>cons := cputchar (scast ch) (cons k)\<rparr>"
  have "k' = k \<or> (\<exists>q. print_chars n (p + 1) q ?k = Some k')"
    using Suc.prems ch by (auto simp: Let_def split: if_splits)
  then show ?case using Suc.IH [of "p + 1" _ ?k] by (elim disjE exE) simp_all
qed simp

lemma env_run_after [locked]: "holds k \<Longrightarrow> env_run e k = Some (f, k') \<Longrightarrow> after (Some f) k'"
  by (auto simp: env_run_def env_load_pgdir_def unlock_kernel_def Let_def after_def split: bind_splits if_splits)

lemma sched_halt_after [locked]: "holds k \<Longrightarrow> sched_halt k = Some (f, k') \<Longrightarrow> after (Some f) k'"
  by (auto simp: sched_halt_def unlock_kernel_def Let_def after_def split: bind_splits if_splits)

lemma agregar_holds [locked]: "sched_agregar_env e v k = Some k' \<Longrightarrow> holds k' = holds k"
  by (auto simp: sched_agregar_env_def Let_def split: bind_splits)

lemma eliminar_holds [locked]: "sched_eliminar_env e k = Some k' \<Longrightarrow> holds k' = holds k"
  by (auto simp: sched_eliminar_env_def Let_def split: bind_splits option.splits)

lemma promover_desde_holds [locked]: "promover_desde n q i k = Some k' \<Longrightarrow> holds k' = holds k"
  by (induction n q i k rule: promover_desde.induct) (auto simp: Let_def dest: agregar_holds split: if_splits bind_splits)

lemma promocion_holds [locked]: "promocion_periodica k = Some k' \<Longrightarrow> holds k' = holds k"
  by (auto simp: promocion_periodica_def promover_colas_def promover_cola_def vaciar_colas_def Let_def
      dest!: promover_desde_holds split: if_splits bind_splits)

lemma round_robin_after [locked]: "holds k \<Longrightarrow> round_robin k = Some (f, k') \<Longrightarrow> after f k'"
  by (auto simp: round_robin_def Let_def dest!: env_run_after [rotated] split: if_splits bind_splits option.splits)

lemma prioridad_after [locked]: "holds k \<Longrightarrow> prioridad_MLFQ k = Some (f, k') \<Longrightarrow> after f k'"
  by (auto simp: prioridad_MLFQ_def Let_def dest!: agregar_holds env_run_after [rotated] sched_halt_after [rotated]
      split: if_splits bind_splits option.splits)

lemma sched_yield_after [locked]: "holds k \<Longrightarrow> sched_yield pol k = Some (f, k') \<Longrightarrow> after (Some f) k'"
  by (cases pol) (auto simp: sched_yield_def Let_def dest!: round_robin_after [rotated] prioridad_after [rotated] promocion_holds
      sched_halt_after [rotated] split: bind_splits option.splits)

section \<open>Environments and system calls\<close>

lemma env_free_holds [locked]: "env_free e k = Some k' \<Longrightarrow> holds k' = holds k"
  unfolding env_free_def Let_def
  by (auto dest!: free_pdes_holds page_decref_holds split: bind_splits if_splits)

lemma env_destroy_after [locked]: "holds k \<Longrightarrow> env_destroy pol e k = Some (f, k') \<Longrightarrow> after f k'"
  by (auto simp: env_destroy_def Let_def dest!: env_free_holds sched_yield_after [rotated] split: if_splits bind_splits)

lemma user_mem_assert_after [locked]: "holds k \<Longrightarrow> user_mem_assert pol e va len perm k = Some (f, k') \<Longrightarrow> after f k'"
  by (auto simp: user_mem_assert_def dest!: user_mem_check_holds env_destroy_after [rotated] split: if_splits bind_splits)

lemma env_setup_vm_holds [locked]: "env_setup_vm e k = Some (r, k') \<Longrightarrow> holds k' = holds k"
  by (auto simp: env_setup_vm_def Let_def dest!: page_alloc_holds split: bind_splits option.splits)

lemma env_alloc_holds [locked]: "env_alloc parent k = Some (r, e, k') \<Longrightarrow> holds k' = holds k"
  by (auto simp: env_alloc_def Let_def dest!: env_setup_vm_holds agregar_holds split: bind_splits option.splits if_splits)

lemma env_page_alloc_holds [locked]: "env_page_alloc e va perm k = Some (r, k') \<Longrightarrow> holds k' = holds k"
  by (auto simp: env_page_alloc_def Let_def dest!: page_alloc_holds page_insert_holds split: bind_splits option.splits if_splits)

lemma env_page_map_holds [locked]: "env_page_map s sva d dva perm k = Some (r, k') \<Longrightarrow> holds k' = holds k"
  by (auto simp: env_page_map_def Let_def dest!: page_insert_holds split: bind_splits option.splits if_splits)

text \<open>After a call: it returns to the program, or something else runs.\<close>

definition after_call :: "int + fate \<Rightarrow> 'a kern_scheme \<Rightarrow> bool" where
  "after_call r k = (case r of Inl _ \<Rightarrow> holds k | Inr f \<Rightarrow> after (Some f) k)"

lemma after_call_simps [simp]: "after_call (Inl n) k = holds k" "after_call (Inr f) k = after (Some f) k"
  by (simp_all add: after_call_def)

named_theorems calls

lemma sys_cputs_after [calls]: "holds k \<Longrightarrow> sys_cputs pol s len k = Some (r, k') \<Longrightarrow> after_call r k'"
  by (auto simp: sys_cputs_def dest!: user_mem_assert_after [rotated] print_chars_holds split: bind_splits option.splits)

lemma sys_cgetc_after [calls]: "holds k \<Longrightarrow> sys_cgetc k = Some (r, k') \<Longrightarrow> after_call r k'"
  by (auto simp: sys_cgetc_def split: prod.splits)

lemma sys_getenvid_after [calls]: "holds k \<Longrightarrow> sys_getenvid k = Some (r, k') \<Longrightarrow> after_call r k'"
  by (auto simp: sys_getenvid_def split: bind_splits)

lemma sys_env_destroy_after [calls]: "holds k \<Longrightarrow> sys_env_destroy pol e k = Some (r, k') \<Longrightarrow> after_call r k'"
  by (auto simp: sys_env_destroy_def dest!: env_destroy_after [rotated] split: bind_splits if_splits option.splits)

lemma sys_yield_after [calls]: "holds k \<Longrightarrow> sys_yield pol k = Some (r, k') \<Longrightarrow> after_call r k'"
  by (auto simp: sys_yield_def dest!: sched_yield_after [rotated] split: bind_splits)

lemma sys_exofork_after [calls]: "holds k \<Longrightarrow> sys_exofork k = Some (r, k') \<Longrightarrow> after_call r k'"
  by (auto simp: sys_exofork_def Let_def dest!: env_alloc_holds split: bind_splits if_splits)

lemma sys_env_set_status_after [calls]: "holds k \<Longrightarrow> sys_env_set_status e s k = Some (r, k') \<Longrightarrow> after_call r k'"
  by (auto simp: sys_env_set_status_def Let_def split: bind_splits if_splits)

lemma sys_env_set_pgfault_upcall_after [calls]:
  "holds k \<Longrightarrow> sys_env_set_pgfault_upcall pol e f k = Some (r, k') \<Longrightarrow> after_call r k'"
  by (auto simp: sys_env_set_pgfault_upcall_def Let_def dest!: user_mem_assert_after [rotated]
      split: bind_splits if_splits option.splits)

lemma sys_page_alloc_after [calls]: "holds k \<Longrightarrow> sys_page_alloc e va perm k = Some (r, k') \<Longrightarrow> after_call r k'"
  by (auto simp: sys_page_alloc_def dest!: env_page_alloc_holds split: bind_splits if_splits)

lemma sys_page_map_after [calls]: "holds k \<Longrightarrow> sys_page_map s sva d dva perm k = Some (r, k') \<Longrightarrow> after_call r k'"
  by (auto simp: sys_page_map_def dest!: env_page_map_holds split: bind_splits if_splits)

lemma sys_page_unmap_after [calls]: "holds k \<Longrightarrow> sys_page_unmap e va k = Some (r, k') \<Longrightarrow> after_call r k'"
  by (auto simp: sys_page_unmap_def dest!: page_remove_holds split: bind_splits if_splits)

lemma ipc_deliver_holds [simp]: "holds (ipc_deliver c dst v k) = holds k"
  by (simp add: ipc_deliver_def Let_def)

text \<open>The same for all results of a handler, by its structure.\<close>

definition always :: "'a kern_scheme outcome \<Rightarrow> bool" where
  "always x \<longleftrightarrow> (\<forall>r k'. x = Some (r, k') \<longrightarrow> after_call r k')"

lemma always_bind: "(\<And>x. m = Some x \<Longrightarrow> always (f x)) \<Longrightarrow> always (Option.bind m f)"
  by (cases m) (simp_all add: always_def)

lemma always_ret: "holds k \<Longrightarrow> always (ret n k)"
  by (simp add: always_def)

lemma always_if: "(b \<Longrightarrow> always x) \<Longrightarrow> (\<not> b \<Longrightarrow> always y) \<Longrightarrow> always (if b then x else y)"
  by simp

lemma always_pair: "(\<And>a b. p = (a, b) \<Longrightarrow> always (f a b)) \<Longrightarrow> always (case p of (a, b) \<Rightarrow> f a b)"
  by (cases p) simp

lemma sys_ipc_try_send_after [calls]:
  assumes "holds k" and "sys_ipc_try_send e v srcva perm k = Some (r, k')"
  shows "after_call r k'"
proof -
  have alloc: "env_page_alloc d va p k = Some x \<Longrightarrow> x = (n, k') \<Longrightarrow> holds k \<Longrightarrow> holds k'" for d va p x n and k k' :: "'a kern_scheme"
    using env_page_alloc_holds by blast
  have map: "env_page_map s sva d va p k = Some x \<Longrightarrow> x = (n, k') \<Longrightarrow> holds k \<Longrightarrow> holds k'"
    for s sva d va p x n and k k' :: "'a kern_scheme"
    using env_page_map_holds by blast
  have "always (sys_ipc_try_send e v srcva perm k)"
    unfolding sys_ipc_try_send_def Let_def
    apply (intro always_bind always_pair always_if always_ret)
    apply (unfold ipc_deliver_holds holds_updates)
    apply (rule assms(1) | (rule alloc, assumption, assumption) | (rule map, assumption, assumption))+
    done
  then show ?thesis using assms(2) unfolding always_def by blast
qed

lemma sys_ipc_recv_after [calls]: "holds k \<Longrightarrow> sys_ipc_recv pol dstva k = Some (r, k') \<Longrightarrow> after_call r k'"
  by (auto simp: sys_ipc_recv_def Let_def dest!: sys_yield_after [rotated] split: bind_splits if_splits)

lemma sys_obtener_after [calls]: "holds k \<Longrightarrow> sys_env_obtener_prioridad e k = Some (r, k') \<Longrightarrow> after_call r k'"
  by (auto simp: sys_env_obtener_prioridad_def split: bind_splits if_splits)

lemma sys_asignar_after [calls]: "holds k \<Longrightarrow> sys_env_asignar_prioridad e p k = Some (r, k') \<Longrightarrow> after_call r k'"
  by (auto simp: sys_env_asignar_prioridad_def dest!: eliminar_holds agregar_holds split: bind_splits if_splits)

lemma syscall_after:
  assumes "holds k" and r: "syscall pol no a1 a2 a3 a4 a5 k = Some (r, k')"
  shows "after_call r k'"
proof (cases "decode_syscall no")
  case None
  then show ?thesis using assms by (auto simp: syscall_def)
next
  case (Some n)
  show ?thesis
    using r unfolding syscall_def Some option.case
    by (cases n; simp only: syscallno.case) (erule calls [OF assms(1)])+
qed

section \<open>Traps\<close>

lemma page_fault_handler_after [locked]:
  assumes "holds k" "page_fault_handler pol va tf k = Some (f, k')"
  shows "after f k'"
proof -
  have umode: "tf_cs tf AND 3 \<noteq> 0" using assms(2) by (auto simp: page_fault_handler_def split: if_splits)
  obtain c where c: "curenv k = Some c" using assms(2) umode by (auto simp: page_fault_handler_def bind_eq_Some_conv)
  show ?thesis
  proof (cases "env_pgfault_upcall (envs k c) = 0")
    case True
    then have "env_destroy pol c k = Some (f, k')" using assms(2) umode c by (simp add: page_fault_handler_def)
    then show ?thesis by (rule env_destroy_after [OF assms(1)])
  next
    case False
    then show ?thesis
      using assms umode c unfolding page_fault_handler_def Let_def
      by (auto dest!: user_mem_assert_after [rotated] put_bytes_holds env_run_after [rotated]
          split: bind_splits option.splits if_splits)
  qed
qed

lemma trap_dispatch_after [locked]:
  assumes h: "holds k" and mon: "\<And>k. holds (mon k) = holds k" and r: "trap_dispatch pol mon va own tf k = Some (f, k')"
  shows "after f k'"
  using r h unfolding trap_dispatch_def Let_def
  by (auto simp: mon dest!: page_fault_handler_after [rotated] syscall_after [rotated] sched_yield_after [rotated]
      env_destroy_after [rotated] split: bind_splits if_splits sum.splits option.splits)

lemma trap_end_after: "after f k \<Longrightarrow> trap_end pol f k = Some (g, k') \<Longrightarrow> after (Some g) k'"
  by (auto simp: trap_end_def dest!: env_run_after [rotated] sched_yield_after [rotated] split: option.splits if_splits)

lemma lock_kernel_eq: "lock_kernel k = Some k' \<longleftrightarrow> lock_holder k = None \<and> k' = k\<lparr>lock_holder := Some (cpunum k)\<rparr>"
  by (auto simp: lock_kernel_def)

lemma lock_kernel_holds: "lock_kernel k = Some k' \<Longrightarrow> holds k'"
  by (auto simp: lock_kernel_eq holds_def)


text \<open>The environment in slot 2 of the example asks for its own id.\<close>

definition getenvid_tf :: Trapframe where
  "getenvid_tf = zero_tf\<lparr>tf_trapno := 48, tf_cs := 0x1B, tf_regs := zero_regs\<lparr>reg_eax := 2\<rparr>\<rparr>"


section \<open>Gates and task states\<close>

lemma and_low: "(x :: u32w) AND 0xFF = take_bit 8 x" "x AND 0xFFFF = take_bit 16 x" "x AND 0xF = take_bit 4 x"
  by (simp_all add: take_bit_eq_mask mask_eq_exp_minus_1)

lemma low_high_16: "(x :: u32w) AND 0xFFFF OR push_bit 16 (drop_bit 16 x) = x"
proof (rule bit_word_eqI)
  show "bit (x AND 0xFFFF OR push_bit 16 (drop_bit 16 x)) n = bit x n" if "n < LENGTH(32)" for n
    unfolding and_low using that by (cases "n < 16") (simp_all add: bit_simps)
qed

lemma low_mid_high: "(x :: u32w) AND 0xFFFF OR push_bit 16 (drop_bit 16 x AND 0xFF) OR push_bit 24 (drop_bit 24 x) = x"
proof (rule bit_word_eqI)
  show "bit (x AND 0xFFFF OR push_bit 16 (drop_bit 16 x AND 0xFF) OR push_bit 24 (drop_bit 24 x)) n = bit x n"
    if "n < LENGTH(32)" for n
    unfolding and_low using that by (cases "n < 16"; cases "n < 24") (auto simp: bit_simps)
qed

lemma fold_gates:
  "fold (\<lambda>(v, dpl) idt. idt(v := G v dpl)) gs f v = (case map_of (rev gs) v of None \<Rightarrow> f v | Some d \<Rightarrow> G v d)"
  by (induction gs arbitrary: f) (auto simp: map_add_def split: option.splits prod.splits)

text \<open>The interrupt table that \<open>trap_init\<close> fills has exactly one present gate for each exception of the
  processor from 0 to 19 but the reserved ones 9 and 15, for the clock interrupt (32) and for system calls
  (48), and for no other vector: a keyboard, serial or spurious interrupt finds none. Every present gate
  enters the kernel's code segment at the entry point of its own vector, with interrupts off, and a user
  program may raise only the breakpoint and the system call with an \<open>int\<close> instruction.
\<close>

theorem gates:
  "gd_p (trap_init entries v) = (if v \<in> {0..19} - {9, 15} \<union> {32, 48} then 1 else 0)
    \<and> (gd_p (trap_init entries v) = 0 \<or> gate_offset (trap_init entries v) = entries v
        \<and> gd_sel (trap_init entries v) = GD_KT \<and> gd_type (trap_init entries v) = STS_IG32
        \<and> gd_dpl (trap_init entries v) = (if v = 3 \<or> v = 48 then 3 else 0))"
proof -
  have "{0..19} = set [0..<20]" by auto
  also have "[0..<20] = [0, 1, 2, 3, 4, 5, 6, 7, 8, 9, 10, 11, 12, 13, 14, 15, 16, 17, 18, 19]" by (simp add: upt_rec)
  finally have v: "v \<in> {0..19} \<longleftrightarrow> v \<in> set [0, 1, 2, 3, 4, 5, 6, 7, 8, 9, 10, 11, 12, 13, 14, 15, 16, 17, 18, 19]"
    by simp
  show ?thesis
    unfolding trap_init_def fold_gates Un_iff Diff_iff v
    by (simp add: trap_gates_def SETGATE_def null_gate_def T_BRKPT_def T_PGFLT_def T_SYSCALL_def IRQ_OFFSET_def IRQ_TIMER_def
        gate_offset_def low_high_16) blast
qed

text \<open>\<open>trap_init_percpu\<close> on CPU \<open>i\<close>, whose task state is at address \<open>a i\<close>, one CPU after the other.\<close>

definition percpu_gdt :: "(nat \<Rightarrow> u32w) \<Rightarrow> Taskstate \<Rightarrow> nat list \<Rightarrow> Segdesc list \<Rightarrow> Segdesc list" where
  "percpu_gdt a ts cpus g = fold (\<lambda>i g. fst (snd (trap_init_percpu i (a i) ts g))) cpus g"

lemma tss_desc:
  "fst (snd (trap_init_percpu i b ts g)) = g[5 + i := (SEG16 STS_T32A b (TASKSTATE_SIZE - 1) 0)\<lparr>sd_s := 0\<rparr>]"
  if "5 + i < length g"
  using that by (simp add: trap_init_percpu_def Let_def GD_TSS0_def)

lemma percpu_gdt_nth:
  assumes "\<forall>i \<in> set cpus. 5 + i < length g"
  shows "percpu_gdt a ts cpus g ! (5 + j) = (if j \<in> set cpus then (SEG16 STS_T32A (a j) (TASKSTATE_SIZE - 1) 0)\<lparr>sd_s := 0\<rparr> else g ! (5 + j))"
  using assms
proof (induction cpus arbitrary: g)
  case (Cons c cpus)
  then show ?case by (simp add: percpu_gdt_def tss_desc nth_list_update)
qed (simp add: percpu_gdt_def)

lemma unat_esp0: "i < NCPU \<Longrightarrow> unat (cpu_esp0 i) = 0xF0000000 - i * 0x10000"
proof -
  assume i: "i < NCPU"
  then have "unat (word_of_nat i * (KSTKGAP + KSTKSIZE) :: u32w) = i * 0x10000"
    by (simp add: NCPU_def layout unat_word_ariths unat_of_nat)
  then show ?thesis using i unfolding cpu_esp0_def
    by (subst unat_sub_if_size) (simp add: NCPU_def layout word_le_nat_alt)
qed

text \<open>After \<open>trap_init_percpu\<close> has run on every CPU, in whatever order, the selector each CPU loads names its
  own descriptor of the shared table, and that descriptor is a system segment of the size of a task state
  that starts at the CPU's own task state; the kernel stacks the task states switch to lie between the
  memory-mapped devices and the kernel, are mapped at different addresses, and at least eight pages that
  nothing maps separate each from the next.
\<close>

theorem task_states:
  assumes "i < NCPU" and "set cpus = {..<NCPU}"
  shows "let (ts, _, sel) = trap_init_percpu i (a i) t gdt; d = percpu_gdt a t cpus gdt ! unat (drop_bit 3 sel) in
      seg_base d = a i \<and> seg_limit d = TASKSTATE_SIZE - 1 \<and> sd_s d = 0 \<and> sd_type d = STS_T32A \<and> ts_ss0 ts = GD_KD
      \<and> MMIOLIM \<le> ts_esp0 ts - KSTKSIZE \<and> ts_esp0 ts \<le> KSTACKTOP
      \<and> (\<forall>j < i. unat (ts_esp0 ts) + unat KSTKGAP \<le> unat (cpu_esp0 j - KSTKSIZE))"
proof -
  have sel: "unat (drop_bit 3 (GD_TSS0 + push_bit 3 (word_of_nat i))) = 5 + i"
  proof -
    have "i = 0 \<or> i = 1 \<or> i = 2 \<or> i = 3 \<or> i = 4 \<or> i = 5 \<or> i = 6 \<or> i = 7"
      using assms(1) unfolding NCPU_def by presburger
    then show ?thesis by (elim disjE) (simp_all add: GD_TSS0_def)
  qed
  have d: "percpu_gdt a t cpus gdt ! (5 + i) = (SEG16 STS_T32A (a i) (TASKSTATE_SIZE - 1) 0)\<lparr>sd_s := 0\<rparr>"
    using assms by (subst percpu_gdt_nth) (auto simp: gdt_def NCPU_def)
  have e: "unat (cpu_esp0 j) = 0xF0000000 - j * 0x10000" if "j \<le> i" for j using assms(1) that by (intro unat_esp0) simp
  have k: "unat (cpu_esp0 j - KSTKSIZE) = 0xF0000000 - j * 0x10000 - 0x8000" if "j \<le> i" for j
    using e [OF that] assms(1) that by (subst unat_sub_if_size) (simp add: layout NCPU_def)
  have "unat (cpu_esp0 i) + unat KSTKGAP \<le> unat (cpu_esp0 j - KSTKSIZE)" if "j < i" for j
    unfolding k [OF less_imp_le [OF that]] e [OF order_refl] using that assms(1) by (simp add: NCPU_def layout)
  moreover have "MMIOLIM \<le> cpu_esp0 i - KSTKSIZE" "cpu_esp0 i \<le> KSTACKTOP"
    unfolding word_le_nat_alt k [OF order_refl] e [OF order_refl] using assms(1) by (simp_all add: NCPU_def layout)
  moreover have "snd (snd (trap_init_percpu i (a i) t gdt)) = GD_TSS0 + push_bit 3 (word_of_nat i)"
    "ts_esp0 (fst (trap_init_percpu i (a i) t gdt)) = cpu_esp0 i" "ts_ss0 (fst (trap_init_percpu i (a i) t gdt)) = GD_KD"
    by (simp_all add: trap_init_percpu_def Let_def)
  ultimately show ?thesis
    by (simp add: Let_def case_prod_beta sel d) (simp add: SEG16_def seg_base_def seg_limit_def low_mid_high [simplified] STS_T32A_def TASKSTATE_SIZE_def)
qed

theorem task_states_witness:
  "\<forall>t. let (ts, _, sel) = trap_init_percpu 2 0xF04010E8 t gdt; d = percpu_gdt (\<lambda>i. 0xF0401000 + 116 * of_nat i) t [0..<8] gdt ! unat (drop_bit 3 sel) in
     seg_base d = 0xF04010E8 \<and> ts_esp0 ts = 0xEFFE0000"
proof
  fix t
  have "set [0..<8] = {..<NCPU}" by (auto simp: NCPU_def)
  from task_states [of 2, OF _ this, where a = "\<lambda>i. 0xF0401000 + 116 * of_nat i" and t = t]
  show "let (ts, _, sel) = trap_init_percpu 2 0xF04010E8 t gdt; d = percpu_gdt (\<lambda>i. 0xF0401000 + 116 * of_nat i) t [0..<8] gdt ! unat (drop_bit 3 sel) in
     seg_base d = 0xF04010E8 \<and> ts_esp0 ts = 0xEFFE0000"
    by (simp add: Let_def case_prod_beta NCPU_def) (simp add: trap_init_percpu_def Let_def cpu_esp0_def layout)
qed

end
