(* ===== verification/Sh_Parse.thy ===== *)
theory Sh_Parse
  imports Prelude
begin

text \<open>
  The shell: reading a line and parsing it (\<open>readline.c\<close>, \<open>utils.c\<close>, \<open>createcmd.c\<close>, \<open>parsing.c\<close>,
  \<open>freecmd.c\<close>, \<open>types.h\<close>). The line lives in one buffer of \<open>BUFLEN\<close> bytes that the parser cuts in place,
  so a \<open>char *\<close> into it is an index. Tokens are buffers of their own, and the model has their string
  values. An access outside a buffer or through a null pointer is undefined behaviour, the value \<open>None\<close>.
\<close>

section \<open>The types of commands\<close>

definition BUFLEN :: nat where "BUFLEN = 1024"
definition MAXARGS :: nat where "MAXARGS = 20"
definition ARGSIZE :: nat where "ARGSIZE = 1024"

definition SPACE :: char where "SPACE = CHR 0x20"

datatype cmd_type = EXEC | BACK | REDIR | PIPE

record execcmd =
  ec_type :: cmd_type
  ec_pid :: int
  ec_scmd :: string
  ec_argv :: "string list"
  ec_eargv :: "string list"
  ec_out :: string
  ec_in :: string
  ec_err :: string

text \<open>The structs that \<open>struct cmd\<close> stands for; the left command of a pipe may be a null pointer. \<open>argc\<close> and
  \<open>eargc\<close> are the lengths of the lists.\<close>

datatype cmd = Execcmd execcmd | Backcmd int string cmd | Pipecmd int "cmd option" cmd

fun type_of_cmd :: "cmd \<Rightarrow> cmd_type" where
  "type_of_cmd (Execcmd e) = ec_type e"
| "type_of_cmd (Backcmd pid s c) = BACK"
| "type_of_cmd (Pipecmd pid l r) = PIPE"

fun cmd_scmd :: "cmd \<Rightarrow> string" where
  "cmd_scmd (Execcmd e) = ec_scmd e"
| "cmd_scmd (Backcmd pid s c) = s"
| "cmd_scmd (Pipecmd pid l r) = ''''"

definition exec_cmd_create :: "string \<Rightarrow> execcmd" where
  "exec_cmd_create buf_cmd = \<lparr>ec_type = EXEC, ec_pid = 0, ec_scmd = buf_cmd, ec_argv = [], ec_eargv = [],
     ec_out = '''', ec_in = '''', ec_err = ''''\<rparr>"

definition back_cmd_create :: "execcmd \<Rightarrow> cmd" where
  "back_cmd_create c = Backcmd 0 (ec_scmd c) (Execcmd c)"

definition pipe_cmd_create :: "cmd option \<Rightarrow> cmd option \<Rightarrow> cmd option" where
  "pipe_cmd_create left right = (case right of None \<Rightarrow> left | Some r \<Rightarrow> Some (Pipecmd 0 left r))"

section \<open>Buffers\<close>

text \<open>A loop that advances an index up to the first character of some kind.\<close>

definition skip_until :: "(char \<Rightarrow> bool) \<Rightarrow> string \<Rightarrow> nat \<Rightarrow> nat option" where
  "skip_until p buf i = (let j = first_from (\<lambda>j. p (buf ! j)) i (length buf) in
     if j < length buf then Some j else None)"

lemma skip_until_bounds: "skip_until q buf i = Some j \<Longrightarrow> i \<le> length buf \<Longrightarrow> i \<le> j \<and> j < length buf \<and> q (buf ! j)"
  using first_from_props [of i "length buf" "\<lambda>j. q (buf ! j)"]
  by (auto simp: skip_until_def Let_def split: if_splits)

text \<open>The string a pointer points to.\<close>

definition str_at :: "string \<Rightarrow> nat \<Rightarrow> string option" where
  "str_at buf p = (if p < length buf \<and> terminated (drop p buf) then Some (cstr (drop p buf)) else None)"

definition split_line :: "string \<Rightarrow> nat \<Rightarrow> char \<Rightarrow> (string \<times> nat) option" where
  "split_line buf p splitter = do {
     i \<leftarrow> skip_until (\<lambda>c. c = splitter \<or> c = NUL) buf p;
     buf \<leftarrow> poke buf i NUL;
     j \<leftarrow> skip_until (\<lambda>c. c \<noteq> SPACE) buf (i + 1);
     Some (buf, j)
   }"

definition block_contains :: "string \<Rightarrow> char \<Rightarrow> int" where
  "block_contains buf c = (case strchr_c buf c of None \<Rightarrow> -1 | Some i \<Rightarrow> int i)"

section \<open>Reading a line\<close>

text \<open>
  \<open>read_line\<close> on the characters still to come on the standard input: the buffer and the rest of the input,
  or \<open>None\<close> in place of the buffer at the end of the input. \<open>getchar\<close> keeps reporting the end.
\<close>

fun read_chars_from :: "string \<Rightarrow> nat \<Rightarrow> string \<Rightarrow> (string option \<times> string) option" where
  "read_chars_from buffer i [] = Some (None, [])"
| "read_chars_from buffer i (c # input) =
     (if c = NL then do {
        buffer \<leftarrow> poke buffer i NUL;
        Some (Some buffer, input)
      }
      else do {
        buffer \<leftarrow> poke buffer i c;
        read_chars_from buffer (i + 1) input
      })"

definition read_line :: "string \<Rightarrow> (string option \<times> string) option" where
  "read_line input = read_chars_from (replicate BUFLEN NUL) 0 input"

section \<open>Tokens\<close>

definition get_token :: "string \<Rightarrow> nat \<Rightarrow> string option" where
  "get_token buf idx = do {
     j \<leftarrow> skip_until (\<lambda>c. c = SPACE \<or> c = NUL) buf idx;
     let tok = take (j - idx) (drop idx buf);
     if length tok < ARGSIZE then Some tok else None
   }"

text \<open>Whether the token was a redirection, and the command with it noted. The file name of an output
  redirection starts after the \<open>>\<close>.\<close>

definition parse_redir_flow :: "execcmd \<Rightarrow> string \<Rightarrow> bool \<times> execcmd" where
  "parse_redir_flow c arg =
     (let outIdx = block_contains arg (CHR 0x3E) in
      if outIdx \<ge> 0
      then let c = (if outIdx = 0 then c\<lparr>ec_out := drop 1 arg\<rparr>
             else if outIdx = 1
             then if drop (nat (outIdx + 1)) arg = ''&1'' then c\<lparr>ec_err := ec_out c\<rparr>
                  else c\<lparr>ec_err := drop (nat (outIdx + 1)) arg\<rparr>
             else c)
           in (True, c\<lparr>ec_type := REDIR\<rparr>)
      else if block_contains arg (CHR 0x3C) \<ge> 0 then (True, c\<lparr>ec_in := drop 1 arg, ec_type := REDIR\<rparr>)
      else (False, c))"

text \<open>Noting \<open>KEY=VALUE\<close>; the array holds \<open>MAXARGS\<close> of them.\<close>

definition parse_environ_var :: "execcmd \<Rightarrow> string \<Rightarrow> (bool \<times> execcmd) option" where
  "parse_environ_var c arg =
     (if block_contains arg (CHR 0x3D) > 0 \<and> block_contains arg (CHR 0x2D) < 0
      then if length (ec_eargv c) < MAXARGS then Some (True, c\<lparr>ec_eargv := ec_eargv c @ [arg]\<rparr>) else None
      else Some (False, c))"

text \<open>\<open>sprintf\<close> with \<open>%i\<close>.\<close>

fun dec_nat :: "nat \<Rightarrow> string" where
  "dec_nat n = (if n < 10 then [char_of (48 + n)] else dec_nat (n div 10) @ [char_of (48 + n mod 10)])"

declare dec_nat.simps [simp del]

definition dec_int :: "int \<Rightarrow> string" where
  "dec_int i = (if i < 0 then CHR 0x2D # dec_nat (nat (- i)) else dec_nat (nat i))"

definition expand_environ_var :: "int \<Rightarrow> (string \<Rightarrow> string option) \<Rightarrow> string \<Rightarrow> string" where
  "expand_environ_var status getenv arg =
     (if arg = [] \<or> hd arg \<noteq> CHR 0x24 then arg
      else if arg = [CHR 0x24, CHR 0x3F] then dec_int status
      else case getenv (tl arg) of None \<Rightarrow> [] | Some val \<Rightarrow> val)"

section \<open>Commands\<close>

text \<open>The body of the loop of \<open>parse_exec\<close> for a token; the terminating null of \<open>argv\<close> needs an element too.\<close>

definition parse_token :: "int \<Rightarrow> (string \<Rightarrow> string option) \<Rightarrow> execcmd \<Rightarrow> string \<Rightarrow> execcmd option" where
  "parse_token status getenv c tok =
     (let (redir, c) = parse_redir_flow c tok in
      if redir then Some c
      else do {
        (env, c) \<leftarrow> parse_environ_var c tok;
        if env then Some c
        else (let tok = expand_environ_var status getenv tok in
              if tok \<noteq> [] then if length (ec_argv c) < MAXARGS then Some (c\<lparr>ec_argv := ec_argv c @ [tok]\<rparr>) else None
              else Some c)
      })"

lemma get_token_bounds:
  assumes "get_token buf idx = Some tok" and "idx < length buf"
  shows "idx + length tok < length buf"
proof -
  obtain j where j: "skip_until (\<lambda>c. c = SPACE \<or> c = NUL) buf idx = Some j" and tok: "tok = take (j - idx) (drop idx buf)"
    using assms(1) by (auto simp: get_token_def bind_eq_Some_conv split: if_splits)
  have "idx \<le> j" "j < length buf" using skip_until_bounds [OF j] assms(2) by simp_all
  moreover have "length tok \<le> j - idx" unfolding tok by simp
  ultimately show ?thesis by linarith
qed

lemma get_token_empty:
  assumes "get_token buf idx = Some []" and "peek buf idx = Some ch" and "ch \<noteq> NUL"
  shows "ch = SPACE"
proof -
  have idx: "idx < length buf" "ch = buf ! idx" using assms(2) by (auto simp: peek_eq_Some_iff)
  obtain j where j: "skip_until (\<lambda>c. c = SPACE \<or> c = NUL) buf idx = Some j" and "take (j - idx) (drop idx buf) = []"
    using assms(1) by (auto simp: get_token_def bind_eq_Some_conv split: if_splits)
  with idx have "j \<le> idx" by simp
  with skip_until_bounds [OF j] idx(1) have "j = idx" "buf ! j = SPACE \<or> buf ! j = NUL" by simp_all
  then show ?thesis using idx(2) assms(3) by blast
qed

function parse_exec_loop :: "int \<Rightarrow> (string \<Rightarrow> string option) \<Rightarrow> string \<Rightarrow> nat \<Rightarrow> execcmd \<Rightarrow> execcmd option" where
  "parse_exec_loop status getenv buf idx c =
     (case peek buf idx of
        None \<Rightarrow> None
      | Some ch \<Rightarrow>
          if ch = NUL then Some c
          else case get_token buf idx of
              None \<Rightarrow> None
            | Some tok \<Rightarrow> do {
                let idx' = idx + length tok;
                ch \<leftarrow> peek buf idx';
                c \<leftarrow> parse_token status getenv c tok;
                parse_exec_loop status getenv buf (if ch \<noteq> NUL then idx' + 1 else idx') c
              })"
  by pat_completeness auto

termination
proof (relation "measure (\<lambda>(status, getenv, buf, idx, c). length buf - idx)", goal_cases)
  case (2 status getenv buf idx c ch tok x ch' c')
  then have "idx < length buf" by (simp add: peek_eq_Some_iff)
  moreover have "x = idx + length tok" "peek buf x = Some ch'" using 2 by auto
  moreover have "tok = [] \<Longrightarrow> ch' \<noteq> NUL" using 2 by (auto simp: peek_eq_Some_iff)
  ultimately show ?case by (cases tok) (auto simp: peek_eq_Some_iff)
qed simp

declare parse_exec_loop.simps [simp del]

definition parse_exec :: "int \<Rightarrow> (string \<Rightarrow> string option) \<Rightarrow> string \<Rightarrow> nat \<Rightarrow> execcmd option" where
  "parse_exec status getenv buf p = do {
     s \<leftarrow> str_at buf p;
     c \<leftarrow> parse_exec_loop status getenv buf p (exec_cmd_create s);
     if length (ec_argv c) < MAXARGS then Some c else None
   }"

definition parse_back :: "int \<Rightarrow> (string \<Rightarrow> string option) \<Rightarrow> string \<Rightarrow> nat \<Rightarrow> (string \<times> cmd) option" where
  "parse_back status getenv buf p = do {
     i \<leftarrow> skip_until (\<lambda>c. c = CHR 0x26) buf p;
     buf \<leftarrow> poke buf i NUL;
     e \<leftarrow> parse_exec status getenv buf p;
     Some (buf, back_cmd_create e)
   }"

text \<open>An ampersand at the start of the line makes the code look at the byte before the buffer.\<close>

definition parse_cmd :: "int \<Rightarrow> (string \<Rightarrow> string option) \<Rightarrow> string \<Rightarrow> nat \<Rightarrow> (string \<times> cmd option) option" where
  "parse_cmd status getenv buf p = do {
     s \<leftarrow> str_at buf p;
     if s = [] then Some (buf, None)
     else do {
       let idx = block_contains s (CHR 0x26);
       back \<leftarrow> (if idx \<ge> 0
                then if p + nat idx = 0 then None
                     else do { before \<leftarrow> peek buf (p + nat idx - 1); Some (before \<noteq> CHR 0x3E) }
                else Some False);
       if back then do { (buf, c) \<leftarrow> parse_back status getenv buf p; Some (buf, Some c) }
       else do { c \<leftarrow> parse_exec status getenv buf p; Some (buf, Some (Execcmd c)) }
     }
   }"

lemma parse_cmd_length: "parse_cmd status getenv buf p = Some (buf', c) \<Longrightarrow> length buf' = length buf"
  by (auto simp: parse_cmd_def parse_back_def poke_eq_Some_iff Let_def split: bind_splits if_splits)

function parse_line :: "int \<Rightarrow> (string \<Rightarrow> string option) \<Rightarrow> string \<Rightarrow> nat \<Rightarrow> (string \<times> cmd option) option" where
  "parse_line status getenv buf p =
     (if \<not> p < length buf then None
      else do {
       (buf1, q) \<leftarrow> split_line buf p (CHR 0x7C);
       (buf2, l) \<leftarrow> parse_cmd status getenv buf1 p;
       s \<leftarrow> str_at buf2 q;
       (buf3, r) \<leftarrow> (if block_contains s (CHR 0x7C) > 0 then parse_line status getenv buf2 q
                     else parse_cmd status getenv buf2 q);
       Some (buf3, pipe_cmd_create l r)
     })"
  by pat_completeness auto

termination
proof (relation "measure (\<lambda>(status, getenv, buf, p). length buf - p)", goal_cases)
  case (2 status getenv buf p x buf1 q y buf2 l s)
  have s: "split_line buf p (CHR 0x7C) = Some (buf1, q)" using 2 by simp
  have len: "length buf2 = length buf1" using 2 parse_cmd_length [of status getenv buf1 p buf2 l] by simp
  obtain i where i: "skip_until (\<lambda>c. c = CHR 0x7C \<or> c = NUL) buf p = Some i" "poke buf i NUL = Some buf1"
    "skip_until (\<lambda>c. c \<noteq> SPACE) buf1 (i + 1) = Some q"
    using s by (auto simp: split_line_def bind_eq_Some_conv)
  have b1: "length buf1 = length buf" using i(2) by (auto simp: poke_eq_Some_iff)
  have "p \<le> i \<and> i < length buf" using skip_until_bounds [OF i(1)] 2(1) by auto
  moreover have "i + 1 \<le> q \<and> q < length buf" using skip_until_bounds [OF i(3)] b1 calculation by auto
  ultimately show ?case using len b1 by auto
qed simp

declare parse_line.simps [simp del]

section \<open>Freeing\<close>

text \<open>
  \<open>free_command\<close>: the tokens it frees, each once, in its order; through a null pointer it is undefined.
\<close>

fun free_command :: "cmd option \<Rightarrow> string list option" where
  "free_command None = None"
| "free_command (Some (Execcmd e)) = Some (ec_argv e @ ec_eargv e)"
| "free_command (Some (Backcmd pid s c)) = free_command (Some c)"
| "free_command (Some (Pipecmd pid l r)) = do {
     a \<leftarrow> free_command l;
     b \<leftarrow> free_command (Some r);
     Some (a @ b)
   }"

end
