(* ===== verification/Sh_Spec.thy ===== *)
theory Sh_Spec
  imports Sh_Parse
begin

text \<open>
  What the parser of the shell computes, stated on strings without the buffer, and the proof that the code,
  which walks and cuts the buffer, computes it.
\<close>

section \<open>The loops of the buffer\<close>

lemma skip_until_append:
  assumes "\<forall>c\<in>set s. \<not> q c" and "q x" and "i = length pre"
  shows "skip_until q (pre @ s @ x # rest) i = Some (i + length s)"
proof -
  let ?b = "pre @ s @ x # rest" and ?k = "i + length s"
  let ?f = "first_from (\<lambda>j. q (?b ! j)) i (length ?b)"
  have f: "i \<le> ?f" "?f \<le> length ?b" "?f < length ?b \<longrightarrow> q (?b ! ?f)" "\<And>j. i \<le> j \<Longrightarrow> j < ?f \<Longrightarrow> \<not> q (?b ! j)"
    using first_from_props [of i "length ?b" "\<lambda>j. q (?b ! j)"] assms(3) by simp_all
  have k: "?b ! ?k = x" using assms(3) by (simp add: nth_append)
  have low: "\<not> q (?b ! j)" if "i \<le> j" "j < ?k" for j
    using that assms(1,3) by (simp add: nth_append)
  have "\<not> ?k < ?f" using f(4) [of ?k] k assms(2) by auto
  moreover have "\<not> ?f < ?k" using low [of ?f] f(1,3) assms(3) by auto
  ultimately have "?f = ?k" by linarith
  then show ?thesis using assms(3) by (simp add: skip_until_def)
qed

lemma str_at_append: "nul_free s \<Longrightarrow> p = length pre \<Longrightarrow> str_at (pre @ s @ NUL # rest) p = Some s"
  by (simp add: str_at_def cstr_simps terminated_def)

lemma get_token_append:
  assumes "\<forall>c\<in>set s. c \<noteq> SPACE \<and> c \<noteq> NUL" and "x = SPACE \<or> x = NUL" and "length s < ARGSIZE" and "i = length pre"
  shows "get_token (pre @ s @ x # rest) i = Some s"
  using skip_until_append [of s "\<lambda>c. c = SPACE \<or> c = NUL" x i pre rest] assms by (simp add: get_token_def)

section \<open>Words\<close>

text \<open>The words of a command: what lies between single spaces, so two spaces have an empty word between them.\<close>

function words :: "string \<Rightarrow> string list" where
  "words s = (if s = [] then [] else takeWhile (\<lambda>c. c \<noteq> SPACE) s # words (drop 1 (dropWhile (\<lambda>c. c \<noteq> SPACE) s)))"
  by pat_completeness auto
termination
proof (relation "measure length", goal_cases)
  case (2 s)
  then show ?case by (cases s) (auto simp: less_Suc_eq_le intro: le_trans [OF diff_le_self] length_dropWhile_le)
qed simp

declare words.simps [simp del]

lemma while_not [simp]:
  "x \<notin> set w \<Longrightarrow> takeWhile (\<lambda>c. c \<noteq> x) w = w" "x \<notin> set w \<Longrightarrow> dropWhile (\<lambda>c. c \<noteq> x) w = []"
  "x \<notin> set w \<Longrightarrow> takeWhile (\<lambda>c. c \<noteq> x) (w @ x # s) = w" "x \<notin> set w \<Longrightarrow> dropWhile (\<lambda>c. c \<noteq> x) (w @ x # s) = x # s"
  by (induction w) auto

lemma words_Nil [simp]: "words [] = []"
  by (subst words.simps) simp

lemma words_word: "w \<noteq> [] \<Longrightarrow> SPACE \<notin> set w \<Longrightarrow> words w = [w]"
  by (subst words.simps) simp

lemma words_space: "SPACE \<notin> set w \<Longrightarrow> words (w @ SPACE # s) = w # words s"
  by (subst words.simps) simp

fun parse_tokens :: "int \<Rightarrow> (string \<Rightarrow> string option) \<Rightarrow> execcmd \<Rightarrow> string list \<Rightarrow> execcmd option" where
  "parse_tokens status getenv c [] = Some c"
| "parse_tokens status getenv c (t # ts) = Option.bind (parse_token status getenv c t) (\<lambda>c. parse_tokens status getenv c ts)"

lemma exec_loop_words:
  assumes "nul_free s" and "length s < ARGSIZE" and "i = length pre"
  shows "parse_exec_loop status getenv (pre @ s @ NUL # rest) i c = parse_tokens status getenv c (words s)"
  using assms
proof (induction s arbitrary: pre i c rule: words.induct)
  case (1 s)
  let ?w = "takeWhile (\<lambda>c. c \<noteq> SPACE) s" and ?r = "dropWhile (\<lambda>c. c \<noteq> SPACE) s"
  let ?b = "pre @ s @ NUL # rest"
  show ?case
  proof (cases "s = []")
    case True
    then show ?thesis using 1(4) by (subst parse_exec_loop.simps, subst words.simps) (simp add: peek_def)
  next
    case False
    have s: "s = ?w @ ?r" by simp
    have w: "\<forall>c\<in>set ?w. c \<noteq> SPACE \<and> c \<noteq> NUL"
      using 1(2) by (auto simp: nul_free_def dest: set_takeWhileD)
    have len: "length ?w < ARGSIZE" using 1(3) length_takeWhile_le [of "\<lambda>c. c \<noteq> SPACE" s] by simp
    have p: "peek ?b i = Some (hd s)" "hd s \<noteq> NUL"
      using False 1(2,4) by (cases s; auto simp: peek_def nul_free_def)+
    have ws: "words s = ?w # words (drop 1 ?r)" using False by (subst words.simps) simp
    show ?thesis
    proof (cases ?r)
      case Nil
      have "get_token ?b i = Some ?w" using get_token_append [OF w _ len 1(4), of NUL rest] s Nil by simp
      moreover have "peek ?b (i + length ?w) = Some NUL" using s Nil 1(4) by (metis append.right_neutral length_append nth_append_length peek_def append.assoc length_append_singleton less_add_Suc1 add_Suc_right length_Cons add_less_cancel_left zero_less_Suc)
      moreover have "parse_exec_loop status getenv ?b (i + length ?w) = Some"
        using calculation(2) by (intro ext, subst parse_exec_loop.simps) simp
      ultimately show ?thesis
        unfolding ws Nil by (subst parse_exec_loop.simps) (simp add: p)
    next
      case (Cons x r)
      have x: "x = SPACE" using Cons by (simp add: dropWhile_eq_Cons_conv)
      have b: "?b = pre @ ?w @ SPACE # r @ NUL # rest" using s Cons x by simp
      have "get_token ?b i = Some ?w" unfolding b by (rule get_token_append [OF w _ len 1(4)]) simp
      moreover have "peek ?b (i + length ?w) = Some SPACE" unfolding b using 1(4) by (simp add: peek_def nth_append)
      moreover have "parse_exec_loop status getenv ?b (i + length ?w + 1) = (\<lambda>c'. parse_tokens status getenv c' (words r))"
      proof
        fix c'
        have "length r < ARGSIZE" using 1(3) s Cons by (metis length_append length_Cons add_lessD1 add.commute Suc_lessD add_Suc_right)
        moreover have "nul_free r" using 1(2) s Cons by (metis nul_free_simps(2,3))
        ultimately show "parse_exec_loop status getenv ?b (i + length ?w + 1) c' = parse_tokens status getenv c' (words r)"
          using 1(1) [OF False, of "i + length ?w + 1" "pre @ ?w @ [SPACE]" c'] 1(4) Cons unfolding b by simp
      qed
      moreover have "SPACE \<noteq> NUL" by (simp add: SPACE_def NUL_def)
      ultimately show ?thesis
        unfolding ws Cons by (subst parse_exec_loop.simps) (simp add: p cong: option.case_cong)
    qed
  qed
qed

definition spec_exec :: "int \<Rightarrow> (string \<Rightarrow> string option) \<Rightarrow> string \<Rightarrow> execcmd option" where
  "spec_exec status getenv s = do {
     c \<leftarrow> parse_tokens status getenv (exec_cmd_create s) (words s);
     if length (ec_argv c) < MAXARGS then Some c else None
   }"

lemma parse_exec_append:
  assumes "nul_free s" and "length s < ARGSIZE" and "p = length pre"
  shows "parse_exec status getenv (pre @ s @ NUL # rest) p = spec_exec status getenv s"
  using assms by (simp add: parse_exec_def spec_exec_def str_at_append exec_loop_words)

section \<open>Commands and lines\<close>

text \<open>
  A command in the background is cut at its first ampersand; that it stands after a \<open>>\<close> makes it part of a
  redirection. \<open>front\<close> is whether the command starts the line.
\<close>

definition spec_cmd :: "int \<Rightarrow> (string \<Rightarrow> string option) \<Rightarrow> bool \<Rightarrow> string \<Rightarrow> cmd option option" where
  "spec_cmd status getenv front s =
     (if s = [] then Some None
      else case strchr_c s (CHR 0x26) of
          None \<Rightarrow> map_option (Some \<circ> Execcmd) (spec_exec status getenv s)
        | Some i \<Rightarrow>
            if i = 0 \<and> front then None
            else if i > 0 \<and> s ! (i - 1) = CHR 0x3E then map_option (Some \<circ> Execcmd) (spec_exec status getenv s)
            else map_option (Some \<circ> back_cmd_create) (spec_exec status getenv (take i s)))"

text \<open>What precedes the first \<open>|\<close> of a line, and what follows it without the spaces in front.\<close>

definition left_part :: "string \<Rightarrow> string" where
  "left_part s = takeWhile (\<lambda>c. c \<noteq> CHR 0x7C) s"

definition right_part :: "string \<Rightarrow> string" where
  "right_part s = dropWhile (\<lambda>c. c = SPACE) (drop 1 (dropWhile (\<lambda>c. c \<noteq> CHR 0x7C) s))"

lemma right_part_length: "s \<noteq> [] \<Longrightarrow> length (right_part s) < length s"
proof (cases s)
  case (Cons x t)
  have "length (drop 1 (dropWhile (\<lambda>c. c \<noteq> CHR 0x7C) s)) \<le> length t"
    using Cons length_dropWhile_le [of "\<lambda>c. c \<noteq> CHR 0x7C" t] by auto
  then show ?thesis unfolding right_part_def Cons
    using length_dropWhile_le [of "\<lambda>c. c = SPACE" "drop 1 (dropWhile (\<lambda>c. c \<noteq> CHR 0x7C) s)"] Cons by simp
qed simp

lemma right_part_Nil [simp]: "right_part [] = []"
  by (simp add: right_part_def)

function spec_line :: "int \<Rightarrow> (string \<Rightarrow> string option) \<Rightarrow> bool \<Rightarrow> string \<Rightarrow> cmd option option" where
  "spec_line status getenv front s =
     do {
       lc \<leftarrow> spec_cmd status getenv front (left_part s);
       let r = right_part s;
       rc \<leftarrow> (if block_contains r (CHR 0x7C) > 0 then spec_line status getenv False r else spec_cmd status getenv False r);
       Some (pipe_cmd_create lc rc)
     }"
  by pat_completeness auto
termination
proof (relation "measure (\<lambda>(status, getenv, front, s). length s)", goal_cases)
  case (2 status getenv front s lc r)
  then have "s \<noteq> []" by (auto simp: block_contains_def)
  with 2(2) show ?case by (simp add: right_part_length)
qed simp

declare spec_line.simps [simp del]

definition before :: "bool \<Rightarrow> string \<Rightarrow> bool" where
  "before front pre \<longleftrightarrow> (if front then pre = [] else pre \<noteq> [] \<and> last pre \<in> {NUL, SPACE})"

lemma parse_cmd_append:
  assumes "nul_free s" and "length s < ARGSIZE" and "p = length pre" and "before front pre"
  shows "case spec_cmd status getenv front s of
      None \<Rightarrow> parse_cmd status getenv (pre @ s @ NUL # rest) p = None
    | Some c \<Rightarrow> \<exists>s'. length s' = length s \<and> parse_cmd status getenv (pre @ s @ NUL # rest) p = Some (pre @ s' @ NUL # rest, c)"
proof -
  let ?b = "pre @ s @ NUL # rest"
  have str: "str_at ?b p = Some s" by (rule str_at_append [OF assms(1,3)])
  have ex: "parse_exec status getenv ?b p = spec_exec status getenv s" by (rule parse_exec_append [OF assms(1-3)])
  show ?thesis
  proof (cases "strchr_c s (CHR 0x26)")
    case None
    then show ?thesis using str ex
      by (auto simp: spec_cmd_def parse_cmd_def block_contains_def split: option.split)
  next
    case (Some i)
    have i: "i < length s" "s ! i = CHR 0x26" "CHR 0x26 \<notin> set (take i s)" using strchr_c_Some [OF Some] by simp_all
    have s: "s = take i s @ CHR 0x26 # drop (i + 1) s" using id_take_nth_drop [OF i(1)] i(2) by simp
    have peek: "peek ?b (p + i - 1) = Some (if i = 0 then last pre else s ! (i - 1))" if "\<not> (i = 0 \<and> front)"
      using that assms(3,4) i by (auto simp: peek_def nth_append before_def last_conv_nth)
    have cut: "parse_back status getenv ?b p
        = map_option (\<lambda>e. (pre @ (take i s @ NUL # drop (i + 1) s) @ NUL # rest, back_cmd_create e)) (spec_exec status getenv (take i s))"
    proof -
      have b: "?b = pre @ take i s @ CHR 0x26 # (drop (i + 1) s @ NUL # rest)" using s by (metis append_assoc append_Cons)
      have "\<forall>c\<in>set (take i s). c \<noteq> CHR 0x26" using i(3) by metis
      then have "skip_until (\<lambda>c. c = CHR 0x26) ?b p = Some (p + length (take i s))"
        unfolding b using assms(3) by (intro skip_until_append) simp_all
      then have "skip_until (\<lambda>c. c = CHR 0x26) ?b p = Some (p + i)" using i(1) by simp
      moreover have "poke ?b (p + i) NUL = Some (pre @ take i s @ NUL # drop (i + 1) s @ NUL # rest)"
        using i assms(3) s by (simp add: poke_def list_update_append upd_conv_take_nth_drop)
      moreover have "parse_exec status getenv (pre @ take i s @ NUL # drop (i + 1) s @ NUL # rest) p = spec_exec status getenv (take i s)"
        using assms(1-3) i by (intro parse_exec_append) (auto simp: nul_free_take)
      ultimately show ?thesis by (simp add: parse_back_def map_option_case bind_eq_Some_conv split: option.split)
    qed
    have ne: "s \<noteq> []" using i by auto
    show ?thesis
    proof (cases "i = 0 \<and> front")
      case True
      then show ?thesis using Some str ne assms(3,4) by (simp add: spec_cmd_def parse_cmd_def block_contains_def before_def)
    next
      case False
      then have pi: "p + i \<noteq> 0" using assms(3,4) by (auto simp: before_def)
      show ?thesis
      proof (cases "i > 0 \<and> s ! (i - 1) = CHR 0x3E")
        case True
        then show ?thesis using Some str ne ex False pi peek [OF False]
          by (auto simp: spec_cmd_def parse_cmd_def block_contains_def split: option.split)
      next
        case no: False
        have "(if i = 0 then last pre else s ! (i - 1)) \<noteq> CHR 0x3E"
          using no False assms(4) by (auto simp: before_def NUL_def SPACE_def)
        then show ?thesis using Some str ne cut False no pi peek [OF False] i
          by (auto simp: spec_cmd_def parse_cmd_def block_contains_def split: option.split intro: exI [of _ "take i s @ NUL # drop (i + 1) s"])
      qed
    qed
  qed
qed

lemma SPACE_NUL [simp]: "SPACE \<noteq> NUL" "NUL \<noteq> SPACE" "CHR 0x7C \<noteq> NUL" "CHR 0x7C \<noteq> SPACE" "CHR 0x26 \<noteq> NUL"
  by (simp_all add: SPACE_def NUL_def)

lemma split_line_append:
  assumes "nul_free s" and "p = length pre" and "rest \<noteq> []" and "hd rest = NUL"
  shows "\<exists>gap rest'. split_line (pre @ s @ NUL # rest) p (CHR 0x7C)
      = Some (pre @ left_part s @ NUL # gap @ right_part s @ NUL # rest', length (pre @ left_part s @ NUL # gap))
    \<and> set gap \<subseteq> {SPACE} \<and> (CHR 0x7C \<in> set s \<longrightarrow> rest' = rest)"
proof -
  let ?b = "pre @ s @ NUL # rest" and ?q = "\<lambda>c. c = CHR 0x7C \<or> c = NUL"
  have l: "\<forall>c\<in>set (left_part s). \<not> ?q c"
    using assms(1) by (auto simp: left_part_def nul_free_def dest: set_takeWhileD)
  show ?thesis
  proof (cases "CHR 0x7C \<in> set s")
    case False
    then have parts: "left_part s = s" "right_part s = []" by (simp_all add: left_part_def right_part_def)
    obtain rest0 where rest: "rest = NUL # rest0" using assms(3,4) by (cases rest) auto
    have "skip_until ?q ?b p = Some (p + length s)"
      using l assms(2) unfolding parts by (intro skip_until_append) simp_all
    moreover have "poke ?b (p + length s) NUL = Some ?b" using assms(2) by (simp add: poke_def list_update_append)
    moreover have "skip_until (\<lambda>c. c \<noteq> SPACE) ?b (p + length s + 1) = Some (p + length s + 1)"
      using skip_until_append [of "[]" "\<lambda>c. c \<noteq> SPACE" NUL "p + length s + 1" "pre @ s @ [NUL]" rest0] assms(2) rest by simp
    ultimately show ?thesis
      using assms(2) rest False by (auto simp: split_line_def parts intro!: exI [of _ "[]"] exI [of _ rest0])
  next
    case True
    have "\<exists>t. dropWhile (\<lambda>c. c \<noteq> CHR 0x7C) s = CHR 0x7C # t" using True by (induction s) auto
    then obtain t where t: "dropWhile (\<lambda>c. c \<noteq> CHR 0x7C) s = CHR 0x7C # t" by blast
    have s: "s = left_part s @ CHR 0x7C # t" unfolding left_part_def by (metis t takeWhile_dropWhile_id)
    let ?g = "takeWhile (\<lambda>c. c = SPACE) t"
    have tg: "t = ?g @ right_part s" by (simp add: right_part_def t)
    have "skip_until ?q ?b p = Some (p + length (left_part s))"
    proof -
      have b: "?b = pre @ left_part s @ CHR 0x7C # (t @ NUL # rest)" using s by (metis append_assoc append_Cons)
      show ?thesis unfolding b using l assms(2) by (intro skip_until_append) simp_all
    qed
    moreover have "poke ?b (p + length (left_part s)) NUL = Some (pre @ left_part s @ NUL # t @ NUL # rest)"
    proof -
      have b: "?b = pre @ left_part s @ CHR 0x7C # (t @ NUL # rest)" using s by (metis append_assoc append_Cons)
      show ?thesis unfolding b using assms(2) by (simp add: poke_def list_update_append)
    qed
    moreover have "skip_until (\<lambda>c. c \<noteq> SPACE) (pre @ left_part s @ NUL # t @ NUL # rest) (p + length (left_part s) + 1)
        = Some (p + length (left_part s) + 1 + length ?g)"
    proof -
      have "right_part s \<noteq> [] \<Longrightarrow> hd (right_part s) \<noteq> SPACE" unfolding right_part_def by (rule hd_dropWhile)
      then have "hd (right_part s @ NUL # rest) \<noteq> SPACE" by (cases "right_part s") simp_all
      then obtain x y where xy: "right_part s @ NUL # rest = x # y" "x \<noteq> SPACE"
        by (cases "right_part s @ NUL # rest") simp_all
      have b: "pre @ left_part s @ NUL # t @ NUL # rest = (pre @ left_part s @ [NUL]) @ ?g @ x # y"
        using tg xy by (metis append_assoc append_Cons append_Nil)
      show ?thesis unfolding b using assms(2) xy(2)
        by (intro skip_until_append) (auto dest: set_takeWhileD)
    qed
    ultimately have "split_line ?b p (CHR 0x7C)
        = Some (pre @ left_part s @ NUL # t @ NUL # rest, length (pre @ left_part s @ NUL # ?g))"
      using assms(2) by (simp add: split_line_def)
    moreover have "t @ NUL # rest = ?g @ right_part s @ NUL # rest" using tg by (metis append_assoc)
    moreover have "set ?g \<subseteq> {SPACE}" by (auto dest: set_takeWhileD)
    ultimately show ?thesis by (metis)
  qed
qed

lemma parts_free: "nul_free s \<Longrightarrow> nul_free (left_part s)" "nul_free s \<Longrightarrow> nul_free (right_part s)"
  by (auto simp: nul_free_def left_part_def right_part_def dest!: set_takeWhileD set_dropWhileD in_set_dropD)

lemma left_part_length: "length (left_part s) \<le> length s"
  by (simp add: left_part_def length_takeWhile_le)

lemma parse_line_append:
  assumes "nul_free s" and "length s < ARGSIZE" and "p = length pre" and "before front pre" and "rest \<noteq> []" and "hd rest = NUL"
  shows "map_option snd (parse_line status getenv (pre @ s @ NUL # rest) p) = spec_line status getenv front s"
  using assms
proof (induction status getenv front s arbitrary: pre p rest rule: spec_line.induct)
  case (1 status getenv front s)
  let ?b = "pre @ s @ NUL # rest" and ?l = "left_part s" and ?r = "right_part s"
  obtain gap rest' where split: "split_line ?b p (CHR 0x7C) = Some (pre @ ?l @ NUL # gap @ ?r @ NUL # rest', length (pre @ ?l @ NUL # gap))"
    and gap: "set gap \<subseteq> {SPACE}" and rest': "CHR 0x7C \<in> set s \<longrightarrow> rest' = rest"
    using split_line_append [OF 1(2,4,6,7)] by blast
  have p: "p < length ?b" using 1(4) by simp
  have free: "nul_free ?l" "nul_free ?r" using 1(2) by (simp_all add: parts_free)
  have len: "length ?l < ARGSIZE" "length ?r < ARGSIZE"
    using 1(3) left_part_length [of s] right_part_length [of s] by (cases "s = []"; simp)+
  show ?case
  proof (cases "spec_cmd status getenv front ?l")
    case None
    then have "parse_cmd status getenv (pre @ ?l @ NUL # gap @ ?r @ NUL # rest') p = None"
      using parse_cmd_append [OF free(1) len(1) 1(4,5), of status getenv "gap @ ?r @ NUL # rest'"] by simp
    then show ?thesis using None p
      by (subst parse_line.simps, subst spec_line.simps) (simp add: split)
  next
    case (Some lc)
    then obtain l' where l': "length l' = length ?l"
      "parse_cmd status getenv (pre @ ?l @ NUL # gap @ ?r @ NUL # rest') p = Some (pre @ l' @ NUL # gap @ ?r @ NUL # rest', lc)"
      using parse_cmd_append [OF free(1) len(1) 1(4,5), of status getenv "gap @ ?r @ NUL # rest'"] by auto
    define q where "q = length (pre @ ?l @ NUL # gap)"
    define pre' where "pre' = pre @ l' @ NUL # gap"
    define buf1 where "buf1 = pre @ ?l @ NUL # gap @ ?r @ NUL # rest'"
    define buf2 where "buf2 = pre' @ ?r @ NUL # rest'"
    have q: "q = length pre'" using l'(1) by (simp add: q_def pre'_def)
    have pre: "before False pre'"
      using gap by (auto simp: before_def last_append pre'_def) (metis last_in_set subsetD singletonD)
    have split': "split_line ?b p (CHR 0x7C) = Some (buf1, q)" unfolding buf1_def q_def by (rule split)
    have cmd: "parse_cmd status getenv buf1 p = Some (buf2, lc)" using l'(2) by (simp add: buf1_def buf2_def pre'_def)
    have str: "str_at buf2 q = Some ?r" unfolding buf2_def by (rule str_at_append [OF free(2) q])
    let ?R = "if block_contains ?r (CHR 0x7C) > 0 then parse_line status getenv buf2 q else parse_cmd status getenv buf2 q"
    have right: "map_option snd ?R
        = (if block_contains ?r (CHR 0x7C) > 0 then spec_line status getenv False ?r else spec_cmd status getenv False ?r)"
    proof (cases "block_contains ?r (CHR 0x7C) > 0")
      case True
      then have "CHR 0x7C \<in> set ?r" using strchr_c_Some [of ?r "CHR 0x7C"]
        by (auto simp: block_contains_def in_set_conv_nth split: option.splits)
      then have "CHR 0x7C \<in> set s" by (auto simp: right_part_def dest!: set_dropWhileD in_set_dropD)
      then have "rest' = rest" using rest' by simp
      then show ?thesis unfolding buf2_def using True 1(1) [OF Some refl True free(2) len(2) q pre 1(6,7)] by simp
    next
      case False
      then show ?thesis unfolding buf2_def using parse_cmd_append [OF free(2) len(2) q pre, of status getenv rest']
        by (auto split: option.splits)
    qed
    have "parse_line status getenv ?b p = Option.bind ?R (\<lambda>(buf3, r). Some (buf3, pipe_cmd_create lc r))"
      using p split' cmd str by (subst parse_line.simps) (simp only: if_False not_True_eq_False bind.bind_lunit prod.case not_not if_True simp_thms)
    then have "map_option snd (parse_line status getenv ?b p) = Option.bind (map_option snd ?R) (\<lambda>r. Some (pipe_cmd_create lc r))"
      by (cases ?R) auto
    moreover have "spec_line status getenv front s
        = Option.bind (if block_contains ?r (CHR 0x7C) > 0 then spec_line status getenv False ?r else spec_cmd status getenv False ?r)
            (\<lambda>r. Some (pipe_cmd_create lc r))"
      by (subst spec_line.simps) (simp only: Some bind.bind_lunit Let_def)
    ultimately show ?thesis using right by simp
  qed
qed

section \<open>Reading\<close>

lemma read_chars_line:
  assumes "NL \<notin> set s" and "i \<le> length buffer"
  shows "read_chars_from buffer i (s @ NL # input) = (if i + length s < length buffer
    then Some (Some (take i buffer @ s @ NUL # drop (i + length s + 1) buffer), input) else None)"
  using assms
proof (induction s arbitrary: buffer i)
  case Nil
  then show ?case by (auto simp: poke_def upd_conv_take_nth_drop)
next
  case (Cons c s)
  show ?case
  proof (cases "i < length buffer")
    case True
    have "take (i + 1) (buffer[i := c]) = take i buffer @ [c]" using True by (simp add: take_Suc_conv_app_nth)
    moreover have "drop (i + 1 + length s + 1) (buffer[i := c]) = drop (i + length (c # s) + 1) buffer" by simp
    ultimately show ?thesis
      using Cons.prems Cons.IH [of "i + 1" "buffer[i := c]"] True by (auto simp: poke_def)
  next
    case False
    then show ?thesis using Cons.prems by (simp add: poke_def)
  qed
qed

section \<open>What the words of a command mean\<close>

definition is_redir :: "string \<Rightarrow> bool" where
  "is_redir w \<longleftrightarrow> CHR 0x3E \<in> set w \<or> CHR 0x3C \<in> set w"

definition is_assignment :: "string \<Rightarrow> bool" where
  "is_assignment w \<longleftrightarrow> \<not> is_redir w \<and> CHR 0x3D \<in> set (drop 1 w) \<and> hd w \<noteq> CHR 0x3D \<and> CHR 0x2D \<notin> set w"

definition arguments :: "int \<Rightarrow> (string \<Rightarrow> string option) \<Rightarrow> string list \<Rightarrow> string list" where
  "arguments status getenv ws = filter (\<lambda>w. w \<noteq> []) (map (expand_environ_var status getenv)
     (filter (\<lambda>w. \<not> is_redir w \<and> \<not> is_assignment w) ws))"

definition redirected :: "execcmd \<Rightarrow> string list \<Rightarrow> execcmd" where
  "redirected c ws = foldl (\<lambda>c w. snd (parse_redir_flow c w)) c ws"

lemma block_contains_iff: "block_contains s c \<ge> 0 \<longleftrightarrow> c \<in> set s" "block_contains s c < 0 \<longleftrightarrow> c \<notin> set s"
  "block_contains s c > 0 \<longleftrightarrow> c \<in> set (drop 1 s) \<and> hd s \<noteq> c"
proof -
  have eq: "strchr_c s c = None \<longleftrightarrow> c \<notin> set s" by (rule strchr_c_None)
  show "block_contains s c \<ge> 0 \<longleftrightarrow> c \<in> set s" "block_contains s c < 0 \<longleftrightarrow> c \<notin> set s"
    using eq by (auto simp: block_contains_def split: option.split)
  show "block_contains s c > 0 \<longleftrightarrow> c \<in> set (drop 1 s) \<and> hd s \<noteq> c"
    using strchr_c_None [of "drop 1 s" c] by (cases s) (auto simp: block_contains_def split: option.split)
qed

lemma redir_flow: "fst (parse_redir_flow c w) = is_redir w" "\<not> is_redir w \<Longrightarrow> parse_redir_flow c w = (False, c)"
  by (simp_all add: parse_redir_flow_def is_redir_def block_contains_iff Let_def)

lemma redir_flow_args:
  "parse_redir_flow (c\<lparr>ec_argv := a\<rparr>) w = (let (r, c) = parse_redir_flow c w in (r, c\<lparr>ec_argv := a\<rparr>))"
  "parse_redir_flow (c\<lparr>ec_eargv := a\<rparr>) w = (let (r, c) = parse_redir_flow c w in (r, c\<lparr>ec_eargv := a\<rparr>))"
  "ec_argv (snd (parse_redir_flow c w)) = ec_argv c" "ec_eargv (snd (parse_redir_flow c w)) = ec_eargv c"
  by (simp_all add: parse_redir_flow_def Let_def)

lemma redirected_args:
  "redirected (c\<lparr>ec_argv := a\<rparr>) ws = (redirected c ws)\<lparr>ec_argv := a\<rparr>"
  "redirected (c\<lparr>ec_eargv := a\<rparr>) ws = (redirected c ws)\<lparr>ec_eargv := a\<rparr>"
  "ec_argv (redirected c ws) = ec_argv c" "ec_eargv (redirected c ws) = ec_eargv c"
  unfolding redirected_def
  by (induction ws arbitrary: c) (simp_all add: redir_flow_args case_prod_beta)

lemma environ_var_eq: "\<not> is_redir w \<Longrightarrow> parse_environ_var c w = (if is_assignment w
    then if length (ec_eargv c) < MAXARGS then Some (True, c\<lparr>ec_eargv := ec_eargv c @ [w]\<rparr>) else None else Some (False, c))"
  by (simp add: parse_environ_var_def is_assignment_def block_contains_iff)

lemma parse_tokens_words:
  assumes "length (ec_argv c) \<le> MAXARGS" and "length (ec_eargv c) \<le> MAXARGS"
  shows "parse_tokens status getenv c ws =
    (if length (ec_argv c @ arguments status getenv ws) \<le> MAXARGS \<and> length (ec_eargv c @ filter is_assignment ws) \<le> MAXARGS
     then Some ((redirected c ws)\<lparr>ec_argv := ec_argv c @ arguments status getenv ws, ec_eargv := ec_eargv c @ filter is_assignment ws\<rparr>)
     else None)"
  using assms
proof (induction ws arbitrary: c)
  case Nil
  then show ?case by (simp add: arguments_def redirected_def)
next
  case (Cons w ws)
  have step: "redirected c (w # ws) = redirected (snd (parse_redir_flow c w)) ws" by (simp add: redirected_def)
  consider "is_redir w" | "\<not> is_redir w" "is_assignment w" | "\<not> is_redir w" "\<not> is_assignment w" by blast
  then show ?case
  proof cases
    case 1
    have "parse_token status getenv c w = Some (snd (parse_redir_flow c w))"
      using redir_flow(1) [of c w] 1 by (simp add: parse_token_def Let_def case_prod_beta)
    moreover have "\<not> is_assignment w" using 1 by (simp add: is_assignment_def)
    ultimately show ?thesis
      using 1 Cons.prems Cons.IH [of "snd (parse_redir_flow c w)"] by (simp add: step redir_flow_args arguments_def)
  next
    case 2
    then have "redirected c (w # ws) = redirected c ws" by (simp add: step redir_flow)
    with 2 show ?thesis
      using Cons.prems Cons.IH [of "c\<lparr>ec_eargv := ec_eargv c @ [w]\<rparr>"]
      by (auto simp: parse_token_def redir_flow environ_var_eq redirected_args arguments_def)
  next
    case 3
    let ?e = "expand_environ_var status getenv w"
    from 3 have r: "redirected c (w # ws) = redirected c ws" by (simp add: step redir_flow)
    show ?thesis
    proof (cases "?e = []")
      case True
      then show ?thesis using 3 r Cons.prems Cons.IH [of c]
        by (simp add: parse_token_def redir_flow environ_var_eq arguments_def)
    next
      case False
      then show ?thesis using 3 r Cons.prems Cons.IH [of "c\<lparr>ec_argv := ec_argv c @ [?e]\<rparr>"]
        by (auto simp: parse_token_def redir_flow environ_var_eq redirected_args arguments_def)
    qed
  qed
qed

lemma spec_exec_words:
  "spec_exec status getenv s =
    (let ws = words s in
     if length (arguments status getenv ws) < MAXARGS \<and> length (filter is_assignment ws) \<le> MAXARGS
     then Some ((redirected (exec_cmd_create s) ws)\<lparr>ec_argv := arguments status getenv ws, ec_eargv := filter is_assignment ws\<rparr>)
     else None)"
  unfolding spec_exec_def by (subst parse_tokens_words) (auto simp: exec_cmd_create_def Let_def MAXARGS_def)

end
