(* ===== verification/Sh_Exec.thy ===== *)
theory Sh_Exec
  imports Sh_Spec
begin

text \<open>
  The shell: executing a parsed command in a child process (\<open>exec.c\<close>). The model follows the file
  descriptors, the environment and the process group of each process; \<open>fork\<close> gives the child a copy. What
  the kernel answers to \<open>open\<close>, \<open>execvp\<close>, \<open>pipe\<close> and \<open>fork\<close> is a parameter; the result is the tree of
  processes with the way each of them ends.
\<close>

section \<open>Processes and descriptors\<close>

datatype access = O_RDONLY | O_CREAT_WRONLY_TRUNC

text \<open>What a descriptor refers to: something inherited from the shell, a file, an end of a pipe.\<close>

datatype fobj = Inherited nat | File string access | Pipe_read nat | Pipe_write nat

record proc =
  fds :: "nat \<Rightarrow> fobj option"
  environ :: "string \<Rightarrow> string option"
  pid :: int
  pgrp :: int
  bg_pgid :: int

text \<open>The answers of the kernel; \<open>os_pipe n\<close> and \<open>os_fork n\<close> for the \<open>n\<close>-th call.\<close>

record os =
  os_open :: "string \<Rightarrow> access \<Rightarrow> bool"
  os_exec :: "string \<Rightarrow> bool"
  os_pipe :: "nat \<Rightarrow> bool"
  os_fork :: "nat \<Rightarrow> bool"
  os_fds :: nat

datatype ending = Executes "string list" proc | Exits int | Crashes

datatype ptree = Process "ptree list" ending

text \<open>The lowest free descriptor below the limit of the process.\<close>

definition free_fd :: "os \<Rightarrow> proc \<Rightarrow> nat option" where
  "free_fd os p = List.find (\<lambda>i. fds p i = None) [0..<os_fds os]"

definition fd_close :: "nat \<Rightarrow> proc \<Rightarrow> proc" where
  "fd_close fd p = p\<lparr>fds := (fds p)(fd := None)\<rparr>"

definition fd_dup2 :: "nat \<Rightarrow> nat \<Rightarrow> proc \<Rightarrow> proc option" where
  "fd_dup2 old new p = (case fds p old of None \<Rightarrow> None | Some ob \<Rightarrow> Some (p\<lparr>fds := (fds p)(new := Some ob)\<rparr>))"

section \<open>Environment variables\<close>

definition get_environ_key :: "string \<Rightarrow> string" where
  "get_environ_key arg = takeWhile (\<lambda>c. c \<noteq> CHR 0x3D) arg"

definition get_environ_value :: "string \<Rightarrow> nat \<Rightarrow> string" where
  "get_environ_value arg idx = drop (idx + 1) arg"

text \<open>\<open>setenv\<close> refuses an empty name.\<close>

definition set_environ_vars :: "string list \<Rightarrow> proc \<Rightarrow> proc" where
  "set_environ_vars eargv p = foldl (\<lambda>p arg.
     let idx = block_contains arg (CHR 0x3D) in
     if idx = -1 then p
     else (let key = get_environ_key arg in
       if key = [] then p else p\<lparr>environ := (environ p)(key \<mapsto> get_environ_value arg (nat idx))\<rparr>)) p eargv"

section \<open>Redirections\<close>

definition open_redir_fd :: "os \<Rightarrow> string \<Rightarrow> access \<Rightarrow> proc \<Rightarrow> (nat \<times> proc) option" where
  "open_redir_fd os file flags p =
     (if os_open os file flags
      then (case free_fd os p of
          None \<Rightarrow> None
        | Some fd \<Rightarrow> Some (fd, p\<lparr>fds := (fds p)(fd := Some (File file flags))\<rparr>))
      else None)"

text \<open>\<open>redirect_fd\<close>: \<open>None\<close> is \<open>_exit\<close> with the error value.\<close>

definition redirect_fd :: "os \<Rightarrow> string \<Rightarrow> access \<Rightarrow> nat \<Rightarrow> proc \<Rightarrow> proc option" where
  "redirect_fd os file flags fd_to_redirect p = do {
     (fd, p) \<leftarrow> open_redir_fd os file flags p;
     p \<leftarrow> fd_dup2 fd fd_to_redirect p;
     Some (fd_close fd p)
   }"

definition redirect_stdin :: "os \<Rightarrow> string \<Rightarrow> proc \<Rightarrow> proc option" where
  "redirect_stdin os infile p = (if length infile > 0 then redirect_fd os infile O_RDONLY 0 p else Some p)"

definition redirect_stdout :: "os \<Rightarrow> string \<Rightarrow> proc \<Rightarrow> proc option" where
  "redirect_stdout os outfile p = (if length outfile > 0 then redirect_fd os outfile O_CREAT_WRONLY_TRUNC 1 p else Some p)"

definition redirect_stderr :: "os \<Rightarrow> string \<Rightarrow> proc \<Rightarrow> proc option" where
  "redirect_stderr os errfile p = (if length errfile > 0 then redirect_fd os errfile O_CREAT_WRONLY_TRUNC 2 p else Some p)"

text \<open>The redirections of a command, in the order of the code. When the names of the error and output files are
  equal, \<open>stderr\<close> becomes a copy of \<open>stdout\<close>; the result of that \<open>dup2\<close> is not looked at.\<close>

definition redirect_all :: "os \<Rightarrow> execcmd \<Rightarrow> proc \<Rightarrow> proc option" where
  "redirect_all os r p = do {
     p \<leftarrow> redirect_stdin os (ec_in r) p;
     p \<leftarrow> redirect_stdout os (ec_out r) p;
     if ec_err r = ec_out r then Some (case fd_dup2 1 2 p of None \<Rightarrow> p | Some p \<Rightarrow> p)
     else redirect_stderr os (ec_err r) p
   }"

section \<open>Executing\<close>

text \<open>
  \<open>execvp\<close>: a command without words is a null program name, which crashes the process. Only a failed \<open>execvp\<close>
  comes back.
\<close>

definition exec_program :: "os \<Rightarrow> execcmd \<Rightarrow> proc \<Rightarrow> ending" where
  "exec_program os e p = (let p = set_environ_vars (ec_eargv e) p in
     case ec_argv e of
       [] \<Rightarrow> Crashes
     | prog # _ \<Rightarrow> if os_exec os prog then Executes (ec_argv e) p else Exits (-1))"

text \<open>\<open>pipe\<close>: the two lowest free descriptors, for the pipe with number \<open>n\<close>.\<close>

definition make_pipe :: "os \<Rightarrow> nat \<Rightarrow> proc \<Rightarrow> (nat \<times> nat \<times> proc) option" where
  "make_pipe os n p =
     (if os_pipe os n
      then do {
        r \<leftarrow> free_fd os p;
        let p = p\<lparr>fds := (fds p)(r := Some (Pipe_read n))\<rparr>;
        w \<leftarrow> free_fd os p;
        Some (r, w, p\<lparr>fds := (fds p)(w := Some (Pipe_write n))\<rparr>)
      }
      else None)"

text \<open>
  \<open>exec_cmd\<close> in the process \<open>p\<close>, with the number of the next pipe: the next number, the children the process
  forks, and how it ends, or \<open>Inr\<close> the process when the call returns. A null command crashes. Each child is
  given a process id by \<open>n\<close>, a number larger than the ones in use.
\<close>

type_synonym executed = "nat \<times> ptree list \<times> (ending + proc)"

definition child :: "nat \<Rightarrow> proc \<Rightarrow> proc" where
  "child n p = p\<lparr>pid := int n\<rparr>"

text \<open>The last part of the pipe case, after the second fork: the parent closes its end and waits for both children.\<close>

definition pipe_finish :: "nat \<Rightarrow> proc \<Rightarrow> proc" where
  "pipe_finish r p = fd_close r p"

text \<open>The pipe case from the second fork on, for the process \<open>p\<close>; \<open>right\<close> executes the right command.\<close>

definition pipe_second :: "os \<Rightarrow> (proc \<Rightarrow> nat \<Rightarrow> executed) \<Rightarrow> nat \<Rightarrow> nat \<Rightarrow> proc \<Rightarrow> nat \<Rightarrow> executed" where
  "pipe_second os right r w p n =
     (let p = fd_close w p in
      if \<not> os_fork os n then (n + 1, [], Inl (Exits (-1)))
      else let (n', t) = (case fd_dup2 r 0 (child n p) of
              None \<Rightarrow> (n + 1, Process [] (Exits (-1)))
            | Some q \<Rightarrow> (case right (fd_close r q) (n + 1) of
                (n', ts, Inl e) \<Rightarrow> (n', Process ts e)
              | (n', ts, Inr q) \<Rightarrow> (n', Process ts (Exits 0))))
        in (n', [t], Inr (pipe_finish r p)))"

fun exec_cmd :: "os \<Rightarrow> cmd option \<Rightarrow> proc \<Rightarrow> nat \<Rightarrow> executed" where
  "exec_cmd os None p n = (n, [], Inl Crashes)"
| "exec_cmd os (Some (Backcmd _ _ c)) p n =
     (let p = (if bg_pgid p = 0 then p\<lparr>bg_pgid := pid p\<rparr> else p);
          p = p\<lparr>pgrp := bg_pgid p\<rparr>
      in exec_cmd os (Some c) p n)"
| "exec_cmd os (Some (Execcmd e)) p n =
     (if ec_type e = REDIR
      then (case redirect_all os e p of
          None \<Rightarrow> (n, [], Inl (Exits (-1)))
        | Some p \<Rightarrow> (n, [], Inl (exec_program os e p)))
      else (n, [], Inl (exec_program os e p)))"
| "exec_cmd os (Some (Pipecmd _ l rt)) p n =
     (case make_pipe os n p of
        None \<Rightarrow> (n + 1, [], Inl (Exits (-1)))
      | Some (r, w, p) \<Rightarrow>
          if \<not> os_fork os (n + 1) then (n + 2, [], Inl (Exits (-1)))
          else let right = (\<lambda>p n. exec_cmd os (Some rt) p n);
                   (n', t) = (case fd_dup2 w 1 (fd_close r (child (n + 1) p)) of
                       None \<Rightarrow> (n + 2, Process [] (Exits (-1)))
                     | Some q \<Rightarrow> (case exec_cmd os l (fd_close w q) (n + 2) of
                         (n', ts, Inl e) \<Rightarrow> (n', Process ts e)
                       | (n', ts, Inr q) \<Rightarrow> (case pipe_second os right r w q n' of
                           (n', ts', Inl e) \<Rightarrow> (n', Process (ts @ ts') e)
                         | (n', ts', Inr q) \<Rightarrow> (n', Process (ts @ ts') (Exits 0)))));
                   (n'', ts, e) = pipe_second os right r w p n'
               in (n'', t # ts, e))"

end
