(* ===== verification/Sh_Procs.thy ===== *)
theory Sh_Procs
  imports Sh_Exec
begin

text \<open>
  The processes of a command line: what the redirections leave in the descriptors of a program, and how the
  programs of a pipeline are connected.
\<close>

section \<open>Descriptors\<close>

lemma free_fd_Some: "free_fd os p = Some i \<longleftrightarrow> i < os_fds os \<and> fds p i = None \<and> (\<forall>j<i. fds p j \<noteq> None)"
  by (auto simp: free_fd_def find_Some_iff)

lemma free_fd_cong: "(\<And>i. fds p i = None \<longleftrightarrow> fds q i = None) \<Longrightarrow> free_fd os p = free_fd os q"
  by (simp add: free_fd_def)

lemma redirect_fd_ok:
  assumes "free_fd os p = Some fd" and "fds p t \<noteq> None"
  shows "redirect_fd os f flags t p
    = (if os_open os f flags then Some (p\<lparr>fds := (fds p)(t := Some (File f flags))\<rparr>) else None)"
proof -
  have "fds p fd = None" using assms(1) by (simp add: free_fd_Some)
  then have "fd \<noteq> t" "(fds p)(fd := None) = fds p" using assms(2) by (auto simp: fun_upd_idem)
  then show ?thesis using assms(1)
    by (simp add: redirect_fd_def open_redir_fd_def fd_dup2_def fd_close_def fun_upd_twist)
qed

text \<open>The standard descriptors are open and another one is free.\<close>

definition std_open :: "os \<Rightarrow> proc \<Rightarrow> bool" where
  "std_open os p \<longleftrightarrow> fds p 0 \<noteq> None \<and> fds p 1 \<noteq> None \<and> fds p 2 \<noteq> None \<and> free_fd os p \<noteq> None"

lemma less_3: "(i :: nat) < 3 \<longleftrightarrow> i = 0 \<or> i = 1 \<or> i = 2"
  by auto

lemma std_open_upd: "std_open os p \<Longrightarrow> i < 3 \<Longrightarrow> std_open os (p\<lparr>fds := (fds p)(i := Some x)\<rparr>)"
proof -
  assume s: "std_open os p" and i: "i < 3"
  then have "fds p i \<noteq> None" by (auto simp: std_open_def less_3)
  then have "free_fd os (p\<lparr>fds := (fds p)(i := Some x)\<rparr>) = free_fd os p" by (intro free_fd_cong) auto
  then show ?thesis using s by (simp add: std_open_def)
qed

definition redirected_fds :: "execcmd \<Rightarrow> (nat \<Rightarrow> fobj option) \<Rightarrow> nat \<Rightarrow> fobj option" where
  "redirected_fds r f =
     (let f = (if ec_in r = [] then f else f(0 := Some (File (ec_in r) O_RDONLY)));
          f = (if ec_out r = [] then f else f(1 := Some (File (ec_out r) O_CREAT_WRONLY_TRUNC)))
      in if ec_err r = ec_out r then f(2 := f 1)
         else if ec_err r = [] then f else f(2 := Some (File (ec_err r) O_CREAT_WRONLY_TRUNC)))"

definition opens :: "os \<Rightarrow> execcmd \<Rightarrow> bool" where
  "opens os r \<longleftrightarrow> (ec_in r = [] \<or> os_open os (ec_in r) O_RDONLY) \<and> (ec_out r = [] \<or> os_open os (ec_out r) O_CREAT_WRONLY_TRUNC)
     \<and> (ec_err r = ec_out r \<or> ec_err r = [] \<or> os_open os (ec_err r) O_CREAT_WRONLY_TRUNC)"

lemma redirect_step:
  assumes "std_open os p" and "t < 3"
  shows "(if length f > 0 then redirect_fd os f flags t p else Some p)
    = (if f = [] \<or> os_open os f flags then Some (p\<lparr>fds := if f = [] then fds p else (fds p)(t := Some (File f flags))\<rparr>) else None)"
proof -
  obtain fd where "free_fd os p = Some fd" using assms(1) by (auto simp: std_open_def)
  moreover have "fds p t \<noteq> None" using assms by (auto simp: std_open_def less_3)
  ultimately show ?thesis by (simp add: redirect_fd_ok)
qed

lemma redirect_all_ok:
  assumes "std_open os p"
  shows "redirect_all os r p = (if opens os r then Some (p\<lparr>fds := redirected_fds r (fds p)\<rparr>) else None)"
proof -
  let ?in = "\<lambda>f. if ec_in r = [] then f else f(0 := Some (File (ec_in r) O_RDONLY))"
  let ?out = "\<lambda>f. if ec_out r = [] then f else f(1 := Some (File (ec_out r) O_CREAT_WRONLY_TRUNC))"
  let ?p1 = "p\<lparr>fds := ?in (fds p)\<rparr>" and ?p2 = "p\<lparr>fds := ?out (?in (fds p))\<rparr>"
  have s1: "std_open os ?p1" using std_open_upd [OF assms, of 0] assms by simp
  have s2: "std_open os ?p2" using std_open_upd [OF s1, of 1] s1 by simp
  have i: "redirect_stdin os (ec_in r) p = (if ec_in r = [] \<or> os_open os (ec_in r) O_RDONLY then Some ?p1 else None)"
    unfolding redirect_stdin_def by (subst redirect_step [OF assms]) simp_all
  have o: "redirect_stdout os (ec_out r) ?p1
      = (if ec_out r = [] \<or> os_open os (ec_out r) O_CREAT_WRONLY_TRUNC then Some ?p2 else None)"
    unfolding redirect_stdout_def by (subst redirect_step [OF s1]) simp_all
  have e: "redirect_stderr os (ec_err r) ?p2 = (if ec_err r = [] \<or> os_open os (ec_err r) O_CREAT_WRONLY_TRUNC
      then Some (?p2\<lparr>fds := if ec_err r = [] then fds ?p2 else (fds ?p2)(2 := Some (File (ec_err r) O_CREAT_WRONLY_TRUNC))\<rparr>) else None)"
    unfolding redirect_stderr_def by (subst redirect_step [OF s2]) simp_all
  have d: "(case fd_dup2 1 2 ?p2 of None \<Rightarrow> ?p2 | Some p \<Rightarrow> p) = ?p2\<lparr>fds := (fds ?p2)(2 := fds ?p2 1)\<rparr>"
    using s2 by (auto simp: fd_dup2_def std_open_def split: option.split)
  show ?thesis
    using i o e d unfolding redirect_all_def opens_def redirected_fds_def Let_def
    by (cases "ec_err r = ec_out r") (simp_all split: if_splits)
qed

section \<open>Pipelines\<close>

text \<open>The programs that run in a process and below it, with their descriptors.\<close>

fun programs :: "ptree \<Rightarrow> (string list \<times> (nat \<Rightarrow> fobj option)) list" where
  "programs (Process ts e) = concat (map programs ts) @ (case e of Executes argv p \<Rightarrow> [(argv, fds p)] | _ \<Rightarrow> [])"

definition programs_of :: "executed \<Rightarrow> (string list \<times> (nat \<Rightarrow> fobj option)) list" where
  "programs_of x = (case x of (_, ts, e) \<Rightarrow> concat (map programs ts)
     @ (case e of Inl (Executes argv p) \<Rightarrow> [(argv, fds p)] | _ \<Rightarrow> []))"

text \<open>The command the parser makes of a pipeline of simple commands.\<close>

fun pipeline :: "execcmd list \<Rightarrow> cmd option" where
  "pipeline [] = None"
| "pipeline [e] = Some (Execcmd e)"
| "pipeline (e # es) = Some (Pipecmd 0 (Some (Execcmd e)) (the (pipeline es)))"

lemma set_environ_fds [simp]: "fds (set_environ_vars es p) = fds p"
  unfolding set_environ_vars_def by (induction es arbitrary: p) (simp_all add: Let_def)

definition runnable_cmd :: "os \<Rightarrow> execcmd \<Rightarrow> bool" where
  "runnable_cmd os e \<longleftrightarrow> ec_type e = EXEC \<and> ec_argv e \<noteq> [] \<and> os_exec os (hd (ec_argv e))"

lemma exec_simple:
  assumes "runnable_cmd os e"
  shows "exec_cmd os (Some (Execcmd e)) p n = (n, [], Inl (Executes (ec_argv e) (set_environ_vars (ec_eargv e) p)))"
  using assms by (cases "ec_argv e") (auto simp: runnable_cmd_def exec_program_def Let_def)

text \<open>Only the standard descriptors are open, and two more can be.\<close>

definition std_only :: "os \<Rightarrow> proc \<Rightarrow> bool" where
  "std_only os p \<longleftrightarrow> 5 \<le> os_fds os \<and> (\<forall>i. fds p i = None \<longleftrightarrow> 3 \<le> i)"

lemma make_pipe_std:
  assumes "std_only os p" and "os_pipe os n"
  shows "make_pipe os n p = Some (3, 4, p\<lparr>fds := (fds p)(3 := Some (Pipe_read n), 4 := Some (Pipe_write n))\<rparr>)"
proof -
  have "free_fd os p = Some 3" using assms(1) by (auto simp: free_fd_Some std_only_def)
  moreover have "free_fd os (p\<lparr>fds := (fds p)(3 := Some x)\<rparr>) = Some 4" for x
    using assms(1) by (auto simp: free_fd_Some std_only_def simp del: not_None_eq)
  ultimately show ?thesis using assms(2) by (simp add: make_pipe_def Let_def)
qed

text \<open>One pipe between a simple command and the rest of the line.\<close>

lemma exec_pipe:
  assumes "std_only os p" and "\<And>n. os_pipe os n" and "\<And>n. os_fork os n" and "runnable_cmd os e"
    and r: "exec_cmd os (Some rt) (p\<lparr>pid := int (n + 2), fds := (fds p)(0 := Some (Pipe_read n))\<rparr>) (n + 3) = (m, ts, en)"
  shows "programs_of (exec_cmd os (Some (Pipecmd i (Some (Execcmd e)) rt)) p n)
    = (ec_argv e, (fds p)(1 := Some (Pipe_write n))) # programs_of (m, ts, en)"
proof -
  let ?f = "(fds p)(3 := Some (Pipe_read n), 4 := Some (Pipe_write n))"
  have none: "fds p 3 = None" "fds p 4 = None" using assms(1) by (auto simp: std_only_def)
  have f1: "((?f(3 := None))(1 := Some (Pipe_write n)))(4 := None) = (fds p)(1 := Some (Pipe_write n))"
    using none by (auto simp: fun_eq_iff)
  have f2: "((?f(4 := None))(0 := Some (Pipe_read n)))(3 := None) = (fds p)(0 := Some (Pipe_read n))"
    using none by (auto simp: fun_eq_iff)
  have d1: "fd_dup2 4 1 (fd_close 3 (child (n + 1) (p\<lparr>fds := ?f\<rparr>)))
      = Some (p\<lparr>pid := int (n + 1), fds := (?f(3 := None))(1 := Some (Pipe_write n))\<rparr>)"
    by (simp add: fd_dup2_def fd_close_def child_def)
  have d2: "fd_dup2 3 0 (child (n + 2) (fd_close 4 (p\<lparr>fds := ?f\<rparr>)))
      = Some (p\<lparr>pid := int (n + 2), fds := (?f(4 := None))(0 := Some (Pipe_read n))\<rparr>)"
    by (simp add: fd_dup2_def fd_close_def child_def)
  have c1: "fd_close 4 (p\<lparr>pid := int (n + 1), fds := (?f(3 := None))(1 := Some (Pipe_write n))\<rparr>)
      = p\<lparr>pid := int (n + 1), fds := (fds p)(1 := Some (Pipe_write n))\<rparr>"
    using f1 by (simp add: fd_close_def)
  have c2: "fd_close 3 (p\<lparr>pid := int (n + 2), fds := (?f(4 := None))(0 := Some (Pipe_read n))\<rparr>)
      = p\<lparr>pid := int (n + 2), fds := (fds p)(0 := Some (Pipe_read n))\<rparr>"
    using f2 by (simp add: fd_close_def)
  have ex: "exec_cmd os (Some (Execcmd e)) (p\<lparr>pid := int (n + 1), fds := (fds p)(1 := Some (Pipe_write n))\<rparr>) (n + 2)
      = (n + 2, [], Inl (Executes (ec_argv e) (set_environ_vars (ec_eargv e) (p\<lparr>pid := int (n + 1), fds := (fds p)(1 := Some (Pipe_write n))\<rparr>))))"
    by (rule exec_simple [OF assms(4)])
  have sec: "pipe_second os (exec_cmd os (Some rt)) 3 4 (p\<lparr>fds := ?f\<rparr>) (n + 2)
      = (m, [case en of Inl e \<Rightarrow> Process ts e | Inr q \<Rightarrow> Process ts (Exits 0)], Inr (pipe_finish 3 (fd_close 4 (p\<lparr>fds := ?f\<rparr>))))"
    unfolding pipe_second_def Let_def using assms(3) d2 r c2
    by (simp add: numeral_3_eq_3 split: sum.split)
  show ?thesis
    using sec ex assms(3) d1 c1 make_pipe_std [OF assms(1,2)]
    by (simp add: programs_of_def Let_def split: sum.split)
qed

lemma std_only_upd: "std_only os p \<Longrightarrow> i < 3 \<Longrightarrow> std_only os (p\<lparr>pid := j, fds := (fds p)(i := Some x)\<rparr>)"
  by (auto simp: std_only_def)

lemma pipeline_Cons: "es \<noteq> [] \<Longrightarrow> pipeline (e # es) = Some (Pipecmd 0 (Some (Execcmd e)) (the (pipeline es)))"
  by (cases es) simp_all

lemma pipeline_Some: "es \<noteq> [] \<Longrightarrow> pipeline es = Some (the (pipeline es))"
  by (cases es rule: pipeline.cases) simp_all

text \<open>Where the \<open>i\<close>-th of \<open>k\<close> programs reads and writes; the pipes have the numbers \<open>n\<close>, \<open>n + 3\<close>, ...\<close>

definition wired :: "nat \<Rightarrow> nat \<Rightarrow> (nat \<Rightarrow> fobj option) \<Rightarrow> nat \<Rightarrow> nat \<Rightarrow> fobj option" where
  "wired n k f i = f(0 := if i = 0 then f 0 else Some (Pipe_read (n + 3 * (i - 1))),
     1 := if i + 1 = k then f 1 else Some (Pipe_write (n + 3 * i)))"

lemma exec_pipeline:
  assumes "es \<noteq> []" and "std_only os p" and "\<And>n. os_pipe os n" and "\<And>n. os_fork os n" and "\<forall>e\<in>set es. runnable_cmd os e"
  shows "programs_of (exec_cmd os (pipeline es) p n)
    = map (\<lambda>i. (ec_argv (es ! i), wired n (length es) (fds p) i)) [0..<length es]"
  using assms(1,2,5)
proof (induction es arbitrary: p n)
  case (Cons e es)
  show ?case
  proof (cases "es = []")
    case True
    then show ?thesis using Cons.prems by (simp add: exec_simple programs_of_def wired_def fun_eq_iff del: exec_cmd.simps)
  next
    case False
    let ?q = "p\<lparr>pid := int (n + 2), fds := (fds p)(0 := Some (Pipe_read n))\<rparr>"
    obtain m ts en where r: "exec_cmd os (Some (the (pipeline es))) ?q (n + 3) = (m, ts, en)"
      by (metis prod_cases3)
    have "runnable_cmd os e" using Cons.prems by simp
    from exec_pipe [OF Cons.prems(2) assms(3,4) this r, of 0]
    have "programs_of (exec_cmd os (pipeline (e # es)) p n)
        = (ec_argv e, (fds p)(1 := Some (Pipe_write n))) # programs_of (exec_cmd os (pipeline es) ?q (n + 3))"
      using False r pipeline_Some [OF False] by (simp only: pipeline_Cons not_False_eq_True)
    also have "programs_of (exec_cmd os (pipeline es) ?q (n + 3))
        = map (\<lambda>i. (ec_argv (es ! i), wired (n + 3) (length es) (fds ?q) i)) [0..<length es]"
      using False Cons.prems by (intro Cons.IH std_only_upd) simp_all
    also have "\<dots> = map (\<lambda>i. (ec_argv ((e # es) ! Suc i), wired n (length (e # es)) (fds p) (Suc i))) [0..<length es]"
      by (intro map_cong) (auto simp: wired_def fun_eq_iff algebra_simps)
    finally have t: "programs_of (exec_cmd os (pipeline (e # es)) p n) = (ec_argv e, (fds p)(1 := Some (Pipe_write n)))
      # map (\<lambda>i. (ec_argv ((e # es) ! Suc i), wired n (length (e # es)) (fds p) (Suc i))) [0..<length es]" .
    have z: "wired n (length (e # es)) (fds p) 0 = (fds p)(1 := Some (Pipe_write n))"
      using False by (simp add: wired_def fun_eq_iff)
    have u: "[0..<length (e # es)] = 0 # map Suc [0..<length es]"
      by (simp add: map_Suc_upt upt_conv_Cons del: upt_Suc)
    show ?thesis unfolding t u by (simp only: list.map map_map comp_def nth_Cons_0 z)
  qed
qed simp

end
