(* ===== verification/Sh_Run.thy ===== *)
theory Sh_Run
  imports Sh_Procs
begin

text \<open>
  The shell: the commands it carries out itself (\<open>builtin.c\<close>), running a line (\<open>runcmd.c\<close>, \<open>printstatus.c\<close>),
  the main loop and the handler of \<open>SIGCHLD\<close> (\<open>sh.c\<close>). What the kernel answers to \<open>chdir\<close> and \<open>waitpid\<close>
  is a parameter; what is printed on a terminal is left out, but for \<open>pwd\<close>.
\<close>

section \<open>The state of the shell\<close>

definition PRMTLEN :: nat where "PRMTLEN = 1024"

record shell =
  sh_env :: "string \<Rightarrow> string option"
  sh_cwd :: string
  sh_prompt :: string
  sh_status :: int
  sh_out :: string
  sh_fds :: "nat \<Rightarrow> fobj option"
  sh_pgrp :: int
  sh_bg_pgid :: int

section \<open>Built-in commands\<close>

definition exit_shell :: "string \<Rightarrow> bool" where
  "exit_shell cmd \<longleftrightarrow> cmd = ''exit''"

definition history :: "string \<Rightarrow> bool" where
  "history cmd \<longleftrightarrow> cmd = ''history''"

definition pwd :: "string \<Rightarrow> shell \<Rightarrow> bool \<times> shell" where
  "pwd cmd st = (if cmd = ''pwd'' then (True, st\<lparr>sh_out := sh_out st @ sh_cwd st @ [NL]\<rparr>) else (False, st))"

text \<open>
  \<open>cd\<close>: whether it changed the directory. \<open>getcwd\<close> writes the new directory where the old name was: over the
  value of \<open>HOME\<close> in the environment, or over the line. A directory name longer than the place is written
  past it, which is undefined.
\<close>

definition new_prompt :: "string \<Rightarrow> shell \<Rightarrow> shell" where
  "new_prompt d st = st\<lparr>sh_cwd := d, sh_prompt := if length d < PRMTLEN then d else ''(null)''\<rparr>"

definition cd :: "(string \<Rightarrow> string \<Rightarrow> string option) \<Rightarrow> string \<Rightarrow> shell \<Rightarrow> (bool \<times> string \<times> shell) option" where
  "cd chdir buf st =
     (let cmd = cstr buf in
      if cmd = ''cd''
      then (case sh_env st ''HOME'' of
          None \<Rightarrow> Some (False, buf, st)
        | Some home \<Rightarrow> (case chdir (sh_cwd st) home of
            None \<Rightarrow> Some (False, buf, st)
          | Some d \<Rightarrow>
              if length d < PRMTLEN
              then if length d \<le> length home
                   then Some (True, buf, new_prompt d (st\<lparr>sh_env := (sh_env st)(''HOME'' \<mapsto> d)\<rparr>)) else None
              else Some (True, buf, new_prompt d st)))
      else if take 3 cmd = ''cd ''
      then (case chdir (sh_cwd st) (drop 3 cmd) of
          None \<Rightarrow> Some (False, buf, st)
        | Some d \<Rightarrow>
            if length d < PRMTLEN
            then do {
              buf \<leftarrow> strcpy_c buf 3 d;
              Some (True, buf, new_prompt d st)
            }
            else Some (True, buf, new_prompt d st))
      else Some (False, buf, st))"

section \<open>The status of a process\<close>

text \<open>The macros of \<open>sys/wait.h\<close> on a status word.\<close>

definition WTERMSIG :: "int \<Rightarrow> int" where
  "WTERMSIG s = s mod 128"

definition WEXITSTATUS :: "int \<Rightarrow> int" where
  "WEXITSTATUS s = s div 256 mod 256"

definition WIFEXITED :: "int \<Rightarrow> bool" where
  "WIFEXITED s \<longleftrightarrow> WTERMSIG s = 0"

definition WIFSIGNALED :: "int \<Rightarrow> bool" where
  "WIFSIGNALED s \<longleftrightarrow> WTERMSIG s \<noteq> 0 \<and> WTERMSIG s \<noteq> 127"

definition print_status_info :: "cmd \<Rightarrow> shell \<Rightarrow> shell" where
  "print_status_info c st =
     (let s = sh_status st in
      if length (cmd_scmd c) = 0 \<or> type_of_cmd c = PIPE then st
      else if WIFEXITED s then st\<lparr>sh_status := WEXITSTATUS s\<rparr>
      else if WIFSIGNALED s then st\<lparr>sh_status := - WTERMSIG s\<rparr>
      else if WTERMSIG s \<noteq> 0 then st\<lparr>sh_status := - WEXITSTATUS s\<rparr>
      else st)"

section \<open>Running a line\<close>

text \<open>The copy of the shell that \<open>fork\<close> makes, with its process id.\<close>

definition forked :: "shell \<Rightarrow> int \<Rightarrow> proc" where
  "forked st p = \<lparr>fds = sh_fds st, environ = sh_env st, pid = p, pgrp = sh_pgrp st, bg_pgid = sh_bg_pgid st\<rparr>"

fun set_pid :: "int \<Rightarrow> cmd \<Rightarrow> cmd" where
  "set_pid p (Execcmd e) = Execcmd (e\<lparr>ec_pid := p\<rparr>)"
| "set_pid p (Backcmd _ s c) = Backcmd p s c"
| "set_pid p (Pipecmd _ l r) = Pipecmd p l r"

text \<open>
  \<open>run_cmd\<close> on the buffer of the line: the value it returns, the state of the shell and, when it forked, what
  the child did. \<open>p\<close> is the process id of the child and \<open>waited\<close> the status word that \<open>waitpid\<close> stores, \<open>None\<close>
  when it fails. A line without a command is a null pointer, through which the shell stores the process id.
\<close>

definition run_cmd :: "os \<Rightarrow> (string \<Rightarrow> string \<Rightarrow> string option) \<Rightarrow> int \<Rightarrow> (executed \<Rightarrow> int option) \<Rightarrow> string \<Rightarrow> shell
    \<Rightarrow> (int \<times> shell \<times> executed option) option" where
  "run_cmd os chdir p waited buf st =
     (if cstr buf = [] \<or> history (cstr buf) then Some (0, st, None)
      else do {
        (changed, buf, st) \<leftarrow> cd chdir buf st;
        if changed then Some (0, st, None)
        else if exit_shell (cstr buf) then Some (1, st, None)
        else (let (printed, st) = pwd (cstr buf) st in
          if printed then Some (0, st, None)
          else do {
            (buf, parsed) \<leftarrow> parse_line (sh_status st) (sh_env st) buf 0;
            parsed \<leftarrow> parsed;
            let ran = exec_cmd os (Some parsed) (forked st p) (nat p + 1);
            let parsed = set_pid p parsed;
            let st = (if type_of_cmd parsed = BACK then st
                      else print_status_info parsed (case waited ran of None \<Rightarrow> st | Some s \<Rightarrow> st\<lparr>sh_status := s\<rparr>));
            _ \<leftarrow> free_command (Some parsed);
            Some (0, st, Some ran)
          })
      })"

lemma read_chars_shorter:
  "read_chars_from buffer i input = Some (Some line, rest) \<Longrightarrow> length rest < length input"
  by (induction buffer i input rule: read_chars_from.induct) (fastforce split: if_splits bind_splits)+

text \<open>\<open>run_shell\<close>: the lines of the input until the end or an \<open>exit\<close>; the \<open>k\<close>-th child has the process id
  \<open>pids k\<close>.\<close>

function run_shell :: "os \<Rightarrow> (string \<Rightarrow> string \<Rightarrow> string option) \<Rightarrow> (nat \<Rightarrow> int) \<Rightarrow> (nat \<Rightarrow> executed \<Rightarrow> int option) \<Rightarrow> nat \<Rightarrow> string \<Rightarrow> shell
    \<Rightarrow> (shell \<times> executed list) option" where
  "run_shell os chdir pids waited k input st =
     (case read_line input of
        None \<Rightarrow> None
      | Some (None, rest) \<Rightarrow> Some (st, [])
      | Some (Some buf, rest) \<Rightarrow> do {
          (r, st, ran) \<leftarrow> run_cmd os chdir (pids k) (waited k) buf st;
          let ran = (case ran of None \<Rightarrow> [] | Some x \<Rightarrow> [x]);
          if r = 1 then Some (st, ran)
          else do {
            (st, more) \<leftarrow> run_shell os chdir pids waited (k + 1) rest st;
            Some (st, ran @ more)
          }
        })"
  by pat_completeness auto
termination
  by (relation "measure (\<lambda>(os, chdir, pids, waited, k, input, st). length input)")
    (auto simp: read_line_def dest: read_chars_shorter)

declare run_shell.simps [simp del]

definition init_shell :: "(string \<Rightarrow> string \<Rightarrow> string option) \<Rightarrow> shell \<Rightarrow> shell" where
  "init_shell chdir st = (case sh_env st ''HOME'' of
     None \<Rightarrow> st
   | Some home \<Rightarrow> (case chdir (sh_cwd st) home of
       None \<Rightarrow> st
     | Some d \<Rightarrow> st\<lparr>sh_cwd := d, sh_prompt := take (PRMTLEN - 1) (CHR 0x28 # home @ [CHR 0x29])\<rparr>))"

section \<open>Children and SIGCHLD\<close>

text \<open>
  The children of the shell as the kernel keeps them, with the interleavings of the shell, its children and the
  signal handler. \<open>g\<close> is the process group of the shell; \<open>j_waiting\<close> is the child \<open>run_cmd\<close> waits for.
\<close>

datatype pstate = Running | Zombie int

record job =
  j_group :: nat
  j_state :: pstate

record jobs =
  j_children :: "nat \<Rightarrow> job option"
  j_waiting :: "nat option"
  j_pending :: bool
  j_status :: int
  j_bg_pgid :: nat

text \<open>
  \<open>sigchld_handler\<close>: \<open>waitpid\<close> with the negated group until no child is left. The group 0 stands for the
  caller's own.
\<close>

definition sigchld_handler :: "nat \<Rightarrow> jobs \<Rightarrow> jobs" where
  "sigchld_handler g s = (let target = (if j_bg_pgid s = 0 then g else j_bg_pgid s) in
     s\<lparr>j_children := (\<lambda>p. case j_children s p of
         Some j \<Rightarrow> (case j_state j of Zombie _ \<Rightarrow> if j_group j = target then None else Some j | Running \<Rightarrow> Some j)
       | None \<Rightarrow> None)\<rparr>)"

inductive job_step :: "nat \<Rightarrow> jobs \<Rightarrow> jobs \<Rightarrow> bool" for g :: nat where
  start_foreground: "j_waiting s = None \<Longrightarrow> j_children s p = None \<Longrightarrow> p \<noteq> 0 \<Longrightarrow> p \<noteq> g \<Longrightarrow>
    job_step g s (s\<lparr>j_children := (j_children s)(p \<mapsto> \<lparr>j_group = g, j_state = Running\<rparr>), j_waiting := Some p\<rparr>)"
| start_background: "j_waiting s = None \<Longrightarrow> j_children s p = None \<Longrightarrow> p \<noteq> 0 \<Longrightarrow> p \<noteq> g \<Longrightarrow>
    job_step g s (s\<lparr>j_children := (j_children s)(p \<mapsto> \<lparr>j_group = g, j_state = Running\<rparr>)\<rparr>)"
| background_group: "j_waiting s \<noteq> Some p \<Longrightarrow> j_children s p = Some j \<Longrightarrow> j_state j = Running \<Longrightarrow>
    job_step g s (s\<lparr>j_children := (j_children s)(p \<mapsto> j\<lparr>j_group := if j_bg_pgid s = 0 then p else j_bg_pgid s\<rparr>)\<rparr>)"
| child_ends: "j_children s p = Some j \<Longrightarrow> j_state j = Running \<Longrightarrow>
    job_step g s (s\<lparr>j_children := (j_children s)(p \<mapsto> j\<lparr>j_state := Zombie w\<rparr>), j_pending := True\<rparr>)"
| handle_signal: "j_pending s \<Longrightarrow> job_step g s ((sigchld_handler g s)\<lparr>j_pending := False\<rparr>)"
| wait_done: "j_waiting s = Some p \<Longrightarrow> j_children s p = Some j \<Longrightarrow> j_state j = Zombie w \<Longrightarrow>
    job_step g s (s\<lparr>j_children := (j_children s)(p := None), j_waiting := None, j_status := w\<rparr>)"
| wait_fails: "j_waiting s = Some p \<Longrightarrow> j_children s p = None \<Longrightarrow> job_step g s (s\<lparr>j_waiting := None\<rparr>)"

definition jobs_init :: "jobs \<Rightarrow> bool" where
  "jobs_init s \<longleftrightarrow> j_children s = (\<lambda>_. None) \<and> j_waiting s = None \<and> \<not> j_pending s \<and> j_status s = 0 \<and> j_bg_pgid s = 0"

inductive jobs_reachable :: "nat \<Rightarrow> jobs \<Rightarrow> bool" for g :: nat where
  start: "jobs_init s \<Longrightarrow> jobs_reachable g s"
| step: "jobs_reachable g s \<Longrightarrow> job_step g s s' \<Longrightarrow> jobs_reachable g s'"

inductive_cases job_stepE: "job_step g s s'"

end
