(* ===== verification/Sh_Props.thy ===== *)
theory Sh_Props
  imports Sh_Run
begin

text \<open>
  What the shell promises of a line: how it is read and parsed, what its programs are connected to, what the
  shell knows of them afterwards; and where the code breaks.
\<close>

section \<open>Reading and parsing a line\<close>

lemma read_line_eq:
  assumes "NL \<notin> set s"
  shows "read_line (s @ NL # input) = (if length s < BUFLEN
    then Some (Some (s @ NUL # replicate (BUFLEN - Suc (length s)) NUL), input) else None)"
  unfolding read_line_def by (subst read_chars_line [OF assms]) simp_all

lemma line_buffer:
  assumes "nul_free s" and "length s < BUFLEN - 1"
  shows "map_option snd (parse_line status getenv (s @ NUL # replicate (BUFLEN - Suc (length s)) NUL) 0) = spec_line status getenv True s"
proof -
  have r: "replicate (BUFLEN - Suc (length s)) NUL \<noteq> []" using assms(2) by simp
  then have "hd (replicate (BUFLEN - Suc (length s)) NUL) = NUL" by simp
  with r show ?thesis
    using parse_line_append [OF assms(1), of 0 "[]" True] assms(2)
    by (simp add: before_def ARGSIZE_def BUFLEN_def)
qed

lemma line_full:
  assumes "nul_free s" and "CHR 0x7C \<notin> set s" and "length s = BUFLEN - 1"
  shows "parse_line status getenv (s @ [NUL]) 0 = None"
proof -
  let ?q = "\<lambda>c. c = CHR 0x7C \<or> c = NUL"
  have "\<forall>c\<in>set s. \<not> ?q c" using assms(1,2) by (auto simp: nul_free_def)
  then have "skip_until ?q (s @ [NUL]) 0 = Some (length s)"
    using skip_until_append [of s ?q NUL 0 "[]" "[]"] by simp
  moreover have "skip_until q (b @ [x]) (Suc (length b)) = None" for q b and x :: char
    using first_from_props [of "Suc (length b)" "length (b @ [x])" "\<lambda>j. q ((b @ [x]) ! j)"]
    by (auto simp: skip_until_def Let_def)
  ultimately show ?thesis
    by (subst parse_line.simps) (simp add: split_line_def poke_def list_update_append)
qed

text \<open>C23: Typing a line without NUL characters makes the shell parse exactly what the reference parser, a recursion
  on strings, makes of it, however the code walks and cuts its buffer; up to 1022 characters. A line of 1023
  characters without a pipe is read, but then the parser reads past the buffer, and a longer one overflows the
  buffer while it is read.\<close>

theorem line_parsed:
  assumes "nul_free s" and "NL \<notin> set s"
  shows "if length s < BUFLEN - 1
    then \<exists>buf. read_line (s @ NL # input) = Some (Some buf, input) \<and> cstr buf = s
      \<and> map_option snd (parse_line status getenv buf 0) = spec_line status getenv True s
    else if length s = BUFLEN - 1
    then \<exists>buf. read_line (s @ NL # input) = Some (Some buf, input)
      \<and> (CHR 0x7C \<notin> set s \<longrightarrow> parse_line status getenv buf 0 = None)
    else read_line (s @ NL # input) = None"
  using line_buffer [OF assms(1)] line_full [OF assms(1)] assms(1) unfolding read_line_eq [OF assms(2)]
  by (auto simp: BUFLEN_def cstr_simps)

text \<open>The line \<open>ls -l | wc\<close>.\<close>

definition demo_line :: string where
  "demo_line = ''ls -l | wc''"

theorem line_parsed_witness:
  "\<exists>buf. read_line (demo_line @ [NL]) = Some (Some buf, []) \<and> cstr buf = demo_line
    \<and> map_option snd (parse_line 0 (\<lambda>_. None) buf 0) = spec_line 0 (\<lambda>_. None) True demo_line"
proof -
  have "nul_free demo_line" "NL \<notin> set demo_line" "length demo_line < BUFLEN - 1"
    by (simp_all add: demo_line_def nul_free_def NUL_def NL_def BUFLEN_def)
  then show ?thesis using line_parsed [of demo_line "[]" 0 "\<lambda>_. None"] by simp
qed

text \<open>C24: \<open>parse_exec\<close> sorts the words of a command: the redirections set the files, in their order; the words
  \<open>KEY=VALUE\<close> without a dash are the environment variables; what is left, with the variables expanded and the
  empty words dropped, are the arguments. It is defined exactly when there are at most 19 arguments and at most 20
  variables: one more is written past an array of the command.\<close>

theorem command_words:
  assumes "nul_free s" and "length s < ARGSIZE"
  shows "parse_exec status getenv (pre @ s @ NUL # rest) (length pre) =
    (let ws = words s in
     if length (arguments status getenv ws) \<le> 19 \<and> length (filter is_assignment ws) \<le> 20
     then Some ((redirected (exec_cmd_create s) ws)\<lparr>ec_argv := arguments status getenv ws, ec_eargv := filter is_assignment ws\<rparr>)
     else None)"
  unfolding parse_exec_append [OF assms refl] spec_exec_words by (simp add: Let_def MAXARGS_def less_Suc_eq_le numeral_eq_Suc)

theorem command_words_witness:
  "\<exists>c. parse_exec 7 (\<lambda>_. None) (''A=b tr -d $? >out 2>&1'' @ [NUL]) 0 = Some c \<and> ec_argv c = [''tr'', ''-d'', ''7''] \<and> ec_eargv c = [''A=b'']
    \<and> ec_out c = ''out'' \<and> ec_err c = ''out'' \<and> ec_type c = REDIR"
proof -
  let ?s = "''A=b tr -d $? >out 2>&1''"
  have w: "words ?s = [''A=b'', ''tr'', ''-d'', ''$?'', ''>out'', ''2>&1'']"
    by (simp add: words.simps SPACE_def)
  have a: "arguments 7 (\<lambda>_. None) (words ?s) = [''tr'', ''-d'', ''7''] \<and> filter is_assignment (words ?s) = [''A=b'']"
    unfolding w by (simp add: arguments_def is_redir_def is_assignment_def expand_environ_var_def dec_int_def dec_nat.simps
        char_of_def bit_0)
  have "nul_free ?s" "length ?s < ARGSIZE" by (simp_all add: nul_free_def NUL_def ARGSIZE_def)
  from command_words [OF this, of 7 "\<lambda>_. None" "[]" "[]"] a show ?thesis
    by (simp add: Let_def w redirected_def parse_redir_flow_def block_contains_def)
qed

lemma words_count: "length (words s) \<le> count_list s SPACE + 1"
proof (induction s rule: words.induct)
  case (1 s)
  show ?case
  proof (cases "s = []")
    case False
    let ?r = "dropWhile (\<lambda>c. c \<noteq> SPACE) s"
    have c: "count_list s SPACE = count_list ?r SPACE"
      by (induction s) auto
    have w: "words s = takeWhile (\<lambda>c. c \<noteq> SPACE) s # words (drop 1 ?r)" using False by (subst words.simps) simp
    show ?thesis
    proof (cases ?r)
      case Nil
      then show ?thesis unfolding w Nil by simp
    next
      case (Cons x t)
      then have "x = SPACE" by (simp add: dropWhile_eq_Cons_conv)
      then show ?thesis unfolding w using 1 [OF False] c Cons by simp
    qed
  qed simp
qed

lemma arguments_count: "length (arguments status getenv ws) \<le> length ws"
  unfolding arguments_def by (rule le_trans [OF length_filter_le]) simp

lemma spec_exec_defined: "count_list s SPACE \<le> 18 \<Longrightarrow> spec_exec status getenv s \<noteq> None"
proof -
  assume c: "count_list s SPACE \<le> 18"
  have w: "length (words s) \<le> 19" using words_count [of s] c by simp
  have "length (arguments status getenv (words s)) \<le> 19" by (rule le_trans [OF arguments_count w])
  moreover have "length (filter is_assignment (words s)) \<le> 19" by (rule le_trans [OF length_filter_le w])
  ultimately show ?thesis by (simp add: spec_exec_words Let_def MAXARGS_def)
qed

lemma count_parts: "count_list (left_part s) c \<le> count_list s c" "count_list (right_part s) c \<le> count_list s c"
proof -
  have "\<exists>x. s = left_part s @ x" unfolding left_part_def by (metis takeWhile_dropWhile_id)
  then show "count_list (left_part s) c \<le> count_list s c" by (metis count_list_append le_add1)
  have "\<exists>x. s = x @ right_part s" unfolding right_part_def
    by (metis append_assoc append_take_drop_id takeWhile_dropWhile_id)
  then show "count_list (right_part s) c \<le> count_list s c" by (metis count_list_append le_add2)
qed

lemma count_take: "count_list (take i s) c \<le> count_list s c"
  by (metis append_take_drop_id count_list_append le_add1)

lemma spec_cmd_defined:
  "count_list s SPACE \<le> 18 \<Longrightarrow> \<not> front \<or> s = [] \<or> hd s \<noteq> CHR 0x26 \<Longrightarrow> spec_cmd status getenv front s \<noteq> None"
  using spec_exec_defined [of s status getenv] spec_exec_defined [of "take i s" status getenv for i]
    le_trans [OF count_take [of _ s SPACE]] strchr_c_Some [of s "CHR 0x26"]
  by (auto simp: spec_cmd_def hd_conv_nth split: option.splits)

lemma spec_line_defined:
  "count_list s SPACE \<le> 18 \<Longrightarrow> \<not> front \<or> s = [] \<or> hd s \<noteq> CHR 0x26 \<Longrightarrow> spec_line status getenv front s \<noteq> None"
proof (induction status getenv front s rule: spec_line.induct)
  case (1 status getenv front s)
  have "left_part s = [] \<or> hd (left_part s) = hd s" unfolding left_part_def by (cases s) auto
  then have "\<not> front \<or> left_part s = [] \<or> hd (left_part s) \<noteq> CHR 0x26"
    using 1(3) by (cases "s = []") (auto simp: left_part_def)
  then obtain l where l: "spec_cmd status getenv front (left_part s) = Some l"
    using spec_cmd_defined [of "left_part s" front status getenv] 1(2) count_parts(1) [of s SPACE] by fastforce
  have "count_list (right_part s) SPACE \<le> 18" using 1(2) count_parts(2) [of s SPACE] by simp
  then show ?case
    using 1(1) [OF l refl] spec_cmd_defined [of "right_part s" False status getenv]
    by (subst spec_line.simps) (auto simp: l Let_def)
qed



section \<open>Programs\<close>

text \<open>C26: The redirections of a command, with the standard descriptors open and a free one: if a file cannot be opened
  the process exits; otherwise the program gets \<open>stdin\<close>, \<open>stdout\<close> and \<open>stderr\<close> from the files named, every
  other descriptor is as before, and the words and the environment are the ones of the command. When neither the
  output nor the errors are redirected, as in \<open>cat <file\<close>, \<open>stderr\<close> becomes a copy of \<open>stdout\<close>.\<close>

theorem redirections:
  assumes "std_open os p" and "ec_type e = REDIR" and "ec_argv e \<noteq> []" and "os_exec os (hd (ec_argv e))"
  shows "exec_cmd os (Some (Execcmd e)) p n = (n, [], Inl (if opens os e
      then Executes (ec_argv e) (set_environ_vars (ec_eargv e) (p\<lparr>fds := redirected_fds e (fds p)\<rparr>)) else Exits (-1)))
    \<and> (\<forall>i\<ge>3. redirected_fds e (fds p) i = fds p i)
    \<and> (ec_out e = [] \<and> ec_err e = [] \<longrightarrow> redirected_fds e (fds p) 2 = fds p 1)"
  using assms redirect_all_ok [OF assms(1), of e]
  by (cases "ec_argv e") (auto simp: exec_program_def redirected_fds_def Let_def)

text \<open>A process with the descriptors of a terminal, and a kernel that grants everything.\<close>

definition demo_os :: os where
  "demo_os = \<lparr>os_open = (\<lambda>_ _. True), os_exec = (\<lambda>_. True), os_pipe = (\<lambda>_. True), os_fork = (\<lambda>_. True), os_fds = 1024\<rparr>"

definition demo_proc :: proc where
  "demo_proc = \<lparr>fds = (\<lambda>i. if i < 3 then Some (Inherited i) else None), environ = (\<lambda>_. None), pid = 100, pgrp = 100, bg_pgid = 0\<rparr>"

lemma demo_std: "std_only demo_os demo_proc" "std_open demo_os demo_proc"
proof -
  show "std_only demo_os demo_proc" by (simp add: std_only_def demo_os_def demo_proc_def)
  have "free_fd demo_os demo_proc = Some 3" by (simp add: free_fd_Some demo_os_def demo_proc_def)
  then show "std_open demo_os demo_proc" by (simp add: std_open_def demo_proc_def)
qed

definition simple :: "string list \<Rightarrow> execcmd" where
  "simple argv = (exec_cmd_create [])\<lparr>ec_argv := argv\<rparr>"

theorem redirections_witness:
  "\<exists>q. exec_cmd demo_os (Some (Execcmd ((simple [''cat''])\<lparr>ec_type := REDIR, ec_in := ''f''\<rparr>))) demo_proc 0
      = (0, [], Inl (Executes [''cat''] q))
    \<and> fds q 0 = Some (File ''f'' O_RDONLY) \<and> fds q 2 = Some (Inherited 1)"
  using redirections [OF demo_std(2), of "(simple [''cat''])\<lparr>ec_type := REDIR, ec_in := ''f''\<rparr>" 0]
  by (simp add: simple_def exec_cmd_create_def opens_def demo_os_def redirected_fds_def set_environ_vars_def demo_proc_def)

text \<open>C27: A pipeline of any number of programs, when the kernel grants every call: exactly its programs run, each with
  its own arguments; the first reads what the shell read and the last writes where the shell wrote, each other
  pair of neighbours shares one pipe, and no program holds any other end of a pipe, so a reader sees the
  end of its input when its writer ends.\<close>

theorem pipeline_wired:
  assumes "es \<noteq> []" and "std_only os p" and "\<And>n. os_pipe os n" and "\<And>n. os_fork os n"
    and "\<forall>e\<in>set es. ec_type e = EXEC \<and> ec_argv e \<noteq> [] \<and> os_exec os (hd (ec_argv e))"
  shows "programs_of (exec_cmd os (pipeline es) p n)
    = map (\<lambda>i. (ec_argv (es ! i), (fds p)(0 := if i = 0 then fds p 0 else Some (Pipe_read (n + 3 * (i - 1))),
        1 := if i + 1 = length es then fds p 1 else Some (Pipe_write (n + 3 * i))))) [0..<length es]"
  using exec_pipeline [OF assms(1-4)] assms(5) by (simp add: runnable_cmd_def wired_def)

theorem pipeline_wired_witness:
  "programs_of (exec_cmd demo_os (pipeline [simple [''ls''], simple [''wc'']]) demo_proc 5)
    = [([''ls''], (fds demo_proc)(1 := Some (Pipe_write 5))), ([''wc''], (fds demo_proc)(0 := Some (Pipe_read 5)))]"
proof -
  have "runnable_cmd demo_os (simple [''ls'']) \<and> runnable_cmd demo_os (simple [''wc''])"
    by (simp add: runnable_cmd_def simple_def exec_cmd_create_def demo_os_def)
  then show ?thesis
    by (subst pipeline_wired [OF _ demo_std(1)])
      (auto simp: demo_os_def simple_def exec_cmd_create_def fun_eq_iff numeral_2_eq_2)
qed

lemma command_words_alt:
  assumes "nul_free s" and "length s < ARGSIZE"
  shows "parse_exec status getenv (s @ [NUL]) 0 = spec_exec status getenv s"
  using parse_exec_append [OF assms, of 0 "[]" status getenv "[]"] by simp

text \<open>A word that is neither a redirection nor an assignment nor a variable.\<close>

definition plain_word :: "string \<Rightarrow> bool" where
  "plain_word w \<longleftrightarrow> w \<noteq> [] \<and> set w \<inter> {SPACE, NUL, CHR 0x3C, CHR 0x3E, CHR 0x3D} = {} \<and> hd w \<noteq> CHR 0x24"

text \<open>The line \<open>KEY=VALUE program\<close> runs the program with no argument, with \<open>KEY\<close> set to exactly \<open>VALUE\<close> in its
  environment, which may hold more equals signs, and everything else as the shell has it; the name and the value
  must not have spaces, dashes or redirections.\<close>

theorem assignment_roundtrip:
  assumes "plain_word key" and "plain_word prog" and "CHR 0x2D \<notin> set key"
    and "set val \<inter> {SPACE, NUL, CHR 0x3C, CHR 0x3E, CHR 0x2D} = {}"
    and "length (key @ CHR 0x3D # val @ SPACE # prog) < ARGSIZE" and "os_exec os prog"
  shows "\<exists>c. parse_exec status getenv ((key @ CHR 0x3D # val @ SPACE # prog) @ [NUL]) 0 = Some c
    \<and> exec_cmd os (Some (Execcmd c)) p n = (n, [], Inl (Executes [prog] (p\<lparr>environ := (environ p)(key \<mapsto> val)\<rparr>)))"
proof -
  let ?a = "key @ CHR 0x3D # val" and ?s = "key @ CHR 0x3D # val @ SPACE # prog"
  have s: "?s = ?a @ SPACE # prog" by simp
  have free: "nul_free ?s" using assms(1,2,4) by (auto simp: nul_free_def plain_word_def NUL_def SPACE_def)
  have w: "words ?s = [?a, prog]"
    using assms(1,2,4) unfolding s by (subst words_space) (auto simp: plain_word_def words_word SPACE_def)
  have na: "\<not> is_redir ?a" "is_assignment ?a" "\<not> is_redir prog" "\<not> is_assignment prog"
    using assms(1-4) by (cases key; cases prog; auto simp: is_redir_def is_assignment_def plain_word_def)+
  have args: "arguments status getenv [?a, prog] = [prog]" "filter is_assignment [?a, prog] = [?a]"
    using na assms(2) by (simp_all add: arguments_def expand_environ_var_def plain_word_def)
  have "redirected (exec_cmd_create ?s) [?a, prog] = exec_cmd_create ?s" using na by (simp add: redirected_def redir_flow)
  then have "parse_exec status getenv (?s @ [NUL]) 0 = Some ((exec_cmd_create ?s)\<lparr>ec_argv := [prog], ec_eargv := [?a]\<rparr>)"
    using command_words_alt [OF free assms(5)] w args by (simp add: spec_exec_words Let_def MAXARGS_def)
  moreover have "set_environ_vars [?a] p = p\<lparr>environ := (environ p)(key \<mapsto> val)\<rparr>"
  proof -
    have ne: "key \<noteq> []" and "CHR 0x3D \<notin> set key" using assms(1) by (auto simp: plain_word_def)
    from this(2) have "strchr_c ?a (CHR 0x3D) = Some (length key)" "takeWhile (\<lambda>c. c \<noteq> CHR 0x3D) ?a = key"
      by (induction key) auto
    then show ?thesis using ne
      by (simp add: set_environ_vars_def Let_def block_contains_def get_environ_key_def get_environ_value_def)
  qed
  ultimately show ?thesis using assms(6) by (simp add: exec_program_def exec_cmd_create_def)
qed

theorem assignment_roundtrip_witness:
  "\<exists>c. parse_exec 0 (\<lambda>_. None) (''A=b=c env'' @ [NUL]) 0 = Some c
    \<and> exec_cmd demo_os (Some (Execcmd c)) demo_proc 0
      = (0, [], Inl (Executes [''env''] (demo_proc\<lparr>environ := (environ demo_proc)(''A'' \<mapsto> ''b=c'')\<rparr>)))"
  using assignment_roundtrip [of "''A''" "''env''" "''b=c''" demo_os 0 "\<lambda>_. None" demo_proc 0]
  by (simp add: plain_word_def SPACE_def NUL_def ARGSIZE_def demo_os_def)

section \<open>What the shell knows of its programs\<close>

lemma cd_other: "cstr buf \<noteq> ''cd'' \<Longrightarrow> take 3 (cstr buf) \<noteq> ''cd '' \<Longrightarrow> cd chdir buf st = Some (False, buf, st)"
  by (simp add: cd_def Let_def)

definition builtin :: "string \<Rightarrow> bool" where
  "builtin cmd \<longleftrightarrow> cmd \<in> {[], ''history'', ''cd'', ''exit'', ''pwd''} \<or> take 3 cmd = ''cd ''"

lemma run_cmd_program:
  assumes "\<not> builtin (cstr buf)"
  shows "run_cmd os chdir p waited buf st = do {
    (buf, parsed) \<leftarrow> parse_line (sh_status st) (sh_env st) buf 0;
    parsed \<leftarrow> parsed;
    let ran = exec_cmd os (Some parsed) (forked st p) (nat p + 1);
    let parsed = set_pid p parsed;
    let st = (if type_of_cmd parsed = BACK then st
              else print_status_info parsed (case waited ran of None \<Rightarrow> st | Some s \<Rightarrow> st\<lparr>sh_status := s\<rparr>));
    _ \<leftarrow> free_command (Some parsed);
    Some (0, st, Some ran)
  }"
  using assms by (simp add: run_cmd_def builtin_def cd_other history_def exit_shell_def pwd_def)

text \<open>C28: After a simple command in the foreground, \<open>$?\<close> expands to the code it exited with, and to the negated number
  of the signal that killed it; it changes nothing else in the shell. When \<open>waitpid\<close> fails, the status of
  the command before, which is no status word any more, is decoded a second time: after an exit with code 1 the
  shell takes the command for one killed by signal 1.\<close>

theorem foreground_status:
  fixes os :: os and p :: int
  assumes "\<not> builtin (cstr buf)" and "parse_line (sh_status st) (sh_env st) buf 0 = Some (buf', Some (Execcmd e))"
    and "ec_scmd e \<noteq> []" and "ec_type e \<in> {EXEC, REDIR}"
  defines "res \<equiv> exec_cmd os (Some (Execcmd e)) (forked st p) (nat p + 1)"
  shows "\<exists>n. run_cmd os chdir p waited buf st = Some (0, st\<lparr>sh_status := n\<rparr>, Some res)
    \<and> (\<forall>code. waited res = Some (256 * code) \<and> 0 \<le> code \<and> code < 256 \<longrightarrow> expand_environ_var n getenv ''$?'' = dec_int code)
    \<and> (\<forall>sig core. waited res = Some (sig + 128 * core) \<and> 0 < sig \<and> sig < 127 \<longrightarrow> expand_environ_var n getenv ''$?'' = dec_int (- sig))
    \<and> (waited res = None \<and> 0 < sh_status st \<and> sh_status st < 127 \<longrightarrow> n = - sh_status st)"
proof -
  let ?w = "case waited res of None \<Rightarrow> sh_status st | Some s \<Rightarrow> s"
  let ?n = "if WIFEXITED ?w then WEXITSTATUS ?w else if WIFSIGNALED ?w then - WTERMSIG ?w else - WEXITSTATUS ?w"
  have t: "type_of_cmd (set_pid p (Execcmd e)) \<in> {EXEC, REDIR}" "cmd_scmd (set_pid p (Execcmd e)) \<noteq> []"
    using assms(3,4) by simp_all
  have "(case waited res of None \<Rightarrow> st | Some s \<Rightarrow> st\<lparr>sh_status := s\<rparr>) = st\<lparr>sh_status := ?w\<rparr>"
    by (cases "waited res") simp_all
  then have "run_cmd os chdir p waited buf st = Some (0, st\<lparr>sh_status := ?n\<rparr>, Some res)"
    using assms(2) t unfolding run_cmd_program [OF assms(1)] res_def
    by (auto simp: Let_def print_status_info_def WIFEXITED_def WIFSIGNALED_def)
  moreover have "waited res = Some (256 * code) \<Longrightarrow> 0 \<le> code \<Longrightarrow> code < 256 \<Longrightarrow> ?n = code" for code
    by (simp add: WIFEXITED_def WTERMSIG_def WEXITSTATUS_def mult.commute)
  moreover have "waited res = Some (sig + 128 * core) \<Longrightarrow> 0 < sig \<Longrightarrow> sig < 127 \<Longrightarrow> ?n = - sig" for sig core
    by (simp add: WIFEXITED_def WTERMSIG_def WIFSIGNALED_def)
  moreover have "waited res = None \<Longrightarrow> 0 < sh_status st \<Longrightarrow> sh_status st < 127 \<Longrightarrow> ?n = - sh_status st"
    by (simp add: WIFEXITED_def WTERMSIG_def WIFSIGNALED_def)
  ultimately show ?thesis by (intro exI [of _ ?n]) (simp add: expand_environ_var_def)
qed

text \<open>The shell at its start, and the line \<open>false\<close> in its buffer.\<close>

definition demo_shell :: shell where
  "demo_shell = \<lparr>sh_env = (\<lambda>_. None), sh_cwd = ''/'', sh_prompt = ''(/)'', sh_status = 0, sh_out = [],
     sh_fds = (\<lambda>i. if i < 3 then Some (Inherited i) else None), sh_pgrp = 7, sh_bg_pgid = 0\<rparr>"

lemma false_parsed:
  "\<exists>b. parse_line st env (''false'' @ NUL # replicate 1018 NUL) 0
    = Some (b, Some (Execcmd ((exec_cmd_create ''false'')\<lparr>ec_argv := [''false'']\<rparr>)))"
proof -
  have parts: "left_part ''false'' = ''false''" "right_part ''false'' = []" by (simp_all add: left_part_def right_part_def)
  have "words ''false'' = [''false'']" by (simp add: words.simps SPACE_def)
  then have "spec_exec st env ''false'' = Some ((exec_cmd_create ''false'')\<lparr>ec_argv := [''false'']\<rparr>)"
    by (simp add: spec_exec_words Let_def arguments_def is_redir_def is_assignment_def expand_environ_var_def MAXARGS_def
        redirected_def parse_redir_flow_def block_contains_def exec_cmd_create_def)
  then have "spec_line st env True ''false'' = Some (Some (Execcmd ((exec_cmd_create ''false'')\<lparr>ec_argv := [''false'']\<rparr>)))"
    by (subst spec_line.simps) (simp add: parts Let_def spec_cmd_def block_contains_def pipe_cmd_create_def)
  moreover have "nul_free ''false''" by (simp add: nul_free_def NUL_def)
  ultimately show ?thesis using line_buffer [of "''false''" st env] by (auto simp: BUFLEN_def)
qed

theorem foreground_status_witness:
  "\<exists>n x. run_cmd demo_os (\<lambda>_ _. None) 8 (\<lambda>_. Some 256) (''false'' @ NUL # replicate 1018 NUL) demo_shell
      = Some (0, demo_shell\<lparr>sh_status := n\<rparr>, Some x) \<and> expand_environ_var n (\<lambda>_. None) ''$?'' = ''1''"
proof -
  have c: "cstr (''false'' @ NUL # replicate 1018 NUL) = ''false''"
    by (rule cstr_append_NUL) (simp add: nul_free_def NUL_def)
  have b: "\<not> builtin (cstr (''false'' @ NUL # replicate 1018 NUL))" unfolding c by (simp add: builtin_def)
  obtain b' where f: "parse_line (sh_status demo_shell) (sh_env demo_shell) (''false'' @ NUL # replicate 1018 NUL) 0
      = Some (b', Some (Execcmd ((exec_cmd_create ''false'')\<lparr>ec_argv := [''false'']\<rparr>)))" using false_parsed by blast
  have "dec_int 1 = ''1''" by (simp add: dec_int_def dec_nat.simps char_of_def bit_0)
  then show ?thesis
    using foreground_status [OF b f, where os = demo_os and p = 8 and chdir = "\<lambda>_ _. None" and waited = "\<lambda>_. Some 256" and getenv = "\<lambda>_. None"]
    by (auto simp: exec_cmd_create_def)
qed

lemma pipe_without_left:
  "Option.bind m (\<lambda>rc. Some (pipe_cmd_create None rc)) = None \<or> Option.bind m (\<lambda>rc. Some (pipe_cmd_create None rc)) = Some None
    \<or> (\<exists>r. Option.bind m (\<lambda>rc. Some (pipe_cmd_create None rc)) = Some (Some (Pipecmd 0 None r)))"
  by (cases m) (auto simp: pipe_cmd_create_def split: option.split)

text \<open>Every line of up to 1022 characters that starts with a pipe kills the shell itself, whatever follows: the parser
  makes no left command of it, and either makes no command at all, and the shell stores the process id through a
  null pointer, or the shell frees a null pointer's command when the child is done.\<close>

theorem leading_pipe_crashes:
  assumes "nul_free s" and "NL \<notin> set s" and "length s < BUFLEN - 1" and "s \<noteq> []" and "hd s = CHR 0x7C"
  shows "\<exists>buf. read_line (s @ NL # input) = Some (Some buf, input) \<and> run_cmd os chdir p waited buf st = None"
proof -
  let ?buf = "s @ NUL # replicate (BUFLEN - Suc (length s)) NUL"
  obtain t where t: "s = CHR 0x7C # t" using assms(4,5) by (cases s) simp_all
  have c: "cstr ?buf = s" using assms(1) by (rule cstr_append_NUL)
  have b: "\<not> builtin (cstr ?buf)" unfolding c using t by (simp add: builtin_def)
  have "left_part s = []" using t by (simp add: left_part_def)
  then have l: "spec_cmd status getenv True (left_part s) = Some None" for status getenv by (simp add: spec_cmd_def)
  have "spec_line status getenv True s = None \<or> spec_line status getenv True s = Some None
      \<or> (\<exists>r. spec_line status getenv True s = Some (Some (Pipecmd 0 None r)))" for status getenv
  proof -
    let ?R = "if block_contains (right_part s) (CHR 0x7C) > 0 then spec_line status getenv False (right_part s)
      else spec_cmd status getenv False (right_part s)"
    have eq: "spec_line status getenv True s = Option.bind ?R (\<lambda>rc. Some (pipe_cmd_create None rc))"
      by (subst spec_line.simps) (simp only: l bind.bind_lunit Let_def)
    show ?thesis unfolding eq by (rule pipe_without_left)
  qed
  then have shape: "map_option snd (parse_line status getenv ?buf 0) = None \<or> map_option snd (parse_line status getenv ?buf 0) = Some None
      \<or> (\<exists>r. map_option snd (parse_line status getenv ?buf 0) = Some (Some (Pipecmd 0 None r)))" for status getenv
    unfolding line_buffer [OF assms(1,3)] .
  have "parse_line (sh_status st) (sh_env st) ?buf 0 = None \<or> (\<exists>b. parse_line (sh_status st) (sh_env st) ?buf 0 = Some (b, None))
      \<or> (\<exists>b r. parse_line (sh_status st) (sh_env st) ?buf 0 = Some (b, Some (Pipecmd 0 None r)))"
    using shape [of "sh_status st" "sh_env st"] by (cases "parse_line (sh_status st) (sh_env st) ?buf 0") auto
  then have "run_cmd os chdir p waited ?buf st = None"
    unfolding run_cmd_program [OF b] by (auto simp: Let_def)
  then show ?thesis using assms(3) by (auto simp: read_line_eq [OF assms(2)] BUFLEN_def)
qed

theorem leading_pipe_crashes_witness:
  "\<exists>buf. read_line (''| wc'' @ [NL]) = Some (Some buf, []) \<and> run_cmd demo_os (\<lambda>_ _. None) 8 (\<lambda>_. Some 0) buf demo_shell = None"
  by (rule leading_pipe_crashes) (simp_all add: nul_free_def NUL_def NL_def BUFLEN_def)

section \<open>Children and SIGCHLD\<close>

lemma jobs_inv:
  "jobs_reachable g s \<Longrightarrow> j_bg_pgid s = 0 \<and> (\<forall>p j. j_waiting s = Some p \<and> j_children s p = Some j \<longrightarrow> j_group j = g)"
proof (induction rule: jobs_reachable.induct)
  case (step s s')
  from step(2) show ?case
    by (cases rule: job_stepE)
      (use step(3) in \<open>auto simp: sigchld_handler_def Let_def split: option.splits pstate.splits if_splits\<close>)
qed (simp add: jobs_init_def)

lemma zombie_step:
  assumes "jobs_reachable g s" and "job_step g s s'" and "j_children s p = Some j" and "j_state j = Zombie w" and "j_group j \<noteq> g"
  shows "j_children s' p = Some j"
  using assms(2)
  by (cases rule: job_stepE)
    (use jobs_inv [OF assms(1)] assms(3-5) in \<open>auto simp: sigchld_handler_def Let_def\<close>)

inductive job_steps :: "nat \<Rightarrow> jobs \<Rightarrow> jobs \<Rightarrow> bool" for g :: nat and s :: jobs where
  refl: "job_steps g s s"
| more: "job_steps g s s' \<Longrightarrow> job_step g s' s'' \<Longrightarrow> job_steps g s s''"

lemma job_steps_reachable: "job_steps g s s' \<Longrightarrow> jobs_reachable g s \<Longrightarrow> jobs_reachable g s'"
  by (induction rule: job_steps.induct) (auto intro: jobs_reachable.step)

text \<open>A background process that has moved to its own process group and ends is never collected: in every state the
  shell can reach from there, however its steps, its children and the signal handler interleave, it is still
  a zombie. The handler asks for the children of the group in \<open>bg_pgid\<close>, but only the child itself sets that
  variable, in its own copy, so in the shell it stays 0, which means the shell's own group.\<close>

theorem background_zombies_stay:
  assumes "jobs_reachable g s" and "j_children s p = Some j" and "j_group j \<noteq> g" and "j_state j = Zombie w"
    and "job_steps g s s'"
  shows "j_children s' p = Some j \<and> j_bg_pgid s' = 0"
proof -
  have "j_children s' p = Some j"
    using assms(5,2)
  proof (induction rule: job_steps.induct)
    case (more s' s'')
    show ?case
      by (rule zombie_step [OF job_steps_reachable [OF more(1) assms(1)] more(2) more(3) assms(4,3)]) (rule assms(2))
  qed
  then show ?thesis using jobs_inv [OF job_steps_reachable [OF assms(5,1)]] by simp
qed

text \<open>The shell has started the background process 8, which has moved to its own group and ended.\<close>

definition jobs0 :: jobs where
  "jobs0 = \<lparr>j_children = (\<lambda>_. None), j_waiting = None, j_pending = False, j_status = 0, j_bg_pgid = 0\<rparr>"

definition jobs_ended :: "nat \<Rightarrow> jobs" where
  "jobs_ended grp = jobs0\<lparr>j_children := (\<lambda>_. None)(8 \<mapsto> \<lparr>j_group = grp, j_state = Zombie 0\<rparr>), j_pending := True\<rparr>"

lemma background_reachable: "jobs_reachable 7 (jobs_ended 8)"
proof -
  let ?s1 = "jobs0\<lparr>j_children := (\<lambda>_. None)(8 \<mapsto> \<lparr>j_group = 7, j_state = Running\<rparr>)\<rparr>"
  let ?s2 = "jobs0\<lparr>j_children := (\<lambda>_. None)(8 \<mapsto> \<lparr>j_group = 8, j_state = Running\<rparr>)\<rparr>"
  have "jobs_reachable 7 jobs0" by (rule jobs_reachable.start) (simp add: jobs_init_def jobs0_def)
  then have "jobs_reachable 7 ?s1"
    by (rule jobs_reachable.step) (use job_step.start_background [of jobs0 8 7] in \<open>simp add: jobs0_def\<close>)
  then have "jobs_reachable 7 ?s2"
    by (rule jobs_reachable.step) (use job_step.background_group [of ?s1 8 _ 7] in \<open>simp add: jobs0_def\<close>)
  then show ?thesis
    by (rule jobs_reachable.step) (use job_step.child_ends [of ?s2 8 _ 7 0] in \<open>simp add: jobs0_def jobs_ended_def\<close>)
qed

theorem background_zombies_stay_witness:
  "j_children ((sigchld_handler 7 (jobs_ended 8))\<lparr>j_pending := False\<rparr>) 8 = Some \<lparr>j_group = 8, j_state = Zombie 0\<rparr>"
proof -
  have "job_steps 7 (jobs_ended 8) ((sigchld_handler 7 (jobs_ended 8))\<lparr>j_pending := False\<rparr>)"
    by (rule job_steps.more [OF job_steps.refl], rule job_step.handle_signal) (simp add: jobs_ended_def)
  from background_zombies_stay [OF background_reachable _ _ _ this, of 8 _ 0] show ?thesis
    by (simp add: jobs_ended_def)
qed

text \<open>The status of a command in the foreground can be lost: when the process ends and the handler of its signal
  runs before \<open>waitpid\<close>, the handler collects it, since it is in the shell's group; then the only step of
  the shell is a \<open>waitpid\<close> that fails, and the shell keeps the status of an earlier command. Without
  the handler in between, the shell gets the status of the process.\<close>

theorem foreground_status_stolen:
  assumes "jobs_reachable g s" and "j_waiting s = Some p" and "j_children s p = Some j" and "j_state j = Running"
  shows "\<exists>s1 s2. job_step g s s1 \<and> j_children s1 p = Some (j\<lparr>j_state := Zombie w\<rparr>) \<and> job_step g s1 s2 \<and> j_children s2 p = None
    \<and> (\<forall>s3. job_step g s2 s3 \<and> j_waiting s3 = None \<longrightarrow> j_status s3 = j_status s)
    \<and> (\<exists>s3. job_step g s1 s3 \<and> j_waiting s3 = None \<and> j_status s3 = w)"
proof -
  let ?s1 = "s\<lparr>j_children := (j_children s)(p \<mapsto> j\<lparr>j_state := Zombie w\<rparr>), j_pending := True\<rparr>"
  let ?s2 = "(sigchld_handler g ?s1)\<lparr>j_pending := False\<rparr>"
  have grp: "j_group j = g" "j_bg_pgid s = 0" using jobs_inv [OF assms(1)] assms(2,3) by auto
  have 1: "job_step g s ?s1" by (rule job_step.child_ends [OF assms(3,4)])
  have 2: "job_step g ?s1 ?s2" by (rule job_step.handle_signal) simp
  have gone: "j_children ?s2 p = None" "j_waiting ?s2 = Some p" "j_status ?s2 = j_status s"
    using grp assms(2) by (simp_all add: sigchld_handler_def)
  have late: "job_step g ?s2 s3 \<Longrightarrow> j_waiting s3 = None \<Longrightarrow> j_status s3 = j_status s" for s3
    by (erule job_stepE) (use gone in \<open>auto simp: sigchld_handler_def\<close>)
  have "job_step g ?s1 (?s1\<lparr>j_children := (j_children ?s1)(p := None), j_waiting := None, j_status := w\<rparr>)"
    by (rule job_step.wait_done [of _ p "j\<lparr>j_state := Zombie w\<rparr>"]) (use assms(2) in simp_all)
  then have "\<exists>s3. job_step g ?s1 s3 \<and> j_waiting s3 = None \<and> j_status s3 = w"
    by (intro exI [of _ "?s1\<lparr>j_children := (j_children ?s1)(p := None), j_waiting := None, j_status := w\<rparr>"]) simp
  with 1 2 gone(1) late show ?thesis by (intro exI [of _ ?s1] exI [of _ ?s2]) simp
qed

theorem foreground_status_stolen_witness:
  "\<exists>s s1 s2. j_children s 9 = Some \<lparr>j_group = 7, j_state = Running\<rparr> \<and> job_step 7 s s1 \<and> job_step 7 s1 s2 \<and> j_children s2 9 = None \<and> j_waiting s = Some 9"
proof -
  let ?s = "jobs0\<lparr>j_children := (\<lambda>_. None)(9 \<mapsto> \<lparr>j_group = 7, j_state = Running\<rparr>), j_waiting := Some 9\<rparr>"
  have "jobs_reachable 7 jobs0" by (rule jobs_reachable.start) (simp add: jobs_init_def jobs0_def)
  then have "jobs_reachable 7 ?s"
    by (rule jobs_reachable.step) (use job_step.start_foreground [of jobs0 9 7] in \<open>simp add: jobs0_def\<close>)
  from foreground_status_stolen [OF this, of 9 "\<lparr>j_group = 7, j_state = Running\<rparr>" 256]
  obtain s1 s2 where "job_step 7 ?s s1" "job_step 7 s1 s2" "j_children s2 9 = None" by (auto simp: jobs0_def)
  then show ?thesis by (intro exI [of _ ?s] exI [of _ s1] exI [of _ s2]) simp
qed

end
