(* ===== verification/Lib_String.thy ===== *)
theory Lib_String
  imports Prelude
begin

text \<open>
  The string routines that the kernel and its programs share (\<open>lib/string.c\<close>). Memory is one list of bytes, a
  pointer is an index into it, and a routine reads and writes it byte by byte, so that overlapping arguments
  are what they are in C. An access outside the memory is \<open>None\<close>.
\<close>

type_synonym bytes = "u8w list"

section \<open>Strings\<close>

function strlen :: "bytes \<Rightarrow> nat \<Rightarrow> nat option" where
  "strlen m s = (case peek m s of
     None \<Rightarrow> None
   | Some c \<Rightarrow> if c \<noteq> 0 then map_option Suc (strlen m (s + 1)) else Some 0)"
  by pat_completeness auto
termination
  by (relation "measure (\<lambda>(m, s). length m - s)") (auto simp: peek_eq_Some_iff)

fun strnlen :: "bytes \<Rightarrow> nat \<Rightarrow> nat \<Rightarrow> nat option" where
  "strnlen m s 0 = Some 0"
| "strnlen m s (Suc n) = (case peek m s of
     None \<Rightarrow> None
   | Some c \<Rightarrow> if c \<noteq> 0 then map_option Suc (strnlen m (s + 1) n) else Some 0)"

function strcpy :: "nat \<Rightarrow> nat \<Rightarrow> bytes \<Rightarrow> bytes option" where
  "strcpy dst src m = do {
     c \<leftarrow> peek m src;
     m \<leftarrow> poke m dst c;
     if c \<noteq> 0 then strcpy (dst + 1) (src + 1) m else Some m
   }"
  by pat_completeness auto
termination
  by (relation "measure (\<lambda>(dst, src, m). length m - dst)") (auto simp: peek_eq_Some_iff poke_eq_Some_iff)

definition strcat :: "nat \<Rightarrow> nat \<Rightarrow> bytes \<Rightarrow> bytes option" where
  "strcat dst src m = do {
     len \<leftarrow> strlen m dst;
     strcpy (dst + len) src m
   }"

fun strncpy :: "nat \<Rightarrow> nat \<Rightarrow> nat \<Rightarrow> bytes \<Rightarrow> bytes option" where
  "strncpy dst src 0 m = Some m"
| "strncpy dst src (Suc n) m = do {
     c \<leftarrow> peek m src;
     m \<leftarrow> poke m dst c;
     c \<leftarrow> peek m src;
     strncpy (dst + 1) (if c \<noteq> 0 then src + 1 else src) n m
   }"

text \<open>\<open>strlcpy\<close>: the length copied and the memory. The size counts the terminating byte.\<close>

fun strlcpy_loop :: "nat \<Rightarrow> nat \<Rightarrow> nat \<Rightarrow> bytes \<Rightarrow> (nat \<times> bytes) option" where
  "strlcpy_loop dst src 0 m = do { m \<leftarrow> poke m dst 0; Some (dst, m) }"
| "strlcpy_loop dst src (Suc n) m = do {
     c \<leftarrow> peek m src;
     if c \<noteq> 0 then do {
       m \<leftarrow> poke m dst c;
       strlcpy_loop (dst + 1) (src + 1) n m
     }
     else do { m \<leftarrow> poke m dst 0; Some (dst, m) }
   }"

definition strlcpy :: "nat \<Rightarrow> nat \<Rightarrow> nat \<Rightarrow> bytes \<Rightarrow> (nat \<times> bytes) option" where
  "strlcpy dst src sz m = (if sz > 0
     then do { (d, m) \<leftarrow> strlcpy_loop dst src (sz - 1) m; Some (d - dst, m) }
     else Some (0, m))"

function strcmp :: "bytes \<Rightarrow> nat \<Rightarrow> nat \<Rightarrow> int option" where
  "strcmp m p q = (case peek m p of
     None \<Rightarrow> None
   | Some a \<Rightarrow> (case peek m q of
       None \<Rightarrow> None
     | Some b \<Rightarrow> if a \<noteq> 0 \<and> a = b then strcmp m (p + 1) (q + 1) else Some (uint a - uint b)))"
  by pat_completeness auto
termination
  by (relation "measure (\<lambda>(m, p, q). length m - p)") (auto simp: peek_eq_Some_iff)

fun strncmp :: "bytes \<Rightarrow> nat \<Rightarrow> nat \<Rightarrow> nat \<Rightarrow> int option" where
  "strncmp m p q 0 = Some 0"
| "strncmp m p q (Suc n) = do {
     a \<leftarrow> peek m p;
     b \<leftarrow> peek m q;
     if a \<noteq> 0 \<and> a = b then strncmp m (p + 1) (q + 1) n else Some (uint a - uint b)
   }"

text \<open>\<open>strfind\<close>: the first byte \<open>c\<close>, or the end of the string; \<open>strchr\<close> returns a null pointer at the end.\<close>

function strfind :: "bytes \<Rightarrow> nat \<Rightarrow> u8w \<Rightarrow> nat option" where
  "strfind m s c = (case peek m s of
     None \<Rightarrow> None
   | Some x \<Rightarrow> if x \<noteq> 0 \<and> x \<noteq> c then strfind m (s + 1) c else Some s)"
  by pat_completeness auto
termination
  by (relation "measure (\<lambda>(m, s, c). length m - s)") (auto simp: peek_eq_Some_iff)

function strchr :: "bytes \<Rightarrow> nat \<Rightarrow> u8w \<Rightarrow> nat option option" where
  "strchr m s c = (case peek m s of
     None \<Rightarrow> None
   | Some x \<Rightarrow> if x = 0 then Some None else if x = c then Some (Some s) else strchr m (s + 1) c)"
  by pat_completeness auto
termination
  by (relation "measure (\<lambda>(m, s, c). length m - s)") (auto simp: peek_eq_Some_iff)

declare strlen.simps [simp del] strcpy.simps [simp del] strcmp.simps [simp del] strfind.simps [simp del] strchr.simps [simp del]

section \<open>Memory\<close>

text \<open>The string instructions of the processor: \<open>n\<close> units of \<open>w\<close> bytes, from the addresses given, forwards or
  backwards as the direction flag is.\<close>

definition load :: "nat \<Rightarrow> nat \<Rightarrow> bytes \<Rightarrow> bytes option" where
  "load w s m = slice m s w"

definition store :: "nat \<Rightarrow> bytes \<Rightarrow> bytes \<Rightarrow> bytes option" where
  "store d xs m = blit m d xs"

fun rep_stos :: "bytes \<Rightarrow> nat \<Rightarrow> nat \<Rightarrow> bytes \<Rightarrow> bytes option" where
  "rep_stos unit d 0 m = Some m"
| "rep_stos unit d (Suc n) m = do {
     m \<leftarrow> store d unit m;
     rep_stos unit (d + length unit) n m
   }"

fun rep_movs :: "nat \<Rightarrow> nat \<Rightarrow> nat \<Rightarrow> nat \<Rightarrow> bytes \<Rightarrow> bytes option" where
  "rep_movs w d s 0 m = Some m"
| "rep_movs w d s (Suc n) m = do {
     xs \<leftarrow> load w s m;
     m \<leftarrow> store d xs m;
     rep_movs w (d + w) (s + w) n m
   }"

fun rep_movs_down :: "nat \<Rightarrow> nat \<Rightarrow> nat \<Rightarrow> nat \<Rightarrow> bytes \<Rightarrow> bytes option" where
  "rep_movs_down w d s 0 m = Some m"
| "rep_movs_down w d s (Suc n) m = do {
     xs \<leftarrow> load w s m;
     m \<leftarrow> store d xs m;
     rep_movs_down w (d - w) (s - w) n m
   }"

definition memset :: "nat \<Rightarrow> u32w \<Rightarrow> nat \<Rightarrow> bytes \<Rightarrow> bytes option" where
  "memset v c n m =
     (if n = 0 then Some m
      else if v mod 4 = 0 \<and> n mod 4 = 0
      then let c = c AND 0xFF; c = push_bit 24 c OR push_bit 16 c OR push_bit 8 c OR c
           in rep_stos [ucast c, ucast (drop_bit 8 c), ucast (drop_bit 16 c), ucast (drop_bit 24 c)] v (n div 4) m
      else rep_stos [ucast c] v n m)"

definition memmove :: "nat \<Rightarrow> nat \<Rightarrow> nat \<Rightarrow> bytes \<Rightarrow> bytes option" where
  "memmove dst src n m =
     (if src < dst \<and> src + n > dst
      then let s = src + n; d = dst + n in
        if s mod 4 = 0 \<and> d mod 4 = 0 \<and> n mod 4 = 0
        then rep_movs_down 4 (d - 4) (s - 4) (n div 4) m
        else rep_movs_down 1 (d - 1) (s - 1) n m
      else if src mod 4 = 0 \<and> dst mod 4 = 0 \<and> n mod 4 = 0
      then rep_movs 4 dst src (n div 4) m
      else rep_movs 1 dst src n m)"

definition memcpy :: "nat \<Rightarrow> nat \<Rightarrow> nat \<Rightarrow> bytes \<Rightarrow> bytes option" where
  "memcpy dst src n m = memmove dst src n m"

fun memcmp :: "bytes \<Rightarrow> nat \<Rightarrow> nat \<Rightarrow> nat \<Rightarrow> int option" where
  "memcmp m s1 s2 0 = Some 0"
| "memcmp m s1 s2 (Suc n) = do {
     a \<leftarrow> peek m s1;
     b \<leftarrow> peek m s2;
     if a \<noteq> b then Some (uint a - uint b) else memcmp m (s1 + 1) (s2 + 1) n
   }"

fun memfind :: "bytes \<Rightarrow> nat \<Rightarrow> u8w \<Rightarrow> nat \<Rightarrow> nat option" where
  "memfind m s c 0 = Some s"
| "memfind m s c (Suc n) = do {
     x \<leftarrow> peek m s;
     if x = c then Some s else memfind m (s + 1) c n
   }"

section \<open>Numbers\<close>

text \<open>The value of a digit for \<open>strtol\<close>, up to base 36.\<close>

definition digit_value :: "u8w \<Rightarrow> int option" where
  "digit_value c = (let x = uint c in
     if 48 \<le> x \<and> x \<le> 57 then Some (x - 48)
     else if 97 \<le> x \<and> x \<le> 122 then Some (x - 97 + 10)
     else if 65 \<le> x \<and> x \<le> 90 then Some (x - 65 + 10)
     else None)"

text \<open>The loop over the digits; \<open>long\<close> has 32 bits and wraps around.\<close>

function strtol_digits :: "bytes \<Rightarrow> nat \<Rightarrow> int \<Rightarrow> int \<Rightarrow> (int \<times> nat) option" where
  "strtol_digits m s base val = (case peek m s of
     None \<Rightarrow> None
   | Some c \<Rightarrow> (case digit_value c of
       None \<Rightarrow> Some (val, s)
     | Some dig \<Rightarrow> if dig \<ge> base then Some (val, s) else strtol_digits m (s + 1) base (s32 (s32 (val * base) + dig))))"
  by pat_completeness auto
termination
  by (relation "measure (\<lambda>(m, s, base, val). length m - s)") (auto simp: peek_eq_Some_iff)

declare strtol_digits.simps [simp del]

function skip_blanks :: "bytes \<Rightarrow> nat \<Rightarrow> nat option" where
  "skip_blanks m s = (case peek m s of
     None \<Rightarrow> None
   | Some c \<Rightarrow> if c = 32 \<or> c = 9 then skip_blanks m (s + 1) else Some s)"
  by pat_completeness auto
termination
  by (relation "measure (\<lambda>(m, s). length m - s)") (auto simp: peek_eq_Some_iff)

declare skip_blanks.simps [simp del]

text \<open>\<open>strtol\<close>: the value and the end pointer. The second character of the prefix is read only after a zero.\<close>

definition strtol :: "bytes \<Rightarrow> nat \<Rightarrow> int \<Rightarrow> (int \<times> nat) option" where
  "strtol m s base = do {
     s \<leftarrow> skip_blanks m s;
     c \<leftarrow> peek m s;
     let (s, neg) = (if c = 43 then (s + 1, False) else if c = 45 then (s + 1, True) else (s, False));
     c0 \<leftarrow> peek m s;
     hex \<leftarrow> (if (base = 0 \<or> base = 16) \<and> c0 = 48 then do { c1 \<leftarrow> peek m (s + 1); Some (c1 = 120) } else Some False);
     let (s, base) = (if hex then (s + 2, 16) else if base = 0 \<and> c0 = 48 then (s + 1, 8)
                      else if base = 0 then (s, 10) else (s, base));
     (val, s) \<leftarrow> strtol_digits m s base 0;
     Some (if neg then s32 (- val) else val, s)
   }"

section \<open>Copying\<close>

text \<open>The memory after \<open>n\<close> bytes at \<open>src\<close> have been copied to \<open>dst\<close>.\<close>

definition moved :: "nat \<Rightarrow> nat \<Rightarrow> nat \<Rightarrow> bytes \<Rightarrow> bytes" where
  "moved dst src n m = take dst m @ take n (drop src m) @ drop (dst + n) m"

lemma nth_moved:
  assumes "src + n \<le> length m" and "dst + n \<le> length m" and "i < length m"
  shows "moved dst src n m ! i = (if dst \<le> i \<and> i < dst + n then m ! (src + (i - dst)) else m ! i)"
  using assms by (auto simp: moved_def nth_append)

lemma length_moved: "src + n \<le> length m \<Longrightarrow> dst + n \<le> length m \<Longrightarrow> length (moved dst src n m) = length m"
  by (simp add: moved_def)

lemma move_unit:
  assumes "s + w \<le> length m" and "d + w \<le> length m"
  shows "Option.bind (load w s m) (\<lambda>xs. store d xs m) = Some (moved d s w m)"
  using assms by (simp add: load_def store_def slice_def blit_def moved_def)

lemma rep_movs_ok:
  assumes "s + w * n \<le> length m" and "d + w * n \<le> length m" and "d \<le> s \<or> s + w * n \<le> d"
  shows "rep_movs w d s n m = Some (moved d s (w * n) m)"
  using assms
proof (induction n arbitrary: d s m)
  case 0
  then show ?case by (simp add: moved_def)
next
  case (Suc n)
  let ?m = "moved d s w m"
  have u: "s + w \<le> length m" "d + w \<le> length m" using Suc.prems by (simp_all add: algebra_simps)
  have len: "length ?m = length m" by (rule length_moved [OF u])
  have "rep_movs w d s (Suc n) m = rep_movs w (d + w) (s + w) n ?m"
    using u by (simp add: load_def store_def slice_def blit_def moved_def)
  also have "\<dots> = Some (moved (d + w) (s + w) (w * n) ?m)"
    using Suc.prems len by (intro Suc.IH) auto
  also have "moved (d + w) (s + w) (w * n) ?m = moved d s (w * Suc n) m"
  proof (rule nth_equalityI)
    show "length (moved (d + w) (s + w) (w * n) ?m) = length (moved d s (w * Suc n) m)"
      using Suc.prems len by (simp add: length_moved)
    fix i assume "i < length (moved (d + w) (s + w) (w * n) ?m)"
    then have i: "i < length m" using Suc.prems len by (simp add: length_moved)
    have "moved (d + w) (s + w) (w * n) ?m ! i
        = (if d + w \<le> i \<and> i < d + w + w * n then ?m ! (s + w + (i - (d + w))) else ?m ! i)"
      using Suc.prems len i by (intro nth_moved) auto
    moreover have "?m ! j = (if d \<le> j \<and> j < d + w then m ! (s + (j - d)) else m ! j)" if "j < length m" for j
      by (rule nth_moved [OF u that])
    ultimately show "moved (d + w) (s + w) (w * n) ?m ! i = moved d s (w * Suc n) m ! i"
      using Suc.prems i by (subst nth_moved) auto
  qed
  finally show ?case .
qed

lemma rep_movs_down_ok:
  assumes "s + w * n \<le> length m" and "d + w * n \<le> length m" and "s < d"
  shows "rep_movs_down w (d + w * n - w) (s + w * n - w) n m = Some (moved d s (w * n) m)"
  using assms
proof (induction n arbitrary: m)
  case 0
  then show ?case by (simp add: moved_def)
next
  case (Suc n)
  let ?d = "d + w * n" and ?s = "s + w * n"
  let ?m = "moved ?d ?s w m"
  have u: "?s + w \<le> length m" "?d + w \<le> length m" using Suc.prems by (simp_all add: algebra_simps)
  have len: "length ?m = length m" by (rule length_moved [OF u])
  have "rep_movs_down w (d + w * Suc n - w) (s + w * Suc n - w) (Suc n) m = rep_movs_down w (?d - w) (?s - w) n ?m"
    using u by (simp add: load_def store_def slice_def blit_def moved_def)
  also have "\<dots> = Some (moved d s (w * n) ?m)"
    using Suc.prems len by (intro Suc.IH) auto
  also have "moved d s (w * n) ?m = moved d s (w * Suc n) m"
  proof (rule nth_equalityI)
    show "length (moved d s (w * n) ?m) = length (moved d s (w * Suc n) m)"
      using Suc.prems len by (simp add: length_moved)
    fix i assume "i < length (moved d s (w * n) ?m)"
    then have i: "i < length m" using Suc.prems len by (simp add: length_moved)
    have "moved d s (w * n) ?m ! i = (if d \<le> i \<and> i < d + w * n then ?m ! (s + (i - d)) else ?m ! i)"
      using Suc.prems len i by (intro nth_moved) auto
    moreover have "?m ! j = (if ?d \<le> j \<and> j < ?d + w then m ! (?s + (j - ?d)) else m ! j)" if "j < length m" for j
      by (rule nth_moved [OF u that])
    ultimately show "moved d s (w * n) ?m ! i = moved d s (w * Suc n) m ! i"
      using Suc.prems i by (subst nth_moved) auto
  qed
  finally show ?case .
qed

text \<open>C29: \<open>memmove\<close> copies the block as if through a second buffer, whether the two overlap or not and whichever of
  the four loops (words or bytes, forwards or backwards) it picks.\<close>

theorem memmove_moves:
  assumes "src + n \<le> length m" and "dst + n \<le> length m"
  shows "memmove dst src n m = Some (take dst m @ take n (drop src m) @ drop (dst + n) m)"
proof -
  have four: "n mod 4 = 0 \<Longrightarrow> 4 * (n div 4) = n" by presburger
  have "memmove dst src n m = Some (moved dst src n m)"
  proof (cases "src < dst \<and> src + n > dst")
    case True
    then show ?thesis
      using rep_movs_down_ok [of src 4 "n div 4" m dst] rep_movs_down_ok [of src 1 n m dst] assms four
      by (auto simp: memmove_def Let_def)
  next
    case False
    then have "dst \<le> src \<or> src + n \<le> dst" by linarith
    then show ?thesis
      using rep_movs_ok [of src 4 "n div 4" m dst] rep_movs_ok [of src 1 n m dst] assms four False
      by (auto simp: memmove_def Let_def)
  qed
  then show ?thesis by (simp add: moved_def)
qed

theorem memmove_moves_witness:
  "memmove 1 0 4 [1, 2, 3, 4, 5, 6] = Some [1, 1, 2, 3, 4, 6]"
  by (subst memmove_moves) simp_all

end
