(* ===== verification/Lib_Printf.thy ===== *)
theory Lib_Printf
  imports Lib_String Kern_Mem
begin

text \<open>
  Formatted output and line input (\<open>lib/printfmt.c\<close>, \<open>lib/printf.c\<close>, \<open>lib/readline.c\<close>). What the formatter hands to
  \<open>putch\<close> does not depend on it, so the formatter yields the list of the characters, as integers, and each
  user of it folds its own \<open>putch\<close> over that list.
\<close>

section \<open>Numbers\<close>

definition code :: "char \<Rightarrow> int" where
  "code c = of_char c"

definition hex_digits :: string where
  "hex_digits = ''0123456789abcdef''"

text \<open>\<open>printnum\<close>: the padding goes before the first digit, whatever the padding character is. The program calls it
  with bases 8, 10 and 16; with a base below 2 the code would not end.\<close>

function printnum :: "nat \<Rightarrow> nat \<Rightarrow> int \<Rightarrow> int \<Rightarrow> int list" where
  "printnum num base width padc =
     (if num \<ge> base \<and> base \<ge> 2 then printnum (num div base) base (width - 1) padc else replicate (nat (width - 1)) padc)
     @ [code (hex_digits ! (num mod base))]"
  by pat_completeness auto
termination
  by (relation "measure (\<lambda>(num, base, width, padc). num)") (auto intro: div_less_dividend)

declare printnum.simps [simp del]

section \<open>Arguments\<close>

text \<open>The variable arguments: a word, a \<open>long long\<close>, a pointer to a string (\<open>None\<close> is the null pointer). Fetching one as
  something else is undefined.\<close>

datatype varg = Word u32w | Long_long "64 word" | Str "string option"

definition getuint :: "nat \<Rightarrow> varg list \<Rightarrow> (nat \<times> varg list) option" where
  "getuint lflag ap = (if lflag \<ge> 2
     then (case ap of Long_long w # ap \<Rightarrow> Some (unat w, ap) | _ \<Rightarrow> None)
     else (case ap of Word w # ap \<Rightarrow> Some (unat w, ap) | _ \<Rightarrow> None))"

definition getint :: "nat \<Rightarrow> varg list \<Rightarrow> (int \<times> varg list) option" where
  "getint lflag ap = (if lflag \<ge> 2
     then (case ap of Long_long w # ap \<Rightarrow> Some (sint w, ap) | _ \<Rightarrow> None)
     else (case ap of Word w # ap \<Rightarrow> Some (sint w, ap) | _ \<Rightarrow> None))"

section \<open>The flags of a directive\<close>

record flags =
  padc :: int
  width :: int
  precision :: int
  lflag :: nat
  altflag :: bool

definition no_flags :: flags where
  "no_flags = \<lparr>padc = 32, width = -1, precision = -1, lflag = 0, altflag = False\<rparr>"

definition process_precision :: "flags \<Rightarrow> flags" where
  "process_precision f = (if width f < 0 then f\<lparr>width := precision f, precision := -1\<rparr> else f)"

definition is_digit :: "char \<Rightarrow> bool" where
  "is_digit c \<longleftrightarrow> code c \<ge> 48 \<and> code c \<le> 57"

text \<open>The value of a run of digits; field widths are far from the range of \<open>int\<close>.\<close>

definition digits_value :: "string \<Rightarrow> int" where
  "digits_value ds = foldl (\<lambda>v c. v * 10 + code c - 48) 0 ds"

text \<open>The part of the code between \<open>reswitch\<close> and the conversion: the conversion character (\<open>NUL\<close> at the end of the
  format), what follows it, the arguments left and the flags.\<close>

function scan_flags :: "string \<Rightarrow> varg list \<Rightarrow> flags \<Rightarrow> (char \<times> string \<times> varg list \<times> flags) option" where
  "scan_flags fmt ap f = (case fmt of
     [] \<Rightarrow> Some (NUL, [], ap, f)
   | c # cs \<Rightarrow>
       if c = CHR 0x2D then scan_flags cs ap (f\<lparr>padc := 45\<rparr>)
       else if c = CHR 0x30 then scan_flags cs ap (f\<lparr>padc := 48\<rparr>)
       else if is_digit c
       then scan_flags (dropWhile is_digit cs) ap (process_precision (f\<lparr>precision := digits_value (c # takeWhile is_digit cs)\<rparr>))
       else if c = CHR 0x2A
       then (case ap of
           Word w # ap \<Rightarrow> scan_flags cs ap (process_precision (f\<lparr>precision := sint w\<rparr>))
         | _ \<Rightarrow> None)
       else if c = CHR 0x2E then scan_flags cs ap (if width f < 0 then f\<lparr>width := 0\<rparr> else f)
       else if c = CHR 0x23 then scan_flags cs ap (f\<lparr>altflag := True\<rparr>)
       else if c = CHR 0x6C then scan_flags cs ap (f\<lparr>lflag := lflag f + 1\<rparr>)
       else Some (c, cs, ap, f))"
  by pat_completeness auto
termination
  by (relation "measure (\<lambda>(fmt, ap, f). length fmt)") (auto simp: less_Suc_eq_le length_dropWhile_le)

declare scan_flags.simps [simp del]

section \<open>Conversions\<close>

definition MAXERROR :: int where "MAXERROR = 9"

definition error_string :: "int \<Rightarrow> string option" where
  "error_string err =
     (if err = E_UNSPECIFIED then Some ''unspecified error''
      else if err = E_BAD_ENV then Some ''bad environment''
      else if err = E_INVAL then Some ''invalid parameter''
      else if err = E_NO_MEM then Some ''out of memory''
      else if err = E_NO_FREE_ENV then Some ''out of environments''
      else if err = E_FAULT then Some ''segmentation fault''
      else if err = E_IPC_NOT_RECV then Some ''env is not recving''
      else if err = E_EOF then Some ''unexpected end of file''
      else None)"

definition print_str :: "string option \<Rightarrow> flags \<Rightarrow> int list" where
  "print_str p f =
     (let s = (case p of None \<Rightarrow> ''(null)'' | Some s \<Rightarrow> s);
          shown = (if precision f < 0 then s else take (nat (precision f)) s);
          left = (width f > 0 \<and> padc f \<noteq> 45);
          w = width f - int (length shown)
      in (if left then replicate (nat w) (padc f) else [])
         @ map (\<lambda>c. if altflag f \<and> (code c < 32 \<or> code c > 126) then 63 else code c) shown
         @ (if left then [] else replicate (nat w) 32))"

definition print_int :: "int \<Rightarrow> flags \<Rightarrow> int list" where
  "print_int n f = (if n < 0 then 45 # printnum (nat (- n)) 10 (width f) (padc f) else printnum (nat n) 10 (width f) (padc f))"

text \<open>What a conversion prints, with the arguments left; \<open>Some None\<close> is an unknown conversion.\<close>

definition convert :: "char \<Rightarrow> varg list \<Rightarrow> flags \<Rightarrow> (int list \<times> varg list) option option" where
  "convert ch ap f =
     (let unsigned = (\<lambda>base. map_option (\<lambda>(n, ap). Some (printnum n base (width f) (padc f), ap)) (getuint (lflag f) ap)) in
      if ch = CHR ''c'' then (case ap of Word w # ap \<Rightarrow> Some (Some ([sint w], ap)) | _ \<Rightarrow> None)
      else if ch = CHR ''e''
      then (case ap of
          Word w # ap \<Rightarrow> (let err = (if sint w < 0 then - sint w else sint w) in
            Some (Some (case (if err \<ge> MAXERROR then None else error_string err) of
                None \<Rightarrow> map code ''error '' @ print_int err no_flags
              | Some p \<Rightarrow> print_str (Some p) no_flags, ap)))
        | _ \<Rightarrow> None)
      else if ch = CHR ''s'' then (case ap of Str p # ap \<Rightarrow> Some (Some (print_str p f, ap)) | _ \<Rightarrow> None)
      else if ch = CHR ''d'' then map_option (\<lambda>(n, ap). Some (print_int n f, ap)) (getint (lflag f) ap)
      else if ch = CHR ''u'' then unsigned 10
      else if ch = CHR ''o'' then unsigned 8
      else if ch = CHR ''p''
      then (case ap of Word w # ap \<Rightarrow> Some (Some ([48, 120] @ printnum (unat w) 16 (width f) (padc f), ap)) | _ \<Rightarrow> None)
      else if ch = CHR ''x'' then unsigned 16
      else if ch = CHR 0x25 then Some (Some ([37], ap))
      else Some None)"

lemma scan_flags_shorter: "scan_flags fmt ap f = Some (c, rest, ap', f') \<Longrightarrow> length rest \<le> length fmt"
proof (induction fmt ap f rule: scan_flags.induct)
  case (1 fmt ap f)
  show ?case
  proof (cases fmt)
    case Nil
    then show ?thesis using 1(8) by (simp add: scan_flags.simps [of "[]"])
  next
    case (Cons d ds)
    have "length (dropWhile is_digit ds) \<le> length ds" by (rule length_dropWhile_le)
    then show ?thesis
      using 1 Cons unfolding scan_flags.simps [of fmt]
      by (auto split: if_splits list.splits varg.splits intro: le_SucI le_trans)
  qed
qed

text \<open>\<open>vprintfmt\<close>: an unknown conversion is printed from its percent sign on, literally.\<close>

function vprintfmt :: "string \<Rightarrow> varg list \<Rightarrow> int list option" where
  "vprintfmt fmt ap = (case fmt of
     [] \<Rightarrow> Some []
   | c # cs \<Rightarrow>
       if c \<noteq> CHR 0x25 then map_option ((#) (code c)) (vprintfmt cs ap)
       else (case scan_flags cs ap no_flags of
           None \<Rightarrow> None
         | Some (ch, rest, ap, f) \<Rightarrow> (case convert ch ap f of
               None \<Rightarrow> None
             | Some None \<Rightarrow> map_option ((#) 37) (vprintfmt cs ap)
             | Some (Some (out, ap)) \<Rightarrow> map_option ((@) out) (vprintfmt rest ap))))"
  by pat_completeness auto
termination
  by (relation "measure (\<lambda>(fmt, ap). length fmt)") (auto dest: scan_flags_shorter)

declare vprintfmt.simps [simp del]

section \<open>Printing into a buffer\<close>

record sprintbuf =
  sp_buf :: nat
  sp_ebuf :: nat
  sp_cnt :: int

definition sprintputch :: "int \<Rightarrow> sprintbuf \<times> bytes \<Rightarrow> (sprintbuf \<times> bytes) option" where
  "sprintputch ch = (\<lambda>(b, m).
     let b = b\<lparr>sp_cnt := sp_cnt b + 1\<rparr> in
     if sp_buf b < sp_ebuf b then do {
       m \<leftarrow> poke m (sp_buf b) (word_of_int ch);
       Some (b\<lparr>sp_buf := sp_buf b + 1\<rparr>, m)
     }
     else Some (b, m))"

fun put_all :: "(int \<Rightarrow> 's \<Rightarrow> 's option) \<Rightarrow> int list \<Rightarrow> 's \<Rightarrow> 's option" where
  "put_all putch [] s = Some s"
| "put_all putch (c # cs) s = Option.bind (putch c s) (put_all putch cs)"

text \<open>\<open>vsnprintf\<close> into the \<open>n\<close> bytes at \<open>buf\<close>: its result and the memory.\<close>

definition vsnprintf :: "nat \<Rightarrow> int \<Rightarrow> string \<Rightarrow> varg list \<Rightarrow> bytes \<Rightarrow> (int \<times> bytes) option" where
  "vsnprintf buf n fmt ap m =
     (if n < 1 then Some (- E_INVAL, m)
      else do {
        out \<leftarrow> vprintfmt fmt ap;
        (b, m) \<leftarrow> put_all sprintputch out (\<lparr>sp_buf = buf, sp_ebuf = nat (int buf + n - 1), sp_cnt = 0\<rparr>, m);
        m \<leftarrow> poke m (sp_buf b) 0;
        Some (sp_cnt b, m)
      })"

section \<open>Printing from a program\<close>

text \<open>The buffer of \<open>lib/printf.c\<close>, with the calls of \<open>sys_cputs\<close> made so far.\<close>

record printbuf =
  pb_idx :: nat
  pb_cnt :: int
  pb_buf :: bytes
  pb_calls :: "bytes list"

definition putch :: "int \<Rightarrow> printbuf \<Rightarrow> printbuf option" where
  "putch ch b = do {
     buf \<leftarrow> poke (pb_buf b) (pb_idx b) (word_of_int ch);
     let b = b\<lparr>pb_buf := buf, pb_idx := pb_idx b + 1\<rparr>;
     let b = (if pb_idx b = 256 - 1 then b\<lparr>pb_calls := pb_calls b @ [take (pb_idx b) (pb_buf b)], pb_idx := 0\<rparr> else b);
     Some (b\<lparr>pb_cnt := pb_cnt b + 1\<rparr>)
   }"

text \<open>\<open>vcprintf\<close> of a program, with what is in the memory of the buffer: its result and the calls.\<close>

definition vcprintf :: "string \<Rightarrow> varg list \<Rightarrow> bytes \<Rightarrow> (int \<times> bytes list) option" where
  "vcprintf fmt ap junk = do {
     out \<leftarrow> vprintfmt fmt ap;
     b \<leftarrow> put_all putch out \<lparr>pb_idx = 0, pb_cnt = 0, pb_buf = junk, pb_calls = []\<rparr>;
     Some (pb_cnt b, pb_calls b @ [take (pb_idx b) (pb_buf b)])
   }"

section \<open>Reading a line\<close>

definition RLBUFLEN :: nat where "RLBUFLEN = 1024"

text \<open>The loop of \<open>readline\<close> on the characters \<open>getchar\<close> returns: the buffer and the length of the line, \<open>Some None\<close>
  after a read error, and the characters echoed. Without more input it goes on waiting.\<close>

fun readline_loop :: "bytes \<Rightarrow> nat \<Rightarrow> int list \<Rightarrow> int list \<Rightarrow> ((bytes \<times> nat) option \<times> int list) option" where
  "readline_loop buf i echo [] = None"
| "readline_loop buf i echo (c # input) =
     (if c < 0 then Some (None, echo)
      else if (c = 8 \<or> c = 127) \<and> i > 0 then readline_loop buf (i - 1) (echo @ [8]) input
      else if c \<ge> 32 \<and> i < RLBUFLEN - 1 then do {
        buf \<leftarrow> poke buf i (word_of_int c);
        readline_loop buf (i + 1) (echo @ [c]) input
      }
      else if c = 10 \<or> c = 13 then do {
        buf \<leftarrow> poke buf i 0;
        Some (Some (buf, i), echo @ [10])
      }
      else readline_loop buf i echo input)"

definition readline :: "bytes \<Rightarrow> int list \<Rightarrow> ((bytes \<times> nat) option \<times> int list) option" where
  "readline buf input = readline_loop buf 0 [] input"

end
