(* ===== verification/Lib_Props.thy ===== *)
theory Lib_Props
  imports Lib_Printf
begin

text \<open>
  What the shared library promises: formatted output into a buffer stays in it, numbers printed can be read
  back, a program's output arrives whole however it is cut into system calls, and a line is what was typed.
\<close>

section \<open>Formatted output\<close>

lemma sprint_all:
  assumes "i \<le> e" and "e < length m"
  shows "put_all sprintputch out (\<lparr>sp_buf = i, sp_ebuf = e, sp_cnt = n\<rparr>, m)
    = (let k = min (length out) (e - i) in
       Some (\<lparr>sp_buf = i + k, sp_ebuf = e, sp_cnt = n + int (length out)\<rparr>,
         take i m @ map word_of_int (take k out) @ drop (i + k) m))"
  using assms
proof (induction out arbitrary: i n m)
  case (Cons c out)
  show ?case
  proof (cases "i < e")
    case True
    have "take (i + 1) (m[i := word_of_int c]) = take i m @ [word_of_int c]"
      using True Cons.prems by (simp add: take_Suc_conv_app_nth)
    moreover have "min (length (c # out)) (e - i) = Suc (min (length out) (e - (i + 1)))" using True by simp
    ultimately show ?thesis
      using True Cons.prems Cons.IH [of "i + 1" "m[i := word_of_int c]" "n + 1"]
      by (simp add: sprintputch_def poke_def Let_def)
  next
    case False
    then show ?thesis using Cons.prems Cons.IH [of i m "n + 1"] by (simp add: sprintputch_def Let_def)
  qed
qed simp

text \<open>C30: \<open>vsnprintf\<close> with a buffer of \<open>n\<close> bytes, at least one, writes no byte outside it, whatever the format makes:
  the buffer holds as many of the characters as fit with a terminating zero byte, and the result is the
  length the whole output has.\<close>

theorem snprintf_bounded:
  assumes "vprintfmt fmt ap = Some out" and "1 \<le> n" and "int buf + n \<le> int (length m)"
  shows "let k = min (length out) (nat n - 1) in
    vsnprintf buf n fmt ap m = Some (int (length out), take buf m @ map word_of_int (take k out) @ 0 # drop (buf + k + 1) m)
    \<and> k < nat n"
proof -
  let ?e = "nat (int buf + n - 1)" and ?k = "min (length out) (nat n - 1)"
  have e: "buf \<le> ?e" "?e < length m" "?e - buf = nat n - 1" using assms(2,3) by auto
  have k: "buf + ?k < length m" "?k < nat n" using assms(2,3) by auto
  let ?m = "take buf m @ map word_of_int (take ?k out) @ drop (buf + ?k) m"
  have run: "put_all sprintputch out (\<lparr>sp_buf = buf, sp_ebuf = ?e, sp_cnt = 0\<rparr>, m)
      = Some (\<lparr>sp_buf = buf + ?k, sp_ebuf = ?e, sp_cnt = int (length out)\<rparr>, ?m)"
    using sprint_all [OF e(1,2), of out 0] unfolding e(3) by (simp add: Let_def)
  have "poke ?m (buf + ?k) 0 = Some (take buf m @ map word_of_int (take ?k out) @ 0 # drop (buf + ?k + 1) m)"
  proof -
    have "drop (buf + ?k) m = m ! (buf + ?k) # drop (buf + ?k + 1) m" using k(1) by (simp add: Cons_nth_drop_Suc)
    moreover have "length (take buf m @ map word_of_int (take ?k out)) = buf + ?k" using k(1) by simp
    ultimately show ?thesis using k(1) by (simp add: poke_def list_update_append)
  qed
  then show ?thesis using assms(1,2) run k(2) unfolding vsnprintf_def by (simp add: Let_def)
qed

theorem snprintf_bounded_witness:
  "vsnprintf 1 4 ''hello'' [] (replicate 8 7) = Some (5, [7, 104, 101, 108, 0, 7, 7, 7])"
proof -
  have out: "vprintfmt ''hello'' [] = Some [104, 101, 108, 108, 111]"
    by (simp add: vprintfmt.simps code_def)
  show ?thesis using snprintf_bounded [OF out, of 4 1 "replicate 8 7"] by (simp add: Let_def numeral_eq_Suc)
qed

section \<open>Numbers\<close>

lemma printnum_shape:
  "2 \<le> base \<Longrightarrow> \<exists>p ds. printnum num base wid pd = replicate p pd @ map (\<lambda>d. code (hex_digits ! d)) ds
    \<and> foldl (\<lambda>v d. v * base + d) 0 ds = num \<and> (\<forall>d\<in>set ds. d < base) \<and> ds \<noteq> [] \<and> (hd ds = 0 \<longrightarrow> ds = [0])"
proof (induction num base wid pd rule: printnum.induct)
  case (1 num base wid pd)
  show ?case
  proof (cases "num \<ge> base")
    case True
    obtain p ds where all: "printnum (num div base) base (wid - 1) pd = replicate p pd @ map (\<lambda>d. code (hex_digits ! d)) ds
        \<and> foldl (\<lambda>v d. v * base + d) 0 ds = num div base \<and> (\<forall>d\<in>set ds. d < base) \<and> ds \<noteq> [] \<and> (hd ds = 0 \<longrightarrow> ds = [0])"
      using 1(1) [OF conjI [OF True 1(2)] 1(2)] by (elim exE) (rule that)
    note ih = all [THEN conjunct1] all [THEN conjunct2, THEN conjunct1] all [THEN conjunct2, THEN conjunct2, THEN conjunct1]
      all [THEN conjunct2, THEN conjunct2, THEN conjunct2, THEN conjunct1] all [THEN conjunct2, THEN conjunct2, THEN conjunct2, THEN conjunct2]
    have "num div base \<noteq> 0" using True 1(2) by (simp add: div_eq_0_iff)
    then have "ds \<noteq> [0]" using ih(2) by auto
    then have "hd ds \<noteq> 0" using ih(5) by blast
    have "printnum num base wid pd = replicate p pd @ map (\<lambda>d. code (hex_digits ! d)) (ds @ [num mod base])"
      using True 1(2) ih(1) by (subst printnum.simps) simp
    moreover have "foldl (\<lambda>v d. v * base + d) 0 (ds @ [num mod base]) = num" using ih(2) by simp
    moreover have "\<forall>d\<in>set (ds @ [num mod base]). d < base" using ih(3) 1(2) by simp
    moreover have "hd (ds @ [num mod base]) \<noteq> 0" using ih(4) \<open>hd ds \<noteq> 0\<close> by simp
    ultimately show ?thesis by (intro exI [of _ p] exI [of _ "ds @ [num mod base]"]) simp
  next
    case False
    then show ?thesis
      by (intro exI [of _ "nat (wid - 1)"] exI [of _ "[num]"]) (auto simp: printnum.simps [of num])
  qed
qed

lemma digit_value_code: "d < 16 \<Longrightarrow> digit_value (word_of_int (code (hex_digits ! d))) = Some (int d)"
proof -
  have "\<forall>d\<in>set [0..<16]. digit_value (word_of_int (code (hex_digits ! d))) = Some (int d)"
    by (simp add: upt_rec hex_digits_def code_def digit_value_def Let_def)
  then show "d < 16 \<Longrightarrow> ?thesis" by simp
qed

lemma fold_digits_mono: "(v :: nat) \<le> foldl (\<lambda>v d. v * base + d) v ds" if "1 \<le> base"
proof (induction ds arbitrary: v)
  case (Cons d ds)
  have "v \<le> v * base + d" using that by (simp add: trans_le_add1)
  also have "\<dots> \<le> foldl (\<lambda>v d. v * base + d) (v * base + d) ds" by (rule Cons.IH)
  finally show ?case by simp
qed simp

lemma strtol_digits_run:
  assumes "\<forall>d\<in>set ds. d < base" and "2 \<le> base" and "base \<le> 16" and "i = length pre"
    and "foldl (\<lambda>v d. v * base + d) v ds < 2 ^ 31"
  shows "strtol_digits (pre @ map (\<lambda>d. word_of_int (code (hex_digits ! d))) ds @ 0 # rest) i (int base) (int v)
    = Some (int (foldl (\<lambda>v d. v * base + d) v ds), i + length ds)"
  using assms(1,4,5)
proof (induction ds arbitrary: pre i v)
  case Nil
  then show ?case by (subst strtol_digits.simps) (simp add: peek_def digit_value_def)
next
  case (Cons d ds)
  have d: "digit_value (word_of_int (code (hex_digits ! d))) = Some (int d)" "d < base"
    using Cons.prems(1) assms(3) by (auto intro: digit_value_code)
  have step: "foldl (\<lambda>v d. v * base + d) (v * base + d) ds < 2 ^ 31" using Cons.prems(3) by simp
  have "v * base + d < 2 ^ 31" using fold_digits_mono [of base "v * base + d" ds] assms(2) step by simp
  then have "int v * int base + int d < 2 ^ 31" by (metis of_nat_add of_nat_less_iff of_nat_mult of_nat_numeral of_nat_power)
  then have s: "s32 (s32 (int v * int base) + int d) = int (v * base + d)"
  proof -
    define a where "a = int v * int base"
    have a: "0 \<le> a" "a + int d < 2 ^ 31" using \<open>int v * int base + int d < 2 ^ 31\<close> by (simp_all add: a_def)
    then have "s32 a = a" "s32 (a + int d) = a + int d" by (auto intro!: s32_id)
    then show ?thesis by (simp add: a_def)
  qed
  let ?m = "pre @ map (\<lambda>d. word_of_int (code (hex_digits ! d))) (d # ds) @ 0 # rest"
  have p: "peek ?m i = Some (word_of_int (code (hex_digits ! d)))" using Cons.prems(2) by (simp add: peek_def)
  have "strtol_digits ?m i (int base) (int v) = strtol_digits ?m (i + 1) (int base) (int (v * base + d))"
    by (subst strtol_digits.simps) (use p d s in simp)
  also have "\<dots> = Some (int (foldl (\<lambda>v d. v * base + d) (v * base + d) ds), i + 1 + length ds)"
    using Cons.IH [of "i + 1" "pre @ [word_of_int (code (hex_digits ! d))]" "v * base + d"] Cons.prems step by simp
  finally show ?case by simp
qed

lemma skip_blanks_run:
  "i = length pre \<Longrightarrow> c \<noteq> 32 \<Longrightarrow> c \<noteq> 9 \<Longrightarrow> skip_blanks (pre @ replicate p 32 @ c # rest) i = Some (i + p)"
proof (induction p arbitrary: pre i)
  case 0
  then show ?case by (subst skip_blanks.simps) (simp add: peek_def)
next
  case (Suc p)
  have "peek (pre @ replicate (Suc p) 32 @ c # rest) i = Some 32" using Suc.prems by (simp add: peek_def)
  then show ?case using Suc.IH [of "i + 1" "pre @ [32]"] Suc.prems
    by (subst skip_blanks.simps) simp
qed

lemma digit_code:
  assumes "d < 16"
  shows "word_of_int (code (hex_digits ! d)) \<notin> {32, 9, 43, 45 :: u8w} \<and> (word_of_int (code (hex_digits ! d)) = (48 :: u8w) \<longleftrightarrow> d = 0)"
proof -
  have "\<forall>d\<in>set [0..<16]. word_of_int (code (hex_digits ! d)) \<notin> {32, 9, 43, 45 :: u8w}
      \<and> (word_of_int (code (hex_digits ! d)) = (48 :: u8w) \<longleftrightarrow> d = 0)"
    by (simp add: upt_rec hex_digits_def code_def)
  then show ?thesis using assms by simp
qed

text \<open>C31: Reading back a printed number gives the number: for every number below \<open>2 ^ 31\<close>, base 8, 10 or 16 and field
  width, \<open>strtol\<close> in that base on the text that \<open>printnum\<close> makes with spaces as padding returns the
  number, and its end pointer is the end of the text.\<close>

theorem print_then_strtol:
  assumes "base \<in> {8, 10, 16}" and "num < 2 ^ 31"
  shows "strtol (pre @ map word_of_int (printnum num base w 32) @ 0 # rest) (length pre) (int base)
    = Some (int num, length pre + length (printnum num base w 32))"
proof -
  have b: "2 \<le> base" "base \<le> 16" using assms(1) by auto
  let ?dig = "\<lambda>d. word_of_int (code (hex_digits ! d)) :: u8w"
  obtain p ds where sh: "printnum num base w 32 = replicate p 32 @ map (\<lambda>d. code (hex_digits ! d)) ds"
    and val: "foldl (\<lambda>v d. v * base + d) 0 ds = num" and dig: "\<forall>d\<in>set ds. d < base" and ne: "ds \<noteq> []" and z: "hd ds = 0 \<longrightarrow> ds = [0]"
    using printnum_shape [OF b(1), of num w 32] by (elim exE conjE) (rule that)
  obtain d ds' where ds: "ds = d # ds'" using ne by (cases ds) auto
  have d: "d < 16" using dig b ds by auto
  let ?m = "pre @ map word_of_int (printnum num base w 32) @ 0 # rest" and ?s = "length pre + p"
  have m: "?m = pre @ replicate p 32 @ ?dig d # (map ?dig ds' @ 0 # rest)" unfolding sh ds by (simp add: comp_def)
  have m2: "?m = (pre @ replicate p 32) @ map ?dig ds @ 0 # rest" unfolding m ds by simp
  have sk: "skip_blanks ?m (length pre) = Some ?s"
    unfolding m using digit_code [OF d] by (intro skip_blanks_run) auto
  have pk: "peek ?m ?s = Some (?dig d)" unfolding m by (simp add: peek_def nth_append)
  have hex: "(if (int base = 0 \<or> int base = 16) \<and> ?dig d = 48 then do { c1 \<leftarrow> peek ?m (?s + 1); Some (c1 = 120) } else Some False) = Some False"
  proof (cases "?dig d = 48")
    case True
    then have "ds' = []" using digit_code [OF d] z ds by auto
    then have "peek ?m (?s + 1) = Some 0" unfolding m by (simp add: peek_def nth_append)
    then show ?thesis by simp
  qed simp
  have run: "strtol_digits ?m ?s (int base) (int 0) = Some (int num, ?s + length ds)"
    unfolding m2 using strtol_digits_run [OF dig b, of ?s "pre @ replicate p 32" 0 rest] val assms(2) by simp
  have len: "length (printnum num base w 32) = p + length ds" unfolding sh by simp
  have nz: "int base \<noteq> 0" using b by simp
  have sgn: "?dig d \<noteq> 43" "?dig d \<noteq> 45" using digit_code [OF d] by auto
  show ?thesis
    unfolding strtol_def Let_def len
    using run nz sgn hex by (simp add: sk pk)
qed

theorem print_then_strtol_witness:
  "strtol (map word_of_int (printnum 2024 10 6 32) @ [0]) 0 10 = Some (2024, 6)"
proof -
  have "length (printnum 2024 10 6 32) = 6" by (simp add: printnum.simps)
  then show ?thesis using print_then_strtol [of 10 2024 "[]" 6 "[]"] by simp
qed

section \<open>Output of a program\<close>

definition cut_ok :: "int list \<Rightarrow> printbuf \<Rightarrow> bool" where
  "cut_ok done b \<longleftrightarrow> pb_idx b < 255 \<and> length (pb_buf b) = 256 \<and> pb_cnt b = int (length done)
     \<and> concat (pb_calls b) @ take (pb_idx b) (pb_buf b) = map word_of_int done \<and> (\<forall>x\<in>set (pb_calls b). length x = 255)"

lemma putch_cut: "cut_ok done b \<Longrightarrow> \<exists>b'. putch c b = Some b' \<and> cut_ok (done @ [c]) b'"
proof -
  assume b: "cut_ok done b"
  let ?x = "word_of_int c :: u8w" and ?i = "pb_idx b"
  have i: "?i < length (pb_buf b)" using b by (simp add: cut_ok_def)
  have t: "take (?i + 1) ((pb_buf b)[?i := ?x]) = take ?i (pb_buf b) @ [?x]" using i by (simp add: take_Suc_conv_app_nth)
  show ?thesis
  proof (cases "?i = 254")
    case True
    then have "take 255 ((pb_buf b)[254 := ?x]) = take 254 (pb_buf b) @ [?x]" using t by simp
    then show ?thesis using b i True by (simp add: putch_def cut_ok_def poke_def)
  next
    case False
    then show ?thesis using b i t by (simp add: putch_def cut_ok_def poke_def)
  qed
qed

lemma put_all_cut: "cut_ok done b \<Longrightarrow> \<exists>b'. put_all putch out b = Some b' \<and> cut_ok (done @ out) b'"
proof (induction out arbitrary: b "done")
  case (Cons c out)
  obtain b1 where "putch c b = Some b1" "cut_ok (done @ [c]) b1" using putch_cut [OF Cons.prems] by blast
  then show ?case using Cons.IH [of "done @ [c]" b1] by simp
qed simp

text \<open>C32: What a program prints with \<open>cprintf\<close> reaches the kernel whole and in order, whatever its length: the calls of
  \<open>sys_cputs\<close> have 255 characters each, but the last one, and together they are the output; the buffer of 256
  bytes never overflows, and the result is the number of characters.\<close>

theorem cprintf_whole:
  assumes "vprintfmt fmt ap = Some out" and "length junk = 256"
  shows "\<exists>calls. vcprintf fmt ap junk = Some (int (length out), calls) \<and> concat calls = map word_of_int out
    \<and> (\<forall>x\<in>set (butlast calls). length x = 255) \<and> length (last calls) < 255"
proof -
  have "cut_ok [] \<lparr>pb_idx = 0, pb_cnt = 0, pb_buf = junk, pb_calls = []\<rparr>" using assms(2) by (simp add: cut_ok_def)
  from put_all_cut [OF this, of out] obtain b where
    b: "put_all putch out \<lparr>pb_idx = 0, pb_cnt = 0, pb_buf = junk, pb_calls = []\<rparr> = Some b" "cut_ok out b" by auto
  then show ?thesis using assms(1)
    by (intro exI [of _ "pb_calls b @ [take (pb_idx b) (pb_buf b)]"]) (auto simp: vcprintf_def cut_ok_def)
qed

theorem cprintf_whole_witness:
  "\<exists>calls. vcprintf ''hi %d'' [Word 7] (replicate 256 0) = Some (4, calls) \<and> concat calls = [104, 105, 32, 55]"
proof -
  have out: "vprintfmt ''hi %d'' [Word 7] = Some [104, 105, 32, 55]"
    by (simp add: vprintfmt.simps scan_flags.simps code_def is_digit_def convert_def getint_def print_int_def printnum.simps
        no_flags_def hex_digits_def)
  show ?thesis using cprintf_whole [OF out, of "replicate 256 0"] by auto
qed

section \<open>Lines\<close>

text \<open>What a sequence of keys makes of a line of at most 1023 characters.\<close>

definition key_typed :: "int list \<Rightarrow> int \<Rightarrow> int list" where
  "key_typed line c =
     (if (c = 8 \<or> c = 127) \<and> line \<noteq> [] then butlast line
      else if c \<ge> 32 \<and> length line < 1023 then line @ [c] else line)"

lemma readline_loop_keys:
  assumes "\<forall>c\<in>set cs. c \<ge> 0 \<and> c \<noteq> 10 \<and> c \<noteq> 13" and "t = 10 \<or> t = 13"
    and "length buf = RLBUFLEN" and "take i buf = map word_of_int line" and "i = length line" and "i < RLBUFLEN"
  shows "\<exists>buf' e. readline_loop buf i echo (cs @ t # rest) = Some (Some (buf', length (foldl key_typed line cs)), e)
    \<and> length buf' = RLBUFLEN \<and> take (length (foldl key_typed line cs) + 1) buf' = map word_of_int (foldl key_typed line cs) @ [0]
    \<and> length (foldl key_typed line cs) < RLBUFLEN"
  using assms
proof (induction cs arbitrary: buf i line echo)
  case Nil
  then show ?case by (auto simp: poke_def take_Suc_conv_app_nth RLBUFLEN_def)
next
  case (Cons c cs)
  consider (del) "(c = 8 \<or> c = 127) \<and> i > 0" | (char) "\<not> ((c = 8 \<or> c = 127) \<and> i > 0)" "c \<ge> 32 \<and> i < RLBUFLEN - 1"
    | (skip) "\<not> ((c = 8 \<or> c = 127) \<and> i > 0)" "\<not> (c \<ge> 32 \<and> i < RLBUFLEN - 1)" by blast
  then show ?case
  proof cases
    case del
    have k: "key_typed line c = butlast line" using del Cons.prems(5) by (auto simp: key_typed_def)
    have "take (i - 1) buf = map word_of_int (butlast line)"
      using Cons.prems(4,5) del by (metis butlast_take map_butlast take_butlast length_map butlast_conv_take take_take min.absorb1 diff_le_self)
    moreover have "i - 1 = length (butlast line)" using Cons.prems(5) by simp
    ultimately show ?thesis
      using Cons.IH [of buf "i - 1" "butlast line" "echo @ [8]"] Cons.prems del k by auto
  next
    case char
    have k: "key_typed line c = line @ [c]" using char Cons.prems(5) by (auto simp: key_typed_def RLBUFLEN_def)
    have i: "i < length buf" using Cons.prems(3,6) by simp
    have "take (i + 1) (buf[i := word_of_int c]) = map word_of_int (line @ [c])"
      using Cons.prems(4) i by (simp add: take_Suc_conv_app_nth)
    then show ?thesis
      using Cons.IH [of "buf[i := word_of_int c]" "i + 1" "line @ [c]" "echo @ [c]"] Cons.prems char k i
      by (auto simp: poke_def RLBUFLEN_def)
  next
    case skip
    have "key_typed line c = line" using skip Cons.prems(5) by (auto simp: key_typed_def RLBUFLEN_def)
    then show ?thesis using Cons.IH [of buf i line echo] Cons.prems skip by auto
  qed
qed

text \<open>C33: \<open>readline\<close> returns exactly the line that was typed: each printing character extends it, up to 1023 of them,
  a backspace or a delete takes the last one away, and the line ends with a zero byte inside the buffer of 1024
  bytes, whatever is typed before the end of the line.\<close>

theorem readline_typed:
  assumes "\<forall>c\<in>set cs. c \<ge> 0 \<and> c \<noteq> 10 \<and> c \<noteq> 13" and "t = 10 \<or> t = 13" and "length buf = RLBUFLEN"
  shows "\<exists>buf' e. let line = foldl key_typed [] cs in
    readline buf (cs @ t # rest) = Some (Some (buf', length line), e) \<and> length buf' = RLBUFLEN
    \<and> take (length line + 1) buf' = map word_of_int line @ [0] \<and> length line < RLBUFLEN"
  using readline_loop_keys [OF assms, of 0 "[]" "[]" rest] by (auto simp: readline_def RLBUFLEN_def key_typed_def Let_def)

theorem readline_typed_witness:
  "\<exists>buf' e. readline (replicate 1024 0) [108, 120, 8, 115, 10] = Some (Some (buf', 2), e) \<and> take 3 buf' = [108, 115, 0]"
  using readline_typed [of "[108, 120, 8, 115]" 10 "replicate 1024 0" "[]"]
  by (auto simp: RLBUFLEN_def key_typed_def Let_def numeral_eq_Suc)

end
