(* ===== verification/Spinlock.thy ===== *)
theory Spinlock
  imports Prelude
begin

text \<open>
  The big kernel lock, \<open>kern/spinlock.c\<close>. A CPU inside \<open>spin_lock\<close> or \<open>spin_unlock\<close>
  is a program point, and each shared access of the code (the atomic \<open>xchg\<close>, the write of
  \<open>lk->cpu\<close>) is a step, so that several CPUs can interleave. The call stack kept for
  debugging is left out. A lock that is not held as the code requires is a panic.
\<close>

record spinlock =
  locked :: u32w
  lk_cpu :: "nat option"

definition spin_initlock :: "spinlock \<Rightarrow> spinlock" where
  "spin_initlock lk = lk\<lparr>locked := 0, lk_cpu := None\<rparr>"

definition holding :: "spinlock \<Rightarrow> nat \<Rightarrow> bool" where
  "holding lk c \<longleftrightarrow> locked lk \<noteq> 0 \<and> lk_cpu lk = Some c"

text \<open>\<open>xchg (&lk->locked, v)\<close>: the old value and the lock with the new one.\<close>

definition xchg_locked :: "u32w \<Rightarrow> spinlock \<Rightarrow> u32w \<times> spinlock" where
  "xchg_locked v lk = (locked lk, lk\<lparr>locked := v\<rparr>)"

datatype point = Outside | Spinning | Taken | Inside | Releasing | Panicked

definition spin_enter :: "nat \<Rightarrow> spinlock \<Rightarrow> point" where
  "spin_enter c lk = (if holding lk c then Panicked else Spinning)"

definition spin_try :: "spinlock \<Rightarrow> point \<times> spinlock" where
  "spin_try lk = (let (old, lk') = xchg_locked 1 lk in (if old \<noteq> 0 then Spinning else Taken, lk'))"

definition spin_record :: "nat \<Rightarrow> spinlock \<Rightarrow> spinlock" where
  "spin_record c lk = lk\<lparr>lk_cpu := Some c\<rparr>"

definition unlock_enter :: "nat \<Rightarrow> spinlock \<Rightarrow> point \<times> spinlock" where
  "unlock_enter c lk = (if holding lk c then (Releasing, lk\<lparr>lk_cpu := None\<rparr>) else (Panicked, lk))"

definition unlock_free :: "spinlock \<Rightarrow> spinlock" where
  "unlock_free lk = snd (xchg_locked 0 lk)"

inductive lock_step :: "(nat \<Rightarrow> point) \<times> spinlock \<Rightarrow> (nat \<Rightarrow> point) \<times> spinlock \<Rightarrow> bool" where
  enter: "pt c = Outside \<Longrightarrow> lock_step (pt, lk) (pt(c := spin_enter c lk), lk)"
| spin: "pt c = Spinning \<Longrightarrow> spin_try lk = (q, lk') \<Longrightarrow> lock_step (pt, lk) (pt(c := q), lk')"
| recorded: "pt c = Taken \<Longrightarrow> lock_step (pt, lk) (pt(c := Inside), spin_record c lk)"
| unlock: "pt c = Inside \<Longrightarrow> unlock_enter c lk = (q, lk') \<Longrightarrow> lock_step (pt, lk) (pt(c := q), lk')"
| free: "pt c = Releasing \<Longrightarrow> lock_step (pt, lk) (pt(c := Outside), unlock_free lk)"

inductive lock_reachable :: "(nat \<Rightarrow> point) \<times> spinlock \<Rightarrow> bool" where
  init: "lock_reachable (\<lambda>_. Outside, spin_initlock lk)"
| step: "lock_reachable s \<Longrightarrow> lock_step s s' \<Longrightarrow> lock_reachable s'"

inductive_cases lock_stepE: "lock_step (pt, lk) s'"

definition owns :: "point \<Rightarrow> bool" where
  "owns q \<longleftrightarrow> q \<in> {Taken, Inside, Releasing}"

definition lock_inv :: "(nat \<Rightarrow> point) \<times> spinlock \<Rightarrow> bool" where
  "lock_inv s \<longleftrightarrow> (case s of (pt, lk) \<Rightarrow>
     (locked lk \<noteq> 0 \<longleftrightarrow> (\<exists>c. owns (pt c)))
     \<and> (\<forall>c d. owns (pt c) \<and> owns (pt d) \<longrightarrow> c = d)
     \<and> (\<forall>c. lk_cpu lk = Some c \<longleftrightarrow> pt c = Inside)
     \<and> (\<forall>c. pt c \<noteq> Panicked))"

lemma owns_simps [simp]: "owns Taken" "owns Inside" "owns Releasing" "\<not> owns Outside" "\<not> owns Spinning"
    "\<not> owns Panicked"
  by (simp_all add: owns_def)

lemma lock_inv_step:
  assumes "lock_inv s" and "lock_step s s'"
  shows "lock_inv s'"
  using assms(2,1)
proof cases
  case (enter pt c lk)
  then show ?thesis using assms(1)
    by (auto simp: lock_inv_def spin_enter_def holding_def) (metis owns_simps(4))+
next
  case (spin pt c lk q lk')
  then show ?thesis using assms(1)
    by (auto simp: lock_inv_def spin_try_def xchg_locked_def split: if_splits)
      (metis owns_simps point.distinct)+
next
  case (recorded pt c lk)
  then have "owns (pt c)" by simp
  then show ?thesis using assms(1) recorded
    by (auto simp: lock_inv_def spin_record_def split: if_splits) (metis owns_simps point.distinct)+
next
  case (unlock pt c lk q lk')
  then have o: "owns (pt c)" by simp
  then have l: "locked lk \<noteq> 0" using assms(1) unlock(1) unfolding lock_inv_def by blast
  have "lk_cpu lk = Some c" using assms(1) unlock by (simp add: lock_inv_def)
  with l have "holding lk c" by (simp add: holding_def)
  then have "q = Releasing" "lk' = lk\<lparr>lk_cpu := None\<rparr>" using unlock by (simp_all add: unlock_enter_def)
  moreover have "pt d \<noteq> Inside" if "d \<noteq> c" for d using assms(1) o that unlock by (fastforce simp: lock_inv_def)
  moreover have "\<not> owns (pt d)" if "d \<noteq> c" for d
    using assms(1) o that unfolding unlock(1) lock_inv_def by blast
  ultimately show ?thesis using assms(1) unlock(1-3) l
    by (auto simp: lock_inv_def intro!: exI [of _ c] split: if_splits)
next
  case (free pt c lk)
  then have o: "owns (pt c)" by simp
  have "\<not> owns (pt d)" if "d \<noteq> c" for d using assms(1) o that free by (fastforce simp: lock_inv_def)
  then show ?thesis using assms(1) free o
    by (auto simp: lock_inv_def unlock_free_def xchg_locked_def)
qed

lemma lock_inv_init: "lock_inv (\<lambda>_. Outside, spin_initlock lk)"
  by (simp add: lock_inv_def spin_initlock_def)

lemma lock_reachable_inv: "lock_reachable s \<Longrightarrow> lock_inv s"
proof (induction rule: lock_reachable.induct)
  case (init lk)
  then show ?case by (rule lock_inv_init)
next
  case (step s s')
  then show ?case using lock_inv_step by blast
qed

text \<open>C12: at most one CPU is between taking the big kernel lock and freeing it, whatever the
  interleaving, and no CPU panics for locking what it holds or unlocking what it does not.\<close>

theorem kernel_lock_mutual_exclusion:
  assumes "lock_reachable (pt, lk)"
  shows "(owns (pt c) \<and> owns (pt d) \<longrightarrow> c = d) \<and> (holding lk c \<longleftrightarrow> pt c = Inside) \<and> pt c \<noteq> Panicked"
proof -
  have inv: "lock_inv (pt, lk)" using assms by (rule lock_reachable_inv)
  then have "owns (pt c) \<and> owns (pt d) \<longrightarrow> c = d" "pt c \<noteq> Panicked" by (auto simp: lock_inv_def)
  moreover have "holding lk c \<longleftrightarrow> pt c = Inside"
  proof -
    have "locked lk \<noteq> 0" if "pt c = Inside"
    proof -
      have "owns (pt c)" using that by simp
      then show ?thesis using inv unfolding lock_inv_def by blast
    qed
    moreover have "lk_cpu lk = Some c \<longleftrightarrow> pt c = Inside" using inv by (simp add: lock_inv_def)
    ultimately show ?thesis by (auto simp: holding_def)
  qed
  ultimately show ?thesis by blast
qed

theorem kernel_lock_mutual_exclusion_witness:
  "\<exists>pt lk. lock_reachable (pt, lk) \<and> pt 0 = Inside \<and> holding lk 0 \<and> \<not> owns (pt 1)"
proof -
  let ?lk0 = "spin_initlock \<lparr>locked = 0, lk_cpu = None\<rparr>"
  let ?p1 = "(\<lambda>_ :: nat. Outside)(0 := spin_enter 0 ?lk0)"
  let ?p2 = "?p1(0 := Taken)" and ?lk1 = "\<lparr>locked = 1, lk_cpu = None\<rparr>"
  have "lock_reachable (\<lambda>_. Outside, ?lk0)" by (rule lock_reachable.init)
  then have "lock_reachable (?p1, ?lk0)" by (rule lock_reachable.step) (rule lock_step.enter, simp)
  then have "lock_reachable (?p2, ?lk1)"
    by (rule lock_reachable.step) (rule lock_step.spin,
      simp_all add: spin_enter_def holding_def spin_initlock_def spin_try_def xchg_locked_def)
  then have r: "lock_reachable (?p2(0 := Inside), spin_record 0 ?lk1)"
    by (rule lock_reachable.step) (rule lock_step.recorded, simp)
  have "holding (spin_record 0 ?lk1) 0" "\<not> owns ((?p2(0 := Inside)) 1)"
    using kernel_lock_mutual_exclusion [OF r, of 0 1] by (auto simp: zero_neq_one)
  with r show ?thesis by (intro exI [of _ "?p2(0 := Inside)"] exI [of _ "spin_record 0 ?lk1"]) simp
qed

end
