(* ===== verification/Kdebug.thy ===== *)
theory Kdebug
  imports Lib_String Env
begin

text \<open>
  The debugging symbols the kernel uses to name an address, \<open>scheduler/kern/kdebug.c\<close> and
  \<open>inc/stab.h\<close>. The kernel's table of symbols is a list of \<open>struct Stab\<close>; an index is an \<open>int\<close>, as in the
  code, where it goes below zero. The search reads a table through a function from indices to symbols, so
  that it works on the kernel's own table and on one in user memory; a read that faults is \<open>None\<close>.
\<close>

section \<open>Symbols\<close>

definition N_FUN :: u8w where "N_FUN = 0x24"
definition N_SLINE :: u8w where "N_SLINE = 0x44"
definition N_SO :: u8w where "N_SO = 0x64"
definition N_SOL :: u8w where "N_SOL = 0x84"
definition N_PSYM :: u8w where "N_PSYM = 0xA0"

named_theorems stab_types
lemmas [stab_types] = N_FUN_def N_SLINE_def N_SO_def N_SOL_def N_PSYM_def

record Stab =
  n_strx :: u32w
  n_type :: u8w
  n_other :: u8w
  n_desc :: u16w
  n_value :: u32w

definition stab_at :: "Stab list \<Rightarrow> int \<Rightarrow> Stab option" where
  "stab_at stabs i = (if 0 \<le> i \<and> i < int (length stabs) then Some (stabs ! nat i) else None)"

type_synonym table = "int \<Rightarrow> Stab option"

section \<open>The search\<close>

text \<open>\<open>while (m >= l && stabs[m].n_type != type) m--;\<close>\<close>

function scan_back :: "table \<Rightarrow> u8w \<Rightarrow> int \<Rightarrow> int \<Rightarrow> int option" where
  "scan_back stabs ty l m =
     (if m \<ge> l
      then (case stabs m of
              None \<Rightarrow> None
            | Some s \<Rightarrow> if n_type s \<noteq> ty then scan_back stabs ty l (m - 1) else Some m)
      else Some m)"
  by pat_completeness auto
termination
  by (relation "measure (\<lambda>(stabs, ty, l, m). nat (m - l + 1))") auto

declare scan_back.simps [simp del]

text \<open>Where the loop is: the bounds, the region so far, the address (it grows on an exact match) and \<open>any_matches\<close>.\<close>

record search =
  s_l :: int
  s_r :: int
  region_left :: int
  region_right :: int
  s_addr :: u32w
  any_matches :: bool

definition search_step :: "table \<Rightarrow> u8w \<Rightarrow> search \<Rightarrow> search option" where
  "search_step stabs ty s = do {
     let true_m = (s_l s + s_r s) div 2;
     m \<leftarrow> scan_back stabs ty (s_l s) true_m;
     if m < s_l s then Some (s\<lparr>s_l := true_m + 1\<rparr>)
     else do {
       let s = s\<lparr>any_matches := True\<rparr>;
       st \<leftarrow> stabs m;
       Some (if n_value st < s_addr s then s\<lparr>region_left := m, s_l := true_m + 1\<rparr>
             else if n_value st > s_addr s then s\<lparr>region_right := m - 1, s_r := m - 1\<rparr>
             else s\<lparr>region_left := m, s_l := m, s_addr := s_addr s + 1\<rparr>)
     }
   }"

definition of_type :: "table \<Rightarrow> u8w \<Rightarrow> int \<Rightarrow> bool" where
  "of_type stabs ty i \<longleftrightarrow> (case stabs i of None \<Rightarrow> False | Some s \<Rightarrow> n_type s = ty)"

definition value_at :: "table \<Rightarrow> int \<Rightarrow> u32w" where
  "value_at stabs i = (case stabs i of None \<Rightarrow> 0 | Some s \<Rightarrow> n_value s)"

lemma stab_at_value: "stabs i = Some st \<Longrightarrow> n_value st = value_at stabs i"
  by (simp add: value_at_def)

text \<open>The first \<open>n\<close> entries can be read.\<close>

definition readable :: "table \<Rightarrow> int \<Rightarrow> bool" where
  "readable stabs n \<longleftrightarrow> (\<forall>i. 0 \<le> i \<and> i < n \<longrightarrow> stabs i \<noteq> None)"

lemma readableD: "readable stabs n \<Longrightarrow> 0 \<le> i \<Longrightarrow> i < n \<Longrightarrow> \<exists>s. stabs i = Some s"
  by (simp add: readable_def)

lemma stab_at_readable: "readable (stab_at stabs) (int (length stabs))"
  by (simp add: readable_def stab_at_def)

lemma scan_back_found:
  "scan_back stabs ty l m = Some k \<Longrightarrow> k \<le> m \<and> (l \<le> k \<longrightarrow> of_type stabs ty k)
     \<and> (\<forall>i. l \<le> i \<and> k < i \<and> i \<le> m \<longrightarrow> \<not> of_type stabs ty i)"
proof (induction stabs ty l m rule: scan_back.induct)
  case (1 stabs ty l m)
  show ?case
  proof (cases "l \<le> m")
    case True
    then obtain st where st: "stabs m = Some st"
      using "1.prems" by (subst (asm) scan_back.simps) (auto split: option.splits)
    show ?thesis
    proof (cases "n_type st = ty")
      case True
      then show ?thesis using "1.prems" st \<open>l \<le> m\<close> by (subst (asm) scan_back.simps) (auto simp: of_type_def)
    next
      case False
      then have "scan_back stabs ty l (m - 1) = Some k"
        using "1.prems" st \<open>l \<le> m\<close> by (subst (asm) scan_back.simps) auto
      then have IH: "k \<le> m - 1 \<and> (l \<le> k \<longrightarrow> of_type stabs ty k)
          \<and> (\<forall>i. l \<le> i \<and> k < i \<and> i \<le> m - 1 \<longrightarrow> \<not> of_type stabs ty i)"
        by (rule "1.IH" [OF True st False])
      have "\<not> of_type stabs ty i" if "l \<le> i" "k < i" "i \<le> m" for i
        using IH that st False by (cases "i = m") (simp_all add: of_type_def)
      with IH show ?thesis by simp
    qed
  next
    case False
    then show ?thesis using "1.prems" by (subst (asm) scan_back.simps) auto
  qed
qed

lemma scan_back_below: "scan_back stabs ty l m = Some k \<Longrightarrow> k < l \<Longrightarrow> k = min m (l - 1)"
proof (induction stabs ty l m rule: scan_back.induct)
  case (1 stabs ty l m)
  show ?case
  proof (cases "l \<le> m")
    case True
    then obtain st where st: "stabs m = Some st"
      using "1.prems" by (subst (asm) scan_back.simps) (auto split: option.splits)
    have ne: "n_type st \<noteq> ty" using "1.prems" st True by (subst (asm) scan_back.simps) auto
    then have "scan_back stabs ty l (m - 1) = Some k"
      using "1.prems" st True by (subst (asm) scan_back.simps) simp
    then show ?thesis using "1.IH" [OF True st ne] "1.prems"(2) True by simp
  next
    case False
    then show ?thesis using "1.prems" by (subst (asm) scan_back.simps) simp
  qed
qed

lemma scan_back_total:
  "readable stabs n \<Longrightarrow> 0 \<le> l \<Longrightarrow> m < n \<Longrightarrow> \<exists>k. scan_back stabs ty l m = Some k"
proof (induction stabs ty l m rule: scan_back.induct)
  case (1 stabs ty l m)
  show ?case
  proof (cases "l \<le> m")
    case True
    then obtain st where "stabs m = Some st" using readableD [OF "1.prems"(1), of m] "1.prems"(2,3) by auto
    then show ?thesis using 1 True by (subst scan_back.simps) simp
  qed (subst scan_back.simps, simp)
qed

definition on_exact :: "table \<Rightarrow> u8w \<Rightarrow> search \<Rightarrow> bool" where
  "on_exact stabs ty s \<longleftrightarrow> of_type stabs ty (s_l s) \<and> value_at stabs (s_l s) = s_addr s"

lemma search_step_cases:
  assumes "search_step stabs ty s = Some s'" and "s_l s \<le> s_r s"
  obtains (none) t where "t = (s_l s + s_r s) div 2" "\<forall>i. s_l s \<le> i \<and> i \<le> t \<longrightarrow> \<not> of_type stabs ty i"
      "s' = s\<lparr>s_l := t + 1\<rparr>"
  | (found) t k where "t = (s_l s + s_r s) div 2" "s_l s \<le> k" "k \<le> t" "of_type stabs ty k"
      "\<forall>i. k < i \<and> i \<le> t \<longrightarrow> \<not> of_type stabs ty i"
      "s' = (let s = s\<lparr>any_matches := True\<rparr> in
         if value_at stabs k < s_addr s then s\<lparr>region_left := k, s_l := t + 1\<rparr>
         else if value_at stabs k > s_addr s then s\<lparr>region_right := k - 1, s_r := k - 1\<rparr>
         else s\<lparr>region_left := k, s_l := k, s_addr := s_addr s + 1\<rparr>)"
proof -
  let ?t = "(s_l s + s_r s) div 2"
  obtain k where k: "scan_back stabs ty (s_l s) ?t = Some k"
    using assms(1) by (auto simp: search_step_def Let_def split: bind_splits)
  note f = scan_back_found [OF k]
  show thesis
  proof (cases "k < s_l s")
    case True
    then have "s' = s\<lparr>s_l := ?t + 1\<rparr>" using assms(1) k by (simp add: search_step_def Let_def)
    moreover have "\<forall>i. s_l s \<le> i \<and> i \<le> ?t \<longrightarrow> \<not> of_type stabs ty i" using f True by auto
    ultimately show thesis by (intro none) auto
  next
    case False
    then have "of_type stabs ty k" using f by simp
    then obtain st where st: "stabs k = Some st" by (auto simp: of_type_def split: option.splits)
    show thesis
    proof (rule found [of ?t k])
      show "s' = (let s = s\<lparr>any_matches := True\<rparr> in
         if value_at stabs k < s_addr s then s\<lparr>region_left := k, s_l := ?t + 1\<rparr>
         else if value_at stabs k > s_addr s then s\<lparr>region_right := k - 1, s_r := k - 1\<rparr>
         else s\<lparr>region_left := k, s_l := k, s_addr := s_addr s + 1\<rparr>)"
        using assms(1) k False st unfolding stab_at_value [of stabs, OF st, symmetric]
        by (simp add: search_step_def Let_def split: if_splits)
    qed (use f False in auto)
  qed
qed

text \<open>An exact match leaves the bounds where they are at most once in a row.\<close>

definition search_measure :: "table \<Rightarrow> u8w \<Rightarrow> search \<Rightarrow> nat" where
  "search_measure stabs ty s = 2 * nat (s_r s - s_l s + 1) + (if on_exact stabs ty s then 1 else 0)"

lemma search_step_less:
  assumes "search_step stabs ty s = Some s'" and "s_l s \<le> s_r s"
  shows "search_measure stabs ty s' < search_measure stabs ty s"
  using assms
proof (cases rule: search_step_cases)
  case (none t)
  moreover have "s_l s \<le> t" using none(1) assms(2) by simp
  ultimately show ?thesis using assms(2) by (auto simp: search_measure_def)
next
  case (found t k)
  consider "value_at stabs k < s_addr s" | "value_at stabs k > s_addr s" | "value_at stabs k = s_addr s" by force
  then show ?thesis
  proof cases
    case 1
    moreover have "s_l s \<le> t" using found(2,3) by simp
    ultimately show ?thesis using found assms(2) by (auto simp: search_measure_def)
  next
    case 2
    then have "\<not> value_at stabs k < s_addr s" by simp
    moreover have "s_l s \<le> t" "t \<le> s_r s" using found(1) assms(2) by auto
    ultimately show ?thesis using found 2 by (auto simp: search_measure_def Let_def)
  next
    case 3
    then have "s' = s\<lparr>any_matches := True, region_left := k, s_l := k, s_addr := s_addr s + 1\<rparr>"
      using found(6) by simp
    moreover from this have "\<not> on_exact stabs ty s'" using 3 by (simp add: on_exact_def)
    moreover have "on_exact stabs ty s" if "k = s_l s" using 3 found(4) that by (simp add: on_exact_def)
    moreover have "k \<le> s_r s" using found(1,3) assms(2) by linarith
    ultimately show ?thesis using found(2) by (cases "k = s_l s") (auto simp: search_measure_def)
  qed
qed

function search_loop :: "table \<Rightarrow> u8w \<Rightarrow> search \<Rightarrow> search option" where
  "search_loop stabs ty s =
     (if s_l s \<le> s_r s
      then (case search_step stabs ty s of None \<Rightarrow> None | Some s' \<Rightarrow> search_loop stabs ty s')
      else Some s)"
  by pat_completeness auto
termination
  by (relation "measure (\<lambda>(stabs, ty, s). search_measure stabs ty s)") (auto simp: search_step_less)

declare search_loop.simps [simp del]

text \<open>\<open>for (l = *region_right; l > *region_left && stabs[l].n_type != type; l--)\<close>\<close>

definition stab_binsearch :: "table \<Rightarrow> int \<Rightarrow> int \<Rightarrow> u8w \<Rightarrow> u32w \<Rightarrow> (int \<times> int) option" where
  "stab_binsearch stabs left right ty addr = do {
     s \<leftarrow> search_loop stabs ty \<lparr>s_l = left, s_r = right, region_left = left, region_right = right,
        s_addr = addr, any_matches = False\<rparr>;
     if \<not> any_matches s then Some (region_left s, region_left s - 1)
     else do {
       l \<leftarrow> scan_back stabs ty (region_left s + 1) (region_right s);
       Some (l, region_right s)
     }
   }"

section \<open>Naming an address\<close>

text \<open>A name is the literal \<open>"<unknown>"\<close> or a pointer into the string table.\<close>

datatype name_ptr = Unknown_name | In_strtab nat

record Eipdebuginfo =
  eip_file :: name_ptr
  eip_line :: int
  eip_fn_name :: name_ptr
  eip_fn_namelen :: int
  eip_fn_addr :: u32w
  eip_fn_narg :: int

record UserStabData =
  usd_stabs :: u32w
  usd_stab_end :: u32w
  usd_stabstr :: u32w
  usd_stabstr_end :: u32w

definition USTABDATA :: u32w where "USTABDATA = 0x200000"

text \<open>\<open>strfind (name, ':')\<close> inside a string table of \<open>len\<close> bytes.\<close>

function find_colon :: "(nat \<Rightarrow> u8w option) \<Rightarrow> nat \<Rightarrow> nat \<Rightarrow> nat option" where
  "find_colon str len i =
     (if i < len
      then (case str i of
              None \<Rightarrow> None
            | Some x \<Rightarrow> if x \<noteq> 0 \<and> x \<noteq> 0x3A then find_colon str len (i + 1) else Some i)
      else None)"
  by pat_completeness auto
termination
  by (relation "measure (\<lambda>(str, len, i). len - i)") auto

declare find_colon.simps [simp del]

definition name_length :: "(nat \<Rightarrow> u8w option) \<Rightarrow> nat \<Rightarrow> name_ptr \<Rightarrow> int option" where
  "name_length str len p = (case p of
     Unknown_name \<Rightarrow> Some 9
   | In_strtab i \<Rightarrow> do { j \<leftarrow> find_colon str len i; Some (int j - int i) })"

text \<open>Backwards to the entry that names the file, and the run of parameters after the function.\<close>

function back_to_file :: "table \<Rightarrow> int \<Rightarrow> int \<Rightarrow> int option" where
  "back_to_file stabs lfile lline =
     (if lline \<ge> lfile
      then (case stabs lline of
              None \<Rightarrow> None
            | Some s \<Rightarrow> if n_type s \<noteq> N_SOL \<and> (n_type s \<noteq> N_SO \<or> n_value s = 0)
                then back_to_file stabs lfile (lline - 1) else Some lline)
      else Some lline)"
  by pat_completeness auto
termination
  by (relation "measure (\<lambda>(stabs, lfile, lline). nat (lline - lfile + 1))") auto

declare back_to_file.simps [simp del]

function count_params :: "table \<Rightarrow> int \<Rightarrow> int \<Rightarrow> int option" where
  "count_params stabs lline rfun =
     (if lline < rfun
      then (case stabs lline of
              None \<Rightarrow> None
            | Some s \<Rightarrow> if n_type s = N_PSYM then map_option (\<lambda>k. k + 1) (count_params stabs (lline + 1) rfun) else Some 0)
      else Some 0)"
  by pat_completeness auto
termination
  by (relation "measure (\<lambda>(stabs, lline, rfun). nat (rfun - lline))") auto

declare count_params.simps [simp del]

definition no_info :: "u32w \<Rightarrow> Eipdebuginfo" where
  "no_info addr = \<lparr>eip_file = Unknown_name, eip_line = 0, eip_fn_name = Unknown_name, eip_fn_namelen = 9,
     eip_fn_addr = addr, eip_fn_narg = 0\<rparr>"

definition strtab_name :: "nat \<Rightarrow> Stab \<Rightarrow> name_ptr \<Rightarrow> name_ptr" where
  "strtab_name len s old = (if unat (n_strx s) < len then In_strtab (unat (n_strx s)) else old)"

text \<open>The part of \<open>debuginfo_eip\<close> after the tables are known: \<open>n\<close> symbols and a string table of \<open>len\<close> bytes.\<close>

definition search_info :: "table \<Rightarrow> int \<Rightarrow> (nat \<Rightarrow> u8w option) \<Rightarrow> nat \<Rightarrow> u32w \<Rightarrow> (int \<times> Eipdebuginfo) option" where
  "search_info stabs n str len addr = do {
     let info = no_info addr;
     (lfile, rfile) \<leftarrow> stab_binsearch stabs 0 (n - 1) N_SO addr;
     if lfile = 0 then Some (-1, info)
     else do {
       (lfun, rfun) \<leftarrow> stab_binsearch stabs lfile rfile N_FUN addr;
       (info, addr, lline, rline) \<leftarrow>
         (if lfun \<le> rfun
          then do {
            s \<leftarrow> stabs lfun;
            Some (info\<lparr>eip_fn_name := strtab_name len s (eip_fn_name info), eip_fn_addr := n_value s\<rparr>,
                  addr - n_value s, lfun, rfun)
          }
          else Some (info\<lparr>eip_fn_addr := addr\<rparr>, addr, lfile, rfile));
       namelen \<leftarrow> name_length str len (eip_fn_name info);
       let info = info\<lparr>eip_fn_namelen := namelen\<rparr>;
       (lline, rline) \<leftarrow> stab_binsearch stabs lline rline N_SLINE addr;
       info \<leftarrow> (if lline \<le> rline then do { s \<leftarrow> stabs lline; Some (info\<lparr>eip_line := uint (n_desc s)\<rparr>) } else Some info);
       lline \<leftarrow> back_to_file stabs lfile lline;
       info \<leftarrow> (if lline \<ge> lfile
                then do { s \<leftarrow> stabs lline; Some (info\<lparr>eip_file := strtab_name len s (eip_file info)\<rparr>) }
                else Some info);
       narg \<leftarrow> (if lfun < rfun then count_params stabs (lfun + 1) rfun else Some 0);
       Some (0, info\<lparr>eip_fn_narg := narg\<rparr>)
     }
   }"

text \<open>The string table must not be empty and must end in a NUL.\<close>

definition checked_info :: "table \<Rightarrow> int \<Rightarrow> (nat \<Rightarrow> u8w option) \<Rightarrow> nat \<Rightarrow> u32w \<Rightarrow> (int \<times> Eipdebuginfo) option" where
  "checked_info stabs n str len addr =
     (if len = 0 then Some (-1, no_info addr)
      else do {
        b \<leftarrow> str (len - 1);
        if b \<noteq> 0 then Some (-1, no_info addr) else search_info stabs n str len addr
      })"

text \<open>
  The symbols of a program: a structure at a fixed address that its linker script fills in, read through
  the page tables in use, byte by byte. The difference of two symbol pointers is their distance in
  symbols; the code gives it to \<open>user_mem_check\<close> as a number of bytes.
\<close>

definition user_word :: "nat \<Rightarrow> u32w \<Rightarrow> 'a mem_scheme \<Rightarrow> u32w option" where
  "user_word d va m = do {
     b0 \<leftarrow> get_byte d va m;
     b1 \<leftarrow> get_byte d (va + 1) m;
     b2 \<leftarrow> get_byte d (va + 2) m;
     b3 \<leftarrow> get_byte d (va + 3) m;
     Some (ucast b0 OR push_bit 8 (ucast b1) OR push_bit 16 (ucast b2) OR push_bit 24 (ucast b3))
   }"

definition user_stab_data :: "nat \<Rightarrow> 'a mem_scheme \<Rightarrow> UserStabData option" where
  "user_stab_data d m = do {
     p \<leftarrow> user_word d USTABDATA m;
     q \<leftarrow> user_word d (USTABDATA + 4) m;
     r \<leftarrow> user_word d (USTABDATA + 8) m;
     s \<leftarrow> user_word d (USTABDATA + 12) m;
     Some \<lparr>usd_stabs = p, usd_stab_end = q, usd_stabstr = r, usd_stabstr_end = s\<rparr>
   }"

definition user_stab :: "nat \<Rightarrow> u32w \<Rightarrow> 'a mem_scheme \<Rightarrow> table" where
  "user_stab d stabs m i = do {
     let p = stabs + word_of_int (12 * i);
     strx \<leftarrow> user_word d p m;
     w \<leftarrow> user_word d (p + 4) m;
     v \<leftarrow> user_word d (p + 8) m;
     Some \<lparr>n_strx = strx, n_type = ucast w, n_other = ucast (drop_bit 8 w), n_desc = ucast (drop_bit 16 w), n_value = v\<rparr>
   }"

definition stab_distance :: "u32w \<Rightarrow> u32w \<Rightarrow> int" where
  "stab_distance stab_end stabs = sint (stab_end - stabs) div 12"

definition debuginfo_eip :: "Stab list \<Rightarrow> bytes \<Rightarrow> u32w \<Rightarrow> 'a kern_scheme \<Rightarrow> ((int \<times> Eipdebuginfo) \<times> 'a kern_scheme) option" where
  "debuginfo_eip kstabs kstabstr addr k =
     (if addr \<ge> ULIM
      then do {
        r \<leftarrow> checked_info (stab_at kstabs) (int (length kstabs)) (peek kstabstr) (length kstabstr) addr;
        Some (r, k)
      }
      else do {
        c \<leftarrow> curenv k;
        d \<leftarrow> env_pgdir (envs k c);
        (r, k) \<leftarrow> user_mem_check d USTABDATA 16 0 k;
        if r \<noteq> 0 then Some ((-1, no_info addr), k)
        else do {
          usd \<leftarrow> user_stab_data (cr3 k) k;
          let n = stab_distance (usd_stab_end usd) (usd_stabs usd);
          (r, k) \<leftarrow> user_mem_check d (usd_stabs usd) (word_of_int n) 0 k;
          if r \<noteq> 0 then Some ((-1, no_info addr), k)
          else do {
            (r, k) \<leftarrow> user_mem_check d (usd_stabstr usd) (usd_stabstr_end usd - usd_stabstr usd) 0 k;
            if r \<noteq> 0 then Some ((-1, no_info addr), k)
            else do {
              let len = (if usd_stabstr_end usd \<le> usd_stabstr usd then 0
                         else unat (usd_stabstr_end usd - usd_stabstr usd));
              r \<leftarrow> checked_info (user_stab (cr3 k) (usd_stabs usd) k) n
                     (\<lambda>i. get_byte (cr3 k) (usd_stabstr usd + word_of_nat i) k) len addr;
              Some (r, k)
            }
          }
        }
      })"

end
