(* ===== verification/Kdebug_Props.thy ===== *)
theory Kdebug_Props
  imports Kdebug
begin

text \<open>
  What the search for debugging symbols finds: the invariant of the binary search of
  \<open>scheduler/kern/kdebug.c\<close>, its result, and that naming an address never reads outside the tables.
\<close>

section \<open>What the search finds\<close>

lemma less_next: "a + 1 \<noteq> 0 \<Longrightarrow> x < a + 1 \<longleftrightarrow> x \<le> (a :: u32w)"
  using unatSuc [of a] by (simp add: word_less_nat_alt word_le_nat_alt add.commute less_Suc_eq_le)

text \<open>The entries of the type are in the order of their addresses.\<close>

definition in_order :: "table \<Rightarrow> u8w \<Rightarrow> int \<Rightarrow> int \<Rightarrow> bool" where
  "in_order stabs ty L R \<longleftrightarrow> (\<forall>i j. L \<le> i \<and> i \<le> j \<and> j \<le> R \<and> of_type stabs ty i \<and> of_type stabs ty j \<longrightarrow>
     value_at stabs i \<le> value_at stabs j)"

text \<open>An entry exactly at the address has no entry one byte after it.\<close>

definition lone :: "table \<Rightarrow> u8w \<Rightarrow> int \<Rightarrow> int \<Rightarrow> u32w \<Rightarrow> bool" where
  "lone stabs ty L R a \<longleftrightarrow> (\<forall>i. L \<le> i \<and> i \<le> R \<and> of_type stabs ty i \<and> value_at stabs i = a \<longrightarrow>
     a + 1 \<noteq> 0 \<and> (\<forall>j. L \<le> j \<and> j \<le> R \<and> of_type stabs ty j \<longrightarrow> value_at stabs j \<noteq> a + 1))"

text \<open>What the loop keeps: the entries left of \<open>l\<close> are at or below the address, those right of \<open>r\<close> above it.\<close>

definition search_inv :: "table \<Rightarrow> u8w \<Rightarrow> int \<Rightarrow> int \<Rightarrow> u32w \<Rightarrow> search \<Rightarrow> bool" where
  "search_inv stabs ty L R a s \<longleftrightarrow> L \<le> s_l s \<and> s_l s \<le> s_r s + 1 \<and> s_r s \<le> R \<and> region_right s = s_r s
     \<and> (\<forall>i. L \<le> i \<and> i < s_l s \<and> of_type stabs ty i \<longrightarrow> value_at stabs i \<le> a)
     \<and> (\<forall>i. s_r s < i \<and> i \<le> R \<and> of_type stabs ty i \<longrightarrow> a < value_at stabs i)
     \<and> (s_r s < R \<longrightarrow> of_type stabs ty (s_r s + 1))
     \<and> (s_addr s = a \<or> s_addr s = a + 1 \<and> (\<exists>i. L \<le> i \<and> i \<le> R \<and> of_type stabs ty i \<and> value_at stabs i = a))
     \<and> (region_left s = L \<or> L \<le> region_left s \<and> region_left s \<le> s_r s \<and> of_type stabs ty (region_left s)
          \<and> value_at stabs (region_left s) \<le> a)
     \<and> (if any_matches s then \<exists>i. L \<le> i \<and> i \<le> R \<and> of_type stabs ty i
        else s_r s = R \<and> region_left s = L \<and> (\<forall>i. L \<le> i \<and> i < s_l s \<longrightarrow> \<not> of_type stabs ty i))"

lemma compare_address:
  assumes "lone stabs ty L R a" and "L \<le> k" and "k \<le> R" and "of_type stabs ty k"
    and "b = a \<or> b = a + 1 \<and> (\<exists>i. L \<le> i \<and> i \<le> R \<and> of_type stabs ty i \<and> value_at stabs i = a)"
  shows "value_at stabs k < b \<Longrightarrow> value_at stabs k \<le> a" "b < value_at stabs k \<Longrightarrow> a < value_at stabs k"
    "value_at stabs k = b \<Longrightarrow> b = a"
proof -
  have n: "a + 1 \<noteq> 0 \<and> value_at stabs k \<noteq> a + 1" if "b \<noteq> a"
    using assms that unfolding lone_def by blast
  show "value_at stabs k < b \<Longrightarrow> value_at stabs k \<le> a" using assms(5) n less_next by (cases "b = a") auto
  show "b < value_at stabs k \<Longrightarrow> a < value_at stabs k"
    using assms(5) n less_next [of a "value_at stabs k"] by (cases "b = a") (auto simp: not_less [symmetric])
  show "value_at stabs k = b \<Longrightarrow> b = a" using assms(5) n by blast
qed

lemma in_orderD:
  "in_order stabs ty L R \<Longrightarrow> L \<le> i \<Longrightarrow> i \<le> j \<Longrightarrow> j \<le> R \<Longrightarrow> of_type stabs ty i \<Longrightarrow> of_type stabs ty j
     \<Longrightarrow> value_at stabs i \<le> value_at stabs j"
  unfolding in_order_def by blast

lemma search_invD:
  assumes "search_inv stabs ty L R a s"
  shows "L \<le> s_l s" "s_l s \<le> s_r s + 1" "s_r s \<le> R" "region_right s = s_r s"
    "\<And>i. L \<le> i \<Longrightarrow> i < s_l s \<Longrightarrow> of_type stabs ty i \<Longrightarrow> value_at stabs i \<le> a"
    "\<And>i. s_r s < i \<Longrightarrow> i \<le> R \<Longrightarrow> of_type stabs ty i \<Longrightarrow> a < value_at stabs i"
    "s_r s < R \<Longrightarrow> of_type stabs ty (s_r s + 1)"
    "s_addr s = a \<or> s_addr s = a + 1 \<and> (\<exists>i. L \<le> i \<and> i \<le> R \<and> of_type stabs ty i \<and> value_at stabs i = a)"
    "region_left s = L \<or> L \<le> region_left s \<and> region_left s \<le> s_r s \<and> of_type stabs ty (region_left s)
       \<and> value_at stabs (region_left s) \<le> a"
    "any_matches s \<Longrightarrow> \<exists>i. L \<le> i \<and> i \<le> R \<and> of_type stabs ty i"
    "\<not> any_matches s \<Longrightarrow> s_r s = R \<and> region_left s = L \<and> (\<forall>i. L \<le> i \<and> i < s_l s \<longrightarrow> \<not> of_type stabs ty i)"
  using assms unfolding search_inv_def by (simp_all only: if_True if_False simp_thms not_True_eq_False) (elim conjE, assumption)

lemma search_step_inv:
  assumes "search_inv stabs ty L R a s" and "s_l s \<le> s_r s" and "search_step stabs ty s = Some s'"
    and ord: "in_order stabs ty L R" and lone: "lone stabs ty L R a"
  shows "search_inv stabs ty L R a s'"
proof -
  note inv = search_invD [OF assms(1)]
  show ?thesis
  using assms(3,2)
proof (cases rule: search_step_cases)
  case (none t)
  have t: "s_l s \<le> t" "t \<le> s_r s" using none(1) assms(2) by auto
  have n: "\<not> of_type stabs ty i" if "s_l s \<le> i" "i < t + 1" for i using none(2) that by simp
  have low: "value_at stabs i \<le> a" if "L \<le> i" "i < t + 1" "of_type stabs ty i" for i
    using n inv(5) that by (meson not_le)
  have "\<not> of_type stabs ty i" if "\<not> any_matches s" "L \<le> i" "i < t + 1" for i
    using n inv(11) that by (meson not_le)
  then show ?thesis using inv t low unfolding search_inv_def none(3) by (simp cong: conj_cong)
next
  case (found t k)
  have t: "s_l s \<le> t" "t \<le> s_r s" "L \<le> k" "k \<le> R" "k \<le> s_r s" using found(1-3) assms(1,2) by (auto simp: search_inv_def)
  have ex: "\<exists>i. L \<le> i \<and> i \<le> R \<and> of_type stabs ty i" using t(3,4) found(4) by blast
  note cmp = compare_address [OF lone t(3,4) found(4), of "s_addr s"]
  have addr: "s_addr s = a \<or> s_addr s = a + 1 \<and> (\<exists>i. L \<le> i \<and> i \<le> R \<and> of_type stabs ty i \<and> value_at stabs i = a)"
    using assms(1) by (simp add: search_inv_def)
  have below: "value_at stabs i \<le> a" if "L \<le> i" "i \<le> t" "of_type stabs ty i" "value_at stabs k \<le> a" for i
  proof -
    have "i \<le> k" using found(5) that by (metis not_le)
    then show ?thesis using in_orderD [OF ord that(1) _ t(4) that(3) found(4)] that(4) by simp
  qed
  have above: "a < value_at stabs i" if "k \<le> i" "i \<le> R" "of_type stabs ty i" "a < value_at stabs k" for i
    using in_orderD [OF ord t(3) that(1,2) found(4) that(3)] that(4) by simp
  consider "value_at stabs k < s_addr s" | "s_addr s < value_at stabs k" | "value_at stabs k = s_addr s" by force
  then show ?thesis
  proof cases
    case 1
    then have s': "s' = s\<lparr>any_matches := True, region_left := k, s_l := t + 1\<rparr>" using found(6) by (simp add: Let_def)
    then show ?thesis using inv t found(4) below cmp(1) [OF addr 1] unfolding search_inv_def s'
      by (auto simp del: value_at_def)
  next
    case 2
    then have s': "s' = s\<lparr>any_matches := True, region_right := k - 1, s_r := k - 1\<rparr>" using found(6) by (auto simp: Let_def)
    have left: "region_left s < k" if "region_left s \<noteq> L"
      using assms(1) above [of "region_left s"] cmp(2) [OF addr 2] that t unfolding search_inv_def
      by (meson leD le_less_linear order_trans)
    show ?thesis using assms(1) t found(2,3,4) above cmp(2) [OF addr 2] left ex unfolding search_inv_def s' by auto
  next
    case 3
    then have s': "s' = s\<lparr>any_matches := True, region_left := k, s_l := k, s_addr := s_addr s + 1\<rparr>"
      using found(6) by (simp add: Let_def)
    have "s_addr s = a" using cmp(3) [OF addr 3] .
    then show ?thesis using assms(1) t found(3,4) below 3 unfolding search_inv_def s' by auto
  qed
qed
qed

lemma search_loop_inv:
  "search_loop stabs ty s = Some s' \<Longrightarrow> search_inv stabs ty L R a s \<Longrightarrow> in_order stabs ty L R \<Longrightarrow> lone stabs ty L R a
     \<Longrightarrow> search_inv stabs ty L R a s' \<and> s_l s' = s_r s' + 1"
proof (induction stabs ty s rule: search_loop.induct)
  case (1 stabs ty s)
  show ?case
  proof (cases "s_l s \<le> s_r s")
    case True
    then obtain s1 where s1: "search_step stabs ty s = Some s1" "search_loop stabs ty s1 = Some s'"
      using 1(2) by (subst (asm) search_loop.simps) (auto split: option.splits)
    show ?thesis
      by (rule "1.IH" [OF True s1 search_step_inv [OF 1(3) True s1(1) 1(4,5)] 1(4,5)])
  next
    case False
    then show ?thesis using 1(2,3) search_invD(2) [OF 1(3)]
      by (subst (asm) search_loop.simps) (simp add: order_antisym)
  qed
qed

text \<open>Inside the table the search always ends with a value, whatever the entries are.\<close>

definition in_table :: "table \<Rightarrow> int \<Rightarrow> u8w \<Rightarrow> int \<Rightarrow> search \<Rightarrow> bool" where
  "in_table stabs n ty L s \<longleftrightarrow> readable stabs n \<and> 0 \<le> L \<and> L \<le> s_l s \<and> s_r s \<le> region_right s \<and> region_right s < n
     \<and> L \<le> region_left s
     \<and> (if any_matches s then L \<le> region_right s + 1 \<and> (of_type stabs ty 0 \<or> 0 \<le> region_right s)
        else region_left s = L)"

lemma search_step_total:
  assumes "in_table stabs n ty L s" and "s_l s \<le> s_r s"
  shows "\<exists>s'. search_step stabs ty s = Some s' \<and> in_table stabs n ty L s'"
proof -
  let ?t = "(s_l s + s_r s) div 2"
  have t: "s_l s \<le> ?t" "?t \<le> s_r s" using assms(2) by auto
  obtain k where k: "scan_back stabs ty (s_l s) ?t = Some k"
    using scan_back_total [of stabs n "s_l s" ?t ty] assms(1) t by (auto simp: in_table_def)
  then have kt: "k \<le> ?t" using scan_back_found by blast
  then have k': "k < n" using t assms(1) by (simp add: in_table_def)
  show ?thesis
  proof (cases "k < s_l s")
    case True
    then show ?thesis using k t assms(1) by (simp add: search_step_def Let_def in_table_def)
  next
    case False
    then have ge: "L \<le> k" "0 \<le> k" using assms(1) by (auto simp: in_table_def)
    then obtain st where st: "stabs k = Some st" using k' assms(1) readableD [of stabs n k] by (auto simp: in_table_def)
    have "k = 0 \<Longrightarrow> of_type stabs ty 0" using scan_back_found [OF k] False by simp
    moreover have "k \<le> region_right s" using kt t assms(1) by (simp add: in_table_def)
    ultimately show ?thesis using k k' kt t False assms(1) ge st
      by (auto simp: search_step_def Let_def in_table_def split: if_splits)
  qed
qed

lemma search_loop_total: "in_table stabs n ty L s \<Longrightarrow> \<exists>s'. search_loop stabs ty s = Some s' \<and> in_table stabs n ty L s'"
proof (induction stabs ty s rule: search_loop.induct)
  case (1 stabs ty s)
  show ?case
  proof (cases "s_l s \<le> s_r s")
    case True
    then obtain s1 where s1: "search_step stabs ty s = Some s1" "in_table stabs n ty L s1"
      using search_step_total 1(2) by blast
    then show ?thesis using "1.IH" [OF True s1] True by (subst search_loop.simps) simp
  next
    case False
    then show ?thesis using 1(2) by (subst search_loop.simps) simp
  qed
qed

lemma search_start:
  assumes "readable stabs n" and "0 \<le> L" and "R < n"
  shows "in_table stabs n ty L \<lparr>s_l = L, s_r = R, region_left = L, region_right = R, s_addr = a, any_matches = False\<rparr>"
  using assms by (simp add: in_table_def)

lemma stab_binsearch_total:
  assumes "readable stabs n" and "0 \<le> L" and "R < n"
  shows "\<exists>l r. stab_binsearch stabs L R ty a = Some (l, r)
    \<and> (l = L \<and> r = L - 1 \<or> L - 1 \<le> l \<and> l \<le> r \<and> r < n) \<and> (of_type stabs ty 0 \<or> 0 \<le> l)"
proof -
  obtain s where s: "search_loop stabs ty \<lparr>s_l = L, s_r = R, region_left = L, region_right = R, s_addr = a, any_matches = False\<rparr> = Some s"
    "in_table stabs n ty L s" using search_loop_total [OF search_start [OF assms]] by blast
  show ?thesis
  proof (cases "any_matches s")
    case False
    then show ?thesis using s by (simp add: stab_binsearch_def in_table_def)
  next
    case True
    obtain k where k: "scan_back stabs ty (region_left s + 1) (region_right s) = Some k"
      using scan_back_total [of stabs n "region_left s + 1" "region_right s" ty] s(2) by (auto simp: in_table_def)
    have "k \<le> region_right s" "region_left s + 1 \<le> k \<or> k = min (region_right s) (region_left s)"
      using scan_back_found [OF k] scan_back_below [OF k] by auto
    then show ?thesis using s True k by (auto simp: stab_binsearch_def in_table_def)
  qed
qed

text \<open>The last entry of the type in a region, if there is one.\<close>

definition last_of :: "table \<Rightarrow> u8w \<Rightarrow> int \<Rightarrow> int \<Rightarrow> int \<Rightarrow> bool" where
  "last_of stabs ty L r k \<longleftrightarrow> L \<le> k \<and> k \<le> r \<and> of_type stabs ty k \<and> (\<forall>i. k < i \<and> i \<le> r \<longrightarrow> \<not> of_type stabs ty i)"

lemma last_of_unique: "last_of stabs ty L r k \<Longrightarrow> last_of stabs ty L r j \<Longrightarrow> k = j"
  unfolding last_of_def by (meson linorder_less_linear)

theorem stab_binsearch_finds:
  assumes "readable stabs n" and "0 \<le> L" and "L \<le> R + 1" and "R < n" and "in_order stabs ty L R" and "lone stabs ty L R a"
  shows "\<exists>l r. stab_binsearch stabs L R ty a = Some (l, r)
    \<and> (if \<exists>i. L \<le> i \<and> i \<le> R \<and> of_type stabs ty i
       then r \<le> R \<and> (\<forall>i. L \<le> i \<and> i \<le> R \<and> of_type stabs ty i \<longrightarrow> (i \<le> r \<longleftrightarrow> value_at stabs i \<le> a))
         \<and> (r < R \<longrightarrow> of_type stabs ty (r + 1))
         \<and> (if \<exists>i. L \<le> i \<and> i \<le> r \<and> of_type stabs ty i then last_of stabs ty L r l else l = min L r)
       else l = L \<and> r = L - 1)"
proof -
  let ?s = "\<lparr>s_l = L, s_r = R, region_left = L, region_right = R, s_addr = a, any_matches = False\<rparr>"
  obtain s where s: "search_loop stabs ty ?s = Some s" "in_table stabs n ty L s"
    using search_loop_total [OF search_start [OF assms(1,2,4)]] by blast
  have "search_inv stabs ty L R a ?s" using assms(3) by (auto simp: search_inv_def)
  then have inv: "search_inv stabs ty L R a s" and at_end: "s_l s = s_r s + 1"
    using search_loop_inv [OF s(1)] assms(5,6) by auto
  note d = search_invD [OF inv]
  show ?thesis
  proof (cases "any_matches s")
    case False
    then have "\<not> (\<exists>i. L \<le> i \<and> i \<le> R \<and> of_type stabs ty i)" using d(11) at_end by force
    then show ?thesis using s(1) False d(11) by (auto simp: stab_binsearch_def)
  next
    case True
    obtain k where k: "scan_back stabs ty (region_left s + 1) (region_right s) = Some k"
      using scan_back_total [of stabs n "region_left s + 1" "region_right s" ty] s(2) by (auto simp: in_table_def)
    note f = scan_back_found [OF k]
    have res: "stab_binsearch stabs L R ty a = Some (k, s_r s)" using s(1) True k d(4) by (simp add: stab_binsearch_def)
    have sides: "i \<le> s_r s \<longleftrightarrow> value_at stabs i \<le> a" if "L \<le> i" "i \<le> R" "of_type stabs ty i" for i
    proof (cases "i \<le> s_r s")
      case True
      then show ?thesis using d(5) [OF that(1) _ that(3)] at_end by simp
    next
      case False
      then show ?thesis using d(6) [OF _ that(2,3)] by simp
    qed
    have rest: "\<not> of_type stabs ty i" if "region_left s < i" "k < i" "i \<le> s_r s" for i using f that d(4) by simp
    have "if \<exists>i. L \<le> i \<and> i \<le> s_r s \<and> of_type stabs ty i then last_of stabs ty L (s_r s) k else k = min L (s_r s)"
    proof (cases "region_left s < k")
      case True
      then have "last_of stabs ty L (s_r s) k" using f d(4) d(9) rest by (auto simp: last_of_def)
      then show ?thesis unfolding last_of_def by auto
    next
      case False
      then have kl: "k = min (s_r s) (region_left s)" using scan_back_below [OF k] d(4) by simp
      show ?thesis
      proof (cases "of_type stabs ty (region_left s) \<and> region_left s \<le> s_r s")
        case True
        then have "last_of stabs ty L (s_r s) k" using kl rest d(9) by (auto simp: last_of_def)
        then show ?thesis unfolding last_of_def by auto
      next
        case False
        then have "region_left s = L" "s_r s < L \<or> \<not> of_type stabs ty L" using d(9) by auto
        then show ?thesis using kl rest by (auto simp: min_def) (metis order_le_less)+
      qed
    qed
    moreover have "\<exists>i. L \<le> i \<and> i \<le> R \<and> of_type stabs ty i" using d(10) True .
    ultimately show ?thesis using res sides d(3,7) by auto
  qed
qed

text \<open>The entry \<open>F\<close> contains the address, and \<open>E\<close> is the index before the next entry.\<close>

definition encloses :: "table \<Rightarrow> u8w \<Rightarrow> int \<Rightarrow> int \<Rightarrow> u32w \<Rightarrow> int \<Rightarrow> int \<Rightarrow> bool" where
  "encloses stabs ty L R a F E \<longleftrightarrow> L \<le> F \<and> F \<le> E \<and> E \<le> R \<and> of_type stabs ty F \<and> value_at stabs F \<le> a
     \<and> (\<forall>i. F < i \<and> i \<le> E \<longrightarrow> \<not> of_type stabs ty i)
     \<and> (E < R \<longrightarrow> of_type stabs ty (E + 1) \<and> a < value_at stabs (E + 1))"

text \<open>The conditions under which the search is used: a readable range in order, with no entry one byte
  after one that is exactly at the address.\<close>

definition searchable :: "table \<Rightarrow> int \<Rightarrow> u8w \<Rightarrow> int \<Rightarrow> int \<Rightarrow> u32w \<Rightarrow> bool" where
  "searchable stabs n ty L R a \<longleftrightarrow> readable stabs n \<and> 0 \<le> L \<and> L \<le> R + 1 \<and> R < n
     \<and> in_order stabs ty L R \<and> lone stabs ty L R a"

lemma binsearch_encloses:
  assumes s: "searchable stabs n ty L R a" and e: "encloses stabs ty L R a F E"
  shows "stab_binsearch stabs L R ty a = Some (F, E)"
proof -
  note h = s [unfolded searchable_def]
  have F: "L \<le> F" "F \<le> E" "E \<le> R" "of_type stabs ty F" "value_at stabs F \<le> a" using e by (auto simp: encloses_def)
  have gap: "\<not> of_type stabs ty i" if "F < i" "i \<le> E" for i using e that by (auto simp: encloses_def)
  have next': "of_type stabs ty (E + 1)" "a < value_at stabs (E + 1)" if "E < R" using e that by (auto simp: encloses_def)
  have ex: "\<exists>i. L \<le> i \<and> i \<le> R \<and> of_type stabs ty i" using F by auto
  have "\<exists>l r. stab_binsearch stabs L R ty a = Some (l, r)
      \<and> r \<le> R \<and> (\<forall>i. L \<le> i \<and> i \<le> R \<and> of_type stabs ty i \<longrightarrow> (i \<le> r \<longleftrightarrow> value_at stabs i \<le> a))
      \<and> (r < R \<longrightarrow> of_type stabs ty (r + 1))
      \<and> (if \<exists>i. L \<le> i \<and> i \<le> r \<and> of_type stabs ty i then last_of stabs ty L r l else l = min L r)"
    using stab_binsearch_finds [of stabs n L R ty a] h by (simp only: ex if_True)
  then obtain l r where lr: "stab_binsearch stabs L R ty a = Some (l, r)" "r \<le> R" "r < R \<Longrightarrow> of_type stabs ty (r + 1)"
    and sides': "\<forall>i. L \<le> i \<and> i \<le> R \<and> of_type stabs ty i \<longrightarrow> (i \<le> r \<longleftrightarrow> value_at stabs i \<le> a)"
    and last: "if \<exists>i. L \<le> i \<and> i \<le> r \<and> of_type stabs ty i then last_of stabs ty L r l else l = min L r"
    by (elim exE conjE) (rule that, simp_all only: simp_thms)
  note sides = sides' [rule_format, OF conjI, OF _ conjI]
  have Fr: "F \<le> r" using sides [of F] F by simp
  have "E \<le> r" using lr(3) gap [of "r + 1"] Fr F(3) by fastforce
  moreover have "r \<le> E"
  proof (rule ccontr)
    assume "\<not> r \<le> E"
    then have "E < R" "E + 1 \<le> r" using lr(2) by auto
    then show False using sides [of "E + 1"] next' F by (simp add: not_le)
  qed
  ultimately have "r = E" by simp
  moreover have "last_of stabs ty L E F" using F gap by (simp add: last_of_def)
  moreover have "last_of stabs ty L r l" using last F(1,4) Fr by (simp only: split: if_splits) blast
  ultimately show ?thesis using lr(1) last_of_unique by simp
qed

section \<open>Every read is inside the tables\<close>

lemma find_colon_total:
  "\<forall>i<len. str i \<noteq> None \<Longrightarrow> str (len - 1) = Some 0 \<Longrightarrow> i < len \<Longrightarrow> \<exists>j. find_colon str len i = Some j \<and> i \<le> j \<and> j < len"
proof (induction str len i rule: find_colon.induct)
  case (1 str len i)
  then obtain x where x: "str i = Some x" by auto
  show ?case
  proof (cases "x \<noteq> 0 \<and> x \<noteq> 0x3A")
    case True
    then have "i + 1 < len" using 1(3,4) x by (cases "i = len - 1") auto
    then show ?thesis using "1.IH" [OF 1(4) x True 1(2,3)] True x 1(4) by (subst find_colon.simps) auto
  next
    case False
    then show ?thesis using 1(4) x by (subst find_colon.simps) auto
  qed
qed

lemma back_to_file_total:
  "readable stabs n \<Longrightarrow> 0 \<le> lfile \<Longrightarrow> lline < n \<Longrightarrow>
     \<exists>j. back_to_file stabs lfile lline = Some j \<and> j \<le> lline"
proof (induction stabs lfile lline rule: back_to_file.induct)
  case (1 stabs lfile lline)
  show ?case
  proof (cases "lfile \<le> lline")
    case True
    then obtain st where "stabs lline = Some st" using readableD [OF "1.prems"(1), of lline] "1.prems"(2,3) by auto
    then show ?thesis using 1 True by (subst back_to_file.simps) fastforce
  qed (subst back_to_file.simps, simp)
qed

lemma count_params_total:
  "readable stabs n \<Longrightarrow> 0 \<le> lline \<Longrightarrow> rfun \<le> n \<Longrightarrow> \<exists>j. count_params stabs lline rfun = Some j \<and> 0 \<le> j"
proof (induction stabs lline rfun rule: count_params.induct)
  case (1 stabs lline rfun)
  show ?case
  proof (cases "lline < rfun")
    case True
    then obtain st where "stabs lline = Some st" using readableD [OF "1.prems"(1), of lline] "1.prems"(2,3) by auto
    then show ?thesis using 1 True by (subst count_params.simps) fastforce
  qed (subst count_params.simps, simp)
qed

text \<open>The first entry of the table, the header the linker writes, is none of the entries that are looked for.\<close>

definition header_first :: "table \<Rightarrow> bool" where
  "header_first stabs \<longleftrightarrow> \<not> of_type stabs N_SO 0 \<and> \<not> of_type stabs N_FUN 0 \<and> \<not> of_type stabs N_SLINE 0"

definition strtab_ok :: "(nat \<Rightarrow> u8w option) \<Rightarrow> nat \<Rightarrow> bool" where
  "strtab_ok str len \<longleftrightarrow> (\<forall>i<len. str i \<noteq> None)"

definition name_in :: "nat \<Rightarrow> name_ptr \<Rightarrow> bool" where
  "name_in len p \<longleftrightarrow> (case p of Unknown_name \<Rightarrow> True | In_strtab i \<Rightarrow> i < len)"

lemma strtab_name_in: "name_in len old \<Longrightarrow> name_in len (strtab_name len s old)"
  by (simp add: name_in_def strtab_name_def)

lemma name_length_total:
  assumes "strtab_ok str len" and "str (len - 1) = Some 0" and "name_in len p"
  shows "\<exists>j. name_length str len p = Some j \<and> 0 \<le> j"
proof (cases p)
  case (In_strtab i)
  then show ?thesis using find_colon_total [of len str i] assms
    by (auto simp: name_length_def strtab_ok_def name_in_def)
qed (simp add: name_length_def)

lemma binsearch_from:
  assumes "readable stabs n" and "header_first stabs" and "0 \<le> L" and "L < n" and "R < n" and "ty \<in> {N_SO, N_FUN, N_SLINE}"
  shows "\<exists>l r. stab_binsearch stabs L R ty a = Some (l, r) \<and> 0 \<le> l \<and> l < n \<and> r < n"
  using stab_binsearch_total [OF assms(1,3,5), of ty a] assms(2,4,6) by (auto simp: header_first_def)

lemma search_info_total:
  assumes rd: "readable stabs n" and hd: "header_first stabs" and n: "0 < n"
    and str: "strtab_ok str len" "str (len - 1) = Some 0"
  shows "\<exists>r info. search_info stabs n str len addr = Some (r, info) \<and> name_in len (eip_fn_name info) \<and> name_in len (eip_file info)
    \<and> 0 \<le> eip_fn_namelen info"
proof -
  have u: "name_in len Unknown_name" by (simp add: name_in_def)
  obtain lfile rfile where so: "stab_binsearch stabs 0 (n - 1) N_SO addr = Some (lfile, rfile)" "0 \<le> lfile" "lfile < n" "rfile < n"
    using binsearch_from [OF rd hd, of 0 "n - 1" N_SO addr] n by auto
  obtain lfun rfun where fn: "stab_binsearch stabs lfile rfile N_FUN addr = Some (lfun, rfun)" "0 \<le> lfun" "lfun < n" "rfun < n"
    using binsearch_from [OF rd hd so(2,3,4), of N_FUN addr] by auto
  obtain s where s: "stabs lfun = Some s" using readableD [OF rd fn(2,3)] by auto
  define b where "b = (lfun \<le> rfun)"
  define nm where "nm = (if b then strtab_name len s Unknown_name else Unknown_name)"
  define ad where "ad = (if b then addr - n_value s else addr)"
  define L R where "L = (if b then lfun else lfile)" and "R = (if b then rfun else rfile)"
  have nm: "name_in len nm" using strtab_name_in [OF u] u by (simp add: nm_def)
  obtain nl where nl: "name_length str len nm = Some nl" "0 \<le> nl" using name_length_total [OF str nm] by auto
  have LR: "0 \<le> L" "L < n" "R < n" using so fn by (auto simp: L_def R_def)
  obtain ll rl where ln: "stab_binsearch stabs L R N_SLINE ad = Some (ll, rl)" "0 \<le> ll" "ll < n"
    using binsearch_from [OF rd hd LR, of N_SLINE ad] by auto
  obtain sl where sl: "stabs ll = Some sl" using readableD [OF rd ln(2,3)] by auto
  obtain lf where lf: "back_to_file stabs lfile ll = Some lf" "lf \<le> ll"
    using back_to_file_total [OF rd so(2) ln(3)] by auto
  have lfs: "lfile \<le> lf \<Longrightarrow> \<exists>s. stabs lf = Some s" using readableD [OF rd, of lf] so(2) lf(2) ln(3) by auto
  obtain na where na: "count_params stabs (lfun + 1) rfun = Some na"
    using count_params_total [OF rd, of "lfun + 1" rfun] fn by auto
  show ?thesis
  proof (cases "lfile = 0")
    case True
    then show ?thesis using so u by (simp add: search_info_def no_info_def)
  next
    case False
    note defs = search_info_def no_info_def Let_def
    show ?thesis
    proof (cases b)
      case True
      then have "lfun \<le> rfun" "nm = strtab_name len s Unknown_name" "ad = addr - n_value s" "L = lfun" "R = rfun"
        by (auto simp: b_def nm_def ad_def L_def R_def)
      then show ?thesis using False so fn s nl ln sl lf lfs na nm u strtab_name_in [OF u]
        by (cases "lfile \<le> lf") (auto simp: defs)
    next
      case f: False
      then have "\<not> lfun \<le> rfun" "nm = Unknown_name" "ad = addr" "L = lfile" "R = rfile"
        by (auto simp: b_def nm_def ad_def L_def R_def)
      then show ?thesis using False so fn s nl ln sl lf lfs na nm u strtab_name_in [OF u]
        by (cases "lfile \<le> lf") (auto simp: defs)
    qed
  qed
qed

section \<open>Properties\<close>

text \<open>A small table: a header, a file with two functions of one line each, and a second file.\<close>

definition demo_stab :: "u8w \<Rightarrow> u32w \<Rightarrow> u32w \<Rightarrow> Stab" where
  "demo_stab ty strx v = \<lparr>n_strx = strx, n_type = ty, n_other = 0, n_desc = 7, n_value = v\<rparr>"

definition demo_stabs :: "Stab list" where
  "demo_stabs = [demo_stab 0 0 0, demo_stab N_SO 1 0xF0100000, demo_stab N_FUN 3 0xF0100000,
     demo_stab N_SLINE 0 0, demo_stab N_FUN 5 0xF0100040, demo_stab N_SLINE 0 0, demo_stab N_SO 1 0xF0100080]"

lemma demo_header: "header_first (stab_at demo_stabs)"
  by (simp add: header_first_def of_type_def stab_at_def demo_stabs_def demo_stab_def stab_types)

lemma demo_types:
  "of_type (stab_at demo_stabs) N_SO i \<longleftrightarrow> i = 1 \<or> i = 6"
  "of_type (stab_at demo_stabs) N_FUN i \<longleftrightarrow> i = 2 \<or> i = 4"
proof -
  consider "i = 0" | "i = 1" | "i = 2" | "i = 3" | "i = 4" | "i = 5" | "i = 6" | "i < 0 \<or> 7 \<le> i" by linarith
  then show "of_type (stab_at demo_stabs) N_SO i \<longleftrightarrow> i = 1 \<or> i = 6" "of_type (stab_at demo_stabs) N_FUN i \<longleftrightarrow> i = 2 \<or> i = 4"
    by (cases; auto simp: of_type_def stab_at_def demo_stabs_def demo_stab_def stab_types)+
qed

lemma demo_values: "value_at (stab_at demo_stabs) 1 = 0xF0100000" "value_at (stab_at demo_stabs) 2 = 0xF0100000"
    "value_at (stab_at demo_stabs) 4 = 0xF0100040" "value_at (stab_at demo_stabs) 6 = 0xF0100080"
  by (simp_all add: value_at_def stab_at_def demo_stabs_def demo_stab_def)

lemma demo_length: "length demo_stabs = 7"
  by (simp add: demo_stabs_def)

lemma demo_searchable:
  "searchable (stab_at demo_stabs) 7 N_SO 0 6 0xF0100042" "searchable (stab_at demo_stabs) 7 N_FUN 1 5 0xF0100042"
  using stab_at_readable [of demo_stabs] by (auto simp: searchable_def demo_length in_order_def lone_def demo_types demo_values)

lemma demo_encloses:
  "encloses (stab_at demo_stabs) N_SO 0 6 0xF0100042 1 5" "encloses (stab_at demo_stabs) N_FUN 1 5 0xF0100042 4 5"
  by (auto simp: encloses_def demo_types demo_values)

text \<open>C34: Over a table in address order, when no entry of the type is one byte past an entry exactly at the
  address, \<open>stab_binsearch\<close> returns the entry that contains the address and the index just before the next
  one, as its comment promises.\<close>

theorem stab_binsearch_encloses:
  assumes "searchable stabs n ty L R a" and "encloses stabs ty L R a F E"
  shows "stab_binsearch stabs L R ty a = Some (F, E)"
  using assms by (rule binsearch_encloses)

theorem stab_binsearch_encloses_witness:
  "stab_binsearch (stab_at demo_stabs) 1 5 N_FUN 0xF0100042 = Some (4, 5)"
  by (rule stab_binsearch_encloses [OF demo_searchable(2) demo_encloses(2)])

text \<open>\<open>stab_binsearch\<close> always returns, and never reads outside the range, on any table and any address.\<close>

theorem stab_binsearch_safe:
  assumes "0 \<le> L" and "R < int (length stabs)"
  shows "\<exists>l r. stab_binsearch (stab_at stabs) L R ty a = Some (l, r)
    \<and> (l = L \<and> r = L - 1 \<or> L - 1 \<le> l \<and> l \<le> r \<and> r < int (length stabs))"
  using stab_binsearch_total [OF stab_at_readable assms] by blast

theorem stab_binsearch_safe_witness:
  "\<exists>l r. stab_binsearch (stab_at demo_stabs) 0 6 N_SLINE 3 = Some (l, r) \<and> r < 7"
  using stab_binsearch_safe [of 0 6 demo_stabs N_SLINE 3] by (auto simp: demo_length)

text \<open>An address below every entry of the type is reported as if it had been found: the left end
  of the result is not past its right end, which is what the comment says the callers test.\<close>

theorem stab_binsearch_misses:
  assumes "searchable stabs n ty L R a" and "L \<le> i" and "i \<le> R" and "of_type stabs ty i"
    and "\<forall>j. L \<le> j \<and> j \<le> R \<and> of_type stabs ty j \<longrightarrow> a < value_at stabs j"
  shows "\<exists>l r. stab_binsearch stabs L R ty a = Some (l, r) \<and> l \<le> r"
  using stab_binsearch_finds [of stabs n L R ty a] assms
  by (fastforce simp: searchable_def split: if_splits)

theorem stab_binsearch_misses_witness:
  "\<exists>l r. stab_binsearch (stab_at demo_stabs) 0 6 N_SO 0xF00FFFFF = Some (l, r) \<and> l \<le> r"
proof -
  have "searchable (stab_at demo_stabs) 7 N_SO 0 6 0xF00FFFFF"
    using stab_at_readable [of demo_stabs] by (auto simp: searchable_def demo_length in_order_def lone_def demo_types demo_values)
  then show ?thesis by (rule stab_binsearch_misses [of _ _ _ _ _ _ 1]) (auto simp: demo_types demo_values)
qed

text \<open>With an entry exactly at the address and one a byte after it, the search can return the second.\<close>

theorem stab_binsearch_overshoots:
  "stab_binsearch (stab_at [demo_stab N_SLINE 0 10, demo_stab N_SLINE 0 11]) 0 1 N_SLINE 10 = Some (1, 1)"
  by (simp add: stab_binsearch_def search_loop.simps search_step_def scan_back.simps stab_at_def demo_stab_def)


text \<open>What a successful lookup reports about the function.\<close>

lemma search_info_function:
  assumes "search_info stabs n str len addr = Some (r, info)"
    and "stab_binsearch stabs 0 (n - 1) N_SO addr = Some (F, E)" and "F \<noteq> 0"
    and "stab_binsearch stabs F E N_FUN addr = Some (f, g)" and "f \<le> g"
  shows "r = 0" "\<exists>s. stabs f = Some s \<and> eip_fn_addr info = n_value s \<and> eip_fn_name info = strtab_name len s Unknown_name"
  using assms by (auto simp: search_info_def no_info_def Let_def split: bind_splits if_splits prod.splits)

text \<open>When the files and the functions of the kernel's table are in order, the address of an instruction gets
  the function that contains it: its address, not past the instruction, and its name.\<close>

theorem debuginfo_function:
  assumes "ULIM \<le> addr" and "header_first (stab_at kstabs)" and "kstabstr \<noteq> []" and "last kstabstr = 0"
    and "searchable (stab_at kstabs) (int (length kstabs)) N_SO 0 (int (length kstabs) - 1) addr"
    and "encloses (stab_at kstabs) N_SO 0 (int (length kstabs) - 1) addr F E"
    and "searchable (stab_at kstabs) (int (length kstabs)) N_FUN F E addr"
    and "encloses (stab_at kstabs) N_FUN F E addr f g"
  shows "\<exists>info. debuginfo_eip kstabs kstabstr addr k = Some ((0, info), k)
    \<and> eip_fn_addr info = n_value (kstabs ! nat f) \<and> eip_fn_addr info \<le> addr
    \<and> eip_fn_name info = strtab_name (length kstabstr) (kstabs ! nat f) Unknown_name"
proof -
  have F: "0 \<le> F" "F \<le> E" "E < int (length kstabs)" "of_type (stab_at kstabs) N_SO F" using assms(6) by (auto simp: encloses_def)
  have "F \<noteq> 0" using F(4) assms(2) by (auto simp: header_first_def)
  have ne: "0 < int (length kstabs)" using F(1-3) by linarith
  have f: "F \<le> f" "f \<le> g" "f < int (length kstabs)" "value_at (stab_at kstabs) f \<le> addr" using assms(8) F by (auto simp: encloses_def)
  have end0: "peek kstabstr (length kstabstr - 1) = Some 0" using assms(3,4) by (simp add: peek_def last_conv_nth)
  have str: "strtab_ok (peek kstabstr) (length kstabstr)" by (simp add: strtab_ok_def peek_def)
  obtain r info where ri: "search_info (stab_at kstabs) (int (length kstabs)) (peek kstabstr) (length kstabstr) addr = Some (r, info)"
    using search_info_total [OF stab_at_readable assms(2) ne str end0, of addr] by blast
  note fn = search_info_function [OF ri binsearch_encloses [OF assms(5,6)] \<open>F \<noteq> 0\<close> binsearch_encloses [OF assms(7,8)] f(2)]
  have at: "stab_at kstabs f = Some (kstabs ! nat f)" using f F by (simp add: stab_at_def)
  then have v: "value_at (stab_at kstabs) f = n_value (kstabs ! nat f)" by (simp add: value_at_def)
  have "debuginfo_eip kstabs kstabstr addr k = Some ((0, info), k)"
    using ri fn(1) assms(1,3) end0 by (simp add: debuginfo_eip_def checked_info_def)
  then show ?thesis using fn(2) at v f(4) by auto
qed


theorem debuginfo_function_witness:
  "\<forall>k :: kern. \<exists>info. debuginfo_eip demo_stabs [0, 97, 0, 98, 0, 99, 58, 0] 0xF0100042 k = Some ((0, info), k)
    \<and> eip_fn_addr info = 0xF0100040 \<and> eip_fn_name info = In_strtab 5"
proof
  have u: "ULIM \<le> 0xF0100042" by (simp add: layout)
  have n: "[0, 97, 0, 98, 0, 99, 58, 0 :: u8w] \<noteq> []" "last [0, 97, 0, 98, 0, 99, 58, 0 :: u8w] = 0" by simp_all
  have l: "int (length demo_stabs) = 7" "(7 :: int) - 1 = 6" by (simp_all add: demo_length)
  have "n_value (demo_stabs ! nat 4) = 0xF0100040" "n_strx (demo_stabs ! nat 4) = 5"
    by (simp_all add: demo_stabs_def demo_stab_def)
  then show "\<exists>info. debuginfo_eip demo_stabs [0, 97, 0, 98, 0, 99, 58, 0] 0xF0100042 k = Some ((0, info), k)
    \<and> eip_fn_addr info = 0xF0100040 \<and> eip_fn_name info = In_strtab 5" for k :: kern
    using debuginfo_function [OF u demo_header n, unfolded l, OF demo_searchable(1) demo_encloses(1) demo_searchable(2) demo_encloses(2),
      where k = k] by (auto simp: strtab_name_def)
qed

end
