(* ===== verification/Monitor.thy ===== *)
theory Monitor
  imports Lib_Printf Lib_String Console
begin

text \<open>
  The kernel monitor, \<open>scheduler/kern/monitor.c\<close>, with the kernel's \<open>cprintf\<close> (\<open>kern/printf.c\<close>), which hands the
  formatted characters to the console one by one. The line to run is in memory, a list of bytes, and is cut
  into arguments where it is. The addresses the linker gives are parameters.
\<close>

section \<open>Printing on the console\<close>

definition k_putch :: "int \<Rightarrow> int \<times> console \<Rightarrow> (int \<times> console) option" where
  "k_putch ch = (\<lambda>(cnt, con). Some (cnt + 1, cputchar (word_of_int ch) con))"

definition k_cprintf :: "string \<Rightarrow> varg list \<Rightarrow> console \<Rightarrow> (int \<times> console) option" where
  "k_cprintf fmt ap con = do {
     out \<leftarrow> vprintfmt fmt ap;
     put_all k_putch out (0, con)
   }"

definition say :: "string \<Rightarrow> varg list \<Rightarrow> console \<Rightarrow> console option" where
  "say fmt ap con = map_option snd (k_cprintf fmt ap con)"

lemma put_all_k_putch: "put_all k_putch out (n, con) = Some (n + int (length out), fold (\<lambda>c. cputchar (word_of_int c)) out con)"
  by (induction out arbitrary: n con) (auto simp: k_putch_def)

section \<open>Commands\<close>

text \<open>The symbols of the kernel image.\<close>

record ksyms =
  sym_start :: u32w
  sym_entry :: u32w
  sym_etext :: u32w
  sym_edata :: u32w
  sym_end :: u32w

datatype mon_func = Mon_help | Mon_kerninfo

record Command =
  cmd_name :: string
  cmd_desc :: string
  cmd_func :: mon_func

definition commands :: "Command list" where
  "commands = [\<lparr>cmd_name = ''help'', cmd_desc = ''Display this list of commands'', cmd_func = Mon_help\<rparr>,
     \<lparr>cmd_name = ''kerninfo'', cmd_desc = ''Display information about the kernel'', cmd_func = Mon_kerninfo\<rparr>]"

fun help_lines :: "Command list \<Rightarrow> console \<Rightarrow> console option" where
  "help_lines [] con = Some con"
| "help_lines (c # cs) con = do {
     con \<leftarrow> say (''%s - %s'' @ [NL]) [Str (Some (cmd_name c)), Str (Some (cmd_desc c))] con;
     help_lines cs con
   }"

definition mon_help :: "console \<Rightarrow> (int \<times> console) option" where
  "mon_help con = do { con \<leftarrow> help_lines commands con; Some (0, con) }"

definition KBASE :: u32w where "KBASE = 0xF0000000"

definition kb_footprint :: "ksyms \<Rightarrow> u32w" where
  "kb_footprint s = (let a = sym_end s - sym_entry s + 1024 - 1 in (a - a mod 1024) div 1024)"

definition mon_kerninfo :: "ksyms \<Rightarrow> console \<Rightarrow> (int \<times> console) option" where
  "mon_kerninfo s con = do {
     con \<leftarrow> say (''Special kernel symbols:'' @ [NL]) [] con;
     con \<leftarrow> say (''  _start                  %08x (phys)'' @ [NL]) [Word (sym_start s)] con;
     con \<leftarrow> say (''  entry  %08x (virt)  %08x (phys)'' @ [NL]) [Word (sym_entry s), Word (sym_entry s - KBASE)] con;
     con \<leftarrow> say (''  etext  %08x (virt)  %08x (phys)'' @ [NL]) [Word (sym_etext s), Word (sym_etext s - KBASE)] con;
     con \<leftarrow> say (''  edata  %08x (virt)  %08x (phys)'' @ [NL]) [Word (sym_edata s), Word (sym_edata s - KBASE)] con;
     con \<leftarrow> say (''  end    %08x (virt)  %08x (phys)'' @ [NL]) [Word (sym_end s), Word (sym_end s - KBASE)] con;
     con \<leftarrow> say (''Kernel executable memory footprint: %dKB'' @ [NL]) [Word (kb_footprint s)] con;
     Some (0, con)
   }"

fun run_func :: "ksyms \<Rightarrow> mon_func \<Rightarrow> console \<Rightarrow> (int \<times> console) option" where
  "run_func s Mon_help con = mon_help con"
| "run_func s Mon_kerninfo con = mon_kerninfo s con"

section \<open>Cutting the line\<close>

definition MON_MAXARGS :: nat where "MON_MAXARGS = 16"

definition WHITESPACE :: bytes where "WHITESPACE = [9, 13, 10, 32, 0]"

definition is_ws :: "u8w \<Rightarrow> bool" where
  "is_ws c \<longleftrightarrow> strchr WHITESPACE 0 c \<noteq> Some None"

lemma is_ws_iff: "is_ws c \<longleftrightarrow> c \<in> {9, 13, 10, 32}"
  by (auto simp: is_ws_def WHITESPACE_def strchr.simps peek_def)

function gobble :: "bytes \<Rightarrow> nat \<Rightarrow> (bytes \<times> nat) option" where
  "gobble m p = (case peek m p of
     None \<Rightarrow> None
   | Some c \<Rightarrow> if c \<noteq> 0 \<and> is_ws c then gobble (m[p := 0]) (p + 1) else Some (m, p))"
  by pat_completeness auto
termination
  by (relation "measure (\<lambda>(m, p). length m - p)") (auto simp: peek_eq_Some_iff)

function skip_word :: "bytes \<Rightarrow> nat \<Rightarrow> nat option" where
  "skip_word m p = (case peek m p of
     None \<Rightarrow> None
   | Some c \<Rightarrow> if c \<noteq> 0 \<and> \<not> is_ws c then skip_word m (p + 1) else Some p)"
  by pat_completeness auto
termination
  by (relation "measure (\<lambda>(m, p). length m - p)") (auto simp: peek_eq_Some_iff)

declare gobble.simps [simp del] skip_word.simps [simp del]

lemma gobble_bounds: "gobble m p = Some (m', q) \<Longrightarrow> p \<le> q \<and> length m' = length m \<and> (\<exists>c. peek m' q = Some c \<and> \<not> (c \<noteq> 0 \<and> is_ws c))"
proof (induction m p rule: gobble.induct)
  case (1 m p)
  then obtain c where c: "peek m p = Some c" by (subst (asm) (2) gobble.simps) (auto split: option.splits)
  then show ?case using 1 by (subst (asm) (2) gobble.simps) (fastforce split: if_splits)
qed

lemma skip_word_bounds: "skip_word m p = Some q \<Longrightarrow> p \<le> q"
proof (induction m p rule: skip_word.induct)
  case (1 m p)
  then obtain c where c: "peek m p = Some c" by (subst (asm) (2) skip_word.simps) (auto split: option.splits)
  then show ?case using 1 by (subst (asm) (2) skip_word.simps) (fastforce split: if_splits)
qed

text \<open>The arguments as pointers into the line, \<open>None\<close> when there are too many, and the memory.\<close>

function parse_args :: "bytes \<Rightarrow> nat \<Rightarrow> nat list \<Rightarrow> (nat list option \<times> bytes) option" where
  "parse_args m p argv = (case gobble m p of
     None \<Rightarrow> None
   | Some (m, p) \<Rightarrow> (case peek m p of
       None \<Rightarrow> None
     | Some c \<Rightarrow>
         if c = 0 then Some (Some argv, m)
         else if length argv = MON_MAXARGS - 1 then Some (None, m)
         else (case skip_word m p of
             None \<Rightarrow> None
           | Some q \<Rightarrow> parse_args m q (argv @ [p]))))"
  by pat_completeness auto
termination
proof (relation "measure (\<lambda>(m, p, argv). length m - p)", simp, clarify)
  fix m p argv m1 p1 c q
  assume g: "gobble m p = Some (m1, p1)" and c: "peek m1 p1 = Some c" "c \<noteq> 0" and q: "skip_word m1 p1 = Some q"
  note b = gobble_bounds [OF g]
  have "\<not> is_ws c" using b c by auto
  then have "skip_word m1 (p1 + 1) = Some q" using q c by (subst (asm) skip_word.simps) simp
  then have "p1 + 1 \<le> q" by (rule skip_word_bounds)
  moreover have "p1 < length m1" using c(1) by (simp add: peek_eq_Some_iff)
  ultimately show "((m1, q, argv @ [p1]), m, p, argv) \<in> measure (\<lambda>(m, p, argv). length m - p)"
    using b by auto
qed

declare parse_args.simps [simp del]

definition nul_string :: "string \<Rightarrow> bytes" where
  "nul_string s = map (\<lambda>c. word_of_nat (of_char c)) s @ [0]"

text \<open>\<open>strcmp\<close> of an argument with a name of the table, a string in another part of memory.\<close>

definition same_name :: "bytes \<Rightarrow> nat \<Rightarrow> string \<Rightarrow> bool option" where
  "same_name m p name = do { d \<leftarrow> strcmp (m @ nul_string name) p (length m); Some (d = 0) }"

fun find_command :: "bytes \<Rightarrow> nat \<Rightarrow> Command list \<Rightarrow> mon_func option option" where
  "find_command m p [] = Some None"
| "find_command m p (c # cs) = do {
     eq \<leftarrow> same_name m p (cmd_name c);
     if eq then Some (Some (cmd_func c)) else find_command m p cs
   }"

text \<open>The C string at an address, as \<open>%s\<close> prints it.\<close>

definition arg_text :: "bytes \<Rightarrow> nat \<Rightarrow> bytes" where
  "arg_text m p = takeWhile (\<lambda>c. c \<noteq> 0) (drop p m)"

definition runcmd :: "ksyms \<Rightarrow> nat \<Rightarrow> bytes \<Rightarrow> console \<Rightarrow> (int \<times> bytes \<times> console) option" where
  "runcmd syms buf m con = do {
     (argv, m) \<leftarrow> parse_args m buf [];
     case argv of
       None \<Rightarrow> do { con \<leftarrow> say (''Too many arguments (max %d)'' @ [NL]) [Word (word_of_nat MON_MAXARGS)] con; Some (0, m, con) }
     | Some [] \<Rightarrow> Some (0, m, con)
     | Some (arg # _) \<Rightarrow> do {
         f \<leftarrow> find_command m arg commands;
         case f of
           Some f \<Rightarrow> do { (r, con) \<leftarrow> run_func syms f con; Some (r, m, con) }
         | None \<Rightarrow> do {
             con \<leftarrow> say (''Unknown command '' @ [CHR 0x27] @ ''%s'' @ [CHR 0x27, NL])
               [Str (Some (map (char_of \<circ> unat) (arg_text m arg)))] con;
             Some (0, m, con)
           }
       }
   }"

text \<open>The loop of \<open>monitor\<close>, called without a trap frame to print, on the lines that \<open>readline\<close> returns, each in its buffer (\<open>None\<close> after a read error):
  whether the monitor was left, and the console.\<close>

fun monitor_loop :: "ksyms \<Rightarrow> bytes option list \<Rightarrow> console \<Rightarrow> (bool \<times> console) option" where
  "monitor_loop syms [] con = Some (False, con)"
| "monitor_loop syms (None # bufs) con = monitor_loop syms bufs con"
| "monitor_loop syms (Some buf # bufs) con = do {
     (r, _, con) \<leftarrow> runcmd syms 0 buf con;
     if r < 0 then Some (True, con) else monitor_loop syms bufs con
   }"

definition monitor :: "ksyms \<Rightarrow> bytes option list \<Rightarrow> console \<Rightarrow> (bool \<times> console) option" where
  "monitor syms bufs con = do {
     con \<leftarrow> say (''Welcome to the JOS kernel monitor!'' @ [NL]) [] con;
     con \<leftarrow> say (''Type '' @ [CHR 0x27] @ ''help'' @ [CHR 0x27] @ '' for a list of commands.'' @ [NL]) [] con;
     monitor_loop syms bufs con
   }"

section \<open>The words of a line\<close>

function words_of :: "bytes \<Rightarrow> bytes list" where
  "words_of s = (case dropWhile is_ws s of
     [] \<Rightarrow> []
   | c # cs \<Rightarrow> (c # takeWhile (\<lambda>c. \<not> is_ws c) cs) # words_of (dropWhile (\<lambda>c. \<not> is_ws c) cs))"
  by pat_completeness auto
termination
proof (relation "measure length", simp)
  fix s c cs assume "dropWhile is_ws s = c # cs"
  then have "length cs < length s" using length_dropWhile_le [of is_ws s] by simp
  then show "(dropWhile (\<lambda>c. \<not> is_ws c) cs, s) \<in> measure length"
    using length_dropWhile_le [of "\<lambda>c. \<not> is_ws c" cs] by simp
qed

declare words_of.simps [simp del]

lemma peek_append: "peek (pre @ x # post) (length pre) = Some x"
  by (simp add: peek_def)

lemma gobble_spaces:
  "0 \<notin> set s \<Longrightarrow> gobble (pre @ s @ 0 # post) (length pre)
    = Some (pre @ replicate (length (takeWhile is_ws s)) 0 @ dropWhile is_ws s @ 0 # post, length pre + length (takeWhile is_ws s))"
proof (induction s arbitrary: pre)
  case Nil
  then show ?case by (subst gobble.simps) (simp add: peek_append)
next
  case (Cons c s)
  have "gobble (pre @ (c # s) @ 0 # post) (length pre) = (if is_ws c then gobble ((pre @ [0]) @ s @ 0 # post) (length (pre @ [0]))
      else Some (pre @ (c # s) @ 0 # post, length pre))"
    using Cons.prems by (subst gobble.simps) (simp add: peek_append)
  then show ?case using Cons.IH [of "pre @ [0]"] Cons.prems by simp
qed

lemma skip_word_spaces:
  "0 \<notin> set s \<Longrightarrow> skip_word (pre @ s @ 0 # post) (length pre) = Some (length pre + length (takeWhile (\<lambda>c. \<not> is_ws c) s))"
proof (induction s arbitrary: pre)
  case Nil
  then show ?case by (subst skip_word.simps) (simp add: peek_append)
next
  case (Cons c s)
  have "skip_word (pre @ (c # s) @ 0 # post) (length pre) = (if is_ws c then Some (length pre) else skip_word ((pre @ [c]) @ s @ 0 # post) (length (pre @ [c])))"
    using Cons.prems by (subst skip_word.simps) (simp add: peek_append)
  then show ?case using Cons.IH [of "pre @ [c]"] Cons.prems by simp
qed

text \<open>A pointer in the cut line is to a word, and the cut did not touch what is before the line.\<close>

lemma words_of_step:
  "dropWhile is_ws s = c # cs \<Longrightarrow> words_of s = takeWhile (\<lambda>c. \<not> is_ws c) (c # cs) # words_of (dropWhile (\<lambda>c. \<not> is_ws c) (c # cs))"
proof -
  assume d: "dropWhile is_ws s = c # cs"
  then have "\<not> is_ws c" using hd_dropWhile [of is_ws s] by simp
  then show ?thesis using d by (subst words_of.simps) simp
qed

lemma words_of_Nil: "dropWhile is_ws s = [] \<Longrightarrow> words_of s = []"
  by (subst words_of.simps) (simp only: list.case)

lemma parse_args_words:
  assumes "0 \<notin> set s" and "length argv + length (words_of s) < MON_MAXARGS"
  shows "\<exists>ptrs m'. parse_args (pre @ s @ 0 # post) (length pre) argv = Some (Some (argv @ ptrs), m')
    \<and> map (arg_text m') ptrs = words_of s \<and> take (length pre) m' = pre \<and> length m' = length (pre @ s @ 0 # post)
    \<and> (s = [] \<or> is_ws (hd s) \<longrightarrow> m' ! length pre = 0)"
  using assms
proof (induction s arbitrary: pre argv rule: words_of.induct)
  case (1 s)
  let ?n = "length (takeWhile is_ws s)"
  let ?z = "replicate ?n (0 :: u8w)"
  note g = gobble_spaces [OF 1(2), of pre post]
  show ?case
  proof (cases "dropWhile is_ws s")
    case Nil
    then have n: "?n = length s" by (simp add: dropWhile_eq_Nil_conv takeWhile_eq_all_conv [THEN iffD2])
    have "peek (pre @ ?z @ 0 # post) (length pre + ?n) = Some 0"
      using peek_append [of "pre @ ?z" 0 post] by simp
    then have "parse_args (pre @ s @ 0 # post) (length pre) argv = Some (Some (argv @ []), pre @ ?z @ 0 # post)"
      using g Nil by (subst parse_args.simps) simp
    moreover have "(pre @ ?z @ 0 # post) ! length pre = 0" by (cases ?n) (simp_all add: nth_append)
    ultimately show ?thesis using words_of_Nil [OF Nil] n by (intro exI [of _ "[]"] exI) auto
  next
    case (Cons c cs)
    let ?w = "takeWhile (\<lambda>c. \<not> is_ws c) (c # cs)" and ?r = "dropWhile (\<lambda>c. \<not> is_ws c) (c # cs)"
    let ?pre = "pre @ ?z @ ?w"
    have cw: "\<not> is_ws c" using hd_dropWhile [of is_ws s] Cons by simp
    have sub: "set (c # cs) \<subseteq> set s" using set_dropWhileD [of _ is_ws s] Cons by auto
    then have nz: "0 \<notin> set (c # cs)" "c \<noteq> 0" using 1(2) by auto
    have r0: "0 \<notin> set ?r" using nz(1) set_dropWhileD by metis
    have ws: "words_of s = ?w # words_of ?r" by (rule words_of_step [OF Cons])
    have split: "pre @ ?z @ (c # cs) @ 0 # post = ?pre @ ?r @ 0 # post"
      by (metis append.assoc takeWhile_dropWhile_id)
    have pk: "peek (pre @ ?z @ (c # cs) @ 0 # post) (length pre + ?n) = Some c"
      using peek_append [of "pre @ ?z" c "cs @ 0 # post"] by simp
    have sk: "skip_word (pre @ ?z @ (c # cs) @ 0 # post) (length pre + ?n) = Some (length ?pre)"
      using skip_word_spaces [OF nz(1), of "pre @ ?z" post] by (simp add: add.assoc)
    have la: "length argv \<noteq> MON_MAXARGS - 1" using 1(3) ws by simp
    have step: "parse_args (pre @ s @ 0 # post) (length pre) argv = parse_args (?pre @ ?r @ 0 # post) (length ?pre) (argv @ [length pre + ?n])"
      using g pk sk la nz(2) unfolding Cons split by (subst parse_args.simps) simp
    have dr: "dropWhile (\<lambda>c. \<not> is_ws c) cs = ?r" using cw by simp
    obtain ptrs m' where rec: "parse_args (?pre @ ?r @ 0 # post) (length ?pre) (argv @ [length pre + ?n]) = Some (Some ((argv @ [length pre + ?n]) @ ptrs), m')"
      "map (arg_text m') ptrs = words_of ?r" "take (length ?pre) m' = ?pre" "length m' = length (?pre @ ?r @ 0 # post)"
      "?r = [] \<or> is_ws (hd ?r) \<longrightarrow> m' ! length ?pre = 0"
      using "1.IH" [OF Cons, unfolded dr, OF r0, of "argv @ [length pre + ?n]" ?pre] 1(3) ws by auto
    have "?r = [] \<or> is_ws (hd ?r)" using hd_dropWhile [of "\<lambda>c. \<not> is_ws c" "c # cs"] by blast
    then have z: "m' ! length ?pre = 0" using rec(5) by blast
    have m': "m' = ?pre @ 0 # drop (Suc (length ?pre)) m'"
      using rec(3,4) z id_take_nth_drop [of "length ?pre" m'] by simp
    have "arg_text m' (length pre + ?n) = ?w"
    proof -
      have "drop (length pre + ?n) m' = ?w @ 0 # drop (Suc (length ?pre)) m'"
        by (subst m') (simp add: add.commute)
      moreover have "\<forall>x\<in>set ?w. x \<noteq> 0" using nz(1) set_takeWhileD by metis
      ultimately show ?thesis by (simp add: arg_text_def takeWhile_append2 takeWhile.simps(2) [of _ 0] del: takeWhile.simps)
    qed
    moreover have "take (length pre) m' = pre" by (subst m') simp
    moreover have "m' ! length pre = 0" if "s = [] \<or> is_ws (hd s)"
    proof -
      have "0 < ?n" using that Cons by (cases s) auto
      then show ?thesis by (subst m') (simp add: nth_append)
    qed
    moreover have "length (pre @ s @ 0 # post) = length (?pre @ ?r @ 0 # post)"
    proof -
      have "length s = ?n + length (c # cs)" unfolding Cons [symmetric] length_append [symmetric] by simp
      moreover have "length (c # cs) = length ?w + length ?r" unfolding length_append [symmetric] by (simp only: takeWhile_dropWhile_id)
      ultimately show ?thesis by (simp only: length_append length_replicate)
    qed
    moreover have "parse_args (pre @ s @ 0 # post) (length pre) argv = Some (Some (argv @ (length pre + ?n) # ptrs), m')"
      using step rec(1) by (simp only: append.assoc append_Cons append_Nil)
    moreover have "map (arg_text m') ((length pre + ?n) # ptrs) = words_of s"
      using rec(2) calculation(1) by (simp only: list.map ws)
    moreover have "length m' = length (pre @ s @ 0 # post)" using rec(4) calculation(4) by (simp only:)
    ultimately show ?thesis by (intro exI conjI impI)
  qed
qed

lemma say_total: "vprintfmt fmt ap = Some out \<Longrightarrow> say fmt ap con = Some (fold (\<lambda>c. cputchar (word_of_int c)) out con)"
  by (simp add: say_def k_cprintf_def put_all_k_putch)

section \<open>Properties\<close>

text \<open>\<open>runcmd\<close> cuts a line of fewer than 16 words into its words: pointer \<open>i\<close> of \<open>argv\<close> points at word \<open>i\<close>, a
  C string, and what is before the line in memory is not touched.\<close>

theorem runcmd_arguments:
  assumes "0 \<notin> set s" and "length (words_of s) < MON_MAXARGS"
  shows "\<exists>argv m'. parse_args (pre @ s @ 0 # post) (length pre) [] = Some (Some argv, m')
    \<and> map (arg_text m') argv = words_of s \<and> take (length pre) m' = pre \<and> length m' = length (pre @ s @ 0 # post)"
  using parse_args_words [of s "[]" pre post] assms by auto

theorem runcmd_arguments_witness:
  "\<exists>argv m'. parse_args [104, 32, 9, 105, 106, 10, 0] 0 [] = Some (Some argv, m') \<and> map (arg_text m') argv = [[104], [105, 106]]"
proof -
  let ?s = "[104, 32, 9, 105, 106, 10 :: u8w]"
  have w: "words_of ?s = [[104], [105, 106]]" by (simp add: words_of.simps is_ws_iff)
  have "0 \<notin> set ?s" "length (words_of ?s) < MON_MAXARGS" by (simp_all add: w MON_MAXARGS_def)
  from runcmd_arguments [OF this, of "[]" "[]"] show ?thesis unfolding w by auto
qed

lemma run_func_zero: "run_func syms f con = Some (r, con') \<Longrightarrow> r = 0"
  by (cases f) (auto simp: mon_help_def mon_kerninfo_def split: bind_splits)

lemma runcmd_zero: "runcmd syms buf m con = Some (r, m', con') \<Longrightarrow> r = 0"
  by (auto simp: runcmd_def dest: run_func_zero split: bind_splits option.splits list.splits)

lemma monitor_loop_stays: "monitor_loop syms bufs con = Some (b, con') \<Longrightarrow> \<not> b"
proof (induction bufs arbitrary: con)
  case (Cons line bufs)
  show ?case
  proof (cases line)
    case None
    then show ?thesis using Cons by simp
  next
    case (Some buf)
    then obtain r m con1 where r: "runcmd syms 0 buf con = Some (r, m, con1)" using Cons.prems by (auto split: bind_splits)
    then have "r = 0" by (rule runcmd_zero)
    then show ?thesis using Cons.IH [of con1] Cons.prems Some r by simp
  qed
qed simp

text \<open>No command makes the monitor end: whatever lines it reads, if it returns from them it waits for the next one.\<close>

theorem monitor_never_ends: "monitor syms bufs con \<noteq> Some (True, con')"
  by (auto simp: monitor_def dest: monitor_loop_stays split: bind_splits)

end
