(* ===== verification/Mp_Config.thy ===== *)
theory Mp_Config
  imports Trap
begin

text \<open>
  Finding the processors, \<open>scheduler/kern/mpconfig.c\<close>: the search of the firmware's memory for the MP floating
  pointer, the checks of the configuration table it points to, and the table of CPUs that
  \<open>mp_init\<close> fills from it. A pointer into low memory is its physical address; \<open>None\<close> is a panic of \<open>KADDR\<close>
  or an access outside the table of CPUs.
\<close>

section \<open>The firmware's tables\<close>

definition phys_byte :: "'a mem_scheme \<Rightarrow> u32w \<Rightarrow> u8w" where
  "phys_byte m pa = byte_of (frames m (PGNUM pa) (unat (PGOFF pa) div 4)) (unat (PGOFF pa) mod 4)"

definition phys_u16 :: "'a mem_scheme \<Rightarrow> u32w \<Rightarrow> u16w" where
  "phys_u16 m pa = ucast (phys_byte m pa) OR push_bit 8 (ucast (phys_byte m (pa + 1)))"

definition phys_u32 :: "'a mem_scheme \<Rightarrow> u32w \<Rightarrow> u32w" where
  "phys_u32 m pa = ucast (phys_u16 m pa) OR push_bit 16 (ucast (phys_u16 m (pa + 2)))"

definition phys_bytes :: "'a mem_scheme \<Rightarrow> u32w \<Rightarrow> nat \<Rightarrow> u8w list" where
  "phys_bytes m pa n = map (\<lambda>i. phys_byte m (pa + word_of_nat i)) [0..<n]"

text \<open>The fields of \<open>struct mp\<close>, \<open>struct mpconf\<close> and \<open>struct mpproc\<close> at their offsets.\<close>

definition SIZEOF_MP :: nat where "SIZEOF_MP = 16"
definition SIZEOF_MPPROC :: u32w where "SIZEOF_MPPROC = 20"

definition mp_physaddr :: "'a mem_scheme \<Rightarrow> u32w \<Rightarrow> u32w" where "mp_physaddr m mp = phys_u32 m (mp + 4)"
definition mp_type :: "'a mem_scheme \<Rightarrow> u32w \<Rightarrow> u8w" where "mp_type m mp = phys_byte m (mp + 11)"
definition mp_imcrp :: "'a mem_scheme \<Rightarrow> u32w \<Rightarrow> u8w" where "mp_imcrp m mp = phys_byte m (mp + 12)"

definition conf_length :: "'a mem_scheme \<Rightarrow> u32w \<Rightarrow> u16w" where "conf_length m c = phys_u16 m (c + 4)"
definition conf_version :: "'a mem_scheme \<Rightarrow> u32w \<Rightarrow> u8w" where "conf_version m c = phys_byte m (c + 6)"
definition conf_entry :: "'a mem_scheme \<Rightarrow> u32w \<Rightarrow> u16w" where "conf_entry m c = phys_u16 m (c + 34)"
definition conf_lapicaddr :: "'a mem_scheme \<Rightarrow> u32w \<Rightarrow> u32w" where "conf_lapicaddr m c = phys_u32 m (c + 36)"
definition conf_xlength :: "'a mem_scheme \<Rightarrow> u32w \<Rightarrow> u16w" where "conf_xlength m c = phys_u16 m (c + 40)"
definition conf_xchecksum :: "'a mem_scheme \<Rightarrow> u32w \<Rightarrow> u8w" where "conf_xchecksum m c = phys_byte m (c + 42)"
definition conf_entries :: "u32w \<Rightarrow> u32w" where "conf_entries c = c + 44"

definition MPPROC_BOOT :: u8w where "MPPROC_BOOT = 0x02"
definition MPPROC :: u8w where "MPPROC = 0"
definition MPBUS :: u8w where "MPBUS = 1"
definition MPIOAPIC :: u8w where "MPIOAPIC = 2"
definition MPIOINTR :: u8w where "MPIOINTR = 3"
definition MPLINTR :: u8w where "MPLINTR = 4"

section \<open>Searching\<close>

definition sum_bytes :: "'a mem_scheme \<Rightarrow> u32w \<Rightarrow> nat \<Rightarrow> u8w" where
  "sum_bytes m a len = word_of_int (sum_list (map uint (phys_bytes m a len)))"

text \<open>The loop of \<open>mpsearch1\<close>, over the structures that start before the end.\<close>

fun mpsearch1_loop :: "'a mem_scheme \<Rightarrow> u32w \<Rightarrow> nat \<Rightarrow> u32w option" where
  "mpsearch1_loop m mp 0 = None"
| "mpsearch1_loop m mp (Suc n) =
     (if phys_bytes m mp 4 = [0x5F, 0x4D, 0x50, 0x5F] \<and> sum_bytes m mp SIZEOF_MP = 0 then Some mp
      else mpsearch1_loop m (mp + word_of_nat SIZEOF_MP) n)"

definition mpsearch1 :: "'a mem_scheme \<Rightarrow> u32w \<Rightarrow> u32w \<Rightarrow> u32w option option" where
  "mpsearch1 m a len = do {
     mp \<leftarrow> KADDR m a;
     mp_end \<leftarrow> KADDR m (a + len);
     Some (if mp < mp_end then mpsearch1_loop m a ((unat (mp_end - mp) + SIZEOF_MP - 1) div SIZEOF_MP) else None)
   }"

definition mpsearch :: "'a mem_scheme \<Rightarrow> u32w option option" where
  "mpsearch m = do {
     bda \<leftarrow> KADDR m (push_bit 4 0x40);
     pa \<leftarrow> PADDR bda;
     let p = (ucast (phys_u16 m (pa + 0x0E)) :: u32w);
     mp \<leftarrow> (if p \<noteq> 0 then mpsearch1 m (push_bit 4 p) 1024
            else mpsearch1 m (ucast (phys_u16 m (pa + 0x13)) * 1024 - 1024) 1024);
     if mp \<noteq> None then Some mp else mpsearch1 m 0xF0000 0x10000
   }"

text \<open>Why there is no configuration: the message \<open>mpconfig\<close> prints, or none.\<close>

datatype mp_error = No_mp | Default_config | Bad_signature | Bad_checksum | Bad_version u8w | Bad_xchecksum

definition mpconfig :: "'a mem_scheme \<Rightarrow> (mp_error + u32w \<times> u32w) option" where
  "mpconfig m = do {
     mp \<leftarrow> mpsearch m;
     case mp of None \<Rightarrow> Some (Inl No_mp)
     | Some mp \<Rightarrow>
         if mp_physaddr m mp = 0 \<or> mp_type m mp \<noteq> 0 then Some (Inl Default_config)
         else do {
           kva \<leftarrow> KADDR m (mp_physaddr m mp);
           conf \<leftarrow> PADDR kva;
           Some (if phys_bytes m conf 4 \<noteq> [0x50, 0x43, 0x4D, 0x50] then Inl Bad_signature
             else if sum_bytes m conf (unat (conf_length m conf)) \<noteq> 0 then Inl Bad_checksum
             else if conf_version m conf \<noteq> 1 \<and> conf_version m conf \<noteq> 4 then Inl (Bad_version (conf_version m conf))
             else if sum_bytes m (conf + ucast (conf_length m conf)) (unat (conf_xlength m conf)) + conf_xchecksum m conf \<noteq> 0
             then Inl Bad_xchecksum
             else Inr (mp, conf))
         }
   }"

section \<open>The table of CPUs\<close>

record smp =
  cpu_ids :: "nat \<Rightarrow> nat"
  cpu_statuses :: "nat \<Rightarrow> cpu_status"
  bootcpu :: nat
  ismp :: bool
  ncpu :: nat
  lapicaddr :: u32w
  imcr_selected :: bool

text \<open>The globals before \<open>mp_init\<close>.\<close>

definition smp_zero :: smp where
  "smp_zero = \<lparr>cpu_ids = (\<lambda>_. 0), cpu_statuses = (\<lambda>_. CPU_UNUSED), bootcpu = 0, ismp = False, ncpu = 0,
     lapicaddr = 0, imcr_selected = False\<rparr>"

text \<open>One entry of the table: the state and where the next one starts, or nothing after an unknown type.\<close>

definition mp_processor :: "u8w \<Rightarrow> smp \<Rightarrow> smp" where
  "mp_processor fl s =
     (let s = (if fl AND MPPROC_BOOT \<noteq> 0 then s\<lparr>bootcpu := ncpu s\<rparr> else s) in
      if ncpu s < NCPU then s\<lparr>cpu_ids := (cpu_ids s)(ncpu s := ncpu s), ncpu := ncpu s + 1\<rparr> else s)"

fun mp_entries :: "'a mem_scheme \<Rightarrow> u32w \<Rightarrow> nat \<Rightarrow> smp \<Rightarrow> smp" where
  "mp_entries m p 0 s = s"
| "mp_entries m p (Suc n) s =
     (let typ' = phys_byte m p in
      if typ' = MPPROC then mp_entries m (p + SIZEOF_MPPROC) n (mp_processor (phys_byte m (p + 3)) s)
      else if typ' \<in> {MPBUS, MPIOAPIC, MPIOINTR, MPLINTR} then mp_entries m (p + 8) n s
      else s\<lparr>ismp := False\<rparr>)"

definition mp_init :: "'a mem_scheme \<Rightarrow> smp \<Rightarrow> smp option" where
  "mp_init m s = do {
     let s = s\<lparr>bootcpu := 0\<rparr>;
     c \<leftarrow> mpconfig m;
     case c of
       Inl _ \<Rightarrow> Some s
     | Inr (mp, conf) \<Rightarrow> do {
         let s = s\<lparr>ismp := True, lapicaddr := conf_lapicaddr m conf\<rparr>;
         let s = mp_entries m (conf_entries conf) (unat (conf_entry m conf)) s;
         if bootcpu s \<ge> NCPU then None
         else do {
           let s = s\<lparr>cpu_statuses := (cpu_statuses s)(bootcpu s := CPU_STARTED)\<rparr>;
           Some (if \<not> ismp s then s\<lparr>ncpu := 1, lapicaddr := 0\<rparr>
                 else if mp_imcrp m mp \<noteq> 0 then s\<lparr>imcr_selected := True\<rparr> else s)
         }
       }
   }"

section \<open>What is found\<close>

lemma mpsearch1_loop_found:
  "mpsearch1_loop m mp n = Some q \<Longrightarrow> phys_bytes m q 4 = [0x5F, 0x4D, 0x50, 0x5F] \<and> sum_bytes m q SIZEOF_MP = 0"
  by (induction m mp n rule: mpsearch1_loop.induct) (auto split: if_splits)

lemma mpsearch1_found:
  "mpsearch1 m a len = Some (Some q) \<Longrightarrow> phys_bytes m q 4 = [0x5F, 0x4D, 0x50, 0x5F] \<and> sum_bytes m q SIZEOF_MP = 0"
  unfolding mpsearch1_def by (auto split: bind_splits if_splits dest: mpsearch1_loop_found)

lemma mpsearch_found:
  "mpsearch m = Some (Some q) \<Longrightarrow> phys_bytes m q 4 = [0x5F, 0x4D, 0x50, 0x5F] \<and> sum_bytes m q SIZEOF_MP = 0"
  unfolding mpsearch_def by (auto simp: Let_def split: bind_splits if_splits dest: mpsearch1_found)

text \<open>The table as the specification describes it: processors and 8-byte entries one after the other.\<close>

datatype mp_entry = Processor u8w | Other u8w

fun laid_out :: "'a mem_scheme \<Rightarrow> u32w \<Rightarrow> mp_entry list \<Rightarrow> bool" where
  "laid_out m p [] \<longleftrightarrow> True"
| "laid_out m p (Processor fl # es) \<longleftrightarrow>
     phys_byte m p = MPPROC \<and> phys_byte m (p + 3) = fl \<and> laid_out m (p + SIZEOF_MPPROC) es"
| "laid_out m p (Other t # es) \<longleftrightarrow>
     phys_byte m p = t \<and> t \<in> {MPBUS, MPIOAPIC, MPIOINTR, MPLINTR} \<and> laid_out m (p + 8) es"

fun processors :: "mp_entry list \<Rightarrow> u8w list" where
  "processors [] = []"
| "processors (Processor fl # es) = fl # processors es"
| "processors (Other t # es) = processors es"

lemma mp_entries_processors:
  "laid_out m p es \<Longrightarrow> mp_entries m p (length es) s = fold mp_processor (processors es) s"
  by (induction m p es arbitrary: s rule: laid_out.induct)
    (auto simp: Let_def MPPROC_def MPBUS_def MPIOAPIC_def MPIOINTR_def MPLINTR_def)

text \<open>The CPU that is taken as the boot CPU: the last one the table flags.\<close>

fun boot_index :: "nat \<Rightarrow> nat \<Rightarrow> u8w list \<Rightarrow> nat" where
  "boot_index b n [] = b"
| "boot_index b n (fl # fls) = boot_index (if fl AND MPPROC_BOOT \<noteq> 0 then n else b) (min NCPU (n + 1)) fls"

lemma fold_processors:
  "ncpu s \<le> NCPU \<Longrightarrow> \<forall>i<ncpu s. cpu_ids s i = i \<Longrightarrow>
     fold mp_processor fls s = s\<lparr>bootcpu := boot_index (bootcpu s) (ncpu s) fls, ncpu := min NCPU (ncpu s + length fls),
       cpu_ids := (\<lambda>i. if ncpu s \<le> i \<and> i < min NCPU (ncpu s + length fls) then i else cpu_ids s i)\<rparr>"
proof (induction fls arbitrary: s)
  case Nil
  then show ?case by (cases s) (auto simp: fun_eq_iff)
next
  case (Cons fl fls)
  let ?s = "mp_processor fl s"
  have n: "ncpu ?s = min NCPU (ncpu s + 1)" "bootcpu ?s = (if fl AND MPPROC_BOOT \<noteq> 0 then ncpu s else bootcpu s)"
    "cpu_ids ?s = (if ncpu s < NCPU then (cpu_ids s)(ncpu s := ncpu s) else cpu_ids s)"
    using Cons.prems(1) by (auto simp: mp_processor_def Let_def)
  have rest: "ismp ?s = ismp s" "cpu_statuses ?s = cpu_statuses s" "lapicaddr ?s = lapicaddr s" "imcr_selected ?s = imcr_selected s"
    by (auto simp: mp_processor_def Let_def)
  have "\<forall>i<ncpu ?s. cpu_ids ?s i = i" using Cons.prems by (auto simp: n)
  then have IH: "fold mp_processor fls ?s = ?s\<lparr>bootcpu := boot_index (bootcpu ?s) (ncpu ?s) fls, ncpu := min NCPU (ncpu ?s + length fls),
       cpu_ids := (\<lambda>i. if ncpu ?s \<le> i \<and> i < min NCPU (ncpu ?s + length fls) then i else cpu_ids ?s i)\<rparr>"
    by (intro Cons.IH) (simp_all add: n)
  show ?case unfolding fold.simps comp_apply IH using rest n
    by (cases s, cases "?s") (auto simp: fun_eq_iff)
qed

text \<open>Memories with an example configuration: the floating pointer at 0x500, the table at 0x600 with two processors and a bus.\<close>

definition mp_words :: "nat \<Rightarrow> u32w" where
  "mp_words = (\<lambda>_. 0)(259 := 0x00500000, 320 := 0x5F504D5F, 321 := 0x600, 322 := 0x009A0401,
     384 := 0x504D4350, 385 := 0x6104005C, 392 := 0x00030000, 393 := 0xFEE00000,
     395 := 0x03140000, 400 := 0x01140100, 405 := 1)"

definition mp_ok :: "'a mem_scheme \<Rightarrow> bool" where
  "mp_ok m \<longleftrightarrow> frames m 0 = mp_words \<and> 16 \<le> npages m"

lemma mp_byte: "mp_ok m \<Longrightarrow> unat pa < 4096 \<Longrightarrow> phys_byte m pa = byte_of (mp_words (unat pa div 4)) (unat pa mod 4)"
  by (simp add: phys_byte_def PGNUM_nat PGOFF_nat mp_ok_def)

lemma mp_bytes:
  assumes "mp_ok m" and "unat pa + n \<le> 4096"
  shows "phys_bytes m pa n = map (\<lambda>i. byte_of (mp_words (i div 4)) (i mod 4)) [unat pa..<unat pa + n]"
proof -
  have u: "unat (pa + word_of_nat i) = unat pa + i" if "i < n" for i
  proof -
    have "unat (word_of_nat i :: u32w) = i" using that assms(2) by (simp add: unsigned_of_nat take_bit_nat_eq_self)
    then show ?thesis using that assms(2) by (subst unat_add_lem [THEN iffD1]) simp_all
  qed
  show ?thesis
  proof (rule nth_equalityI)
    fix i assume "i < length (phys_bytes m pa n)"
    then have i: "i < n" by (simp add: phys_bytes_def)
    then show "phys_bytes m pa n ! i = map (\<lambda>i. byte_of (mp_words (i div 4)) (i mod 4)) [unat pa..<unat pa + n] ! i"
      using mp_byte [OF assms(1), of "pa + word_of_nat i"] u assms(2) by (simp add: phys_bytes_def)
  qed (simp add: phys_bytes_def)
qed

lemma mp_sums:
  assumes "mp_ok m"
  shows "sum_bytes m 0x500 16 = 0" "sum_bytes m 0x600 92 = 0"
  by (simp_all add: sum_bytes_def mp_bytes [OF assms] upt_rec_numeral mp_words_def byte_of_def)

lemma mp_fields:
  assumes "mp_ok m"
  shows "phys_u16 m 0x40E = 0x50" "mp_physaddr m 0x500 = 0x600" "mp_type m 0x500 = 0" "mp_imcrp m 0x500 = 0"
    "conf_length m 0x600 = 92" "conf_version m 0x600 = 4" "conf_entry m 0x600 = 3"
    "conf_lapicaddr m 0x600 = 0xFEE00000" "conf_xlength m 0x600 = 0" "conf_xchecksum m 0x600 = 0"
  by (simp_all add: phys_u16_def phys_u32_def mp_byte [OF assms] mp_words_def byte_of_def mp_physaddr_def mp_type_def mp_imcrp_def
    conf_length_def conf_version_def conf_entry_def conf_lapicaddr_def conf_xlength_def conf_xchecksum_def)

lemma mp_signatures:
  assumes "mp_ok m"
  shows "phys_bytes m 0x500 4 = [0x5F, 0x4D, 0x50, 0x5F]" "phys_bytes m 0x600 4 = [0x50, 0x43, 0x4D, 0x50]"
  by (simp_all add: mp_bytes [OF assms] upt_rec_numeral mp_words_def byte_of_def)

lemma mp_config:
  assumes "mp_ok m"
  shows "mpconfig m = Some (Inr (0x500, 0x600))"
proof -
  note f = mp_fields [OF assms] mp_sums [OF assms] mp_signatures [OF assms]
  have ka: "KADDR m pa = Some (pa + KERNBASE)" if "unat pa < 0x10000" for pa
  proof -
    have "unat pa div 4096 < 16" using that by (simp add: less_mult_imp_div_less)
    then show ?thesis using assms by (simp add: KADDR_def PGNUM_nat mp_ok_def)
  qed
  have pa: "PADDR 0xF0000400 = Some 0x400" "PADDR 0xF0000600 = Some 0x600" by (simp_all add: PADDR_def layout)
  have "mpsearch1_loop m 0x500 (Suc n) = Some 0x500" for n by (simp add: SIZEOF_MP_def f)
  from this [of 63] have "mpsearch1 m 0x500 1024 = Some (Some 0x500)"
    by (simp add: mpsearch1_def ka layout SIZEOF_MP_def)
  then have "mpsearch m = Some (Some 0x500)"
    by (simp add: mpsearch_def ka layout pa f Let_def)
  then show ?thesis
    by (simp add: mpconfig_def f ka layout pa) (simp add: sum_bytes_def phys_bytes_def)
qed

lemma mp_laid_out: "mp_ok m \<Longrightarrow> laid_out m (conf_entries 0x600) [Processor 3, Processor 1, Other MPBUS]"
  by (simp add: conf_entries_def mp_byte mp_words_def byte_of_def SIZEOF_MPPROC_def MPPROC_def MPBUS_def)

text \<open>The two processors that are found in them.\<close>

definition mp_found :: smp where
  "mp_found = \<lparr>cpu_ids = (\<lambda>_. 0)(1 := 1), cpu_statuses = (\<lambda>_. CPU_UNUSED)(0 := CPU_STARTED), bootcpu = 0, ismp = True, ncpu = 2,
     lapicaddr = 0xFEE00000, imcr_selected = False\<rparr>"

lemma mp_init_found:
  assumes "mp_ok m"
  shows "mp_init m smp_zero = Some mp_found"
proof -
  note f = mp_fields [OF assms]
  have e: "mp_entries m (conf_entries 0x600) (unat (conf_entry m 0x600)) s = mp_processor 1 (mp_processor 3 s)" for s
  proof -
    have u: "unat (conf_entry m 0x600) = length [Processor 3, Processor 1, Other MPBUS]" by (simp add: f)
    show ?thesis unfolding u mp_entries_processors [OF mp_laid_out [OF assms]] by simp
  qed
  have p: "mp_processor 1 (mp_processor 3 (smp_zero\<lparr>bootcpu := 0, ismp := True, lapicaddr := 0xFEE00000\<rparr>)) = mp_found\<lparr>cpu_statuses := (\<lambda>_. CPU_UNUSED)\<rparr>"
    by (simp add: mp_processor_def smp_zero_def mp_found_def MPPROC_BOOT_def NCPU_def Let_def fun_eq_iff)
  show ?thesis
    by (simp add: mp_init_def mp_config [OF assms] e f(4,8) p Let_def del: mp_entries.simps) (simp add: mp_found_def NCPU_def)
qed

definition mp_mem :: mem where
  "mp_mem = \<lparr>npages = 16, npages_basemem = 16, pp_ref = (\<lambda>_. 0), pp_link = (\<lambda>_. None),
     page_free_list = None, frames = (\<lambda>_ _. 0)(0 := mp_words), kern_pgdir = 1, curenv_pgdir = None, invalidated = [],
     user_mem_check_addr = 0, mmio_base = MMIOBASE, nextfree = 0\<rparr>"

lemma mp_mem_ok: "mp_ok mp_mem"
  by (simp add: mp_ok_def mp_mem_def)

section \<open>Properties\<close>

text \<open>A configuration is only accepted with everything the specification asks for: both signatures, a structure and a
  table whose bytes add up to zero, a table at a nonzero address and a supported version.\<close>

theorem mpconfig_checked:
  assumes "mpconfig m = Some (Inr (mp, conf))"
  shows "phys_bytes m mp 4 = [0x5F, 0x4D, 0x50, 0x5F] \<and> sum_bytes m mp SIZEOF_MP = 0 \<and> mp_physaddr m mp \<noteq> 0 \<and> mp_type m mp = 0
    \<and> phys_bytes m conf 4 = [0x50, 0x43, 0x4D, 0x50] \<and> sum_bytes m conf (unat (conf_length m conf)) = 0
    \<and> conf_version m conf \<in> {1, 4} \<and> conf = mp_physaddr m mp \<and> PGNUM conf < npages m"
proof -
  obtain q where q: "mpsearch m = Some (Some q)" using assms by (auto simp: mpconfig_def split: bind_splits option.splits)
  then have c: "q = mp" "mp_physaddr m q \<noteq> 0" "mp_type m q = 0" and
    rest: "phys_bytes m conf 4 = [0x50, 0x43, 0x4D, 0x50]" "sum_bytes m conf (unat (conf_length m conf)) = 0"
      "conf_version m conf \<in> {1, 4}" and kc: "\<exists>kva. KADDR m (mp_physaddr m q) = Some kva \<and> PADDR kva = Some conf"
    using assms by (auto simp: mpconfig_def split: bind_splits if_splits)
  from kc have "conf = mp_physaddr m q" "PGNUM conf < npages m"
    by (auto simp: KADDR_def PADDR_def split: if_splits)
  then show ?thesis using mpsearch_found [OF q] c rest by auto
qed

theorem mpconfig_checked_witness: "sum_bytes mp_mem 0x600 (unat (conf_length mp_mem 0x600)) = 0 \<and> PGNUM 0x600 < 16"
  using mpconfig_checked [OF mp_config [OF mp_mem_ok]] by (simp add: mp_mem_def)

text \<open>C36: From a table of processors and other known entries, \<open>mp_init\<close> enters the processors as the CPUs 0, 1, 2, ...
  in their order, at most eight, marks the one flagged as the boot processor, and only it, as started,
  and takes the address of the interrupt controllers.\<close>

theorem mp_init_processors:
  assumes "mpconfig m = Some (Inr (mp, conf))" and "laid_out m (conf_entries conf) es"
    and "length es = unat (conf_entry m conf)" and "boot_index 0 0 (processors es) < NCPU"
  shows "\<exists>s. mp_init m smp_zero = Some s \<and> ismp s \<and> ncpu s = min NCPU (length (processors es))
    \<and> (\<forall>i<ncpu s. cpu_ids s i = i) \<and> bootcpu s = boot_index 0 0 (processors es)
    \<and> cpu_statuses s = (\<lambda>_. CPU_UNUSED)(bootcpu s := CPU_STARTED) \<and> lapicaddr s = conf_lapicaddr m conf"
proof -
  let ?s = "smp_zero\<lparr>bootcpu := 0, ismp := True, lapicaddr := conf_lapicaddr m conf\<rparr>"
  have "ncpu ?s \<le> NCPU" "\<forall>i<ncpu ?s. cpu_ids ?s i = i" by (simp_all add: smp_zero_def)
  note f = fold_processors [OF this, of "processors es"]
  have e: "mp_entries m (conf_entries conf) (unat (conf_entry m conf)) ?s = fold mp_processor (processors es) ?s"
    using mp_entries_processors [OF assms(2)] assms(3) by simp
  show ?thesis using assms(1,4) by (simp add: mp_init_def e [simplified] f [simplified] Let_def) (simp add: smp_zero_def)
qed

text \<open>With a ninth processor flagged as the boot processor, \<open>mp_init\<close> marks a CPU past the end of the table as started.\<close>

theorem mp_init_overruns:
  assumes "mpconfig m = Some (Inr (mp, conf))" and "laid_out m (conf_entries conf) (map Processor (replicate 8 1 @ [3]))"
    and "unat (conf_entry m conf) = 9"
  shows "mp_init m smp_zero = None"
proof -
  let ?fls = "replicate 8 1 @ [3 :: u8w]"
  have pr: "processors (map Processor fls) = fls" for fls by (induction fls) auto
  let ?s = "smp_zero\<lparr>bootcpu := 0, ismp := True, lapicaddr := conf_lapicaddr m conf\<rparr>"
  have "ncpu ?s \<le> NCPU" "\<forall>i<ncpu ?s. cpu_ids ?s i = i" by (simp_all add: smp_zero_def)
  note f = fold_processors [OF this, of ?fls]
  have "mp_entries m (conf_entries conf) (unat (conf_entry m conf)) ?s = fold mp_processor ?fls ?s"
    using mp_entries_processors [OF assms(2)] assms(3) unfolding pr by simp
  moreover have "boot_index 0 0 ?fls = NCPU" by (simp add: numeral_eq_Suc MPPROC_BOOT_def NCPU_def)
  then have "bootcpu (fold mp_processor ?fls ?s) = NCPU" unfolding f by (simp add: smp_zero_def)
  ultimately show ?thesis using assms(1) by (simp add: mp_init_def Let_def)
qed

theorem mp_init_processors_witness:
  "\<exists>s. mp_init mp_mem smp_zero = Some s \<and> ncpu s = 2 \<and> bootcpu s = 0 \<and> lapicaddr s = 0xFEE00000"
proof -
  let ?es = "[Processor 3, Processor 1, Other MPBUS]"
  have "length ?es = unat (conf_entry mp_mem 0x600)" "boot_index 0 0 (processors ?es) = 0"
    by (simp_all add: mp_fields [OF mp_mem_ok] MPPROC_BOOT_def NCPU_def)
  with mp_init_processors [OF mp_config [OF mp_mem_ok] mp_laid_out [OF mp_mem_ok]] show ?thesis
    by (auto simp: mp_fields [OF mp_mem_ok] NCPU_def)
qed

end
