(* ===== verification/Devices.thy ===== *)
theory Devices
  imports Mp_Config
begin

text \<open>
  The interrupt controllers and the clock: \<open>scheduler/kern/picirq.c\<close>, \<open>kern/lapic.c\<close> and \<open>kern/kclock.c\<close>, and the
  size of memory that \<open>kern/pmap.c\<close> reads from the clock's memory. The devices are what their data sheets say
  of the registers the code touches: the two 8259A chips with their initialisation sequence and mask, the
  clock's memory behind an index port, and the registers of the local APIC of this CPU with the writes made
  to them. Port and register writes go through \<open>outb\<close>, \<open>inb\<close> and \<open>lapicw\<close>.
\<close>

section \<open>The devices\<close>

text \<open>An 8259A: the command word it expects next on its data port (0 when initialised), the words it got and its mask.\<close>

record i8259 =
  icw_next :: nat
  icw2 :: u8w
  icw3 :: u8w
  icw4 :: u8w
  imr :: u8w

record devices =
  pic1 :: i8259
  pic2 :: i8259
  cmos_index :: u8w
  cmos :: "u8w \<Rightarrow> u8w"
  irq_mask_8259A :: u16w
  didinit :: bool
  lapic :: "u32w option"
  lapic_regs :: "nat \<Rightarrow> u32w"
  lapic_writes :: "(nat \<times> u32w) list"

text \<open>A command byte with bit 4 starts the initialisation and clears the mask; others leave the mask alone.\<close>

definition pic_command :: "u8w \<Rightarrow> i8259 \<Rightarrow> i8259" where
  "pic_command b c = (if b AND 0x10 \<noteq> 0 then c\<lparr>icw_next := 2, imr := 0\<rparr> else c)"

definition pic_data :: "u8w \<Rightarrow> i8259 \<Rightarrow> i8259" where
  "pic_data b c =
     (if icw_next c = 2 then c\<lparr>icw2 := b, icw_next := 3\<rparr>
      else if icw_next c = 3 then c\<lparr>icw3 := b, icw_next := 4\<rparr>
      else if icw_next c = 4 then c\<lparr>icw4 := b, icw_next := 0\<rparr>
      else c\<lparr>imr := b\<rparr>)"

definition IO_PIC1 :: nat where "IO_PIC1 = 0x20"
definition IO_PIC2 :: nat where "IO_PIC2 = 0xA0"
definition IO_RTC :: nat where "IO_RTC = 0x70"
definition IRQ_SLAVE :: nat where "IRQ_SLAVE = 2"
definition IRQ_ERROR :: nat where "IRQ_ERROR = 19"

definition outb :: "nat \<Rightarrow> u8w \<Rightarrow> devices \<Rightarrow> devices" where
  "outb port b d =
     (if port = IO_PIC1 then d\<lparr>pic1 := pic_command b (pic1 d)\<rparr>
      else if port = IO_PIC1 + 1 then d\<lparr>pic1 := pic_data b (pic1 d)\<rparr>
      else if port = IO_PIC2 then d\<lparr>pic2 := pic_command b (pic2 d)\<rparr>
      else if port = IO_PIC2 + 1 then d\<lparr>pic2 := pic_data b (pic2 d)\<rparr>
      else if port = IO_RTC then d\<lparr>cmos_index := b\<rparr>
      else if port = IO_RTC + 1 then d\<lparr>cmos := (cmos d)(cmos_index d := b)\<rparr>
      else d)"

definition inb :: "nat \<Rightarrow> devices \<Rightarrow> u8w" where
  "inb port d = (if port = IO_RTC + 1 then cmos d (cmos_index d)
     else if port = IO_PIC1 + 1 then imr (pic1 d) else if port = IO_PIC2 + 1 then imr (pic2 d) else 0)"

section \<open>The 8259A controllers\<close>

text \<open>The mask is stored always, and sent to the chips once they are initialised.\<close>

definition irq_setmask_8259A :: "u16w \<Rightarrow> devices \<Rightarrow> devices" where
  "irq_setmask_8259A msk d =
     (let d = d\<lparr>irq_mask_8259A := msk\<rparr> in
      if \<not> didinit d then d
      else let d = outb (IO_PIC1 + 1) (ucast msk) d in
        outb (IO_PIC2 + 1) (ucast (drop_bit 8 msk)) d)"

text \<open>The interrupts that the code prints as enabled.\<close>

definition enabled_irqs :: "u16w \<Rightarrow> nat list" where
  "enabled_irqs msk = filter (\<lambda>i. NOT msk AND push_bit i 1 \<noteq> 0) [0..<16]"

definition pic_init :: "devices \<Rightarrow> devices" where
  "pic_init d =
     (let d = d\<lparr>didinit := True\<rparr>;
          d = outb (IO_PIC1 + 1) 0xFF d;
          d = outb (IO_PIC2 + 1) 0xFF d;
          d = outb IO_PIC1 0x11 d;
          d = outb (IO_PIC1 + 1) (word_of_nat IRQ_OFFSET) d;
          d = outb (IO_PIC1 + 1) (push_bit IRQ_SLAVE 1) d;
          d = outb (IO_PIC1 + 1) 0x3 d;
          d = outb IO_PIC2 0x11 d;
          d = outb (IO_PIC2 + 1) (word_of_nat (IRQ_OFFSET + 8)) d;
          d = outb (IO_PIC2 + 1) (word_of_nat IRQ_SLAVE) d;
          d = outb (IO_PIC2 + 1) 0x01 d;
          d = outb IO_PIC1 0x68 d;
          d = outb IO_PIC1 0x0a d;
          d = outb IO_PIC2 0x68 d;
          d = outb IO_PIC2 0x0a d in
      if irq_mask_8259A d \<noteq> 0xFFFF then irq_setmask_8259A (irq_mask_8259A d) d else d)"

section \<open>The clock's memory\<close>

definition mc146818_read :: "u32w \<Rightarrow> devices \<Rightarrow> u32w \<times> devices" where
  "mc146818_read reg d = (let d = outb IO_RTC (ucast reg) d in (ucast (inb (IO_RTC + 1) d), d))"

definition mc146818_write :: "u32w \<Rightarrow> u32w \<Rightarrow> devices \<Rightarrow> devices" where
  "mc146818_write reg datum d = (let d = outb IO_RTC (ucast reg) d in outb (IO_RTC + 1) (ucast datum) d)"

definition NVRAM_BASELO :: u32w where "NVRAM_BASELO = 0x15"
definition NVRAM_EXTLO :: u32w where "NVRAM_EXTLO = 0x17"
definition NVRAM_EXT16LO :: u32w where "NVRAM_EXT16LO = 0x34"

definition nvram_read :: "u32w \<Rightarrow> devices \<Rightarrow> u32w \<times> devices" where
  "nvram_read r d =
     (let (lo, d) = mc146818_read r d; (hi, d) = mc146818_read (r + 1) d in (lo OR push_bit 8 hi, d))"

text \<open>The sizes in kilobytes become numbers of pages.\<close>

definition i386_detect_memory :: "'a mem_scheme \<Rightarrow> devices \<Rightarrow> 'a mem_scheme \<times> devices" where
  "i386_detect_memory m d =
     (let (basemem, d) = nvram_read NVRAM_BASELO d;
          (extmem, d) = nvram_read NVRAM_EXTLO d;
          (ext16, d) = nvram_read NVRAM_EXT16LO d;
          ext16mem = ext16 * 64;
          totalmem = (if ext16mem \<noteq> 0 then 16 * 1024 + ext16mem else if extmem \<noteq> 0 then 1 * 1024 + extmem else basemem) in
      (m\<lparr>npages := unat (totalmem div (PGSIZE div 1024)), npages_basemem := unat (basemem div (PGSIZE div 1024))\<rparr>, d))"

section \<open>The local APIC\<close>

definition ID :: nat where "ID = 0x20 div 4"
definition VER :: nat where "VER = 0x30 div 4"
definition TPR :: nat where "TPR = 0x80 div 4"
definition EOI :: nat where "EOI = 0xB0 div 4"
definition SVR :: nat where "SVR = 0xF0 div 4"
definition ESR :: nat where "ESR = 0x280 div 4"
definition ICRLO :: nat where "ICRLO = 0x300 div 4"
definition ICRHI :: nat where "ICRHI = 0x310 div 4"
definition TIMER :: nat where "TIMER = 0x320 div 4"
definition PCINT :: nat where "PCINT = 0x340 div 4"
definition LINT0 :: nat where "LINT0 = 0x350 div 4"
definition LINT1 :: nat where "LINT1 = 0x360 div 4"
definition ERROR :: nat where "ERROR = 0x370 div 4"
definition TICR :: nat where "TICR = 0x380 div 4"
definition TDCR :: nat where "TDCR = 0x3E0 div 4"

definition ENABLE :: u32w where "ENABLE = 0x100"
definition INIT :: u32w where "INIT = 0x500"
definition STARTUP :: u32w where "STARTUP = 0x600"
definition DELIVS :: u32w where "DELIVS = 0x1000"
definition ASSERT :: u32w where "ASSERT = 0x4000"
definition LEVEL :: u32w where "LEVEL = 0x8000"
definition BCAST :: u32w where "BCAST = 0x80000"
definition OTHERS :: u32w where "OTHERS = 0xC0000"
definition FIXED :: u32w where "FIXED = 0"
definition X1 :: u32w where "X1 = 0xB"
definition PERIODIC :: u32w where "PERIODIC = 0x20000"
definition MASKED :: u32w where "MASKED = 0x10000"

named_theorems lapic_consts
lemmas [lapic_consts] = ID_def VER_def TPR_def EOI_def SVR_def ESR_def ICRLO_def ICRHI_def TIMER_def PCINT_def LINT0_def
  LINT1_def ERROR_def TICR_def TDCR_def ENABLE_def INIT_def STARTUP_def DELIVS_def ASSERT_def LEVEL_def BCAST_def
  OTHERS_def FIXED_def X1_def PERIODIC_def MASKED_def

definition lapicw :: "nat \<Rightarrow> u32w \<Rightarrow> devices \<Rightarrow> devices" where
  "lapicw i v d = d\<lparr>lapic_regs := (lapic_regs d)(i := v), lapic_writes := lapic_writes d @ [(i, v)]\<rparr>"

text \<open>\<open>while (lapic[ICRLO] & DELIVS);\<close> without a delivery the loop does not end.\<close>

definition wait_delivered :: "devices \<Rightarrow> devices option" where
  "wait_delivered d = (if lapic_regs d ICRLO AND DELIVS \<noteq> 0 then None else Some d)"

definition lapic_init :: "u32w \<Rightarrow> bool \<Rightarrow> 'a mem_scheme \<Rightarrow> devices \<Rightarrow> ('a mem_scheme \<times> devices) option" where
  "lapic_init addr on_bootcpu m d =
     (if addr = 0 then Some (m, d)
      else do {
        (base, m) \<leftarrow> mmio_map_region addr 4096 m;
        let d = d\<lparr>lapic := Some base\<rparr>;
        let d = lapicw SVR (ENABLE OR word_of_nat (IRQ_OFFSET + IRQ_SPURIOUS)) d;
        let d = lapicw TDCR X1 d;
        let d = lapicw TIMER (PERIODIC OR word_of_nat (IRQ_OFFSET + IRQ_TIMER)) d;
        let d = lapicw TICR 10000000 d;
        let d = (if \<not> on_bootcpu then lapicw LINT0 MASKED d else d);
        let d = lapicw LINT1 MASKED d;
        let d = (if drop_bit 16 (lapic_regs d VER) AND 0xFF \<ge> 4 then lapicw PCINT MASKED d else d);
        let d = lapicw ERROR (word_of_nat (IRQ_OFFSET + IRQ_ERROR)) d;
        let d = lapicw ESR 0 d;
        let d = lapicw ESR 0 d;
        let d = lapicw EOI 0 d;
        let d = lapicw ICRHI 0 d;
        let d = lapicw ICRLO (BCAST OR INIT OR LEVEL) d;
        d \<leftarrow> wait_delivered d;
        Some (m, lapicw TPR 0 d)
      })"

definition lapic_cpunum :: "devices \<Rightarrow> nat" where
  "lapic_cpunum d = (case lapic d of None \<Rightarrow> 0 | Some _ \<Rightarrow> unat (drop_bit 24 (lapic_regs d ID)))"

definition lapic_eoi :: "devices \<Rightarrow> devices" where
  "lapic_eoi d = (case lapic d of None \<Rightarrow> d | Some _ \<Rightarrow> lapicw EOI 0 d)"

text \<open>The warm reset vector is the half-words at \<open>40:67\<close>; the code's address for it is \<open>0x40 << 4 | 0x67\<close>.\<close>

definition put_phys :: "u32w \<Rightarrow> u8w \<Rightarrow> 'a mem_scheme \<Rightarrow> 'a mem_scheme" where
  "put_phys pa b m = (let f = PGNUM pa; i = unat (PGOFF pa) in set_word m f (i div 4) (with_byte (frames m f (i div 4)) (i mod 4) b))"

definition warm_reset :: "u32w \<Rightarrow> 'a mem_scheme \<Rightarrow> 'a mem_scheme option" where
  "warm_reset addr m = do {
     kva \<leftarrow> KADDR m (push_bit 4 0x40 OR 0x67);
     pa \<leftarrow> PADDR kva;
     let seg = (ucast (drop_bit 4 addr) :: u16w);
     Some (put_phys (pa + 3) (ucast (drop_bit 8 seg)) (put_phys (pa + 2) (ucast seg) (put_phys (pa + 1) 0 (put_phys pa 0 m))))
   }"

definition lapic_startap :: "u8w \<Rightarrow> u32w \<Rightarrow> 'a mem_scheme \<Rightarrow> devices \<Rightarrow> ('a mem_scheme \<times> devices) option" where
  "lapic_startap apicid addr m d = do {
     let d = outb IO_RTC 0xF d;
     let d = outb (IO_RTC + 1) 0x0A d;
     m \<leftarrow> warm_reset addr m;
     let d = lapicw ICRHI (push_bit 24 (ucast apicid)) d;
     let d = lapicw ICRLO (INIT OR LEVEL OR ASSERT) d;
     let d = lapicw ICRLO (INIT OR LEVEL) d;
     let d = lapicw ICRHI (push_bit 24 (ucast apicid)) d;
     let d = lapicw ICRLO (STARTUP OR drop_bit 12 addr) d;
     let d = lapicw ICRHI (push_bit 24 (ucast apicid)) d;
     let d = lapicw ICRLO (STARTUP OR drop_bit 12 addr) d;
     Some (m, d)
   }"

definition lapic_ipi :: "u32w \<Rightarrow> devices \<Rightarrow> devices option" where
  "lapic_ipi vector d = wait_delivered (lapicw ICRLO (OTHERS OR FIXED OR vector) d)"

section \<open>Starting the other processors\<close>

text \<open>
  \<open>boot_aps\<close> (\<open>kern/init.c\<close>): the entry code, bytes the linker gives, is copied to its page; each CPU but this one gets the top of its own stack and the start-up
  messages. The wait for it to report that it has started is where the other CPU runs.
\<close>

definition kstack_top :: "u32w \<Rightarrow> nat \<Rightarrow> u32w" where
  "kstack_top kstacks i = kstacks + word_of_nat i * KSTKSIZE + KSTKSIZE"

fun boot_loop :: "u32w \<Rightarrow> u32w \<Rightarrow> nat \<Rightarrow> smp \<Rightarrow> nat list \<Rightarrow> 'a mem_scheme \<Rightarrow> devices
    \<Rightarrow> ((nat \<times> u32w) list \<times> 'a mem_scheme \<times> devices) option" where
  "boot_loop code kstacks this s [] m d = Some ([], m, d)"
| "boot_loop code kstacks this s (c # cs) m d =
     (if c = this then boot_loop code kstacks this s cs m d
      else do {
        (m, d) \<leftarrow> lapic_startap (word_of_nat (cpu_ids s c)) code m d;
        (started, m, d) \<leftarrow> boot_loop code kstacks this s cs m d;
        Some ((c, kstack_top kstacks c) # started, m, d)
      })"

fun put_code :: "u32w \<Rightarrow> u8w list \<Rightarrow> 'a mem_scheme \<Rightarrow> 'a mem_scheme" where
  "put_code pa [] m = m"
| "put_code pa (b # bs) m = put_code (pa + 1) bs (put_phys pa b m)"

definition boot_aps :: "u8w list \<Rightarrow> u32w \<Rightarrow> smp \<Rightarrow> 'a mem_scheme \<Rightarrow> devices \<Rightarrow> ((nat \<times> u32w) list \<times> 'a mem_scheme \<times> devices) option" where
  "boot_aps mpentry kstacks s m d = do {
     code \<leftarrow> KADDR m MPENTRY_PADDR;
     pa \<leftarrow> PADDR code;
     boot_loop pa kstacks (lapic_cpunum d) s [0..<ncpu s] (put_code pa mpentry m) d
   }"

section \<open>Properties\<close>

text \<open>The masks in the chips are the two halves of the variable, once the chips are initialised.\<close>

definition pic_ok :: "devices \<Rightarrow> bool" where
  "pic_ok d \<longleftrightarrow> (didinit d \<longrightarrow> icw_next (pic1 d) = 0 \<and> icw_next (pic2 d) = 0
     \<and> imr (pic1 d) = ucast (irq_mask_8259A d) \<and> imr (pic2 d) = ucast (drop_bit 8 (irq_mask_8259A d)))"

lemma outb_ports:
  "outb 0x20 b d = d\<lparr>pic1 := pic_command b (pic1 d)\<rparr>" "outb 0x21 b d = d\<lparr>pic1 := pic_data b (pic1 d)\<rparr>"
  "outb 0xA0 b d = d\<lparr>pic2 := pic_command b (pic2 d)\<rparr>" "outb 0xA1 b d = d\<lparr>pic2 := pic_data b (pic2 d)\<rparr>"
  "outb 0x70 b d = d\<lparr>cmos_index := b\<rparr>" "outb 0x71 b d = d\<lparr>cmos := (cmos d)(cmos_index d := b)\<rparr>"
  by (simp_all add: outb_def IO_PIC1_def IO_PIC2_def IO_RTC_def)

lemma outb_keeps [simp]:
  "irq_mask_8259A (outb port b d) = irq_mask_8259A d" "didinit (outb port b d) = didinit d"
  by (simp_all add: outb_def)

text \<open>The four command words of each chip, and the two commands after them.\<close>

lemma pic_words:
  "outb 0x21 3 (outb 0x21 4 (outb 0x21 32 (outb 0x20 0x11 d)))
     = d\<lparr>pic1 := \<lparr>icw_next = 0, icw2 = 32, icw3 = 4, icw4 = 3, imr = 0\<rparr>\<rparr>"
  "outb 0xA1 1 (outb 0xA1 2 (outb 0xA1 40 (outb 0xA0 0x11 d)))
     = d\<lparr>pic2 := \<lparr>icw_next = 0, icw2 = 40, icw3 = 2, icw4 = 1, imr = 0\<rparr>\<rparr>"
  "outb 0x20 0xA (outb 0x20 0x68 d) = d" "outb 0xA0 0xA (outb 0xA0 0x68 d) = d"
  by (cases d; cases "pic1 d"; cases "pic2 d"; simp add: outb_ports pic_command_def pic_data_def)+

lemma pic_init_chips:
  "let d' = pic_init d in irq_mask_8259A d' = irq_mask_8259A d \<and> didinit d'
     \<and> pic1 d' = \<lparr>icw_next = 0, icw2 = 32, icw3 = 4, icw4 = 3,
         imr = (if irq_mask_8259A d = 0xFFFF then 0 else ucast (irq_mask_8259A d))\<rparr>
     \<and> pic2 d' = \<lparr>icw_next = 0, icw2 = 40, icw3 = 2, icw4 = 1,
         imr = (if irq_mask_8259A d = 0xFFFF then 0 else ucast (drop_bit 8 (irq_mask_8259A d)))\<rparr>"
proof -
  let ?d = "outb 0xA1 0xFF (outb 0x21 0xFF (d\<lparr>didinit := True\<rparr>))"
  let ?p1 = "\<lparr>icw_next = 0, icw2 = 32, icw3 = 4, icw4 = 3, imr = 0\<rparr>" and ?p2 = "\<lparr>icw_next = 0, icw2 = 40, icw3 = 2, icw4 = 1, imr = 0\<rparr>"
  let ?e = "?d\<lparr>pic1 := ?p1, pic2 := ?p2\<rparr>"
  have "pic_init d = (if irq_mask_8259A ?e \<noteq> 0xFFFF then irq_setmask_8259A (irq_mask_8259A ?e) ?e else ?e)"
    by (simp only: pic_init_def Let_def IO_PIC1_def IO_PIC2_def IRQ_SLAVE_def IRQ_OFFSET_def)
      (simp add: pic_words)
  moreover have "didinit ?e" "irq_mask_8259A ?e = irq_mask_8259A d" by simp_all
  ultimately show ?thesis
    by (simp add: irq_setmask_8259A_def outb_ports(2,4) pic_data_def IO_PIC1_def IO_PIC2_def Let_def)
qed

text \<open>\<open>pic_init\<close> programs both controllers from any state: interrupts 0 to 7 at the vectors from 32 and 8 to 15 from 40, the slave on
  line 2, and the masks the two halves of the stored mask.\<close>

theorem pic_init_programs:
  assumes "irq_mask_8259A d \<noteq> 0xFFFF"
  shows "pic1 (pic_init d) = \<lparr>icw_next = 0, icw2 = 32, icw3 = 4, icw4 = 3, imr = ucast (irq_mask_8259A d)\<rparr>
    \<and> pic2 (pic_init d) = \<lparr>icw_next = 0, icw2 = 40, icw3 = 2, icw4 = 1, imr = ucast (drop_bit 8 (irq_mask_8259A d))\<rparr>
    \<and> irq_mask_8259A (pic_init d) = irq_mask_8259A d"
  using pic_init_chips [of d] assms by (simp add: Let_def)

text \<open>With every interrupt masked in the variable, \<open>pic_init\<close> leaves every interrupt unmasked in the chips.\<close>

theorem pic_init_unmasks:
  assumes "irq_mask_8259A d = 0xFFFF"
  shows "imr (pic1 (pic_init d)) = 0 \<and> imr (pic2 (pic_init d)) = 0 \<and> \<not> pic_ok (pic_init d)"
  using pic_init_chips [of d] assms by (simp add: Let_def pic_ok_def)

text \<open>Setting the mask keeps the chips in step with the variable, before and after their initialisation.\<close>

theorem irq_setmask_in_step:
  assumes "pic_ok d"
  shows "pic_ok (irq_setmask_8259A msk d) \<and> irq_mask_8259A (irq_setmask_8259A msk d) = msk
    \<and> set (enabled_irqs msk) = {i. i < 16 \<and> \<not> bit msk i}"
proof -
  have "NOT msk AND push_bit i 1 \<noteq> 0 \<longleftrightarrow> \<not> bit msk i" if "i < 16" for i
  proof -
    have "NOT msk AND push_bit i 1 = (if bit (NOT msk) i then push_bit i 1 else 0)"
      by (rule bit_eqI) (auto simp: bit_simps)
    moreover have "bit (push_bit i (1 :: u16w)) i" using that by (simp add: bit_simps)
    then have "push_bit i (1 :: u16w) \<noteq> 0" by (metis bit_0_eq bot_apply bot_bool_def)
    ultimately show ?thesis using that by (simp add: bit_simps)
  qed
  then have "set (enabled_irqs msk) = {i. i < 16 \<and> \<not> bit msk i}" by (auto simp: enabled_irqs_def)
  then show ?thesis using assms
    by (auto simp: pic_ok_def irq_setmask_8259A_def outb_ports pic_data_def IO_PIC1_def IO_PIC2_def Let_def)
qed

text \<open>A byte written to the clock's memory is read back, and no other byte changes.\<close>

theorem mc146818_roundtrip:
  "fst (mc146818_read r (mc146818_write reg datum d)) =
     (if ucast r = (ucast reg :: u8w) then ucast (ucast datum :: u8w) else fst (mc146818_read r d))"
  by (simp add: mc146818_read_def mc146818_write_def outb_ports inb_def IO_RTC_def IO_PIC1_def IO_PIC2_def Let_def)

lemma boot_loop_starts:
  "boot_loop code kstacks this s cs m d = Some (started, m', d') \<Longrightarrow>
     started = map (\<lambda>c. (c, kstack_top kstacks c)) (filter (\<lambda>c. c \<noteq> this) cs)"
proof (induction cs arbitrary: m d started)
  case (Cons c cs)
  then show ?case by (cases "c = this") (auto split: bind_splits)
qed simp

text \<open>\<open>boot_aps\<close> starts every CPU but the one it runs on, once, in order, each with the top of its own stack.\<close>

theorem boot_aps_starts:
  assumes "boot_aps mpentry kstacks s m d = Some (started, m', d')"
  shows "started = map (\<lambda>c. (c, kstack_top kstacks c)) (filter (\<lambda>c. c \<noteq> lapic_cpunum d) [0..<ncpu s])"
  using assms by (auto simp: boot_aps_def dest: boot_loop_starts split: bind_splits)

end
