(* ===== verification/Kern_Boot.thy ===== *)
theory Kern_Boot
  imports Devices
begin

text \<open>
  Setting up the kernel's address space: \<open>mem_init\<close> and \<open>mem_init_mp\<close> of \<open>scheduler/kern/pmap.c\<close>, with the checks
  it runs on the way. A check returns the memory it leaves, or \<open>None\<close> where one of its assertions fails. The
  arrays \<open>pages\<close> and \<open>envs\<close> have an address, which is what is mapped; their contents are the maps of the state.
  The end of the kernel's image and the addresses of its stacks come from the linker.
\<close>

section \<open>Mapping\<close>

definition SIZEOF_PageInfo :: u32w where "SIZEOF_PageInfo = 8"
definition SIZEOF_Env :: u32w where "SIZEOF_Env = 132"

definition stack_start :: "nat \<Rightarrow> u32w" where
  "stack_start i = KSTACKTOP - word_of_nat i * (KSTKSIZE + KSTKGAP) - KSTKSIZE"

fun stacks_loop :: "u32w \<Rightarrow> nat list \<Rightarrow> 'a mem_scheme \<Rightarrow> 'a mem_scheme option" where
  "stacks_loop kstacks [] m = Some m"
| "stacks_loop kstacks (i # is) m = do {
     pa \<leftarrow> PADDR (kstacks + word_of_nat i * KSTKSIZE);
     m \<leftarrow> boot_map_region (kern_pgdir m) (stack_start i) KSTKSIZE pa (PTE_W OR PTE_P) m;
     stacks_loop kstacks is m
   }"

definition mem_init_mp :: "u32w \<Rightarrow> 'a mem_scheme \<Rightarrow> 'a mem_scheme option" where
  "mem_init_mp kstacks m = stacks_loop kstacks [0..<NCPU] m"

text \<open>The four mappings of \<open>mem_init\<close>: the arrays for the user to read, all of physical memory, and the stacks.\<close>

definition map_kernel :: "u32w \<Rightarrow> u32w \<Rightarrow> u32w \<Rightarrow> 'a mem_scheme \<Rightarrow> 'a mem_scheme option" where
  "map_kernel pages_kva envs_kva kstacks m = do {
     pa \<leftarrow> PADDR pages_kva;
     m \<leftarrow> boot_map_region (kern_pgdir m) UPAGES (ROUNDUP (word_of_nat (npages m) * SIZEOF_PageInfo) PGSIZE) pa (PTE_U OR PTE_P) m;
     pa \<leftarrow> PADDR envs_kva;
     m \<leftarrow> boot_map_region (kern_pgdir m) UENVS (ROUNDUP (word_of_nat NENV * SIZEOF_Env) PGSIZE) pa (PTE_U OR PTE_P) m;
     m \<leftarrow> boot_map_region (kern_pgdir m) KERNBASE (push_bit 28 1) 0 (PTE_W OR PTE_P) m;
     mem_init_mp kstacks m
   }"

section \<open>Checks\<close>

definition assert :: "bool \<Rightarrow> unit option" where
  "assert b = (if b then Some () else None)"

text \<open>\<open>for (i = 0; i < n; i += PGSIZE) assert(check_va2pa(pgdir, va + i) == f i);\<close> over \<open>k\<close> pages.\<close>

fun check_range :: "nat \<Rightarrow> u32w \<Rightarrow> (u32w \<Rightarrow> u32w) \<Rightarrow> nat list \<Rightarrow> 'a mem_scheme \<Rightarrow> unit option" where
  "check_range pgdir va f [] m = Some ()"
| "check_range pgdir va f (j # js) m = do {
     let i = word_of_nat j * PGSIZE;
     pa \<leftarrow> check_va2pa pgdir (va + i) m;
     _ \<leftarrow> assert (pa = f i);
     check_range pgdir va f js m
   }"

fun check_stacks :: "u32w \<Rightarrow> nat list \<Rightarrow> 'a mem_scheme \<Rightarrow> unit option" where
  "check_stacks kstacks [] m = Some ()"
| "check_stacks kstacks (n # ns) m = do {
     let base = KSTACKTOP - (KSTKSIZE + KSTKGAP) * word_of_nat (n + 1);
     pa \<leftarrow> PADDR (kstacks + word_of_nat n * KSTKSIZE);
     _ \<leftarrow> check_range (kern_pgdir m) (base + KSTKGAP) (\<lambda>i. pa + i) [0..<unat (KSTKSIZE div PGSIZE)] m;
     _ \<leftarrow> check_range (kern_pgdir m) base (\<lambda>_. NOT 0) [0..<unat (KSTKGAP div PGSIZE)] m;
     check_stacks kstacks ns m
   }"

text \<open>What the switch over the directory asserts of entry \<open>i\<close>.\<close>

definition check_pde :: "nat \<Rightarrow> u32w \<Rightarrow> bool" where
  "check_pde i pde =
     (if i \<in> {PDX UVPT, PDX (KSTACKTOP - 1), PDX UPAGES, PDX UENVS, PDX MMIOBASE} then pde AND PTE_P \<noteq> 0
      else if i \<ge> PDX KERNBASE then pde AND PTE_P \<noteq> 0 \<and> pde AND PTE_W \<noteq> 0
      else pde = 0)"

definition check_kern_pgdir :: "u32w \<Rightarrow> u32w \<Rightarrow> u32w \<Rightarrow> 'a mem_scheme \<Rightarrow> unit option" where
  "check_kern_pgdir pages_kva envs_kva kstacks m = do {
     let pgdir = kern_pgdir m;
     pa \<leftarrow> PADDR pages_kva;
     _ \<leftarrow> check_range pgdir UPAGES (\<lambda>i. pa + i) [0..<unat (ROUNDUP (word_of_nat (npages m) * SIZEOF_PageInfo) PGSIZE div PGSIZE)] m;
     pa \<leftarrow> PADDR envs_kva;
     _ \<leftarrow> check_range pgdir UENVS (\<lambda>i. pa + i) [0..<unat (ROUNDUP (word_of_nat NENV * SIZEOF_Env) PGSIZE div PGSIZE)] m;
     _ \<leftarrow> check_range pgdir KERNBASE (\<lambda>i. i) [0..<npages m] m;
     _ \<leftarrow> check_stacks kstacks [0..<NCPU] m;
     assert (\<forall>i\<in>set [0..<NPDENTRIES]. check_pde i (frames m pgdir i))
   }"

end
