(* ===== verification/Kern_Checks.thy ===== *)
theory Kern_Checks
  imports Kern_Boot
begin

text \<open>
  The checks that \<open>mem_init\<close> runs on the page allocator and the page tables (\<open>check_page_free_list\<close>,
  \<open>check_page_alloc\<close>, \<open>check_page\<close> and \<open>check_page_installed_pgdir\<close> of \<open>scheduler/kern/pmap.c\<close>), and \<open>mem_init\<close>
  itself. As in \<open>Kern_Boot\<close>, a check returns the memory it leaves, or \<open>None\<close> where an assertion fails or the
  kernel panics.
\<close>

section \<open>The free list\<close>

text \<open>\<open>memset\<close> of the first \<open>n\<close> words of a page.\<close>

definition fill_words :: "nat \<Rightarrow> nat \<Rightarrow> u32w \<Rightarrow> 'a mem_scheme \<Rightarrow> 'a mem_scheme" where
  "fill_words pp n w m = m\<lparr>frames := (frames m)(pp := (\<lambda>i. if i < n then w else frames m pp i))\<rparr>"

text \<open>What \<open>tp[pagetype]\<close> points to: the variable \<open>pp1\<close> or \<open>pp2\<close>, or the link of a page.\<close>

datatype slot = Var bool | Link nat

fun put_slot :: "slot \<Rightarrow> nat option \<Rightarrow> (bool \<Rightarrow> nat option) \<Rightarrow> 'a mem_scheme \<Rightarrow> (bool \<Rightarrow> nat option) \<times> 'a mem_scheme" where
  "put_slot (Var t) v vars m = (vars(t := v), m)"
| "put_slot (Link q) v vars m = (vars, m\<lparr>pp_link := (pp_link m)(q := v)\<rparr>)"

partial_function (option) split_loop ::
  "nat \<Rightarrow> nat option \<Rightarrow> (bool \<Rightarrow> slot) \<Rightarrow> (bool \<Rightarrow> nat option) \<Rightarrow> 'a mem_scheme
    \<Rightarrow> ((bool \<Rightarrow> slot) \<times> (bool \<Rightarrow> nat option) \<times> 'a mem_scheme) option" where
  "split_loop pdx_limit pp tp vars m =
     (case pp of
        None \<Rightarrow> Some (tp, vars, m)
      | Some p \<Rightarrow>
          let pagetype = (PDX (page2pa p) \<ge> pdx_limit); (vars, m) = put_slot (tp pagetype) pp vars m in
          split_loop pdx_limit (pp_link m p) (tp(pagetype := Link p)) vars m)"

text \<open>The pages of the first directory entry come first; the variables are written before they are read.\<close>

definition split_free_list :: "nat \<Rightarrow> 'a mem_scheme \<Rightarrow> 'a mem_scheme option" where
  "split_free_list pdx_limit m = do {
     (tp, vars, m) \<leftarrow> split_loop pdx_limit (page_free_list m) Var (\<lambda>_. None) m;
     let (vars, m) = put_slot (tp True) None vars m;
     let (vars, m) = put_slot (tp False) (vars True) vars m;
     Some (m\<lparr>page_free_list := vars False\<rparr>)
   }"

partial_function (option) spoil_loop :: "nat \<Rightarrow> nat option \<Rightarrow> 'a mem_scheme \<Rightarrow> 'a mem_scheme option" where
  "spoil_loop pdx_limit pp m =
     (case pp of
        None \<Rightarrow> Some m
      | Some p \<Rightarrow>
          if PDX (page2pa p) < pdx_limit
          then Option.bind (page2kva m p) (\<lambda>_. spoil_loop pdx_limit (pp_link m p) (fill_words p 32 0x97979797 m))
          else spoil_loop pdx_limit (pp_link m p) m)"

text \<open>What is asserted of a free page. The array \<open>pages\<close> is a map from page numbers, so that a pointer into it is
  aligned and not before its start.\<close>

definition check_free_page :: "u32w \<Rightarrow> nat \<Rightarrow> 'a mem_scheme \<Rightarrow> unit option" where
  "check_free_page first_free_page p m = do {
     _ \<leftarrow> assert (p < npages m);
     _ \<leftarrow> assert (page2pa p \<noteq> 0);
     _ \<leftarrow> assert (page2pa p \<noteq> IOPHYSMEM);
     _ \<leftarrow> assert (page2pa p \<noteq> EXTPHYSMEM - PGSIZE);
     _ \<leftarrow> assert (page2pa p \<noteq> EXTPHYSMEM);
     _ \<leftarrow> (if page2pa p < EXTPHYSMEM then Some ()
          else do { kva \<leftarrow> page2kva m p; assert (kva \<ge> first_free_page) });
     assert (page2pa p \<noteq> MPENTRY_PADDR)
   }"

partial_function (option) count_free :: "u32w \<Rightarrow> nat option \<Rightarrow> nat \<Rightarrow> nat \<Rightarrow> 'a mem_scheme \<Rightarrow> (nat \<times> nat) option" where
  "count_free first_free_page pp nfree_basemem nfree_extmem m =
     (case pp of
        None \<Rightarrow> Some (nfree_basemem, nfree_extmem)
      | Some p \<Rightarrow>
          Option.bind (check_free_page first_free_page p m) (\<lambda>_.
          if page2pa p < EXTPHYSMEM
          then count_free first_free_page (pp_link m p) (nfree_basemem + 1) nfree_extmem m
          else count_free first_free_page (pp_link m p) nfree_basemem (nfree_extmem + 1) m))"

definition check_page_free_list :: "u32w \<Rightarrow> bool \<Rightarrow> 'a mem_scheme \<Rightarrow> 'a mem_scheme option" where
  "check_page_free_list end_sym only_low_memory m = do {
     let pdx_limit = (if only_low_memory then 1 else NPDENTRIES);
     _ \<leftarrow> assert (page_free_list m \<noteq> None);
     m \<leftarrow> (if only_low_memory then split_free_list pdx_limit m else Some m);
     m \<leftarrow> spoil_loop pdx_limit (page_free_list m) m;
     (first_free_page, m) \<leftarrow> boot_alloc end_sym 0 m;
     (nfree_basemem, nfree_extmem) \<leftarrow> count_free first_free_page (page_free_list m) 0 0 m;
     _ \<leftarrow> assert (nfree_basemem > 0);
     _ \<leftarrow> assert (nfree_extmem > 0);
     Some m
   }"

section \<open>The allocator\<close>

partial_function (option) count_pages :: "nat option \<Rightarrow> nat \<Rightarrow> 'a mem_scheme \<Rightarrow> nat option" where
  "count_pages pp nfree m = (case pp of None \<Rightarrow> Some nfree | Some p \<Rightarrow> count_pages (pp_link m p) (nfree + 1) m)"

text \<open>Three different pages; and \<open>assert(!page_alloc(0))\<close>.\<close>

definition alloc_three :: "'a mem_scheme \<Rightarrow> (nat \<times> nat \<times> nat \<times> 'a mem_scheme) option" where
  "alloc_three m = do {
     (page, m) \<leftarrow> page_alloc 0 m;
     pp0 \<leftarrow> page;
     (page, m) \<leftarrow> page_alloc 0 m;
     pp1 \<leftarrow> page;
     (page, m) \<leftarrow> page_alloc 0 m;
     pp2 \<leftarrow> page;
     _ \<leftarrow> assert (pp1 \<noteq> pp0);
     _ \<leftarrow> assert (pp2 \<noteq> pp1 \<and> pp2 \<noteq> pp0);
     Some (pp0, pp1, pp2, m)
   }"

definition alloc_none :: "'a mem_scheme \<Rightarrow> 'a mem_scheme option" where
  "alloc_none m = do {
     (page, m) \<leftarrow> page_alloc 0 m;
     _ \<leftarrow> assert (page = None);
     Some m
   }"

definition in_memory :: "'a mem_scheme \<Rightarrow> nat \<Rightarrow> bool" where
  "in_memory m pp \<longleftrightarrow> page2pa pp < word_of_nat (npages m) * PGSIZE"

definition check_page_alloc :: "'a mem_scheme \<Rightarrow> 'a mem_scheme option" where
  "check_page_alloc m = do {
     nfree \<leftarrow> count_pages (page_free_list m) 0 m;
     (pp0, pp1, pp2, m) \<leftarrow> alloc_three m;
     _ \<leftarrow> assert (in_memory m pp0 \<and> in_memory m pp1 \<and> in_memory m pp2);
     let fl = page_free_list m;
     let m = m\<lparr>page_free_list := None\<rparr>;
     m \<leftarrow> alloc_none m;
     m \<leftarrow> page_free pp0 m;
     m \<leftarrow> page_free pp1 m;
     m \<leftarrow> page_free pp2 m;
     (pp0, pp1, pp2, m) \<leftarrow> alloc_three m;
     m \<leftarrow> alloc_none m;
     _ \<leftarrow> page2kva m pp0;
     let m = fill_words pp0 1024 0x01010101 m;
     m \<leftarrow> page_free pp0 m;
     (page, m) \<leftarrow> page_alloc ALLOC_ZERO m;
     pp \<leftarrow> page;
     _ \<leftarrow> assert (pp0 = pp);
     _ \<leftarrow> page2kva m pp;
     _ \<leftarrow> assert (\<forall>i\<in>set [0..<1024]. frames m pp i = 0);
     let m = m\<lparr>page_free_list := fl\<rparr>;
     m \<leftarrow> page_free pp0 m;
     m \<leftarrow> page_free pp1 m;
     m \<leftarrow> page_free pp2 m;
     n \<leftarrow> count_pages (page_free_list m) 0 m;
     _ \<leftarrow> assert (nfree = n);
     Some m
   }"

section \<open>The page tables\<close>

definition insert_checked :: "nat \<Rightarrow> nat \<Rightarrow> u32w \<Rightarrow> u32w \<Rightarrow> (int \<Rightarrow> bool) \<Rightarrow> 'a mem_scheme \<Rightarrow> 'a mem_scheme option" where
  "insert_checked pgdir pp va perm expected m = do {
     (r, m) \<leftarrow> page_insert pgdir pp va perm m;
     _ \<leftarrow> assert (expected r);
     Some m
   }"

definition maps_to :: "nat \<Rightarrow> u32w \<Rightarrow> u32w \<Rightarrow> 'a mem_scheme \<Rightarrow> unit option" where
  "maps_to pgdir va pa m = do {
     a \<leftarrow> check_va2pa pgdir va m;
     assert (a = pa)
   }"

text \<open>\<open>*pgdir_walk(pgdir, va, 0)\<close>.\<close>

definition walked :: "nat \<Rightarrow> u32w \<Rightarrow> 'a mem_scheme \<Rightarrow> u32w option" where
  "walked pgdir va m = do {
     (pte, m) \<leftarrow> pgdir_walk pgdir va False m;
     p \<leftarrow> pte;
     Some (pte_at m p)
   }"

text \<open>Without a free page no table can be made; with \<open>pp0\<close> free, it becomes the table.\<close>

definition check_page_first :: "nat \<Rightarrow> nat \<Rightarrow> 'a mem_scheme \<Rightarrow> 'a mem_scheme option" where
  "check_page_first pp0 pp1 m = do {
     m \<leftarrow> alloc_none m;
     page \<leftarrow> page_lookup (kern_pgdir m) 0 m;
     _ \<leftarrow> assert (page = None);
     m \<leftarrow> insert_checked (kern_pgdir m) pp1 0 PTE_W (\<lambda>r. r < 0) m;
     m \<leftarrow> page_free pp0 m;
     m \<leftarrow> insert_checked (kern_pgdir m) pp1 0 PTE_W (\<lambda>r. r = 0) m;
     _ \<leftarrow> assert (PTE_ADDR (frames m (kern_pgdir m) 0) = page2pa pp0);
     _ \<leftarrow> maps_to (kern_pgdir m) 0 (page2pa pp1) m;
     _ \<leftarrow> assert (pp_ref m pp1 = 1);
     _ \<leftarrow> assert (pp_ref m pp0 = 1);
     Some m
   }"

text \<open>\<open>pp2\<close> at \<open>PGSIZE\<close>: mapped, mapped again, with more and with fewer permissions.\<close>

definition check_page_second :: "nat \<Rightarrow> 'a mem_scheme \<Rightarrow> 'a mem_scheme option" where
  "check_page_second pp2 m = do {
     m \<leftarrow> insert_checked (kern_pgdir m) pp2 PGSIZE PTE_W (\<lambda>r. r = 0) m;
     _ \<leftarrow> maps_to (kern_pgdir m) PGSIZE (page2pa pp2) m;
     _ \<leftarrow> assert (pp_ref m pp2 = 1);
     m \<leftarrow> alloc_none m;
     m \<leftarrow> insert_checked (kern_pgdir m) pp2 PGSIZE PTE_W (\<lambda>r. r = 0) m;
     _ \<leftarrow> maps_to (kern_pgdir m) PGSIZE (page2pa pp2) m;
     _ \<leftarrow> assert (pp_ref m pp2 = 1);
     m \<leftarrow> alloc_none m;
     ptep \<leftarrow> KADDR m (PTE_ADDR (frames m (kern_pgdir m) (PDX PGSIZE)));
     pa \<leftarrow> PADDR ptep;
     (pte, m) \<leftarrow> pgdir_walk (kern_pgdir m) PGSIZE False m;
     _ \<leftarrow> assert (pte = Some (PGNUM pa, PTX PGSIZE));
     m \<leftarrow> insert_checked (kern_pgdir m) pp2 PGSIZE (PTE_W OR PTE_U) (\<lambda>r. r = 0) m;
     _ \<leftarrow> maps_to (kern_pgdir m) PGSIZE (page2pa pp2) m;
     _ \<leftarrow> assert (pp_ref m pp2 = 1);
     pte \<leftarrow> walked (kern_pgdir m) PGSIZE m;
     _ \<leftarrow> assert (pte AND PTE_U \<noteq> 0);
     _ \<leftarrow> assert (frames m (kern_pgdir m) 0 AND PTE_U \<noteq> 0);
     m \<leftarrow> insert_checked (kern_pgdir m) pp2 PGSIZE PTE_W (\<lambda>r. r = 0) m;
     pte \<leftarrow> walked (kern_pgdir m) PGSIZE m;
     _ \<leftarrow> assert (pte AND PTE_W \<noteq> 0);
     pte \<leftarrow> walked (kern_pgdir m) PGSIZE m;
     _ \<leftarrow> assert (pte AND PTE_U = 0);
     Some m
   }"

text \<open>\<open>pp1\<close> replaces \<open>pp2\<close>, which is free then; unmapping \<open>pp1\<close> at both addresses frees it.\<close>

definition check_page_third :: "nat \<Rightarrow> nat \<Rightarrow> nat \<Rightarrow> 'a mem_scheme \<Rightarrow> 'a mem_scheme option" where
  "check_page_third pp0 pp1 pp2 m = do {
     m \<leftarrow> insert_checked (kern_pgdir m) pp0 PTSIZE PTE_W (\<lambda>r. r < 0) m;
     m \<leftarrow> insert_checked (kern_pgdir m) pp1 PGSIZE PTE_W (\<lambda>r. r = 0) m;
     pte \<leftarrow> walked (kern_pgdir m) PGSIZE m;
     _ \<leftarrow> assert (pte AND PTE_U = 0);
     _ \<leftarrow> maps_to (kern_pgdir m) 0 (page2pa pp1) m;
     _ \<leftarrow> maps_to (kern_pgdir m) PGSIZE (page2pa pp1) m;
     _ \<leftarrow> assert (pp_ref m pp1 = 2);
     _ \<leftarrow> assert (pp_ref m pp2 = 0);
     (page, m) \<leftarrow> page_alloc 0 m;
     _ \<leftarrow> assert (page = Some pp2);
     m \<leftarrow> page_remove (kern_pgdir m) 0 m;
     _ \<leftarrow> maps_to (kern_pgdir m) 0 (NOT 0) m;
     _ \<leftarrow> maps_to (kern_pgdir m) PGSIZE (page2pa pp1) m;
     _ \<leftarrow> assert (pp_ref m pp1 = 1);
     _ \<leftarrow> assert (pp_ref m pp2 = 0);
     m \<leftarrow> insert_checked (kern_pgdir m) pp1 PGSIZE 0 (\<lambda>r. r = 0) m;
     _ \<leftarrow> assert (pp_ref m pp1 \<noteq> 0);
     _ \<leftarrow> assert (pp_link m pp1 = None);
     m \<leftarrow> page_remove (kern_pgdir m) PGSIZE m;
     _ \<leftarrow> maps_to (kern_pgdir m) 0 (NOT 0) m;
     _ \<leftarrow> maps_to (kern_pgdir m) PGSIZE (NOT 0) m;
     _ \<leftarrow> assert (pp_ref m pp1 = 0);
     _ \<leftarrow> assert (pp_ref m pp2 = 0);
     (page, m) \<leftarrow> page_alloc 0 m;
     _ \<leftarrow> assert (page = Some pp1);
     alloc_none m
   }"

text \<open>\<open>pp0\<close> is taken back by force; as a table again, it is cleared.\<close>

definition drop_table :: "nat \<Rightarrow> nat \<Rightarrow> 'a mem_scheme \<Rightarrow> 'a mem_scheme" where
  "drop_table d pp0 m = (let m = set_word m (kern_pgdir m) d 0 in m\<lparr>pp_ref := (pp_ref m)(pp0 := 0)\<rparr>)"

definition check_page_tables :: "nat \<Rightarrow> 'a mem_scheme \<Rightarrow> 'a mem_scheme option" where
  "check_page_tables pp0 m = do {
     _ \<leftarrow> assert (PTE_ADDR (frames m (kern_pgdir m) 0) = page2pa pp0);
     _ \<leftarrow> assert (pp_ref m pp0 = 1);
     let m = drop_table 0 pp0 m;
     m \<leftarrow> page_free pp0 m;
     let va = PGSIZE * word_of_nat NPDENTRIES + PGSIZE;
     (pte, m) \<leftarrow> pgdir_walk (kern_pgdir m) va True m;
     ptep1 \<leftarrow> KADDR m (PTE_ADDR (frames m (kern_pgdir m) (PDX va)));
     pa \<leftarrow> PADDR ptep1;
     _ \<leftarrow> assert (pte = Some (PGNUM pa, PTX va));
     let m = drop_table (PDX va) pp0 m;
     _ \<leftarrow> page2kva m pp0;
     let m = fill_words pp0 1024 0xFFFFFFFF m;
     m \<leftarrow> page_free pp0 m;
     (_, m) \<leftarrow> pgdir_walk (kern_pgdir m) 0 True m;
     _ \<leftarrow> page2kva m pp0;
     _ \<leftarrow> assert (\<forall>i\<in>set [0..<NPTENTRIES]. frames m pp0 i AND PTE_P = 0);
     Some (drop_table 0 pp0 m)
   }"

definition clear_entry :: "u32w \<Rightarrow> 'a mem_scheme \<Rightarrow> 'a mem_scheme option" where
  "clear_entry va m = do {
     (pte, m) \<leftarrow> pgdir_walk (kern_pgdir m) va False m;
     p \<leftarrow> pte;
     Some (set_word m (fst p) (snd p) 0)
   }"

definition check_mmio :: "'a mem_scheme \<Rightarrow> 'a mem_scheme option" where
  "check_mmio m = do {
     (mm1, m) \<leftarrow> mmio_map_region 0 4097 m;
     (mm2, m) \<leftarrow> mmio_map_region 0 4096 m;
     _ \<leftarrow> assert (mm1 \<ge> MMIOBASE \<and> mm1 + 8096 < MMIOLIM);
     _ \<leftarrow> assert (mm2 \<ge> MMIOBASE \<and> mm2 + 8096 < MMIOLIM);
     _ \<leftarrow> assert (mm1 mod PGSIZE = 0 \<and> mm2 mod PGSIZE = 0);
     _ \<leftarrow> assert (mm1 + 8096 \<le> mm2);
     _ \<leftarrow> maps_to (kern_pgdir m) mm1 0 m;
     _ \<leftarrow> maps_to (kern_pgdir m) (mm1 + PGSIZE) PGSIZE m;
     _ \<leftarrow> maps_to (kern_pgdir m) mm2 0 m;
     _ \<leftarrow> maps_to (kern_pgdir m) (mm2 + PGSIZE) (NOT 0) m;
     pte \<leftarrow> walked (kern_pgdir m) mm1 m;
     _ \<leftarrow> assert (pte AND (PTE_W OR PTE_PWT OR PTE_PCD) \<noteq> 0);
     pte \<leftarrow> walked (kern_pgdir m) mm1 m;
     _ \<leftarrow> assert (pte AND PTE_U = 0);
     m \<leftarrow> clear_entry mm1 m;
     m \<leftarrow> clear_entry (mm1 + PGSIZE) m;
     clear_entry mm2 m
   }"

definition check_page :: "'a mem_scheme \<Rightarrow> 'a mem_scheme option" where
  "check_page m = do {
     (pp0, pp1, pp2, m) \<leftarrow> alloc_three m;
     let fl = page_free_list m;
     let m = m\<lparr>page_free_list := None\<rparr>;
     m \<leftarrow> check_page_first pp0 pp1 m;
     m \<leftarrow> check_page_second pp2 m;
     m \<leftarrow> check_page_third pp0 pp1 pp2 m;
     m \<leftarrow> check_page_tables pp0 m;
     let m = m\<lparr>page_free_list := fl\<rparr>;
     m \<leftarrow> page_free pp0 m;
     m \<leftarrow> page_free pp1 m;
     m \<leftarrow> page_free pp2 m;
     check_mmio m
   }"

text \<open>With the directory installed, memory is read and written through it. Addresses are those of whole words.\<close>

definition load_word :: "nat \<Rightarrow> u32w \<Rightarrow> 'a mem_scheme \<Rightarrow> u32w option" where
  "load_word pgdir va m = do {
     f \<leftarrow> hw_frame PTE_P pgdir va m;
     Some (frames m f (unat (PGOFF va) div 4))
   }"

definition store_word :: "nat \<Rightarrow> u32w \<Rightarrow> u32w \<Rightarrow> 'a mem_scheme \<Rightarrow> 'a mem_scheme option" where
  "store_word pgdir va w m = do {
     f \<leftarrow> hw_frame (PTE_P OR PTE_W) pgdir va m;
     Some (set_word m f (unat (PGOFF va) div 4) w)
   }"

definition check_page_installed_pgdir :: "'a mem_scheme \<Rightarrow> 'a mem_scheme option" where
  "check_page_installed_pgdir m = do {
     (page, m) \<leftarrow> page_alloc 0 m;
     pp0 \<leftarrow> page;
     (page, m) \<leftarrow> page_alloc 0 m;
     pp1 \<leftarrow> page;
     (page, m) \<leftarrow> page_alloc 0 m;
     pp2 \<leftarrow> page;
     m \<leftarrow> page_free pp0 m;
     _ \<leftarrow> page2kva m pp1;
     let m = fill_words pp1 1024 0x01010101 m;
     _ \<leftarrow> page2kva m pp2;
     let m = fill_words pp2 1024 0x02020202 m;
     (_, m) \<leftarrow> page_insert (kern_pgdir m) pp1 PGSIZE PTE_W m;
     _ \<leftarrow> assert (pp_ref m pp1 = 1);
     w \<leftarrow> load_word (kern_pgdir m) PGSIZE m;
     _ \<leftarrow> assert (w = 0x01010101);
     (_, m) \<leftarrow> page_insert (kern_pgdir m) pp2 PGSIZE PTE_W m;
     w \<leftarrow> load_word (kern_pgdir m) PGSIZE m;
     _ \<leftarrow> assert (w = 0x02020202);
     _ \<leftarrow> assert (pp_ref m pp2 = 1);
     _ \<leftarrow> assert (pp_ref m pp1 = 0);
     m \<leftarrow> store_word (kern_pgdir m) PGSIZE 0x03030303 m;
     _ \<leftarrow> page2kva m pp2;
     _ \<leftarrow> assert (frames m pp2 0 = 0x03030303);
     m \<leftarrow> page_remove (kern_pgdir m) PGSIZE m;
     _ \<leftarrow> assert (pp_ref m pp2 = 0);
     _ \<leftarrow> assert (PTE_ADDR (frames m (kern_pgdir m) 0) = page2pa pp0);
     _ \<leftarrow> assert (pp_ref m pp0 = 1);
     page_free pp0 (drop_table 0 pp0 m)
   }"

section \<open>Setting up memory\<close>

definition CR0_PE :: u32w where "CR0_PE = 0x00000001"
definition CR0_MP :: u32w where "CR0_MP = 0x00000002"
definition CR0_EM :: u32w where "CR0_EM = 0x00000004"
definition CR0_TS :: u32w where "CR0_TS = 0x00000008"
definition CR0_NE :: u32w where "CR0_NE = 0x00000020"
definition CR0_WP :: u32w where "CR0_WP = 0x00010000"
definition CR0_AM :: u32w where "CR0_AM = 0x00040000"
definition CR0_PG :: u32w where "CR0_PG = 0x80000000"

definition config_cr0 :: "u32w \<Rightarrow> u32w" where
  "config_cr0 cr0 =
     (let cr0 = cr0 OR (CR0_PE OR CR0_PG OR CR0_AM OR CR0_WP OR CR0_NE OR CR0_MP) in
      cr0 AND NOT (CR0_TS OR CR0_EM))"

text \<open>The first part of \<open>mem_init\<close>: the directory and the arrays, from \<open>boot_alloc\<close>. The entries of the arrays are
  cleared. What it returns are the arrays' addresses.\<close>

definition alloc_arrays :: "u32w \<Rightarrow> 'a kern_scheme \<Rightarrow> (u32w \<times> u32w \<times> 'a kern_scheme) option" where
  "alloc_arrays end_sym k = do {
     (kva, k) \<leftarrow> boot_alloc end_sym PGSIZE k;
     pa \<leftarrow> PADDR kva;
     let d = PGNUM pa;
     let k = k\<lparr>kern_pgdir := d, frames := (frames k)(d := (\<lambda>_. 0))\<rparr>;
     let k = set_word k d (PDX UVPT) (pa OR PTE_U OR PTE_P);
     (pages_kva, k) \<leftarrow> boot_alloc end_sym (word_of_nat (npages k) * SIZEOF_PageInfo) k;
     let k = k\<lparr>pp_ref := (\<lambda>_. 0), pp_link := (\<lambda>_. None)\<rparr>;
     (envs_kva, k) \<leftarrow> boot_alloc end_sym (word_of_nat NENV * SIZEOF_Env) k;
     Some (pages_kva, envs_kva, k\<lparr>envs := (\<lambda>_. zero_env)\<rparr>)
   }"

definition mem_init :: "u32w \<Rightarrow> u32w \<Rightarrow> u32w \<Rightarrow> 'a kern_scheme \<Rightarrow> devices \<Rightarrow> ('a kern_scheme \<times> devices \<times> u32w) option" where
  "mem_init end_sym kstacks cr0 k dev = do {
     let (k, dev) = i386_detect_memory k dev;
     (pages_kva, envs_kva, k) \<leftarrow> alloc_arrays end_sym k;
     k \<leftarrow> page_init end_sym k;
     k \<leftarrow> check_page_free_list end_sym True k;
     k \<leftarrow> check_page_alloc k;
     k \<leftarrow> check_page k;
     k \<leftarrow> map_kernel pages_kva envs_kva kstacks k;
     _ \<leftarrow> check_kern_pgdir pages_kva envs_kva kstacks k;
     let k = k\<lparr>cr3 := kern_pgdir k\<rparr>;
     k \<leftarrow> check_page_free_list end_sym False k;
     let cr0 = config_cr0 cr0;
     k \<leftarrow> check_page_installed_pgdir k;
     Some (k, dev, cr0)
   }"

end
