(* ===== verification/Kern_Boot_Vm.thy ===== *)
theory Kern_Boot_Vm
  imports Kern_Boot
begin

text \<open>
  The kernel's part of an address space while it is being set up: what one step of \<open>boot_map_region\<close> does to
  it, and a whole region. The directory entries above \<open>UTOP\<close> but for the one of the virtual page table are the
  kernel's.
\<close>

section \<open>The kernel's directory entries\<close>

definition kslot :: "nat \<Rightarrow> bool" where
  "kslot s \<longleftrightarrow> 955 \<le> s \<and> s < 1024 \<and> s \<noteq> 957"

lemma finite_kslots [simp]: "finite {s. kslot s \<and> P s}"
  by (rule finite_subset [of _ "{..<1024}"]) (auto simp: kslot_def)

text \<open>The tables of the kernel's entries are different pages in use, and there are pages for the missing ones.\<close>

definition kdir_ok :: "'a mem_scheme \<Rightarrow> nat \<Rightarrow> bool" where
  "kdir_ok m d \<longleftrightarrow> alloc_ok m \<and> d < npages m \<and> d \<notin> set (free_pages m)
     \<and> (\<forall>s t. kslot s \<and> table m d s = Some t \<longrightarrow> t < npages m \<and> t \<noteq> d \<and> t \<notin> set (free_pages m)
          \<and> frames m d s = page2pa t OR PTE_P OR PTE_W OR PTE_U)
     \<and> (\<forall>s s' t. kslot s \<and> kslot s' \<and> table m d s = Some t \<and> table m d s' = Some t \<longrightarrow> s = s')
     \<and> card {s. kslot s \<and> table m d s = None} \<le> length (free_pages m)"

lemma kdir_okD:
  assumes "kdir_ok m d"
  shows "alloc_ok m" "npages m \<le> 0x10000" "d < npages m" "d \<notin> set (free_pages m)"
    "\<And>s t. kslot s \<Longrightarrow> table m d s = Some t \<Longrightarrow> t < npages m \<and> t \<noteq> d \<and> t \<notin> set (free_pages m)
       \<and> frames m d s = page2pa t OR PTE_P OR PTE_W OR PTE_U"
    "\<And>s s' t. kslot s \<Longrightarrow> kslot s' \<Longrightarrow> table m d s = Some t \<Longrightarrow> table m d s' = Some t \<Longrightarrow> s = s'"
    "card {s. kslot s \<and> table m d s = None} \<le> length (free_pages m)"
  using assms unfolding kdir_ok_def alloc_ok_def by blast+

lemma walk_at:
  assumes "npages m \<le> 0x10000" and "table m d (PDX va) = Some t" and "t < npages m"
  shows "pgdir_walk d va create m = Some (Some (t, PTX va), m)"
proof -
  have nz: "frames m d (PDX va) \<noteq> 0" "t = PGNUM (frames m d (PDX va))"
    using assms(2) by (auto simp: table_def split: if_splits)
  then have "Option.bind (KADDR m (PTE_ADDR (frames m d (PDX va)))) PADDR = Some (PTE_ADDR (frames m d (PDX va)))"
    using kaddr_frame [of m "frames m d (PDX va)"] assms by simp
  then show ?thesis using nz by (auto simp: pgdir_walk_def bind_eq_Some_conv)
qed

text \<open>Nothing is removed where nothing is mapped.\<close>

lemma remove_nothing:
  assumes "npages m \<le> 0x10000" and "table m d (PDX va) = Some t" and "t < npages m" and "entry m d (PGNUM va) = 0"
  shows "page_remove d va m = Some m"
  using walk_at [OF assms(1-3), of False] assms(2,4)
  by (simp add: page_remove_def page_lookup_def entry_pte)

text \<open>What a step leaves alone: the rest of the directory, and everything but the tables, each of which is a page
  taken off the free list.\<close>

definition missing :: "'a mem_scheme \<Rightarrow> nat \<Rightarrow> nat set" where
  "missing m d = {s. kslot s \<and> table m d s = None}"

definition kframes :: "'a mem_scheme \<Rightarrow> nat \<Rightarrow> nat set" where
  "kframes m d = insert d {t. \<exists>s. kslot s \<and> table m d s = Some t}"

definition boot_same :: "nat \<Rightarrow> 'a mem_scheme \<Rightarrow> 'a mem_scheme \<Rightarrow> bool" where
  "boot_same d m m' \<longleftrightarrow> npages m' = npages m \<and> kern_pgdir m' = kern_pgdir m \<and> mmio_base m' = mmio_base m
     \<and> nextfree m' = nextfree m \<and> curenv_pgdir m' = curenv_pgdir m \<and> mem.more m' = mem.more m
     \<and> set (free_pages m') \<subseteq> set (free_pages m)
     \<and> length (free_pages m') + card (missing m d) = length (free_pages m) + card (missing m' d)
     \<and> (\<forall>s. \<not> kslot s \<longrightarrow> frames m' d s = frames m d s)
     \<and> (\<forall>s t. table m d s = Some t \<longrightarrow> table m' d s = Some t)
     \<and> kframes m' d \<subseteq> kframes m d \<union> set (free_pages m)
     \<and> (\<forall>f. f \<notin> set (free_pages m) \<and> f \<notin> kframes m d \<longrightarrow> frames m' f = frames m f)"

lemma boot_same_refl: "boot_same d m m"
  by (simp add: boot_same_def)

lemma boot_same_trans: "boot_same d m m' \<Longrightarrow> boot_same d m' m'' \<Longrightarrow> boot_same d m m''"
  unfolding boot_same_def by (auto simp: subset_iff)

lemma ktable_step:
  assumes ok: "kdir_ok m d" and s: "kslot (PDX va)" and none: "table m d (PDX va) = None"
  obtains t ts where "free_pages m = t # ts" "pgdir_walk d va True m = Some (Some (t, PTX va), table_step m d va t)"
    "kdir_ok (table_step m d va t) d" "table (table_step m d va t) d (PDX va) = Some t" "t < npages m"
    "\<And>v. kslot (v div 1024) \<Longrightarrow> entry (table_step m d va t) d v = entry m d v"
    "boot_same d m (table_step m d va t)"
proof -
  note k = kdir_okD [OF ok]
  have "PDX va \<in> {s. kslot s \<and> table m d s = None}" using s none by simp
  then have "0 < card {s. kslot s \<and> table m d s = None}" by (subst card_gt_0_iff) auto
  then have "0 < length (free_pages m)" using k(7) by (rule less_le_trans)
  then obtain t ts where fl: "free_pages m = t # ts" by (cases "free_pages m") auto
  let ?m = "table_step m d va t"
  let ?w = "page2pa t OR PTE_P OR PTE_W OR PTE_U"
  have t: "t < npages m" "pp_ref m t = 0" "t \<notin> set ts" "d \<noteq> t" "t < 0x100000"
    using k(1,2,4) fl by (auto simp: alloc_ok_def)
  have z: "frames m d (PDX va) = 0" using none by (simp add: table_def split: if_splits)
  have np: "npages ?m = npages m" by (simp add: table_step_def alloc_step_def set_word_def Let_def)
  have fl': "free_pages ?m = ts" using page_alloc_Cons(3) [OF k(1) fl] by (simp add: table_step_def set_word_def Let_def)
  have fr: "frames ?m u = (if u = d then (frames m d)(PDX va := ?w) else if u = t then (\<lambda>_. 0) else frames m u)" for u
    using t by (simp add: table_step_def alloc_step_def set_word_def Let_def)
  have tab: "table ?m d s = (if s = PDX va then Some t else table m d s)" for s
    using t table_entry [of t] by (simp add: table_def fr)
  have notin: "table m d s \<noteq> Some t" if "kslot s" for s using k(5) [OF that] fl by auto
  have ent: "entry ?m d v = entry m d v" if "kslot (v div 1024)" for v
  proof (cases "v div 1024 = PDX va")
    case True
    then show ?thesis using none t by (simp add: entry_def tab fr)
  next
    case False
    have "u \<noteq> d \<and> u \<noteq> t" if "table m d (v div 1024) = Some u" for u
      using k(5) [OF \<open>kslot (v div 1024)\<close> that] fl by auto
    then show ?thesis using False by (auto simp: entry_def tab fr split: option.splits)
  qed
  have al: "alloc_ok ?m"
  proof -
    have s: "alloc_ok (alloc_step m t True)" "free_pages (alloc_step m t True) = ts"
      using page_alloc_Cons(2,3) [OF k(1) fl] by auto
    then show ?thesis using t by (intro alloc_ok_same [OF s(1)])
      (auto simp: table_step_def set_word_def Let_def alloc_ok_def alloc_step_def)
  qed
  have "{s. kslot s \<and> table ?m d s = None} = {s. kslot s \<and> table m d s = None} - {PDX va}" by (auto simp: tab)
  then have "card {s. kslot s \<and> table ?m d s = None} < card {s. kslot s \<and> table m d s = None}"
    using s none by (intro psubset_card_mono) auto
  then have "card {s. kslot s \<and> table ?m d s = None} \<le> length ts" using k(7) fl by simp
  then have ok': "kdir_ok ?m d"
    unfolding kdir_ok_def using al t k(3,4,5,6) fl notin
    by (auto simp: np fl' tab fr split: if_splits)
  have w: "pgdir_walk d va True m = Some (Some (t, PTX va), ?m)"
  proof -
    have alloc: "page_alloc ALLOC_ZERO m = Some (Some t, alloc_step m t True)"
      using page_alloc_Cons(1) [OF k(1) fl, of ALLOC_ZERO] by (simp add: ALLOC_ZERO_def)
    have "frames ?m d (PDX va) \<noteq> 0" "PGNUM (frames ?m d (PDX va)) = t" using table_entry t by (simp_all add: fr)
    moreover from this have "Option.bind (KADDR ?m (PTE_ADDR (frames ?m d (PDX va)))) PADDR = Some (PTE_ADDR (frames ?m d (PDX va)))"
      using kaddr_frame [of ?m] k(2) t np by simp
    ultimately show ?thesis using z alloc by (auto simp: pgdir_walk_def table_step_def Let_def bind_eq_Some_conv)
  qed
  have same: "boot_same d m ?m"
  proof -
    have "PDX va \<noteq> s" if "\<not> kslot s" for s using that s by auto
    moreover have "missing ?m d = missing m d - {PDX va}" "PDX va \<in> missing m d" "finite (missing m d)"
      using s none by (auto simp: missing_def tab)
    then have "Suc (card (missing ?m d)) = card (missing m d)" by (metis card.remove)
    moreover have "mem.more ?m = mem.more m" "curenv_pgdir ?m = curenv_pgdir m"
      "kern_pgdir ?m = kern_pgdir m" "mmio_base ?m = mmio_base m" "nextfree ?m = nextfree m"
      by (simp_all add: table_step_def alloc_step_def set_word_def Let_def)
    moreover have "kframes ?m d \<subseteq> kframes m d \<union> set (free_pages m)" using fl by (auto simp: kframes_def tab split: if_splits)
    moreover have "frames ?m f = frames m f" if "f \<notin> set (free_pages m)" "f \<notin> kframes m d" for f
      using that fl by (simp add: fr kframes_def)
    ultimately show ?thesis using none fl by (auto simp: boot_same_def np fr tab fl')
  qed
  show thesis by (rule that [OF fl w ok' _ t(1) ent same]) (simp_all add: tab)
qed

text \<open>Writing an entry through a table of the kernel.\<close>

lemma kentry_set:
  assumes ok: "kdir_ok m d" and s: "kslot (PDX va)" and t: "table m d (PDX va) = Some t"
  shows "kdir_ok (set_word m t (PTX va) w) d" "boot_same d m (set_word m t (PTX va) w)"
    "\<And>v. kslot (v div 1024) \<Longrightarrow> entry (set_word m t (PTX va) w) d v = (if v = PGNUM va then w else entry m d v)"
proof -
  let ?m = "set_word m t (PTX va) w"
  note k = kdir_okD [OF ok]
  have td: "t \<noteq> d" using k(5) [OF s t] by simp
  have fr: "frames ?m = (frames m)(t := (frames m t)(PTX va := w))" by (simp add: set_word_def)
  have tab: "table ?m d = table m d" using td by (simp add: table_def fr fun_eq_iff)
  have same: "free_pages ?m = free_pages m" "npages ?m = npages m" "frames ?m d = frames m d"
    using td by (simp_all add: set_word_def)
  have al: "alloc_ok ?m" using k(1) by (simp add: set_word_def)
  show "kdir_ok ?m d" using ok al unfolding kdir_ok_def tab same by simp
  show "boot_same d m ?m" unfolding boot_same_def missing_def kframes_def tab same using s t by (auto simp: set_word_def)
  show "entry ?m d v = (if v = PGNUM va then w else entry m d v)" if v: "kslot (v div 1024)" for v
  proof (cases "v div 1024 = PDX va")
    case True
    then have "v = PGNUM va \<longleftrightarrow> v mod 1024 = PTX va" by (metis PDX_nat PTX_nat div_mult_mod_eq)
    then show ?thesis using True t by (simp add: entry_def tab fr)
  next
    case False
    then have "v \<noteq> PGNUM va" by (auto simp: PDX_nat)
    moreover have "u \<noteq> t" if "table m d (v div 1024) = Some u" for u using k(6) [OF v s that] t False by auto
    ultimately show ?thesis by (auto simp: entry_def tab fr split: option.splits)
  qed
qed

lemma boot_entry:
  assumes ok: "kdir_ok m d" and s: "kslot (PDX va)" and zero: "entry m d (PGNUM va) = 0"
  obtains t m1 where "pgdir_walk d va True m = Some (Some (t, PTX va), m1)" "page_remove d va m1 = Some m1"
    "kdir_ok (set_word m1 t (PTX va) w) d" "boot_same d m (set_word m1 t (PTX va) w)"
    "table (set_word m1 t (PTX va) w) d (PDX va) \<noteq> None"
    "\<And>v. kslot (v div 1024) \<Longrightarrow> entry (set_word m1 t (PTX va) w) d v = (if v = PGNUM va then w else entry m d v)"
proof -
  have va: "kslot (PGNUM va div 1024)" using s by (simp add: PDX_nat)
  obtain t m1 where m1: "pgdir_walk d va True m = Some (Some (t, PTX va), m1)" "kdir_ok m1 d" "table m1 d (PDX va) = Some t"
    "\<And>v. kslot (v div 1024) \<Longrightarrow> entry m1 d v = entry m d v" "boot_same d m m1"
  proof (cases "table m d (PDX va)")
    case None
    show thesis by (rule ktable_step [OF ok s None]) (rule that)
  next
    case (Some t)
    then show thesis using walk_at [OF kdir_okD(2) [OF ok] Some] kdir_okD(5) [OF ok s Some] ok boot_same_refl
      by (intro that [of t m]) auto
  qed
  note k = kentry_set [OF m1(2) s m1(3), where w = w]
  have "page_remove d va m1 = Some m1"
    using remove_nothing [OF kdir_okD(2) [OF m1(2)] m1(3)] kdir_okD(5) [OF m1(2) s m1(3)] m1(4) [OF va] zero by simp
  moreover have "table (set_word m1 t (PTX va) w) d (PDX va) \<noteq> None" using k(2) m1(3) by (auto simp: boot_same_def)
  ultimately show thesis using that m1(1,4) k boot_same_trans [OF m1(5) k(2)] by simp
qed

section \<open>A region\<close>

lemma unat_offset:
  assumes "unat (va :: u32w) + j < 2 ^ 32"
  shows "unat (va + word_of_nat j) = unat va + j"
proof -
  have "unat (word_of_nat j :: u32w) = j" using assms by (simp add: unsigned_of_nat take_bit_nat_eq_self)
  then show ?thesis using assms by (subst unat_add_lem [THEN iffD1]) simp_all
qed

lemma PGNUM_offset:
  assumes "unat (va :: u32w) + j * 4096 < 2 ^ 32"
  shows "PGNUM (va + word_of_nat (j * 4096)) = PGNUM va + j"
  using unat_offset [OF assms] by (simp add: PGNUM_nat)

text \<open>The entry that maps page \<open>j\<close> of a region.\<close>

definition region_pte :: "u32w \<Rightarrow> u32w \<Rightarrow> nat \<Rightarrow> u32w" where
  "region_pte pa perm j = (pa + word_of_nat (j * 4096)) OR perm OR PTE_P"

lemma boot_map_loop_region:
  assumes "kdir_ok m d" and "j \<le> n" and "unat va + n * 4096 \<le> 2 ^ 32"
    and "\<And>i. j \<le> i \<Longrightarrow> i < n \<Longrightarrow> kslot ((PGNUM va + i) div 1024) \<and> entry m d (PGNUM va + i) = 0"
  shows "\<exists>m'. boot_map_loop d va (j * 4096) (n * 4096) pa perm m = Some m' \<and> kdir_ok m' d \<and> boot_same d m m'
    \<and> (\<forall>i. j \<le> i \<and> i < n \<longrightarrow> table m' d ((PGNUM va + i) div 1024) \<noteq> None)
    \<and> (\<forall>v. kslot (v div 1024) \<longrightarrow> entry m' d v =
         (if PGNUM va + j \<le> v \<and> v < PGNUM va + n then region_pte pa perm (v - PGNUM va) else entry m d v))"
  using assms
proof (induction "n - j" arbitrary: j m)
  case 0
  then show ?case by (subst boot_map_loop.simps) (auto simp: boot_same_refl)
next
  case (Suc x)
  then have j: "j < n" by simp
  let ?va = "va + word_of_nat (j * 4096)"
  have pg: "PGNUM ?va = PGNUM va + j" using Suc.prems(3) j by (intro PGNUM_offset) linarith
  have s: "kslot (PDX ?va)" "entry m d (PGNUM ?va) = 0" using Suc.prems(4) [of j] j pg by (auto simp: PDX_nat)
  obtain t m1 where m1: "pgdir_walk d ?va True m = Some (Some (t, PTX ?va), m1)" "page_remove d ?va m1 = Some m1"
    "kdir_ok (set_word m1 t (PTX ?va) (region_pte pa perm j)) d" "boot_same d m (set_word m1 t (PTX ?va) (region_pte pa perm j))"
    "table (set_word m1 t (PTX ?va) (region_pte pa perm j)) d (PDX ?va) \<noteq> None"
    "\<And>v. kslot (v div 1024) \<Longrightarrow> entry (set_word m1 t (PTX ?va) (region_pte pa perm j)) d v
       = (if v = PGNUM ?va then region_pte pa perm j else entry m d v)"
    by (rule boot_entry [OF Suc.prems(1) s, where w = "region_pte pa perm j"]) (rule that)
  let ?m2 = "set_word m1 t (PTX ?va) (region_pte pa perm j)"
  have "boot_map_loop d va (j * 4096) (n * 4096) pa perm m = boot_map_loop d va (Suc j * 4096) (n * 4096) pa perm ?m2"
    using j m1(1,2) by (subst boot_map_loop.simps) (simp add: region_pte_def add.commute)
  moreover have "\<exists>m'. boot_map_loop d va (Suc j * 4096) (n * 4096) pa perm ?m2 = Some m' \<and> kdir_ok m' d \<and> boot_same d ?m2 m'
    \<and> (\<forall>i. Suc j \<le> i \<and> i < n \<longrightarrow> table m' d ((PGNUM va + i) div 1024) \<noteq> None)
    \<and> (\<forall>v. kslot (v div 1024) \<longrightarrow> entry m' d v =
         (if PGNUM va + Suc j \<le> v \<and> v < PGNUM va + n then region_pte pa perm (v - PGNUM va) else entry ?m2 d v))"
  proof (rule Suc.hyps(1))
    show "kslot ((PGNUM va + i) div 1024) \<and> entry ?m2 d (PGNUM va + i) = 0" if "Suc j \<le> i" "i < n" for i
      using Suc.prems(4) [of i] that m1(6) pg by simp
  qed (use Suc.hyps(2) Suc.prems j m1 in auto)
  ultimately obtain m' where m': "boot_map_loop d va (j * 4096) (n * 4096) pa perm m = Some m'" "kdir_ok m' d" "boot_same d ?m2 m'"
    "\<forall>i. Suc j \<le> i \<and> i < n \<longrightarrow> table m' d ((PGNUM va + i) div 1024) \<noteq> None"
    "\<forall>v. kslot (v div 1024) \<longrightarrow> entry m' d v =
       (if PGNUM va + Suc j \<le> v \<and> v < PGNUM va + n then region_pte pa perm (v - PGNUM va) else entry ?m2 d v)" by auto
  have "table m' d ((PGNUM va + i) div 1024) \<noteq> None" if "j \<le> i" "i < n" for i
    using m'(3,4) m1(5) that pg by (cases "i = j") (auto simp: boot_same_def PDX_nat)
  moreover have "entry m' d v = (if PGNUM va + j \<le> v \<and> v < PGNUM va + n then region_pte pa perm (v - PGNUM va) else entry m d v)"
    if "kslot (v div 1024)" for v
    using m'(5) that m1(6) [OF that] pg j by (cases "v = PGNUM va + j") auto
  ultimately show ?case using m'(1,2) boot_same_trans [OF m1(4) m'(3)] by auto
qed

lemma boot_region:
  assumes "kdir_ok m d" and "unat sz = n * 4096" and "unat va = p * 4096" and "p + n \<le> 0x100000"
    and "\<And>i. p \<le> i \<Longrightarrow> i < p + n \<Longrightarrow> kslot (i div 1024) \<and> entry m d i = 0"
  obtains m' where "boot_map_region d va sz pa perm m = Some m'" "kdir_ok m' d" "boot_same d m m'"
    "\<And>i. p \<le> i \<Longrightarrow> i < p + n \<Longrightarrow> table m' d (i div 1024) \<noteq> None"
    "\<And>v. kslot (v div 1024) \<Longrightarrow> entry m' d v = (if p \<le> v \<and> v < p + n then region_pte pa perm (v - p) else entry m d v)"
proof -
  have pg: "PGNUM va = p" using assms(3) by (simp add: PGNUM_nat)
  have "unat va + n * 4096 \<le> 2 ^ 32" using assms(3,4) by simp
  from boot_map_loop_region [OF assms(1) _ this, of 0 pa perm] obtain m' where m':
    "boot_map_loop d va 0 (n * 4096) pa perm m = Some m'" "kdir_ok m' d" "boot_same d m m'"
    "\<forall>i<n. table m' d ((p + i) div 1024) \<noteq> None"
    "\<forall>v. kslot (v div 1024) \<longrightarrow> entry m' d v = (if p \<le> v \<and> v < p + n then region_pte pa perm (v - p) else entry m d v)"
    using assms(5) by (auto simp: pg)
  have "table m' d (i div 1024) \<noteq> None" if "p \<le> i" "i < p + n" for i
    using m'(4) [rule_format, of "i - p"] that by simp
  then show thesis using that m' assms(2) by (simp add: boot_map_region_def)
qed

section \<open>The kernel's map\<close>

text \<open>The pages of the fixed addresses.\<close>

definition envs_page :: nat where "envs_page = 0xEEC00"
definition pages_page :: nat where "pages_page = 0xEF000"
definition stacks_page :: nat where "stacks_page = 0xEFF80"
definition base_page :: nat where "base_page = 0xF0000"

lemmas layout_pages = envs_page_def pages_page_def stacks_page_def base_page_def

lemma fixed_pages: "unat UENVS = envs_page * 4096" "unat UPAGES = pages_page * 4096" "unat KERNBASE = base_page * 4096"
  by (simp_all add: layout layout_pages)

text \<open>The entry the kernel's address space must have for a page: the arrays read-only for the user, physical
  memory from \<open>KERNBASE\<close> on, and the stacks of the CPUs, each under eight pages that are not mapped.\<close>

definition stacks_map :: "u32w \<Rightarrow> nat set \<Rightarrow> nat \<Rightarrow> u32w option" where
  "stacks_map ps is v =
     (if stacks_page \<le> v \<and> v < base_page \<and> 8 \<le> v mod 16 \<and> (base_page - 1 - v) div 16 \<in> is
      then Some (region_pte (ps + word_of_nat ((base_page - 1 - v) div 16) * KSTKSIZE) (PTE_W OR PTE_P) (v mod 16 - 8)) else None)"

definition kernel_map :: "nat \<Rightarrow> u32w \<Rightarrow> u32w \<Rightarrow> u32w \<Rightarrow> nat \<Rightarrow> u32w" where
  "kernel_map n pp pe ps v =
     (if pages_page \<le> v \<and> v < pages_page + n then region_pte pp (PTE_U OR PTE_P) (v - pages_page)
      else if envs_page \<le> v \<and> v < envs_page + 33 then region_pte pe (PTE_U OR PTE_P) (v - envs_page)
      else if base_page \<le> v then region_pte 0 (PTE_W OR PTE_P) (v - base_page)
      else case stacks_map ps {..<NCPU} v of None \<Rightarrow> 0 | Some w \<Rightarrow> w)"

lemma stack_start_page: "i < NCPU \<Longrightarrow> unat (stack_start i) = (base_page - 16 * i - 8) * 4096"
proof -
  assume "i < NCPU"
  then have "i \<in> {0, 1, 2, 3, 4, 5, 6, 7}" by (auto simp: NCPU_def)
  then show ?thesis by (auto simp: stack_start_def layout layout_pages)
qed

lemma stack_size: "unat KSTKSIZE = 8 * 4096"
  by (simp add: layout)

text \<open>The page range of stack \<open>i\<close>.\<close>

definition in_stack :: "nat \<Rightarrow> nat \<Rightarrow> bool" where
  "in_stack i v \<longleftrightarrow> base_page - 16 * i - 8 \<le> v \<and> v < base_page - 16 * i - 8 + 8"

lemma in_stack_iff:
  assumes "i < NCPU"
  shows "in_stack i v \<longleftrightarrow> stacks_page \<le> v \<and> v < base_page \<and> 8 \<le> v mod 16 \<and> (base_page - 1 - v) div 16 = i"
    "in_stack i v \<Longrightarrow> v mod 16 - 8 = v - (base_page - 16 * i - 8)"
proof -
  have i: "i < 8" using assms by (simp add: NCPU_def)
  define q r where "q = v div 16" and "r = v mod 16"
  have v: "v = 16 * q + r" "r < 16" by (simp_all add: q_def r_def)
  have d: "(983039 - v) div 16 = 61439 - q" if "v < 983040"
  proof -
    have "983039 - v = 16 * (61439 - q) + (15 - r)" using that v by (simp add: diff_mult_distrib2)
    then show ?thesis by simp
  qed
  have iff: "in_stack i v \<longleftrightarrow> q = 61439 - i \<and> 8 \<le> r"
  proof -
    obtain j where j: "61439 = j + i" using i that [of "61439 - i"] by simp
    have "983040 - 16 * i - 8 = 16 * j + 8" using j by simp
    then have "in_stack i v \<longleftrightarrow> 16 * j + 8 \<le> 16 * q + r \<and> 16 * q + r < 16 * j + 16"
      using v by (simp add: in_stack_def layout_pages add.commute)
    also have "\<dots> \<longleftrightarrow> q = j \<and> 8 \<le> r" using v(2) by arith
    finally show ?thesis using j by (metis add_diff_cancel_right')
  qed
  show "in_stack i v \<longleftrightarrow> stacks_page \<le> v \<and> v < base_page \<and> 8 \<le> v mod 16 \<and> (base_page - 1 - v) div 16 = i"
  proof
    assume s: "in_stack i v"
    then have "stacks_page \<le> v" "v < base_page" using i unfolding in_stack_def layout_pages by arith+
    with s show "stacks_page \<le> v \<and> v < base_page \<and> 8 \<le> v mod 16 \<and> (base_page - 1 - v) div 16 = i"
      using iff i v d by (simp add: layout_pages r_def [symmetric])
  next
    assume "stacks_page \<le> v \<and> v < base_page \<and> 8 \<le> v mod 16 \<and> (base_page - 1 - v) div 16 = i"
    then show "in_stack i v" using iff i v d by (simp add: layout_pages r_def [symmetric])
  qed
  show "in_stack i v \<Longrightarrow> v mod 16 - 8 = v - (base_page - 16 * i - 8)"
    using iff i v by (simp add: layout_pages r_def [symmetric])
qed

lemma stacks_map_insert:
  assumes "i < NCPU"
  shows "stacks_map ps (insert i is) v = (if in_stack i v
     then Some (region_pte (ps + word_of_nat i * KSTKSIZE) (PTE_W OR PTE_P) (v - (base_page - 16 * i - 8))) else stacks_map ps is v)"
    "i \<notin> is \<Longrightarrow> in_stack i v \<Longrightarrow> stacks_map ps is v = None"
  using in_stack_iff [OF assms, of v] by (auto simp: stacks_map_def)

lemma in_stack_slot: "i < NCPU \<Longrightarrow> in_stack i v \<Longrightarrow> v div 1024 = 959"
  unfolding in_stack_def layout_pages NCPU_def by (rule div_nat_eqI) (simp, linarith)+

lemma stack_PADDR:
  assumes "KERNBASE \<le> kstacks" and "unat kstacks + 0x40000 \<le> 2 ^ 32" and "i < NCPU"
  shows "PADDR (kstacks + word_of_nat i * KSTKSIZE) = Some (kstacks - KERNBASE + word_of_nat i * KSTKSIZE)"
proof -
  have "word_of_nat i * KSTKSIZE = word_of_nat (i * 0x8000)" by (simp add: layout)
  moreover have "unat kstacks + i * 0x8000 < 2 ^ 32" using assms(2,3) by (simp add: NCPU_def)
  ultimately have "unat (kstacks + word_of_nat i * KSTKSIZE) = unat kstacks + i * 0x8000" using unat_offset by metis
  then have "KERNBASE \<le> kstacks + word_of_nat i * KSTKSIZE" using assms(1) by (simp add: word_le_nat_alt)
  then show ?thesis by (simp add: PADDR_def)
qed

lemma stacks_loop_map:
  "distinct is \<Longrightarrow> set is \<subseteq> {..<NCPU} \<Longrightarrow> kdir_ok m d \<Longrightarrow> d = kern_pgdir m \<Longrightarrow> KERNBASE \<le> kstacks
    \<Longrightarrow> unat kstacks + 0x40000 \<le> 2 ^ 32 \<Longrightarrow> \<forall>i\<in>set is. \<forall>v. in_stack i v \<longrightarrow> entry m d v = 0
    \<Longrightarrow> \<exists>m'. stacks_loop kstacks is m = Some m' \<and> kdir_ok m' d \<and> boot_same d m m'
      \<and> (is \<noteq> [] \<longrightarrow> table m' d 959 \<noteq> None)
      \<and> (\<forall>v. kslot (v div 1024) \<longrightarrow>
          entry m' d v = (case stacks_map (kstacks - KERNBASE) (set is) v of None \<Rightarrow> entry m d v | Some w \<Rightarrow> w))"
proof (induction "is" arbitrary: m)
  case Nil
  then show ?case by (auto simp: stacks_map_def boot_same_refl)
next
  case (Cons i "is")
  let ?p = "base_page - 16 * i - 8"
  have i: "i < NCPU" "i \<notin> set is" using Cons.prems(1,2) by auto
  have blk: "kslot (v div 1024) \<and> entry m d v = 0" if "?p \<le> v" "v < ?p + 8" for v
    using in_stack_slot [OF i(1), of v] Cons.prems(7) that by (auto simp: in_stack_def kslot_def)
  have fits: "?p + 8 \<le> 0x100000" by (simp add: layout_pages)
  obtain m1 where m1: "boot_map_region d (stack_start i) KSTKSIZE (kstacks - KERNBASE + word_of_nat i * KSTKSIZE) (PTE_W OR PTE_P) m = Some m1"
    "kdir_ok m1 d" "boot_same d m m1" "\<And>v. ?p \<le> v \<Longrightarrow> v < ?p + 8 \<Longrightarrow> table m1 d (v div 1024) \<noteq> None"
    "\<And>v. kslot (v div 1024) \<Longrightarrow> entry m1 d v = (if ?p \<le> v \<and> v < ?p + 8
       then region_pte (kstacks - KERNBASE + word_of_nat i * KSTKSIZE) (PTE_W OR PTE_P) (v - ?p) else entry m d v)"
    by (rule boot_region [OF Cons.prems(3) stack_size stack_start_page [OF i(1)] fits blk,
        where pa = "kstacks - KERNBASE + word_of_nat i * KSTKSIZE" and perm = "PTE_W OR PTE_P"]) (assumption+, rule that)
  have d1: "d = kern_pgdir m1" using m1(3) Cons.prems(4) by (simp add: boot_same_def)
  have "\<forall>j\<in>set is. \<forall>v. in_stack j v \<longrightarrow> entry m1 d v = 0"
  proof (intro ballI allI impI)
    fix j v assume j: "j \<in> set is" "in_stack j v"
    then have "j < NCPU" "j \<noteq> i" using Cons.prems(2) i by auto
    moreover from this have "\<not> in_stack i v" using in_stack_iff(1) [of j v] in_stack_iff(1) [OF i(1), of v] j by auto
    moreover have "kslot (v div 1024)" using in_stack_slot [of j v] calculation(1) j by (simp add: kslot_def)
    ultimately show "entry m1 d v = 0" using m1(5) [of v] Cons.prems(7) j by (auto simp: in_stack_def)
  qed
  then obtain m' where m': "stacks_loop kstacks is m1 = Some m'" "kdir_ok m' d" "boot_same d m1 m'"
    "\<forall>v. kslot (v div 1024) \<longrightarrow> entry m' d v = (case stacks_map (kstacks - KERNBASE) (set is) v of None \<Rightarrow> entry m1 d v | Some w \<Rightarrow> w)"
    using Cons.IH [OF _ _ m1(2) d1 Cons.prems(5,6)] Cons.prems(1,2) by auto
  have "stacks_loop kstacks (i # is) m = Some m'"
    using m1(1) m'(1) stack_PADDR [OF Cons.prems(5,6) i(1)] Cons.prems(4) by simp
  moreover have "table m' d 959 \<noteq> None"
  proof -
    have "?p div 1024 = 959" using in_stack_slot [OF i(1), of ?p] by (simp add: in_stack_def)
    then have "table m1 d 959 \<noteq> None" using m1(4) [of ?p] by simp
    then show ?thesis using m'(3) by (auto simp: boot_same_def)
  qed
  moreover have "entry m' d v = (case stacks_map (kstacks - KERNBASE) (set (i # is)) v of None \<Rightarrow> entry m d v | Some w \<Rightarrow> w)"
    if "kslot (v div 1024)" for v
    using m'(4) [rule_format, OF that] m1(5) [OF that] stacks_map_insert [OF i(1)] i(2)
    by (cases "in_stack i v") (auto simp: in_stack_def split: option.splits)
  ultimately show ?case using m'(2) boot_same_trans [OF m1(3) m'(3)] by blast
qed

lemma pages_size:
  assumes "n \<le> 0x10000"
  shows "unat (ROUNDUP (word_of_nat n * SIZEOF_PageInfo) PGSIZE) = (n * 8 + 4095) div 4096 * 4096" "(n * 8 + 4095) div 4096 \<le> 128"
proof -
  have "unat (word_of_nat n * SIZEOF_PageInfo) = n * 8"
    using assms by (simp add: SIZEOF_PageInfo_def unat_word_ariths unsigned_of_nat take_bit_nat_eq_self)
  then show "unat (ROUNDUP (word_of_nat n * SIZEOF_PageInfo) PGSIZE) = (n * 8 + 4095) div 4096 * 4096"
    using ROUNDUP_nat [of "word_of_nat n * SIZEOF_PageInfo"] assms by simp
  show "(n * 8 + 4095) div 4096 \<le> 128" using assms by linarith
qed

lemma envs_size: "unat (ROUNDUP (word_of_nat NENV * SIZEOF_Env) PGSIZE) = 33 * 4096"
  using ROUNDUP_nat [of "word_of_nat NENV * SIZEOF_Env"] by (simp add: NENV_def SIZEOF_Env_def)

definition array_pages :: "nat \<Rightarrow> nat" where
  "array_pages n = (n * 8 + 4095) div 4096"

definition unmapped_kernel :: "'a mem_scheme \<Rightarrow> nat \<Rightarrow> bool" where
  "unmapped_kernel m d \<longleftrightarrow> (\<forall>v. kslot (v div 1024) \<longrightarrow> entry m d v = 0)"

lemma slot_range: "x * 1024 \<le> v \<Longrightarrow> v < y * 1024 \<Longrightarrow> x \<le> v div 1024 \<and> v div 1024 < (y :: nat)"
  by (simp add: less_eq_div_iff_mult_less_eq div_less_iff_less_mult)

text \<open>The map that the four calls build, when the kernel's part is empty before.\<close>

lemma map_kernel_map:
  assumes ok: "kdir_ok m d" and d: "d = kern_pgdir m" and empty: "unmapped_kernel m d"
    and pp: "PADDR pages_kva = Some pp" and pe: "PADDR envs_kva = Some pe"
    and ks: "KERNBASE \<le> kstacks" "unat kstacks + 0x40000 \<le> 2 ^ 32"
  shows "\<exists>m'. map_kernel pages_kva envs_kva kstacks m = Some m' \<and> kdir_ok m' d \<and> boot_same d m m'
    \<and> (\<forall>s. kslot s \<and> s \<noteq> 958 \<longrightarrow> table m' d s \<noteq> None)
    \<and> (\<forall>v. kslot (v div 1024) \<longrightarrow> entry m' d v = kernel_map (array_pages (npages m)) pp pe (kstacks - KERNBASE) v)"
proof -
  let ?n = "array_pages (npages m)"
  note k = kdir_okD [OF ok]
  have n: "?n \<le> 128" "unat (ROUNDUP (word_of_nat (npages m) * SIZEOF_PageInfo) PGSIZE) = ?n * 4096"
    using pages_size [OF k(2)] by (simp_all add: array_pages_def)
  have z: "entry m d v = 0" if "kslot (v div 1024)" for v using empty that by (simp add: unmapped_kernel_def)
  have slots: "kslot (v div 1024)" if "pages_page \<le> v \<and> v < pages_page + ?n \<or> envs_page \<le> v \<and> v < envs_page + 33 \<or> base_page \<le> v \<and> v < base_page + 0x10000" for v
    using that n(1) slot_range [of 956 v 957] slot_range [of 955 v 956] slot_range [of 960 v 1024]
    by (auto simp: layout_pages kslot_def)
  have r1: "kslot (v div 1024) \<and> entry m d v = 0" if "pages_page \<le> v" "v < pages_page + ?n" for v
    using slots z that by blast
  have f1: "pages_page + ?n \<le> 0x100000" using n(1) by (simp add: layout_pages)
  obtain m1 where m1: "boot_map_region d UPAGES (ROUNDUP (word_of_nat (npages m) * SIZEOF_PageInfo) PGSIZE) pp (PTE_U OR PTE_P) m = Some m1"
    "kdir_ok m1 d" "boot_same d m m1" "\<And>v. pages_page \<le> v \<Longrightarrow> v < pages_page + ?n \<Longrightarrow> table m1 d (v div 1024) \<noteq> None"
    "\<And>v. kslot (v div 1024) \<Longrightarrow> entry m1 d v = (if pages_page \<le> v \<and> v < pages_page + ?n then region_pte pp (PTE_U OR PTE_P) (v - pages_page) else entry m d v)"
    by (rule boot_region [OF ok n(2) fixed_pages(2) f1 r1, where pa = pp and perm = "PTE_U OR PTE_P"]) (assumption+, rule that)
  have r2: "kslot (v div 1024) \<and> entry m1 d v = 0" if "envs_page \<le> v" "v < envs_page + 33" for v
    using slots [of v] z m1(5) that by (auto simp: layout_pages)
  have f2: "envs_page + 33 \<le> 0x100000" by (simp add: layout_pages)
  obtain m2 where m2: "boot_map_region d UENVS (ROUNDUP (word_of_nat NENV * SIZEOF_Env) PGSIZE) pe (PTE_U OR PTE_P) m1 = Some m2"
    "kdir_ok m2 d" "boot_same d m1 m2" "\<And>v. envs_page \<le> v \<Longrightarrow> v < envs_page + 33 \<Longrightarrow> table m2 d (v div 1024) \<noteq> None"
    "\<And>v. kslot (v div 1024) \<Longrightarrow> entry m2 d v = (if envs_page \<le> v \<and> v < envs_page + 33 then region_pte pe (PTE_U OR PTE_P) (v - envs_page) else entry m1 d v)"
    by (rule boot_region [OF m1(2) envs_size fixed_pages(1) f2 r2, where pa = pe and perm = "PTE_U OR PTE_P"]) (assumption+, rule that)
  have r3: "kslot (v div 1024) \<and> entry m2 d v = 0" if "base_page \<le> v" "v < base_page + 0x10000" for v
    using slots [of v] z m1(5) m2(5) that n(1) by (auto simp: layout_pages)
  have f3: "base_page + 0x10000 \<le> 0x100000" "unat (push_bit 28 1 :: u32w) = 0x10000 * 4096" by (simp_all add: layout_pages)
  obtain m3 where m3: "boot_map_region d KERNBASE (push_bit 28 1) 0 (PTE_W OR PTE_P) m2 = Some m3"
    "kdir_ok m3 d" "boot_same d m2 m3" "\<And>v. base_page \<le> v \<Longrightarrow> v < base_page + 0x10000 \<Longrightarrow> table m3 d (v div 1024) \<noteq> None"
    "\<And>v. kslot (v div 1024) \<Longrightarrow> entry m3 d v = (if base_page \<le> v \<and> v < base_page + 0x10000 then region_pte 0 (PTE_W OR PTE_P) (v - base_page) else entry m2 d v)"
    by (rule boot_region [OF m2(2) f3(2) fixed_pages(3) f3(1) r3, where pa = 0 and perm = "PTE_W OR PTE_P"]) (assumption+, rule that)
  have same3: "boot_same d m m3" using m1(3) m2(3) m3(3) boot_same_trans by blast
  then have d3: "d = kern_pgdir m3" using d by (simp add: boot_same_def)
  have e3: "entry m3 d v = (if pages_page \<le> v \<and> v < pages_page + ?n then region_pte pp (PTE_U OR PTE_P) (v - pages_page)
      else if envs_page \<le> v \<and> v < envs_page + 33 then region_pte pe (PTE_U OR PTE_P) (v - envs_page)
      else if base_page \<le> v \<and> v < base_page + 0x10000 then region_pte 0 (PTE_W OR PTE_P) (v - base_page) else 0)" if "kslot (v div 1024)" for v
    using m3(5) [OF that] m2(5) [OF that] m1(5) [OF that] z [OF that] n(1) by (auto simp: layout_pages)
  have st: "\<forall>i\<in>set [0..<NCPU]. \<forall>v. in_stack i v \<longrightarrow> entry m3 d v = 0"
  proof (intro ballI allI impI)
    fix i v assume i: "i \<in> set [0..<NCPU]" "in_stack i v"
    then have "v div 1024 = 959" "stacks_page \<le> v" "v < base_page" using in_stack_slot [of i v] in_stack_iff(1) [of i v] by auto
    then show "entry m3 d v = 0" using e3 [of v] n(1) by (auto simp: kslot_def layout_pages)
  qed
  have "distinct [0..<NCPU]" "set [0..<NCPU] \<subseteq> {..<NCPU}" by auto
  from stacks_loop_map [OF this m3(2) d3 ks st] obtain m4 where m4: "stacks_loop kstacks [0..<NCPU] m3 = Some m4" "kdir_ok m4 d"
    "boot_same d m3 m4" "table m4 d 959 \<noteq> None"
    "\<forall>v. kslot (v div 1024) \<longrightarrow> entry m4 d v = (case stacks_map (kstacks - KERNBASE) {..<NCPU} v of None \<Rightarrow> entry m3 d v | Some w \<Rightarrow> w)"
    by (auto simp: NCPU_def atLeast0LessThan)
  have "map_kernel pages_kva envs_kva kstacks m = Some m4"
    using m1(1,3) m2(1,3) m3(1,3) m4(1) pp pe d by (simp add: map_kernel_def mem_init_mp_def boot_same_def)
  moreover have "table m4 d s \<noteq> None" if s: "kslot s" "s \<noteq> 958" for s
  proof -
    have "0 < ?n" using k(3) by (simp add: array_pages_def)
    then have t: "table m1 d 956 \<noteq> None" "table m2 d 955 \<noteq> None" "960 \<le> s \<Longrightarrow> table m3 d s \<noteq> None"
      using m1(4) [of pages_page] m2(4) [of envs_page] m3(4) [of "s * 1024"] s by (auto simp: layout_pages kslot_def)
    have "s = 955 \<or> s = 956 \<or> s = 959 \<or> 960 \<le> s" using s by (auto simp: kslot_def)
    then show ?thesis using t m2(3) m3(3) m4(3,4) by (auto simp: boot_same_def)
  qed
  moreover have "entry m4 d v = kernel_map ?n pp pe (kstacks - KERNBASE) v" if v: "kslot (v div 1024)" for v
  proof -
    have "v < 0x100000" using v by (auto simp: kslot_def div_less_iff_less_mult)
    moreover have "v < base_page \<and> envs_page + 1024 < v \<and> pages_page + ?n \<le> v" if "stacks_map (kstacks - KERNBASE) {..<NCPU} v = Some w" for w
      using that n(1) by (auto simp: stacks_map_def layout_pages split: if_splits)
    ultimately show ?thesis using m4(5) [rule_format, OF v] e3 [OF v]
      by (auto simp: kernel_map_def layout_pages split: option.splits)
  qed
  ultimately show ?thesis using m4(2) boot_same_trans [OF same3 m4(3)] by blast
qed

end
