(* ===== verification/Kern_Boot_Checks.thy ===== *)
theory Kern_Boot_Checks
  imports Kern_Boot_Vm
begin

text \<open>
  The checks that \<open>mem_init\<close> runs: the kernel's address space that \<open>map_kernel\<close> builds passes \<open>check_kern_pgdir\<close>.
\<close>

section \<open>Translating addresses\<close>

lemma page2pa_flag: "k AND NOT 0xFFF = 0 \<Longrightarrow> page2pa p AND k = 0"
proof -
  assume "k AND NOT 0xFFF = 0"
  then have z: "k AND NOT (mask 12) = 0" by (simp only: mask_12)
  have "page2pa p AND NOT (mask 12) = page2pa p"
    by (rule bit_word_eqI) (auto simp: page2pa_def bit_and_iff bit_not_iff bit_push_bit_iff bit_mask_iff)
  then have "page2pa p AND k = (page2pa p AND NOT (mask 12)) AND k" by (simp only:)
  also have "\<dots> = 0" unfolding and.assoc and.commute [of "NOT (mask 12)" k] z by (rule and_zero_eq)
  finally show ?thesis .
qed

lemma pde_bits: "(page2pa t OR PTE_P OR PTE_W OR PTE_U) AND PTE_P \<noteq> 0" "(page2pa t OR PTE_P OR PTE_W OR PTE_U) AND PTE_W \<noteq> 0"
    "(page2pa t OR PTE_P OR PTE_W OR PTE_U) AND PTE_PS = 0"
proof -
  have "bit ((page2pa t OR PTE_P OR PTE_W OR PTE_U) AND PTE_P) 0" "bit ((page2pa t OR PTE_P OR PTE_W OR PTE_U) AND PTE_W) 1"
    by (simp_all add: bit_simps pte_bits)
  then show "(page2pa t OR PTE_P OR PTE_W OR PTE_U) AND PTE_P \<noteq> 0" "(page2pa t OR PTE_P OR PTE_W OR PTE_U) AND PTE_W \<noteq> 0"
    by (metis bit_0_eq bot_apply bot_bool_def)+
  have "PTE_P AND PTE_PS = 0" "PTE_W AND PTE_PS = 0" "PTE_U AND PTE_PS = 0" by (simp_all add: pte_bits)
  moreover have "page2pa t AND PTE_PS = 0" by (rule page2pa_flag) (simp add: pte_bits)
  ultimately show "(page2pa t OR PTE_P OR PTE_W OR PTE_U) AND PTE_PS = 0"
    by (simp only: bit.conj_disj_distrib2 or.right_neutral)
qed

definition va2pa :: "u32w \<Rightarrow> u32w" where
  "va2pa pte = (if pte AND PTE_P = 0 then NOT 0 else PTE_ADDR pte)"

lemma va2pa_entry:
  assumes ok: "kdir_ok m d" and s: "kslot (PDX va)"
  shows "check_va2pa d va m = Some (va2pa (entry m d (PGNUM va)))"
proof (cases "table m d (PDX va)")
  case None
  then have "frames m d (PDX va) = 0" by (simp add: table_def split: if_splits)
  then show ?thesis using None by (simp add: check_va2pa_def entry_pte va2pa_def)
next
  case (Some t)
  note k = kdir_okD(5) [OF ok s Some]
  have p: "frames m d (PDX va) = page2pa t OR PTE_P OR PTE_W OR PTE_U" "t < npages m" using k by auto
  have "PGNUM (frames m d (PDX va)) = t" using Some by (auto simp: table_def split: if_splits)
  moreover from this obtain y where "KADDR m (PTE_ADDR (frames m d (PDX va))) = Some y" "PADDR y = Some (PTE_ADDR (frames m d (PDX va)))"
    using kaddr_frame [of m "frames m d (PDX va)"] kdir_okD(2) [OF ok] p(2) by (auto simp: bind_eq_Some_conv)
  ultimately show ?thesis using Some pde_bits [of t] p(1)
    by (simp add: check_va2pa_def entry_pte va2pa_def pte_at_def Let_def)
qed

definition aligned :: "u32w \<Rightarrow> bool" where
  "aligned pa \<longleftrightarrow> unat pa mod 4096 = 0"

lemma aligned_word: "aligned (word_of_nat (k * 4096))"
proof -
  have "unat (word_of_nat N :: u32w) mod 4096 = N mod 4096" for N
    by (simp add: unsigned_of_nat take_bit_eq_mod mod_mod_cancel)
  then show ?thesis unfolding aligned_def by (metis mod_mult_self2_is_0)
qed

lemma aligned_add: "aligned pa \<Longrightarrow> aligned (pa + word_of_nat (j * 4096))"
proof -
  assume "aligned pa"
  then have "unat pa div 4096 * 4096 = unat pa" by (simp add: aligned_def mod_0_imp_dvd)
  moreover have "pa = word_of_nat (unat pa)" by simp
  ultimately have "pa = word_of_nat (unat pa div 4096 * 4096)" by simp
  then have "pa + word_of_nat (j * 4096) = word_of_nat ((unat pa div 4096 + j) * 4096)"
    by (metis add_mult_distrib of_nat_add)
  then show ?thesis by (simp only: aligned_word)
qed

lemma PTE_ADDR_aligned: "aligned x \<Longrightarrow> perm_bits p \<Longrightarrow> PTE_ADDR (x OR p) = x"
proof -
  assume a: "aligned x" "perm_bits p"
  have "unat (take_bit 12 x) = 0" using a(1) by (simp add: aligned_def take_bit_eq_mod unat_mod_distrib)
  then have "take_bit 12 x = 0" by (simp only: unat_eq_0)
  then have x: "\<not> bit x n" if "n < 12" for n using that by (metis bit_take_bit_iff bit_0_eq bot_apply bot_bool_def)
  have p: "\<not> bit p n" if "12 \<le> n" for n
  proof -
    have "\<not> bit (drop_bit 12 p) (n - 12)" using a(2) by (simp add: perm_bits_def)
    then show ?thesis using that by (simp add: bit_drop_bit_eq)
  qed
  have "PTE_ADDR (x OR p) = (x OR p) AND NOT (mask 12)" by (simp add: PTE_ADDR_def mask_12)
  also have "\<dots> = x"
  proof (rule bit_word_eqI)
    fix n assume "n < LENGTH(32)"
    then show "bit ((x OR p) AND NOT (mask 12)) n \<longleftrightarrow> bit x n" using x [of n] p [of n]
      by (cases "n < 12") (simp_all add: bit_simps)
  qed
  finally show ?thesis .
qed

lemma region_pte_bits: "region_pte pa perm j AND PTE_P \<noteq> 0"
proof -
  have "bit (region_pte pa perm j AND PTE_P) 0" by (simp add: region_pte_def bit_simps pte_bits)
  then show ?thesis by (metis bit_0_eq bot_apply bot_bool_def)
qed

lemma region_pte_addr:
  assumes "aligned pa" and "perm_bits perm"
  shows "PTE_ADDR (region_pte pa perm j) = pa + word_of_nat (j * 4096)"
proof -
  have "aligned (pa + word_of_nat (j * 4096))" by (rule aligned_add [OF assms(1)])
  moreover have "perm_bits (perm OR PTE_P)" using assms(2) by (simp add: perm_bits_or)
  ultimately show ?thesis using PTE_ADDR_aligned [of "pa + word_of_nat (j * 4096)" "perm OR PTE_P"]
    by (simp add: region_pte_def or.assoc)
qed

section \<open>The checks of the kernel's map\<close>

lemma va2pa_region: "aligned pa \<Longrightarrow> perm_bits perm \<Longrightarrow> va2pa (region_pte pa perm j) = pa + word_of_nat (j * 4096)"
  using region_pte_bits region_pte_addr by (simp add: va2pa_def del: of_nat_mult)

lemma va2pa_0: "va2pa 0 = NOT 0"
  by (simp add: va2pa_def)

lemma check_range_ok:
  assumes "kdir_ok m d" and "unat va = p * 4096"
  shows "\<forall>j\<in>set js. p + j < 0x100000 \<and> kslot ((p + j) div 1024) \<and> va2pa (entry m d (p + j)) = f (word_of_nat (j * 4096))
    \<Longrightarrow> check_range d va f js m = Some ()"
proof (induction js)
  case (Cons j js)
  have fits: "unat va + j * 4096 < 2 ^ 32" using Cons.prems assms(2) by simp
  have pg: "PGNUM (va + word_of_nat (j * 4096)) = p + j" using PGNUM_offset [OF fits] assms(2) by (simp add: PGNUM_nat)
  moreover from this have "PDX (va + word_of_nat (j * 4096)) = (p + j) div 1024" by (simp add: PDX_nat)
  ultimately have "check_va2pa d (va + word_of_nat (j * 4096)) m = Some (va2pa (entry m d (p + j)))"
    using va2pa_entry [OF assms(1), of "va + word_of_nat (j * 4096)"] Cons.prems pg by (simp del: of_nat_mult)
  moreover have "word_of_nat j * PGSIZE = word_of_nat (j * 4096)" by (simp add: PGSIZE_def)
  ultimately show ?case using Cons by (simp add: Let_def assert_def del: of_nat_mult)
qed simp

lemma check_region_ok:
  assumes "kdir_ok m d" and "unat va = p * 4096" and "aligned pa" and "perm_bits perm"
    and "\<And>j. j < n \<Longrightarrow> p + j < 0x100000 \<and> kslot ((p + j) div 1024) \<and> entry m d (p + j) = region_pte pa perm j"
  shows "check_range d va (\<lambda>i. pa + i) [0..<n] m = Some ()"
  by (rule check_range_ok [OF assms(1,2)]) (use assms(5) va2pa_region [OF assms(3,4)] in \<open>simp del: of_nat_mult\<close>)

lemma region_slots:
  "j < 128 \<Longrightarrow> pages_page + j < 0x100000 \<and> kslot ((pages_page + j) div 1024)"
  "j < 33 \<Longrightarrow> envs_page + j < 0x100000 \<and> kslot ((envs_page + j) div 1024)"
  "j < 0x10000 \<Longrightarrow> base_page + j < 0x100000 \<and> kslot ((base_page + j) div 1024)"
  using slot_range [of 956 "pages_page + j" 957] slot_range [of 955 "envs_page + j" 956] slot_range [of 960 "base_page + j" 1024]
  by (auto simp: layout_pages kslot_def)

lemma array_size: "n \<le> 0x10000 \<Longrightarrow> unat (ROUNDUP (word_of_nat n * SIZEOF_PageInfo) PGSIZE div PGSIZE) = array_pages n"
  using pages_size(1) [of n] by (simp add: unat_div array_pages_def PGSIZE_def)

lemma envs_array_size: "unat (ROUNDUP (word_of_nat NENV * SIZEOF_Env) PGSIZE div PGSIZE) = 33"
  using envs_size by (simp add: unat_div PGSIZE_def)

lemma array_pages_le: "n \<le> 0x10000 \<Longrightarrow> array_pages n \<le> 128"
  by (simp add: array_pages_def)

lemma kernel_map_regions:
  assumes "n \<le> 128"
  shows "j < n \<Longrightarrow> kernel_map n pp pe ps (pages_page + j) = region_pte pp (PTE_U OR PTE_P) j"
    "j < 33 \<Longrightarrow> kernel_map n pp pe ps (envs_page + j) = region_pte pe (PTE_U OR PTE_P) j"
    "kernel_map n pp pe ps (base_page + j) = region_pte 0 (PTE_W OR PTE_P) j"
  using assms by (auto simp: kernel_map_def layout_pages)

text \<open>A stack and the guard pages below it.\<close>

lemma kernel_map_stacks:
  assumes "i < NCPU" and "n \<le> 128" and "j < 8"
  shows "kernel_map n pp pe ps (base_page - 16 * i - 8 + j) = region_pte (ps + word_of_nat i * KSTKSIZE) (PTE_W OR PTE_P) j"
    "kernel_map n pp pe ps (base_page - 16 * (i + 1) + j) = 0"
proof -
  obtain x where x: "base_page = x + 16 * (i + 1)" "0xEFF8 * 16 \<le> x" "x mod 16 = 0"
  proof
    show "base_page = (base_page - 16 * (i + 1)) + 16 * (i + 1)" "0xEFF8 * 16 \<le> base_page - 16 * (i + 1)"
      using assms(1) by (simp_all add: layout_pages NCPU_def)
    have "base_page - 16 * (i + 1) = 16 * (0xF000 - (i + 1))" using assms(1) by (simp add: layout_pages NCPU_def diff_mult_distrib2)
    then show "(base_page - 16 * (i + 1)) mod 16 = 0" by simp
  qed
  have v: "stacks_page \<le> x + y \<and> x + y < base_page \<and> (x + y) mod 16 = y \<and> (base_page - 1 - (x + y)) div 16 = i"
    if "y < 16" for y
  proof -
    have "(x + y) mod 16 = y" using x(3) that by (simp add: mod_add_eq [symmetric, of x])
    moreover have "base_page - 1 - (x + y) = 16 * i + (15 - y)" using x(1) that by simp
    ultimately show ?thesis using x that by (simp add: layout_pages)
  qed
  have outside: "\<not> x + y < pages_page + n" "\<not> x + y < envs_page + 33" for y using x(2) assms(2) by (auto simp: layout_pages)
  have m: "kernel_map n pp pe ps (x + y) = (if 8 \<le> y then region_pte (ps + word_of_nat i * KSTKSIZE) (PTE_W OR PTE_P) (y - 8) else 0)"
    if "y < 16" for y
    using v [OF that] outside [of y] assms(1) by (simp add: kernel_map_def stacks_map_def)
  have e: "base_page - 16 * i - 8 + j = x + (8 + j)" "base_page - 16 * (i + 1) + j = x + j" using x(1) by simp_all
  show "kernel_map n pp pe ps (base_page - 16 * i - 8 + j) = region_pte (ps + word_of_nat i * KSTKSIZE) (PTE_W OR PTE_P) j"
    "kernel_map n pp pe ps (base_page - 16 * (i + 1) + j) = 0"
    unfolding e using m [of "8 + j"] m [of j] assms(3) by (simp_all del: add.assoc)
qed

lemma check_stacks_ok:
  assumes ok: "kdir_ok m d" and d: "d = kern_pgdir m" and n: "n \<le> 128" and ks: "KERNBASE \<le> kstacks" "unat kstacks + 0x40000 \<le> 2 ^ 32"
    and al: "aligned (kstacks - KERNBASE)"
    and map: "\<And>v. kslot (v div 1024) \<Longrightarrow> entry m d v = kernel_map n pp pe (kstacks - KERNBASE) v"
  shows "set is \<subseteq> {..<NCPU} \<Longrightarrow> check_stacks kstacks is m = Some ()"
proof (induction "is")
  case (Cons i "is")
  let ?base = "KSTACKTOP - (KSTKSIZE + KSTKGAP) * word_of_nat (i + 1)"
  let ?pa = "kstacks - KERNBASE + word_of_nat i * KSTKSIZE"
  have i: "i < NCPU" using Cons.prems by simp
  then have "i \<in> {0, 1, 2, 3, 4, 5, 6, 7}" by (auto simp: NCPU_def)
  then have b: "unat ?base = (base_page - 16 * (i + 1)) * 4096" "unat (?base + KSTKGAP) = (base_page - 16 * i - 8) * 4096"
    by (auto simp: layout layout_pages)
  have "aligned ?pa"
  proof -
    have "word_of_nat i * KSTKSIZE = word_of_nat ((i * 8) * 4096)" by (simp add: layout)
    then show ?thesis using aligned_add [OF al, of "i * 8"] by (simp only:)
  qed
  then have pte: "va2pa (region_pte ?pa (PTE_W OR PTE_P) j) = ?pa + word_of_nat (j * 4096)" for j
    by (rule va2pa_region) (simp add: perm_bits_or)
  have slot: "(base_page - 16 * i - 8 + j) div 1024 = 959" "(base_page - 16 * (i + 1) + j) div 1024 = 959" if "j < 8" for j
    using i that by (auto intro!: div_nat_eqI simp: layout_pages NCPU_def)
  have ent: "entry m d (base_page - 16 * i - 8 + j) = region_pte ?pa (PTE_W OR PTE_P) j"
    "entry m d (base_page - 16 * (i + 1) + j) = 0" if "j < 8" for j
    using map [of "base_page - 16 * i - 8 + j"] map [of "base_page - 16 * (i + 1) + j"] slot [OF that]
      kernel_map_stacks [OF i n that] by (simp_all add: kslot_def)
  have sz: "unat (KSTKSIZE div PGSIZE) = 8" "unat (KSTKGAP div PGSIZE) = 8" by (simp_all add: layout PGSIZE_def)
  have "check_range d (?base + KSTKGAP) (\<lambda>i. ?pa + i) [0..<8] m = Some ()"
    using b(2) by (rule check_range_ok [OF ok]) (use slot ent pte i in \<open>auto simp: kslot_def layout_pages simp del: of_nat_mult\<close>)
  moreover have "check_range d ?base (\<lambda>_. NOT 0) [0..<8] m = Some ()"
    using b(1) by (rule check_range_ok [OF ok]) (use slot ent va2pa_0 i in \<open>auto simp: kslot_def layout_pages simp del: of_nat_mult\<close>)
  ultimately show ?case using Cons stack_PADDR [OF ks i] d by (simp add: sz Let_def)
qed simp

section \<open>The whole check\<close>

text \<open>The kernel's directory before \<open>mem_init\<close> maps its regions: its tables are pages of their own and hold no
  entry, the virtual page table is there and so is the table that the check of the page functions left behind, no
  user entry is set, and there are pages for the tables still missing.\<close>

definition boot_ready :: "'a mem_scheme \<Rightarrow> bool" where
  "boot_ready m \<longleftrightarrow> kdir_ok m (kern_pgdir m) \<and> unmapped_kernel m (kern_pgdir m)
     \<and> (\<forall>s<PDX UENVS. frames m (kern_pgdir m) s = 0)
     \<and> frames m (kern_pgdir m) (PDX UVPT) AND PTE_P \<noteq> 0 \<and> table m (kern_pgdir m) (PDX MMIOBASE) \<noteq> None"

lemma slot_numbers: "PDX UENVS = 955" "PDX UPAGES = 956" "PDX UVPT = 957" "PDX MMIOBASE = 958" "PDX (KSTACKTOP - 1) = 959" "PDX KERNBASE = 960"
  by (simp_all add: PDX_nat PGNUM_nat layout)

lemma aligned_base: "KERNBASE \<le> kva \<Longrightarrow> aligned kva \<Longrightarrow> aligned (kva - KERNBASE)"
proof -
  assume a: "KERNBASE \<le> kva" "aligned kva"
  then have "unat (kva - KERNBASE) = unat kva - 0xF0000 * 4096" by (simp add: unat_sub layout)
  moreover have "4096 dvd unat kva" using a(2) by (simp add: aligned_def mod_0_imp_dvd)
  then have "4096 dvd unat kva - 0xF0000 * 4096" by (rule dvd_diff_nat) simp
  ultimately show ?thesis unfolding aligned_def by (simp only: dvd_imp_mod_0)
qed

lemma check_pdes_ok:
  assumes ok: "kdir_ok m d" and tabs: "\<forall>s. kslot s \<longrightarrow> table m d s \<noteq> None"
    and user: "\<forall>s<PDX UENVS. frames m d s = 0" and uvpt: "frames m d (PDX UVPT) AND PTE_P \<noteq> 0"
  shows "\<forall>i\<in>set [0..<NPDENTRIES]. check_pde i (frames m d i)"
proof
  fix i assume "i \<in> set [0..<NPDENTRIES]"
  then have i: "i < 1024" by (simp add: NPDENTRIES_def)
  show "check_pde i (frames m d i)"
  proof (cases "kslot i")
    case True
    then obtain t where "table m d i = Some t" using tabs by blast
    then have "frames m d i = page2pa t OR PTE_P OR PTE_W OR PTE_U" using kdir_okD(5) [OF ok True] by blast
    then have "frames m d i AND PTE_P \<noteq> 0" "frames m d i AND PTE_W \<noteq> 0" using pde_bits(1,2) [of t] by simp_all
    moreover have "i \<in> {955, 956, 958, 959} \<or> 960 \<le> i" using True by (auto simp: kslot_def)
    ultimately show ?thesis by (auto simp: check_pde_def slot_numbers)
  next
    case False
    then have "i < 955 \<or> i = 957" using i by (auto simp: kslot_def)
    then show ?thesis using user uvpt by (auto simp: check_pde_def slot_numbers)
  qed
qed

text \<open>All that the four mappings leave behind.\<close>

lemma map_kernel_ok:
  assumes "boot_ready m"
    and "KERNBASE \<le> pages_kva" "aligned pages_kva" "KERNBASE \<le> envs_kva" "aligned envs_kva"
    and "KERNBASE \<le> kstacks" "aligned kstacks" "unat kstacks + NCPU * unat KSTKSIZE \<le> 2 ^ 32"
  shows "\<exists>m'. map_kernel pages_kva envs_kva kstacks m = Some m' \<and> check_kern_pgdir pages_kva envs_kva kstacks m' = Some ()
    \<and> kdir_ok m' (kern_pgdir m) \<and> boot_same (kern_pgdir m) m m' \<and> (\<forall>s. kslot s \<longrightarrow> table m' (kern_pgdir m) s \<noteq> None)
    \<and> (\<forall>v. kslot (v div 1024) \<longrightarrow> entry m' (kern_pgdir m) v
        = kernel_map (array_pages (npages m)) (pages_kva - KERNBASE) (envs_kva - KERNBASE) (kstacks - KERNBASE) v)"
proof -
  let ?d = "kern_pgdir m" and ?n = "array_pages (npages m)" and ?pp = "pages_kva - KERNBASE" and ?pe = "envs_kva - KERNBASE"
  have r: "kdir_ok m ?d" "unmapped_kernel m ?d" using assms(1) by (simp_all add: boot_ready_def)
  have pa: "PADDR pages_kva = Some ?pp" "PADDR envs_kva = Some ?pe" using assms(2,4) by (simp_all add: PADDR_def)
  have ks: "unat kstacks + 0x40000 \<le> 2 ^ 32" using assms(8) by (simp add: NCPU_def layout)
  obtain m' where m': "map_kernel pages_kva envs_kva kstacks m = Some m'" "kdir_ok m' ?d" "boot_same ?d m m'"
    "\<And>s. kslot s \<Longrightarrow> s \<noteq> 958 \<Longrightarrow> table m' ?d s \<noteq> None"
    "\<And>v. kslot (v div 1024) \<Longrightarrow> entry m' ?d v = kernel_map ?n ?pp ?pe (kstacks - KERNBASE) v"
    using map_kernel_map [OF r(1) refl r(2) pa assms(6) ks] by blast
  have same: "kern_pgdir m' = ?d" "npages m' = npages m" "frames m' ?d s = frames m ?d s" if "\<not> kslot s" for s
    using m'(3) that by (auto simp: boot_same_def)
  have d': "kern_pgdir m' = ?d" "npages m' = npages m" using m'(3) by (auto simp: boot_same_def)
  have n: "npages m \<le> 0x10000" "?n \<le> 128" using kdir_okD(2) [OF r(1)] array_pages_le by auto
  note maps = kernel_map_regions [OF n(2)]
  have "table m' ?d 958 \<noteq> None" using m'(3) assms(1) by (auto simp: boot_ready_def boot_same_def slot_numbers)
  then have tabs: "\<forall>s. kslot s \<longrightarrow> table m' ?d s \<noteq> None" using m'(4) by metis
  have "check_range ?d UPAGES (\<lambda>i. ?pp + i) [0..<?n] m' = Some ()"
    by (rule check_region_ok [OF m'(2) fixed_pages(2) aligned_base [OF assms(2,3)]])
      (use m'(5) maps(1) region_slots(1) n(2) in \<open>auto simp: perm_bits_or\<close>)
  moreover have "check_range ?d UENVS (\<lambda>i. ?pe + i) [0..<33] m' = Some ()"
    by (rule check_region_ok [OF m'(2) fixed_pages(1) aligned_base [OF assms(4,5)]])
      (use m'(5) maps(2) region_slots(2) in \<open>auto simp: perm_bits_or\<close>)
  moreover have "check_range ?d KERNBASE (\<lambda>i. 0 + i) [0..<npages m] m' = Some ()"
    by (rule check_region_ok [OF m'(2) fixed_pages(3)])
      (use m'(5) maps(3) region_slots(3) n(1) in \<open>auto simp: perm_bits_or aligned_def\<close>)
  moreover have "check_stacks kstacks [0..<NCPU] m' = Some ()"
    by (rule check_stacks_ok [OF m'(2) d'(1) [symmetric] n(2) assms(6) ks aligned_base [OF assms(6,7)] m'(5)]) auto
  moreover have "\<forall>i\<in>set [0..<NPDENTRIES]. check_pde i (frames m' ?d i)"
  proof (rule check_pdes_ok [OF m'(2) tabs])
    show "\<forall>s<PDX UENVS. frames m' ?d s = 0" "frames m' ?d (PDX UVPT) AND PTE_P \<noteq> 0"
      using same assms(1) by (auto simp: boot_ready_def kslot_def slot_numbers)
  qed
  ultimately have "check_kern_pgdir pages_kva envs_kva kstacks m' = Some ()"
    using pa d' n by (simp add: check_kern_pgdir_def Let_def array_size envs_array_size assert_def)
  then show ?thesis using m'(1-3,5) tabs by blast
qed

text \<open>the kernel's address space is what \<open>check_kern_pgdir\<close> asks for: the four mappings of \<open>mem_init\<close>
  succeed, with the tables they allocate on the way, and every assertion of the check then holds - the arrays at
  \<open>UPAGES\<close> and \<open>UENVS\<close>, physical memory at \<open>KERNBASE\<close>, each CPU's stack with the guard pages below it
  unmapped, and the directory entries.\<close>

theorem map_kernel_checked:
  assumes "boot_ready m"
    and "KERNBASE \<le> pages_kva" "aligned pages_kva" "KERNBASE \<le> envs_kva" "aligned envs_kva"
    and "KERNBASE \<le> kstacks" "aligned kstacks" "unat kstacks + NCPU * unat KSTKSIZE \<le> 2 ^ 32"
  shows "\<exists>m'. map_kernel pages_kva envs_kva kstacks m = Some m' \<and> check_kern_pgdir pages_kva envs_kva kstacks m' = Some ()"
  using map_kernel_ok [OF assms] by blast

text \<open>A machine of one megabyte with its directory in page 2, one table, and pages 4 to 79 free.\<close>

definition boot_mem :: mem where
  "boot_mem = \<lparr>npages = 256, npages_basemem = 160, pp_ref = (\<lambda>_. 0),
     pp_link = (\<lambda>p. if 4 \<le> p \<and> p < 79 then Some (p + 1) else None), page_free_list = Some 4,
     frames = (\<lambda>_ _. 0)(2 := (\<lambda>_. 0)(957 := page2pa 2 OR PTE_U OR PTE_P, 958 := page2pa 3 OR PTE_P OR PTE_W OR PTE_U)),
     kern_pgdir = 2, curenv_pgdir = None, invalidated = [], user_mem_check_addr = 0, mmio_base = MMIOBASE, nextfree = 0xF0100000\<rparr>"

lemma chain_upt: "\<forall>p. x \<le> p \<and> Suc p < y \<longrightarrow> link p = Some (Suc p) \<Longrightarrow> \<forall>p. Suc p = y \<longrightarrow> link p = None \<Longrightarrow> x < y
    \<Longrightarrow> chain link (Some x) [x..<y]"
proof (induction "y - x" arbitrary: x)
  case (Suc k)
  then show ?case by (cases "Suc x < y") (auto simp: upt_conv_Cons)
qed simp

lemma boot_mem_alloc: "alloc_ok boot_mem" "free_pages boot_mem = [4..<80]"
proof -
  have "chain (pp_link boot_mem) (Some 4) [4..<80]" by (rule chain_upt) (auto simp: boot_mem_def)
  then have c: "chain (pp_link boot_mem) (page_free_list boot_mem) [4..<80]" by (simp add: boot_mem_def)
  have d: "distinct [4..<80 :: nat]" "p \<in> set [4..<80] \<longleftrightarrow> 4 \<le> p \<and> p < 80" for p :: nat by (simp_all del: upt_rec_numeral)
  show "alloc_ok boot_mem" "free_pages boot_mem = [4..<80]"
    by (rule alloc_okI [OF _ c d(1)]; (simp only: d(2))?; force simp: boot_mem_def)+
qed

lemma boot_mem_ready: "boot_ready boot_mem"
proof -
  note al = boot_mem_alloc
  have tab: "table boot_mem 2 s = (if s = 957 then Some 2 else if s = 958 then Some 3 else None)" for s
  proof -
    have "PGNUM (page2pa 2 OR PTE_U OR PTE_P) = 2" "page2pa 2 OR PTE_U OR PTE_P \<noteq> 0"
      by (simp_all add: page2pa_def pte_bits PGNUM_def)
    then show ?thesis using table_entry [of 3] by (simp add: table_def boot_mem_def)
  qed
  have "{s. kslot s \<and> table boot_mem 2 s = None} \<subseteq> {955, 956, 959} \<union> {960..<1024}" by (auto simp: kslot_def tab)
  then have "card {s. kslot s \<and> table boot_mem 2 s = None} \<le> card ({955, 956, 959} \<union> {960..<1024::nat})" by (intro card_mono) simp_all
  also have "\<dots> \<le> card {955, 956, 959 :: nat} + card {960..<1024 :: nat}" by (rule card_Un_le)
  finally have card: "card {s. kslot s \<and> table boot_mem 2 s = None} \<le> length (free_pages boot_mem)" by (simp add: al(2))
  have one: "kslot s \<Longrightarrow> table boot_mem 2 s = Some t \<Longrightarrow> s = 958 \<and> t = 3" for s t by (auto simp: tab kslot_def split: if_splits)
  have f: "npages boot_mem = 256" "frames boot_mem 2 958 = page2pa 3 OR PTE_P OR PTE_W OR PTE_U" by (simp_all add: boot_mem_def)
  define free where "free = [4..<80 :: nat]"
  have "2 \<notin> set free" "3 \<notin> set free" by (simp_all add: free_def)
  then have "kdir_ok boot_mem 2"
    unfolding kdir_ok_def using al(1) card f unfolding al(2) free_def [symmetric] by (auto dest: one)
  moreover have "unmapped_kernel boot_mem 2"
  proof -
    have "frames boot_mem 3 x = 0" for x by (simp add: boot_mem_def)
    then show ?thesis by (auto simp: unmapped_kernel_def entry_def tab kslot_def)
  qed
  moreover have "(page2pa 2 OR PTE_U OR PTE_P) AND PTE_P \<noteq> 0" by (simp add: page2pa_def pte_bits)
  moreover have "kern_pgdir boot_mem = 2" by (simp add: boot_mem_def)
  moreover have "\<forall>s<PDX UENVS. frames boot_mem 2 s = 0" "frames boot_mem 2 (PDX UVPT) = page2pa 2 OR PTE_U OR PTE_P"
    by (auto simp: slot_numbers boot_mem_def)
  ultimately show ?thesis unfolding boot_ready_def by (simp add: tab slot_numbers)
qed

theorem map_kernel_checked_witness:
  "\<exists>m'. map_kernel 0xF0120000 0xF0130000 0xF0140000 boot_mem = Some m' \<and> check_kern_pgdir 0xF0120000 0xF0130000 0xF0140000 m' = Some ()"
  by (rule map_kernel_checked [OF boot_mem_ready]) (simp_all add: layout aligned_def NCPU_def)

end
