(* ===== verification/Kern_Check_Lists.thy ===== *)
theory Kern_Check_Lists
  imports Kern_Checks Kern_Boot_Checks
begin

text \<open>
  The checks of the free list and of the allocator pass on a well-formed allocator, and leave it as it was but
  for the order of the free list and the contents of free pages.
\<close>

section \<open>What a check leaves alone\<close>

definition same_rest :: "'a mem_scheme \<Rightarrow> 'a mem_scheme \<Rightarrow> bool" where
  "same_rest m m' \<longleftrightarrow> npages m' = npages m \<and> kern_pgdir m' = kern_pgdir m \<and> curenv_pgdir m' = curenv_pgdir m
     \<and> mmio_base m' = mmio_base m \<and> nextfree m' = nextfree m \<and> mem.more m' = mem.more m"

definition checked :: "'a mem_scheme \<Rightarrow> 'a mem_scheme \<Rightarrow> bool" where
  "checked m m' \<longleftrightarrow> same_rest m m' \<and> alloc_ok m' \<and> set (free_pages m') = set (free_pages m) \<and> pp_ref m' = pp_ref m
     \<and> (\<forall>p. p \<notin> set (free_pages m) \<longrightarrow> frames m' p = frames m p)"

lemma checked_trans: "checked m m' \<Longrightarrow> checked m' m'' \<Longrightarrow> checked m m''"
  by (simp add: checked_def same_rest_def)

lemma alloc_okD:
  assumes "alloc_ok m"
  shows "npages m \<le> 0x10000" "chain (pp_link m) (page_free_list m) (free_pages m)" "distinct (free_pages m)"
    "\<And>p. p \<in> set (free_pages m) \<Longrightarrow> p < npages m" "\<And>p. p \<in> set (free_pages m) \<Longrightarrow> pp_ref m p = 0"
    "\<And>p. p \<notin> set (free_pages m) \<Longrightarrow> pp_link m p = None"
  using assms by (auto simp: alloc_ok_def)

lemma checkedI:
  assumes "alloc_ok m" and "same_rest m m'" and "chain (pp_link m') (page_free_list m') xs" and "distinct xs"
    and "set xs = set (free_pages m)" and "pp_ref m' = pp_ref m" and "\<And>p. p \<notin> set (free_pages m) \<Longrightarrow> pp_link m' p = pp_link m p"
    and "\<And>p. p \<notin> set (free_pages m) \<Longrightarrow> frames m' p = frames m p"
  shows "checked m m'" "free_pages m' = xs"
proof -
  note a = alloc_okD [OF assms(1)]
  have n: "npages m' = npages m" using assms(2) by (simp add: same_rest_def)
  have "alloc_ok m'" "free_pages m' = xs"
    by (rule alloc_okI [OF _ assms(3,4)]; use a n assms(5-7) in auto)+
  then show "checked m m'" "free_pages m' = xs" using assms by (simp_all add: checked_def)
qed

section \<open>Splitting the list\<close>

fun seg :: "(nat \<Rightarrow> nat option) \<Rightarrow> nat option \<Rightarrow> nat list \<Rightarrow> bool" where
  "seg link p [] \<longleftrightarrow> True"
| "seg link p (x # xs) \<longleftrightarrow> p = Some x \<and> seg link (link x) xs"

text \<open>A list that ends where the next element is to be put.\<close>

definition open_list :: "(nat \<Rightarrow> nat option) \<Rightarrow> (bool \<Rightarrow> nat option) \<Rightarrow> bool \<Rightarrow> nat list \<Rightarrow> slot \<Rightarrow> bool" where
  "open_list link vars t xs s \<longleftrightarrow> s = (if xs = [] then Var t else Link (last xs)) \<and> seg link (vars t) xs"

lemma seg_cong: "(\<And>x. x \<in> set (butlast xs) \<Longrightarrow> link' x = link x) \<Longrightarrow> seg link' p xs = seg link p xs"
proof (induction xs arbitrary: p)
  case (Cons x xs)
  then show ?case by (cases xs) auto
qed simp

lemma seg_end: "seg link p xs \<Longrightarrow> distinct xs \<Longrightarrow> xs \<noteq> [] \<Longrightarrow> chain link' v ys \<Longrightarrow> link' (last xs) = v
    \<Longrightarrow> (\<And>x. x \<in> set (butlast xs) \<Longrightarrow> link' x = link x) \<Longrightarrow> chain link' p (xs @ ys)"
proof (induction xs arbitrary: p)
  case (Cons x xs)
  then show ?case by (cases xs) auto
qed simp

lemma seg_snoc: "seg link p xs \<Longrightarrow> distinct xs \<Longrightarrow> xs \<noteq> [] \<Longrightarrow> link' (last xs) = Some y
    \<Longrightarrow> (\<And>x. x \<in> set (butlast xs) \<Longrightarrow> link' x = link x) \<Longrightarrow> seg link' p (xs @ [y])"
proof (induction xs arbitrary: p)
  case (Cons x xs)
  then show ?case by (cases xs) auto
qed simp

lemma put_slot_frame:
  assumes "open_list (pp_link m) vars t xs s" and "put_slot s v vars m = (vars', m')"
  shows "vars' (\<not> t) = vars (\<not> t)" "\<And>p. p \<notin> set xs \<Longrightarrow> pp_link m' p = pp_link m p"
    "m' = m\<lparr>pp_link := pp_link m'\<rparr>"
  using assms by (auto simp: open_list_def split: if_splits)

lemma not_last: "distinct xs \<Longrightarrow> x \<in> set (butlast xs) \<Longrightarrow> x \<noteq> last xs"
  by (cases xs rule: rev_cases) auto

lemma put_slot_snoc:
  assumes "open_list (pp_link m) vars t xs s" and "distinct xs" and "put_slot s (Some p) vars m = (vars', m')"
  shows "open_list (pp_link m') vars' t (xs @ [p]) (Link p)"
proof (cases "xs = []")
  case True
  then show ?thesis using assms by (auto simp: open_list_def)
next
  case False
  then have "seg (pp_link m') (vars t) (xs @ [p])" using assms
    by (intro seg_snoc [of "pp_link m"]) (auto simp: open_list_def dest: not_last)
  then show ?thesis using assms False by (auto simp: open_list_def)
qed

lemma put_slot_close:
  assumes "open_list (pp_link m) vars t xs s" and "distinct xs" and "put_slot s v vars m = (vars', m')"
    and "chain (pp_link m) v ys" and "set xs \<inter> set ys = {}"
  shows "chain (pp_link m') (vars' t) (xs @ ys)"
proof (cases "xs = []")
  case True
  then show ?thesis using assms by (auto simp: open_list_def)
next
  case False
  have "chain (pp_link m') v ys"
    using assms(4,5) put_slot_frame(2) [OF assms(1,3)] by (subst chain_cong [of _ _ "pp_link m"]) auto
  then have "chain (pp_link m') (vars t) (xs @ ys)" using assms False
    by (intro seg_end [of "pp_link m"]) (auto simp: open_list_def dest: not_last)
  then show ?thesis using assms False by (auto simp: open_list_def)
qed

lemma open_list_other:
  assumes "open_list (pp_link m) vars t xs s" and "open_list (pp_link m) vars (\<not> t) ys u" and "set xs \<inter> set ys = {}"
    and "put_slot s v vars m = (vars', m')"
  shows "open_list (pp_link m') vars' (\<not> t) ys u"
proof -
  have "seg (pp_link m') (vars (\<not> t)) ys = seg (pp_link m) (vars (\<not> t)) ys"
    using put_slot_frame(2) [OF assms(1,4)] assms(3) by (intro seg_cong) (auto dest: in_set_butlastD)
  then show ?thesis using assms(2) put_slot_frame(1) [OF assms(1,4)] by (simp add: open_list_def)
qed

lemma split_loop_lists:
  assumes "chain (pp_link m) pp xs" and "distinct (xs @ L False @ L True)"
    and "\<And>t. open_list (pp_link m) vars t (L t) (tp t)"
  shows "\<exists>tp' vars' m'. split_loop lim pp tp vars m = Some (tp', vars', m')
    \<and> (\<forall>t. open_list (pp_link m') vars' t (L t @ filter (\<lambda>p. (PDX (page2pa p) \<ge> lim) = t) xs) (tp' t))
    \<and> m' = m\<lparr>pp_link := pp_link m'\<rparr> \<and> (\<forall>p. p \<notin> set (xs @ L False @ L True) \<longrightarrow> pp_link m' p = pp_link m p)"
  using assms
proof (induction xs arbitrary: pp tp vars m L)
  case Nil
  then show ?case by (subst split_loop.simps) auto
next
  case (Cons p xs)
  define t where "t = (PDX (page2pa p) \<ge> lim)"
  obtain vars1 m1 where put: "put_slot (tp t) (Some p) vars m = (vars1, m1)" by force
  define L1 where "L1 = L(t := L t @ [p])"
  have dt: "distinct (L t)" "set (L t) \<inter> set (L (\<not> t)) = {}" using Cons.prems(2) by (cases t; auto)+
  note f = put_slot_frame [OF Cons.prems(3) put]
  have "chain (pp_link m) (pp_link m p) xs" "pp = Some p" using Cons.prems(1) by auto
  moreover have "pp_link m1 x = pp_link m x" if "x \<in> set (p # xs)" for x
    using f(2) [of x] Cons.prems(2) that by (cases t) auto
  ultimately have ch: "chain (pp_link m1) (pp_link m1 p) xs"
    using chain_cong [of xs "pp_link m1" "pp_link m" "pp_link m p"] by simp
  have d1: "distinct (xs @ L1 False @ L1 True)" using Cons.prems(2) by (cases t) (auto simp: L1_def)
  have o1: "open_list (pp_link m1) vars1 u (L1 u) ((tp(t := Link p)) u)" for u
  proof (cases "u = t")
    case True
    then show ?thesis using put_slot_snoc [OF Cons.prems(3) dt(1) put] by (simp add: L1_def)
  next
    case False
    then have "u = (\<not> t)" by auto
    then show ?thesis using open_list_other [OF Cons.prems(3) Cons.prems(3) dt(2) put] by (auto simp: L1_def)
  qed
  have step: "split_loop lim pp tp vars m = split_loop lim (pp_link m1 p) (tp(t := Link p)) vars1 m1"
    using put \<open>pp = Some p\<close> by (subst split_loop.simps) (simp add: Let_def flip: t_def)
  obtain tp' vars' m' where IH: "split_loop lim (pp_link m1 p) (tp(t := Link p)) vars1 m1 = Some (tp', vars', m')"
    "\<forall>u. open_list (pp_link m') vars' u (L1 u @ filter (\<lambda>p. (PDX (page2pa p) \<ge> lim) = u) xs) (tp' u)"
    "m' = m1\<lparr>pp_link := pp_link m'\<rparr>" "\<forall>x. x \<notin> set (xs @ L1 False @ L1 True) \<longrightarrow> pp_link m' x = pp_link m1 x"
    using Cons.IH [OF ch d1 o1] by blast
  have "L1 u @ filter (\<lambda>p. (PDX (page2pa p) \<ge> lim) = u) xs = L u @ filter (\<lambda>p. (PDX (page2pa p) \<ge> lim) = u) (p # xs)" for u
    by (simp add: L1_def flip: t_def)
  moreover have "m' = m\<lparr>pp_link := pp_link m'\<rparr>" by (subst IH(3), subst f(3)) simp
  moreover have "pp_link m' x = pp_link m x" if "x \<notin> set ((p # xs) @ L False @ L True)" for x
    using IH(4) f(2) [of x] that by (cases t) (auto simp: L1_def split: if_splits)
  ultimately show ?case using IH(1,2) step by auto
qed

lemma split_free_list_ok:
  assumes "alloc_ok m"
  shows "\<exists>m'. split_free_list lim m = Some m' \<and> checked m m' \<and> frames m' = frames m
    \<and> free_pages m' = filter (\<lambda>p. PDX (page2pa p) < lim) (free_pages m) @ filter (\<lambda>p. PDX (page2pa p) \<ge> lim) (free_pages m)"
proof -
  note a = alloc_okD [OF assms]
  let ?lo = "filter (\<lambda>p. PDX (page2pa p) < lim) (free_pages m)" and ?hi = "filter (\<lambda>p. PDX (page2pa p) \<ge> lim) (free_pages m)"
  have "distinct (free_pages m @ (\<lambda>_. []) False @ (\<lambda>_. []) True)" "\<And>t. open_list (pp_link m) (\<lambda>_. None) t ((\<lambda>_. []) t) (Var t)"
    using a(3) by (simp_all add: open_list_def)
  from split_loop_lists [OF a(2) this, of lim] obtain tp vars m1 where
    m1: "split_loop lim (page_free_list m) Var (\<lambda>_. None) m = Some (tp, vars, m1)"
      "\<And>t. open_list (pp_link m1) vars t (filter (\<lambda>p. (PDX (page2pa p) \<ge> lim) = t) (free_pages m)) (tp t)"
      "m1 = m\<lparr>pp_link := pp_link m1\<rparr>" "\<And>p. p \<notin> set (free_pages m) \<Longrightarrow> pp_link m1 p = pp_link m p" by auto
  have o: "open_list (pp_link m1) vars True ?hi (tp True)" "open_list (pp_link m1) vars False ?lo (tp False)"
    using m1(2) [of True] m1(2) [of False] by (simp_all add: not_le)
  have d: "distinct ?hi" "distinct ?lo" "set ?hi \<inter> set ?lo = {}" "distinct (?lo @ ?hi)" using a(3) by auto
  obtain vars2 m2 where p2: "put_slot (tp True) None vars m1 = (vars2, m2)" by force
  have c2: "chain (pp_link m2) (vars2 True) ?hi" using put_slot_close [OF o(1) d(1) p2, of "[]"] by simp
  have o2: "open_list (pp_link m2) vars2 False ?lo (tp False)" using open_list_other [OF o(1) _ d(3) p2] o(2) by simp
  obtain vars3 m3 where p3: "put_slot (tp False) (vars2 True) vars2 m2 = (vars3, m3)" by force
  have c3: "chain (pp_link m3) (vars3 False) (?lo @ ?hi)" using put_slot_close [OF o2 d(2) p3 c2] d(3) by auto
  let ?m = "m3\<lparr>page_free_list := vars3 False\<rparr>"
  note f2 = put_slot_frame [OF o(1) p2] and f3 = put_slot_frame [OF o2 p3]
  have m3: "m3 = m\<lparr>pp_link := pp_link m3\<rparr>" by (subst f3(3), subst f2(3), subst m1(3)) simp
  have link: "pp_link m3 p = pp_link m p" if "p \<notin> set (free_pages m)" for p
    using f3(2) [of p] f2(2) [of p] m1(4) that by simp
  have same: "same_rest m ?m" "pp_ref ?m = pp_ref m" "frames ?m = frames m" by (subst m3, simp add: same_rest_def)+
  have "checked m ?m" "free_pages ?m = ?lo @ ?hi"
    by (rule checkedI [OF assms same(1) _ d(4)]; use c3 same link in auto)+
  moreover have "split_free_list lim m = Some ?m" using m1(1) p2 p3 by (simp add: split_free_list_def Let_def)
  ultimately show ?thesis using same(3) by blast
qed

section \<open>Walking the list\<close>

lemma spoil_loop_ok:
  assumes "chain (pp_link m) pp xs" and "\<And>p. p \<in> set xs \<Longrightarrow> p < npages m" and "npages m \<le> 0x10000"
  shows "\<exists>f. spoil_loop lim pp m = Some (m\<lparr>frames := f\<rparr>) \<and> (\<forall>p. p \<notin> set xs \<longrightarrow> f p = frames m p)"
  using assms
proof (induction xs arbitrary: pp m)
  case Nil
  then show ?case by (intro exI [of _ "frames m"]) (subst spoil_loop.simps, simp)
next
  case (Cons p xs)
  define g where "g = (if PDX (page2pa p) < lim then frames (fill_words p 32 0x97979797 m) else frames m)"
  have "page2kva m p \<noteq> None" using Cons.prems(2) [of p] Cons.prems(3) by (simp add: page2kva_def KADDR_def PGNUM_page2pa)
  moreover have "fill_words p 32 0x97979797 m = m\<lparr>frames := frames (fill_words p 32 0x97979797 m)\<rparr>" by (simp add: fill_words_def)
  ultimately have step: "spoil_loop lim pp m = spoil_loop lim (pp_link m p) (m\<lparr>frames := g\<rparr>)"
    using Cons.prems(1) by (subst spoil_loop.simps) (auto simp: g_def)
  have "\<exists>f. spoil_loop lim (pp_link m p) (m\<lparr>frames := g\<rparr>) = Some (m\<lparr>frames := g\<rparr>\<lparr>frames := f\<rparr>)
      \<and> (\<forall>x. x \<notin> set xs \<longrightarrow> f x = frames (m\<lparr>frames := g\<rparr>) x)"
    by (rule Cons.IH) (use Cons.prems in auto)
  moreover have "g x = frames m x" if "x \<noteq> p" for x using that by (simp add: g_def fill_words_def)
  ultimately show ?case using step by auto
qed

lemma count_free_ok:
  assumes "chain (pp_link m) pp xs" and "\<And>p. p \<in> set xs \<Longrightarrow> check_free_page first p m = Some ()"
  shows "count_free first pp b e m = Some (b + length (filter (\<lambda>p. page2pa p < EXTPHYSMEM) xs), e + length (filter (\<lambda>p. \<not> page2pa p < EXTPHYSMEM) xs))"
  using assms
proof (induction xs arbitrary: pp b e)
  case Nil
  then show ?case by (subst count_free.simps) simp
next
  case (Cons p xs)
  have IH: "count_free first (pp_link m p) b e m
      = Some (b + length (filter (\<lambda>p. page2pa p < EXTPHYSMEM) xs), e + length (filter (\<lambda>p. \<not> page2pa p < EXTPHYSMEM) xs))" for b e
    by (rule Cons.IH) (use Cons.prems in auto)
  show ?case using Cons.prems by (subst count_free.simps) (simp add: IH)
qed

lemma count_pages_ok: "chain (pp_link m) pp xs \<Longrightarrow> count_pages pp n m = Some (n + length xs)"
proof (induction xs arbitrary: pp n)
  case Nil
  then show ?case by (subst count_pages.simps) simp
next
  case (Cons p xs)
  then show ?case by (subst count_pages.simps) simp
qed

section \<open>The free list\<close>

text \<open>The addresses \<open>boot_alloc\<close> gave out end on a page boundary, within memory and above the kernel's load address.\<close>

definition boot_end :: "'a mem_scheme \<Rightarrow> nat \<Rightarrow> bool" where
  "boot_end m first \<longleftrightarrow> unat (nextfree m) = unat KERNBASE + first * 4096 \<and> PGNUM EXTPHYSMEM < first \<and> first < npages m
     \<and> npages m \<le> 0x10000"

lemma boot_alloc_zero:
  assumes "boot_end m first"
  shows "boot_alloc end_sym 0 m = Some (nextfree m, m)"
proof -
  have n: "unat (nextfree m) = 0xF0000000 + first * 4096" "first < npages m" "npages m \<le> 0x10000"
    using assms by (auto simp: boot_end_def layout)
  then have ge: "KERNBASE \<le> nextfree m" by (simp add: word_le_nat_alt layout)
  then have last: "unat (nextfree m - KERNBASE) = first * 4096" using n by (simp add: unat_sub layout)
  have "unat (PGSIZE * word_of_nat (npages m)) = npages m * 4096 mod 2 ^ 32"
    by (simp add: PGSIZE_def unat_word_ariths unsigned_of_nat take_bit_eq_mod mod_mult_right_eq mult.commute)
  moreover have "npages m * 4096 < 2 ^ 32" using n by simp
  ultimately have "nextfree m - KERNBASE < PGSIZE * word_of_nat (npages m)" using last n by (simp add: word_less_nat_alt)
  moreover have "KADDR m (nextfree m - KERNBASE) = Some (nextfree m)" using last n by (simp add: KADDR_def PGNUM_nat)
  moreover have "ROUNDUP (nextfree m) PGSIZE = nextfree m"
  proof -
    have "unat (ROUNDUP (nextfree m) PGSIZE) = unat (nextfree m)" using n by (subst ROUNDUP_nat) simp_all
    then show ?thesis by (simp only: word_unat_eq_iff)
  qed
  moreover have "nextfree m \<noteq> 0" using n by auto
  ultimately show ?thesis using ge by (simp add: boot_alloc_def PADDR_def Let_def not_le not_less)
qed

lemma unat_page2pa: "p < 0x100000 \<Longrightarrow> unat (page2pa p) = p * 4096"
  by (simp add: page2pa_def push_bit_eq_mult unat_word_ariths unsigned_of_nat take_bit_eq_mod mod_mult_left_eq mult.commute)

lemma page2pa_less: "p < 0x100000 \<Longrightarrow> page2pa p < EXTPHYSMEM \<longleftrightarrow> p < 0x100"
  by (simp add: word_less_nat_alt unat_page2pa layout)

lemma check_free_page_ok:
  assumes "boot_end m first" and "p < npages m" and "\<not> page_reserved first p"
  shows "check_free_page (nextfree m) p m = Some ()"
proof -
  have p: "p < 0x10000" using assms by (simp add: boot_end_def)
  then have u: "unat (page2pa p) = p * 4096" by (simp add: unat_page2pa)
  have r: "p \<noteq> 0" "p \<noteq> 7" "p < 0xA0 \<or> 0x100 \<le> p" "p < 0x100 \<or> first \<le> p" "0x100 < first"
    using assms by (auto simp: page_reserved_def PGNUM_nat layout boot_end_def)
  have ne: "page2pa p \<noteq> 0" "page2pa p \<noteq> IOPHYSMEM" "page2pa p \<noteq> EXTPHYSMEM - PGSIZE" "page2pa p \<noteq> EXTPHYSMEM" "page2pa p \<noteq> MPENTRY_PADDR"
    using u r by (auto simp: word_unat_eq_iff layout)
  have "\<exists>kva. page2kva m p = Some kva \<and> nextfree m \<le> kva" if "0x100 \<le> p"
  proof -
    have "unat (page2pa p + KERNBASE) = p * 4096 + 0xF0000000"
      using p u by (subst unat_add_lem [THEN iffD1]) (simp_all add: layout)
    moreover have "unat (nextfree m) = 0xF0000000 + first * 4096" using assms(1) by (simp add: boot_end_def layout)
    ultimately have "nextfree m \<le> page2pa p + KERNBASE" using r that by (simp add: word_le_nat_alt)
    then show ?thesis using assms(2) p by (simp add: page2kva_def KADDR_def PGNUM_page2pa)
  qed
  then show ?thesis using ne p page2pa_less [of p] assms(2) by (auto simp: check_free_page_def assert_def not_less)
qed

lemma check_page_free_list_ok:
  assumes ok: "alloc_ok m" and bend: "boot_end m first" and res: "\<And>p. p \<in> set (free_pages m) \<Longrightarrow> \<not> page_reserved first p"
    and base: "\<exists>p\<in>set (free_pages m). p < 0x100" and ext: "\<exists>p\<in>set (free_pages m). 0x100 \<le> p"
  shows "\<exists>m'. check_page_free_list end_sym low m = Some m' \<and> checked m m'"
proof -
  let ?lim = "if low then 1 else NPDENTRIES"
  have "checked m m" using ok by (simp add: checked_def same_rest_def)
  then obtain m1 where m1: "(if low then split_free_list ?lim m else Some m) = Some m1" "checked m m1"
    using split_free_list_ok [OF ok, of ?lim] by (cases low) auto
  have ok1: "alloc_ok m1" and same: "npages m1 = npages m" "nextfree m1 = nextfree m" "set (free_pages m1) = set (free_pages m)"
    using m1(2) by (auto simp: checked_def same_rest_def)
  note a = alloc_okD [OF ok1]
  obtain f where f: "spoil_loop ?lim (page_free_list m1) m1 = Some (m1\<lparr>frames := f\<rparr>)"
    "\<And>p. p \<notin> set (free_pages m1) \<Longrightarrow> f p = frames m1 p"
    using spoil_loop_ok [OF a(2), of ?lim] a(1,4) by blast
  let ?m = "m1\<lparr>frames := f\<rparr>"
  have c: "checked m1 ?m" "free_pages ?m = free_pages m1"
    by (rule checkedI [OF ok1]; use a(2,3) f(2) in \<open>auto simp: same_rest_def\<close>)+
  then have cm: "checked m ?m" using m1(2) checked_trans by blast
  have bend': "boot_end ?m first" "nextfree ?m = nextfree m" using bend same by (simp_all add: boot_end_def)
  have "chain (pp_link ?m) (page_free_list ?m) (free_pages m1)" using a(2) by simp
  from count_free_ok [OF this, of "nextfree m" 0 0] have cnt: "count_free (nextfree m) (page_free_list ?m) 0 0 ?m
      = Some (length (filter (\<lambda>p. page2pa p < EXTPHYSMEM) (free_pages m1)), length (filter (\<lambda>p. \<not> page2pa p < EXTPHYSMEM) (free_pages m1)))"
    using check_free_page_ok [OF bend'(1)] bend'(2) a(4) same res by simp
  have "p < 0x100000" if "p \<in> set (free_pages m1)" for p using a(1,4) that by fastforce
  then have "filter (\<lambda>p. page2pa p < EXTPHYSMEM) (free_pages m1) \<noteq> []" "filter (\<lambda>p. \<not> page2pa p < EXTPHYSMEM) (free_pages m1) \<noteq> []"
    using base ext same(3) by (auto simp: filter_empty_conv page2pa_less) (meson not_le page2pa_less)+
  moreover have "page_free_list m \<noteq> None" using alloc_okD(2) [OF ok] base by (cases "free_pages m") auto
  ultimately have "check_page_free_list end_sym low m = Some ?m"
    using m1(1) f(1) boot_alloc_zero [OF bend'(1)] bend'(2) cnt
    by (simp add: check_page_free_list_def assert_def Let_def)
  then show ?thesis using cm by blast
qed

section \<open>The allocator\<close>

text \<open>Taking three pages off the list, and putting them back.\<close>

definition taken :: "nat \<Rightarrow> nat \<Rightarrow> nat \<Rightarrow> nat option \<Rightarrow> 'a mem_scheme \<Rightarrow> 'a mem_scheme" where
  "taken a b c fl m = m\<lparr>page_free_list := fl, pp_link := (pp_link m)(a := None, b := None, c := None)\<rparr>"

lemma alloc_three_taken:
  assumes "page_free_list m = Some a" and "pp_link m a = Some b" and "pp_link m b = Some c" and "distinct [a, b, c]"
  shows "alloc_three m = Some (a, b, c, taken a b c (pp_link m c) m)"
  using assms by (simp add: alloc_three_def page_alloc_def assert_def taken_def)

lemma free_three:
  assumes "distinct [a, b, c]" and "pp_link m a = None" "pp_link m b = None" "pp_link m c = None"
    and "pp_ref m a = 0" "pp_ref m b = 0" "pp_ref m c = 0"
  shows "do { m \<leftarrow> page_free a m; m \<leftarrow> page_free b m; m \<leftarrow> page_free c m; f m }
    = f (m\<lparr>pp_link := (pp_link m)(a := page_free_list m, b := Some a, c := Some b), page_free_list := Some c\<rparr>)"
  using assms by (simp add: page_free_def)

lemma alloc_none_empty: "page_free_list m = None \<Longrightarrow> alloc_none m = Some m"
  by (simp add: alloc_none_def page_alloc_def assert_def)

lemma in_memory_ok: "npages m \<le> 0x10000 \<Longrightarrow> p < npages m \<Longrightarrow> in_memory m p"
proof -
  assume n: "npages m \<le> 0x10000" "p < npages m"
  have "unat (word_of_nat (npages m) * PGSIZE) = npages m * 4096 mod 2 ^ 32"
    by (simp add: PGSIZE_def unat_word_ariths unsigned_of_nat take_bit_eq_mod mod_mult_left_eq)
  then show ?thesis using n by (simp add: in_memory_def word_less_nat_alt unat_page2pa)
qed

text \<open>The first three pages after their use: nobody refers to them, nothing links them, and the rest is as before.\<close>

lemma three_pages:
  assumes "alloc_ok m" and "3 \<le> length (free_pages m)"
  obtains a b c r where "free_pages m = a # b # c # r" "page_free_list m = Some a" "pp_link m a = Some b" "pp_link m b = Some c"
    "chain (pp_link m) (pp_link m c) r" "distinct (a # b # c # r)" "pp_ref m a = 0" "pp_ref m b = 0" "pp_ref m c = 0"
    "a < npages m" "b < npages m" "c < npages m"
proof -
  obtain a b c r where r: "free_pages m = a # b # c # r" using assms(2) by (metis Suc_le_length_iff numeral_3_eq_3)
  note a = alloc_okD [OF assms(1)]
  show thesis by (rule that [OF r]) (use a(2,3,4,5) r in auto)
qed

lemma check_page_alloc_ok:
  assumes "alloc_ok m" and "3 \<le> length (free_pages m)"
  shows "\<exists>m'. check_page_alloc m = Some m' \<and> checked m m' \<and> free_pages m' = free_pages m"
proof -
  obtain a b c r where r: "free_pages m = a # b # c # r" and l: "page_free_list m = Some a" "pp_link m a = Some b" "pp_link m b = Some c"
    "chain (pp_link m) (pp_link m c) r" and d: "distinct (a # b # c # r)" and refs: "pp_ref m a = 0" "pp_ref m b = 0" "pp_ref m c = 0"
    and b: "a < npages m" "b < npages m" "c < npages m" using three_pages [OF assms] by metis
  note ok = alloc_okD [OF assms(1)]
  have abc: "distinct [a, b, c]" "distinct [c, b, a]" using d by auto
  let ?stolen = "taken a b c None m"
  let ?given = "?stolen\<lparr>pp_link := (pp_link ?stolen)(a := None, b := Some a, c := Some b), page_free_list := Some c\<rparr>"
  let ?clear = "?stolen\<lparr>frames := (frames m)(c := (\<lambda>_. 0)), page_free_list := pp_link m c\<rparr>"
  let ?final = "?clear\<lparr>pp_link := (pp_link ?clear)(c := pp_link m c, b := Some c, a := Some b), page_free_list := Some a\<rparr>"
  have "chain (pp_link m) (pp_link m c) r \<longleftrightarrow> chain (pp_link ?final) (pp_link m c) r"
    using d by (intro chain_cong) (auto simp: taken_def)
  then have ch: "chain (pp_link ?final) (page_free_list ?final) (a # b # c # r)" using l(4) d by simp
  have c: "checked m ?final" "free_pages ?final = a # b # c # r"
    by (rule checkedI [OF assms(1) _ ch d]; use r d in \<open>auto simp: taken_def same_rest_def\<close>)+
  have k: "\<exists>kva. page2kva m' c = Some kva" if "npages m' = npages m" for m' :: "'a mem_scheme"
    using b(3) ok(1) that by (simp add: page2kva_def KADDR_def PGNUM_page2pa)
  have n: "count_pages (page_free_list m) 0 m = Some (length r + 3)" "count_pages (page_free_list ?final) 0 ?final = Some (length r + 3)"
    using count_pages_ok [OF ok(2), of 0] count_pages_ok [OF ch, of 0] r by simp_all
  have first: "alloc_three m = Some (a, b, c, taken a b c (pp_link m c) m)" by (rule alloc_three_taken [OF l(1-3) abc(1)])
  have again: "alloc_three ?given = Some (c, b, a, ?stolen)"
  proof -
    have "alloc_three ?given = Some (c, b, a, taken c b a (pp_link ?given a) ?given)"
      by (rule alloc_three_taken) (use abc in auto)
    also have "taken c b a (pp_link ?given a) ?given = ?stolen" using abc by (cases m) (auto simp: taken_def fun_eq_iff)
    finally show ?thesis .
  qed
  let ?zero = "?stolen\<lparr>frames := (frames m)(c := (\<lambda>_. 0))\<rparr>"
  have zero: "do { m \<leftarrow> page_free c (fill_words c 1024 0x01010101 ?stolen); (page, m) \<leftarrow> page_alloc ALLOC_ZERO m; f page m } = f (Some c) ?zero" for f
    using refs abc b(3) ok(1) by (cases m) (simp add: page_free_def page_alloc_def ALLOC_ZERO_def fill_words_def taken_def PGNUM_page2pa)
  have run1: "(taken a b c (pp_link m c) m)\<lparr>page_free_list := None\<rparr> = ?stolen" by (simp add: taken_def)
  have run2: "do { m \<leftarrow> page_free a ?stolen; m \<leftarrow> page_free b m; m \<leftarrow> page_free c m; f m } = f ?given" for f
    using abc refs by (subst free_three) (simp_all add: taken_def)
  have run3: "do { m \<leftarrow> page_free c ?clear; m \<leftarrow> page_free b m; m \<leftarrow> page_free a m; f m } = f ?final" for f
    using abc refs by (subst free_three) (simp_all add: taken_def)
  have "in_memory (taken a b c (pp_link m c) m) x" if "x \<in> {a, b, c}" for x
    using in_memory_ok [OF ok(1), of x] b that by (auto simp: in_memory_def taken_def)
  moreover have "page_free_list (taken a b c (pp_link m c) m) = pp_link m c" by (simp add: taken_def)
  moreover have "alloc_none ?stolen = Some ?stolen" by (simp add: alloc_none_empty taken_def)
  moreover have "\<exists>kva. page2kva ?stolen c = Some kva" "\<exists>kva. page2kva ?zero c = Some kva" by (rule k, simp add: taken_def)+
  moreover have "?zero\<lparr>page_free_list := pp_link m c\<rparr> = ?clear" by simp
  moreover have "\<forall>i\<in>set [0..<1024]. frames ?zero c i = 0" by simp
  ultimately have "check_page_alloc m = Some ?final"
    unfolding check_page_alloc_def first n(1)
    by (simp only: Let_def Option.bind.simps prod.case run1 run2 again zero run3 n(2) assert_def insert_iff simp_thms if_True split_conv) auto
  then show ?thesis using c r by metis
qed

text \<open>\<open>check_page_alloc\<close> passes when three pages are free, and it gives back the free list it found,
  in the same order; nothing but the contents of free pages has changed.\<close>

theorem check_page_alloc_passes:
  assumes "alloc_ok m" and "3 \<le> length (free_pages m)"
  shows "\<exists>m'. check_page_alloc m = Some m' \<and> checked m m' \<and> free_pages m' = free_pages m"
  by (rule check_page_alloc_ok [OF assms])

theorem check_page_alloc_passes_witness:
  "\<exists>m'. check_page_alloc boot_mem = Some m' \<and> checked boot_mem m' \<and> free_pages m' = free_pages boot_mem"
proof -
  have "3 \<le> length (free_pages boot_mem)" unfolding boot_mem_alloc(2) by simp
  with boot_mem_alloc(1) show ?thesis by (rule check_page_alloc_passes)
qed

end
