(* ===== verification/Kern_Check_Tables.thy ===== *)
theory Kern_Check_Tables
  imports Kern_Check_Lists
begin

text \<open>
  The check of the page tables: every state it goes through is the one it starts from but for three pages, the
  first two directory entries and the free list. The operations compute on these states.
\<close>

section \<open>The states\<close>

definition pde :: "nat \<Rightarrow> u32w" where "pde t = page2pa t OR PTE_P OR PTE_W OR PTE_U"
definition pte :: "nat \<Rightarrow> u32w \<Rightarrow> u32w" where "pte p perm = page2pa p OR perm OR PTE_P"

definition three :: "'a mem_scheme \<Rightarrow> nat \<Rightarrow> nat \<Rightarrow> nat \<Rightarrow> bool" where
  "three m a b c \<longleftrightarrow> npages m \<le> 0x10000 \<and> a < npages m \<and> b < npages m \<and> c < npages m
     \<and> distinct [a, b, c, kern_pgdir m]"

text \<open>The free list, the counts of the three pages, the two directory entries, the first page's contents (the table), and
  the addresses invalidated.\<close>

definition st :: "'a mem_scheme \<Rightarrow> nat \<Rightarrow> nat \<Rightarrow> nat \<Rightarrow> nat option \<Rightarrow> nat option \<Rightarrow> nat option \<Rightarrow> nat option
    \<Rightarrow> u16w \<Rightarrow> u16w \<Rightarrow> u16w \<Rightarrow> u32w \<Rightarrow> u32w \<Rightarrow> (nat \<Rightarrow> u32w)
    \<Rightarrow> u32w list \<Rightarrow> 'a mem_scheme" where
  "st m a b c fl la lb lc ra rb rc d0 d1 t tlb = m\<lparr>page_free_list := fl, pp_link := (pp_link m)(a := la, b := lb, c := lc),
     pp_ref := (pp_ref m)(a := ra, b := rb, c := rc),
     frames := (frames m)(kern_pgdir m := (frames m (kern_pgdir m))(0 := d0, 1 := d1), a := t), invalidated := tlb\<rparr>"

definition flushed :: "'a mem_scheme \<Rightarrow> u32w \<Rightarrow> u32w list \<Rightarrow> u32w list" where
  "flushed m va tlb = (if curenv_pgdir m = None \<or> curenv_pgdir m = Some (kern_pgdir m) then va # tlb else tlb)"

lemma pte_facts:
  assumes "p < 0x100000" and "perm_bits perm"
  shows "PGNUM (pte p perm) = p" "PTE_ADDR (pte p perm) = page2pa p" "pte p perm \<noteq> 0" "pte p perm AND PTE_P \<noteq> 0"
    "pte p perm AND PTE_W = perm AND PTE_W" "pte p perm AND PTE_U = perm AND PTE_U"
proof -
  have pb: "perm_bits (perm OR PTE_P)" using assms(2) by (simp add: perm_bits_or)
  then show "PGNUM (pte p perm) = p" using PGNUM_entry [OF pb assms(1)] by (simp add: pte_def)
  have al: "aligned (page2pa p)" using assms(1) by (simp add: aligned_def unat_page2pa)
  then show "PTE_ADDR (pte p perm) = page2pa p" using PTE_ADDR_aligned [OF al pb] by (simp add: pte_def)
  show "pte p perm \<noteq> 0" using bit0_flag [of "page2pa p" perm] by (simp add: pte_def)
  have "bit (pte p perm AND PTE_P) 0" by (simp add: pte_def bit_simps pte_bits)
  then show "pte p perm AND PTE_P \<noteq> 0" by (metis bit_0_eq bot_apply bot_bool_def)
  have z: "page2pa p AND PTE_W = 0" "page2pa p AND PTE_U = 0" "PTE_P AND PTE_W = 0" "PTE_P AND PTE_U = 0"
    by (rule page2pa_flag, simp add: pte_bits)+ (simp_all add: pte_bits)
  show "pte p perm AND PTE_W = perm AND PTE_W" "pte p perm AND PTE_U = perm AND PTE_U"
    using z by (simp_all add: pte_def bit.conj_disj_distrib2)
qed

lemma threeD:
  assumes "three m a b c"
  shows "npages m \<le> 0x10000" "a < npages m" "b < npages m" "c < npages m" "a \<noteq> b" "b \<noteq> a" "a \<noteq> c" "c \<noteq> a" "b \<noteq> c" "c \<noteq> b"
    "a \<noteq> kern_pgdir m" "kern_pgdir m \<noteq> a" "b \<noteq> kern_pgdir m" "c \<noteq> kern_pgdir m"
  using assms by (auto simp: three_def)

lemma st_fields [simp]:
  "npages (st m a b c fl la lb lc ra rb rc d0 d1 t tlb) = npages m" "kern_pgdir (st m a b c fl la lb lc ra rb rc d0 d1 t tlb) = kern_pgdir m"
  "page_free_list (st m a b c fl la lb lc ra rb rc d0 d1 t tlb) = fl"
  "curenv_pgdir (st m a b c fl la lb lc ra rb rc d0 d1 t tlb) = curenv_pgdir m"
  "frames (st m a b c fl la lb lc ra rb rc d0 d1 t tlb) a = t"
  by (simp_all add: st_def)

lemma st_three:
  assumes "three m a b c"
  shows "pp_ref (st m a b c fl la lb lc ra rb rc d0 d1 t tlb) a = ra" "pp_ref (st m a b c fl la lb lc ra rb rc d0 d1 t tlb) b = rb"
    "pp_ref (st m a b c fl la lb lc ra rb rc d0 d1 t tlb) c = rc" "pp_link (st m a b c fl la lb lc ra rb rc d0 d1 t tlb) b = lb" "frames (st m a b c fl la lb lc ra rb rc d0 d1 t tlb) (kern_pgdir m) 0 = d0"
    "frames (st m a b c fl la lb lc ra rb rc d0 d1 t tlb) (kern_pgdir m) 1 = d1"
    "frames (st m a b c fl la lb lc ra rb rc d0 d1 t tlb) (kern_pgdir m) (Suc 0) = d1"
  using threeD [OF assms] by (simp_all add: st_def)

section \<open>The operations\<close>

lemma alloc_st:
  assumes "three m a b c"
  shows "page_alloc f (st m a b c None la lb lc ra rb rc d0 d1 t tlb) = Some (None, st m a b c None la lb lc ra rb rc d0 d1 t tlb)"
    "page_alloc 0 (st m a b c (Some a) la lb lc ra rb rc d0 d1 t tlb) = Some (Some a, st m a b c la None lb lc ra rb rc d0 d1 t tlb)"
    "page_alloc 0 (st m a b c (Some b) la lb lc ra rb rc d0 d1 t tlb) = Some (Some b, st m a b c lb la None lc ra rb rc d0 d1 t tlb)"
    "page_alloc 0 (st m a b c (Some c) la lb lc ra rb rc d0 d1 t tlb) = Some (Some c, st m a b c lc la lb None ra rb rc d0 d1 t tlb)"
    "page_alloc ALLOC_ZERO (st m a b c (Some a) la lb lc ra rb rc d0 d1 t tlb) = Some (Some a, st m a b c la None lb lc ra rb rc d0 d1 (\<lambda>_. 0) tlb)"
  using threeD [OF assms] by (cases m; simp add: page_alloc_def st_def ALLOC_ZERO_def PGNUM_page2pa fun_upd_twist)+

lemma free_st:
  assumes "three m a b c"
  shows "page_free a (st m a b c fl None lb lc 0 rb rc d0 d1 t tlb) = Some (st m a b c (Some a) fl lb lc 0 rb rc d0 d1 t tlb)"
    "page_free b (st m a b c fl la None lc ra 0 rc d0 d1 t tlb) = Some (st m a b c (Some b) la fl lc ra 0 rc d0 d1 t tlb)"
    "page_free c (st m a b c fl la lb None ra rb 0 d0 d1 t tlb) = Some (st m a b c (Some c) la lb fl ra rb 0 d0 d1 t tlb)"
  using threeD [OF assms] by (cases m; simp add: page_free_def st_def fun_upd_twist)+

text \<open>A count and a word of the table.\<close>

lemma ref_st:
  assumes "three m a b c"
  shows "(st m a b c fl la lb lc ra rb rc d0 d1 t tlb)\<lparr>pp_ref := (pp_ref (st m a b c fl la lb lc ra rb rc d0 d1 t tlb))(a := x)\<rparr> = st m a b c fl la lb lc x rb rc d0 d1 t tlb"
    "(st m a b c fl la lb lc ra rb rc d0 d1 t tlb)\<lparr>pp_ref := (pp_ref (st m a b c fl la lb lc ra rb rc d0 d1 t tlb))(b := x)\<rparr> = st m a b c fl la lb lc ra x rc d0 d1 t tlb"
    "(st m a b c fl la lb lc ra rb rc d0 d1 t tlb)\<lparr>pp_ref := (pp_ref (st m a b c fl la lb lc ra rb rc d0 d1 t tlb))(c := x)\<rparr> = st m a b c fl la lb lc ra rb x d0 d1 t tlb"
  using threeD [OF assms] by (cases m; auto simp: st_def fun_eq_iff)+

lemma set_st:
  assumes "three m a b c"
  shows "set_word (st m a b c fl la lb lc ra rb rc d0 d1 t tlb) a i w = st m a b c fl la lb lc ra rb rc d0 d1 (t(i := w)) tlb"
    "set_word (st m a b c fl la lb lc ra rb rc d0 d1 t tlb) (kern_pgdir m) 0 w = st m a b c fl la lb lc ra rb rc w d1 t tlb"
    "set_word (st m a b c fl la lb lc ra rb rc d0 d1 t tlb) (kern_pgdir m) 1 w = st m a b c fl la lb lc ra rb rc d0 w t tlb"
    "set_word (st m a b c fl la lb lc ra rb rc d0 d1 t tlb) (kern_pgdir m) (Suc 0) w = st m a b c fl la lb lc ra rb rc d0 w t tlb"
  using threeD [OF assms] by (cases m; auto simp: st_def set_word_def fun_eq_iff)+

lemma page_st:
  "(st m a b c fl la lb lc ra rb rc d0 d1 t tlb)\<lparr>frames := (frames (st m a b c fl la lb lc ra rb rc d0 d1 t tlb))(a := x)\<rparr> = st m a b c fl la lb lc ra rb rc d0 d1 x tlb"
  by (cases m) (simp add: st_def)

lemma flush_st:
  "tlb_invalidate (kern_pgdir m) va (st m a b c fl la lb lc ra rb rc d0 d1 t tlb) = st m a b c fl la lb lc ra rb rc d0 d1 t (flushed m va tlb)"
  by (cases m) (auto simp: tlb_invalidate_def flushed_def st_def)

lemma pde_facts:
  assumes "p < 0x100000"
  shows "pde p \<noteq> 0" "PGNUM (pde p) = p" "PTE_ADDR (pde p) = page2pa p" "pde p AND PTE_P \<noteq> 0" "pde p AND PTE_PS = 0" "pde p AND PTE_U \<noteq> 0"
proof -
  have e: "pde p = pte p (PTE_W OR PTE_U)" by (simp add: pde_def pte_def ac_simps)
  have pb: "perm_bits (PTE_W OR PTE_U)" by (simp add: perm_bits_or)
  note f = pte_facts [OF assms pb]
  show "pde p \<noteq> 0" "PGNUM (pde p) = p" "PTE_ADDR (pde p) = page2pa p" "pde p AND PTE_P \<noteq> 0" using f by (simp_all add: e)
  show "pde p AND PTE_PS = 0" using pde_bits(3) by (simp add: pde_def)
  show "pde p AND PTE_U \<noteq> 0" using f(6) by (simp add: e pte_bits)
qed

text \<open>The walk finds the table, if there is one, makes it of the free page, or fails.\<close>

lemma page_kaddr: "npages m \<le> 0x10000 \<Longrightarrow> p < npages m \<Longrightarrow> KADDR m (page2pa p) = Some (page2pa p + KERNBASE) \<and> PADDR (page2pa p + KERNBASE) = Some (page2pa p)"
proof -
  assume n: "npages m \<le> 0x10000" "p < npages m"
  then have "p < 0x100000" "PGNUM (page2pa p) = p" by (simp_all add: PGNUM_page2pa)
  moreover from this have "PTE_ADDR (page2pa p) = page2pa p"
    using PTE_ADDR_aligned [of "page2pa p" 0] by (simp add: aligned_def unat_page2pa perm_bits_def)
  ultimately show ?thesis using kaddr_frame [of m "page2pa p"] n by (auto simp: KADDR_def)
qed

lemma walk_st:
  assumes th: "three m a b c"
  shows "PDX va = 0 \<Longrightarrow> pgdir_walk (kern_pgdir m) va create (st m a b c fl la lb lc ra rb rc (pde a) d1 t tlb)
      = Some (Some (a, PTX va), st m a b c fl la lb lc ra rb rc (pde a) d1 t tlb)"
    "PDX va = 0 \<Longrightarrow> pgdir_walk (kern_pgdir m) va False (st m a b c fl la lb lc ra rb rc 0 d1 t tlb) = Some (None, st m a b c fl la lb lc ra rb rc 0 d1 t tlb)"
    "PDX va = 0 \<Longrightarrow> pgdir_walk (kern_pgdir m) va True (st m a b c None la lb lc ra rb rc 0 d1 t tlb) = Some (None, st m a b c None la lb lc ra rb rc 0 d1 t tlb)"
    "PDX va = 0 \<Longrightarrow> pgdir_walk (kern_pgdir m) va True (st m a b c (Some a) la lb lc ra rb rc 0 d1 t tlb)
      = Some (Some (a, PTX va), st m a b c la None lb lc (ra + 1) rb rc (pde a) d1 (\<lambda>_. 0) tlb)"
    "PDX va = 1 \<Longrightarrow> pgdir_walk (kern_pgdir m) va True (st m a b c None la lb lc ra rb rc d0 0 t tlb) = Some (None, st m a b c None la lb lc ra rb rc d0 0 t tlb)"
    "PDX va = 1 \<Longrightarrow> pgdir_walk (kern_pgdir m) va True (st m a b c (Some a) la lb lc ra rb rc d0 0 t tlb)
      = Some (Some (a, PTX va), st m a b c la None lb lc (ra + 1) rb rc d0 (pde a) (\<lambda>_. 0) tlb)"
proof -
  note td = threeD [OF th]
  have a: "a < 0x100000" using td(1,2) by simp
  note p = pde_facts [OF a] and k = page_kaddr [of "st m a b c fl la lb lc ra rb rc d0 d1 t tlb" a for fl la lb lc ra rb rc d0 d1 t tlb, simplified, OF td(1,2)]
  note f = st_three [OF th] alloc_st [OF th] ref_st [OF th] set_st [OF th]
  note pd = pde_def [of a, symmetric]
  show "PDX va = 0 \<Longrightarrow> pgdir_walk (kern_pgdir m) va create (st m a b c fl la lb lc ra rb rc (pde a) d1 t tlb)
      = Some (Some (a, PTX va), st m a b c fl la lb lc ra rb rc (pde a) d1 t tlb)"
    "PDX va = 0 \<Longrightarrow> pgdir_walk (kern_pgdir m) va False (st m a b c fl la lb lc ra rb rc 0 d1 t tlb) = Some (None, st m a b c fl la lb lc ra rb rc 0 d1 t tlb)"
    "PDX va = 0 \<Longrightarrow> pgdir_walk (kern_pgdir m) va True (st m a b c None la lb lc ra rb rc 0 d1 t tlb) = Some (None, st m a b c None la lb lc ra rb rc 0 d1 t tlb)"
    "PDX va = 0 \<Longrightarrow> pgdir_walk (kern_pgdir m) va True (st m a b c (Some a) la lb lc ra rb rc 0 d1 t tlb)
      = Some (Some (a, PTX va), st m a b c la None lb lc (ra + 1) rb rc (pde a) d1 (\<lambda>_. 0) tlb)"
    "PDX va = 1 \<Longrightarrow> pgdir_walk (kern_pgdir m) va True (st m a b c None la lb lc ra rb rc d0 0 t tlb) = Some (None, st m a b c None la lb lc ra rb rc d0 0 t tlb)"
    "PDX va = 1 \<Longrightarrow> pgdir_walk (kern_pgdir m) va True (st m a b c (Some a) la lb lc ra rb rc d0 0 t tlb)
      = Some (Some (a, PTX va), st m a b c la None lb lc (ra + 1) rb rc d0 (pde a) (\<lambda>_. 0) tlb)"
    using p k PGNUM_page2pa [OF a] by (simp_all add: pgdir_walk_def f Let_def pd)
qed

lemma lookup_st:
  assumes th: "three m a b c" and va: "PDX va = 0"
  shows "t (PTX va) = 0 \<Longrightarrow> page_lookup (kern_pgdir m) va (st m a b c fl la lb lc ra rb rc (pde a) d1 t tlb) = Some None"
    "page_lookup (kern_pgdir m) va (st m a b c fl la lb lc ra rb rc 0 d1 t tlb) = Some None"
    "t (PTX va) = pte x perm \<Longrightarrow> perm_bits perm \<Longrightarrow> x < npages m
      \<Longrightarrow> page_lookup (kern_pgdir m) va (st m a b c fl la lb lc ra rb rc (pde a) d1 t tlb) = Some (Some (x, (a, PTX va)))"
proof -
  note w = walk_st(1,2) [OF th va]
  show "t (PTX va) = 0 \<Longrightarrow> page_lookup (kern_pgdir m) va (st m a b c fl la lb lc ra rb rc (pde a) d1 t tlb) = Some None"
    "page_lookup (kern_pgdir m) va (st m a b c fl la lb lc ra rb rc 0 d1 t tlb) = Some None"
    by (simp_all add: page_lookup_def w pte_at_def)
  assume x: "t (PTX va) = pte x perm" "perm_bits perm" "x < npages m"
  then have "x < 0x100000" using threeD(1) [OF th] by simp
  then show "page_lookup (kern_pgdir m) va (st m a b c fl la lb lc ra rb rc (pde a) d1 t tlb) = Some (Some (x, (a, PTX va)))"
    using x pte_facts [of x perm] by (simp add: page_lookup_def w pte_at_def pa2page_def PGNUM_page2pa)
qed

text \<open>Uncounting, which frees a page that has no count left.\<close>

lemma decref_st:
  assumes th: "three m a b c"
  shows "rb \<noteq> 1 \<Longrightarrow> page_decref b (st m a b c fl la lb lc ra rb rc d0 d1 t tlb) = Some (st m a b c fl la lb lc ra (rb - 1) rc d0 d1 t tlb)"
    "page_decref b (st m a b c fl la None lc ra 1 rc d0 d1 t tlb) = Some (st m a b c (Some b) la fl lc ra 0 rc d0 d1 t tlb)"
    "rc \<noteq> 1 \<Longrightarrow> page_decref c (st m a b c fl la lb lc ra rb rc d0 d1 t tlb) = Some (st m a b c fl la lb lc ra rb (rc - 1) d0 d1 t tlb)"
    "page_decref c (st m a b c fl la lb None ra rb 1 d0 d1 t tlb) = Some (st m a b c (Some c) la lb fl ra rb 0 d0 d1 t tlb)"
  by (simp_all add: page_decref_def ref_st [OF th] st_three [OF th] free_st [OF th])

lemma remove_st:
  assumes th: "three m a b c" and va: "PDX va = 0"
  shows "t (PTX va) = 0 \<Longrightarrow> page_remove (kern_pgdir m) va (st m a b c fl la lb lc ra rb rc (pde a) d1 t tlb) = Some (st m a b c fl la lb lc ra rb rc (pde a) d1 t tlb)"
    "t (PTX va) = pte x perm \<Longrightarrow> perm_bits perm \<Longrightarrow> x < npages m
      \<Longrightarrow> page_decref x (st m a b c fl la lb lc ra rb rc (pde a) d1 t tlb) = Some (st m a b c fl' la' lb' lc' ra rb' rc' (pde a) d1 t tlb)
      \<Longrightarrow> page_remove (kern_pgdir m) va (st m a b c fl la lb lc ra rb rc (pde a) d1 t tlb)
        = Some (st m a b c fl' la' lb' lc' ra rb' rc' (pde a) d1 (t(PTX va := 0)) (flushed m va tlb))"
proof -
  note w = walk_st(1) [OF th va] and l = lookup_st(1) [OF th va]
  show "t (PTX va) = 0 \<Longrightarrow> page_remove (kern_pgdir m) va (st m a b c fl la lb lc ra rb rc (pde a) d1 t tlb) = Some (st m a b c fl la lb lc ra rb rc (pde a) d1 t tlb)"
    by (simp add: page_remove_def w l pte_at_def)
  assume x: "t (PTX va) = pte x perm" "perm_bits perm" "x < npages m"
    and d: "page_decref x (st m a b c fl la lb lc ra rb rc (pde a) d1 t tlb) = Some (st m a b c fl' la' lb' lc' ra rb' rc' (pde a) d1 t tlb)"
  have "x < 0x100000" using threeD(1) [OF th] x by simp
  then show "page_remove (kern_pgdir m) va (st m a b c fl la lb lc ra rb rc (pde a) d1 t tlb)
      = Some (st m a b c fl' la' lb' lc' ra rb' rc' (pde a) d1 (t(PTX va := 0)) (flushed m va tlb))"
    using pte_facts(3) [of x perm] x d
    by (simp add: page_remove_def w lookup_st(3) [OF th va, where t = t and x = x and perm = perm] pte_at_def set_st [OF th] flush_st)
qed

text \<open>Inserting into the table: over nothing, and over a mapped page.\<close>

lemma insert_st:
  assumes th: "three m a b c" and va: "PDX va = 0" and x: "x \<in> {b, c}"
    and count: "(rb', rc') = (if x = b then (rb + 1, rc) else (rb, rc + 1))"
  shows "page_remove (kern_pgdir m) va (st m a b c fl la lb lc ra rb' rc' (pde a) d1 t tlb) = Some (st m a b c fl' la' lb' lc' ra rb'' rc'' (pde a) d1 t' tlb')
    \<Longrightarrow> page_insert (kern_pgdir m) x va perm (st m a b c fl la lb lc ra rb rc (pde a) d1 t tlb)
      = Some (0, st m a b c fl' la' lb' lc' ra rb'' rc'' (pde a) d1 (t'(PTX va := pte x perm)) tlb')"
    "page_remove (kern_pgdir m) va (st m a b c la None lb lc (ra + 1) rb' rc' (pde a) d1 (\<lambda>_. 0) tlb) = Some (st m a b c fl' la' lb' lc' (ra + 1) rb'' rc'' (pde a) d1 t' tlb')
    \<Longrightarrow> page_insert (kern_pgdir m) x va perm (st m a b c (Some a) la lb lc ra rb rc 0 d1 t tlb)
      = Some (0, st m a b c fl' la' lb' lc' (ra + 1) rb'' rc'' (pde a) d1 (t'(PTX va := pte x perm)) tlb')"
  using x count threeD(9,10) [OF th]
  by (auto simp: page_insert_def walk_st(1-4) [OF th va] ref_st [OF th] st_three [OF th] set_st [OF th] pte_def Let_def)

lemma insert_fails:
  assumes th: "three m a b c"
  shows "PDX va = 0 \<Longrightarrow> page_insert (kern_pgdir m) x va perm (st m a b c None la lb lc ra rb rc 0 d1 t tlb) = Some (- E_NO_MEM, st m a b c None la lb lc ra rb rc 0 d1 t tlb)"
    "PDX va = 1 \<Longrightarrow> page_insert (kern_pgdir m) x va perm (st m a b c None la lb lc ra rb rc d0 0 t tlb) = Some (- E_NO_MEM, st m a b c None la lb lc ra rb rc d0 0 t tlb)"
  by (simp_all add: page_insert_def walk_st [OF th])

lemma va2pa_st:
  assumes th: "three m a b c" and va: "PDX va = 0"
  shows "check_va2pa (kern_pgdir m) va (st m a b c fl la lb lc ra rb rc (pde a) d1 t tlb) = Some (va2pa (t (PTX va)))"
proof -
  have a: "a < 0x100000" using threeD(1,2) [OF th] by simp
  show ?thesis using pde_facts [OF a] page_kaddr [of "st m a b c fl la lb lc ra rb rc (pde a) d1 t tlb" a] threeD(1,2) [OF th] va
    by (simp add: check_va2pa_def st_three [OF th] Let_def PGNUM_page2pa va2pa_def)
qed

lemma walked_st:
  assumes th: "three m a b c" and va: "PDX va = 0"
  shows "walked (kern_pgdir m) va (st m a b c fl la lb lc ra rb rc (pde a) d1 t tlb) = Some (t (PTX va))"
  by (simp add: walked_def walk_st(1) [OF th va] pte_at_def)

text \<open>The insertions of the check: a page where nothing is mapped (with the table there or made of the free page),
  the page that is there, and the second page over the third.\<close>

lemma insert_new:
  assumes th: "three m a b c" and va: "PDX va = 0"
  shows "t (PTX va) = 0 \<Longrightarrow> page_insert (kern_pgdir m) b va perm (st m a b c fl la lb lc ra rb rc (pde a) d1 t tlb)
      = Some (0, st m a b c fl la lb lc ra (rb + 1) rc (pde a) d1 (t(PTX va := pte b perm)) tlb)"
    "t (PTX va) = 0 \<Longrightarrow> page_insert (kern_pgdir m) c va perm (st m a b c fl la lb lc ra rb rc (pde a) d1 t tlb)
      = Some (0, st m a b c fl la lb lc ra rb (rc + 1) (pde a) d1 (t(PTX va := pte c perm)) tlb)"
    "page_insert (kern_pgdir m) b va perm (st m a b c (Some a) la lb lc ra rb rc 0 d1 t tlb)
      = Some (0, st m a b c la None lb lc (ra + 1) (rb + 1) rc (pde a) d1 ((\<lambda>_. 0)(PTX va := pte b perm)) tlb)"
  using threeD(9,10) [OF th] by (auto intro!: insert_st [OF th va] remove_st(1) [OF th va])

lemma insert_same:
  assumes th: "three m a b c" and va: "PDX va = 0" and p: "perm_bits p"
  shows "t (PTX va) = pte c p \<Longrightarrow> rc \<noteq> 0 \<Longrightarrow> page_insert (kern_pgdir m) c va perm (st m a b c fl la lb lc ra rb rc (pde a) d1 t tlb)
      = Some (0, st m a b c fl la lb lc ra rb rc (pde a) d1 (t(PTX va := pte c perm)) (flushed m va tlb))"
    "t (PTX va) = pte b p \<Longrightarrow> rb \<noteq> 0 \<Longrightarrow> page_insert (kern_pgdir m) b va perm (st m a b c fl la lb lc ra rb rc (pde a) d1 t tlb)
      = Some (0, st m a b c fl la lb lc ra rb rc (pde a) d1 (t(PTX va := pte b perm)) (flushed m va tlb))"
proof -
  note td = threeD [OF th]
  have "page_insert (kern_pgdir m) c va perm (st m a b c fl la lb lc ra rb rc (pde a) d1 t tlb)
      = Some (0, st m a b c fl la lb lc ra rb rc (pde a) d1 ((t(PTX va := 0))(PTX va := pte c perm)) (flushed m va tlb))"
    if t: "t (PTX va) = pte c p" "rc \<noteq> 0"
  proof (rule insert_st(1) [OF th va])
    have "page_decref c (st m a b c fl la lb lc ra rb (rc + 1) (pde a) d1 t tlb) = Some (st m a b c fl la lb lc ra rb rc (pde a) d1 t tlb)"
      using decref_st(3) [OF th, of "rc + 1"] t(2) by simp
    then show "page_remove (kern_pgdir m) va (st m a b c fl la lb lc ra rb (rc + 1) (pde a) d1 t tlb)
        = Some (st m a b c fl la lb lc ra rb rc (pde a) d1 (t(PTX va := 0)) (flushed m va tlb))"
      by (rule remove_st(2) [OF th va, where t = t, OF t(1) p td(4)])
  qed (use td in auto)
  then show "t (PTX va) = pte c p \<Longrightarrow> rc \<noteq> 0 \<Longrightarrow> page_insert (kern_pgdir m) c va perm (st m a b c fl la lb lc ra rb rc (pde a) d1 t tlb)
      = Some (0, st m a b c fl la lb lc ra rb rc (pde a) d1 (t(PTX va := pte c perm)) (flushed m va tlb))" by simp
  have "page_insert (kern_pgdir m) b va perm (st m a b c fl la lb lc ra rb rc (pde a) d1 t tlb)
      = Some (0, st m a b c fl la lb lc ra rb rc (pde a) d1 ((t(PTX va := 0))(PTX va := pte b perm)) (flushed m va tlb))"
    if t: "t (PTX va) = pte b p" "rb \<noteq> 0"
  proof (rule insert_st(1) [OF th va])
    have "page_decref b (st m a b c fl la lb lc ra (rb + 1) rc (pde a) d1 t tlb) = Some (st m a b c fl la lb lc ra rb rc (pde a) d1 t tlb)"
      using decref_st(1) [OF th, of "rb + 1"] t(2) by simp
    then show "page_remove (kern_pgdir m) va (st m a b c fl la lb lc ra (rb + 1) rc (pde a) d1 t tlb)
        = Some (st m a b c fl la lb lc ra rb rc (pde a) d1 (t(PTX va := 0)) (flushed m va tlb))"
      by (rule remove_st(2) [OF th va, where t = t, OF t(1) p td(3)])
  qed (use td in auto)
  then show "t (PTX va) = pte b p \<Longrightarrow> rb \<noteq> 0 \<Longrightarrow> page_insert (kern_pgdir m) b va perm (st m a b c fl la lb lc ra rb rc (pde a) d1 t tlb)
      = Some (0, st m a b c fl la lb lc ra rb rc (pde a) d1 (t(PTX va := pte b perm)) (flushed m va tlb))" by simp
qed

lemma insert_over:
  assumes th: "three m a b c" and va: "PDX va = 0" and p: "perm_bits p" and t: "t (PTX va) = pte c p"
  shows "page_insert (kern_pgdir m) b va perm (st m a b c fl la lb None ra rb 1 (pde a) d1 t tlb)
      = Some (0, st m a b c (Some c) la lb fl ra (rb + 1) 0 (pde a) d1 (t(PTX va := pte b perm)) (flushed m va tlb))"
proof -
  note td = threeD [OF th]
  have "page_remove (kern_pgdir m) va (st m a b c fl la lb None ra (rb + 1) 1 (pde a) d1 t tlb)
      = Some (st m a b c (Some c) la lb fl ra (rb + 1) 0 (pde a) d1 (t(PTX va := 0)) (flushed m va tlb))"
    by (rule remove_st(2) [OF th va, where t = t, OF t p td(4) decref_st(4) [OF th]])
  then have "page_insert (kern_pgdir m) b va perm (st m a b c fl la lb None ra rb 1 (pde a) d1 t tlb)
      = Some (0, st m a b c (Some c) la lb fl ra (rb + 1) 0 (pde a) d1 ((t(PTX va := 0))(PTX va := pte b perm)) (flushed m va tlb))"
    by (rule insert_st(1) [OF th va, rotated 2]) (use td in auto)
  then show ?thesis by simp
qed

lemma remove_b:
  assumes th: "three m a b c" and va: "PDX va = 0" and p: "perm_bits p" and t: "t (PTX va) = pte b p"
  shows "rb \<noteq> 1 \<Longrightarrow> page_remove (kern_pgdir m) va (st m a b c fl la lb lc ra rb rc (pde a) d1 t tlb)
      = Some (st m a b c fl la lb lc ra (rb - 1) rc (pde a) d1 (t(PTX va := 0)) (flushed m va tlb))"
    "page_remove (kern_pgdir m) va (st m a b c fl la None lc ra 1 rc (pde a) d1 t tlb)
      = Some (st m a b c (Some b) la fl lc ra 0 rc (pde a) d1 (t(PTX va := 0)) (flushed m va tlb))"
  using remove_st(2) [OF th va, where t = t, OF t p threeD(3) [OF th]] decref_st(1,2) [OF th] by auto

text \<open>The same for the second page under the third, with the table in place.\<close>

lemma insert_over_b:
  assumes th: "three m a b c" and va: "PDX va = 0" and p: "perm_bits p" and t: "t (PTX va) = pte b p"
  shows "page_insert (kern_pgdir m) c va perm (st m a b c fl la None lc ra 1 rc (pde a) d1 t tlb)
      = Some (0, st m a b c (Some b) la fl lc ra 0 (rc + 1) (pde a) d1 (t(PTX va := pte c perm)) (flushed m va tlb))"
proof -
  have "page_insert (kern_pgdir m) c va perm (st m a b c fl la None lc ra 1 rc (pde a) d1 t tlb)
      = Some (0, st m a b c (Some b) la fl lc ra 0 (rc + 1) (pde a) d1 ((t(PTX va := 0))(PTX va := pte c perm)) (flushed m va tlb))"
    by (rule insert_st(1) [OF th va _ _ remove_b(2) [OF th va, where t = t, OF p t]]) (use threeD [OF th] in auto)
  then show ?thesis by simp
qed

lemma remove_c:
  assumes th: "three m a b c" and va: "PDX va = 0" and p: "perm_bits p" and t: "t (PTX va) = pte c p"
  shows "page_remove (kern_pgdir m) va (st m a b c fl la lb None ra rb 1 (pde a) d1 t tlb)
      = Some (st m a b c (Some c) la lb fl ra rb 0 (pde a) d1 (t(PTX va := 0)) (flushed m va tlb))"
  by (rule remove_st(2) [OF th va, where t = t, OF t p threeD(4) [OF th] decref_st(4) [OF th]])

text \<open>Dropping the table by force, and a word of the third page.\<close>

lemma drop_st:
  assumes "three m a b c"
  shows "drop_table 0 a (st m a b c fl la lb lc ra rb rc d0 d1 t tlb) = st m a b c fl la lb lc 0 rb rc 0 d1 t tlb"
    "drop_table 1 a (st m a b c fl la lb lc ra rb rc d0 d1 t tlb) = st m a b c fl la lb lc 0 rb rc d0 0 t tlb"
  by (simp_all add: drop_table_def Let_def set_st [OF assms] ref_st [OF assms])

lemma set_c:
  assumes "three m a b c"
  shows "set_word (st m a b c fl la lb lc ra rb rc d0 d1 t tlb) c i w = st (set_word m c i w) a b c fl la lb lc ra rb rc d0 d1 t tlb"
  using threeD [OF assms] by (cases m) (auto simp: st_def set_word_def fun_eq_iff)

lemma three_set: "three m a b c \<Longrightarrow> three (set_word m c i w) a b c"
  by (simp add: three_def set_word_def)

lemma flags_and: "(x OR y OR PTE_P) AND PTE_P = PTE_P" "(x OR PTE_W OR PTE_P) AND (PTE_P OR PTE_W) = PTE_P OR PTE_W"
    "pde p AND PTE_P = PTE_P" "pde p AND (PTE_P OR PTE_W) = PTE_P OR PTE_W"
  unfolding pde_def by (rule bit_word_eqI, auto simp: bit_simps)+

text \<open>Memory through the table.\<close>

lemma hw_st:
  assumes th: "three m a b c" and va: "PDX va = 0" "t (PTX va) = pte p PTE_W" and p: "p < npages m"
  shows "hw_frame PTE_P (kern_pgdir m) va (st m a b c fl la lb lc ra rb rc (pde a) d1 t tlb) = Some p"
    "hw_frame (PTE_P OR PTE_W) (kern_pgdir m) va (st m a b c fl la lb lc ra rb rc (pde a) d1 t tlb) = Some p"
proof -
  have n: "a < 0x100000" "p < 0x100000" using threeD(1,2) [OF th] p by simp_all
  show "hw_frame PTE_P (kern_pgdir m) va (st m a b c fl la lb lc ra rb rc (pde a) d1 t tlb) = Some p"
    "hw_frame (PTE_P OR PTE_W) (kern_pgdir m) va (st m a b c fl la lb lc ra rb rc (pde a) d1 t tlb) = Some p"
    using pde_facts(2) [OF n(1)] pte_facts(1) [OF n(2), of PTE_W] va flags_and
    by (simp_all add: hw_frame_def st_three [OF th] Let_def) (simp_all add: pte_def)
qed

section \<open>The stages\<close>

lemma low_pages: "PDX 0 = 0" "PTX 0 = 0" "PDX PGSIZE = 0" "PTX PGSIZE = 1" "PDX PTSIZE = 1" "PTX PTSIZE = 0"
    "PDX (PGSIZE * word_of_nat NPDENTRIES + PGSIZE) = 1" "PTX (PGSIZE * word_of_nat NPDENTRIES + PGSIZE) = 1"
  by (simp_all add: PDX_nat PTX_nat PGNUM_nat layout)

lemma va2pa_pte: "p < 0x100000 \<Longrightarrow> perm_bits perm \<Longrightarrow> va2pa (pte p perm) = page2pa p"
  using pte_facts by (simp add: va2pa_def)

lemma first_passes:
  assumes th: "three m a b c"
  shows "check_page_first a b (st m a b c None None None None 0 0 0 0 0 t tlb) = Some (st m a b c None None None None 1 1 0 (pde a) 0 ((\<lambda>_. 0)(0 := pte b PTE_W)) tlb)"
proof -
  note td = threeD [OF th]
  have a: "a < 0x100000" "b < 0x100000" using td(1-3) by simp_all
  have "alloc_none (st m a b c None None None None 0 0 0 0 0 t tlb) = Some (st m a b c None None None None 0 0 0 0 0 t tlb)" by (simp add: alloc_none_empty)
  then show ?thesis
    by (simp add: check_page_first_def insert_checked_def maps_to_def assert_def Let_def low_pages lookup_st [OF th]
        insert_fails [OF th] kerrs free_st [OF th] insert_new [OF th] st_three [OF th] va2pa_st [OF th] va2pa_pte pde_facts a)
qed

lemma second_passes:
  assumes th: "three m a b c"
  shows "\<exists>tlb'. check_page_second c (st m a b c None None None None 1 1 0 (pde a) 0 ((\<lambda>_. 0)(0 := w)) tlb)
    = Some (st m a b c None None None None 1 1 1 (pde a) 0 ((\<lambda>_. 0)(0 := w, 1 := pte c PTE_W)) tlb')"
proof -
  note td = threeD [OF th]
  have a: "a < 0x100000" "c < 0x100000" using td(1-4) by simp_all
  have none: "alloc_none (st m a b c None None None None ra rb rc d0 d1 t tlb) = Some (st m a b c None None None None ra rb rc d0 d1 t tlb)" for ra rb rc d0 d1 t tlb
    by (simp add: alloc_none_empty)
  have pb: "perm_bits (PTE_W OR PTE_U)" by (simp add: perm_bits_or)
  have flags: "PTE_U \<noteq> 0" "PTE_W \<noteq> 0" "PTE_W AND PTE_U = 0" by (simp_all add: pte_bits)
  have one: "PTX PGSIZE = Suc 0" "PDX PGSIZE = 0" using low_pages by simp_all
  note same = insert_same(1) [OF th one(2)]
  show ?thesis
    using page_kaddr [of "st m a b c None None None None ra rb rc d0 d1 t tlb" a for ra rb rc d0 d1 t tlb, simplified, OF td(1,2)]
    by (intro exI) (simp add: check_page_second_def insert_checked_def maps_to_def assert_def Let_def one none
        insert_new(2) [OF th one(2)] st_three [OF th] va2pa_st [OF th] va2pa_pte pde_facts a walk_st(1) [OF th] PGNUM_page2pa
        same [of PTE_W] same [OF pb] pb walked_st [OF th] pte_facts flags)
qed

lemma third_passes:
  assumes th: "three m a b c"
  shows "\<exists>tlb'. check_page_third a b c (st m a b c None None None None 1 1 1 (pde a) 0 ((\<lambda>_. 0)(0 := pte b PTE_W, 1 := pte c PTE_W)) tlb)
    = Some (st m a b c None None None None 1 0 0 (pde a) 0 (\<lambda>_. 0) tlb')"
proof -
  note td = threeD [OF th]
  have a: "a < 0x100000" "b < 0x100000" "c < 0x100000" using td(1-4) by simp_all
  have none: "alloc_none (st m a b c None None None None ra rb rc d0 d1 t tlb) = Some (st m a b c None None None None ra rb rc d0 d1 t tlb)" for ra rb rc d0 d1 t tlb
    by (simp add: alloc_none_empty)
  have pb: "perm_bits 0" by (simp add: perm_bits_def)
  have flags: "PTE_W AND PTE_U = 0" by (simp add: pte_bits)
  have one: "PTX PGSIZE = Suc 0" "PDX PGSIZE = 0" "PDX PTSIZE = 1" using low_pages by simp_all
  have zero: "va2pa 0 = NOT 0" "(\<lambda>_. 0)(0 := pte b PTE_W, Suc 0 := x, 0 := 0) = (\<lambda>_. 0 :: u32w)(Suc 0 := x)"
    "(\<lambda>_. 0 :: u32w)(Suc 0 := 0) = (\<lambda>_. 0)" for x by (auto simp: va2pa_0)
  show ?thesis
    by (intro exI) (simp add: check_page_third_def insert_checked_def maps_to_def assert_def Let_def low_pages(1,2) one none zero
        insert_fails(2) [OF th one(3)] kerrs insert_over [OF th one(2), of PTE_W] walked_st [OF th] pte_facts a flags
        va2pa_st [OF th] va2pa_pte st_three [OF th] alloc_st [OF th] remove_b [OF th low_pages(1), of PTE_W] remove_b [OF th one(2) pb] insert_same(2) [OF th one(2), of PTE_W]
        insert_same(2) [OF th one(2) pb] pb)
qed

lemma tables_pass:
  assumes th: "three m a b c"
  shows "check_page_tables a (st m a b c None None None None 1 0 0 (pde a) 0 t tlb) = Some (st m a b c None None None None 0 0 0 0 0 (\<lambda>_. 0) tlb)"
proof -
  note td = threeD [OF th]
  have a: "a < 0x100000" using td(1,2) by simp
  have fill: "\<exists>t'. fill_words a n w (st m a b c fl la lb lc ra rb rc d0 d1 t tlb) = st m a b c fl la lb lc ra rb rc d0 d1 t' tlb" for n w fl la lb lc ra rb rc d0 d1 t tlb
    unfolding fill_words_def by (blast intro: page_st)
  obtain t' where f: "fill_words a 1024 0xFFFFFFFF (st m a b c None None None None 0 0 0 0 0 (\<lambda>_. 0) tlb) = st m a b c None None None None 0 0 0 0 0 t' tlb"
    using fill by blast
  note k = page_kaddr [of "st m a b c fl la lb lc ra rb rc d0 d1 t tlb" a for fl la lb lc ra rb rc d0 d1 t tlb, simplified, OF td(1,2)]
  define va where "va = PGSIZE * word_of_nat NPDENTRIES + PGSIZE"
  have va: "PDX va = Suc 0" "PTX va = Suc 0" using low_pages(7,8) by (simp_all add: va_def)
  note w = walk_st(6) [OF th, of va] walk_st(4) [OF th low_pages(1)]
  show ?thesis unfolding check_page_tables_def va_def [symmetric]
    using k by (simp add: assert_def Let_def st_three [OF th] pde_facts a drop_st [OF th] drop_st(2) [OF th, unfolded One_nat_def] free_st [OF th]
      w va PGNUM_page2pa page2kva_def f)
qed

text \<open>All of it, from an allocator with three free pages and nothing mapped in the first eight megabytes.\<close>

lemma stolen_pages:
  assumes "alloc_ok m" and "free_pages m = a # b # c # r" and "kern_pgdir m < npages m" and "kern_pgdir m \<notin> set (free_pages m)"
    and "frames m (kern_pgdir m) 0 = 0" and "frames m (kern_pgdir m) 1 = 0"
  defines "m0 \<equiv> taken a b c None m"
  shows "three m0 a b c" "m0 = st m0 a b c None None None None 0 0 0 0 0 (frames m a) (invalidated m)"
proof -
  note ok = alloc_okD [OF assms(1)]
  show "three m0 a b c" using ok(1,3,4) assms(2-4) by (auto simp: three_def m0_def taken_def)
  have "pp_ref m a = 0" "pp_ref m b = 0" "pp_ref m c = 0" "a \<noteq> kern_pgdir m" using ok(5) assms(2,4) by auto
  then show "m0 = st m0 a b c None None None None 0 0 0 0 0 (frames m a) (invalidated m)"
    using assms(5,6) by (cases m) (auto simp: m0_def taken_def st_def fun_eq_iff)
qed

end
