(* ===== verification/Kern_Init.thy ===== *)
theory Kern_Init
  imports Kern_Check_Tables
begin

text \<open>
  Memory from the start: the check of the page functions passes, the kernel's address space is built and passes
  its check, and \<open>mem_init\<close> returns with all of it.
\<close>

section \<open>The check of the page functions\<close>

text \<open>A state with its pages free again, whatever the order and their contents.\<close>

lemma st_checked:
  assumes ok: "alloc_ok m" and kd: "kern_pgdir m \<notin> set (free_pages m)" and fp: "free_pages m = a # b # c # r"
    and zero: "frames m (kern_pgdir m) 0 = 0" "frames m (kern_pgdir m) 1 = 0"
    and base: "same_rest m m0" "pp_ref m0 = pp_ref m" "\<And>p. p \<notin> {a, b, c} \<Longrightarrow> pp_link m0 p = pp_link m p"
      "\<And>p. p \<notin> set (free_pages m) \<Longrightarrow> frames m0 p = frames m p"
    and ch: "chain ((pp_link m)(a := la, b := lb, c := lc)) fl xs" and xs: "distinct xs" "set xs = set (free_pages m)"
  shows "checked m (st m0 a b c fl la lb lc 0 0 0 0 0 t tlb)" "free_pages (st m0 a b c fl la lb lc 0 0 0 0 0 t tlb) = xs"
proof -
  let ?m = "st m0 a b c fl la lb lc 0 0 0 0 0 t tlb"
  have refs: "pp_ref m a = 0" "pp_ref m b = 0" "pp_ref m c = 0" using alloc_okD(5) [OF ok] fp by auto
  have f: "pp_link ?m = (pp_link m)(a := la, b := lb, c := lc)" "page_free_list ?m = fl"
    using base(3) by (auto simp: st_def fun_eq_iff)
  have d: "kern_pgdir m0 = kern_pgdir m" using base(1) by (simp add: same_rest_def)
  have "frames ?m p = frames m p" if "p \<notin> set (free_pages m)" for p
    using that fp zero base(4) [OF that] base(4) [OF kd] by (auto simp: st_def d fun_eq_iff)
  moreover have "same_rest m ?m" "pp_ref ?m = pp_ref m" using base(1,2) refs by (auto simp: st_def same_rest_def fun_eq_iff)
  ultimately show "checked m ?m" "free_pages ?m = xs"
    using checkedI [OF ok _ _ xs, of ?m] ch f fp by auto
qed

lemma check_page_user:
  assumes ok: "alloc_ok m" and n: "3 \<le> length (free_pages m)" and kd: "kern_pgdir m < npages m" "kern_pgdir m \<notin> set (free_pages m)"
    and zero: "frames m (kern_pgdir m) 0 = 0" "frames m (kern_pgdir m) 1 = 0"
  shows "\<exists>m'. check_page m = check_mmio m' \<and> checked m m'"
proof -
  obtain a b c r where r: "free_pages m = a # b # c # r" and l: "page_free_list m = Some a" "pp_link m a = Some b" "pp_link m b = Some c"
    "chain (pp_link m) (pp_link m c) r" and d: "distinct (a # b # c # r)" using three_pages [OF ok n] by metis
  let ?m = "taken a b c None m"
  note s = stolen_pages [OF ok r kd zero]
  have abc: "distinct [a, b, c]" using d by auto
  have first: "alloc_three m = Some (a, b, c, taken a b c (pp_link m c) m)" by (rule alloc_three_taken [OF l(1-3) abc])
  have fl: "page_free_list (taken a b c (pp_link m c) m) = pp_link m c" by (simp add: taken_def)
  have steal: "(taken a b c (pp_link m c) m)\<lparr>page_free_list := None\<rparr> = ?m" by (simp add: taken_def)
  obtain tlb1 tlb2 where run: "check_page_first a b ?m = Some (st ?m a b c None None None None 1 1 0 (pde a) 0 ((\<lambda>_. 0)(0 := pte b PTE_W)) (invalidated m))"
    "check_page_second c (st ?m a b c None None None None 1 1 0 (pde a) 0 ((\<lambda>_. 0)(0 := pte b PTE_W)) (invalidated m))
      = Some (st ?m a b c None None None None 1 1 1 (pde a) 0 ((\<lambda>_. 0)(0 := pte b PTE_W, 1 := pte c PTE_W)) tlb1)"
    "check_page_third a b c (st ?m a b c None None None None 1 1 1 (pde a) 0 ((\<lambda>_. 0)(0 := pte b PTE_W, 1 := pte c PTE_W)) tlb1)
      = Some (st ?m a b c None None None None 1 0 0 (pde a) 0 (\<lambda>_. 0) tlb2)"
    using first_passes [OF s(1), of "frames m a" "invalidated m", folded s(2)] second_passes [OF s(1)] third_passes [OF s(1)] by blast
  let ?e = "st ?m a b c (pp_link m c) None None None 0 0 0 0 0 (\<lambda>_. 0) tlb2"
  let ?final = "st ?m a b c (Some c) (pp_link m c) (Some a) (Some b) 0 0 0 0 0 (\<lambda>_. 0) tlb2"
  have give: "(st ?m a b c None None None None 0 0 0 0 0 (\<lambda>_. 0) tlb2)\<lparr>page_free_list := pp_link m c\<rparr> = ?e" by (simp add: st_def)
  have "check_page m = check_mmio ?final"
    unfolding check_page_def first
    by (simp add: Let_def steal fl run [unfolded One_nat_def] tables_pass [OF s(1)] give free_st [OF s(1)])
  moreover have "checked m ?final"
  proof (rule st_checked(1) [OF ok kd(2) r zero, where xs = "c # b # a # r"])
    show "same_rest m ?m" "pp_ref ?m = pp_ref m" "\<And>p. p \<notin> {a, b, c} \<Longrightarrow> pp_link ?m p = pp_link m p"
      "\<And>p. p \<notin> set (free_pages m) \<Longrightarrow> frames ?m p = frames m p" by (auto simp: taken_def same_rest_def)
    let ?link = "(pp_link m)(a := pp_link m c, b := Some a, c := Some b)"
    have "chain ?link (pp_link m c) r = chain (pp_link m) (pp_link m c) r" using d by (intro chain_cong) auto
    then show "chain ?link (Some c) (c # b # a # r)" using l(4) abc by auto
  qed (use d r in auto)
  ultimately show ?thesis by blast
qed

section \<open>Device memory\<close>

text \<open>The kernel's directory holds the virtual page table and nothing else.\<close>

definition boot_start :: "'a mem_scheme \<Rightarrow> bool" where
  "boot_start m \<longleftrightarrow> alloc_ok m \<and> kern_pgdir m < npages m \<and> kern_pgdir m \<notin> set (free_pages m)
     \<and> (\<exists>w. w AND PTE_P \<noteq> 0 \<and> frames m (kern_pgdir m) = (\<lambda>_. 0)(PDX UVPT := w))
     \<and> 68 \<le> length (free_pages m) \<and> mmio_base m = MMIOBASE"

lemma checked_length: "alloc_ok m \<Longrightarrow> checked m m' \<Longrightarrow> length (free_pages m') = length (free_pages m)"
  using distinct_card [of "free_pages m"] distinct_card [of "free_pages m'"] by (simp add: checked_def alloc_ok_def)

lemma boot_start_checked: "boot_start m \<Longrightarrow> checked m m' \<Longrightarrow> boot_start m'"
  using checked_length [of m m'] by (auto simp: boot_start_def checked_def same_rest_def)

lemma boot_start_kdir:
  assumes "boot_start m"
  shows "kdir_ok m (kern_pgdir m)" "unmapped_kernel m (kern_pgdir m)" "\<And>s. kslot s \<Longrightarrow> table m (kern_pgdir m) s = None"
    "card (missing m (kern_pgdir m)) = 68" "\<And>s. s < 955 \<Longrightarrow> frames m (kern_pgdir m) s = 0" "frames m (kern_pgdir m) (PDX UVPT) AND PTE_P \<noteq> 0"
proof -
  obtain w where w: "w AND PTE_P \<noteq> 0" "frames m (kern_pgdir m) = (\<lambda>_. 0)(PDX UVPT := w)" using assms by (auto simp: boot_start_def)
  show tab: "table m (kern_pgdir m) s = None" if "kslot s" for s
    using that w(2) by (auto simp: table_def kslot_def slot_numbers)
  have "missing m (kern_pgdir m) = {955, 956, 958, 959} \<union> {960..<1024}" using tab by (auto simp: missing_def kslot_def)
  moreover have "card ({955, 956, 958, 959} \<union> {960..<1024 :: nat}) = card {955, 956, 958, 959 :: nat} + card {960..<1024 :: nat}"
    by (rule card_Un_disjoint) auto
  ultimately show c: "card (missing m (kern_pgdir m)) = 68" by simp
  show "unmapped_kernel m (kern_pgdir m)" using tab by (simp add: unmapped_kernel_def entry_def)
  show "kdir_ok m (kern_pgdir m)" using assms tab c by (auto simp: kdir_ok_def boot_start_def missing_def)
  show "frames m (kern_pgdir m) s = 0" if "s < 955" for s using w(2) that by (simp add: slot_numbers)
  show "frames m (kern_pgdir m) (PDX UVPT) AND PTE_P \<noteq> 0" using w by simp
qed

lemma kdir_mmio: "kdir_ok (m\<lparr>mmio_base := x\<rparr>) d = kdir_ok m d" "entry (m\<lparr>mmio_base := x\<rparr>) d v = entry m d v"
    "table (m\<lparr>mmio_base := x\<rparr>) d s = table m d s" "missing (m\<lparr>mmio_base := x\<rparr>) d = missing m d"
    "free_pages (m\<lparr>mmio_base := x\<rparr>) = free_pages m" "kframes (m\<lparr>mmio_base := x\<rparr>) d = kframes m d"
  by (simp_all add: kdir_ok_def alloc_ok_def free_pages_def table_def entry_def missing_def kframes_def)

lemma boot_same_mmio: "boot_same d m m' \<Longrightarrow> boot_same d (m\<lparr>mmio_base := x\<rparr>) (m'\<lparr>mmio_base := x\<rparr>)"
  by (simp add: boot_same_def kdir_mmio)

lemma walked_entry:
  assumes ok: "kdir_ok m d" and s: "kslot (PDX va)" and t: "table m d (PDX va) = Some t"
  shows "walked d va m = Some (entry m d (PGNUM va))"
  using walk_at [OF kdir_okD(2) [OF ok] t] kdir_okD(5) [OF ok s t] t by (simp add: walked_def entry_pte)

lemma maps_to_entry: "kdir_ok m d \<Longrightarrow> kslot (PDX va) \<Longrightarrow> va2pa (entry m d (PGNUM va)) = pa \<Longrightarrow> maps_to d va pa m = Some ()"
  by (simp add: maps_to_def va2pa_entry assert_def)

lemma clear_entry_ok:
  assumes ok: "kdir_ok m d" and d: "d = kern_pgdir m" and s: "kslot (PDX va)" and t: "table m d (PDX va) \<noteq> None"
  obtains m' where "clear_entry va m = Some m'" "kdir_ok m' d" "boot_same d m m'"
    "\<And>v. kslot (v div 1024) \<Longrightarrow> entry m' d v = (if v = PGNUM va then 0 else entry m d v)"
proof -
  obtain u where u: "table m d (PDX va) = Some u" using t by auto
  note k = kentry_set [OF ok s u, where w = 0]
  have "clear_entry va m = Some (set_word m u (PTX va) 0)"
    using walk_at [OF kdir_okD(2) [OF ok] u] kdir_okD(5) [OF ok s u] d by (simp add: clear_entry_def)
  then show thesis using that k by blast
qed

definition mmio_page :: nat where "mmio_page = 0xEF800"
definition mmio_perm :: u32w where "mmio_perm = PTE_W OR PTE_P OR PTE_PCD OR PTE_PWT"

text \<open>A region at the current base of device memory.\<close>

lemma mmio_region:
  assumes ok: "kdir_ok m d" and d: "d = kern_pgdir m" and base: "unat (mmio_base m) = (mmio_page + i) * 4096" and n: "i + n < 1024"
    and sz: "unat (ROUNDUP sz PGSIZE) = n * 4096"
    and zero: "\<And>j. j < n \<Longrightarrow> entry m d (mmio_page + i + j) = 0"
  obtains m' where "mmio_map_region 0 sz m = Some (mmio_base m, m')" "kdir_ok m' d" "boot_same d m (m'\<lparr>mmio_base := mmio_base m\<rparr>)"
    "mmio_base m' = mmio_base m + ROUNDUP sz PGSIZE" "unat (mmio_base m') = (mmio_page + i + n) * 4096"
    "\<And>v. kslot (v div 1024) \<Longrightarrow> entry m' d v
       = (if mmio_page + i \<le> v \<and> v < mmio_page + i + n then region_pte 0 mmio_perm (v - (mmio_page + i)) else entry m d v)"
    "0 < n \<Longrightarrow> table m' d 958 \<noteq> None"
proof -
  let ?p = "mmio_page + i"
  have slot: "v div 1024 = 958" if "?p \<le> v" "v < ?p + n" for v
    using that n by (intro div_nat_eqI) (simp_all add: mmio_page_def)
  have fits: "?p + n \<le> 0x100000" using n by (simp add: mmio_page_def)
  have z: "kslot (v div 1024) \<and> entry m d v = 0" if "?p \<le> v" "v < ?p + n" for v
    using slot [OF that] zero [of "v - ?p"] that by (simp add: kslot_def)
  obtain m1 where m1: "boot_map_region d (mmio_base m) (ROUNDUP sz PGSIZE) 0 mmio_perm m = Some m1" "kdir_ok m1 d" "boot_same d m m1"
    "\<And>v. ?p \<le> v \<Longrightarrow> v < ?p + n \<Longrightarrow> table m1 d (v div 1024) \<noteq> None"
    "\<And>v. kslot (v div 1024) \<Longrightarrow> entry m1 d v = (if ?p \<le> v \<and> v < ?p + n then region_pte 0 mmio_perm (v - ?p) else entry m d v)"
    by (rule boot_region [OF ok sz base fits z, where pa = 0 and perm = mmio_perm]) (assumption+, rule that)
  let ?m = "m1\<lparr>mmio_base := mmio_base m + ROUNDUP sz PGSIZE\<rparr>"
  have sum: "unat (mmio_base m + ROUNDUP sz PGSIZE) = (?p + n) * 4096"
    using base sz n by (subst unat_add_lem [THEN iffD1]) (simp_all add: distrib_right mmio_page_def)
  then have "mmio_base m + ROUNDUP sz PGSIZE < MMIOLIM" using n by (simp add: word_less_nat_alt layout mmio_page_def)
  moreover have "ROUNDDOWN 0 PGSIZE = 0" by (simp add: ROUNDDOWN_def)
  ultimately have run: "mmio_map_region 0 sz m = Some (mmio_base m, ?m)"
    using m1(1) d by (simp add: mmio_map_region_def Let_def mmio_perm_def not_le)
  have same: "boot_same d m (?m\<lparr>mmio_base := mmio_base m\<rparr>)"
    using m1(3) by (simp add: boot_same_def kdir_mmio)
  have "table ?m d 958 \<noteq> None" if "0 < n" using m1(4) [of ?p] slot [of ?p] that by (simp add: kdir_mmio)
  then show thesis using m1(5) sum by (intro that [OF run _ same]) (simp_all add: kdir_mmio m1(2))
qed

lemma mmio_pte:
  "va2pa (region_pte 0 mmio_perm j) = word_of_nat (j * 4096)" "region_pte 0 mmio_perm 0 AND (PTE_W OR PTE_PWT OR PTE_PCD) \<noteq> 0"
  "region_pte 0 mmio_perm 0 AND PTE_U = 0"
proof -
  have "perm_bits mmio_perm" by (simp add: mmio_perm_def perm_bits_def pte_bits)
  then show "va2pa (region_pte 0 mmio_perm j) = word_of_nat (j * 4096)"
    using va2pa_region [of 0 mmio_perm j] by (simp add: aligned_def)
qed (simp_all add: region_pte_def mmio_perm_def pte_bits)

lemma mmio_addrs: "PGNUM MMIOBASE = mmio_page" "PGNUM (MMIOBASE + PGSIZE) = mmio_page + 1" "PGNUM (MMIOBASE + 0x2000) = mmio_page + 2"
    "PGNUM (MMIOBASE + 0x2000 + PGSIZE) = mmio_page + 3"
    "PDX MMIOBASE = 958" "PDX (MMIOBASE + PGSIZE) = 958" "PDX (MMIOBASE + 0x2000) = 958" "PDX (MMIOBASE + 0x2000 + PGSIZE) = 958"
  by (simp_all add: PDX_nat PGNUM_nat layout mmio_page_def)

lemma check_mmio_ok:
  assumes start: "boot_start m"
  shows "\<exists>m'. check_mmio m = Some m' \<and> boot_ready m' \<and> boot_same (kern_pgdir m) m (m'\<lparr>mmio_base := mmio_base m\<rparr>)
    \<and> unat (mmio_base m') = (mmio_page + 3) * 4096"
proof -
  let ?d = "kern_pgdir m" and ?p = mmio_page
  note k = boot_start_kdir [OF start]
  have base: "mmio_base m = MMIOBASE" "unat (mmio_base m) = (?p + 0) * 4096"
    using start by (simp_all add: boot_start_def layout mmio_page_def)
  have sz: "ROUNDUP 4097 PGSIZE = 0x2000" "ROUNDUP 4096 PGSIZE = 0x1000" by (simp_all add: ROUNDUP_def ROUNDDOWN_def PGSIZE_def)
  have slot: "kslot 958" by (simp add: kslot_def)
  have page: "(?p + j) div 1024 = 958" if "j < 1024" for j using that by (simp add: mmio_page_def)
  have z: "entry m ?d v = 0" if "kslot (v div 1024)" for v using k(2) that by (simp add: unmapped_kernel_def)
  obtain m1 where m1: "mmio_map_region 0 4097 m = Some (mmio_base m, m1)" "kdir_ok m1 ?d" "boot_same ?d m (m1\<lparr>mmio_base := mmio_base m\<rparr>)"
    "mmio_base m1 = MMIOBASE + 0x2000" "unat (mmio_base m1) = (?p + 0 + 2) * 4096"
    "\<And>v. kslot (v div 1024) \<Longrightarrow> entry m1 ?d v = (if ?p + 0 \<le> v \<and> v < ?p + 0 + 2 then region_pte 0 mmio_perm (v - (?p + 0)) else entry m ?d v)"
    "table m1 ?d 958 \<noteq> None"
    by (rule mmio_region [OF k(1) refl base(2), where n = 2 and sz = 4097])
      (use sz z slot page base(1) in auto)
  have base1: "unat (mmio_base m1) = (?p + 2) * 4096" using m1(5) by simp
  have d1: "?d = kern_pgdir m1" using m1(3) by (simp add: boot_same_def)
  have e1: "entry m1 ?d (?p + 2) = 0" "entry m1 ?d (?p + 3) = 0" using m1(6) z slot page [of 2] page [of 3] by simp_all
  then have zero2: "entry m1 ?d (?p + 2 + j) = 0" if "j < 1" for j using that by simp
  obtain m2 where m2: "mmio_map_region 0 4096 m1 = Some (mmio_base m1, m2)" "kdir_ok m2 ?d" "boot_same ?d m1 (m2\<lparr>mmio_base := mmio_base m1\<rparr>)"
    "unat (mmio_base m2) = (?p + 2 + 1) * 4096"
    "\<And>v. kslot (v div 1024) \<Longrightarrow> entry m2 ?d v = (if ?p + 2 \<le> v \<and> v < ?p + 2 + 1 then region_pte 0 mmio_perm (v - (?p + 2)) else entry m1 ?d v)"
    by (rule mmio_region [OF m1(2) d1 base1 _ _ zero2, where n = 1 and sz = 4096]) (use sz in auto)
  have d2: "?d = kern_pgdir m2" using m2(3) d1 by (simp add: boot_same_def)
  obtain t where t: "table m2 ?d 958 = Some t" using m1(7) m2(3) by (auto simp: boot_same_def kdir_mmio)
  have ent: "entry m2 ?d ?p = region_pte 0 mmio_perm 0" "entry m2 ?d (?p + 1) = region_pte 0 mmio_perm 1"
    "entry m2 ?d (?p + 2) = region_pte 0 mmio_perm 0" "entry m2 ?d (?p + 3) = 0"
    using m2(5) m1(6) e1 slot page [of 0] page [of 1] page [of 2] page [of 3] by simp_all
  have maps: "maps_to ?d MMIOBASE 0 m2 = Some ()" "maps_to ?d (MMIOBASE + PGSIZE) PGSIZE m2 = Some ()"
    "maps_to ?d (MMIOBASE + 0x2000) 0 m2 = Some ()" "maps_to ?d (MMIOBASE + 0x2000 + PGSIZE) (NOT 0) m2 = Some ()"
    using ent slot by (auto intro!: maps_to_entry [OF m2(2)] simp: mmio_addrs mmio_pte va2pa_0) (simp add: PGSIZE_def)
  have walk: "walked ?d MMIOBASE m2 = Some (region_pte 0 mmio_perm 0)"
    using walked_entry [OF m2(2), of MMIOBASE t] slot t ent(1) by (simp add: mmio_addrs)
  note clear = clear_entry_ok [where d = "?d"]
  obtain m3 where m3: "clear_entry MMIOBASE m2 = Some m3" "kdir_ok m3 ?d" "boot_same ?d m2 m3"
    "\<And>v. kslot (v div 1024) \<Longrightarrow> entry m3 ?d v = (if v = ?p then 0 else entry m2 ?d v)"
    by (rule clear [OF m2(2) d2, where va = MMIOBASE]) (use slot t mmio_addrs in auto)
  have d3: "?d = kern_pgdir m3" and t3: "table m3 ?d 958 = Some t" using m3(3) d2 t by (auto simp: boot_same_def)
  obtain m4 where m4: "clear_entry (MMIOBASE + PGSIZE) m3 = Some m4" "kdir_ok m4 ?d" "boot_same ?d m3 m4"
    "\<And>v. kslot (v div 1024) \<Longrightarrow> entry m4 ?d v = (if v = ?p + 1 then 0 else entry m3 ?d v)"
    by (rule clear [OF m3(2) d3, where va = "MMIOBASE + PGSIZE"]) (use slot t3 mmio_addrs in auto)
  have d4: "?d = kern_pgdir m4" and t4: "table m4 ?d 958 = Some t" using m4(3) d3 t3 by (auto simp: boot_same_def)
  obtain m5 where m5: "clear_entry (MMIOBASE + 0x2000) m4 = Some m5" "kdir_ok m5 ?d" "boot_same ?d m4 m5"
    "\<And>v. kslot (v div 1024) \<Longrightarrow> entry m5 ?d v = (if v = ?p + 2 then 0 else entry m4 ?d v)"
    by (rule clear [OF m4(2) d4, where va = "MMIOBASE + 0x2000"]) (use slot t4 mmio_addrs in auto)
  have t5: "table m5 ?d 958 = Some t" using m5(3) t4 by (auto simp: boot_same_def)
  have "entry m5 ?d v = 0" if "kslot (v div 1024)" for v
    using m5(4) [OF that] m4(4) [OF that] m3(4) [OF that] m2(5) [OF that] m1(6) [OF that] z [OF that] by auto
  then have "unmapped_kernel m5 ?d" by (simp add: unmapped_kernel_def)
  moreover have same: "boot_same ?d m (m5\<lparr>mmio_base := mmio_base m\<rparr>)"
    using m1(3) boot_same_mmio [OF m2(3), of "mmio_base m"] boot_same_mmio [OF m3(3), of "mmio_base m"]
      boot_same_mmio [OF m4(3), of "mmio_base m"] boot_same_mmio [OF m5(3), of "mmio_base m"]
    by (simp, blast intro: boot_same_trans)
  ultimately have "boot_ready m5"
    using m5(2) t5 k(5,6) by (auto simp: boot_ready_def boot_same_def kslot_def slot_numbers)
  moreover have "check_mmio m = Some m5"
    using m1(1) m2(1) m3(1) m4(1) m5(1) maps walk base(1) m1(4) d2
    by (simp add: check_mmio_def assert_def mmio_pte) (simp add: layout)
  moreover have "unat (mmio_base m5) = (?p + 3) * 4096" using m2(4) m3(3) m4(3) m5(3) by (simp add: boot_same_def)
  ultimately show ?thesis using same by blast
qed

text \<open>The whole check, from a directory that only holds the virtual page table: it passes, and leaves the kernel's
  directory with one empty table for device memory.\<close>

lemma check_page_passes:
  assumes start: "boot_start m"
  shows "\<exists>m' m1. check_page m = Some m' \<and> checked m m1 \<and> boot_ready m' \<and> boot_same (kern_pgdir m) m1 (m'\<lparr>mmio_base := mmio_base m1\<rparr>)
    \<and> unat (mmio_base m') = (mmio_page + 3) * 4096"
proof -
  have "alloc_ok m" "3 \<le> length (free_pages m)" "kern_pgdir m < npages m" "kern_pgdir m \<notin> set (free_pages m)"
    using start by (auto simp: boot_start_def)
  then obtain m1 where m1: "check_page m = check_mmio m1" "checked m m1"
    using check_page_user boot_start_kdir(5) [OF start] by fastforce
  have "kern_pgdir m1 = kern_pgdir m" using m1(2) by (simp add: checked_def same_rest_def)
  then show ?thesis using check_mmio_ok [OF boot_start_checked [OF start m1(2)]] m1 by metis
qed

section \<open>The installed directory\<close>

lemma check_page_installed_passes:
  assumes ok: "alloc_ok m" and n: "3 \<le> length (free_pages m)" and kd: "kern_pgdir m < npages m" "kern_pgdir m \<notin> set (free_pages m)"
    and zero: "frames m (kern_pgdir m) 0 = 0" "frames m (kern_pgdir m) 1 = 0"
  shows "\<exists>m'. check_page_installed_pgdir m = Some m' \<and> checked m m'"
proof -
  obtain a b c r where r: "free_pages m = a # b # c # r" and l: "page_free_list m = Some a" "pp_link m a = Some b" "pp_link m b = Some c"
    "chain (pp_link m) (pp_link m c) r" and d: "distinct (a # b # c # r)" using three_pages [OF ok n] by metis
  have abc: "a \<noteq> b" "a \<noteq> c" "b \<noteq> c" "b \<noteq> a" "c \<noteq> a" "c \<noteq> b" using d by auto
  note okd = alloc_okD [OF ok]
  define u where "u = pp_link m c"
  define m0 where "m0 = fill_words c 1024 0x02020202 (fill_words b 1024 0x01010101 (taken a b c u m))"
  have th: "three m0 a b c" using okd(1,4) r kd abc by (auto simp: three_def m0_def fill_words_def taken_def)
  note td = threeD [OF th] and f = st_three [OF th]
  have kd0: "kern_pgdir m0 = kern_pgdir m" by (simp add: m0_def fill_words_def taken_def)
  define S where "S = st m0 a b c (Some a) u None None 0 0 0 0 0 (frames m a) (invalidated m)"
  have start: "do { (page, m) \<leftarrow> page_alloc 0 m; pp0 \<leftarrow> page; (page, m) \<leftarrow> page_alloc 0 m; pp1 \<leftarrow> page; (page, m) \<leftarrow> page_alloc 0 m; pp2 \<leftarrow> page;
      m \<leftarrow> page_free pp0 m; _ \<leftarrow> page2kva m pp1; let m = fill_words pp1 1024 0x01010101 m; _ \<leftarrow> page2kva m pp2;
      let m = fill_words pp2 1024 0x02020202 m; f pp0 pp1 pp2 m } = f a b c S" for f
  proof -
    let ?a1 = "m\<lparr>page_free_list := Some b, pp_link := (pp_link m)(a := None)\<rparr>"
    let ?a2 = "?a1\<lparr>page_free_list := Some c, pp_link := (pp_link ?a1)(b := None)\<rparr>"
    let ?a4 = "(taken a b c u m)\<lparr>pp_link := (pp_link (taken a b c u m))(a := u), page_free_list := Some a\<rparr>"
    have alloc: "page_alloc 0 m = Some (Some a, ?a1)" "page_alloc 0 ?a1 = Some (Some b, ?a2)" "page_alloc 0 ?a2 = Some (Some c, taken a b c u m)"
      using l abc by (simp_all add: page_alloc_def taken_def u_def)
    have free: "page_free a (taken a b c u m) = Some ?a4" using okd(5) r abc by (simp add: page_free_def taken_def)
    have np: "PGNUM (page2pa x) < npages m" if "x \<in> {a, b, c}" for x
    proof -
      have "x < npages m" using okd(4) r that by auto
      then show ?thesis using okd(1) by (simp add: PGNUM_page2pa)
    qed
    have kva: "page2kva m' x = Some (page2pa x + KERNBASE)" if "x \<in> {a, b, c}" "npages m' = npages m" for x and m' :: "'a mem_scheme"
      using np [OF that(1)] that(2) by (simp add: page2kva_def KADDR_def)
    have zero': "frames m (kern_pgdir m) = (frames m (kern_pgdir m))(0 := 0, 1 := 0)" using zero by (simp add: fun_eq_iff)
    have refs: "pp_ref m = (pp_ref m)(a := 0, b := 0, c := 0)" using okd(5) r by (simp add: fun_eq_iff)
    have fin: "fill_words c 1024 0x02020202 (fill_words b 1024 0x01010101 ?a4) = S"
      using abc zero' refs kd(2) r by (cases m) (auto simp: S_def m0_def st_def fill_words_def taken_def fun_eq_iff)
    show ?thesis using alloc free fin by (simp add: kva fill_words_def [of b] taken_def [of a b c u m] Let_def)
  qed
  have p: "frames m0 b 0 = 0x01010101" "frames m0 c 0 = 0x02020202" using abc by (simp_all add: m0_def fill_words_def)
  have fr: "frames (st m0 a b c fl la lb lc ra rb rc d0 d1 t tlb) b = frames m0 b"
    "frames (st m0 a b c fl la lb lc ra rb rc d0 d1 t tlb) c = frames m0 c" for fl la lb lc ra rb rc d0 d1 t tlb
    using td by (simp_all add: st_def)
  have one: "PDX PGSIZE = 0" "PTX PGSIZE = Suc 0" "PGOFF PGSIZE = 0" using low_pages by (simp_all add: PGOFF_def PGSIZE_def)
  define m1 where "m1 = set_word m0 c 0 0x03030303"
  have th1: "three m1 a b c" using three_set [OF th] by (simp add: m1_def)
  have kd1: "kern_pgdir m0 = kern_pgdir m1" "frames m1 c 0 = 0x03030303" by (simp_all add: m1_def set_word_def)
  note f1 = st_three [OF th1]
  have a: "a < 0x100000" using td(1,2) by simp
  have fr1: "frames (st m1 a b c fl la lb lc ra rb rc d0 d1 t tlb) c = frames m1 c" for fl la lb lc ra rb rc d0 d1 t tlb
    using threeD [OF th1] by (simp_all add: st_def)
  have "PGNUM (page2pa c) < npages m1" using threeD(1,4) [OF th1] by (simp add: PGNUM_page2pa)
  then have kva: "page2kva (st m1 a b c fl la lb lc ra rb rc d0 d1 t tlb) c = Some (page2pa c + KERNBASE)" for fl la lb lc ra rb rc d0 d1 t tlb
    by (simp add: page2kva_def KADDR_def)
  have "\<exists>t tlb. check_page_installed_pgdir m = Some (st m1 a b c (Some a) (Some c) u (Some b) 0 0 0 0 0 t tlb)"
    unfolding check_page_installed_pgdir_def start
    by (intro exI) (simp add: S_def Let_def insert_new(3) [OF th one(1)] one f assert_def load_word_def hw_st [OF th one(1)] td fr p
       insert_over_b [OF th one(1), of PTE_W] store_word_def set_c [OF th] m1_def [symmetric] fr1 kd1(2) kva
       remove_c [OF th1 one(1), of PTE_W] f1 pde_facts a drop_st [OF th1] free_st [OF th1])
  moreover have "checked m (st m1 a b c (Some a) (Some c) u (Some b) 0 0 0 0 0 t tlb)" for t tlb
  proof (rule st_checked(1) [OF ok kd(2) r zero, where xs = "a # c # b # r"])
    show "same_rest m m1" "pp_ref m1 = pp_ref m" "\<And>p. p \<notin> {a, b, c} \<Longrightarrow> pp_link m1 p = pp_link m p"
      "\<And>p. p \<notin> set (free_pages m) \<Longrightarrow> frames m1 p = frames m p"
      using r by (auto simp: m1_def m0_def taken_def same_rest_def fill_words_def set_word_def)
    let ?link = "(pp_link m)(a := Some c, b := u, c := Some b)"
    have "chain ?link u r = chain (pp_link m) u r" using d by (intro chain_cong) auto
    then show "chain ?link (Some a) (a # c # b # r)" using l(4) abc by (auto simp: u_def)
  qed (use d r in auto)
  ultimately show ?thesis by blast
qed

end
