(* ===== verification/Kern_Mem_Init.thy ===== *)
theory Kern_Mem_Init
  imports Kern_Init Kern_Props Env_Props
begin

text \<open>
  \<open>mem_init\<close> from the first to the last line: on a machine with room for the kernel's data it returns, with every
  check passed on the way.
\<close>

section \<open>The first allocations\<close>

definition pages_of :: "u32w \<Rightarrow> nat" where
  "pages_of sz = (unat sz + 4095) div 4096"

text \<open>The next free address is page \<open>p\<close> of physical memory.\<close>

definition free_at :: "u32w \<Rightarrow> 'a mem_scheme \<Rightarrow> nat \<Rightarrow> bool" where
  "free_at end_sym m p \<longleftrightarrow>
     unat (if nextfree m = 0 then ROUNDUP end_sym PGSIZE else nextfree m) = 0xF0000000 + p * 4096"

lemma boot_alloc_page:
  assumes "free_at end_sym m p" and "p + pages_of sz < npages m" and "npages m \<le> 0x10000"
  obtains kva nf where "boot_alloc end_sym sz m = Some (kva, m\<lparr>nextfree := nf\<rparr>)" "unat kva = 0xF0000000 + p * 4096"
    "unat nf = 0xF0000000 + (p + pages_of sz) * 4096" "PADDR kva = Some (kva - KERNBASE)" "PGNUM (kva - KERNBASE) = p" "aligned kva"
    "KERNBASE \<le> kva"
proof -
  define kva where "kva = (if nextfree m = 0 then ROUNDUP end_sym PGSIZE else nextfree m)"
  have k: "unat kva = 0xF0000000 + p * 4096" using assms(1) by (simp add: free_at_def kva_def)
  have sz: "unat sz \<le> pages_of sz * 4096" "p * 4096 + unat sz < npages m * 4096"
  proof -
    show "unat sz \<le> pages_of sz * 4096" unfolding pages_of_def by linarith
    then show "p * 4096 + unat sz < npages m * 4096" using assms(2) by linarith
  qed
  have sum: "unat (kva + sz) = 0xF0000000 + (p * 4096 + unat sz)"
    using k sz(2) assms(3) by (subst unat_add_lem [THEN iffD1]) simp_all
  then have ge: "KERNBASE \<le> kva + sz" by (simp add: word_le_nat_alt layout)
  define last where "last = kva + sz - KERNBASE"
  have last: "unat last = p * 4096 + unat sz" using sum ge unfolding last_def by (subst unat_sub) (simp_all add: layout)
  have "unat (PGSIZE * word_of_nat (npages m)) = npages m * 4096 mod 2 ^ 32"
    by (simp add: PGSIZE_def unat_word_ariths unsigned_of_nat take_bit_eq_mod mod_mult_right_eq mult.commute)
  moreover have "npages m * 4096 < 2 ^ 32" using assms(3) by simp
  ultimately have lt: "last < PGSIZE * word_of_nat (npages m)" using last sz(2) by (simp add: word_less_nat_alt)
  have "PGNUM last < npages m" using last sz(2) by (simp add: PGNUM_nat div_less_iff_less_mult)
  then have kaddr: "KADDR m last = Some (kva + sz)" by (simp add: KADDR_def last_def)
  have "p * 4096 + unat sz \<le> 65535 * 4096" using sz(1) assms(2,3) by linarith
  then have nf: "unat (ROUNDUP (kva + sz) PGSIZE) = 0xF0000000 + (p + pages_of sz) * 4096"
  proof -
    have "(0xF0000000 + (p * 4096 + unat sz) + 4095) div 4096 = 0xF0000 + p + pages_of sz" unfolding pages_of_def by linarith
    then show ?thesis using sum \<open>p * 4096 + unat sz \<le> 65535 * 4096\<close> by (subst ROUNDUP_nat) simp_all
  qed
  have "kva \<noteq> 0" using k by auto
  moreover have "KADDR (m\<lparr>nextfree := x\<rparr>) last = Some (kva + sz)" for x using kaddr by (simp add: KADDR_def)
  ultimately have run: "boot_alloc end_sym sz m = Some (kva, m\<lparr>nextfree := ROUNDUP (kva + sz) PGSIZE\<rparr>)"
    using ge lt kaddr unfolding last_def kva_def
    by (cases "nextfree m = 0") (simp_all add: boot_alloc_def PADDR_def Let_def not_le not_less)
  have kb: "KERNBASE \<le> kva" using k by (simp add: word_le_nat_alt layout)
  have "unat (kva - KERNBASE) = p * 4096" using k kb by (subst unat_sub) (simp_all add: layout)
  then have "PGNUM (kva - KERNBASE) = p" by (simp add: PGNUM_nat)
  moreover have "aligned kva" using k by (simp add: aligned_def)
  moreover have "PADDR kva = Some (kva - KERNBASE)" using kb by (simp add: PADDR_def)
  ultimately show thesis using that [OF run k nf _ _ _ kb] by blast
qed

lemma free_at_next: "unat (nextfree m) = 0xF0000000 + p * 4096 \<Longrightarrow> free_at end_sym m p"
  by (auto simp: free_at_def)

text \<open>The directory and the two arrays.\<close>

lemma alloc_arrays_ok:
  assumes fr: "free_at end_sym k p" and room: "p + 1 + array_pages (npages k) + 33 < npages k" and n: "npages k \<le> 0x10000"
  obtains pk ek k' where "alloc_arrays end_sym k = Some (pk, ek, k')" "npages k' = npages k" "kern_pgdir k' = p"
    "\<exists>w. w AND PTE_P \<noteq> 0 \<and> frames k' p = (\<lambda>_. 0)(PDX UVPT := w)" "page_free_list k' = page_free_list k" "pp_link k' = (\<lambda>_. None)"
    "unat (nextfree k') = 0xF0000000 + (p + 34 + array_pages (npages k)) * 4096" "mmio_base k' = mmio_base k" "mem.more k' = mem.more (k\<lparr>envs := (\<lambda>_. zero_env)\<rparr>)" "curenv_pgdir k' = curenv_pgdir k"
    "\<And>f. f \<noteq> p \<Longrightarrow> frames k' f = frames k f"
    "KERNBASE \<le> pk" "aligned pk" "KERNBASE \<le> ek" "aligned ek"
    "pk - KERNBASE = word_of_nat ((p + 1) * 4096)" "ek - KERNBASE = word_of_nat ((p + 1 + array_pages (npages k)) * 4096)"
proof -
  let ?a = "array_pages (npages k)" and ?sz = "word_of_nat (npages k) * SIZEOF_PageInfo" and ?es = "word_of_nat NENV * SIZEOF_Env"
  have sizes: "pages_of PGSIZE = 1" "pages_of ?sz = ?a" "pages_of ?es = 33"
  proof -
    have "unat ?sz = npages k * 8" using n
      by (simp add: SIZEOF_PageInfo_def unat_word_ariths unsigned_of_nat take_bit_nat_eq_self)
    then show "pages_of ?sz = ?a" by (simp add: pages_of_def array_pages_def)
  qed (simp_all add: pages_of_def PGSIZE_def NENV_def SIZEOF_Env_def)
  have p1: "p + pages_of PGSIZE < npages k" using room sizes by simp
  obtain kva nf where 1: "boot_alloc end_sym PGSIZE k = Some (kva, k\<lparr>nextfree := nf\<rparr>)" "unat nf = 0xF0000000 + (p + 1) * 4096"
    "PADDR kva = Some (kva - KERNBASE)" "PGNUM (kva - KERNBASE) = p"
    by (rule boot_alloc_page [OF fr p1 n]) (rule that, assumption, simp_all only: sizes)
  define k1 where "k1 = set_word (k\<lparr>nextfree := nf, kern_pgdir := p, frames := (frames k)(p := (\<lambda>_. 0))\<rparr>) p (PDX UVPT) (kva - KERNBASE OR PTE_U OR PTE_P)"
  have n1: "npages k1 = npages k" by (simp add: k1_def set_word_def)
  have f1: "free_at end_sym k1 (p + 1)" using 1(2) by (intro free_at_next) (simp add: k1_def set_word_def)
  have p2: "p + 1 + pages_of ?sz < npages k1" using room sizes n1 by simp
  obtain pk nf' where 2: "boot_alloc end_sym ?sz k1 = Some (pk, k1\<lparr>nextfree := nf'\<rparr>)" "unat nf' = 0xF0000000 + (p + 1 + ?a) * 4096"
    "aligned pk" "KERNBASE \<le> pk" "unat pk = 0xF0000000 + (p + 1) * 4096"
    by (rule boot_alloc_page [OF f1 p2 n [folded n1]]) (rule that, assumption, simp_all only: sizes)
  define k2 where "k2 = k1\<lparr>nextfree := nf', pp_ref := (\<lambda>_. 0), pp_link := (\<lambda>_. None)\<rparr>"
  have n2: "npages k2 = npages k" by (simp add: k2_def n1)
  have f2: "free_at end_sym k2 (p + 1 + ?a)" using 2(2) by (intro free_at_next) (simp add: k2_def)
  have p3: "p + 1 + ?a + pages_of ?es < npages k2" using room sizes n2 by simp
  obtain ek nf'' where 3: "boot_alloc end_sym ?es k2 = Some (ek, k2\<lparr>nextfree := nf''\<rparr>)" "unat nf'' = 0xF0000000 + (p + 1 + ?a + 33) * 4096"
    "aligned ek" "KERNBASE \<le> ek" "unat ek = 0xF0000000 + (p + 1 + ?a) * 4096"
    by (rule boot_alloc_page [OF f2 p3 n [folded n2]]) (rule that, assumption, simp_all only: sizes)
  have "bit ((kva - KERNBASE OR PTE_U OR PTE_P) AND PTE_P) 0" by (simp add: bit_simps pte_bits)
  then have w: "(kva - KERNBASE OR PTE_U OR PTE_P) AND PTE_P \<noteq> 0" by (metis bit_0_eq bot_apply bot_bool_def)
  have res: "alloc_arrays end_sym k = Some (pk, ek, k2\<lparr>nextfree := nf'', envs := (\<lambda>_. zero_env)\<rparr>)"
    using 1 2(1) 3(1) n1 by (simp add: alloc_arrays_def Let_def k1_def k2_def)
  have conv: "x - KERNBASE = word_of_nat (q * 4096)" if "unat x = 0xF0000000 + q * 4096" "KERNBASE \<le> x" for x q
  proof -
    have u: "unat (x - KERNBASE) = q * 4096" using that by (subst unat_sub) (simp_all add: layout)
    have "x - KERNBASE = word_of_nat (unat (x - KERNBASE))" by simp
    then show ?thesis unfolding u .
  qed
  have more: "mem.more (k2\<lparr>nextfree := nf'', envs := (\<lambda>_. zero_env)\<rparr>) = mem.more (k\<lparr>envs := (\<lambda>_. zero_env)\<rparr>)"
    by (cases k) (simp add: k2_def k1_def set_word_def)
  show thesis
    by (rule that [OF res _ _ _ _ _ _ _ more]) (use 2(2-4) 3(2-4) w conv [OF 2(5,4)] conv [OF 3(5,4)] in \<open>auto simp: k2_def k1_def set_word_def\<close>)
qed

section \<open>The free list\<close>

lemma page_init_loop_same: "same_rest m (page_init_loop k is m)"
  by (induction k "is" m rule: page_init_loop.induct) (auto simp: same_rest_def Let_def)

lemma page_init_ok:
  assumes "boot_end m first" and "page_free_list m = None" and "pp_link m = (\<lambda>_. None)"
  shows "\<exists>m'. page_init end_sym m = Some m' \<and> alloc_ok m' \<and> same_rest m m' \<and> frames m' = frames m
    \<and> set (free_pages m') = {q. q < npages m \<and> \<not> page_reserved first q}"
proof -
  have nf: "unat (nextfree m) = 0xF0000000 + first * 4096" "npages m \<le> 0x10000" "first < npages m"
    using assms(1) by (auto simp: boot_end_def layout)
  then have kb: "KERNBASE \<le> nextfree m" by (simp add: word_le_nat_alt layout)
  then have pa: "PADDR (nextfree m) = Some (nextfree m - KERNBASE)" by (simp add: PADDR_def)
  have "unat (nextfree m - KERNBASE) = first * 4096" using nf kb by (subst unat_sub) (simp_all add: layout)
  then have pg: "PGNUM (nextfree m - KERNBASE) = first" by (simp add: PGNUM_nat)
  let ?m' = "page_init_loop first [0..<npages m] m" and ?ys = "free_from first [0..<npages m]"
  have "chain (pp_link m) (page_free_list m) []" using assms(2) by simp
  from page_init_loop_ok [OF this, of "[0..<npages m]" first] assms(3)
  have l: "chain (pp_link ?m') (page_free_list ?m') ?ys" "npages ?m' = npages m" "\<forall>q\<in>set ?ys. pp_ref ?m' q = 0"
    "\<forall>q. q \<notin> set ?ys \<longrightarrow> pp_link ?m' q = None" "frames ?m' = frames m" by (simp_all add: Let_def)
  have s: "set ?ys = {q. q < npages m \<and> \<not> page_reserved first q}" "distinct ?ys" by (auto simp: free_from_def)
  have "alloc_ok ?m'" "free_pages ?m' = ?ys"
    by (rule alloc_okI [OF _ l(1) s(2)]; use l s nf(2) in auto)+
  moreover have "page_init end_sym m = Some ?m'" using boot_alloc_zero [OF assms(1)] pa pg by (simp add: page_init_def)
  ultimately show ?thesis using s page_init_loop_same l(5) by metis
qed

text \<open>A set of more pages than are taken keeps one of them.\<close>

lemma left_over:
  assumes "finite F" and "X \<subseteq> F" and "Y \<subseteq> F" and "card F \<le> card X + c" and "c < card Y"
  shows "\<exists>x\<in>X. x \<in> Y"
proof (rule ccontr)
  assume "\<not> (\<exists>x\<in>X. x \<in> Y)"
  then have "X \<subseteq> F - Y" using assms(2) by blast
  then have "card X \<le> card F - card Y" using assms(1,3) by (metis card_Diff_subset card_mono finite_Diff finite_subset)
  moreover have "card Y \<le> card F" using assms(1,3) by (simp add: card_mono)
  ultimately show False using assms(4,5) by simp
qed

lemma checked_entry:
  assumes "kdir_ok m d" and "checked m m'" and "kslot (v div 1024)"
  shows "entry m' d v = entry m d v"
proof -
  have d: "frames m' d = frames m d" using assms(1,2) by (simp add: kdir_ok_def checked_def)
  then have "table m' d s = table m d s" for s by (simp add: table_def)
  moreover have "frames m' t = frames m t" if "table m d (v div 1024) = Some t" for t
    using kdir_okD(5) [OF assms(1,3) that] assms(2) by (simp add: checked_def)
  ultimately show ?thesis by (simp add: entry_def split: option.splits)
qed

lemma kdir_checked:
  assumes ok: "kdir_ok m d" and c: "checked m m'"
  shows "kdir_ok m' d" "table m' d s = table m d s"
proof -
  have d: "frames m' d = frames m d" using assms by (simp add: kdir_ok_def checked_def)
  then have tab: "table m' d = table m d" by (simp add: table_def fun_eq_iff)
  then show "table m' d s = table m d s" by simp
  show "kdir_ok m' d" using ok c checked_length [OF kdir_okD(1) [OF ok] c] d tab
    by (simp add: kdir_ok_def checked_def same_rest_def)
qed

lemma more_fields: "mem.more k' = mem.more k \<Longrightarrow> cr3 k' = cr3 k \<and> envs k' = envs k"
  by (cases k; cases k') simp

lemma more_cr3: "mem.more k' = mem.more k \<Longrightarrow> mem.more (k'\<lparr>cr3 := d\<rparr>) = mem.more (k\<lparr>cr3 := d\<rparr>)"
  by (cases k; cases k') simp

lemma more_envs: "mem.more k' = mem.more k \<Longrightarrow> mem.more (k'\<lparr>envs := f, cr3 := d\<rparr>) = mem.more (k\<lparr>envs := f, cr3 := d\<rparr>)"
  by (cases k; cases k') simp

section \<open>The checks in order\<close>

text \<open>The pages that may be free: neither reserved nor below what the kernel has used. There are enough of them in both
  parts of memory for all the tables to come.\<close>

definition usable :: "nat \<Rightarrow> nat \<Rightarrow> nat set" where
  "usable first n = {q. q < n \<and> \<not> page_reserved first q}"

lemma usable_parts:
  assumes "0x100 < first" and "first + 69 \<le> n"
  shows "finite (usable first n)" "68 < card {q \<in> usable first n. q < 0x100}" "68 < card {q \<in> usable first n. 0x100 \<le> q}"
proof -
  show f: "finite (usable first n)" by (simp add: usable_def)
  have r: "page_reserved first q \<longleftrightarrow> q = 0 \<or> q = 7 \<or> 0xA0 \<le> q \<and> q < 0x100 \<or> 0x100 \<le> q \<and> q < first" for q
    by (auto simp: page_reserved_def PGNUM_nat layout)
  have "{8..<0xA0} \<subseteq> {q \<in> usable first n. q < 0x100}" using assms by (auto simp: usable_def r)
  then have "card {8..<0xA0 :: nat} \<le> card {q \<in> usable first n. q < 0x100}" using f by (intro card_mono) auto
  then show "68 < card {q \<in> usable first n. q < 0x100}" by simp
  have "{first..<n} \<subseteq> {q \<in> usable first n. 0x100 \<le> q}" using assms(1) by (auto simp: usable_def r)
  then have "card {first..<n} \<le> card {q \<in> usable first n. 0x100 \<le> q}" using f by (intro card_mono) auto
  then show "68 < card {q \<in> usable first n. 0x100 \<le> q}" using assms(2) by simp
qed

text \<open>The list check passes as long as at most 68 of them are gone.\<close>

lemma list_check_passes:
  assumes ok: "alloc_ok m" and e: "boot_end m first" and room: "first + 69 \<le> npages m"
    and sub: "set (free_pages m) \<subseteq> usable first (npages m)" and len: "card (usable first (npages m)) \<le> length (free_pages m) + 68"
  shows "\<exists>m'. check_page_free_list end_sym low m = Some m' \<and> checked m m'"
proof -
  have x: "0x100 < first" using e by (simp add: boot_end_def PGNUM_nat layout)
  note u = usable_parts [OF x room]
  have "card (set (free_pages m)) = length (free_pages m)" using alloc_okD(3) [OF ok] by (rule distinct_card)
  then have c: "card (usable first (npages m)) \<le> card (set (free_pages m)) + 68" using len by simp
  show ?thesis
  proof (rule check_page_free_list_ok [OF ok e])
    show "\<exists>q\<in>set (free_pages m). q < 0x100" "\<exists>q\<in>set (free_pages m). 0x100 \<le> q"
      using left_over [OF u(1) sub _ c u(2)] left_over [OF u(1) sub _ c u(3)] by auto
  qed (use sub in \<open>auto simp: usable_def\<close>)
qed

text \<open>From the arrays to the page tables.\<close>

lemma first_checks:
  assumes e: "boot_end m first" and room: "first + 69 \<le> npages m" and fl: "page_free_list m = None" "pp_link m = (\<lambda>_. None)"
    and kd: "0x100 \<le> kern_pgdir m" "kern_pgdir m < first" and mmio: "mmio_base m = MMIOBASE"
    and dir: "\<exists>w. w AND PTE_P \<noteq> 0 \<and> frames m (kern_pgdir m) = (\<lambda>_. 0)(PDX UVPT := w)"
  obtains m3 m4 m5 where "page_init end_sym m = Some m3" "check_page_free_list end_sym True m3 = Some m4" "check_page_alloc m4 = Some m5"
    "boot_start m5" "set (free_pages m5) = usable first (npages m)" "same_rest m m5"
    "\<And>f. f \<notin> usable first (npages m) \<Longrightarrow> frames m5 f = frames m f"
proof -
  have x: "0x100 < first" using e by (simp add: boot_end_def PGNUM_nat layout)
  note u = usable_parts [OF x room]
  obtain m3 where m3: "page_init end_sym m = Some m3" "alloc_ok m3" "same_rest m m3" "frames m3 = frames m"
    "set (free_pages m3) = usable first (npages m)"
    using page_init_ok [OF e fl, of end_sym] by (auto simp: usable_def)
  have n3: "npages m3 = npages m" "kern_pgdir m3 = kern_pgdir m" "nextfree m3 = nextfree m" "mmio_base m3 = mmio_base m"
    using m3(3) by (simp_all add: same_rest_def)
  have e3: "boot_end m3 first" using e n3 by (simp add: boot_end_def)
  have len: "length (free_pages m3) = card (usable first (npages m))" using distinct_card [OF alloc_okD(3) [OF m3(2)]] m3(5) by simp
  have "card {q \<in> usable first (npages m). 0x100 \<le> q} \<le> card (usable first (npages m))" using u(1) by (intro card_mono) auto
  then have n68: "68 \<le> length (free_pages m3)" using u(3) len by simp
  have "kern_pgdir m \<notin> usable first (npages m)"
    using kd by (auto simp: usable_def page_reserved_def PGNUM_nat layout)
  then have start: "boot_start m3"
    using m3 n3 kd e room dir mmio n68 by (auto simp: boot_start_def)
  obtain m4 where m4: "check_page_free_list end_sym True m3 = Some m4" "checked m3 m4"
    using list_check_passes [OF m3(2) e3, of end_sym True] room n3 m3(5) len by auto
  have s4: "boot_start m4" by (rule boot_start_checked [OF start m4(2)])
  then have "alloc_ok m4" "3 \<le> length (free_pages m4)" by (simp_all add: boot_start_def)
  then obtain m5 where m5: "check_page_alloc m4 = Some m5" "checked m4 m5" using check_page_alloc_ok by blast
  show thesis
  proof (rule that [OF m3(1) m4(1) m5(1) boot_start_checked [OF s4 m5(2)]])
    show "set (free_pages m5) = usable first (npages m)" using m3(5) m4(2) m5(2) by (simp add: checked_def)
    show "same_rest m m5" using m3(3) m4(2) m5(2) by (simp add: checked_def same_rest_def)
    show "frames m5 f = frames m f" if "f \<notin> usable first (npages m)" for f using that m3(4,5) m4(2) m5(2) by (simp add: checked_def)
  qed
qed

text \<open>From the page tables to the end.\<close>

lemma last_checks:
  fixes k :: "'a kern_scheme"
  assumes start: "boot_start k" and e: "boot_end k first" and room: "first + 69 \<le> npages k" and free: "set (free_pages k) = usable first (npages k)"
    and addrs: "KERNBASE \<le> pk" "aligned pk" "KERNBASE \<le> ek" "aligned ek"
    and ks: "KERNBASE \<le> kstacks" "aligned kstacks" "unat kstacks + NCPU * unat KSTKSIZE \<le> 2 ^ 32"
  obtains k6 k7 k8 k9 where "check_page k = Some k6" "map_kernel pk ek kstacks k6 = Some k7" "check_kern_pgdir pk ek kstacks k7 = Some ()"
    "check_page_free_list end_sym False (k7\<lparr>cr3 := kern_pgdir k7\<rparr>) = Some k8" "check_page_installed_pgdir k8 = Some k9"
    "alloc_ok k9" "set (free_pages k9) \<subseteq> usable first (npages k)" "npages k9 = npages k" "kern_pgdir k9 = kern_pgdir k" "mem.more k9 = mem.more (k\<lparr>cr3 := kern_pgdir k\<rparr>)"
    "curenv_pgdir k9 = curenv_pgdir k" "kern_template k9" "length (free_pages k9) + 68 = card (usable first (npages k))"
    "kdir_ok k9 (kern_pgdir k)" "\<And>s. kslot s \<Longrightarrow> table k9 (kern_pgdir k) s \<noteq> None" "unat (mmio_base k9) = (mmio_page + 3) * 4096"
    "\<And>f. f \<notin> usable first (npages k) \<Longrightarrow> f \<noteq> kern_pgdir k \<Longrightarrow> frames k9 f = frames k f"
    "\<And>v. kslot (v div 1024) \<Longrightarrow> entry k9 (kern_pgdir k) v
       = kernel_map (array_pages (npages k)) (pk - KERNBASE) (ek - KERNBASE) (kstacks - KERNBASE) v"
proof -
  let ?d = "kern_pgdir k" and ?n = "npages k"
  obtain k6 m1 where k6: "check_page k = Some k6" "checked k m1" "boot_ready k6" "boot_same ?d m1 (k6\<lparr>mmio_base := mmio_base m1\<rparr>)"
    "unat (mmio_base k6) = (mmio_page + 3) * 4096"
    using check_page_passes [OF start] by blast
  have s1: "boot_start m1" by (rule boot_start_checked [OF start k6(2)])
  have m1: "npages m1 = ?n" "kern_pgdir m1 = ?d" "nextfree m1 = nextfree k" "mem.more m1 = mem.more k"
    "set (free_pages m1) = usable first ?n"
    using k6(2) free by (auto simp: checked_def same_rest_def)
  have len1: "length (free_pages m1) = card (usable first ?n)"
    using distinct_card [OF alloc_okD(3), of m1] s1 m1(5) by (simp add: boot_start_def)
  have d6: "npages k6 = ?n" "kern_pgdir k6 = ?d" "nextfree k6 = nextfree k" "mem.more k6 = mem.more k"
    "set (free_pages k6) \<subseteq> usable first ?n" "length (free_pages k6) + 68 = card (usable first ?n) + card (missing k6 ?d)"
    using k6(4) m1 len1 boot_start_kdir(4) [OF s1] by (auto simp: boot_same_def kdir_mmio)
  obtain k7 where k7: "map_kernel pk ek kstacks k6 = Some k7" "check_kern_pgdir pk ek kstacks k7 = Some ()" "kdir_ok k7 ?d" "boot_same ?d k6 k7"
    "\<And>s. kslot s \<Longrightarrow> table k7 ?d s \<noteq> None"
    "\<And>v. kslot (v div 1024) \<Longrightarrow> entry k7 ?d v = kernel_map (array_pages ?n) (pk - KERNBASE) (ek - KERNBASE) (kstacks - KERNBASE) v"
    using map_kernel_ok [OF k6(3) addrs ks] d6 by metis
  let ?k = "k7\<lparr>cr3 := kern_pgdir k7\<rparr>"
  have "missing k7 ?d = {}" using k7(5) by (auto simp: missing_def)
  then have d7: "npages k7 = ?n" "kern_pgdir k7 = ?d" "nextfree k7 = nextfree k" "mem.more k7 = mem.more k"
    "set (free_pages k7) \<subseteq> usable first ?n" "length (free_pages k7) + 68 = card (usable first ?n)"
    using k7(4) d6 by (auto simp: boot_same_def)
  have same: "alloc_ok ?k = alloc_ok k7" "free_pages ?k = free_pages k7" "kdir_ok ?k ?d = kdir_ok k7 ?d" "entry ?k ?d v = entry k7 ?d v" for v
    by (simp_all add: alloc_ok_def free_pages_def kdir_ok_def table_def entry_def)
  have ok7: "alloc_ok ?k" "boot_end ?k first" using kdir_okD(1) [OF k7(3)] same(1) e d7 by (simp_all add: boot_end_def)
  obtain k8 where k8: "check_page_free_list end_sym False ?k = Some k8" "checked ?k k8"
    using list_check_passes [OF ok7, of end_sym False] room d7 same(2) by auto
  have zero: "frames k8 ?d s = 0" if "s < 955" for s
  proof -
    have "frames ?k ?d s = frames k6 ?d s" using k7(4) that by (simp add: boot_same_def kslot_def)
    moreover have "frames k8 ?d = frames ?k ?d" using k8(2) kdir_okD(4) [OF k7(3)] same(2) by (simp add: checked_def)
    ultimately show ?thesis using k6(3) d6(2) that by (simp add: boot_ready_def slot_numbers)
  qed
  have d8: "alloc_ok k8" "kern_pgdir k8 = ?d" "npages k8 = ?n" "set (free_pages k8) = set (free_pages k7)" "length (free_pages k8) = length (free_pages k7)"
    using k8(2) d7 checked_length [OF ok7(1) k8(2)] same(2) by (simp_all add: checked_def same_rest_def)
  have "0x100 < first" using e by (simp add: boot_end_def PGNUM_nat layout)
  note u = usable_parts [OF this room]
  have "card ({q \<in> usable first ?n. q < 0x100} \<union> {q \<in> usable first ?n. 0x100 \<le> q}) \<le> card (usable first ?n)"
    using u(1) by (intro card_mono) auto
  moreover have "card ({q \<in> usable first ?n. q < 0x100} \<union> {q \<in> usable first ?n. 0x100 \<le> q})
      = card {q \<in> usable first ?n. q < 0x100} + card {q \<in> usable first ?n. 0x100 \<le> q}" using u(1) by (intro card_Un_disjoint) auto
  ultimately have "3 \<le> length (free_pages k8)" using u(2,3) d7(6) d8(5) by linarith
  then obtain k9 where k9: "check_page_installed_pgdir k8 = Some k9" "checked k8 k9"
    using check_page_installed_passes [of k8] d8 zero [of 0] zero [of 1] kdir_okD(3,4) [OF k7(3)] d7 by auto
  have c: "checked ?k k9" by (rule checked_trans [OF k8(2) k9(2)])
  have more: "mem.more k9 = mem.more (k\<lparr>cr3 := kern_pgdir k\<rparr>)"
    using more_cr3 [of k7 k ?d] c d7 by (simp add: checked_def same_rest_def)
  have env: "curenv_pgdir k9 = curenv_pgdir k" using c k7(4) k6(2,4) by (simp add: checked_def same_rest_def boot_same_def)
  have "frames k9 ?d = frames k8 ?d" using k9(2) kdir_okD(4) [OF k7(3)] d8(4) by (simp add: checked_def)
  then have tmpl: "kern_template k9"
    using zero kdir_okD(3,4) [OF k7(3)] d7 d8 k9(2) by (auto simp: kern_template_def checked_def same_rest_def)
  have len: "length (free_pages k9) + 68 = card (usable first ?n)" using checked_length [OF d8(1) k9(2)] d8(5) d7(6) by simp
  have kd9: "kdir_ok k9 ?d" "\<And>s. kslot s \<Longrightarrow> table k9 ?d s \<noteq> None"
  proof -
    have kd: "kdir_ok ?k ?d" using k7(3) same(3) by simp
    show "kdir_ok k9 ?d" by (rule kdir_checked(1) [OF kd c])
    have "table ?k ?d s = table k7 ?d s" for s by (simp add: table_def)
    then show "table k9 ?d s \<noteq> None" if "kslot s" for s using kdir_checked(2) [OF kd c] k7(5) [OF that] by simp
  qed
  have mm9: "unat (mmio_base k9) = (mmio_page + 3) * 4096"
    using k6(5) k7(4) c by (simp add: boot_same_def checked_def same_rest_def)
  have kf: "kframes m1 ?d = {?d}" using boot_start_kdir(3) [OF s1] m1(2) by (auto simp: kframes_def)
  have out: "frames k9 f = frames k f" if f: "f \<notin> usable first ?n" "f \<noteq> ?d" for f
  proof -
    have "frames m1 f = frames k f" using k6(2) f(1) free by (simp add: checked_def)
    moreover have "frames k6 f = frames m1 f" "f \<notin> kframes k6 ?d" using k6(4) kf f m1(5) by (auto simp: boot_same_def kdir_mmio)
    moreover have "frames k7 f = frames k6 f" using k7(4) d6(5) f(1) calculation(3) by (auto simp: boot_same_def)
    moreover have "frames k9 f = frames ?k f" using c d7(5) f(1) same(2) by (auto simp: checked_def)
    ultimately show ?thesis by simp
  qed
  have ent: "entry k9 ?d v = kernel_map (array_pages ?n) (pk - KERNBASE) (ek - KERNBASE) (kstacks - KERNBASE) v" if "kslot (v div 1024)" for v
    using checked_entry [OF _ c that, of ?d] k7(3,6) same(3,4) that by simp
  show thesis
    by (rule that [OF k6(1) k7(1,2) k8(1) k9(1) _ _ _ _ more env tmpl len kd9 mm9 out ent]) (use c d7 same(2) in \<open>auto simp: checked_def same_rest_def\<close>)
qed

section \<open>The whole of it\<close>

lemma mem_init_run:
  fixes k :: "'a kern_scheme"
  assumes detect: "i386_detect_memory k dev = (k1, dev1)"
    and clean: "nextfree k = 0" "page_free_list k = None" "mmio_base k = MMIOBASE"
    and image: "unat (ROUNDUP end_sym PGSIZE) = unat KERNBASE + p * 4096" "PGNUM EXTPHYSMEM \<le> p"
    and room: "p + 34 + array_pages (npages k1) + 69 \<le> npages k1" "npages k1 \<le> 0x10000"
    and ks: "KERNBASE \<le> kstacks" "aligned kstacks" "unat kstacks + NCPU * unat KSTKSIZE \<le> 2 ^ 32"
  obtains k' where "mem_init end_sym kstacks cr0 k dev = Some (k', dev1, config_cr0 cr0)"
    "alloc_ok k'" "set (free_pages k') \<subseteq> usable (p + 34 + array_pages (npages k1)) (npages k1)"
    "length (free_pages k') + 68 = card (usable (p + 34 + array_pages (npages k1)) (npages k1))"
    "npages k' = npages k1" "kern_pgdir k' = p" "kern_template k'" "curenv_pgdir k' = curenv_pgdir k"
    "mem.more k' = mem.more (k\<lparr>envs := (\<lambda>_. zero_env), cr3 := p\<rparr>)"
    "kdir_ok k' p" "\<And>s. kslot s \<Longrightarrow> table k' p s \<noteq> None" "unat (mmio_base k') = (mmio_page + 3) * 4096"
    "\<And>f. f \<notin> usable (p + 34 + array_pages (npages k1)) (npages k1) \<Longrightarrow> f \<noteq> p \<Longrightarrow> frames k' f = frames k f"
    "\<And>v. kslot (v div 1024) \<Longrightarrow> entry k' p v
        = kernel_map (array_pages (npages k1)) (word_of_nat ((p + 1) * 4096)) (word_of_nat ((p + 1 + array_pages (npages k1)) * 4096))
            (kstacks - KERNBASE) v"
proof -
  let ?n = "npages k1" and ?first = "p + 34 + array_pages (npages k1)"
  have k1: "nextfree k1 = 0" "page_free_list k1 = None" "mmio_base k1 = MMIOBASE" "mem.more k1 = mem.more k" "curenv_pgdir k1 = curenv_pgdir k" "frames k1 = frames k"
    using detect clean by (auto simp: i386_detect_memory_def Let_def split: prod.splits)
  have fr: "free_at end_sym k1 p" using k1 image(1) by (simp add: free_at_def layout)
  have r: "p + 1 + array_pages ?n + 33 < ?n" using room(1) by simp
  obtain pk ek k2 where k2: "alloc_arrays end_sym k1 = Some (pk, ek, k2)" "npages k2 = ?n" "kern_pgdir k2 = p"
    "\<exists>w. w AND PTE_P \<noteq> 0 \<and> frames k2 p = (\<lambda>_. 0)(PDX UVPT := w)" "page_free_list k2 = None" "pp_link k2 = (\<lambda>_. None)"
    "unat (nextfree k2) = 0xF0000000 + ?first * 4096" "mmio_base k2 = MMIOBASE" "mem.more k2 = mem.more (k1\<lparr>envs := (\<lambda>_. zero_env)\<rparr>)" "curenv_pgdir k2 = curenv_pgdir k" "\<And>f. f \<noteq> p \<Longrightarrow> frames k2 f = frames k1 f"
    "KERNBASE \<le> pk" "aligned pk" "KERNBASE \<le> ek" "aligned ek"
    "pk - KERNBASE = word_of_nat ((p + 1) * 4096)" "ek - KERNBASE = word_of_nat ((p + 1 + array_pages ?n) * 4096)"
    by (rule alloc_arrays_ok [OF fr r room(2)]) (rule that, assumption+, simp_all only: k1)
  have p: "0x100 \<le> p" using image(2) by (simp add: PGNUM_nat layout)
  have e: "boot_end k2 ?first" using k2(2,7) room p by (simp add: boot_end_def PGNUM_nat layout)
  have rm: "?first + 69 \<le> npages k2" using room(1) k2(2) by simp
  have kd: "0x100 \<le> kern_pgdir k2" "kern_pgdir k2 < ?first" using p k2(3) by simp_all
  obtain k3 k4 k5 where k5: "page_init end_sym k2 = Some k3" "check_page_free_list end_sym True k3 = Some k4" "check_page_alloc k4 = Some k5"
    "boot_start k5" "set (free_pages k5) = usable ?first (npages k2)" "same_rest k2 k5"
    "\<And>f. f \<notin> usable ?first (npages k2) \<Longrightarrow> frames k5 f = frames k2 f"
    by (rule first_checks [OF e rm k2(5,6) kd k2(8), of end_sym]) (use k2(3,4) that in auto)
  have n5: "npages k5 = ?n" "kern_pgdir k5 = p" "boot_end k5 ?first" "mem.more k5 = mem.more k2" "curenv_pgdir k5 = curenv_pgdir k"
    using k5(6) k2(2,3,10) e by (auto simp: same_rest_def boot_end_def)
  have rm5: "?first + 69 \<le> npages k5" "set (free_pages k5) = usable ?first (npages k5)" using room(1) n5(1) k5(5) k2(2) by simp_all
  obtain k6 k7 k8 k9 where k9: "check_page k5 = Some k6" "map_kernel pk ek kstacks k6 = Some k7" "check_kern_pgdir pk ek kstacks k7 = Some ()"
    "check_page_free_list end_sym False (k7\<lparr>cr3 := kern_pgdir k7\<rparr>) = Some k8" "check_page_installed_pgdir k8 = Some k9"
    "alloc_ok k9" "set (free_pages k9) \<subseteq> usable ?first (npages k5)" "kern_pgdir k9 = kern_pgdir k5" "mem.more k9 = mem.more (k5\<lparr>cr3 := kern_pgdir k5\<rparr>)"
    "curenv_pgdir k9 = curenv_pgdir k5" "kern_template k9" "length (free_pages k9) + 68 = card (usable ?first (npages k5))" "npages k9 = npages k5"
    "kdir_ok k9 (kern_pgdir k5)" "\<And>s. kslot s \<Longrightarrow> table k9 (kern_pgdir k5) s \<noteq> None" "unat (mmio_base k9) = (mmio_page + 3) * 4096"
    "\<And>f. f \<notin> usable ?first (npages k5) \<Longrightarrow> f \<noteq> kern_pgdir k5 \<Longrightarrow> frames k9 f = frames k5 f"
    "\<And>v. kslot (v div 1024) \<Longrightarrow> entry k9 (kern_pgdir k5) v
       = kernel_map (array_pages (npages k5)) (pk - KERNBASE) (ek - KERNBASE) (kstacks - KERNBASE) v"
    by (rule last_checks [OF k5(4) n5(3) rm5 k2(12-15) ks, of end_sym]) (rule that)
  have "mem_init end_sym kstacks cr0 k dev = Some (k9, dev1, config_cr0 cr0)"
    using detect k2(1) k5(1-3) k9(1-5) by (simp add: mem_init_def Let_def)
  moreover have "mem.more k9 = mem.more (k\<lparr>envs := (\<lambda>_. zero_env), cr3 := p\<rparr>)"
    using k9(9) more_cr3 [OF n5(4), of p] more_cr3 [OF k2(9), of p] more_envs [OF k1(4), where f = "\<lambda>_. zero_env" and d = p] n5(2) by simp
  moreover have "frames k9 f = frames k f" if "f \<notin> usable ?first ?n" "f \<noteq> p" for f
    using k9(17) [of f] k5(7) [of f] k2(11) [of f] k1(6) that n5(1,2) k2(2) by simp
  ultimately show thesis using that [of k9] k9(6-8,10-16,18) n5 k2(16,17) by simp
qed


text \<open>A machine with 16 MB, and a kernel that ends two pages above the first megabyte and 128 KB.\<close>

lemma detect_16MB:
  "\<exists>dev1. i386_detect_memory k (d\<lparr>cmos := (\<lambda>_. 0)(0x15 := 0x80, 0x16 := 2, 0x18 := 0x3C)\<rparr>)
    = (k\<lparr>npages := 4096, npages_basemem := 160\<rparr>, dev1)"
  by (simp add: i386_detect_memory_def nvram_read_def mc146818_read_def NVRAM_BASELO_def NVRAM_EXTLO_def NVRAM_EXT16LO_def
      outb_def inb_def IO_RTC_def IO_PIC1_def IO_PIC2_def Let_def PGSIZE_def)


end
