(* ===== verification/Env_Load.thy ===== *)
theory Env_Load
  imports Env_Props Kern_Spaces
begin

text \<open>
  Loading a program (\<open>load_icode\<close>): the memory of an address space as a partial function from addresses to bytes, and what
  allocating a region, clearing and copying do to it.
\<close>

section \<open>Bytes of words\<close>

lemma bit_with_byte:
  "i < 4 \<Longrightarrow> bit (with_byte w i b) n \<longleftrightarrow> (if 8 * i \<le> n \<and> n < 8 * i + 8 then bit b (n - 8 * i) else bit w n)"
proof -
  assume i: "i < 4"
  have m: "bit (0xFF :: u32w) k \<longleftrightarrow> k < 8" for k
  proof -
    have "(0xFF :: u32w) = mask 8" by (simp add: mask_eq_exp_minus_1)
    then show ?thesis by (simp only: bit_mask_iff possible_bit_word) auto
  qed
  have b: "bit b k \<Longrightarrow> k < 8" for k using bit_imp_le_length [of b k] by simp
  show "bit (with_byte w i b) n \<longleftrightarrow> (if 8 * i \<le> n \<and> n < 8 * i + 8 then bit b (n - 8 * i) else bit w n)"
  proof (cases "n < 32")
    case True
    then show ?thesis using b [of "n - 8 * i"] m [of "n - 8 * i"] by (auto simp: with_byte_def bit_simps)
  next
    case False
    then have "\<not> bit x n" for x :: u32w using bit_imp_le_length [of x n] by auto
    then show ?thesis using i False by auto
  qed
qed

lemma byte_of_with_byte:
  assumes "i < 4" and "j < 4"
  shows "byte_of (with_byte w i b) j = (if j = i then b else byte_of w j)"
proof (rule bit_word_eqI)
  fix n assume n: "n < LENGTH(8)"
  have "8 * i \<le> n + 8 * j \<and> n + 8 * j < 8 * i + 8 \<longleftrightarrow> j = i" using n by auto
  then show "bit (byte_of (with_byte w i b) j) n = bit (if j = i then b else byte_of w j) n"
    using n assms by (simp add: byte_of_def bit_simps bit_with_byte add.commute)
qed

section \<open>Address spaces that can be written\<close>

text \<open>Every table and every page of the space may be written by the kernel, and no page is mapped twice.\<close>

definition rw :: "u32w \<Rightarrow> bool" where
  "rw w \<longleftrightarrow> w AND (PTE_P OR PTE_W) = PTE_P OR PTE_W"

definition loading :: "'a mem_scheme \<Rightarrow> nat \<Rightarrow> bool" where
  "loading m d \<longleftrightarrow> space_ok m d \<and> (\<forall>s<955. table m d s \<noteq> None \<longrightarrow> rw (frames m d s))
     \<and> (\<forall>v<UPAGENUM. mapped m d v \<noteq> None \<longrightarrow> rw (entry m d v))
     \<and> (\<forall>v<UPAGENUM. \<forall>u<UPAGENUM. mapped m d v \<noteq> None \<and> mapped m d v = mapped m d u \<longrightarrow> v = u)"

lemma loadingD:
  assumes "loading m d"
  shows "space_ok m d" "s < 955 \<Longrightarrow> table m d s = Some t \<Longrightarrow> rw (frames m d s)"
    "v < UPAGENUM \<Longrightarrow> mapped m d v = Some f \<Longrightarrow> rw (entry m d v)"
    "v < UPAGENUM \<Longrightarrow> u < UPAGENUM \<Longrightarrow> mapped m d v = Some f \<Longrightarrow> mapped m d u = Some f \<Longrightarrow> v = u"
  using assms unfolding loading_def by force+

lemma rw_need: "rw w \<Longrightarrow> w AND (PTE_P OR PTE_W) = PTE_P OR PTE_W" "rw w \<Longrightarrow> w AND PTE_P = PTE_P"
proof -
  show "rw w \<Longrightarrow> w AND (PTE_P OR PTE_W) = PTE_P OR PTE_W" by (simp add: rw_def)
  assume "rw w"
  then have "(w AND (PTE_P OR PTE_W)) AND PTE_P = (PTE_P OR PTE_W) AND PTE_P" by (simp only: rw_def)
  moreover have "(PTE_P OR PTE_W) AND PTE_P = PTE_P" by (simp add: pte_bits)
  ultimately show "w AND PTE_P = PTE_P" by (metis and.assoc)
qed

lemma rw_or: "rw (a OR (PTE_U OR PTE_W) OR PTE_P)" "rw (a OR PTE_P OR PTE_W OR PTE_U)"
  by (rule bit_word_eqI [THEN rw_def [THEN iffD2]]; auto simp: bit_simps)+

text \<open>The contents: the byte at each address of a page that is mapped.\<close>

definition image :: "'a mem_scheme \<Rightarrow> nat \<Rightarrow> u32w \<Rightarrow> u8w option" where
  "image m d va = (case mapped m d (PGNUM va) of None \<Rightarrow> None
     | Some f \<Rightarrow> Some (byte_of (frames m f (unat (PGOFF va) div 4)) (unat (PGOFF va) mod 4)))"

lemma hw_frame_mapped:
  assumes "loading m d" and "va < UTOP" and "mapped m d (PGNUM va) = Some f" and "need \<in> {PTE_P, PTE_P OR PTE_W}"
  shows "hw_frame need d va m = Some f"
proof -
  have v: "PGNUM va < UPAGENUM" "PDX va < 955" using assms(2) by (simp_all add: user_page PDX_nat user_dir)
  have e: "entry m d (PGNUM va) \<noteq> 0" "PGNUM (entry m d (PGNUM va)) = f"
    using assms(3) by (auto simp: mapped_def split: if_splits)
  then obtain t where t: "table m d (PDX va) = Some t" "entry m d (PGNUM va) = frames m t (PTX va)"
    by (auto simp: entry_pte pte_at_def split: option.splits)
  have "t = PGNUM (frames m d (PDX va))" using t(1) by (auto simp: table_def split: if_splits)
  then show ?thesis
    using assms(4) t e(2) rw_need [OF loadingD(2) [OF assms(1) v(2) t(1)]] rw_need [OF loadingD(3) [OF assms(1) v(1) assms(3)]]
    by (auto simp: hw_frame_def Let_def)
qed

lemma get_byte_image: "loading m d \<Longrightarrow> va < UTOP \<Longrightarrow> mapped m d (PGNUM va) \<noteq> None \<Longrightarrow> get_byte d va m = image m d va"
  by (auto simp: get_byte_def image_def hw_frame_mapped Let_def)

text \<open>The address is its page and its offset.\<close>

lemma same_place:
  assumes "PGNUM a = PGNUM b" and "unat (PGOFF a) div 4 = unat (PGOFF b) div 4" and "unat (PGOFF a) mod 4 = unat (PGOFF b) mod 4"
  shows "a = b"
proof -
  have "unat (PGOFF a) = unat (PGOFF b)" using assms(2,3) by (metis div_mult_mod_eq)
  then have "unat a = unat b" using assms(1) by (metis PGNUM_nat PGOFF_nat div_mult_mod_eq)
  then show ?thesis by (simp only: word_unat_eq_iff)
qed

section \<open>Writing\<close>

text \<open>What a step of the loader leaves alone: everything but the free list, the free pages and the pages of the space.\<close>

definition used :: "'a mem_scheme \<Rightarrow> nat \<Rightarrow> nat set" where
  "used m d = paging m d \<union> {f. \<exists>v<UPAGENUM. mapped m d v = Some f}"

definition grown :: "nat \<Rightarrow> 'a mem_scheme \<Rightarrow> 'a mem_scheme \<Rightarrow> bool" where
  "grown d m m' \<longleftrightarrow> npages m' = npages m \<and> kern_pgdir m' = kern_pgdir m \<and> mem.more m' = mem.more m
     \<and> set (free_pages m') \<subseteq> set (free_pages m) \<and> used m' d \<subseteq> used m d \<union> set (free_pages m)
     \<and> (\<forall>f. f \<notin> set (free_pages m) \<and> f \<notin> used m d \<longrightarrow> frames m' f = frames m f)"

lemma grown_refl: "grown d m m"
  by (simp add: grown_def)

lemma grown_trans: "grown d m m' \<Longrightarrow> grown d m' m'' \<Longrightarrow> grown d m m''"
  unfolding grown_def by (auto simp: subset_iff)

lemma set_data:
  assumes l: "loading m d" and v: "v < UPAGENUM" "mapped m d v = Some f"
  shows "loading (set_word m f i w) d" "\<And>u. u < UPAGENUM \<Longrightarrow> mapped (set_word m f i w) d u = mapped m d u"
    "free_pages (set_word m f i w) = free_pages m" "grown d m (set_word m f i w)"
proof -
  let ?m = "set_word m f i w"
  note sp = loadingD(1) [OF l]
  have f: "f \<noteq> d" "f \<notin> paging m d" "f \<in> used m d" using space_okD(6) [OF sp v] v by (auto simp: paging_def used_def)
  have fr: "frames ?m g = frames m g" if "g \<noteq> f" for g using that by (simp add: set_word_def)
  then have same: "frames ?m g = frames m g" if "g \<in> paging m d" for g using that f by metis
  note s = same_frames [where e = d and m = m and m' = ?m, OF same]
  have tab: "table ?m d s = table m d s" if "s < 955" for s using s(1) that by blast
  have ent: "entry ?m d u = entry m d u" if "u < UPAGENUM" for u using s(2) that by blast
  show map: "mapped ?m d u = mapped m d u" if "u < UPAGENUM" for u using s(3) that by blast
  have cnt: "map_count ?m d p = map_count m d p" for p using s(5) by blast
  have rest: "alloc_ok ?m = alloc_ok m" "npages ?m = npages m" "pp_ref ?m = pp_ref m"
    "mem.more ?m = mem.more m" "kern_pgdir ?m = kern_pgdir m" by (simp_all add: set_word_def)
  show free: "free_pages ?m = free_pages m" by (simp add: set_word_def)
  have "space_ok ?m d" using sp by (simp add: space_ok_def rest free cnt map tab tables_inj_def)
  moreover have "v = u" if "v < UPAGENUM" "u < UPAGENUM" "mapped ?m d v \<noteq> None" "mapped ?m d v = mapped ?m d u" for v u
    using that map loadingD(4) [OF l that(1,2)] by auto
  ultimately show "loading ?m d" using loadingD(2,3) [OF l] f(1) unfolding loading_def
    by (intro conjI allI impI) (auto simp: tab ent map fr; metis)+
  have "used ?m d = used m d" using map s(4) by (auto simp: used_def)
  moreover have "frames ?m g = frames m g" if "g \<notin> used m d" for g using that fr f(3) by metis
  ultimately show "grown d m ?m" using rest(2,4,5) free by (simp add: grown_def)
qed

lemma put_byte_image:
  assumes l: "loading m d" and va: "va < UTOP" "mapped m d (PGNUM va) \<noteq> None"
  obtains m' where "put_byte d va b m = Some m'" "loading m' d" "\<And>v. v < UPAGENUM \<Longrightarrow> mapped m' d v = mapped m d v"
    "\<And>a. a < UTOP \<Longrightarrow> image m' d a = (if a = va then Some b else image m d a)" "free_pages m' = free_pages m" "grown d m m'"
proof -
  obtain f where f: "mapped m d (PGNUM va) = Some f" using va(2) by blast
  have v: "PGNUM va < UPAGENUM" using va(1) by (simp add: user_page)
  define i where "i = unat (PGOFF va) div 4"
  define w where "w = with_byte (frames m f i) (unat (PGOFF va) mod 4) b"
  have p: "put_byte d va b m = Some (set_word m f i w)"
    using hw_frame_mapped [OF l va(1) f] by (simp add: put_byte_def i_def w_def Let_def)
  note s = set_data [OF l v f, where i = i and w = w]
  have img: "image (set_word m f i w) d a = (if a = va then Some b else image m d a)" if a: "a < UTOP" for a
  proof (cases "mapped m d (PGNUM a)")
    case None
    then show ?thesis using s(2) [of "PGNUM a"] a f by (auto simp: image_def user_page)
  next
    case (Some g)
    have ma: "mapped (set_word m f i w) d (PGNUM a) = Some g" using s(2) [of "PGNUM a"] a Some by (simp add: user_page)
    show ?thesis
    proof (cases "g = f \<and> unat (PGOFF a) div 4 = i")
      case False
      then have "a \<noteq> va" using Some f i_def by auto
      then show ?thesis using False Some ma by (auto simp: image_def set_word_def)
    next
      case True
      then have "PGNUM a = PGNUM va" using loadingD(4) [OF l _ v _ f] a Some by (simp add: user_page)
      then have "a = va \<longleftrightarrow> unat (PGOFF a) mod 4 = unat (PGOFF va) mod 4" using same_place [of a va] True i_def by auto
      then show ?thesis using True Some ma
        by (simp add: image_def set_word_def w_def byte_of_with_byte)
    qed
  qed
  show thesis by (rule that [OF p s(1,2) img s(3,4)])
qed

text \<open>A run of bytes, as \<open>memset\<close> and \<open>memcpy\<close> write it.\<close>

definition written :: "u32w \<Rightarrow> u8w list \<Rightarrow> (u32w \<Rightarrow> u8w option) \<Rightarrow> u32w \<Rightarrow> u8w option" where
  "written va bs img a = (if unat va \<le> unat a \<and> unat a < unat va + length bs then Some (bs ! (unat a - unat va)) else img a)"

lemma put_bytes_image:
  assumes "loading m d" and "unat va + length bs \<le> unat UTOP"
    and "\<And>a. unat va \<le> unat a \<Longrightarrow> unat a < unat va + length bs \<Longrightarrow> mapped m d (PGNUM a) \<noteq> None"
  obtains m' where "put_bytes d va bs m = Some m'" "loading m' d" "\<And>v. v < UPAGENUM \<Longrightarrow> mapped m' d v = mapped m d v"
    "\<And>a. a < UTOP \<Longrightarrow> image m' d a = written va bs (image m d) a" "free_pages m' = free_pages m" "grown d m m'"
  using assms
proof (induction bs arbitrary: va m thesis)
  case Nil
  show ?case by (rule Nil.prems(1) [OF _ Nil.prems(2) _ _ _ grown_refl]) (auto simp: written_def)
next
  case (Cons b bs)
  have lim: "unat UTOP < 2 ^ 32" by (simp add: UTOP_value)
  have va: "va < UTOP" "mapped m d (PGNUM va) \<noteq> None" using Cons.prems(3,4) by (auto simp: word_less_nat_alt)
  have s: "unat (va + 1) = unat va + 1" using Cons.prems(3) lim by (subst unat_add_lem [THEN iffD1]) simp_all
  obtain m1 where m1: "put_byte d va b m = Some m1" "loading m1 d" "\<And>v. v < UPAGENUM \<Longrightarrow> mapped m1 d v = mapped m d v"
    "\<And>a. a < UTOP \<Longrightarrow> image m1 d a = (if a = va then Some b else image m d a)" "free_pages m1 = free_pages m" "grown d m m1"
    using put_byte_image [OF Cons.prems(2) va, of b] by blast
  have len: "unat (va + 1) + length bs \<le> unat UTOP" using Cons.prems(3) s by simp
  have map: "mapped m1 d (PGNUM a) \<noteq> None" if "unat (va + 1) \<le> unat a" "unat a < unat (va + 1) + length bs" for a
  proof -
    have "a < UTOP" using that len by (simp add: word_less_nat_alt)
    then show ?thesis using m1(3) [of "PGNUM a"] Cons.prems(4) [of a] that s by (simp add: user_page)
  qed
  obtain m' where m': "put_bytes d (va + 1) bs m1 = Some m'" "loading m' d" "\<And>v. v < UPAGENUM \<Longrightarrow> mapped m' d v = mapped m1 d v"
    "\<And>a. a < UTOP \<Longrightarrow> image m' d a = written (va + 1) bs (image m1 d) a" "free_pages m' = free_pages m1" "grown d m1 m'"
    using Cons.IH [OF _ m1(2) len map] by blast
  have img: "image m' d a = written va (b # bs) (image m d) a" if "a < UTOP" for a
    using m'(4) [OF that] m1(4) [OF that] s by (auto simp: written_def word_unat_eq_iff nth_Cons' le_Suc_eq Suc_diff_le)
  show ?case
    by (rule Cons.prems(1) [OF _ m'(2) _ img _ grown_trans [OF m1(6) m'(6)]]) (use m1 m' in simp_all)
qed

section \<open>A fresh page\<close>

lemma insert_shape:
  assumes sp: "space_ok m d" and va: "va < UTOP" and pp: "mappable m d pp" and none: "mapped m d (PGNUM va) = None"
    and ins: "page_insert d pp va perm m = Some (0, m')"
  shows "kern_pgdir m' = kern_pgdir m"
    "frames m' d s = (if s = PDX va \<and> table m d s = None then page2pa (hd (free_pages m)) OR PTE_P OR PTE_W OR PTE_U else frames m d s)"
proof -
  have "kern_pgdir m' = kern_pgdir m \<and> frames m' d s
      = (if s = PDX va \<and> table m d s = None then page2pa (hd (free_pages m)) OR PTE_P OR PTE_W OR PTE_U else frames m d s)"
  proof (cases "table m d (PDX va)")
    case (Some t)
    have "t \<noteq> d" using space_okD(5) [OF sp _ Some] va by (simp add: user_page PDX_nat user_dir)
    then show ?thesis using ins page_insert_unmapped [OF sp va Some pp none, of perm] Some by (auto simp: set_word_def)
  next
    case None
    obtain t ts where fl: "free_pages m = t # ts" using insert_frames(4) [OF sp va pp ins None] by (cases "free_pages m") auto
    let ?n = "table_step m d va t"
    note w = walk_creates [OF sp va None fl]
    have "entry m d (PGNUM va) = 0" by (simp add: entry_pte None)
    then have "mapped ?n d (PGNUM va) = None" using w(3) va by (simp add: user_page mapped_def)
    then have rm: "page_remove d va (?n\<lparr>pp_ref := (pp_ref ?n)(pp := pp_ref ?n pp + 1)\<rparr>) = Some (?n\<lparr>pp_ref := (pp_ref ?n)(pp := pp_ref ?n pp + 1)\<rparr>)"
      using page_remove_absent [OF counted_space(1) [OF w(2) mappable_table_step [OF sp va None fl pp]] va] by simp
    have t: "t \<noteq> d" using space_okD(3) [OF sp] fl by auto
    have n: "frames ?n d = (frames m d)(PDX va := page2pa t OR PTE_P OR PTE_W OR PTE_U)" "kern_pgdir ?n = kern_pgdir m"
      using t by (simp_all add: set_word_def table_step_def alloc_step_def Let_def)
    have "m' = set_word (?n\<lparr>pp_ref := (pp_ref ?n)(pp := pp_ref ?n pp + 1)\<rparr>) t (PTX va) (page2pa pp OR perm OR PTE_P)"
      using ins w(1) rm by (simp add: page_insert_def)
    then show ?thesis using t n None fl by (auto simp: set_word_def)
  qed
  then show "kern_pgdir m' = kern_pgdir m"
    "frames m' d s = (if s = PDX va \<and> table m d s = None then page2pa (hd (free_pages m)) OR PTE_P OR PTE_W OR PTE_U else frames m d s)"
    by simp_all
qed

text \<open>One turn of the loop of \<open>region_alloc\<close>: a page taken off the free list is mapped where nothing was.\<close>

lemma page_fresh:
  assumes l: "loading m d" and va: "va < UTOP" and none: "mapped m d (PGNUM va) = None" and free: "2 \<le> length (free_pages m)"
  obtains p m1 m' where "page_alloc 0 m = Some (Some p, m1)" "page_insert d p va (PTE_U OR PTE_W) m1 = Some (0, m')" "loading m' d"
    "\<And>v. v < UPAGENUM \<Longrightarrow> mapped m' d v = (if v = PGNUM va then Some p else mapped m d v)"
    "\<And>a. a < UTOP \<Longrightarrow> PGNUM a \<noteq> PGNUM va \<Longrightarrow> image m' d a = image m d a"
    "length (free_pages m) \<le> length (free_pages m') + 2" "grown d m m'"
proof -
  note sp = loadingD(1) [OF l]
  obtain p t ts where fl: "free_pages m = p # t # ts" using free by (cases "free_pages m"; cases "tl (free_pages m)") auto
  let ?m = "alloc_step m p False" and ?w = "page2pa p OR (PTE_U OR PTE_W) OR PTE_P"
  note a = alloc_space [OF sp fl, where z = False]
  have alloc: "page_alloc 0 m = Some (Some p, ?m)" using page_alloc_Cons(1) [OF space_okD(1) [OF sp] fl, of 0] by simp
  have frm: "frames ?m = frames m" "npages ?m = npages m" "kern_pgdir ?m = kern_pgdir m" "mem.more ?m = mem.more m"
    by (simp_all add: alloc_step_def)
  then have tab: "table ?m = table m" and ent: "entry ?m = entry m" and pag: "paging ?m d = paging m d"
    by (simp_all add: fun_eq_iff table_def entry_def paging_def)
  have map: "mapped ?m = mapped m" by (simp add: fun_eq_iff mapped_def ent)
  have v: "PGNUM va < UPAGENUM" using va by (simp add: user_page)
  have perm: "perm_bits (PTE_U OR PTE_W)" by (simp add: perm_bits_or)
  obtain m' where m': "page_insert d p va (PTE_U OR PTE_W) ?m = Some (0, m')" "inserted ?m d p va (PTE_U OR PTE_W) m'"
    using page_insert_user [OF a(1) va a(5) perm] a(4) by auto
  have keep: "mapped ?m d (PGNUM va) = None" using none map by simp
  note f = insert_frames [OF a(1) va a(5) m'(1)] and sh = insert_shape [OF a(1) va a(5) keep m'(1)]
  have fr: "free_pages m' = (if table m d (PDX va) = None then ts else t # ts)"
    using insert_free [OF a(1) va a(5) m'(1)] keep a(4) tab by simp
  have ent': "entry m' d u = (if u = PGNUM va then ?w else entry m d u)" if "u < UPAGENUM" for u
    using m'(2) that by (simp add: inserted_def ent)
  have w: "?w \<noteq> 0" "PGNUM ?w = p"
    using bit0_flag [of "page2pa p" "PTE_U OR PTE_W"] PGNUM_entry [of "(PTE_U OR PTE_W) OR PTE_P" p] perm space_okD(1,4) [OF sp] fl
    by (auto simp: perm_bits_or alloc_ok_def or.assoc)
  have map': "mapped m' d u = (if u = PGNUM va then Some p else mapped m d u)" if "u < UPAGENUM" for u
    using that w by (simp add: mapped_entry ent')
  have out: "frames m' g = frames m g" if "g \<notin> paging m d" "g \<notin> set (free_pages m)" for g
    using f(1) [of g] that fl a(4) frm(1) pag by simp
  have sp': "space_ok m' d" using m'(2) by (simp add: inserted_def)
  have np: "npages m' = npages m" using m'(2) frm(2) by (simp add: inserted_def)
  have old: "g \<noteq> p" if "u < UPAGENUM" "mapped m d u = Some g" for u g using space_okD(6) [OF sp that] fl by auto
  have l': "loading m' d"
    unfolding loading_def
  proof (intro conjI sp' allI impI)
    fix s assume s: "s < 955" "table m' d s \<noteq> None"
    have e: "frames m' d s = (if s = PDX va \<and> table m d s = None then page2pa t OR PTE_P OR PTE_W OR PTE_U else frames m d s)"
      using sh(2) [of s] by (simp only: a(4) frm(1) tab list.sel)
    show "rw (frames m' d s)"
    proof (cases "s = PDX va \<and> table m d s = None")
      case True
      then show ?thesis unfolding e if_P [OF True] by (intro rw_or(2))
    next
      case False
      then have "frames m' d s = frames m d s" using e by auto
      moreover from this have "table m d s \<noteq> None" using s(2) by (auto simp: table_def split: if_splits)
      ultimately show ?thesis using loadingD(2) [OF l s(1)] by auto
    qed
  next
    fix u assume "u < UPAGENUM" "mapped m' d u \<noteq> None"
    then show "rw (entry m' d u)" using loadingD(3) [OF l] rw_or(1) by (auto simp: ent' map' split: if_splits)
  next
    fix u x assume u: "u < UPAGENUM" "x < UPAGENUM" "mapped m' d u \<noteq> None \<and> mapped m' d u = mapped m' d x"
    then obtain g where g: "mapped m' d u = Some g" by blast
    then have "mapped m' d x = Some g" using u(3) by simp
    with g show "u = x" using loadingD(4) [OF l u(1,2)] old [OF u(1)] old [OF u(2)] u(1,2) by (auto simp: map' split: if_splits)
  qed
  have img: "image m' d x = image m d x" if x: "x < UTOP" "PGNUM x \<noteq> PGNUM va" for x
  proof (cases "mapped m d (PGNUM x)")
    case None
    then show ?thesis using x by (simp add: image_def map' user_page)
  next
    case (Some g)
    have u: "PGNUM x < UPAGENUM" using x(1) by (simp add: user_page)
    have "frames m' g = frames m g"
      using space_okD(6) [OF sp u Some] by (intro out) (auto simp: paging_def)
    then show ?thesis using Some u x(2) by (simp add: image_def map')
  qed
  have more: "mem.more m' = mem.more m" using more_page_insert [OF m'(1)] frm(4) by simp
  have tab': "table m' d i = Some t \<or> table m' d i = table m d i" for i
    using f(2) [of i] f(3) a(4) tab by (cases "i = PDX va") (auto split: option.splits)
  have "paging m' d \<subseteq> paging m d \<union> {t}" using tab' by (auto simp: paging_def) (metis option.inject)
  then have "used m' d \<subseteq> used m d \<union> set (free_pages m)" using fl map' by (auto simp: used_def split: if_splits)
  then have "grown d m m'" using sh(1) frm(3) more np fr fl out by (auto simp: grown_def used_def)
  then show thesis using that [OF alloc m'(1) l' map' img] fr fl by simp
qed

section \<open>A region\<close>

text \<open>The pages of the \<open>len\<close> bytes at \<open>va\<close>.\<close>

definition page_lo :: "u32w \<Rightarrow> nat" where "page_lo va = unat va div 4096"
definition page_hi :: "u32w \<Rightarrow> u32w \<Rightarrow> nat" where "page_hi va len = (unat va + unat len + 4095) div 4096"

definition region :: "u32w \<Rightarrow> u32w \<Rightarrow> nat set" where
  "region va len = {page_lo va..<page_hi va len}"

lemma region_loop_maps:
  fixes k :: "'a kern_scheme"
  assumes "loading k d" and "unat lo = a * 4096" and "unat hi = b * 4096" and "a \<le> b" and "b \<le> UPAGENUM"
    and "\<And>v. a \<le> v \<Longrightarrow> v < b \<Longrightarrow> mapped k d v = None" and "2 * (b - a) \<le> length (free_pages k)"
  obtains k' where "region_loop d lo hi k = Some k'" "loading k' d"
    "\<And>v. v < UPAGENUM \<Longrightarrow> if a \<le> v \<and> v < b then mapped k' d v \<noteq> None else mapped k' d v = mapped k d v"
    "\<And>x. x < UTOP \<Longrightarrow> \<not> (a \<le> PGNUM x \<and> PGNUM x < b) \<Longrightarrow> image k' d x = image k d x"
    "length (free_pages k) \<le> length (free_pages k') + 2 * (b - a)" "grown d k k'"
  using assms
proof (induction "b - a" arbitrary: a lo k thesis)
  case 0
  then have "\<not> lo < hi" by (simp add: word_less_nat_alt)
  then have "region_loop d lo hi k = Some k" by (subst region_loop.simps) simp
  then show ?case using 0 by (intro "0.prems"(1) [OF _ "0.prems"(2) _ _ _ grown_refl]) auto
next
  case (Suc n)
  have ab: "a < b" "a < UPAGENUM" using Suc.hyps(2) Suc.prems(6) by auto
  have u: "unat UTOP = UPAGENUM * 4096" by (simp add: UTOP_value UPAGENUM_def)
  have lt: "lo < hi" "hi \<le> UTOP" "lo < UTOP"
    using ab Suc.prems(3,4,6) u by (auto simp: word_less_nat_alt word_le_nat_alt)
  have pn: "PGNUM lo = a" using Suc.prems(3) by (simp add: PGNUM_nat)
  have none: "mapped k d (PGNUM lo) = None" using Suc.prems(7) ab pn by simp
  have two: "2 \<le> length (free_pages k)" using Suc.prems(8) ab by linarith
  obtain p k1 k2 where s: "page_alloc 0 k = Some (Some p, k1)" "page_insert d p lo (PTE_U OR PTE_W) k1 = Some (0, k2)" "loading k2 d"
    "\<And>v. v < UPAGENUM \<Longrightarrow> mapped k2 d v = (if v = PGNUM lo then Some p else mapped k d v)"
    "\<And>x. x < UTOP \<Longrightarrow> PGNUM x \<noteq> PGNUM lo \<Longrightarrow> image k2 d x = image k d x"
    "length (free_pages k) \<le> length (free_pages k2) + 2" "grown d k k2"
    by (rule page_fresh [OF Suc.prems(2) lt(3) none two]) (rule that)
  have nx: "unat (lo + PGSIZE) = Suc a * 4096"
    using Suc.prems(3) ab by (subst unat_add_lem [THEN iffD1]) (simp_all add: PGSIZE_def UPAGENUM_def)
  have n: "n = b - Suc a" using Suc.hyps(2) by simp
  have sa: "Suc a \<le> b" using ab by simp
  have un: "mapped k2 d v = None" if "Suc a \<le> v" "v < b" for v using s(4) [of v] Suc.prems(6,7) that pn by simp
  have room: "2 * (b - Suc a) \<le> length (free_pages k2)" using Suc.prems(8) s(6) ab by linarith
  obtain k' where k': "region_loop d (lo + PGSIZE) hi k2 = Some k'" "loading k' d"
    "\<And>v. v < UPAGENUM \<Longrightarrow> if Suc a \<le> v \<and> v < b then mapped k' d v \<noteq> None else mapped k' d v = mapped k2 d v"
    "\<And>x. x < UTOP \<Longrightarrow> \<not> (Suc a \<le> PGNUM x \<and> PGNUM x < b) \<Longrightarrow> image k' d x = image k2 d x"
    "length (free_pages k2) \<le> length (free_pages k') + 2 * (b - Suc a)" "grown d k2 k'"
    by (rule Suc.hyps(1) [OF n _ s(3) nx Suc.prems(4) sa Suc.prems(6) un room]) (rule that)
  have run: "region_loop d lo hi k = Some k'"
    using lt(1,2) s(1,2) k'(1) by (subst region_loop.simps) simp
  have map: "if a \<le> v \<and> v < b then mapped k' d v \<noteq> None else mapped k' d v = mapped k d v" if "v < UPAGENUM" for v
    using k'(3) [OF that] s(4) [OF that] pn ab by (auto split: if_splits)
  have img: "image k' d x = image k d x" if "x < UTOP" "\<not> (a \<le> PGNUM x \<and> PGNUM x < b)" for x
    using k'(4) [OF that(1)] s(5) [OF that(1)] that(2) pn ab by auto
  show ?case by (rule Suc.prems(1) [OF run k'(2) map img _ grown_trans [OF s(7) k'(6)]]) (use s(6) k'(5) ab in auto)
qed

lemma region_alloc_maps:
  fixes k :: "'a kern_scheme"
  assumes "loading k d" and "env_pgdir (envs k e) = Some d" and "unat va + unat len \<le> unat UTOP"
    and "\<And>v. v \<in> region va len \<Longrightarrow> mapped k d v = None" and "2 * card (region va len) \<le> length (free_pages k)"
  obtains k' where "region_alloc e va len k = Some k'" "loading k' d"
    "\<And>v. v < UPAGENUM \<Longrightarrow> if v \<in> region va len then mapped k' d v \<noteq> None else mapped k' d v = mapped k d v"
    "\<And>x. x < UTOP \<Longrightarrow> PGNUM x \<notin> region va len \<Longrightarrow> image k' d x = image k d x"
    "length (free_pages k) \<le> length (free_pages k') + 2 * card (region va len)" "grown d k k'"
proof -
  have u: "unat UTOP = UPAGENUM * 4096" by (simp add: UTOP_value UPAGENUM_def)
  have b: "page_hi va len \<le> UPAGENUM" using assms(3) u by (simp add: page_hi_def)
  have ab: "page_lo va \<le> page_hi va len" by (simp add: page_lo_def page_hi_def div_le_mono)
  have lo: "unat (ROUNDDOWN va PGSIZE) = page_lo va * 4096" by (simp add: ROUNDDOWN_nat page_lo_def)
  have sum: "unat (va + len) = unat va + unat len"
    using assms(3) by (subst unat_add_lem [THEN iffD1]) (simp_all add: UTOP_value)
  then have hi: "unat (ROUNDUP (va + len) PGSIZE) = page_hi va len * 4096"
    using assms(3) by (subst ROUNDUP_nat) (simp_all add: UTOP_value page_hi_def)
  then have "\<not> ROUNDUP (va + len) PGSIZE > UTOP" using b u by (simp add: word_less_nat_alt)
  then have run: "region_alloc e va len k = region_loop d (ROUNDDOWN va PGSIZE) (ROUNDUP (va + len) PGSIZE) k"
    using assms(2) by (simp add: region_alloc_def Let_def)
  have un: "mapped k d v = None" if "page_lo va \<le> v" "v < page_hi va len" for v using assms(4) that by (simp add: region_def)
  have room: "2 * (page_hi va len - page_lo va) \<le> length (free_pages k)" using assms(5) by (simp add: region_def)
  show thesis
    by (rule region_loop_maps [OF assms(1) lo hi ab b un room]) (assumption+, rule that, simp_all add: region_def run)
qed

section \<open>A segment\<close>

text \<open>What a segment has to hold: the bytes of the file, and zeros up to its size in memory.\<close>

definition seg_region :: "Proghdr \<Rightarrow> nat set" where
  "seg_region h = region (p_va h) (p_memsz h)"

definition seg_bytes :: "u8w list \<Rightarrow> Proghdr \<Rightarrow> u8w list" where
  "seg_bytes binary h = take (unat (p_filesz h)) (drop (unat (p_offset h)) binary) @ replicate (unat (p_memsz h) - unat (p_filesz h)) 0"

definition fits :: "u8w list \<Rightarrow> Proghdr \<Rightarrow> bool" where
  "fits binary h \<longleftrightarrow> unat (p_va h) + unat (p_memsz h) \<le> unat UTOP \<and> unat (p_filesz h) \<le> unat (p_memsz h)
     \<and> unat (p_offset h) + unat (p_filesz h) \<le> length binary"

definition holds_segment :: "u8w list \<Rightarrow> 'a mem_scheme \<Rightarrow> nat \<Rightarrow> Proghdr \<Rightarrow> bool" where
  "holds_segment binary m d h \<longleftrightarrow> (\<forall>i<unat (p_memsz h). image m d (p_va h + word_of_nat i) = Some (seg_bytes binary h ! i))"

lemma written_twice:
  "length bs \<le> n \<Longrightarrow> written va bs (written va (replicate n 0) img) = written va (bs @ replicate (n - length bs) 0) img"
  by (auto simp: written_def fun_eq_iff nth_append)

lemma seg_address:
  assumes "fits binary h" and "i < unat (p_memsz h)"
  shows "unat (p_va h + word_of_nat i) = unat (p_va h) + i" "p_va h + word_of_nat i < UTOP"
    "PGNUM (p_va h + word_of_nat i) \<in> seg_region h"
proof -
  have lim: "unat UTOP < 2 ^ 32" by (simp add: UTOP_value)
  have le: "unat (p_va h) + i < unat UTOP" using assms by (simp add: fits_def)
  then have "unat (word_of_nat i :: u32w) = i" using lim by (simp add: unsigned_of_nat take_bit_nat_eq_self)
  then show u: "unat (p_va h + word_of_nat i) = unat (p_va h) + i"
    using le lim by (subst unat_add_lem [THEN iffD1]) simp_all
  then show "p_va h + word_of_nat i < UTOP" using le by (simp add: word_less_nat_alt)
  have "unat (p_va h) div 4096 \<le> (unat (p_va h) + i) div 4096" by (simp add: div_le_mono)
  moreover have "(unat (p_va h) + i) div 4096 < (unat (p_va h) + unat (p_memsz h) + 4095) div 4096" using assms(2) by linarith
  ultimately show "PGNUM (p_va h + word_of_nat i) \<in> seg_region h"
    by (simp add: seg_region_def region_def page_lo_def page_hi_def PGNUM_nat u)
qed

lemma in_segment:
  assumes "fits binary h" and "unat (p_va h) \<le> unat a" and "unat a < unat (p_va h) + unat (p_memsz h)"
  shows "a < UTOP" "PGNUM a \<in> seg_region h"
proof -
  have i: "unat a - unat (p_va h) < unat (p_memsz h)" using assms(2,3) by linarith
  have "unat (p_va h + word_of_nat (unat a - unat (p_va h))) = unat a" using seg_address(1) [OF assms(1) i] assms(2) by simp
  then have "p_va h + word_of_nat (unat a - unat (p_va h)) = a" by (simp only: word_unat_eq_iff)
  then show "a < UTOP" "PGNUM a \<in> seg_region h" using seg_address(2,3) [OF assms(1) i] by simp_all
qed

lemma segment_loaded:
  fixes k :: "'a kern_scheme"
  assumes l: "loading k d" and e: "env_pgdir (envs k e) = Some d" and f: "fits binary h"
    and none: "\<And>v. v \<in> seg_region h \<Longrightarrow> mapped k d v = None" and room: "2 * card (seg_region h) \<le> length (free_pages k)"
  obtains k' where "do { k \<leftarrow> region_alloc e (p_va h) (p_memsz h) k;
        k \<leftarrow> put_bytes d (p_va h) (replicate (unat (p_memsz h)) 0) k;
        bytes \<leftarrow> image_bytes binary (p_offset h) (p_filesz h);
        put_bytes d (p_va h) bytes k } = Some k'"
    "loading k' d" "\<And>v. v < UPAGENUM \<Longrightarrow> if v \<in> seg_region h then mapped k' d v \<noteq> None else mapped k' d v = mapped k d v"
    "holds_segment binary k' d h" "\<And>x. x < UTOP \<Longrightarrow> PGNUM x \<notin> seg_region h \<Longrightarrow> image k' d x = image k d x"
    "length (free_pages k) \<le> length (free_pages k') + 2 * card (seg_region h)" "grown d k k'"
proof -
  let ?va = "p_va h" and ?n = "unat (p_memsz h)" and ?bs = "take (unat (p_filesz h)) (drop (unat (p_offset h)) binary)"
  have top: "unat ?va + ?n \<le> unat UTOP" using f by (simp add: fits_def)
  have bs: "length ?bs = unat (p_filesz h)" "unat (p_filesz h) \<le> ?n" "image_bytes binary (p_offset h) (p_filesz h) = Some ?bs"
    using f by (auto simp: fits_def image_bytes_def)
  obtain k1 where k1: "region_alloc e ?va (p_memsz h) k = Some k1" "loading k1 d"
    "\<And>v. v < UPAGENUM \<Longrightarrow> if v \<in> seg_region h then mapped k1 d v \<noteq> None else mapped k1 d v = mapped k d v"
    "\<And>x. x < UTOP \<Longrightarrow> PGNUM x \<notin> seg_region h \<Longrightarrow> image k1 d x = image k d x"
    "length (free_pages k) \<le> length (free_pages k1) + 2 * card (seg_region h)" "grown d k k1"
    using region_alloc_maps [OF l e top] none room unfolding seg_region_def by blast
  have map1: "mapped k1 d (PGNUM a) \<noteq> None" if "unat ?va \<le> unat a" "unat a < unat ?va + ?n" for a
    using k1(3) [of "PGNUM a"] in_segment [OF f that] by (simp add: user_page)
  have z: "unat ?va + length (replicate ?n (0 :: u8w)) \<le> unat UTOP" using top by simp
  obtain k2 where k2: "put_bytes d ?va (replicate ?n 0) k1 = Some k2" "loading k2 d"
    "\<And>v. v < UPAGENUM \<Longrightarrow> mapped k2 d v = mapped k1 d v" "\<And>a. a < UTOP \<Longrightarrow> image k2 d a = written ?va (replicate ?n 0) (image k1 d) a"
    "free_pages k2 = free_pages k1" "grown d k1 k2"
    using put_bytes_image [OF k1(2) z] map1 by (metis length_replicate)
  have c: "unat ?va + length ?bs \<le> unat UTOP" using top bs by simp
  have map2: "mapped k2 d (PGNUM a) \<noteq> None" if "unat ?va \<le> unat a" "unat a < unat ?va + length ?bs" for a
  proof -
    have a: "unat a < unat ?va + ?n" using that(2) bs by simp
    show ?thesis using map1 [OF that(1) a] k2(3) in_segment(1) [OF f that(1) a] by (simp add: user_page)
  qed
  obtain k3 where k3: "put_bytes d ?va ?bs k2 = Some k3" "loading k3 d"
    "\<And>v. v < UPAGENUM \<Longrightarrow> mapped k3 d v = mapped k2 d v" "\<And>a. a < UTOP \<Longrightarrow> image k3 d a = written ?va ?bs (image k2 d) a"
    "free_pages k3 = free_pages k2" "grown d k2 k3"
    using put_bytes_image [OF k2(2) c] map2 by blast
  have img: "image k3 d a = written ?va (seg_bytes binary h) (image k1 d) a" if "a < UTOP" for a
  proof -
    have "image k3 d a = written ?va ?bs (written ?va (replicate ?n 0) (image k1 d)) a"
      using k3(4) [OF that] k2(4) [OF that] by (simp add: written_def)
    then show ?thesis using written_twice [of ?bs ?n ?va "image k1 d"] bs by (simp add: seg_bytes_def)
  qed
  have len: "length (seg_bytes binary h) = ?n" using bs by (simp add: seg_bytes_def)
  have seg: "holds_segment binary k3 d h"
    unfolding holds_segment_def
  proof (intro allI impI)
    fix i assume i: "i < ?n"
    show "image k3 d (?va + word_of_nat i) = Some (seg_bytes binary h ! i)"
      using img [OF seg_address(2) [OF f i]] seg_address(1) [OF f i] i len by (simp add: written_def)
  qed
  have out: "image k3 d x = image k d x" if x: "x < UTOP" "PGNUM x \<notin> seg_region h" for x
  proof -
    have "\<not> (unat ?va \<le> unat x \<and> unat x < unat ?va + ?n)" using in_segment(2) [OF f] x(2) by blast
    then have "written ?va (seg_bytes binary h) (image k1 d) x = image k1 d x" by (auto simp: written_def len)
    then show ?thesis using img [OF x(1)] k1(4) [OF x] by simp
  qed
  have map: "if v \<in> seg_region h then mapped k3 d v \<noteq> None else mapped k3 d v = mapped k d v" if "v < UPAGENUM" for v
    using k1(3) [OF that] k2(3) [OF that] k3(3) [OF that] by simp
  show thesis
    by (rule that [OF _ k3(2) map seg out _ grown_trans [OF k1(6) grown_trans [OF k2(6) k3(6)]]])
      (use k1(1,5) k2(1,5) k3(1,5) bs in simp_all)
qed

section \<open>The program\<close>

text \<open>The headers from the byte \<open>ph\<close> of the file, and those of segments to load.\<close>

fun proghdrs :: "u8w list \<Rightarrow> nat \<Rightarrow> nat \<Rightarrow> Proghdr list option" where
  "proghdrs binary ph 0 = Some []"
| "proghdrs binary ph (Suc n) = do { h \<leftarrow> read_proghdr binary ph; hs \<leftarrow> proghdrs binary (ph + 32) n; Some (h # hs) }"

definition loads :: "Proghdr list \<Rightarrow> Proghdr list" where
  "loads hs = filter (\<lambda>h. p_type h = ELF_PROG_LOAD) hs"

definition needs :: "Proghdr list \<Rightarrow> nat" where
  "needs hs = 2 * sum_list (map (\<lambda>h. card (seg_region h)) hs)"

definition regions :: "Proghdr list \<Rightarrow> nat set" where
  "regions hs = (\<Union>h\<in>set hs. seg_region h)"

text \<open>The segments lie in user memory and in the file, and no page belongs to two of them.\<close>

definition placed :: "u8w list \<Rightarrow> Proghdr list \<Rightarrow> bool" where
  "placed binary hs \<longleftrightarrow> (\<forall>h\<in>set hs. fits binary h) \<and> sorted_wrt (\<lambda>g h. seg_region g \<inter> seg_region h = {}) hs"

lemma holds_segment_cong:
  assumes "holds_segment binary m d h" and "fits binary h" and "\<And>x. x < UTOP \<Longrightarrow> PGNUM x \<in> seg_region h \<Longrightarrow> image m' d x = image m d x"
  shows "holds_segment binary m' d h"
  using assms seg_address [OF assms(2)] by (simp add: holds_segment_def)

lemma load_segments_loaded:
  fixes k :: "'a kern_scheme"
  assumes "proghdrs binary ph n = Some hs" and "loading k d" and "env_pgdir (envs k e) = Some d" and "placed binary (loads hs)"
    and "\<And>v. v \<in> regions (loads hs) \<Longrightarrow> mapped k d v = None" and "needs (loads hs) \<le> length (free_pages k)"
  obtains k' where "load_segments e d binary ph n k = Some k'" "loading k' d"
    "\<And>v. v < UPAGENUM \<Longrightarrow> if v \<in> regions (loads hs) then mapped k' d v \<noteq> None else mapped k' d v = mapped k d v"
    "\<And>h. h \<in> set (loads hs) \<Longrightarrow> holds_segment binary k' d h"
    "\<And>x. x < UTOP \<Longrightarrow> PGNUM x \<notin> regions (loads hs) \<Longrightarrow> image k' d x = image k d x"
    "length (free_pages k) \<le> length (free_pages k') + needs (loads hs)" "grown d k k'"
  using assms
proof (induction n arbitrary: ph hs k thesis)
  case 0
  then have hs: "loads hs = []" by (simp add: loads_def)
  show ?case by (rule "0.prems"(1) [OF _ "0.prems"(3) _ _ _ _ grown_refl]) (simp_all add: hs regions_def needs_def)
next
  case (Suc n)
  obtain h gs where h: "read_proghdr binary ph = Some h" "proghdrs binary (ph + 32) n = Some gs" "hs = h # gs"
    using Suc.prems(2) by (auto simp: bind_eq_Some_conv)
  show ?case
  proof (cases "p_type h = ELF_PROG_LOAD")
    case False
    then have l: "loads hs = loads gs" by (simp add: h(3) loads_def)
    note p = Suc.prems [unfolded l]
    have run: "load_segments e d binary ph (Suc n) k = load_segments e d binary (ph + 32) n k" using h(1) False by simp
    show ?thesis by (rule Suc.IH [OF _ h(2) p(3-7)]) (rule p(1), simp only: run)
  next
    case True
    then have l: "loads hs = h # loads gs" by (simp add: h(3) loads_def)
    have pl: "fits binary h" "placed binary (loads gs)" "seg_region h \<inter> regions (loads gs) = {}"
      using Suc.prems(5) by (auto simp: placed_def l regions_def)
    have reg: "regions (loads hs) = seg_region h \<union> regions (loads gs)" by (simp add: l regions_def)
    have nd: "needs (loads hs) = 2 * card (seg_region h) + needs (loads gs)" by (simp add: l needs_def)
    have none: "mapped k d v = None" if "v \<in> seg_region h" for v using Suc.prems(6) that reg by blast
    have room: "2 * card (seg_region h) \<le> length (free_pages k)" using Suc.prems(7) nd by simp
    obtain k1 where k1: "do { k \<leftarrow> region_alloc e (p_va h) (p_memsz h) k;
        k \<leftarrow> put_bytes d (p_va h) (replicate (unat (p_memsz h)) 0) k;
        bytes \<leftarrow> image_bytes binary (p_offset h) (p_filesz h);
        put_bytes d (p_va h) bytes k } = Some k1" "loading k1 d"
      "\<And>v. v < UPAGENUM \<Longrightarrow> if v \<in> seg_region h then mapped k1 d v \<noteq> None else mapped k1 d v = mapped k d v"
      "holds_segment binary k1 d h" "\<And>x. x < UTOP \<Longrightarrow> PGNUM x \<notin> seg_region h \<Longrightarrow> image k1 d x = image k d x"
      "length (free_pages k) \<le> length (free_pages k1) + 2 * card (seg_region h)" "grown d k k1"
      by (rule segment_loaded [OF Suc.prems(3,4) pl(1) none room]) (assumption, rule that)
    have e1: "env_pgdir (envs k1 e) = Some d" using Suc.prems(4) kern_part(1) [of k1 k] k1(7) by (simp add: grown_def)
    have none1: "mapped k1 d v = None" if v: "v \<in> regions (loads gs)" for v
    proof (cases "v < UPAGENUM")
      case True
      have "v \<notin> seg_region h" "mapped k d v = None" using v pl(3) reg Suc.prems(6) by blast+
      then show ?thesis using k1(3) [OF True] by simp
    next
      case False
      obtain g where g: "g \<in> set (loads gs)" "v \<in> seg_region g" using v by (auto simp: regions_def)
      then have "unat (p_va g) + unat (p_memsz g) \<le> UPAGENUM * 4096"
        using pl(2) by (auto simp: placed_def fits_def UTOP_value UPAGENUM_def)
      then have "page_hi (p_va g) (p_memsz g) \<le> UPAGENUM" by (simp add: page_hi_def)
      then show ?thesis using g(2) False by (simp add: seg_region_def region_def)
    qed
    have room1: "needs (loads gs) \<le> length (free_pages k1)" using Suc.prems(7) nd k1(6) by linarith
    obtain k' where k': "load_segments e d binary (ph + 32) n k1 = Some k'" "loading k' d"
      "\<And>v. v < UPAGENUM \<Longrightarrow> if v \<in> regions (loads gs) then mapped k' d v \<noteq> None else mapped k' d v = mapped k1 d v"
      "\<And>g. g \<in> set (loads gs) \<Longrightarrow> holds_segment binary k' d g"
      "\<And>x. x < UTOP \<Longrightarrow> PGNUM x \<notin> regions (loads gs) \<Longrightarrow> image k' d x = image k1 d x"
      "length (free_pages k1) \<le> length (free_pages k') + needs (loads gs)" "grown d k1 k'"
      by (rule Suc.IH [OF _ h(2) k1(2) e1 pl(2) none1 room1]) (rule that)
    have run: "load_segments e d binary ph (Suc n) k = Some k'"
      using h(1) True k1(1) k'(1) by (simp add: Option.bind_assoc [symmetric] del: Option.bind_assoc)
    have map: "if v \<in> regions (loads hs) then mapped k' d v \<noteq> None else mapped k' d v = mapped k d v" if "v < UPAGENUM" for v
      using k1(3) [OF that] k'(3) [OF that] reg by (auto split: if_splits)
    have seg: "holds_segment binary k' d g" if "g \<in> set (loads hs)" for g
      using that k'(4) holds_segment_cong [OF k1(4) pl(1), of k'] k'(5) pl(3) by (auto simp: l)
    have out: "image k' d x = image k d x" if "x < UTOP" "PGNUM x \<notin> regions (loads hs)" for x
      using k'(5) [OF that(1)] k1(5) [OF that(1)] that(2) reg by simp
    show ?thesis by (rule Suc.prems(1) [OF run k'(2) map seg out _ grown_trans [OF k1(7) k'(7)]]) (use k1(6) k'(6) nd in auto)
  qed
qed

text \<open>A program: an ELF header, its segments as they may be placed, none of them on the page of the stack.\<close>

definition stack_page :: nat where
  "stack_page = PGNUM (USTACKTOP - PGSIZE)"

definition program :: "u8w list \<Rightarrow> Proghdr list \<Rightarrow> u32w \<Rightarrow> bool" where
  "program binary hs entry_point \<longleftrightarrow> (case read_elf binary of None \<Rightarrow> False
     | Some elf \<Rightarrow> e_magic elf = ELF_MAGIC \<and> e_entry elf = entry_point
         \<and> proghdrs binary (unat (e_phoff elf)) (e_phnum elf) = Some hs \<and> placed binary (loads hs) \<and> stack_page \<notin> regions (loads hs))"

lemma stack_region: "region (USTACKTOP - PGSIZE) PGSIZE = {stack_page}" "stack_page < UPAGENUM"
  "unat (USTACKTOP - PGSIZE) + unat PGSIZE \<le> unat UTOP"
proof -
  have "page_lo (USTACKTOP - PGSIZE) = 0xEEBFD" "page_hi (USTACKTOP - PGSIZE) PGSIZE = 0xEEBFE" "stack_page = 0xEEBFD"
    by (simp_all add: page_lo_def page_hi_def stack_page_def PGNUM_nat layout)
  then show "region (USTACKTOP - PGSIZE) PGSIZE = {stack_page}" "stack_page < UPAGENUM" by (auto simp: region_def UPAGENUM_def)
  show "unat (USTACKTOP - PGSIZE) + unat PGSIZE \<le> unat UTOP" by (simp add: layout)
qed

lemma regions_user: "placed binary hs \<Longrightarrow> v \<in> regions hs \<Longrightarrow> v < UPAGENUM"
proof -
  assume p: "placed binary hs" and v: "v \<in> regions hs"
  obtain h where h: "h \<in> set hs" "v \<in> seg_region h" using v by (auto simp: regions_def)
  then have "unat (p_va h) + unat (p_memsz h) \<le> UPAGENUM * 4096"
    using p by (auto simp: placed_def fits_def UTOP_value UPAGENUM_def)
  then have "page_hi (p_va h) (p_memsz h) \<le> UPAGENUM" by (simp add: page_hi_def)
  then show ?thesis using h(2) by (simp add: seg_region_def region_def)
qed

text \<open>The notions depend on the memory only, not on the rest of the kernel's state.\<close>

lemma memory_only:
  fixes k :: "'a mem_scheme" and k' :: "'b mem_scheme"
  assumes "frames k' = frames k" "pp_ref k' = pp_ref k" "pp_link k' = pp_link k" "page_free_list k' = page_free_list k" "npages k' = npages k"
  shows "free_pages k' = free_pages k" "alloc_ok k' = alloc_ok k" "table k' = table k" "entry k' = entry k" "mapped k' = mapped k"
    "space_ok k' d = space_ok k d" "loading k' d = loading k d" "image k' = image k" "used k' = used k"
proof -
  show fp: "free_pages k' = free_pages k" by (simp add: free_pages_def assms)
  show al: "alloc_ok k' = alloc_ok k" by (simp add: alloc_ok_def assms fp)
  show tb: "table k' = table k" by (intro ext) (simp add: table_def assms)
  show en: "entry k' = entry k" by (intro ext) (simp add: entry_def tb assms split: option.split)
  show mp: "mapped k' = mapped k" by (intro ext) (simp add: mapped_def en)
  show sp: "space_ok k' d = space_ok k d" by (simp add: space_ok_def al fp tb mp assms tables_inj_def map_count_def)
  show "loading k' d = loading k d" by (simp add: loading_def sp tb en mp assms)
  show "image k' = image k" by (intro ext) (simp add: image_def mp assms split: option.split)
  show "used k' = used k" by (intro ext) (simp add: used_def paging_def tb mp)
qed

lemma load_icode_run:
  fixes k :: "'a kern_scheme"
  assumes l: "loading k d" and e: "env_pgdir (envs k e) = Some d" and pr: "program binary hs entry_point"
    and none: "\<And>v. v \<in> regions (loads hs) \<or> v = stack_page \<Longrightarrow> mapped k d v = None"
    and room: "needs (loads hs) + 2 \<le> length (free_pages k)"
  obtains k' k1 where "load_icode e binary k = Some k'" "loading k' d"
    "\<And>v. v < UPAGENUM \<Longrightarrow> if v \<in> regions (loads hs) \<or> v = stack_page then mapped k' d v \<noteq> None else mapped k' d v = mapped k d v"
    "\<And>h. h \<in> set (loads hs) \<Longrightarrow> holds_segment binary k' d h"
    "\<And>x. x < UTOP \<Longrightarrow> PGNUM x \<notin> regions (loads hs) \<Longrightarrow> PGNUM x \<noteq> stack_page \<Longrightarrow> image k' d x = image k d x"
    "length (free_pages k) \<le> length (free_pages k') + needs (loads hs) + 2"
    "k' = set_env e ((envs k e)\<lparr>env_tf := (env_tf (envs k e))\<lparr>tf_eip := entry_point\<rparr>\<rparr>) (k1\<lparr>cr3 := kern_pgdir k\<rparr>)" "grown d (k\<lparr>cr3 := d\<rparr>) k1"
proof -
  obtain elf where elf: "read_elf binary = Some elf" "e_magic elf = ELF_MAGIC" "e_entry elf = entry_point"
    "proghdrs binary (unat (e_phoff elf)) (e_phnum elf) = Some hs" "placed binary (loads hs)" "stack_page \<notin> regions (loads hs)"
    using pr by (auto simp: program_def split: option.splits)
  let ?k = "k\<lparr>cr3 := d\<rparr>"
  have m0: "free_pages ?k = free_pages k" "mapped ?k = mapped k" "loading ?k d" "image ?k = image k"
    using memory_only [of ?k k] l by simp_all
  have e0: "env_pgdir (envs ?k e) = Some d" using e by simp
  have none0: "mapped ?k d v = None" if "v \<in> regions (loads hs)" for v using none that m0 by simp
  have room0: "needs (loads hs) \<le> length (free_pages ?k)" using room m0 by simp
  obtain k1 where k1: "load_segments e d binary (unat (e_phoff elf)) (e_phnum elf) ?k = Some k1" "loading k1 d"
    "\<And>v. v < UPAGENUM \<Longrightarrow> if v \<in> regions (loads hs) then mapped k1 d v \<noteq> None else mapped k1 d v = mapped ?k d v"
    "\<And>h. h \<in> set (loads hs) \<Longrightarrow> holds_segment binary k1 d h"
    "\<And>x. x < UTOP \<Longrightarrow> PGNUM x \<notin> regions (loads hs) \<Longrightarrow> image k1 d x = image ?k d x"
    "length (free_pages ?k) \<le> length (free_pages k1) + needs (loads hs)" "grown d ?k k1"
    by (rule load_segments_loaded [OF elf(4) m0(3) e0 elf(5) none0 room0]) (assumption, rule that)
  have ev: "envs k1 = envs k" using kern_part(1) [of k1 ?k] k1(7) by (simp add: grown_def)
  have e1: "env_pgdir (envs k1 e) = Some d" using ev e by simp
  note st = stack_region
  have none1: "mapped k1 d v = None" if "v \<in> region (USTACKTOP - PGSIZE) PGSIZE" for v
    using that st(1,2) k1(3) [of stack_page] elf(6) none [of stack_page] m0(2) by auto
  have room1: "2 * card (region (USTACKTOP - PGSIZE) PGSIZE) \<le> length (free_pages k1)" using st(1) room k1(6) m0(1) by simp
  obtain k2 where k2: "region_alloc e (USTACKTOP - PGSIZE) PGSIZE k1 = Some k2" "loading k2 d"
    "\<And>v. v < UPAGENUM \<Longrightarrow> if v \<in> region (USTACKTOP - PGSIZE) PGSIZE then mapped k2 d v \<noteq> None else mapped k2 d v = mapped k1 d v"
    "\<And>x. x < UTOP \<Longrightarrow> PGNUM x \<notin> region (USTACKTOP - PGSIZE) PGSIZE \<Longrightarrow> image k2 d x = image k1 d x"
    "length (free_pages k1) \<le> length (free_pages k2) + 2 * card (region (USTACKTOP - PGSIZE) PGSIZE)" "grown d k1 k2"
    by (rule region_alloc_maps [OF k1(2) e1 st(3) none1 room1]) (assumption, rule that)
  have ev2: "envs k2 = envs k" "kern_pgdir k2 = kern_pgdir k"
    using kern_part(1) [of k2 k1] ev k2(6) k1(7) by (simp_all add: grown_def)
  let ?k' = "set_env e ((envs k e)\<lparr>env_tf := (env_tf (envs k e))\<lparr>tf_eip := entry_point\<rparr>\<rparr>) (k2\<lparr>cr3 := kern_pgdir k\<rparr>)"
  have m2: "free_pages ?k' = free_pages k2" "mapped ?k' = mapped k2" "loading ?k' d" "image ?k' = image k2"
    using memory_only [of ?k' k2] k2(2) by (simp_all add: set_env_def)
  have run: "load_icode e binary k = Some ?k'"
    using elf(1-3) e k1(1) k2(1) ev2 by (simp add: load_icode_def Let_def set_env_def)
  have map: "if v \<in> regions (loads hs) \<or> v = stack_page then mapped ?k' d v \<noteq> None else mapped ?k' d v = mapped k d v" if "v < UPAGENUM" for v
    using k1(3) [OF that] k2(3) [OF that] st(1) m0(2) m2(2) by (auto split: if_splits)
  have seg: "holds_segment binary ?k' d h" if h: "h \<in> set (loads hs)" for h
  proof (rule holds_segment_cong [OF k1(4) [OF h]])
    show "fits binary h" using elf(5) h by (simp add: placed_def)
    show "image ?k' d x = image k1 d x" if "x < UTOP" "PGNUM x \<in> seg_region h" for x
    proof -
      have "PGNUM x \<noteq> stack_page" using that(2) elf(6) h by (auto simp: regions_def)
      then show ?thesis using k2(4) [OF that(1)] st(1) m2(4) by simp
    qed
  qed
  have out: "image ?k' d x = image k d x" if "x < UTOP" "PGNUM x \<notin> regions (loads hs)" "PGNUM x \<noteq> stack_page" for x
    using k1(5) [OF that(1,2)] k2(4) [OF that(1)] that(3) st(1) m0(4) m2(4) by simp
  show thesis
    by (rule that [OF run m2(3) map seg out _ refl grown_trans [OF k1(7) k2(6)]])
      (use k1(6) k2(5) m0(1) m2(1) st(1) in auto)
qed

section \<open>A new environment with its program\<close>

text \<open>What has to hold for \<open>env_create\<close> to succeed with the slot \<open>e\<close>, and holds again after it for the next slot.\<close>

definition creating :: "'a kern_scheme \<Rightarrow> nat \<Rightarrow> bool" where
  "creating k e \<longleftrightarrow> alloc_ok k \<and> env_table_ok k e \<and> kern_template k \<and> queues_ok k \<and> size (total k) < NENV \<and> curenv k = None"

lemma fresh_loading:
  assumes "space_ok k d" and "\<And>v. v < UPAGENUM \<Longrightarrow> mapped k d v = None" and "\<And>s. s < 955 \<Longrightarrow> frames k d s = 0"
  shows "loading k d" "used k d = {d}"
proof -
  have t: "table k d s = None" if "s < 955" for s using assms(3) [OF that] by (simp add: table_def)
  then show "loading k d" using assms(1,2) by (simp add: loading_def)
  show "used k d = {d}" using t assms(2) by (auto simp: used_def paging_def)
qed

lemma env_create_run:
  fixes k :: "'a kern_scheme"
  assumes c: "creating k e" and pr: "program binary hs entry_point" and room: "needs (loads hs) + 3 \<le> length (free_pages k)"
  obtains k' d where "env_create binary k = Some k'" "loading k' d" "\<And>h. h \<in> set (loads hs) \<Longrightarrow> holds_segment binary k' d h"
    "\<And>v. v < UPAGENUM \<Longrightarrow> mapped k' d v \<noteq> None \<longleftrightarrow> v \<in> regions (loads hs) \<or> v = stack_page"
    "\<And>i. envs k' i = (if i = e then (envs k e)\<lparr>env_pgdir := Some d, env_id := next_env_id (env_id (envs k e)) e, env_parent_id := 0,
      env_status := ENV_RUNNABLE, env_runs := 0, env_tf := user_tf\<lparr>tf_eip := entry_point\<rparr>, env_pgfault_upcall := 0,
      env_ipc_recving := False, ejecuciones := 0, cola_actual := 0\<rparr> else envs k i)"
    "env_free_list k' = env_link (envs k e)" "items k' A = items k A @ [next_env_id (env_id (envs k e)) e]" "\<And>x. x \<noteq> A \<Longrightarrow> items k' x = items k x"
    "alloc_ok k'" "kern_template k'" "queues_ok k'" "total k' = add_mset (next_env_id (env_id (envs k e)) e) (total k)"
    "length (free_pages k) \<le> length (free_pages k') + needs (loads hs) + 3"
    "curenv k' = None" "cr3 k' = kern_pgdir k" "kern_pgdir k' = kern_pgdir k" "npages k' = npages k"
    "lock_holder k' = lock_holder k" "cpunum k' = cpunum k" "ejecuciones_totales (mlfq_scheduler k') = ejecuciones_totales (mlfq_scheduler k)"
proof -
  have pre: "alloc_ok k" "env_table_ok k e" "kern_template k" "queues_ok k" "size (total k) < NENV" "curenv k = None"
    using c by (simp_all add: creating_def)
  obtain d ds where fl: "free_pages k = d # ds" using room by (cases "free_pages k") auto
  have q: "parent_queue k 0 = 0" "obtener_cola (parent_queue k 0) = Some A" using pre(6) by (simp_all add: parent_queue_def obtener_cola_def)
  let ?id = "next_env_id (env_id (envs k e)) e"
  obtain k1 where k1: "env_alloc 0 k = Some (0, Some e, k1)"
    "\<And>i. envs k1 i = (if i = e then (envs k e)\<lparr>env_pgdir := Some d, env_id := ?id, env_parent_id := 0,
      env_status := ENV_RUNNABLE, env_runs := 0, env_tf := user_tf, env_pgfault_upcall := 0,
      env_ipc_recving := False, ejecuciones := 0, cola_actual := parent_queue k 0\<rparr> else envs k i)"
    "env_free_list k1 = env_link (envs k e)" "items k1 A = items k A @ [?id]" "\<And>x. x \<noteq> A \<Longrightarrow> items k1 x = items k x"
    "space_ok k1 d" "free_pages k1 = ds" "\<And>v. v < UPAGENUM \<Longrightarrow> mapped k1 d v = None"
    "\<And>j. j \<noteq> PDX UVPT \<Longrightarrow> frames k1 d j = frames k (kern_pgdir k) j"
    "\<And>f. f \<noteq> d \<Longrightarrow> frames k1 f = frames k f" "npages k1 = npages k" "kern_pgdir k1 = kern_pgdir k" "queues_ok k1"
    "lock_holder k1 = lock_holder k" "cpunum k1 = cpunum k" "curenv k1 = curenv k"
    "ejecuciones_totales (mlfq_scheduler k1) = ejecuciones_totales (mlfq_scheduler k)" "total k1 = add_mset ?id (total k)"
    using env_alloc_new [OF pre(1) fl pre(2-5) _ q(2)] by blast
  have kd: "kern_pgdir k \<noteq> d" "kern_pgdir k \<notin> set ds" "kern_pgdir k < npages k" "\<And>s. s < 955 \<Longrightarrow> frames k (kern_pgdir k) s = 0"
    using pre(3) fl by (auto simp: kern_template_def)
  have z: "frames k1 d s = 0" if "s < 955" for s using k1(9) [of s] kd(4) that by (simp add: UVPT_index)
  have fresh: "loading k1 d" "used k1 d = {d}" using fresh_loading [OF k1(6,8) z] by blast+
  have e1: "env_pgdir (envs k1 e) = Some d" using k1(2) by simp
  have none: "mapped k1 d v = None" if "v \<in> regions (loads hs) \<or> v = stack_page" for v
  proof -
    have "placed binary (loads hs)" using pr by (auto simp: program_def split: option.splits)
    then have "v < UPAGENUM" using that regions_user [of binary "loads hs" v] stack_region(2) by auto
    then show ?thesis by (rule k1(8))
  qed
  have room1: "needs (loads hs) + 2 \<le> length (free_pages k1)" using room fl k1(7) by simp
  obtain k' k2 where k': "load_icode e binary k1 = Some k'" "loading k' d"
    "\<And>v. v < UPAGENUM \<Longrightarrow> if v \<in> regions (loads hs) \<or> v = stack_page then mapped k' d v \<noteq> None else mapped k' d v = mapped k1 d v"
    "\<And>h. h \<in> set (loads hs) \<Longrightarrow> holds_segment binary k' d h"
    "length (free_pages k1) \<le> length (free_pages k') + needs (loads hs) + 2"
    "k' = set_env e ((envs k1 e)\<lparr>env_tf := (env_tf (envs k1 e))\<lparr>tf_eip := entry_point\<rparr>\<rparr>) (k2\<lparr>cr3 := kern_pgdir k1\<rparr>)"
    "grown d (k1\<lparr>cr3 := d\<rparr>) k2"
    by (rule load_icode_run [OF fresh(1) e1 pr none room1]) (assumption, rule that)
  let ?k1 = "k1\<lparr>cr3 := d\<rparr>"
  have g: "npages k2 = npages k" "kern_pgdir k2 = kern_pgdir k" "mem.more k2 = mem.more ?k1" "set (free_pages k2) \<subseteq> set ds"
    "frames k2 (kern_pgdir k) = frames k (kern_pgdir k)"
    using k'(7) memory_only(1,9) [of ?k1 k1] k1(7,10,11,12) fresh(2) kd(1,2) by (auto simp: grown_def)
  note kp = kern_part [OF g(3)]
  have m: "free_pages k' = free_pages k2" "frames k' = frames k2" "npages k' = npages k" "kern_pgdir k' = kern_pgdir k"
    "cr3 k' = kern_pgdir k" "env_free_list k' = env_free_list k1" "curenv k' = curenv k1" "mlfq_scheduler k' = mlfq_scheduler k1"
    "lock_holder k' = lock_holder k1" "cpunum k' = cpunum k1"
    using k'(6) memory_only(1) [of k' k2] kp g k1(12) by (simp_all add: set_env_def)
  have it: "items k' x = items k1 x" for x by (simp add: items_def m)
  have ev: "envs k' i = (if i = e then (envs k e)\<lparr>env_pgdir := Some d, env_id := ?id, env_parent_id := 0,
      env_status := ENV_RUNNABLE, env_runs := 0, env_tf := user_tf\<lparr>tf_eip := entry_point\<rparr>, env_pgfault_upcall := 0,
      env_ipc_recving := False, ejecuciones := 0, cola_actual := 0\<rparr> else envs k i)" for i
    using k'(6) kp(1) k1(2) [of e] k1(2) [of i] q(1) by (simp add: set_env_def)
  have tm: "kern_template k'" using g(4,5) kd m by (auto simp: kern_template_def)
  have "queues_ok k'" using k1(13) m(8) queues_ok_cong [of k' k1] by simp
  moreover have "total k' = add_mset ?id (total k)" using total_cong [of k' k1] it k1(18) by simp
  moreover have "env_create binary k = Some k'" using k1(1) k'(1) by (simp add: env_create_def)
  moreover have "alloc_ok k'" using space_okD(1) [OF loadingD(1) [OF k'(2)]] .
  moreover have "mapped k' d v \<noteq> None \<longleftrightarrow> v \<in> regions (loads hs) \<or> v = stack_page" if "v < UPAGENUM" for v
    using k'(3) [OF that] k1(8) [OF that] by (auto split: if_splits)
  ultimately show thesis
    using that [of k' d] k'(2,4,5) ev m it k1(3-5,7,14-17) tm fl pre(6) by simp
qed

text \<open>C37: \<open>env_create\<close>, with a slot and enough pages, and a program whose segments lie in user memory and do not share a page:
  the first free slot becomes a runnable environment at the entry point of the program, with an address space of its own. Through
  its page tables, each byte of each segment is the one of the file, and zero from the end of the file's part on; besides the segments
  just the page of the stack is mapped. The next slot can be used the same way, with the pages that are left.\<close>

theorem env_create_loads:
  fixes k :: "'a kern_scheme"
  assumes "creating k e" and "program binary hs entry_point" and "needs (loads hs) + 3 \<le> length (free_pages k)"
  shows "\<exists>k' d. env_create binary k = Some k' \<and> env_status (envs k' e) = ENV_RUNNABLE \<and> env_pgdir (envs k' e) = Some d
    \<and> env_tf (envs k' e) = user_tf\<lparr>tf_eip := entry_point\<rparr> \<and> space_ok k' d
    \<and> (\<forall>h\<in>set (loads hs). \<forall>i<unat (p_memsz h). get_byte d (p_va h + word_of_nat i) k'
          = Some (if i < unat (p_filesz h) then binary ! (unat (p_offset h) + i) else 0))
    \<and> (\<forall>v<UPAGENUM. mapped k' d v \<noteq> None \<longleftrightarrow> v \<in> regions (loads hs) \<or> v = stack_page)
    \<and> items k' A = items k A @ [env_id (envs k' e)] \<and> (\<forall>i. i \<noteq> e \<longrightarrow> envs k' i = envs k i)
    \<and> cr3 k' = kern_pgdir k \<and> alloc_ok k' \<and> kern_template k' \<and> queues_ok k' \<and> env_free_list k' = env_link (envs k e)
    \<and> length (free_pages k) \<le> length (free_pages k') + needs (loads hs) + 3"
proof -
  obtain k' d where k': "env_create binary k = Some k'" "loading k' d" "\<And>h. h \<in> set (loads hs) \<Longrightarrow> holds_segment binary k' d h"
    "\<And>v. v < UPAGENUM \<Longrightarrow> mapped k' d v \<noteq> None \<longleftrightarrow> v \<in> regions (loads hs) \<or> v = stack_page"
    "\<And>i. envs k' i = (if i = e then (envs k e)\<lparr>env_pgdir := Some d, env_id := next_env_id (env_id (envs k e)) e, env_parent_id := 0,
      env_status := ENV_RUNNABLE, env_runs := 0, env_tf := user_tf\<lparr>tf_eip := entry_point\<rparr>, env_pgfault_upcall := 0,
      env_ipc_recving := False, ejecuciones := 0, cola_actual := 0\<rparr> else envs k i)"
    "env_free_list k' = env_link (envs k e)" "items k' A = items k A @ [next_env_id (env_id (envs k e)) e]"
    "alloc_ok k'" "kern_template k'" "queues_ok k'" "length (free_pages k) \<le> length (free_pages k') + needs (loads hs) + 3"
    "cr3 k' = kern_pgdir k" by (rule env_create_run [OF assms]) (rule that)
  have byte: "get_byte d (p_va h + word_of_nat i) k' = Some (if i < unat (p_filesz h) then binary ! (unat (p_offset h) + i) else 0)"
    if h: "h \<in> set (loads hs)" and i: "i < unat (p_memsz h)" for h i
  proof -
    have f: "fits binary h" using assms(2) h by (auto simp: program_def placed_def split: option.splits)
    have "image k' d (p_va h + word_of_nat i) = Some (seg_bytes binary h ! i)" using k'(3) [OF h] i by (simp add: holds_segment_def)
    moreover have "mapped k' d (PGNUM (p_va h + word_of_nat i)) \<noteq> None"
      using k'(4) seg_address(2,3) [OF f i] h by (auto simp: regions_def user_page)
    moreover have "unat (p_filesz h) \<le> length binary - unat (p_offset h)" using f by (auto simp: fits_def)
    ultimately show ?thesis using get_byte_image [OF k'(2) seg_address(2) [OF f i]] i
      by (simp add: seg_bytes_def nth_append)
  qed
  show ?thesis
    by (intro exI [of _ k'] exI [of _ d] conjI) (use k' loadingD(1) [OF k'(2)] byte in simp_all)
qed

text \<open>A program of one segment: three bytes of the file, and four in memory at \<open>0x800FFE\<close>, over two pages.\<close>

definition demo_elf :: "u8w list" where
  "demo_elf = [0x7F, 0x45, 0x4C, 0x46] @ replicate 20 0 @ [0xFE, 0x0F, 0x80, 0] @ [52, 0, 0, 0] @ replicate 12 0 @ [1, 0] @ replicate 6 0
     @ [1, 0, 0, 0] @ [84, 0, 0, 0] @ [0xFE, 0x0F, 0x80, 0] @ replicate 4 0 @ [3, 0, 0, 0] @ [4, 0, 0, 0] @ replicate 8 0
     @ [0xAA, 0xBB, 0xCC]"

definition demo_header :: Proghdr where
  "demo_header = \<lparr>p_type = 1, p_offset = 84, p_va = 0x800FFE, p_filesz = 3, p_memsz = 4\<rparr>"

lemma demo_read:
  "read_elf demo_elf = Some \<lparr>e_magic = ELF_MAGIC, e_entry = 0x800FFE, e_phoff = 52, e_phnum = 1\<rparr>" "proghdrs demo_elf 52 1 = Some [demo_header]"
  by code_simp+

lemma demo_fields: "p_offset demo_header = 84" "p_va demo_header = 0x800FFE" "unat (p_filesz demo_header) = 3" "unat (p_memsz demo_header) = 4"
  by (simp_all add: demo_header_def)

lemma demo_region: "seg_region demo_header = {0x800, 0x801}" "loads [demo_header] = [demo_header]"
proof -
  have "page_lo 0x800FFE = 0x800" "page_hi 0x800FFE 4 = 0x802" by (simp_all add: page_lo_def page_hi_def)
  then show "seg_region demo_header = {0x800, 0x801}" by (auto simp: seg_region_def demo_header_def region_def)
qed (simp add: loads_def demo_header_def ELF_PROG_LOAD_def)

lemma demo_program: "program demo_elf [demo_header] 0x800FFE"
proof -
  have "fits demo_elf demo_header" by (simp add: fits_def demo_header_def demo_elf_def UTOP_value)
  moreover have "stack_page = 0xEEBFD" by (simp add: stack_page_def PGNUM_nat layout)
  ultimately show ?thesis using demo_read by (simp add: program_def demo_region placed_def regions_def)
qed

definition load_kern :: kern where
  "load_kern = small_kern\<lparr>pp_link := (\<lambda>_. None)(3 := Some 4, 4 := Some 5, 5 := Some 6, 6 := Some 7, 7 := Some 8, 8 := Some 9)\<rparr>"

lemma load_kern_creating: "creating load_kern 0" "free_pages load_kern = [3, 4, 5, 6, 7, 8, 9]"
proof -
  have "chain (pp_link load_kern) (page_free_list load_kern) [3, 4, 5, 6, 7, 8, 9]"
    by (simp add: load_kern_def small_kern_def zero_kern_def)
  then have a: "alloc_ok load_kern" and f: "free_pages load_kern = [3, 4, 5, 6, 7, 8, 9]"
    by (rule alloc_okI [rotated]; auto simp: load_kern_def small_kern_def zero_kern_def)+
  have "kern_template load_kern" using f by (simp add: kern_template_def load_kern_def small_kern_def zero_kern_def)
  moreover have "env_table_ok load_kern 0" using small_kern_env(1) by (simp add: env_table_ok_def load_kern_def)
  moreover have "queues_ok load_kern" using small_kern_queues(1) queues_ok_cong [of load_kern small_kern] by (simp add: load_kern_def)
  moreover have "total load_kern = {#}" using small_kern_queues(2) total_cong [of load_kern small_kern] by (simp add: load_kern_def items_def)
  moreover have "curenv load_kern = None" by (simp add: load_kern_def small_kern_def zero_kern_def)
  ultimately show "creating load_kern 0" using a by (simp add: creating_def NENV_def)
  show "free_pages load_kern = [3, 4, 5, 6, 7, 8, 9]" by (rule f)
qed

theorem env_create_loads_witness:
  "\<exists>k' d. env_create demo_elf load_kern = Some k' \<and> env_pgdir (envs k' 0) = Some d \<and> tf_eip (env_tf (envs k' 0)) = 0x800FFE
    \<and> map (\<lambda>va. get_byte d va k') [0x800FFE, 0x800FFF, 0x801000, 0x801001] = map Some [0xAA, 0xBB, 0xCC, 0]"
proof -
  have "needs (loads [demo_header]) + 3 \<le> length (free_pages load_kern)" by (simp add: needs_def demo_region load_kern_creating(2))
  from env_create_loads [OF load_kern_creating(1) demo_program this] obtain k' d where k': "env_create demo_elf load_kern = Some k'"
    "env_pgdir (envs k' 0) = Some d" "env_tf (envs k' 0) = user_tf\<lparr>tf_eip := 0x800FFE\<rparr>"
    and bytes: "\<forall>h\<in>set (loads [demo_header]). \<forall>i<unat (p_memsz h). get_byte d (p_va h + word_of_nat i) k'
          = Some (if i < unat (p_filesz h) then demo_elf ! (unat (p_offset h) + i) else 0)" by blast
  have byte: "get_byte d (0x800FFE + word_of_nat i) k' = Some (if i < 3 then demo_elf ! (84 + i) else 0)" if "i < 4" for i
    using bspec [OF bytes, of demo_header] that by (simp add: demo_region demo_fields)
  have "get_byte d 0x800FFE k' = Some 0xAA" "get_byte d 0x800FFF k' = Some 0xBB" "get_byte d 0x801000 k' = Some 0xCC" "get_byte d 0x801001 k' = Some 0"
    using byte [of 0] byte [of 1] byte [of 2] byte [of 3]
    by (simp_all add: demo_elf_def nth_append)
  then show ?thesis using k' by (intro exI [of _ k'] exI [of _ d]) simp
qed

end
