(* ===== verification/Kern_Start.thy ===== *)
theory Kern_Start
  imports Kern_Mem_Init Env_Load Trap_Props Sched_Props Monitor
begin

text \<open>
  Starting the kernel: \<open>i386_init\<close> and \<open>mp_main\<close> of \<open>scheduler/kern/init.c\<close> as the composition of the components, the page
  directory the entry code runs on, and what the processor that boots has done when it leaves the kernel for the
  first time.
\<close>

section \<open>The directory of the entry code\<close>

text \<open>\<open>entry_pgdir\<close> (\<open>entrypgdir.c\<close>): two large pages, both on the first four megabytes.\<close>

definition PDXSHIFT :: nat where "PDXSHIFT = 22"

definition entry_pgdir :: "nat \<Rightarrow> u32w" where
  "entry_pgdir = (\<lambda>_. 0)(0 := 0x00000 + PTE_P + PTE_PS, unat (drop_bit PDXSHIFT KERNBASE) := 0x00000 + PTE_P + PTE_W + PTE_PS)"

text \<open>With it, the first four megabytes are at their own addresses and above \<open>KERNBASE\<close>, and nothing else is mapped.\<close>

lemma entry_pgdir_maps:
  assumes "frames m d = entry_pgdir" and "PDX va = PDX KERNBASE \<or> PDX va = 0"
  shows "check_va2pa d va m = Some (va AND mask 22)"
proof -
  define pde where "pde = frames m d (PDX va)"
  have k: "unat (drop_bit PDXSHIFT KERNBASE) = 960" "PDX KERNBASE = 960" by (simp_all add: PDXSHIFT_def layout PDX_nat PGNUM_nat)
  then have "pde = 0x81 \<or> pde = 0x83" using assms by (auto simp: pde_def entry_pgdir_def pte_bits)
  then have pde: "pde AND PTE_P \<noteq> 0" "pde AND PTE_PS \<noteq> 0" "PDX pde = 0" by (auto simp: pte_bits PDX_nat PGNUM_nat)
  have "PGADDR 0 (word_of_nat (PTX va)) (PGOFF va) = va AND mask 22"
  proof (rule bit_word_eqI)
    fix n assume "n < LENGTH(32)"
    show "bit (PGADDR 0 (word_of_nat (PTX va)) (PGOFF va)) n \<longleftrightarrow> bit (va AND mask 22) n"
      by (auto simp: PGADDR_def PTX_def PGOFF_def mask_10 mask_12 bit_simps)
  qed
  then show ?thesis using pde by (simp add: check_va2pa_def flip: pde_def)
qed

lemma entry_pgdir_rest:
  assumes "frames m d = entry_pgdir" and "PDX va \<noteq> PDX KERNBASE" "PDX va \<noteq> 0"
  shows "check_va2pa d va m = Some (NOT 0)"
  using assms by (simp add: check_va2pa_def entry_pgdir_def PDX_nat PGNUM_nat PDXSHIFT_def layout)

section \<open>The machine\<close>

text \<open>What the linker gives: the end of the image, the stacks, the entry points of the traps, the addresses of the task states,
  the code that starts the other processors, and the programs built into the image.\<close>

record symbols =
  end_sym :: u32w
  percpu_kstacks :: u32w
  trap_entry :: "nat \<Rightarrow> u32w"
  cpu_ts :: "nat \<Rightarrow> u32w"
  mpentry_code :: "u8w list"
  images :: "u8w list list"

record machine =
  m_kern :: kern
  m_dev :: devices
  m_smp :: smp
  m_gdt :: "Segdesc list"
  m_ts :: "nat \<Rightarrow> Taskstate"
  m_idt :: "nat \<Rightarrow> Gatedesc"
  m_tr :: u16w
  m_cr0 :: u32w

definition zero_ts :: Taskstate where
  "zero_ts = \<lparr>ts_link = 0, ts_esp0 = 0, ts_ss0 = 0, ts_esp1 = 0, ts_ss1 = 0, ts_esp2 = 0, ts_ss2 = 0, ts_cr3 = 0, ts_eip = 0, ts_eflags = 0,
     ts_eax = 0, ts_ecx = 0, ts_edx = 0, ts_ebx = 0, ts_esp = 0, ts_ebp = 0, ts_esi = 0, ts_edi = 0, ts_es = 0, ts_cs = 0, ts_ss = 0,
     ts_ds = 0, ts_fs = 0, ts_gs = 0, ts_ldt = 0, ts_t = 0, ts_iomb = 0\<rparr>"

text \<open>The globals after \<open>memset (__bss_start, 0, end - __bss_start)\<close>: zero, but for the initialised ones, which the loader has put in
  memory (the queues, the table of segments, the mask of the interrupts, the base of device memory). Memory and devices are as they were.\<close>

definition clear_bss :: "machine \<Rightarrow> machine" where
  "clear_bss m = (let k = m_kern m; c = cons k in
     m\<lparr>m_kern := (zero_kern 0)\<lparr>frames := frames k, cr3 := cr3 k, invalidated := invalidated k,
         cons := idle_console\<lparr>crt_buf := crt_buf c, kbd_pending := kbd_pending c, ser_pending := ser_pending c,
           serial_out := serial_out c, lpt_out := lpt_out c, rebooted := rebooted c\<rparr>\<rparr>,
       m_dev := (m_dev m)\<lparr>irq_mask_8259A := NOT (push_bit IRQ_SLAVE 1), didinit := False, lapic := None\<rparr>,
       m_smp := smp_zero, m_gdt := gdt, m_ts := (\<lambda>_. zero_ts), m_idt := (\<lambda>_. null_gate)\<rparr>)"

text \<open>Loading the segment registers (\<open>env_init_percpu\<close>) is not modelled. The CPU's number is the one of its interrupt controller; its
  status is the one of its entry in \<open>cpus\<close>.\<close>

definition this_cpu :: "devices \<Rightarrow> smp \<Rightarrow> 'a kern_scheme \<Rightarrow> 'a kern_scheme" where
  "this_cpu dev s k = k\<lparr>cpunum := lapic_cpunum dev, cpu_status := cpu_statuses s (lapic_cpunum dev)\<rparr>"

definition apic_id :: "devices \<Rightarrow> nat" where
  "apic_id dev = unat (drop_bit 24 (lapic_regs dev ID))"

definition load_task :: "symbols \<Rightarrow> nat \<Rightarrow> machine \<Rightarrow> machine" where
  "load_task sy c m = (let (ts, g, tr) = trap_init_percpu (cpu_ids (m_smp m) c) (cpu_ts sy c) (m_ts m c) (m_gdt m) in
     m\<lparr>m_ts := (m_ts m)(c := ts), m_gdt := g, m_tr := tr\<rparr>)"

text \<open>\<open>ENV_CREATE\<close> of the programs in their order.\<close>

fun create_envs :: "u8w list list \<Rightarrow> 'a kern_scheme \<Rightarrow> 'a kern_scheme option" where
  "create_envs [] k = Some k"
| "create_envs (b # bs) k = do { k \<leftarrow> env_create b k; create_envs bs k }"

text \<open>\<open>i386_init\<close>. The waits of \<open>boot_aps\<close> for the other processors are where these run; the result has the ones it starts.
  The messages of the functions it calls are not part of their models.\<close>

definition i386_init :: "policy \<Rightarrow> symbols \<Rightarrow> nat \<Rightarrow> bool \<Rightarrow> machine \<Rightarrow> ((nat \<times> u32w) list \<times> fate \<times> machine) option" where
  "i386_init pol sy cursor serial m = do {
     let m = clear_bss m;
     let k = m_kern m;
     con \<leftarrow> say (''6828 decimal is %o octal!'' @ [NL]) [Word 6828] (cons_init cursor serial (cons k));
     (k, dev, cr0) \<leftarrow> mem_init (end_sym sy) (percpu_kstacks sy) (m_cr0 m) (k\<lparr>cons := con\<rparr>) (m_dev m);
     let k = env_init k;
     let m = load_task sy (cpunum k) (m\<lparr>m_cr0 := cr0, m_idt := trap_init (trap_entry sy)\<rparr>);
     smp \<leftarrow> mp_init k (m_smp m);
     (k, dev) \<leftarrow> lapic_init (lapicaddr smp) (apic_id dev = bootcpu smp) k dev;
     let k = this_cpu dev smp k;
     let dev = pic_init dev;
     k \<leftarrow> lock_kernel k;
     (started, k, dev) \<leftarrow> boot_aps (mpentry_code sy) (percpu_kstacks sy) smp k dev;
     k \<leftarrow> create_envs (images sy) k;
     (f, k) \<leftarrow> sched_yield pol k;
     Some (started, f, m\<lparr>m_kern := k, m_dev := dev, m_smp := smp\<rparr>)
   }"

text \<open>\<open>mp_main\<close>, on a processor that was started: the kernel's state as this processor sees it.\<close>

definition mp_main :: "policy \<Rightarrow> symbols \<Rightarrow> machine \<Rightarrow> (fate \<times> machine) option" where
  "mp_main pol sy m = do {
     let k = (m_kern m)\<lparr>cr3 := kern_pgdir (m_kern m)\<rparr>;
     con \<leftarrow> say (''SMP: CPU %d starting'' @ [NL]) [Word (word_of_nat (lapic_cpunum (m_dev m)))] (cons k);
     (k, dev) \<leftarrow> lapic_init (lapicaddr (m_smp m)) (apic_id (m_dev m) = bootcpu (m_smp m)) (k\<lparr>cons := con\<rparr>) (m_dev m);
     let m = load_task sy (lapic_cpunum dev) m;
     let smp = (m_smp m)\<lparr>cpu_statuses := (cpu_statuses (m_smp m))(lapic_cpunum dev := CPU_STARTED)\<rparr>;
     k \<leftarrow> lock_kernel (this_cpu dev smp k);
     (f, k) \<leftarrow> sched_yield pol k;
     Some (f, m\<lparr>m_kern := k, m_dev := dev, m_smp := smp\<rparr>)
   }"

section \<open>The first choice of the scheduler\<close>

definition same_programs :: "'a kern_scheme \<Rightarrow> 'a kern_scheme \<Rightarrow> bool" where
  "same_programs k k' \<longleftrightarrow> (\<forall>i. env_tf (envs k' i) = env_tf (envs k i) \<and> env_id (envs k' i) = env_id (envs k i))"

named_theorems keeping

lemma same_programs_trans: "same_programs k k' \<Longrightarrow> same_programs k' k'' \<Longrightarrow> same_programs k k''"
  by (simp add: same_programs_def)

lemma agregar_keeps [keeping]: "sched_agregar_env e v k = Some k' \<Longrightarrow> same_programs k k'"
  by (auto simp: sched_agregar_env_def same_programs_def Let_def split: bind_splits)

lemma env_run_keeps [keeping]: "env_run e k = Some (f, k') \<Longrightarrow> same_programs k k'"
  by (auto simp: env_run_def env_load_pgdir_def unlock_kernel_def preempt_def same_programs_def Let_def split: bind_splits if_splits option.splits)

lemma sched_halt_keeps [keeping]: "sched_halt k = Some (f, k') \<Longrightarrow> same_programs k k'"
  by (auto simp: sched_halt_def unlock_kernel_def same_programs_def Let_def split: bind_splits if_splits)

lemma promover_desde_keeps [keeping]: "promover_desde n q i k = Some k' \<Longrightarrow> same_programs k k'"
proof (induction n q i k rule: promover_desde.induct)
  case (2 n q i k)
  then show ?case by (auto simp: Let_def same_programs_def dest!: agregar_keeps split: if_splits bind_splits)
qed (simp add: same_programs_def)

lemma promocion_keeps [keeping]: "promocion_periodica k = Some k' \<Longrightarrow> same_programs k k'"
  by (auto simp: promocion_periodica_def promover_colas_def promover_cola_def vaciar_colas_def Let_def same_programs_def
      dest!: promover_desde_keeps split: if_splits bind_splits)

lemma round_robin_keeps [keeping]: "round_robin k = Some (f, k') \<Longrightarrow> same_programs k k'"
  by (auto simp: round_robin_def Let_def count_run_def same_programs_def dest!: env_run_keeps split: if_splits bind_splits option.splits)

lemma prioridad_keeps [keeping]: "prioridad_MLFQ k = Some (f, k') \<Longrightarrow> same_programs k k'"
  by (auto simp: prioridad_MLFQ_def Let_def count_run_def add_total_def same_programs_def
      dest!: agregar_keeps env_run_keeps sched_halt_keeps split: if_splits bind_splits option.splits)

lemma sched_yield_keeps: "sched_yield pol k = Some (f, k') \<Longrightarrow> same_programs k k'"
  by (cases pol) (auto simp: sched_yield_def Let_def same_programs_def dest!: round_robin_keeps prioridad_keeps promocion_keeps
      sched_halt_keeps split: bind_splits option.splits)

text \<open>With the environments queued in the order of their slots and nothing run so far, both policies choose slot 0.\<close>

lemma first_yield:
  assumes q: "queues_ok k" "items k A = map (next_env_id 0) [0..<n]" "0 < n" "n \<le> NENV" "\<And>x. x \<noteq> A \<Longrightarrow> items k x = []"
    and lock: "lock_holder k = Some (cpunum k)" and cur: "curenv k = None" and runs: "ejecuciones_totales (mlfq_scheduler k) = 0"
    and st: "\<And>i. i < n \<Longrightarrow> env_status (envs k i) = ENV_RUNNABLE \<and> env_pgdir (envs k i) \<noteq> None"
  obtains k' where "sched_yield pol k = Some (Runs 0, k')" "after (Some (Runs 0)) k'" "same_programs k k'"
    "\<And>i. i \<noteq> 0 \<Longrightarrow> env_status (envs k' i) = env_status (envs k i)" "\<And>i. env_pgdir (envs k' i) = env_pgdir (envs k i)"
proof -
  have h: "holds k" using lock by (simp add: holds_def)
  have x: "ENVX (next_env_id 0 i) = i" if "i < n" for i using env_id_props(2) that q(4) by simp
  have "\<exists>k'. sched_yield pol k = Some (Runs 0, k') \<and> (\<forall>i. i \<noteq> 0 \<longrightarrow> env_status (envs k' i) = env_status (envs k i))
    \<and> (\<forall>i. env_pgdir (envs k' i) = env_pgdir (envs k i))"
  proof (cases pol)
    case SCHED_ROUND_ROBIN
    have f: "first_from (\<lambda>i. env_status (envs k (i mod NENV)) = ENV_RUNNABLE) 0 NENV = 0"
      using st [OF q(3)] by (intro first_from_eqI) simp_all
    let ?k = "count_run 0 (k\<lparr>runs_del_sched := runs_del_sched k + 1\<rparr>)"
    obtain d where d: "env_pgdir (envs k 0) = Some d" using st [OF q(3)] by auto
    then have "env_pgdir (envs ?k 0) = Some d" "lock_holder ?k = Some (cpunum ?k)" using lock by (simp_all add: count_run_def)
    then obtain k' where r: "env_run 0 ?k = Some (Runs 0, k')" and e: "\<And>i. i \<noteq> 0 \<Longrightarrow> env_status (envs k' i) = env_status (envs ?k i)
        \<or> curenv ?k = Some i \<and> env_status (envs ?k i) = ENV_RUNNING \<and> env_status (envs k' i) = ENV_RUNNABLE"
      "\<And>i. env_pgdir (envs k' i) = env_pgdir (envs ?k i)" by (rule env_run_ok) (rule that)
    have "sched_yield pol k = Some (Runs 0, k')"
      using r f cur SCHED_ROUND_ROBIN by (simp add: sched_yield_def round_robin_def Let_def)
    then show ?thesis using e cur by (intro exI [of _ k']) (auto simp: count_run_def)
  next
    case SCHED_PRIORITIES
    have all: "total k = mset (map (next_env_id 0) [0..<n])" using q(2,5) by (simp add: total_def)
    have r: "ready k" using q(1) lock st x by (auto simp: ready_def all)
    have e0: "next_env_id 0 0 \<in># total k" "ejecutable k (next_env_id 0 0)" using q(3) st x by (auto simp: all ejecutable_def)
    have b: "boosted_items k = items k" using runs by (simp add: boosted_items_def MAX_EJECUCIONES_MLFQ_def fun_eq_iff)
    obtain y e k' where k': "sched_yield SCHED_PRIORITIES k = Some (Runs (ENVX e), k')" "runs_next k y e k'"
      "find (ejecutable k) (boosted_items k y) = Some e" by (rule yield_runs [OF r e0]) (rule that)
    have "y = A" using k'(3) q(5) [of y] by (cases "y = A") (simp_all add: b)
    moreover have "[0..<n] = 0 # [1..<n]" using q(3) by (simp add: upt_conv_Cons)
    ultimately have "ENVX e = 0" using k'(3) e0(2) x [OF q(3)] by (simp add: b q(2))
    then show ?thesis using k' cur SCHED_PRIORITIES by (intro exI [of _ k']) (auto simp: runs_next_def)
  qed
  then show thesis using that sched_yield_after [OF h] sched_yield_keeps by blast
qed

section \<open>The environments\<close>

text \<open>The slots from \<open>e\<close> on are as \<open>env_init\<close> leaves them.\<close>

definition unused_from :: "nat \<Rightarrow> 'a kern_scheme \<Rightarrow> bool" where
  "unused_from e k \<longleftrightarrow> (\<forall>i. e \<le> i \<and> i < NENV \<longrightarrow> env_id (envs k i) = 0 \<and> env_status (envs k i) = ENV_FREE
     \<and> env_link (envs k i) = (if i = NENV - 1 then None else Some (i + 1)))"

definition programs :: "u8w list list \<Rightarrow> (Proghdr list \<times> u32w) list \<Rightarrow> bool" where
  "programs bs ps \<longleftrightarrow> list_all2 (\<lambda>b (hs, entry_point). program b hs entry_point) bs ps"

definition pages_needed :: "(Proghdr list \<times> u32w) list \<Rightarrow> nat" where
  "pages_needed ps = sum_list (map (\<lambda>(hs, _). needs (loads hs) + 3) ps)"

lemma create_envs_run:
  fixes k :: "'a kern_scheme"
  assumes "bs \<noteq> [] \<Longrightarrow> creating k e" and "unused_from e k" and "programs bs ps" and "e + length bs \<le> NENV"
    and "size (total k) = e" and "pages_needed ps \<le> length (free_pages k)" and "curenv k = None" "queues_ok k"
  obtains k' where "create_envs bs k = Some k'" "unused_from (e + length bs) k'" "\<And>i. i < e \<Longrightarrow> envs k' i = envs k i"
    "\<And>i. i < length bs \<Longrightarrow> env_status (envs k' (e + i)) = ENV_RUNNABLE \<and> env_id (envs k' (e + i)) = next_env_id 0 (e + i)
       \<and> env_tf (envs k' (e + i)) = user_tf\<lparr>tf_eip := snd (ps ! i)\<rparr> \<and> env_pgdir (envs k' (e + i)) \<noteq> None"
    "items k' A = items k A @ map (next_env_id 0) [e..<e + length bs]" "\<And>x. x \<noteq> A \<Longrightarrow> items k' x = items k x" "queues_ok k'"
    "curenv k' = None" "lock_holder k' = lock_holder k" "cpunum k' = cpunum k"
    "ejecuciones_totales (mlfq_scheduler k') = ejecuciones_totales (mlfq_scheduler k)"
  using assms
proof (induction bs arbitrary: k e ps thesis)
  case Nil
  then show ?case by simp
next
  case (Cons b bs)
  obtain hs en ps' where ps: "ps = (hs, en) # ps'" "program b hs en" "programs bs ps'"
    using Cons.prems(4) by (auto simp: programs_def list_all2_Cons1)
  have c: "creating k e" using Cons.prems(2) by simp
  have room: "needs (loads hs) + 3 \<le> length (free_pages k)" "pages_needed ps' + (needs (loads hs) + 3) \<le> length (free_pages k)"
    using Cons.prems(7) by (simp_all add: ps pages_needed_def)
  have e: "e < NENV" and slot: "env_id (envs k e) = 0" "env_link (envs k e) = (if e = NENV - 1 then None else Some (e + 1))"
    using Cons.prems(3,5) by (auto simp: unused_from_def)
  obtain k1 d where k1: "env_create b k = Some k1" "loading k1 d"
    "\<And>i. envs k1 i = (if i = e then (envs k e)\<lparr>env_pgdir := Some d, env_id := next_env_id 0 e, env_parent_id := 0,
      env_status := ENV_RUNNABLE, env_runs := 0, env_tf := user_tf\<lparr>tf_eip := en\<rparr>, env_pgfault_upcall := 0,
      env_ipc_recving := False, ejecuciones := 0, cola_actual := 0\<rparr> else envs k i)"
    "env_free_list k1 = env_link (envs k e)" "items k1 A = items k A @ [next_env_id 0 e]" "\<And>x. x \<noteq> A \<Longrightarrow> items k1 x = items k x"
    "alloc_ok k1" "kern_template k1" "queues_ok k1" "total k1 = add_mset (next_env_id 0 e) (total k)"
    "length (free_pages k) \<le> length (free_pages k1) + needs (loads hs) + 3"
    "curenv k1 = None" "lock_holder k1 = lock_holder k" "cpunum k1 = cpunum k"
    "ejecuciones_totales (mlfq_scheduler k1) = ejecuciones_totales (mlfq_scheduler k)"
    by (rule env_create_run [OF c ps(2) room(1), unfolded slot(1)]) (rule that, assumption+)
  have unused: "unused_from (e + 1) k1" using Cons.prems(3) by (auto simp: unused_from_def k1(3))
  have more: "creating k1 (e + 1)" if "bs \<noteq> []"
  proof -
    have e1: "e + 1 < NENV" using Cons.prems(5) that by (cases bs) auto
    then have "env_free_list k1 = Some (e + 1)" using k1(4) slot(2) by simp
    moreover have "env_status (envs k1 (e + 1)) = ENV_FREE" using unused e1 by (simp add: unused_from_def)
    moreover have "\<forall>i. 0 \<le> cola_actual (envs k1 i) \<and> cola_actual (envs k1 i) \<le> 3"
      using c by (auto simp: k1(3) creating_def env_table_ok_def)
    ultimately show ?thesis using k1(7-10,12) e1 Cons.prems(6) by (simp add: creating_def env_table_ok_def)
  qed
  have p: "e + 1 + length bs \<le> NENV" "size (total k1) = e + 1" "pages_needed ps' \<le> length (free_pages k1)"
    using Cons.prems(5,6) k1(10,11) room(2) by simp_all
  obtain k' where k': "create_envs bs k1 = Some k'" "unused_from (e + 1 + length bs) k'" "\<And>i. i < e + 1 \<Longrightarrow> envs k' i = envs k1 i"
    "\<And>i. i < length bs \<Longrightarrow> env_status (envs k' (e + 1 + i)) = ENV_RUNNABLE \<and> env_id (envs k' (e + 1 + i)) = next_env_id 0 (e + 1 + i)
       \<and> env_tf (envs k' (e + 1 + i)) = user_tf\<lparr>tf_eip := snd (ps' ! i)\<rparr> \<and> env_pgdir (envs k' (e + 1 + i)) \<noteq> None"
    "items k' A = items k1 A @ map (next_env_id 0) [e + 1..<e + 1 + length bs]" "\<And>x. x \<noteq> A \<Longrightarrow> items k' x = items k1 x" "queues_ok k'"
    "curenv k' = None" "lock_holder k' = lock_holder k1" "cpunum k' = cpunum k1"
    "ejecuciones_totales (mlfq_scheduler k') = ejecuciones_totales (mlfq_scheduler k1)"
    by (rule Cons.IH [OF _ more unused ps(3) p k1(12) k1(9)]) (assumption | rule that, assumption+)
  show ?case
  proof (rule Cons.prems(1))
    show "create_envs (b # bs) k = Some k'" using k1(1) k'(1) by simp
    show "env_status (envs k' (e + i)) = ENV_RUNNABLE \<and> env_id (envs k' (e + i)) = next_env_id 0 (e + i)
       \<and> env_tf (envs k' (e + i)) = user_tf\<lparr>tf_eip := snd (ps ! i)\<rparr> \<and> env_pgdir (envs k' (e + i)) \<noteq> None" if "i < length (b # bs)" for i
      using k'(3) [of e] k'(4) [of "i - 1"] that by (cases i) (auto simp: k1(3) ps)
    have "[e..<e + length (b # bs)] = e # [e + 1..<e + 1 + length bs]" by (subst upt_rec) simp
    then show "items k' A = items k A @ map (next_env_id 0) [e..<e + length (b # bs)]" using k'(5) k1(5) by simp
  qed (use k' k1 in auto)
qed

section \<open>The other processors and the interrupt controller\<close>

text \<open>Starting them writes to the frames 0 and 7 only.\<close>

definition pokes :: "nat set \<Rightarrow> 'a mem_scheme \<Rightarrow> 'a mem_scheme \<Rightarrow> bool" where
  "pokes X m m' \<longleftrightarrow> (\<exists>F. m' = m\<lparr>frames := F\<rparr> \<and> (\<forall>f. f \<notin> X \<longrightarrow> F f = frames m f))"

lemma pokes_refl: "pokes X m m"
  by (auto simp: pokes_def intro!: exI [of _ "frames m"])

lemma pokes_trans: "pokes X m m' \<Longrightarrow> pokes Y m' m'' \<Longrightarrow> pokes (X \<union> Y) m m''"
  by (auto simp: pokes_def)

lemma pokes_put: "PGNUM pa = f \<Longrightarrow> pokes {f} m (put_phys pa b m)"
  by (auto simp: pokes_def put_phys_def set_word_def Let_def)

lemma pokes_code:
  "0x7000 \<le> unat pa \<Longrightarrow> unat pa + length bs \<le> 0x8000 \<Longrightarrow> pokes {7} m (put_code pa bs m)"
proof (induction pa bs m rule: put_code.induct)
  case (2 pa b bs m)
  have "PGNUM pa = 7" using 2(2,3) by (auto simp: PGNUM_nat intro!: div_nat_eqI)
  then have "pokes {7} m (put_phys pa b m)" by (rule pokes_put)
  moreover have "unat (pa + 1) = unat pa + 1" using 2(3) by (subst unat_add_lem [THEN iffD1]) simp_all
  then have "pokes {7} (put_phys pa b m) (put_code (pa + 1) bs (put_phys pa b m))" using 2 by (intro 2(1)) simp_all
  ultimately show ?case using pokes_trans by fastforce
qed (simp add: pokes_refl)

lemma warm_reset_ok:
  assumes "7 < npages m"
  shows "\<exists>m'. warm_reset addr m = Some m' \<and> pokes {0} m m'"
proof -
  have r: "KADDR m 0x467 = Some 0xF0000467" "PADDR 0xF0000467 = Some 0x467"
    using assms by (simp_all add: KADDR_def PADDR_def PGNUM_nat layout)
  have p: "PGNUM 0x467 = 0" "PGNUM 0x468 = 0" "PGNUM 0x469 = 0" "PGNUM 0x46A = 0" by (simp_all add: PGNUM_nat)
  have "pokes {0} m (put_phys 0x46A d (put_phys 0x469 c (put_phys 0x468 b (put_phys 0x467 a m))))" for a b c d
    using pokes_trans [OF pokes_trans [OF pokes_trans [OF pokes_put [OF p(1)] pokes_put [OF p(2)]] pokes_put [OF p(3)]] pokes_put [OF p(4)]]
    by simp
  moreover have "(push_bit 4 0x40 OR 0x67 :: u32w) = 0x467" by simp
  ultimately show ?thesis by (simp add: warm_reset_def r Let_def)
qed

lemma boot_loop_ok:
  assumes "7 < npages m"
  shows "\<exists>m' d'. boot_loop entry_code kstacks this s cs m d = Some (map (\<lambda>c. (c, kstack_top kstacks c)) (filter (\<lambda>c. c \<noteq> this) cs), m', d') \<and> pokes {0} m m'"
  using assms
proof (induction cs arbitrary: m d)
  case (Cons c cs)
  show ?case
  proof (cases "c = this")
    case False
    obtain m1 d1 where m1: "lapic_startap (word_of_nat (cpu_ids s c)) entry_code m d = Some (m1, d1)" "pokes {0} m m1"
      using warm_reset_ok [OF Cons.prems, of entry_code] by (auto simp: lapic_startap_def Let_def)
    have "7 < npages m1" using m1(2) Cons.prems by (auto simp: pokes_def)
    from Cons.IH [OF this, of d1] obtain m' d' where
      "boot_loop entry_code kstacks this s cs m1 d1 = Some (map (\<lambda>c. (c, kstack_top kstacks c)) (filter (\<lambda>c. c \<noteq> this) cs), m', d')"
      "pokes {0} m1 m'" by blast
    then show ?thesis using m1 False pokes_trans [OF m1(2)] by fastforce
  qed (use Cons in simp)
qed (simp add: pokes_refl)

lemma boot_aps_ok:
  assumes "7 < npages m" and "length entry_code \<le> 4096"
  obtains m' d' where "boot_aps entry_code kstacks s m d
      = Some (map (\<lambda>c. (c, kstack_top kstacks c)) (filter (\<lambda>c. c \<noteq> lapic_cpunum d) [0..<ncpu s]), m', d')" "pokes {0, 7} m m'"
proof -
  have a: "KADDR m MPENTRY_PADDR = Some 0xF0007000" "PADDR 0xF0007000 = Some 0x7000"
    using assms(1) by (simp_all add: KADDR_def PADDR_def PGNUM_nat layout)
  have p: "pokes {7} m (put_code 0x7000 entry_code m)" by (rule pokes_code) (use assms(2) in simp_all)
  then have "7 < npages (put_code 0x7000 entry_code m)" using assms(1) by (auto simp: pokes_def)
  from boot_loop_ok [OF this, of "0x7000" kstacks "lapic_cpunum d" s "[0..<ncpu s]" d] obtain m' d' where
    m': "boot_loop 0x7000 kstacks (lapic_cpunum d) s [0..<ncpu s] (put_code 0x7000 entry_code m) d
      = Some (map (\<lambda>c. (c, kstack_top kstacks c)) (filter (\<lambda>c. c \<noteq> lapic_cpunum d) [0..<ncpu s]), m', d')"
    "pokes {0} (put_code 0x7000 entry_code m) m'" by blast
  have "pokes {0, 7} m m'" using pokes_trans [OF p m'(2)] by (simp add: insert_commute)
  then show thesis using that m'(1) by (simp add: boot_aps_def a)
qed

text \<open>The interrupt controller's registers get the next page of device memory.\<close>

lemma lapic_init_ok:
  fixes m :: "'a mem_scheme"
  assumes ok: "kdir_ok m d" and d: "d = kern_pgdir m" and all: "\<And>s. kslot s \<Longrightarrow> table m d s \<noteq> None"
    and base: "unat (mmio_base m) = (mmio_page + 3) * 4096" and free: "entry m d (mmio_page + 3) = 0" and tm: "kern_template m"
    and addr: "addr \<noteq> 0"
  obtains m' dev' where "lapic_init addr b m dev = Some (m', dev')" "lapic dev' = Some (mmio_base m)"
    "lapic_regs dev' ID = lapic_regs dev ID" "alloc_ok m'" "kern_template m'" "length (free_pages m') = length (free_pages m)"
    "npages m' = npages m" "kern_pgdir m' = d" "mem.more m' = mem.more m" "curenv_pgdir m' = curenv_pgdir m"
    "entry m' d (mmio_page + 3) = region_pte (ROUNDDOWN addr PGSIZE) mmio_perm 0"
    "\<And>f. f \<notin> set (free_pages m) \<Longrightarrow> f \<notin> kframes m d \<Longrightarrow> frames m' f = frames m f"
proof -
  have sz: "ROUNDUP 4096 PGSIZE = 0x1000" by (simp add: ROUNDUP_def ROUNDDOWN_def PGSIZE_def)
  have slot: "v div 1024 = 958" if "v = mmio_page + 3" for v using that by (simp add: mmio_page_def)
  have s: "kslot 958" by (simp add: kslot_def)
  have z: "kslot (v div 1024) \<and> entry m d v = 0" if "mmio_page + 3 \<le> v" "v < mmio_page + 3 + 1" for v
  proof -
    have "v = mmio_page + 3" using that by simp
    then show ?thesis using s slot free by simp
  qed
  have u: "unat (0x1000 :: u32w) = 1 * 4096" "mmio_page + 3 + 1 \<le> 0x100000" by (simp_all add: mmio_page_def)
  obtain m1 where m1: "boot_map_region d (mmio_base m) 0x1000 (ROUNDDOWN addr PGSIZE) mmio_perm m = Some m1" "kdir_ok m1 d" "boot_same d m m1"
    "\<And>v. kslot (v div 1024) \<Longrightarrow> entry m1 d v = (if mmio_page + 3 \<le> v \<and> v < mmio_page + 3 + 1
       then region_pte (ROUNDDOWN addr PGSIZE) mmio_perm (v - (mmio_page + 3)) else entry m d v)"
    by (rule boot_region [OF ok u(1) base u(2) z, where pa = "ROUNDDOWN addr PGSIZE" and perm = mmio_perm]) (assumption+, rule that)
  let ?m = "m1\<lparr>mmio_base := mmio_base m + 0x1000\<rparr>"
  have "unat (mmio_base m + 0x1000) = (mmio_page + 4) * 4096"
    using base by (subst unat_add_lem [THEN iffD1]) (simp_all add: mmio_page_def)
  then have "mmio_base m + 0x1000 < MMIOLIM" by (simp add: word_less_nat_alt layout mmio_page_def)
  then have map: "mmio_map_region addr 4096 m = Some (mmio_base m, ?m)"
    using m1(1) d by (simp add: mmio_map_region_def Let_def mmio_perm_def not_le sz)
  have same: "npages m1 = npages m" "kern_pgdir m1 = d" "mem.more m1 = mem.more m" "curenv_pgdir m1 = curenv_pgdir m"
    "length (free_pages m1) + card (missing m d) = length (free_pages m) + card (missing m1 d)"
    "\<And>s. \<not> kslot s \<Longrightarrow> frames m1 d s = frames m d s" "\<And>s t. table m d s = Some t \<Longrightarrow> table m1 d s = Some t"
    "\<And>f. f \<notin> set (free_pages m) \<Longrightarrow> f \<notin> kframes m d \<Longrightarrow> frames m1 f = frames m f"
    using m1(3) d by (simp_all add: boot_same_def)
  have "table m1 d s \<noteq> None" if "kslot s" for s using all [OF that] same(7) [of s] by auto
  then have "missing m d = {}" "missing m1 d = {}" using all by (auto simp: missing_def)
  then have len: "length (free_pages m1) = length (free_pages m)" using same(5) by simp
  have al: "alloc_ok ?m" "free_pages ?m = free_pages m1" using kdir_okD(1) [OF m1(2)] by (simp_all add: alloc_ok_def free_pages_def)
  have "frames m1 d s = 0" if "s < 955" for s using same(6) [of s] tm that d by (simp add: kern_template_def kslot_def)
  then have t: "kern_template ?m" using kdir_okD(3,4) [OF m1(2)] al(2) same(2) by (simp add: kern_template_def)
  have e: "entry ?m d (mmio_page + 3) = region_pte (ROUNDDOWN addr PGSIZE) mmio_perm 0"
    using m1(4) [of "mmio_page + 3"] s slot by (simp add: kdir_mmio)
  obtain dev' where dev: "lapic_init addr b m dev = Some (?m, dev')" "lapic dev' = Some (mmio_base m)" "lapic_regs dev' ID = lapic_regs dev ID"
    using addr map by (simp add: lapic_init_def Let_def wait_delivered_def lapicw_def lapic_consts)
  show thesis
    by (rule that [OF dev al(1) t _ _ _ _ _ e]) (use len al(2) same in simp_all)
qed

section \<open>The start\<close>

lemma start_message: "vprintfmt (''6828 decimal is %o octal!'' @ [NL]) [Word 6828] = Some (map code (''6828 decimal is 15254 octal!'' @ [NL]))"
  by (simp add: NL_def vprintfmt.simps scan_flags.simps code_def is_digit_def convert_def getint_def getuint_def print_int_def printnum.simps no_flags_def hex_digits_def)

text \<open>The pages of memory that the clock's memory reports.\<close>

definition memory_pages :: "devices \<Rightarrow> nat" where
  "memory_pages dev = npages (fst (i386_detect_memory (zero_kern 0) dev))"

lemma nvram_read_shape: "nvram_read r d = (ucast (cmos d (ucast r)) OR push_bit 8 (ucast (cmos d (ucast (r + 1)))), d\<lparr>cmos_index := ucast (r + 1)\<rparr>)"
  by (simp add: nvram_read_def mc146818_read_def outb_def inb_def Let_def IO_PIC1_def IO_PIC2_def IO_RTC_def)

lemma detect_shape:
  "i386_detect_memory k dev = (k\<lparr>npages := memory_pages dev, npages_basemem := npages_basemem (fst (i386_detect_memory k dev))\<rparr>,
     dev\<lparr>cmos_index := ucast (NVRAM_EXT16LO + 1)\<rparr>)"
  by (simp add: memory_pages_def i386_detect_memory_def nvram_read_shape Let_def)

lemma memory_pages_cong: "cmos d' = cmos d \<Longrightarrow> memory_pages d' = memory_pages d"
  by (simp add: memory_pages_def i386_detect_memory_def nvram_read_shape Let_def)

lemma outb_lapic [simp]: "lapic_regs (outb port b d) = lapic_regs d" "lapic (outb port b d) = lapic d"
  by (simp_all add: outb_def)

lemma pic_init_keeps: "lapic_regs (pic_init d) = lapic_regs d" "lapic (pic_init d) = lapic d"
  by (simp_all add: pic_init_def irq_setmask_8259A_def Let_def)

text \<open>The memory below the kernel's own data as the loader leaves it: the frames that are never allocated.\<close>

definition first_page :: "nat \<Rightarrow> nat \<Rightarrow> nat" where
  "first_page p n = p + 34 + array_pages n"

definition untouched :: "nat \<Rightarrow> kern \<Rightarrow> kern \<Rightarrow> bool" where
  "untouched p k k' \<longleftrightarrow> (\<forall>f. f \<notin> usable (first_page p (npages k')) (npages k') \<and> f \<noteq> p \<longrightarrow> frames k' f = frames k f)"

text \<open>What the machine and the image must offer: the image ends at page \<open>p\<close>, memory has room for the kernel's data and for the
  programs, which are well-formed.\<close>

definition bootable :: "symbols \<Rightarrow> nat \<Rightarrow> nat \<Rightarrow> (Proghdr list \<times> u32w) list \<Rightarrow> bool" where
  "bootable sy p n ps \<longleftrightarrow> unat (ROUNDUP (end_sym sy) PGSIZE) = unat KERNBASE + p * 4096 \<and> PGNUM EXTPHYSMEM \<le> p
     \<and> first_page p n + 69 \<le> n \<and> n \<le> 0x10000
     \<and> KERNBASE \<le> percpu_kstacks sy \<and> aligned (percpu_kstacks sy) \<and> unat (percpu_kstacks sy) + NCPU * unat KSTKSIZE \<le> 2 ^ 32
     \<and> length (mpentry_code sy) \<le> 4096
     \<and> programs (images sy) ps \<and> ps \<noteq> [] \<and> length ps \<le> NENV \<and> pages_needed ps + 68 \<le> card (usable (first_page p n) n)"

lemma say_start: "say (''6828 decimal is %o octal!'' @ [NL]) [Word 6828] c
    = Some (fold (\<lambda>c. cputchar (word_of_int c)) (map code (''6828 decimal is 15254 octal!'' @ [NL])) c)"
  by (simp add: say_def k_cprintf_def start_message [simplified] put_all_k_putch)

text \<open>From the first line to the tables of the kernel.\<close>

lemma kernel_ready:
  assumes b: "bootable sy p (memory_pages dev) ps" and z: "nextfree k = 0" "page_free_list k = None" "mmio_base k = MMIOBASE"
  obtains k' dev' where "mem_init (end_sym sy) (percpu_kstacks sy) cr0 k dev = Some (k', dev', config_cr0 cr0)"
    "dev' = dev\<lparr>cmos_index := ucast (NVRAM_EXT16LO + 1)\<rparr>" "alloc_ok k'" "npages k' = memory_pages dev" "kern_pgdir k' = p" "kern_template k'"
    "pages_needed ps \<le> length (free_pages k')" "mem.more k' = mem.more (k\<lparr>envs := (\<lambda>_. zero_env), cr3 := p\<rparr>)"
    "kdir_ok k' p" "\<And>s. kslot s \<Longrightarrow> table k' p s \<noteq> None" "unat (mmio_base k') = (mmio_page + 3) * 4096" "entry k' p (mmio_page + 3) = 0"
    "untouched p k k'"
proof -
  let ?n = "memory_pages dev" and ?k1 = "fst (i386_detect_memory k dev)" and ?dev = "dev\<lparr>cmos_index := ucast (NVRAM_EXT16LO + 1)\<rparr>"
  have det: "i386_detect_memory k dev = (?k1, ?dev)" by (metis detect_shape fst_conv)
  have n: "npages ?k1 = ?n" by (subst detect_shape) simp
  have h: "unat (ROUNDUP (end_sym sy) PGSIZE) = unat KERNBASE + p * 4096" "PGNUM EXTPHYSMEM \<le> p" "p + 34 + array_pages ?n + 69 \<le> ?n" "?n \<le> 0x10000"
    "KERNBASE \<le> percpu_kstacks sy" "aligned (percpu_kstacks sy)" "unat (percpu_kstacks sy) + NCPU * unat KSTKSIZE \<le> 2 ^ 32"
    using b by (simp_all add: bootable_def first_page_def)
  obtain k' where k': "mem_init (end_sym sy) (percpu_kstacks sy) cr0 k dev = Some (k', ?dev, config_cr0 cr0)"
    "alloc_ok k'" "length (free_pages k') + 68 = card (usable (p + 34 + array_pages ?n) ?n)" "npages k' = ?n" "kern_pgdir k' = p" "kern_template k'"
    "mem.more k' = mem.more (k\<lparr>envs := (\<lambda>_. zero_env), cr3 := p\<rparr>)" "kdir_ok k' p" "\<And>s. kslot s \<Longrightarrow> table k' p s \<noteq> None"
    "unat (mmio_base k') = (mmio_page + 3) * 4096"
    "\<And>f. f \<notin> usable (p + 34 + array_pages ?n) ?n \<Longrightarrow> f \<noteq> p \<Longrightarrow> frames k' f = frames k f"
    "\<And>v. kslot (v div 1024) \<Longrightarrow> entry k' p v = kernel_map (array_pages ?n) (word_of_nat ((p + 1) * 4096))
       (word_of_nat ((p + 1 + array_pages ?n) * 4096)) (percpu_kstacks sy - KERNBASE) v"
    by (rule mem_init_run [OF det z h(1-2) h(3-7) [folded n], unfolded n]) (rule that, assumption+)
  have "array_pages ?n \<le> 128" using h(4) unfolding array_pages_def by linarith
  then have "kernel_map (array_pages ?n) a c d (mmio_page + 3) = 0" for a c d
    by (simp add: kernel_map_def stacks_map_def mmio_page_def layout_pages)
  moreover have "kslot ((mmio_page + 3) div 1024)" by (simp add: kslot_def mmio_page_def)
  ultimately have "entry k' p (mmio_page + 3) = 0" using k'(12) by simp
  then show thesis
    using that [OF k'(1) refl k'(2,4-6) _ k'(7-10)] k'(3,4,11) b by (simp add: bootable_def first_page_def untouched_def)
qed

lemma env_init_memory: "kdir_ok (env_init k) d = kdir_ok k d" "table (env_init k) d s = table k d s" "entry (env_init k) d v = entry k d v"
    "free_pages (env_init k) = free_pages k" "alloc_ok (env_init k) = alloc_ok k" "kern_template (env_init k) = kern_template k"
  by (simp_all add: env_init_def kdir_ok_def alloc_ok_def free_pages_def table_def entry_def kern_template_def)

text \<open>What is left to do when the tables are there: the controller, the lock, the other processors and the environments.\<close>

lemma environments_ready:
  fixes k :: kern
  assumes b: "bootable sy p (npages k) ps" and k: "alloc_ok k" "kern_pgdir k = p" "kern_template k" "pages_needed ps \<le> length (free_pages k)"
    and lock: "lock_holder k = Some (cpunum k)" and fresh: "unused_from 0 k" "env_free_list k = Some 0" "curenv k = None"
      "mlfq_scheduler k = mlfq_init" "\<And>i. cola_actual (envs k i) = 0"
  obtains started k1 dev' k2 k3 where "boot_aps (mpentry_code sy) (percpu_kstacks sy) s k dev = Some (started, k1, dev')"
    "started = map (\<lambda>c. (c, kstack_top (percpu_kstacks sy) c)) (filter (\<lambda>c. c \<noteq> lapic_cpunum dev) [0..<ncpu s])"
    "create_envs (images sy) k1 = Some k2" "sched_yield pol k2 = Some (Runs 0, k3)" "after (Some (Runs 0)) k3"
    "\<And>i. i < length ps \<Longrightarrow> env_status (envs k3 i) = (if i = 0 then ENV_RUNNING else ENV_RUNNABLE) \<and> env_id (envs k3 i) = next_env_id 0 i
       \<and> env_tf (envs k3 i) = user_tf\<lparr>tf_eip := snd (ps ! i)\<rparr>"
    "\<And>i. length ps \<le> i \<Longrightarrow> i < NENV \<Longrightarrow> env_status (envs k3 i) = ENV_FREE"
proof -
  have p: "0x100 \<le> p" "p < npages k" "7 < npages k" "length (mpentry_code sy) \<le> 4096"
    using b by (auto simp: bootable_def first_page_def PGNUM_nat layout)
  have ps: "programs (images sy) ps" "length (images sy) = length ps" "ps \<noteq> []" "length ps \<le> NENV"
    using b by (auto simp: bootable_def programs_def list_all2_lengthD)
  obtain k1 dev' where k1: "boot_aps (mpentry_code sy) (percpu_kstacks sy) s k dev
      = Some (map (\<lambda>c. (c, kstack_top (percpu_kstacks sy) c)) (filter (\<lambda>c. c \<noteq> lapic_cpunum dev) [0..<ncpu s]), k1, dev')"
    "pokes {0, 7} k k1" using boot_aps_ok [OF p(3,4)] by blast
  obtain F where F: "k1 = k\<lparr>frames := F\<rparr>" "F p = frames k p" using k1(2) p(1) by (auto simp: pokes_def)
  have same: "free_pages k1 = free_pages k" "alloc_ok k1" using k(1) by (simp_all add: F(1) free_pages_def alloc_ok_def)
  have tm: "kern_template k1" using k(2,3) F(2) same by (simp add: F(1) kern_template_def free_pages_def)
  have it: "items k1 x = []" for x using fresh(4) by (cases x) (simp_all add: items_def F(1) mlfq_init_def cola_def empty_cola_def contents_def)
  then have tot: "total k1 = {#}" by (simp add: total_def)
  have "cola_ok (cola (mlfq_scheduler k1) x)" for x using fresh(4) by (cases x) (simp_all add: F(1) mlfq_init_def cola_def empty_cola_def cola_ok_def)
  then have qs: "queues_ok k1" by (simp add: queues_ok_def tot)
  have un: "unused_from 0 k1" using fresh(1) by (simp add: unused_from_def F(1))
  have "env_table_ok k1 0" using fresh by (auto simp: env_table_ok_def F(1) unused_from_def NENV_def)
  then have c: "creating k1 0" using same(2) tm qs fresh(3) tot by (auto simp: creating_def NENV_def) (simp add: F(1))
  have r: "0 + length (images sy) \<le> NENV" "size (total k1) = 0" "pages_needed ps \<le> length (free_pages k1)" "curenv k1 = None"
    using ps(2,4) k(4) same(1) tot fresh(3) by (simp_all add: F(1))
  obtain k2 where k2: "create_envs (images sy) k1 = Some k2" "unused_from (0 + length (images sy)) k2"
    "\<And>i. i < length (images sy) \<Longrightarrow> env_status (envs k2 (0 + i)) = ENV_RUNNABLE \<and> env_id (envs k2 (0 + i)) = next_env_id 0 (0 + i)
       \<and> env_tf (envs k2 (0 + i)) = user_tf\<lparr>tf_eip := snd (ps ! i)\<rparr> \<and> env_pgdir (envs k2 (0 + i)) \<noteq> None"
    "items k2 A = items k1 A @ map (next_env_id 0) [0..<0 + length (images sy)]" "\<And>x. x \<noteq> A \<Longrightarrow> items k2 x = items k1 x" "queues_ok k2"
    "curenv k2 = None" "lock_holder k2 = lock_holder k1" "cpunum k2 = cpunum k1"
    "ejecuciones_totales (mlfq_scheduler k2) = ejecuciones_totales (mlfq_scheduler k1)"
    by (rule create_envs_run [OF c un ps(1) r qs]) (rule that, assumption+)
  have q: "items k2 A = map (next_env_id 0) [0..<length ps]" "\<And>x. x \<noteq> A \<Longrightarrow> items k2 x = []" using k2(4,5) it ps(2) by simp_all
  have n: "0 < length ps" "lock_holder k2 = Some (cpunum k2)" "ejecuciones_totales (mlfq_scheduler k2) = 0"
    using ps(3) k2(8-10) lock fresh(4) by (simp_all add: F(1) mlfq_init_def)
  have st: "env_status (envs k2 i) = ENV_RUNNABLE \<and> env_pgdir (envs k2 i) \<noteq> None" if "i < length ps" for i
    using k2(3) [of i] that ps(2) by simp
  obtain k3 where k3: "sched_yield pol k2 = Some (Runs 0, k3)" "after (Some (Runs 0)) k3" "same_programs k2 k3"
    "\<And>i. i \<noteq> 0 \<Longrightarrow> env_status (envs k3 i) = env_status (envs k2 i)"
    by (rule first_yield [OF k2(6) q(1) n(1) ps(4) q(2) n(2) k2(7) n(3) st]) (assumption+, rule that, assumption+)
  have run: "env_status (envs k3 0) = ENV_RUNNING" using k3(2) by (auto simp: after_def)
  show thesis
  proof (rule that [OF k1(1) refl k2(1) k3(1,2)])
    show "env_status (envs k3 i) = (if i = 0 then ENV_RUNNING else ENV_RUNNABLE) \<and> env_id (envs k3 i) = next_env_id 0 i
       \<and> env_tf (envs k3 i) = user_tf\<lparr>tf_eip := snd (ps ! i)\<rparr>" if "i < length ps" for i
      using k2(3) [of i] k3(3,4) run that ps(2) by (simp add: same_programs_def)
    show "env_status (envs k3 i) = ENV_FREE" if "length ps \<le> i" "i < NENV" for i
      using k3(4) [of i] k2(2) that ps(2,3) by (cases ps) (auto simp: unused_from_def)
  qed
qed


text \<open>However another processor got into \<open>mp_main\<close>, if it comes out of it, it runs an environment or halts with the lock released, or
  sits in the monitor with the lock held.\<close>

lemma mp_main_leaves: "mp_main pol sy m = Some (f, m') \<Longrightarrow> after (Some f) (m_kern m')"
  unfolding mp_main_def Let_def by (auto dest!: lock_kernel_holds split: bind_splits) (erule (1) sched_yield_after)

text \<open>A machine with two megabytes, two processors and an image of one program.\<close>

definition demo_symbols :: symbols where
  "demo_symbols = \<lparr>end_sym = 0xF0100000, percpu_kstacks = 0xF0000000, trap_entry = (\<lambda>_. 0), cpu_ts = (\<lambda>_. 0), mpentry_code = [0xFA], images = [demo_elf]\<rparr>"

definition demo_devices :: devices where
  "demo_devices = (let c = \<lparr>icw_next = 0, icw2 = 0, icw3 = 0, icw4 = 0, imr = 0\<rparr> in
     \<lparr>pic1 = c, pic2 = c, cmos_index = 0, cmos = (\<lambda>_. 0)(0x18 := 4), irq_mask_8259A = 0, didinit = False, lapic = None,
      lapic_regs = (\<lambda>_. 0), lapic_writes = []\<rparr>)"

definition demo_machine :: machine where
  "demo_machine = \<lparr>m_kern = (zero_kern 0)\<lparr>frames := (\<lambda>_ _. 0)(0 := mp_words)\<rparr>, m_dev = demo_devices, m_smp = smp_zero, m_gdt = gdt,
     m_ts = (\<lambda>_. zero_ts), m_idt = (\<lambda>_. null_gate), m_tr = 0, m_cr0 = 0\<rparr>"

lemma demo_pages: "memory_pages (m_dev demo_machine) = 512"
  by (simp add: memory_pages_def i386_detect_memory_def nvram_read_shape demo_machine_def demo_devices_def Let_def NVRAM_BASELO_def
      NVRAM_EXTLO_def NVRAM_EXT16LO_def PGSIZE_def)

lemma demo_bootable: "bootable demo_symbols 0x100 512 [([demo_header], 0x800FFE)]"
proof -
  have r: "ROUNDUP 0xF0100000 PGSIZE = 0xF0100000" by (simp add: ROUNDUP_def ROUNDDOWN_def PGSIZE_def)
  have "{8..<0xA0} \<subseteq> usable 291 512" by (auto simp: usable_def page_reserved_def PGNUM_nat layout)
  then have "card {8..<0xA0 :: nat} \<le> card (usable 291 512)" by (intro card_mono) (simp_all add: usable_def)
  moreover have "pages_needed [([demo_header], 0x800FFE)] = 7" by (simp add: pages_needed_def needs_def demo_region)
  moreover have "programs [demo_elf] [([demo_header], 0x800FFE)]" using demo_program by (simp add: programs_def)
  ultimately show ?thesis
    using r by (simp add: bootable_def demo_symbols_def first_page_def array_pages_def layout PGNUM_nat aligned_def NCPU_def NENV_def)
qed


end
