(* ===== verification/Sh_Types.thy ===== *)
theory Sh_Types
  imports Sh_Parse
begin

text \<open>
  The typing rules that \<open>shell/types.h\<close> gives for commands, as a judgement: the tag of a command tells which struct
  it is, so that the casts of \<open>exec_cmd\<close> and \<open>free_command\<close> are right, and the arrays of the struct have room for
  what is in them. Whatever the line, what the parser returns is typed.
\<close>

section \<open>The judgement\<close>

definition FNAMESIZE :: nat where "FNAMESIZE = 1024"

text \<open>A simple command: \<open>REDIR\<close> if a file is named, and nothing else than \<open>EXEC\<close> or \<open>REDIR\<close>; the words are not empty and
  leave room for the null pointer that ends \<open>argv\<close>; each variable is \<open>KEY=VALUE\<close>.\<close>

definition assignment :: "string \<Rightarrow> bool" where
  "assignment v \<longleftrightarrow> (\<exists>key val. v = key @ CHR 0x3D # val \<and> key \<noteq> [] \<and> CHR 0x3D \<notin> set key)"

definition typed_exec :: "execcmd \<Rightarrow> bool" where
  "typed_exec e \<longleftrightarrow> ec_type e \<in> {EXEC, REDIR}
     \<and> (ec_type e = EXEC \<longrightarrow> ec_out e = [] \<and> ec_in e = [] \<and> ec_err e = [])
     \<and> length (ec_argv e) \<le> MAXARGS \<and> [] \<notin> set (ec_argv e)
     \<and> length (ec_eargv e) \<le> MAXARGS \<and> (\<forall>v\<in>set (ec_eargv e). assignment v)
     \<and> length (ec_out e) < FNAMESIZE \<and> length (ec_in e) < FNAMESIZE \<and> length (ec_err e) < FNAMESIZE"

inductive typed :: "cmd \<Rightarrow> cmd_type \<Rightarrow> bool" where
  typed_Exec: "typed_exec e \<Longrightarrow> length (ec_argv e) < MAXARGS \<Longrightarrow> ec_type e = ty \<Longrightarrow> typed (Execcmd e) ty"
| typed_Back: "typed (Execcmd e) ty \<Longrightarrow> s = ec_scmd e \<Longrightarrow> typed (Backcmd 0 s (Execcmd e)) BACK"
| typed_Pipe: "typed l ty \<Longrightarrow> ty \<noteq> PIPE \<Longrightarrow> typed r ty' \<Longrightarrow> typed (Pipecmd 0 (Some l) r) PIPE"
| typed_Half: "typed r ty \<Longrightarrow> typed (Pipecmd 0 None r) PIPE"

inductive_cases typed_ExecE: "typed (Execcmd e) ty"
inductive_cases typed_BackE: "typed (Backcmd pid s c) ty"
inductive_cases typed_PipeE: "typed (Pipecmd pid l r) ty"

inductive_simps typed_simps: "typed (Execcmd e) ty" "typed (Backcmd pid s c) ty" "typed (Pipecmd pid l r) ty"

text \<open>The tag is the one the command carries, and it determines the struct.\<close>

lemma typed_tag: "typed c ty \<Longrightarrow> type_of_cmd c = ty"
  by (induction rule: typed.induct) simp_all

lemma typed_cast:
  assumes "typed c ty"
  shows "ty = BACK \<longleftrightarrow> (\<exists>pid s c'. c = Backcmd pid s c')" "ty = PIPE \<longleftrightarrow> (\<exists>pid l r. c = Pipecmd pid l r)"
    "ty \<in> {EXEC, REDIR} \<longleftrightarrow> (\<exists>e. c = Execcmd e)"
  using assms by (cases c; auto simp: typed_simps typed_exec_def)+

section \<open>The parser\<close>

lemma contains_assignment: "block_contains s (CHR 0x3D) > 0 \<Longrightarrow> assignment s"
proof -
  assume "block_contains s (CHR 0x3D) > 0"
  then obtain i where i: "strchr_c s (CHR 0x3D) = Some i" "0 < i" by (auto simp: block_contains_def split: option.splits)
  then have "i < length s" "s ! i = CHR 0x3D" "CHR 0x3D \<notin> set (take i s)" using strchr_c_Some by blast+
  moreover from this have "s = take i s @ s ! i # drop (Suc i) s" by (intro id_take_nth_drop)
  moreover have "take i s \<noteq> []" using i(2) \<open>i < length s\<close> by auto
  ultimately show ?thesis unfolding assignment_def by metis
qed

text \<open>The updates the parser makes.\<close>

lemma typed_exec_updates:
  "typed_exec c \<Longrightarrow> length f < FNAMESIZE \<Longrightarrow> typed_exec (c\<lparr>ec_out := f, ec_type := REDIR\<rparr>)"
  "typed_exec c \<Longrightarrow> length f < FNAMESIZE \<Longrightarrow> typed_exec (c\<lparr>ec_in := f, ec_type := REDIR\<rparr>)"
  "typed_exec c \<Longrightarrow> length f < FNAMESIZE \<Longrightarrow> typed_exec (c\<lparr>ec_err := f, ec_type := REDIR\<rparr>)"
  "typed_exec c \<Longrightarrow> typed_exec (c\<lparr>ec_type := REDIR\<rparr>)"
  "typed_exec c \<Longrightarrow> length (ec_argv c) < MAXARGS \<Longrightarrow> tok \<noteq> [] \<Longrightarrow> typed_exec (c\<lparr>ec_argv := ec_argv c @ [tok]\<rparr>)"
  "typed_exec c \<Longrightarrow> length (ec_eargv c) < MAXARGS \<Longrightarrow> assignment tok \<Longrightarrow> typed_exec (c\<lparr>ec_eargv := ec_eargv c @ [tok]\<rparr>)"
  by (auto simp: typed_exec_def)

lemma parse_redir_flow_typed:
  assumes "parse_redir_flow c tok = (r, c')" and "typed_exec c" and "length tok \<le> FNAMESIZE"
  shows "typed_exec c'" "ec_scmd c' = ec_scmd c"
proof -
  have d: "length (drop (Suc n) tok) < FNAMESIZE" for n using assms(3) by (simp add: FNAMESIZE_def)
  have o: "length (ec_out c) < FNAMESIZE" using assms(2) by (simp add: typed_exec_def)
  note u = typed_exec_updates(1-4) [OF assms(2)]
  define i where "i = block_contains tok (CHR 0x3E)"
  have n: "nat (i + 1) = Suc (nat i)" if "0 \<le> i" using that by simp
  show "typed_exec c'" using assms(1,2) d [of 0] d [of "nat i"] o u(1) [of "drop 1 tok"] u(2) [of "drop 1 tok"] u(3) u(4)
    unfolding parse_redir_flow_def Let_def i_def [symmetric]
    by (simp split: if_splits add: n) auto
  show "ec_scmd c' = ec_scmd c" using assms(1) by (auto simp: parse_redir_flow_def Let_def split: if_splits)
qed

lemma parse_environ_var_typed:
  assumes "parse_environ_var c tok = Some (env, c')" and "typed_exec c"
  shows "typed_exec c'" "ec_scmd c' = ec_scmd c"
  using assms contains_assignment [of tok] typed_exec_updates(6) [OF assms(2), of tok]
  by (auto simp: parse_environ_var_def split: if_splits)

lemma parse_token_typed:
  assumes "parse_token status getenv c tok = Some c'" and "typed_exec c" and "length tok \<le> FNAMESIZE"
  shows "typed_exec c'" "ec_scmd c' = ec_scmd c"
proof -
  obtain r c1 where r: "parse_redir_flow c tok = (r, c1)" by force
  note t = parse_redir_flow_typed [OF r assms(2,3)]
  have "typed_exec c' \<and> ec_scmd c' = ec_scmd c"
  proof (cases r)
    case True
    then show ?thesis using assms(1) r t by (simp add: parse_token_def)
  next
    case False
    then obtain env c2 where e: "parse_environ_var c1 tok = Some (env, c2)"
      using assms(1) r by (auto simp: parse_token_def bind_eq_Some_conv)
    note t2 = parse_environ_var_typed [OF e t(1)]
    show ?thesis using assms(1) r e False t(2) t2 typed_exec_updates(5) [OF t2(1)]
      by (simp add: parse_token_def Let_def split: if_splits) auto
  qed
  then show "typed_exec c'" "ec_scmd c' = ec_scmd c" by simp_all
qed

lemma parse_exec_loop_typed:
  "parse_exec_loop status getenv buf idx c = Some c' \<Longrightarrow> typed_exec c \<Longrightarrow> length buf \<le> FNAMESIZE
    \<Longrightarrow> typed_exec c' \<and> ec_scmd c' = ec_scmd c"
proof (induction status getenv buf idx c rule: parse_exec_loop.induct)
  case (1 status getenv buf idx c)
  obtain ch where ch: "peek buf idx = Some ch" using 1(2) by (subst (asm) parse_exec_loop.simps) (auto split: option.splits)
  show ?case
  proof (cases "ch = NUL")
    case True
    then show ?thesis using 1(2,3) ch by (subst (asm) parse_exec_loop.simps) simp
  next
    case False
    then obtain tok ch' c1 where t: "get_token buf idx = Some tok" "peek buf (idx + length tok) = Some ch'"
      "parse_token status getenv c tok = Some c1"
      "parse_exec_loop status getenv buf (if ch' \<noteq> NUL then idx + length tok + 1 else idx + length tok) c1 = Some c'"
      using 1(2) ch by (subst (asm) parse_exec_loop.simps) (auto simp: Let_def bind_eq_Some_conv split: option.splits)
    have "idx + length tok < length buf" using t(2) by (simp add: peek_eq_Some_iff)
    then have "length tok \<le> FNAMESIZE" using 1(4) by simp
    note p = parse_token_typed [OF t(3) 1(3) this]
    show ?thesis using "1.IH" [OF ch False t(1) refl t(2,3,4) p(1) 1(4)] p(2) by simp
  qed
qed

lemma parse_exec_typed:
  assumes "parse_exec status getenv buf p = Some e" and "length buf \<le> FNAMESIZE"
  shows "typed (Execcmd e) (ec_type e)"
proof -
  have "typed_exec (exec_cmd_create s)" for s by (simp add: typed_exec_def exec_cmd_create_def FNAMESIZE_def MAXARGS_def)
  then show ?thesis using assms parse_exec_loop_typed
    by (fastforce simp: parse_exec_def typed_simps bind_eq_Some_conv split: if_splits)
qed

lemma parse_cmd_typed:
  assumes "parse_cmd status getenv buf p = Some (buf', Some c)" and "length buf \<le> FNAMESIZE"
  shows "\<exists>ty. typed c ty \<and> ty \<noteq> PIPE"
proof -
  have one: "\<exists>ty. typed (Execcmd e) ty \<and> ty \<noteq> PIPE" if "parse_exec status getenv b p = Some e" "length b \<le> FNAMESIZE" for b e
    using parse_exec_typed [OF that] by (auto simp: typed_simps typed_exec_def)
  have bg: "\<exists>ty. typed c ty \<and> ty \<noteq> PIPE" if pb: "parse_back status getenv buf p = Some (buf', c)"
  proof -
    obtain i b e where b: "poke buf i NUL = Some b" "parse_exec status getenv b p = Some e" "c = back_cmd_create e"
      using pb by (auto simp: parse_back_def bind_eq_Some_conv)
    then have "length b = length buf" by (auto simp: poke_eq_Some_iff)
    then have "typed c BACK" using b(2,3) parse_exec_typed [of status getenv b p e] assms(2)
      by (auto simp: back_cmd_create_def intro: typed_Back)
    then show ?thesis by blast
  qed
  show ?thesis using assms one [of buf] bg
    by (auto simp: parse_cmd_def Let_def bind_eq_Some_conv split: if_splits)
qed

lemma parse_line_well_typed:
  "parse_line status getenv buf p = Some (buf', Some c) \<Longrightarrow> length buf \<le> FNAMESIZE \<Longrightarrow> \<exists>ty. typed c ty"
proof (induction status getenv buf p arbitrary: buf' c rule: parse_line.induct)
  case (1 status getenv buf p)
  have "\<exists>buf1 q buf2 l s r. p < length buf \<and> split_line buf p (CHR 0x7C) = Some (buf1, q) \<and> parse_cmd status getenv buf1 p = Some (buf2, l)
    \<and> str_at buf2 q = Some s
    \<and> (if block_contains s (CHR 0x7C) > 0 then parse_line status getenv buf2 q else parse_cmd status getenv buf2 q) = Some (buf', r)
    \<and> Some c = pipe_cmd_create l r"
    using 1(2) by (subst (asm) parse_line.simps) (auto simp: bind_eq_Some_conv split: if_splits)
  then obtain buf1 q buf2 l s r where p: "p < length buf" "split_line buf p (CHR 0x7C) = Some (buf1, q)" "parse_cmd status getenv buf1 p = Some (buf2, l)"
    "str_at buf2 q = Some s"
    "(if block_contains s (CHR 0x7C) > 0 then parse_line status getenv buf2 q else parse_cmd status getenv buf2 q) = Some (buf', r)"
    "Some c = pipe_cmd_create l r" by blast
  have len: "length buf1 \<le> FNAMESIZE" "length buf2 \<le> FNAMESIZE"
    using p(2) parse_cmd_length [OF p(3)] 1(3) by (auto simp: split_line_def bind_eq_Some_conv poke_eq_Some_iff)
  have l: "\<exists>ty. typed x ty \<and> ty \<noteq> PIPE" if "l = Some x" for x using parse_cmd_typed [OF _ len(1)] p(3) that by simp
  have r: "\<exists>ty. typed x ty" if "r = Some x" for x
  proof (cases "block_contains s (CHR 0x7C) > 0")
    case True
    have "\<not> \<not> p < length buf" using p(1) by simp
    then show ?thesis using "1.IH" [OF _ p(2) refl p(3) refl p(4) True, of buf' x] len(2) p(5) True that by simp
  next
    case False
    then show ?thesis using parse_cmd_typed [of status getenv buf2 q buf' x] len(2) p(5) that by auto
  qed
  show ?case
  proof (cases r)
    case None
    then show ?thesis using p(6) l by (auto simp: pipe_cmd_create_def)
  next
    case (Some y)
    then obtain ty where y: "typed y ty" using r by blast
    have c: "c = Pipecmd 0 l y" using p(6) Some by (simp add: pipe_cmd_create_def)
    show ?thesis
    proof (cases l)
      case None
      then show ?thesis using typed_Half [OF y] c by blast
    next
      case (Some x)
      then show ?thesis using l [OF Some] typed_Pipe [OF _ _ y] c by blast
    qed
  qed
qed


text \<open>The line \<open>ls >f\<close>.\<close>

lemma demo_parsed:
  "parse_line 0 (\<lambda>_. None) (''ls >f'' @ [NUL, NUL]) 0
    = Some (''ls >f'' @ [NUL, NUL], Some (Execcmd (exec_cmd_create ''ls >f'' \<lparr>ec_type := REDIR, ec_argv := [''ls''], ec_out := ''f''\<rparr>)))"
  by code_simp


end
