(* ===== verification/Spec2Isabelle.thy ===== *)
theory Spec2Isabelle
  imports Fs_Props Kern_Props Sched_Props Fork_Props Trap_Props Sh_Props Lib_Props Spinlock Kdebug_Props Monitor Kern_Start Sh_Types
begin

text \<open>
  A verification development for three programs in C: \<open>file_system/\<close>, a file system in user space on top of
  FUSE; \<open>scheduler/\<close>, a small multiprocessor kernel in the JOS tradition with its user library; and \<open>shell/\<close>, a
  command interpreter.

  \<^bold>\<open>Conventions.\<close> The definitions have the names of the functions and structs they model and take the state of the
  program as an argument and return it updated. \<open>None\<close> of the option monad is undefined behaviour, a panic or an
  assertion that fails; error codes and early returns are values. Integers of the hosted programs are \<open>int\<close> with
  the conversions written out, those of the kernel are words of 8, 16, 32 or 64 bits. Loops are recursions with
  a termination proof. What is outside of the sources (the kernel below the shell, the FUSE library, device
  registers, the contents of files) is an argument.

  \<^bold>\<open>The file system.\<close> \<open>Fs_Inodes\<close>: the inode table of \<open>fs.c\<close> as a record of its arrays and the directories as the text
  the code keeps in their blocks. \<open>Fs_Handlers\<close>: every FUSE handler of \<open>fisopfs.c\<close>. \<open>Fs_Disk\<close>: \<open>serialize\<close> and
  \<open>deserialize\<close> on the bytes of the image. \<open>Fs_Tree\<close>: the contract between the paths of the inodes and the texts of
  the directories, and its preservation by every request. \<open>Fs_Props\<close>: its properties (listings agree with inodes,
  reads return what writes stored, saving and loading), and where the code breaks.

  \<^bold>\<open>Memory of the kernel.\<close> \<open>Kern_Mem\<close>: the page allocator, page tables and address checks of \<open>pmap.c\<close>; physical
  memory is a function from frames and indices to words. \<open>Kern_Pages\<close>: the free list as a list of pages; \<open>Kern_Vm\<close>: the
  mapping of an address space as a partial function, and what walking, inserting and removing do to it;
  \<open>Kern_Spaces\<close>: two address spaces side by side. \<open>Kern_Props\<close>: exact reference counts, \<open>user_mem_check\<close>.

  \<^bold>\<open>Processes.\<close> \<open>Console\<close>: \<open>console.c\<close>. \<open>Kern_State\<close>: environments, trap frames, the state of the CPU and
  \<open>env_run\<close>. \<open>Sched\<close> and \<open>Sched_Props\<close>: the two policies of \<open>sched.c\<close>, the queues as lists of ids, no starvation
  between two boosts. \<open>Spinlock\<close>: the kernel lock with all CPUs interleaved as a step relation. \<open>Env\<close> and
  \<open>Env_Props\<close>: the life of an environment (\<open>env.c\<close>); \<open>Env_Load\<close>: loading a program, on the bytes its address space shows. \<open>Syscall\<close> and \<open>Syscall_Props\<close>: \<open>syscall.c\<close>. \<open>Trap\<close> and
  \<open>Trap_Props\<close>: segments, gates and \<open>trap.c\<close>; every path through a trap leaves the kernel lock as it must be.
  \<open>Fork\<close> and \<open>Fork_Props\<close>: \<open>fork.c\<close>, \<open>pgfault.c\<close> and \<open>ipc.c\<close> of the user library as sequences of system calls.

  \<^bold>\<open>Setting up the kernel.\<close> \<open>Kern_Boot\<close>: the mappings of \<open>mem_init\<close> and \<open>check_kern_pgdir\<close>; \<open>Kern_Boot_Vm\<close>: the kernel's part of
  an address space, step by step; \<open>Kern_Boot_Checks\<close>: the mappings pass the check. \<open>Kern_Checks\<close>: the self checks of
  the free list, the allocator and the page tables, and \<open>mem_init\<close>; \<open>Kern_Check_Lists\<close>, \<open>Kern_Check_Tables\<close> and
  \<open>Kern_Init\<close>: that they pass, by computing on the states they go through; \<open>Kern_Mem_Init\<close>: on a machine with at most
  256 MB \<open>mem_init\<close> as a whole returns, every check on the way included. \<open>Mp_Config\<close>: \<open>mpconfig.c\<close> on the bytes of
  physical memory; \<open>Devices\<close>: the interrupt controllers, the clock and the start of the other processors, with
  the chips as their data sheets describe them. \<open>Kern_Start\<close>: \<open>i386_init\<close> and \<open>mp_main\<close> of \<open>init.c\<close>, which call all of these in
  their order, and that the kernel comes up and runs the first program of its image.

  \<^bold>\<open>Debugging.\<close> \<open>Kdebug\<close> and \<open>Kdebug_Props\<close>: the search of the symbol table of \<open>kdebug.c\<close>, on tables that may hold
  anything; \<open>Monitor\<close>: the command line of the kernel monitor.

  \<^bold>\<open>Shared library.\<close> \<open>Lib_String\<close>: \<open>string.c\<close> on one memory of bytes; \<open>Lib_Printf\<close>: \<open>printfmt.c\<close>, \<open>printf.c\<close> and
  \<open>readline.c\<close>; \<open>Lib_Props\<close>: their properties.

  \<^bold>\<open>The shell.\<close> \<open>Sh_Parse\<close>: reading and parsing, with indices into the line buffer; \<open>Sh_Spec\<close>: the same on strings,
  and the equivalence; \<open>Sh_Types\<close>: the typing rules of \<open>types.h\<close>, which every parsed command obeys. \<open>Sh_Exec\<close>: \<open>exec.c\<close> as a function from commands to trees of processes with their
  descriptors; \<open>Sh_Procs\<close>: redirections and pipelines. \<open>Sh_Run\<close>: built-ins, \<open>run_cmd\<close>, the main loop, and
  the children with the signal handler as a step relation. \<open>Sh_Props\<close>: the properties.

  \<open>Prelude\<close> has what they share: C buffers, C strings, conversions of integers, search loops.

  \<^bold>\<open>Kinds of properties.\<close> Typing of the commands of the shell; invariants over all reachable states (the directory listings of the file system, the
  kernel lock, the children of the shell); the functional behaviour of the operations on every branch, errors
  included; equivalence with reference definitions (the parser of the shell, \<open>memmove\<close>); round trips; bounds; and
  statements of what goes wrong, where the code does not do what it means to.

  \<^bold>\<open>Not modelled.\<close> Assembly (the entry code, the trap entry points and the context switch, which save and load
  registers only), diagnostic output, what the other processors do while \<open>boot_aps\<close> waits for them, and the example programs
  and tests. The long page table of \<open>entrypgdir.c\<close> is disabled in the sources by the preprocessor.
\<close>

end
